(* ===== verification/Zeno_Prelude.thy ===== *)
theory Zeno_Prelude
  imports Main "HOL-Library.Word" "HOL-Library.Multiset" "HOL-Library.Sublist"
    "HOL-Library.List_Lexorder" "HOL-Library.Product_Lexorder"
begin

text \<open>
  The vocabulary shared by every component: the Rust machine types, results with the
  sequencing that the question-mark operator performs, checked arithmetic and integer
  conversions, big-endian byte strings, the standard library's binary search and byte
  cursors.  The component theories add nothing generic of their own.

  Integers on the wire and identifiers are words of their width.  Lengths, counters and
  limits (\<^verbatim>\<open>usize\<close>, \<^verbatim>\<open>u64\<close>, \<^verbatim>\<open>u32\<close>) are natural numbers, and every operation on
  them that can overflow is the checked operation of the source with its bound written
  out; \<^verbatim>\<open>usize\<close> has 64 bits.  A signed 128-bit integer is the word of its two's
  complement bits, read by \<open>sint\<close>.  A string slice is the list of its UTF-8 bytes.
\<close>

unbundle bit_operations_syntax

section \<open>Machine types\<close>

type_synonym u8 = "8 word"
type_synonym u16 = "16 word"
type_synonym u32 = "32 word"
type_synonym u64 = "64 word"
type_synonym u128 = "128 word"
type_synonym i128 = "128 word"
type_synonym hash32 = "256 word"
type_synonym bytes = "u8 list"

named_theorems rust_simps \<open>rewriting of the modelled Rust library operations\<close>
named_theorems be_simps \<open>lengths and inverses of big-endian byte strings\<close>

section \<open>Results\<close>

abbreviation Ok :: "'a \<Rightarrow> 'e + 'a" where
  "Ok \<equiv> Inr"

abbreviation Err :: "'e \<Rightarrow> 'e + 'a" where
  "Err \<equiv> Inl"

text \<open>\<^verbatim>\<open>let x = r?; f(x)\<close>\<close>

definition rbind :: "'e + 'a \<Rightarrow> ('a \<Rightarrow> 'e + 'b) \<Rightarrow> 'e + 'b" where
  "rbind r f = (case r of Inl e \<Rightarrow> Inl e | Inr x \<Rightarrow> f x)"

definition map_err :: "('e \<Rightarrow> 'f) \<Rightarrow> 'e + 'a \<Rightarrow> 'f + 'a" where
  "map_err f r = (case r of Inl e \<Rightarrow> Inl (f e) | Inr x \<Rightarrow> Inr x)"

definition ok_or :: "'a option \<Rightarrow> 'e \<Rightarrow> 'e + 'a" where
  "ok_or opt e = (case opt of None \<Rightarrow> Inl e | Some x \<Rightarrow> Inr x)"

definition guard_res :: "bool \<Rightarrow> 'e \<Rightarrow> 'e + unit" where
  "guard_res b e = (if b then Inl e else Inr ())"

fun is_ok :: "'e + 'a \<Rightarrow> bool" where
  "is_ok (Inl e) = False"
| "is_ok (Inr x) = True"

lemma rbind_simps [simp, rust_simps]:
  "rbind (Inl e) f = Inl e"
  "rbind (Inr x) f = f x"
  by (simp_all add: rbind_def)

lemma rbind_eq_Ok [simp]: "rbind r f = Inr y \<longleftrightarrow> (\<exists>x. r = Inr x \<and> f x = Inr y)"
  by (cases r) simp_all

lemma rbind_eq_Err: "rbind r f = Inl e \<longleftrightarrow> r = Inl e \<or> (\<exists>x. r = Inr x \<and> f x = Inl e)"
  by (cases r) simp_all

lemma if_Err_Ok: "(if b then Inl e else r) = Inr x \<longleftrightarrow> \<not> b \<and> r = Inr x"
  by simp

lemma rbind_Ok_E [elim]:
  assumes "rbind r f = Inr y"
  obtains x where "r = Inr x" and "f x = Inr y"
  using assms by auto

lemma rbind_cong [fundef_cong]:
  assumes "r = r'" and "\<And>x. r' = Inr x \<Longrightarrow> f x = g x"
  shows "rbind r f = rbind r' g"
  using assms by (cases r') simp_all

lemma rbind_assoc: "rbind (rbind r f) g = rbind r (\<lambda>x. rbind (f x) g)"
  by (cases r) simp_all

lemma map_err_simps [simp, rust_simps]:
  "map_err f (Inl e) = Inl (f e)"
  "map_err f (Inr x) = Inr x"
  by (simp_all add: map_err_def)

lemma map_err_eq_Err: "map_err f r = Inl e \<longleftrightarrow> (\<exists>x. r = Inl x \<and> e = f x)"
  by (cases r) auto

lemma map_err_eq_Ok [simp]: "map_err f r = Inr x \<longleftrightarrow> r = Inr x"
  by (cases r) simp_all

lemma ok_or_simps [simp, rust_simps]:
  "ok_or None e = Inl e"
  "ok_or (Some x) e = Inr x"
  by (simp_all add: ok_or_def)

lemma ok_or_eq_Ok [simp]: "ok_or opt e = Inr x \<longleftrightarrow> opt = Some x"
  by (cases opt) simp_all

lemma guard_res_simps [simp, rust_simps]:
  "guard_res True e = Inl e"
  "guard_res False e = Inr ()"
  by (simp_all add: guard_res_def)

lemma guard_res_eq_Ok [simp]: "guard_res b e = Inr u \<longleftrightarrow> \<not> b"
  by (simp add: guard_res_def)

lemma is_ok_iff: "is_ok r \<longleftrightarrow> (\<exists>x. r = Inr x)"
  by (cases r) simp_all

text \<open>A loop whose body may return early: over a fold, over a map, and for its effect only.\<close>

fun fold_res :: "('a \<Rightarrow> 's \<Rightarrow> 'e + 's) \<Rightarrow> 'a list \<Rightarrow> 's \<Rightarrow> 'e + 's" where
  "fold_res f [] s = Inr s"
| "fold_res f (x # xs) s = rbind (f x s) (fold_res f xs)"

fun map_res :: "('a \<Rightarrow> 'e + 'b) \<Rightarrow> 'a list \<Rightarrow> 'e + 'b list" where
  "map_res f [] = Inr []"
| "map_res f (x # xs) = rbind (f x) (\<lambda>y. rbind (map_res f xs) (\<lambda>ys. Inr (y # ys)))"

fun each_res :: "('a \<Rightarrow> 'e + unit) \<Rightarrow> 'a list \<Rightarrow> 'e + unit" where
  "each_res f [] = Inr ()"
| "each_res f (x # xs) = rbind (f x) (\<lambda>_. each_res f xs)"

lemma map_res_mem: "map_res f xs = Inr ys \<Longrightarrow> y \<in> set ys \<longleftrightarrow> (\<exists>x\<in>set xs. f x = Inr y)"
  by (induction xs arbitrary: ys) auto

lemma map_res_all: "map_res f xs = Inr ys \<Longrightarrow> x \<in> set xs \<Longrightarrow> \<exists>y. f x = Inr y"
  by (induction xs arbitrary: ys) auto

lemma map_res_eq_Ok: "map_res f xs = Inr ys \<longleftrightarrow> list_all2 (\<lambda>x y. f x = Inr y) xs ys"
  by (induction xs arbitrary: ys) (auto simp: list_all2_Cons1)

lemma each_res_eq_Ok: "each_res f xs = Inr u \<longleftrightarrow> (\<forall>x\<in>set xs. f x = Inr ())"
  by (induction xs) auto

lemma fold_res_append: "fold_res f (xs @ ys) s = rbind (fold_res f xs s) (fold_res f ys)"
  by (induction xs arbitrary: s) (simp_all add: rbind_def split: sum.splits)

section \<open>Checked arithmetic and conversions\<close>

abbreviation usize_max :: nat where
  "usize_max \<equiv> 2 ^ 64 - 1"

abbreviation u64_max :: nat where
  "u64_max \<equiv> 2 ^ 64 - 1"

abbreviation u32_max :: nat where
  "u32_max \<equiv> 2 ^ 32 - 1"

abbreviation u16_max :: nat where
  "u16_max \<equiv> 2 ^ 16 - 1"

definition checked_add :: "nat \<Rightarrow> nat \<Rightarrow> nat \<Rightarrow> nat option" where
  "checked_add bound a b = (if a + b \<le> bound then Some (a + b) else None)"

text \<open>\<^verbatim>\<open>u32::try_from\<close>, \<^verbatim>\<open>u64::try_from\<close> and the like: the same number if it fits.\<close>

definition try_from :: "nat \<Rightarrow> nat \<Rightarrow> nat option" where
  "try_from bound n = (if n \<le> bound then Some n else None)"

definition checked_div :: "nat \<Rightarrow> nat \<Rightarrow> nat option" where
  "checked_div a b = (if b = 0 then None else Some (a div b))"

lemma checked_add_eq_Some [simp, rust_simps]:
  "checked_add bound a b = Some c \<longleftrightarrow> c = a + b \<and> a + b \<le> bound"
  by (auto simp: checked_add_def)

lemma try_from_eq_Some [simp, rust_simps]:
  "try_from bound n = Some m \<longleftrightarrow> m = n \<and> n \<le> bound"
  by (auto simp: try_from_def)

lemma checked_div_eq_Some [simp, rust_simps]:
  "checked_div a b = Some c \<longleftrightarrow> b \<noteq> 0 \<and> c = a div b"
  by (auto simp: checked_div_def)

section \<open>Big-endian byte strings\<close>

text \<open>\<^verbatim>\<open>to_be_bytes\<close> restricted to the low \<open>n\<close> bytes, and \<^verbatim>\<open>from_be_bytes\<close>.\<close>

fun be_bytes :: "nat \<Rightarrow> 'a::len word \<Rightarrow> bytes" where
  "be_bytes 0 w = []"
| "be_bytes (Suc n) w = be_bytes n (drop_bit 8 w) @ [ucast w]"

definition be_word :: "bytes \<Rightarrow> 'a::len word" where
  "be_word bs = foldl (\<lambda>acc b. push_bit 8 acc OR ucast b) 0 bs"

lemma length_be_bytes [simp, be_simps]: "length (be_bytes n w) = n"
  by (induction n arbitrary: w) simp_all

lemma be_bytes_numeral:
  "be_bytes (numeral k) w = be_bytes (pred_numeral k) (drop_bit 8 w) @ [ucast w]"
  by (simp add: numeral_eq_Suc)

lemma be_word_Nil [simp]: "be_word [] = 0"
  by (simp add: be_word_def)

lemma be_word_snoc [simp]: "be_word (bs @ [b]) = push_bit 8 (be_word bs) OR ucast b"
  by (simp add: be_word_def)

lemma be_word_be_bytes [be_simps]:
  "be_word (be_bytes n w) = take_bit (8 * n) (w :: 'a::len word)"
proof (induction n arbitrary: w)
  case 0
  then show ?case by simp
next
  case (Suc n)
  show ?case
    by (rule bit_eqI)
      (auto simp: Suc bit_simps algebra_simps dest: bit_imp_le_length)
qed

lemma be_word_be_bytes_full [simp, be_simps]:
  assumes "LENGTH('a) \<le> 8 * n"
  shows "be_word (be_bytes n w) = (w :: 'a::len word)"
  using assms by (simp add: be_word_be_bytes take_bit_word_eq_self)

lemma bit_be_word_bound:
  "bit (be_word bs :: 'a::len word) n \<Longrightarrow> n < 8 * length bs"
proof (induction bs arbitrary: n rule: rev_induct)
  case Nil
  then show ?case by simp
next
  case (snoc b bs)
  then show ?case
    by (cases "n < 8") (auto simp: bit_simps dest: snoc.IH bit_imp_le_length)
qed

lemma be_bytes_be_word [be_simps]:
  assumes "8 * length bs \<le> LENGTH('a)"
  shows "be_bytes (length bs) (be_word bs :: 'a::len word) = bs"
  using assms
proof (induction bs rule: rev_induct)
  case Nil
  then show ?case by simp
next
  case (snoc b bs)
  let ?w = "be_word bs :: 'a word"
  have low: "ucast (push_bit 8 ?w OR ucast b) = b"
    using snoc.prems by (intro bit_eqI) (auto simp: bit_simps)
  have high: "drop_bit 8 (push_bit 8 ?w OR ucast b) = ?w"
    using snoc.prems
    by (intro bit_eqI) (auto simp: bit_simps dest: bit_be_word_bound bit_imp_le_length)
  from snoc low high show ?case by simp
qed

lemma be_bytes_inject:
  assumes "LENGTH('a) \<le> 8 * n"
  shows "be_bytes n v = be_bytes n w \<longleftrightarrow> v = (w :: 'a::len word)"
proof
  assume "be_bytes n v = be_bytes n w"
  then have "be_word (be_bytes n v) = (be_word (be_bytes n w) :: 'a word)" by simp
  with assms show "v = w" by simp
qed simp

section \<open>ASCII and UTF-8\<close>

definition is_ascii :: "bytes \<Rightarrow> bool" where
  "is_ascii bs = list_all (\<lambda>b. b < 128) bs"

text \<open>\<^verbatim>\<open>core::str::from_utf8\<close>: the well-formed byte sequences of the Unicode standard.\<close>

definition utf8_cont :: "u8 \<Rightarrow> bool" where
  "utf8_cont b \<longleftrightarrow> 128 \<le> b \<and> b \<le> 191"

fun utf8_valid :: "bytes \<Rightarrow> bool" where
  "utf8_valid [] = True"
| "utf8_valid (a # bs) =
     (if a < 128 then utf8_valid bs
      else if 194 \<le> a \<and> a \<le> 223 then
        (case bs of b # bs' \<Rightarrow> utf8_cont b \<and> utf8_valid bs' | _ \<Rightarrow> False)
      else if 224 \<le> a \<and> a \<le> 239 then
        (case bs of b # c # bs' \<Rightarrow>
           utf8_cont b \<and> utf8_cont c \<and> (a = 224 \<longrightarrow> 160 \<le> b) \<and> (a = 237 \<longrightarrow> b \<le> 159)
             \<and> utf8_valid bs'
         | _ \<Rightarrow> False)
      else if 240 \<le> a \<and> a \<le> 244 then
        (case bs of b # c # d # bs' \<Rightarrow>
           utf8_cont b \<and> utf8_cont c \<and> utf8_cont d \<and> (a = 240 \<longrightarrow> 144 \<le> b)
             \<and> (a = 244 \<longrightarrow> b \<le> 143) \<and> utf8_valid bs'
         | _ \<Rightarrow> False)
      else False)"

lemma is_ascii_simps [simp]:
  "is_ascii []"
  "is_ascii (b # bs) \<longleftrightarrow> b < 128 \<and> is_ascii bs"
  by (simp_all add: is_ascii_def)

lemma is_ascii_utf8_valid: "is_ascii bs \<Longrightarrow> utf8_valid bs"
  by (induction bs) simp_all

section \<open>Slices: binary search, insertion and removal\<close>

datatype ordering = Less | Equal | Greater

definition cmp :: "'k::linorder \<Rightarrow> 'k \<Rightarrow> ordering" where
  "cmp a b = (if a < b then Less else if a = b then Equal else Greater)"

text \<open>The loop of \<^verbatim>\<open>slice::binary_search_by\<close>: the candidate range is
  \<open>[base, base + size)\<close> and halves until one element is left.\<close>

function binary_search_loop :: "('a \<Rightarrow> ordering) \<Rightarrow> 'a list \<Rightarrow> nat \<Rightarrow> nat \<Rightarrow> nat" where
  "binary_search_loop f xs n base =
     (if n \<le> 1 then base
      else let half = n div 2; mid = base + half in
        binary_search_loop f xs (n - half) (if f (xs ! mid) = Greater then base else mid))"
  by pat_completeness auto
termination
  by (relation "measure (\<lambda>(f, xs, n, base). n)") auto

declare binary_search_loop.simps [simp del]

definition binary_search_by :: "('a \<Rightarrow> ordering) \<Rightarrow> 'a list \<Rightarrow> nat + nat" where
  "binary_search_by f xs =
     (if xs = [] then Err 0
      else let base = binary_search_loop f xs (length xs) 0 in
        (case f (xs ! base) of
           Equal \<Rightarrow> Ok base
         | Less \<Rightarrow> Err (base + 1)
         | Greater \<Rightarrow> Err base))"

definition binary_search_by_key :: "('a \<Rightarrow> 'k::linorder) \<Rightarrow> 'k \<Rightarrow> 'a list \<Rightarrow> nat + nat" where
  "binary_search_by_key key k xs = binary_search_by (\<lambda>x. cmp (key x) k) xs"

text \<open>\<^verbatim>\<open>Vec::insert\<close> and \<^verbatim>\<open>Vec::remove\<close> at an index in range.\<close>

definition vec_insert :: "nat \<Rightarrow> 'a \<Rightarrow> 'a list \<Rightarrow> 'a list" where
  "vec_insert i x xs = take i xs @ x # drop i xs"

definition vec_remove :: "nat \<Rightarrow> 'a list \<Rightarrow> 'a list" where
  "vec_remove i xs = take i xs @ drop (Suc i) xs"

definition index_lookup :: "('k \<Rightarrow> 'a list \<Rightarrow> nat + nat) \<Rightarrow> 'k \<Rightarrow> 'a list \<Rightarrow> 'a option" where
  "index_lookup search k xs = (case search k xs of Inl _ \<Rightarrow> None | Inr i \<Rightarrow> Some (xs ! i))"

lemma cmp_eq [simp]:
  "cmp a b = Less \<longleftrightarrow> a < b"
  "cmp a b = Equal \<longleftrightarrow> a = b"
  "cmp a b = Greater \<longleftrightarrow> b < a"
  by (auto simp: cmp_def)

lemma length_vec_insert [simp]: "length (vec_insert i x xs) = Suc (length xs)"
  by (simp add: vec_insert_def)

lemma set_vec_insert [simp]: "set (vec_insert i x xs) = insert x (set xs)"
  by (simp add: vec_insert_def) (metis append_take_drop_id set_append)

lemma mset_vec_insert [simp]: "mset (vec_insert i x xs) = add_mset x (mset xs)"
  by (simp add: vec_insert_def) (metis append_take_drop_id mset_append)

lemma set_vec_remove: "set (vec_remove i xs) \<subseteq> set xs"
  by (auto simp: vec_remove_def dest: in_set_takeD in_set_dropD)

lemma map_vec_insert: "map f (vec_insert i x xs) = vec_insert i (f x) (map f xs)"
  by (simp add: vec_insert_def take_map drop_map)

lemma map_vec_remove: "map f (vec_remove i xs) = vec_remove i (map f xs)"
  by (simp add: vec_remove_def take_map drop_map)

lemma sorted_wrt_vec_remove: "sorted_wrt P xs \<Longrightarrow> sorted_wrt P (vec_remove i xs)"
proof -
  assume srt: "sorted_wrt P xs"
  have "sorted_wrt P (take i xs @ drop i xs)" using srt by simp
  then have "\<forall>x\<in>set (take i xs). \<forall>y\<in>set (drop i xs). P x y"
    unfolding sorted_wrt_append by blast
  moreover have "set (drop (Suc i) xs) \<subseteq> set (drop i xs)"
    by (simp add: set_drop_subset_set_drop)
  ultimately show ?thesis
    using srt by (auto simp: vec_remove_def sorted_wrt_append sorted_wrt_take sorted_wrt_drop)
qed

lemma sorted_wrt_vec_insert:
  assumes "sorted_wrt (<) xs" and "\<forall>y\<in>set (take i xs). y < (x::'k::linorder)"
    and "\<forall>y\<in>set (drop i xs). x < y"
  shows "sorted_wrt (<) (vec_insert i x xs)"
proof -
  have "sorted_wrt (<) (take i xs @ drop i xs)" using assms(1) by simp
  with assms show ?thesis
    unfolding vec_insert_def sorted_wrt_append by (auto simp: sorted_wrt_append)
qed

lemma sorted_wrt_less_nth_inj:
  assumes "sorted_wrt (<) ks" and "i < length ks" and "j < length ks"
    and "ks ! i = (ks ! j :: 'k::linorder)"
  shows "i = j"
  using assms sorted_wrt_nth_less [of "(<)" ks] by (metis less_irrefl nat_neq_iff)

text \<open>The loop keeps the element sought in the range: nothing before \<open>base\<close> is wanted
  once \<open>base\<close> has moved, and everything from \<open>base + n\<close> on is too large.\<close>

definition search_inv :: "('a \<Rightarrow> 'k::linorder) \<Rightarrow> 'k \<Rightarrow> 'a list \<Rightarrow> nat \<Rightarrow> nat \<Rightarrow> bool" where
  "search_inv key k xs n base \<longleftrightarrow>
     0 < n \<and> base + n \<le> length xs \<and> (base = 0 \<or> key (xs ! base) \<le> k)
     \<and> (\<forall>i. base + n \<le> i \<and> i < length xs \<longrightarrow> k < key (xs ! i))"

lemma sorted_keys_nth_mono:
  assumes "sorted_wrt (<) (map key xs)" and "i \<le> j" and "j < length xs"
  shows "key (xs ! i) \<le> (key (xs ! j) :: 'k::linorder)"
  using sorted_wrt_nth_less [OF assms(1), of i j] assms(2,3)
  by (cases "i = j") (auto simp: less_imp_le)

lemma search_inv_step:
  assumes srt: "sorted_wrt (<) (map key xs)" and inv: "search_inv key k xs n base"
    and n: "\<not> n \<le> 1"
  defines "mid \<equiv> base + n div 2"
  shows "search_inv key k xs (n - n div 2) (if k < key (xs ! mid) then base else mid)"
proof (cases "k < key (xs ! mid)")
  case True
  have "k < key (xs ! i)" if "mid \<le> i" "i < length xs" for i
    using True sorted_keys_nth_mono [OF srt that] by order
  moreover have "mid \<le> base + (n - n div 2)" by (simp add: mid_def)
  ultimately have "\<forall>i. base + (n - n div 2) \<le> i \<and> i < length xs \<longrightarrow> k < key (xs ! i)"
    by auto
  with True inv n show ?thesis by (auto simp: search_inv_def)
next
  case False
  with inv n show ?thesis by (auto simp: search_inv_def mid_def)
qed

lemma binary_search_loop_inv:
  assumes "sorted_wrt (<) (map key xs)" and "search_inv key k xs n base"
  shows "search_inv key k xs 1 (binary_search_loop (\<lambda>x. cmp (key x) k) xs n base)"
  using assms(2)
proof (induction n arbitrary: base rule: less_induct)
  case (less n)
  show ?case
  proof (cases "n \<le> 1")
    case True
    with less.prems have "n = 1" by (simp add: search_inv_def)
    with less.prems show ?thesis by (simp add: binary_search_loop.simps)
  next
    case False
    then have "n - n div 2 < n" by simp
    from less.IH [OF this search_inv_step [OF assms(1) less.prems False]] False
    show ?thesis by (subst binary_search_loop.simps) (simp add: Let_def)
  qed
qed

lemma binary_search_by_key_cases:
  assumes srt: "sorted_wrt (<) (map key xs)"
  shows "case binary_search_by_key key k xs of
      Inr i \<Rightarrow> i < length xs \<and> key (xs ! i) = k
    | Inl i \<Rightarrow> i \<le> length xs \<and> (\<forall>x\<in>set (take i xs). key x < k) \<and> (\<forall>x\<in>set (drop i xs). k < key x)"
proof (cases "xs = []")
  case True
  then show ?thesis by (simp add: binary_search_by_key_def binary_search_by_def)
next
  case False
  define r where "r = binary_search_loop (\<lambda>x. cmp (key x) k) xs (length xs) 0"
  have "search_inv key k xs (length xs) 0" using False by (auto simp: search_inv_def)
  from binary_search_loop_inv [OF srt this]
  have r: "r < length xs" "r = 0 \<or> key (xs ! r) \<le> k"
    and above: "\<And>i. r < i \<Longrightarrow> i < length xs \<Longrightarrow> k < key (xs ! i)"
    by (auto simp: search_inv_def r_def)
  have below: "key (xs ! i) < key (xs ! r)" if "i < r" for i
    using sorted_wrt_nth_less [OF srt that] r that by simp
  have eq: "binary_search_by_key key k xs =
      (case cmp (key (xs ! r)) k of Equal \<Rightarrow> Ok r | Less \<Rightarrow> Err (r + 1) | Greater \<Rightarrow> Err r)"
    by (simp only: binary_search_by_key_def binary_search_by_def Let_def r_def False if_False)
  show ?thesis
  proof (cases "cmp (key (xs ! r)) k")
    case Less
    with below have "\<forall>i < Suc r. key (xs ! i) < k" by (metis cmp_eq(1) less_Suc_eq less_trans)
    then have "\<forall>x\<in>set (take (Suc r) xs). key x < k" by (fastforce simp: in_set_conv_nth)
    moreover have "\<forall>x\<in>set (drop (Suc r) xs). k < key x"
      using above by (auto simp: in_set_conv_nth)
    ultimately show ?thesis using r(1) unfolding eq Less by simp
  next
    case Equal
    then have "key (xs ! r) = k" by simp
    then show ?thesis using r(1) unfolding eq Equal by simp
  next
    case Greater
    with r have "r = 0" by auto
    with Greater above have "k < key (xs ! i)" if "i < length xs" for i
      using that by (cases "i = 0") auto
    then show ?thesis using \<open>r = 0\<close> unfolding eq Greater by (auto simp: in_set_conv_nth)
  qed
qed

lemma option_eq_by_Some: "(\<And>y. a = Some y \<longleftrightarrow> b = Some y) \<Longrightarrow> a = b"
  by (cases a; cases b) auto

text \<open>A vector kept strictly sorted by a key is an index: what a search finds, and what an
  insertion at the reported position or a removal does to later searches.  The laws are
  those of \<^verbatim>\<open>binary_search_by_key\<close>; records, maps and the shell's tables rely on them.\<close>

locale ordered_index =
  fixes key :: "'a \<Rightarrow> 'k::linorder"
    and search :: "'k \<Rightarrow> 'a list \<Rightarrow> nat + nat"
  assumes search_found:
      "sorted_wrt (<) (map key xs) \<Longrightarrow> search k xs = Inr i \<Longrightarrow> i < length xs \<and> key (xs ! i) = k"
    and search_missing:
      "sorted_wrt (<) (map key xs) \<Longrightarrow> search k xs = Inl i \<Longrightarrow>
         i \<le> length xs \<and> (\<forall>x\<in>set (take i xs). key x < k) \<and> (\<forall>x\<in>set (drop i xs). k < key x)"
begin

lemma search_present:
  assumes "sorted_wrt (<) (map key xs)" and "i < length xs" and "key (xs ! i) = k"
  shows "search k xs = Inr i"
proof (cases "search k xs")
  case (Inl j)
  from search_missing [OF assms(1) Inl] have "\<forall>x\<in>set (take j xs @ drop j xs). key x \<noteq> k"
    unfolding set_append by fastforce
  with assms show ?thesis by (auto dest: nth_mem)
next
  case (Inr j)
  with search_found [OF assms(1) Inr] assms show ?thesis
    using sorted_wrt_less_nth_inj [OF assms(1), of j i] by simp
qed

lemma search_found_iff:
  "sorted_wrt (<) (map key xs) \<Longrightarrow> search k xs = Inr i \<longleftrightarrow> i < length xs \<and> key (xs ! i) = k"
  using search_found search_present by blast

lemma lookup_iff:
  assumes "sorted_wrt (<) (map key xs)"
  shows "index_lookup search k xs = Some x \<longleftrightarrow> x \<in> set xs \<and> key x = k"
proof
  show "index_lookup search k xs = Some x \<Longrightarrow> x \<in> set xs \<and> key x = k"
    using search_found [OF assms, of k] by (auto simp: index_lookup_def split: sum.splits)
  assume x: "x \<in> set xs \<and> key x = k"
  then obtain i where "i < length xs" "xs ! i = x" by (auto simp: in_set_conv_nth)
  with x search_present [OF assms, of i k] show "index_lookup search k xs = Some x"
    by (simp add: index_lookup_def)
qed

lemma lookup_None_iff:
  assumes "sorted_wrt (<) (map key xs)"
  shows "index_lookup search k xs = None \<longleftrightarrow> k \<notin> key ` set xs"
proof -
  have "index_lookup search k xs \<noteq> None \<longleftrightarrow> (\<exists>x. x \<in> set xs \<and> key x = k)"
    using lookup_iff [OF assms, of k] by auto
  then show ?thesis by auto
qed

lemma missing_notin:
  "sorted_wrt (<) (map key xs) \<Longrightarrow> search k xs = Inl i \<Longrightarrow> k \<notin> key ` set xs"
  using lookup_None_iff [of xs k] by (simp add: index_lookup_def)

lemma insert_sorted:
  assumes "sorted_wrt (<) (map key xs)" and "search (key x) xs = Inl i"
  shows "sorted_wrt (<) (map key (vec_insert i x xs))"
  unfolding map_vec_insert
  using search_missing [OF assms] assms(1)
  by (intro sorted_wrt_vec_insert) (auto simp: take_map drop_map)

lemma lookup_insert:
  assumes "sorted_wrt (<) (map key xs)" and "search (key x) xs = Inl i"
  shows "index_lookup search k (vec_insert i x xs) =
    (if k = key x then Some x else index_lookup search k xs)"
proof (rule option_eq_by_Some)
  fix y
  have "key x \<notin> key ` set xs" by (rule missing_notin [OF assms])
  then show "index_lookup search k (vec_insert i x xs) = Some y \<longleftrightarrow>
    (if k = key x then Some x else index_lookup search k xs) = Some y"
    by (auto simp: lookup_iff [OF insert_sorted [OF assms]] lookup_iff [OF assms(1)] image_iff)
qed

lemma remove_sorted:
  "sorted_wrt (<) (map key xs) \<Longrightarrow> sorted_wrt (<) (map key (vec_remove i xs))"
  by (simp add: map_vec_remove sorted_wrt_vec_remove)

lemma remove_members:
  assumes "sorted_wrt (<) (map key xs)" and "i < length xs"
  shows "set (vec_remove i xs) = set xs - {xs ! i}"
proof -
  have "distinct (map key xs)" using assms(1) by (simp add: strict_sorted_iff)
  then have "distinct xs" by (simp add: distinct_map)
  moreover have "xs = take i xs @ xs ! i # drop (Suc i) xs"
    using assms(2) by (rule id_take_nth_drop)
  ultimately show ?thesis
    by (metis (no_types, lifting) Diff_insert_absorb Un_insert_right distinct.simps(2)
        distinct_append insert_iff list.set(2) set_append vec_remove_def disjoint_iff UnE)
qed

lemma lookup_remove:
  assumes "sorted_wrt (<) (map key xs)" and "search k0 xs = Inr i"
  shows "index_lookup search k (vec_remove i xs) =
    (if k = k0 then None else index_lookup search k xs)"
proof (rule option_eq_by_Some)
  fix y
  from search_found [OF assms] have i: "i < length xs" "key (xs ! i) = k0" by auto
  have "index_lookup search k0 xs = Some (xs ! i)" by (simp add: index_lookup_def assms(2))
  then have uniq: "y = xs ! i" if "y \<in> set xs" "key y = k0"
    using lookup_iff [OF assms(1), of k0 y] that by auto
  show "index_lookup search k (vec_remove i xs) = Some y \<longleftrightarrow>
    (if k = k0 then None else index_lookup search k xs) = Some y"
    using uniq i
    by (auto simp: lookup_iff [OF remove_sorted [OF assms(1)]] lookup_iff [OF assms(1)]
        remove_members [OF assms(1) i(1)])
qed

lemma update_sorted:
  assumes "sorted_wrt (<) (map key xs)" and "i < length xs" and "key x = key (xs ! i)"
  shows "sorted_wrt (<) (map key (xs[i := x]))"
proof -
  have "map key (xs[i := x]) = map key xs"
    using assms(2,3) by (metis list_update_id map_update nth_map)
  with assms(1) show ?thesis by simp
qed

lemma lookup_update:
  assumes "sorted_wrt (<) (map key xs)" and "search k0 xs = Inr i" and "key x = k0"
  shows "index_lookup search k (xs[i := x]) = (if k = k0 then Some x else index_lookup search k xs)"
proof (rule option_eq_by_Some)
  fix y
  from search_found [OF assms(1,2)] have i: "i < length xs" "key (xs ! i) = k0" by auto
  have srt: "sorted_wrt (<) (map key (xs[i := x]))"
    using update_sorted [OF assms(1) i(1)] i(2) assms(3) by simp
  have new: "index_lookup search k0 (xs[i := x]) = Some x"
    using lookup_iff [OF srt] i(1) assms(3) by (simp add: set_update_memI)
  have other: "y \<in> set (xs[i := x]) \<longleftrightarrow> y \<in> set xs" if "key y \<noteq> k0"
    using that i assms(3) by (auto simp: in_set_conv_nth nth_list_update)
  show "index_lookup search k (xs[i := x]) = Some y \<longleftrightarrow>
      (if k = k0 then Some x else index_lookup search k xs) = Some y"
  proof (cases "k = k0")
    case True
    with new show ?thesis by simp
  next
    case False
    with other show ?thesis
      by (auto simp: lookup_iff [OF srt] lookup_iff [OF assms(1)])
  qed
qed

lemma search_absent:
  assumes "sorted_wrt (<) (map key xs)" and "k \<notin> key ` set xs"
  shows "\<exists>i. search k xs = Inl i"
proof (cases "search k xs")
  case (Inr i)
  from search_found [OF assms(1) Inr] assms(2) show ?thesis by (auto simp: image_iff dest: nth_mem)
qed blast

lemma found_mem:
  assumes "sorted_wrt (<) (map key xs)" and "search k xs = Inr i"
  shows "xs ! i = x \<longleftrightarrow> x \<in> set xs \<and> key x = k"
  using lookup_iff [OF assms(1), of k x] assms(2) by (simp add: index_lookup_def)

end

text \<open>Two searches over tables with the same keys give the same index.\<close>

lemma ordered_search_unique:
  assumes ix: "ordered_index key search" "ordered_index key' search'"
    and keys: "map key xs = map key' ys" and srt: "sorted_wrt (<) (map key xs)"
  shows "search k xs = search' k ys"
proof -
  have len: "length xs = length ys" using keys map_eq_imp_length_eq by blast
  have nth: "key (xs ! i) = key' (ys ! i)" if "i < length xs" for i
    using that keys len by (metis nth_map)
  have srt': "sorted_wrt (<) (map key' ys)" using srt keys by simp
  note found = ordered_index.search_found_iff [OF ix(1) srt] ordered_index.search_found_iff [OF ix(2) srt']
  note missing = ordered_index.search_missing [OF ix(1) srt] ordered_index.search_missing [OF ix(2) srt']
  show ?thesis
  proof (cases "search k xs")
    case (Inr i)
    then show ?thesis using found nth len by metis
  next
    case (Inl i)
    with found nth len obtain j where j: "search' k ys = Inl j" by (metis sum.exhaust_sel)
    have "\<not> i < j"
    proof
      assume "i < j"
      then have "xs ! i \<in> set (drop i xs)" "ys ! i \<in> set (take j ys)" "i < length xs"
        using missing(2) [OF j] len nth_mem [of 0 "drop i xs"] nth_mem [of i "take j ys"] by simp_all
      then show False using missing(1) [OF Inl] missing(2) [OF j] nth [of i] by fastforce
    qed
    moreover have "\<not> j < i"
    proof
      assume "j < i"
      then have "ys ! j \<in> set (drop j ys)" "xs ! j \<in> set (take i xs)" "j < length xs"
        using missing(1) [OF Inl] len nth_mem [of 0 "drop j ys"] nth_mem [of j "take i xs"] by simp_all
      then show False using missing(1) [OF Inl] missing(2) [OF j] nth [of j] by fastforce
    qed
    ultimately show ?thesis using Inl j by simp
  qed
qed

lemma binary_search_by_key_index: "ordered_index key (binary_search_by_key key)"
proof
  fix xs :: "'a list" and k :: 'b and i :: nat
  assume srt: "sorted_wrt (<) (map key xs)"
  show "binary_search_by_key key k xs = Inr i \<Longrightarrow> i < length xs \<and> key (xs ! i) = k"
    using binary_search_by_key_cases [OF srt, of k] by simp
  show "binary_search_by_key key k xs = Inl i \<Longrightarrow>
      i \<le> length xs \<and> (\<forall>x\<in>set (take i xs). key x < k) \<and> (\<forall>x\<in>set (drop i xs). k < key x)"
    using binary_search_by_key_cases [OF srt, of k] by simp
qed

section \<open>Byte cursors\<close>

text \<open>The decoders of the workspace each own a private cursor with the same text and their own
  error type: a borrowed slice and an offset that only \<^verbatim>\<open>take\<close> advances.  The two errors it
  can raise are its parameters.\<close>

record cursor =
  cur_bytes :: bytes
  cur_offset :: nat

definition cursor_new :: "bytes \<Rightarrow> cursor" where
  "cursor_new bs = \<lparr>cur_bytes = bs, cur_offset = 0\<rparr>"

definition cursor_remaining :: "cursor \<Rightarrow> nat" where
  "cursor_remaining c = length (cur_bytes c) - cur_offset c"

definition cursor_take ::
    "'e \<Rightarrow> (nat \<Rightarrow> nat \<Rightarrow> 'e) \<Rightarrow> nat \<Rightarrow> cursor \<Rightarrow> 'e + bytes \<times> cursor" where
  "cursor_take overflow unexpected_end n c =
     rbind (ok_or (checked_add usize_max (cur_offset c) n) overflow) (\<lambda>end.
       if end \<le> length (cur_bytes c)
       then Ok (take n (drop (cur_offset c) (cur_bytes c)), c\<lparr>cur_offset := end\<rparr>)
       else Err (unexpected_end (cur_offset c) n))"

definition cursor_word ::
    "(nat \<Rightarrow> cursor \<Rightarrow> 'e + bytes \<times> cursor) \<Rightarrow> nat \<Rightarrow> cursor \<Rightarrow> 'e + 'a::len word \<times> cursor" where
  "cursor_word take_bytes n c = rbind (take_bytes n c) (\<lambda>(bs, c). Ok (be_word bs, c))"

definition cursor_blob ::
    "(nat \<Rightarrow> cursor \<Rightarrow> 'e + bytes \<times> cursor) \<Rightarrow> cursor \<Rightarrow> 'e + bytes \<times> cursor" where
  "cursor_blob take_bytes c =
     rbind (cursor_word take_bytes 4 c) (\<lambda>(n, c). take_bytes (unat (n :: u32)) c)"

text \<open>A counted loop over the cursor and the state.\<close>

fun decode_times ::
    "nat \<Rightarrow> (cursor \<Rightarrow> 's \<Rightarrow> 'e + 'a \<times> cursor \<times> 's) \<Rightarrow> cursor \<Rightarrow> 's \<Rightarrow> 'e + 'a list \<times> cursor \<times> 's" where
  "decode_times 0 f c st = Ok ([], c, st)"
| "decode_times (Suc n) f c st =
     rbind (f c st) (\<lambda>(x, c, st).
     rbind (decode_times n f c st) (\<lambda>(xs, c, st). Ok (x # xs, c, st)))"

text \<open>The bytes not yet read, and the cursor after reading \<open>n\<close> of them.\<close>

definition rest :: "cursor \<Rightarrow> bytes" where
  "rest c = drop (cur_offset c) (cur_bytes c)"

definition advance :: "nat \<Rightarrow> cursor \<Rightarrow> cursor" where
  "advance n c = c\<lparr>cur_offset := cur_offset c + n\<rparr>"

definition cursor_wf :: "cursor \<Rightarrow> bool" where
  "cursor_wf c \<longleftrightarrow> cur_offset c \<le> length (cur_bytes c) \<and> length (cur_bytes c) \<le> usize_max"

text \<open>A length-prefixed blob: \<^verbatim>\<open>u32\<close> big-endian length, then the bytes.\<close>

definition blob_bytes :: "bytes \<Rightarrow> bytes" where
  "blob_bytes bs = be_bytes 4 (of_nat (length bs) :: u32) @ bs"

lemma rest_new [simp]: "rest (cursor_new bs) = bs"
  by (simp add: rest_def cursor_new_def)

lemma cursor_wf_new [simp]: "cursor_wf (cursor_new bs) \<longleftrightarrow> length bs \<le> usize_max"
  by (simp add: cursor_wf_def cursor_new_def)

lemma rest_advance [simp]: "rest (advance n c) = drop n (rest c)"
  by (simp add: rest_def advance_def add.commute)

lemma advance_advance [simp]: "advance m (advance n c) = advance (n + m) c"
  by (simp add: advance_def add.assoc)

lemma advance_0 [simp]: "advance 0 c = c"
  by (simp add: advance_def)

lemma cursor_wf_advance [simp]:
  "cursor_wf c \<Longrightarrow> n \<le> length (rest c) \<Longrightarrow> cursor_wf (advance n c)"
  by (auto simp: cursor_wf_def advance_def rest_def)

lemma cursor_remaining_rest: "cursor_remaining c = length (rest c)"
  by (simp add: cursor_remaining_def rest_def)

lemma length_blob_bytes [simp]: "length (blob_bytes bs) = 4 + length bs"
  by (simp add: blob_bytes_def)

text \<open>\<open>reads c bs c'\<close>: from \<open>c\<close> the bytes \<open>bs\<close> are next, and \<open>c'\<close> stands behind them.\<close>

definition reads :: "cursor \<Rightarrow> bytes \<Rightarrow> cursor \<Rightarrow> bool" where
  "reads c bs c' \<longleftrightarrow> cursor_wf c \<and> prefix bs (rest c) \<and> c' = advance (length bs) c"

lemma readsI: "cursor_wf c \<Longrightarrow> rest c = bs @ ys \<Longrightarrow> reads c bs (advance (length bs) c)"
  by (simp add: reads_def)

lemma reads_rest: "reads c bs c' \<Longrightarrow> rest c = bs @ rest c'"
  by (clarsimp simp: reads_def) (metis append_eq_conv_conj prefix_def)

lemma readsD:
  assumes "reads c bs c'"
  shows "cursor_wf c" "c' = advance (length bs) c" "cursor_wf c'" "rest c = bs @ rest c'"
proof -
  show "cursor_wf c" "c' = advance (length bs) c" "cursor_wf c'"
    using assms prefix_length_le [of bs "rest c"] by (auto simp: reads_def)
qed (rule reads_rest [OF assms])

lemma reads_trans [trans]:
  assumes "reads c bs c'" and "reads c' bs' c''"
  shows "reads c (bs @ bs') c''"
proof -
  have "rest c = (bs @ bs') @ rest c''" using reads_rest [OF assms(1)] reads_rest [OF assms(2)] by simp
  then have "prefix (bs @ bs') (rest c)" by (rule prefixI)
  with assms show ?thesis by (simp add: reads_def)
qed

lemma reads_all: "reads (cursor_new bs) bs' c' \<Longrightarrow> cursor_remaining c' = 0 \<longleftrightarrow> bs = bs'"
  using reads_rest [of "cursor_new bs" bs' c'] by (simp add: cursor_remaining_rest)

lemma reads_append: "reads c (bs @ bs') c'' \<longleftrightarrow> (\<exists>c'. reads c bs c' \<and> reads c' bs' c'')"
proof
  assume r: "reads c (bs @ bs') c''"
  define c' where "c' = advance (length bs) c"
  have c': "reads c bs c'" using r by (auto simp: reads_def c'_def dest: append_prefixD)
  have "rest c' = bs' @ rest c''" using reads_rest [OF r] reads_rest [OF c'] by simp
  then have "reads c' bs' c''" using readsD(3) [OF c'] readsD(2) [OF r] readsD(2) [OF c']
    by (simp add: reads_def)
  with c' show "\<exists>c'. reads c bs c' \<and> reads c' bs' c''" by blast
qed (blast intro: reads_trans)

lemma reads_Nil [simp]: "reads c [] c' \<longleftrightarrow> cursor_wf c \<and> c' = c"
  by (auto simp: reads_def)

text \<open>A cursor over a whole input is consumed exactly when the bytes read are the input.\<close>

lemma reads_consumed:
  "(\<exists>c'. reads (cursor_new bs) bs' c' \<and> cursor_remaining c' = 0) \<longleftrightarrow> bs = bs' \<and> length bs \<le> usize_max"
proof -
  have "bs = bs' \<Longrightarrow> length bs \<le> usize_max \<Longrightarrow> reads (cursor_new bs) bs' (advance (length bs) (cursor_new bs))"
    by (simp add: reads_def)
  then show ?thesis using reads_all [of bs bs'] by (auto simp: reads_def cursor_wf_new)
qed

text \<open>What every decoder relies on: \<^verbatim>\<open>take\<close> returns the next bytes exactly when they are there.\<close>

locale byte_cursor =
  fixes take_bytes :: "nat \<Rightarrow> cursor \<Rightarrow> 'e + bytes \<times> cursor"
  assumes take_avail:
      "cursor_wf c \<Longrightarrow> n \<le> length (rest c) \<Longrightarrow>
         take_bytes n c = Inr (take n (rest c), advance n c)"
    and take_short:
      "cursor_wf c \<Longrightarrow> take_bytes n c = Inr r \<Longrightarrow> n \<le> length (rest c)"
begin

lemma take_iff:
  assumes "cursor_wf c"
  shows "take_bytes n c = Inr (bs, c') \<longleftrightarrow>
    n \<le> length (rest c) \<and> bs = take n (rest c) \<and> c' = advance n c"
  using take_avail [OF assms, of n] take_short [OF assms, of n] by fastforce

lemma take_append:
  assumes "cursor_wf c" and "rest c = xs @ ys"
  shows "take_bytes (length xs) c = Inr (xs, advance (length xs) c)"
  using take_avail [OF assms(1), of "length xs"] assms(2) by simp

lemma word_iff:
  assumes "cursor_wf c"
  shows "cursor_word take_bytes n c = Inr (w, c') \<longleftrightarrow>
    n \<le> length (rest c) \<and> w = be_word (take n (rest c)) \<and> c' = advance n c"
  by (auto simp: cursor_word_def take_iff [OF assms])

lemma word_append:
  assumes "cursor_wf c" and "rest c = be_bytes n w @ ys" and "LENGTH('a) \<le> 8 * n"
  shows "cursor_word take_bytes n c = Inr (w :: 'a::len word, advance n c)"
  using take_append [OF assms(1,2)] assms(3) by (simp add: cursor_word_def)

lemma blob_append:
  assumes "cursor_wf c" and "rest c = blob_bytes bs @ ys" and "length bs \<le> u32_max"
  shows "cursor_blob take_bytes c = Inr (bs, advance (4 + length bs) c)"
proof -
  have "rest c = be_bytes 4 (of_nat (length bs) :: u32) @ bs @ ys"
    using assms(2) by (simp add: blob_bytes_def)
  moreover from this have "cursor_wf (advance 4 c)" "rest (advance 4 c) = bs @ ys"
    using assms(1) by auto
  moreover have "unat (of_nat (length bs) :: u32) = length bs"
    using assms(3) by (simp add: unat_of_nat)
  ultimately show ?thesis
    using word_append [OF assms(1), where 'a = 32] take_append [of "advance 4 c" bs ys]
    by (simp add: cursor_blob_def)
qed

lemma blob_inv:
  assumes "cursor_wf c" and "cursor_blob take_bytes c = Inr (bs, c')"
  shows "rest c = blob_bytes bs @ rest c' \<and> cursor_wf c' \<and> c' = advance (4 + length bs) c
    \<and> length bs \<le> u32_max"
proof -
  from assms obtain n where n: "cursor_word take_bytes 4 c = Inr (n :: u32, advance 4 c)"
      "4 \<le> length (rest c)" "n = be_word (take 4 (rest c))"
      "take_bytes (unat n) (advance 4 c) = Inr (bs, c')"
    by (auto simp: cursor_blob_def word_iff [OF assms(1)])
  have wf4: "cursor_wf (advance 4 c)" using assms(1) n(2) by simp
  from n(4) have t: "unat n \<le> length (rest c) - 4" "bs = take (unat n) (drop 4 (rest c))"
      "c' = advance (unat n) (advance 4 c)"
    by (auto simp: take_iff [OF wf4])
  then have len: "length bs = unat n" by simp
  have "be_bytes 4 n = take 4 (rest c)"
    using be_bytes_be_word [of "take 4 (rest c)", where 'a = 32] n(2,3) by simp
  then have "rest c = be_bytes 4 n @ drop 4 (rest c)" by simp
  also have "drop 4 (rest c) = bs @ rest c'" using t(2,3)
    by (simp add: add.commute flip: drop_drop)
  finally have "rest c = blob_bytes bs @ rest c'" by (simp add: blob_bytes_def len)
  moreover have "unat n \<le> u32_max" using unsigned_less [of n, where ?'a = nat] by simp
  ultimately show ?thesis using t len wf4 assms(1) n(2) by simp
qed

lemma take_reads:
  assumes "cursor_wf c"
  shows "take_bytes n c = Inr (bs, c') \<longleftrightarrow> reads c bs c' \<and> length bs = n"
proof
  assume "take_bytes n c = Inr (bs, c')"
  with assms show "reads c bs c' \<and> length bs = n"
    by (auto simp: take_iff reads_def take_is_prefix)
next
  assume r: "reads c bs c' \<and> length bs = n"
  with take_append [OF assms reads_rest [of c bs c']] show "take_bytes n c = Inr (bs, c')"
    by (auto dest: readsD(2))
qed

lemma word_reads:
  assumes "cursor_wf c" and "LENGTH('a) = 8 * n"
  shows "cursor_word take_bytes n c = Inr (w :: 'a::len word, c') \<longleftrightarrow> reads c (be_bytes n w) c'"
proof
  assume "cursor_word take_bytes n c = Inr (w, c')"
  with assms obtain bs where "reads c bs c'" "length bs = n" "w = be_word bs"
    by (auto simp: cursor_word_def take_reads)
  with assms be_bytes_be_word [of bs, where 'a = 'a] show "reads c (be_bytes n w) c'" by auto
next
  assume "reads c (be_bytes n w) c'"
  with word_append [OF assms(1) reads_rest] assms(2) readsD(2)
  show "cursor_word take_bytes n c = Inr (w, c')" by fastforce
qed

lemma blob_reads:
  assumes "cursor_wf c"
  shows "cursor_blob take_bytes c = Inr (bs, c') \<longleftrightarrow> reads c (blob_bytes bs) c' \<and> length bs \<le> u32_max"
proof
  assume "cursor_blob take_bytes c = Inr (bs, c')"
  from blob_inv [OF assms this] show "reads c (blob_bytes bs) c' \<and> length bs \<le> u32_max"
    using assms by (metis length_blob_bytes prefixI reads_def)
next
  assume "reads c (blob_bytes bs) c' \<and> length bs \<le> u32_max"
  with blob_append [OF assms reads_rest [of c "blob_bytes bs" c']]
  show "cursor_blob take_bytes c = Inr (bs, c')" by (auto dest: readsD(2))
qed

end

text \<open>A counted loop over length-prefixed items.  One item decodes exactly from its own bytes and
  moves the state that meters the whole input by \<open>item_step\<close>; \<open>item_steps\<close> chains the moves.\<close>

fun item_steps :: "('a \<Rightarrow> 's \<Rightarrow> 's \<Rightarrow> bool) \<Rightarrow> 'a list \<Rightarrow> 's \<Rightarrow> 's \<Rightarrow> bool" where
  "item_steps step [] st st' \<longleftrightarrow> st' = st"
| "item_steps step (x # xs) st st' \<longleftrightarrow> (\<exists>st1. step x st st1 \<and> item_steps step xs st1 st')"

text \<open>The loop, given what one round reads.\<close>

lemma item_loop_iff:
  assumes read: "\<And>c st x c' st'. cursor_wf c \<Longrightarrow>
      f c st = Inr (x, c', st') \<longleftrightarrow> reads c (item_bytes x) c' \<and> fit x \<and> step x st st'"
    and "cursor_wf c"
  shows "decode_times n f c st = Inr (xs, c', st') \<longleftrightarrow>
    length xs = n \<and> reads c (concat (map item_bytes xs)) c' \<and> (\<forall>x\<in>set xs. fit x) \<and> item_steps step xs st st'"
  using assms(2)
proof (induction n arbitrary: c st xs)
  case 0
  then show ?case by (cases xs) auto
next
  case (Suc n)
  show ?case
  proof (cases xs)
    case (Cons x ys)
    have "decode_times (Suc n) f c st = Inr (xs, c', st') \<longleftrightarrow>
        (\<exists>c1 st1. f c st = Inr (x, c1, st1) \<and> decode_times n f c1 st1 = Inr (ys, c', st'))"
      using Cons by auto
    also have "\<dots> \<longleftrightarrow> (\<exists>c1 st1. (reads c (item_bytes x) c1 \<and> fit x \<and> step x st st1)
        \<and> (length ys = n \<and> reads c1 (concat (map item_bytes ys)) c' \<and> (\<forall>x\<in>set ys. fit x) \<and> item_steps step ys st1 st'))"
      unfolding read [OF Suc.prems] using Suc.IH readsD(3) by blast
    finally show ?thesis using Cons by (auto simp: reads_append)
  qed auto
qed

definition decode_framed ::
    "(nat \<Rightarrow> cursor \<Rightarrow> 'e + bytes \<times> cursor) \<Rightarrow> (bytes \<Rightarrow> 's \<Rightarrow> 'e + 'a \<times> 's) \<Rightarrow>
       cursor \<Rightarrow> 's \<Rightarrow> 'e + 'a \<times> cursor \<times> 's" where
  "decode_framed take_bytes decode_item c st =
     rbind (cursor_blob take_bytes c) (\<lambda>(encoded, c).
     rbind (decode_item encoded st) (\<lambda>(x, st). Ok (x, c, st)))"

text \<open>The encoding of a list of items: their number, then every item behind its length.\<close>

definition framed_bytes :: "('a \<Rightarrow> bytes) \<Rightarrow> 'a list \<Rightarrow> bytes" where
  "framed_bytes item_bytes xs =
     be_bytes 4 (of_nat (length xs) :: u32) @ concat (map (\<lambda>x. blob_bytes (item_bytes x)) xs)"

locale framed_items = byte_cursor take_bytes
  for take_bytes :: "nat \<Rightarrow> cursor \<Rightarrow> 'e + bytes \<times> cursor" +
  fixes item_bytes :: "'a \<Rightarrow> bytes"
    and decode_item :: "bytes \<Rightarrow> 's \<Rightarrow> 'e + 'a \<times> 's"
    and item_step :: "'a \<Rightarrow> 's \<Rightarrow> 's \<Rightarrow> bool"
  assumes decode_item_iff: "length bs \<le> u32_max \<Longrightarrow>
      decode_item bs st = Inr (x, st') \<longleftrightarrow> bs = item_bytes x \<and> item_step x st st'"
begin

lemma framed_iff:
  assumes "cursor_wf c"
  shows "decode_framed take_bytes decode_item c st = Inr (x, c', st') \<longleftrightarrow>
    reads c (blob_bytes (item_bytes x)) c' \<and> length (item_bytes x) \<le> u32_max \<and> item_step x st st'"
  using decode_item_iff by (auto simp: decode_framed_def blob_reads [OF assms])

lemma framed_loop_iff:
  assumes "cursor_wf c"
  shows "decode_times n (decode_framed take_bytes decode_item) c st = Inr (xs, c', st') \<longleftrightarrow>
    length xs = n \<and> reads c (concat (map (\<lambda>x. blob_bytes (item_bytes x)) xs)) c'
    \<and> (\<forall>x\<in>set xs. length (item_bytes x) \<le> u32_max) \<and> item_steps item_step xs st st'"
  by (rule item_loop_iff [OF framed_iff assms])

lemma framed_input_iff:
  assumes "length bs \<le> usize_max"
  shows "cursor_word take_bytes 4 (cursor_new bs) = Inr (n :: u32, c)
      \<and> decode_times (unat n) (decode_framed take_bytes decode_item) c st = Inr (xs, c', st')
      \<and> cursor_remaining c' = 0 \<longleftrightarrow>
    bs = framed_bytes item_bytes xs \<and> length xs \<le> u32_max \<and> n = of_nat (length xs)
      \<and> (\<forall>x\<in>set xs. length (item_bytes x) \<le> u32_max) \<and> item_steps item_step xs st st'
      \<and> c = advance 4 (cursor_new bs) \<and> c' = advance (length bs) (cursor_new bs)" (is "?L \<longleftrightarrow> ?R")
proof -
  let ?items = "concat (map (\<lambda>x. blob_bytes (item_bytes x)) xs)"
  have wf: "cursor_wf (cursor_new bs)" using assms by simp
  have "?L \<longleftrightarrow> reads (cursor_new bs) (be_bytes 4 n) c \<and> unat n = length xs \<and> reads c ?items c'
      \<and> (\<forall>x\<in>set xs. length (item_bytes x) \<le> u32_max) \<and> item_steps item_step xs st st' \<and> cursor_remaining c' = 0"
    using framed_loop_iff readsD(3) by (auto simp: word_reads [OF wf])
  also have "\<dots> \<longleftrightarrow> ?R"
  proof (intro iffI; elim conjE)
    assume r: "reads (cursor_new bs) (be_bytes 4 n) c" "reads c ?items c'" and n: "unat n = length xs"
      and e: "cursor_remaining c' = 0" "\<forall>x\<in>set xs. length (item_bytes x) \<le> u32_max" "item_steps item_step xs st st'"
    have bs: "bs = be_bytes 4 n @ ?items"
      using reads_all [OF reads_trans [OF r]] e(1) by simp
    moreover have "n = of_nat (length xs)" using n [symmetric] by simp
    moreover have "length xs \<le> u32_max" using n unsigned_less [of n, where ?'a = nat] by simp
    moreover have "c = advance 4 (cursor_new bs)" "c' = advance (length bs) (cursor_new bs)"
      using readsD(2) [OF r(1)] readsD(2) [OF r(2)] bs by simp_all
    ultimately show ?R using e by (simp add: framed_bytes_def)
  next
    assume bs: "bs = framed_bytes item_bytes xs" and n: "length xs \<le> u32_max" "n = of_nat (length xs)"
      and c: "c = advance 4 (cursor_new bs)" "c' = advance (length bs) (cursor_new bs)"
      and e: "\<forall>x\<in>set xs. length (item_bytes x) \<le> u32_max" "item_steps item_step xs st st'"
    from bs n(2) have "rest (cursor_new bs) = be_bytes 4 n @ ?items" by (simp add: framed_bytes_def)
    with wf have r1: "reads (cursor_new bs) (be_bytes 4 n) c" using readsI [OF wf] c(1) by fastforce
    have "rest c = ?items" using reads_rest [OF r1] \<open>rest (cursor_new bs) = _\<close> by simp
    then have "reads c ?items (advance (length ?items) c)" using readsI [OF readsD(3) [OF r1], of ?items "[]"] by simp
    moreover have "advance (length ?items) c = c'" using c bs by (simp add: framed_bytes_def)
    ultimately show "reads (cursor_new bs) (be_bytes 4 n) c \<and> unat n = length xs \<and> reads c ?items c'
      \<and> (\<forall>x\<in>set xs. length (item_bytes x) \<le> u32_max) \<and> item_steps item_step xs st st' \<and> cursor_remaining c' = 0"
      using r1 e n c by (simp add: unat_of_nat cursor_remaining_rest)
  qed
  finally show ?thesis .
qed

lemma framed_input_ex:
  assumes "length bs \<le> usize_max"
  shows "(\<exists>n c xs c' st'. cursor_word take_bytes 4 (cursor_new bs) = Inr (n :: u32, c)
      \<and> decode_times (unat n) (decode_framed take_bytes decode_item) c st = Inr (xs, c', st')
      \<and> cursor_remaining c' = 0 \<and> Q (unat n) xs) \<longleftrightarrow>
    (\<exists>xs st'. bs = framed_bytes item_bytes xs \<and> length xs \<le> u32_max
      \<and> (\<forall>x\<in>set xs. length (item_bytes x) \<le> u32_max) \<and> item_steps item_step xs st st' \<and> Q (length xs) xs)"
    (is "(\<exists>n c xs c' st'. ?run n c xs c' st') \<longleftrightarrow> (\<exists>xs st'. ?spec xs st')")
proof -
  have "?run n c xs c' st' \<Longrightarrow> ?spec xs st'" for n c xs c' st'
    using framed_input_iff [OF assms, of n c st xs c' st'] by (auto simp: unat_of_nat)
  moreover have "?spec xs st' \<Longrightarrow>
      ?run (of_nat (length xs)) (advance 4 (cursor_new bs)) xs (advance (length bs) (cursor_new bs)) st'" for xs st'
    using framed_input_iff [OF assms, of "of_nat (length xs)" _ st xs _ st'] by (auto simp: unat_of_nat)
  ultimately show ?thesis by blast
qed

end

lemma item_steps_append:
  "item_steps step (xs @ ys) st st' \<longleftrightarrow> (\<exists>st1. item_steps step xs st st1 \<and> item_steps step ys st1 st')"
  by (induction xs arbitrary: st) auto

lemma item_steps_guarded:
  "item_steps (\<lambda>x st st'. ok x \<and> step x st st') xs st st' \<longleftrightarrow> (\<forall>x\<in>set xs. ok x) \<and> item_steps step xs st st'"
  by (induction xs arbitrary: st) auto

lemma item_steps_concat:
  "item_steps (\<lambda>x. item_steps step (parts x)) xs st st' \<longleftrightarrow> item_steps step (concat (map parts xs)) st st'"
  by (induction xs arbitrary: st) (auto simp: item_steps_append)

lemma mset_concat_perm:
  assumes "mset xs = mset ys" shows "mset (concat (map f xs)) = mset (concat (map f ys))"
proof -
  have "(\<Sum>x\<leftarrow>xs. mset (f x)) = (\<Sum>x\<leftarrow>ys. mset (f x))"
    using assms by (metis mset_map sum_mset_sum_list)
  then show ?thesis by (simp add: mset_concat comp_def)
qed

lemma sort_key_strict: "sorted_wrt (<) (map f xs) \<Longrightarrow> sort_key f xs = xs"
  by (simp add: sort_key_id_if_sorted strict_sorted_iff)

lemma cursor_take_byte_cursor: "byte_cursor (cursor_take overflow unexpected_end)"
  by unfold_locales
    (auto simp: cursor_take_def cursor_wf_def rest_def advance_def ok_or_def checked_add_def
      split: if_splits)

end
