(* ===== verification/Zeno_Value.thy ===== *)
theory Zeno_Value
  imports Zeno_Prelude
begin

text \<open>
  \<^verbatim>\<open>zeno-fcis-value\<close>: the closed value type with its constructors, the ZCVE/1 encoder and
  its exact length, the resource limits and the admission walk that meters a value against
  them.  Functions that append to a buffer take it and return it.  The encoder writes into
  a fresh local buffer at every public entry point, so a buffer lost with an error is
  never observable.
\<close>

section \<open>Wire tags\<close>

abbreviation TAG_UNIT :: u8 where "TAG_UNIT \<equiv> 0"
abbreviation TAG_BOOL_FALSE :: u8 where "TAG_BOOL_FALSE \<equiv> 1"
abbreviation TAG_BOOL_TRUE :: u8 where "TAG_BOOL_TRUE \<equiv> 2"
abbreviation TAG_U128 :: u8 where "TAG_U128 \<equiv> 3"
abbreviation TAG_I128 :: u8 where "TAG_I128 \<equiv> 4"
abbreviation TAG_BYTES :: u8 where "TAG_BYTES \<equiv> 5"
abbreviation TAG_TEXT :: u8 where "TAG_TEXT \<equiv> 6"
abbreviation TAG_ENUM :: u8 where "TAG_ENUM \<equiv> 7"
abbreviation TAG_TUPLE :: u8 where "TAG_TUPLE \<equiv> 8"
abbreviation TAG_RECORD :: u8 where "TAG_RECORD \<equiv> 9"
abbreviation TAG_SUM :: u8 where "TAG_SUM \<equiv> 10"
abbreviation TAG_VECTOR :: u8 where "TAG_VECTOR \<equiv> 11"
abbreviation TAG_MAP :: u8 where "TAG_MAP \<equiv> 12"

section \<open>Data\<close>

record LengthError =
  le_minimum :: nat
  le_maximum :: nat
  le_actual :: nat

datatype TextError = TE_NonAscii | TE_TooLong LengthError

datatype ValueError =
    VE_RecordFieldOrder u16 u16
  | VE_MapKeyOrder
  | VE_NonAsciiText
  | VE_DepthLimit nat nat
  | VE_NodeLimit nat nat
  | VE_PayloadLimit nat nat
  | VE_CollectionLimit nat nat
  | VE_ArithmeticOverflow

text \<open>\<^verbatim>\<open>Value\<close> wraps the private \<^verbatim>\<open>ValueRepr\<close>; text is the bytes of its string.\<close>

datatype Value =
    VUnit
  | VBool bool
  | VU128 u128
  | VI128 i128
  | VBytes bytes
  | VText bytes
  | VEnum u32 u16
  | VTuple "Value list"
  | VRecord "Field list"
  | VSum u32 u16 "Value option"
  | VVector "Value list"
  | VMap "MapEntry list"
and Field = MkField (field_id: u16) (field_value: Value)
and MapEntry = MkMapEntry (encoded_key: bytes) (entry_key: Value) (entry_value: Value)

datatype ValueKind =
    KUnit | KBool | KU128 | KI128 | KBytes | KText | KEnum | KTuple | KRecord | KSum | KVector | KMap

fun value_kind :: "Value \<Rightarrow> ValueKind" where
  "value_kind VUnit = KUnit"
| "value_kind (VBool _) = KBool"
| "value_kind (VU128 _) = KU128"
| "value_kind (VI128 _) = KI128"
| "value_kind (VBytes _) = KBytes"
| "value_kind (VText _) = KText"
| "value_kind (VEnum _ _) = KEnum"
| "value_kind (VTuple _) = KTuple"
| "value_kind (VRecord _) = KRecord"
| "value_kind (VSum _ _ _) = KSum"
| "value_kind (VVector _) = KVector"
| "value_kind (VMap _) = KMap"

record ValueLimits =
  max_depth :: nat
  max_nodes :: nat
  max_payload_bytes :: nat
  max_collection_len :: nat

definition DEFAULT_MAX_PAYLOAD_BYTES :: nat where
  "DEFAULT_MAX_PAYLOAD_BYTES = 64 * 1024 * 1024"

definition MAX_SUPPORTED_DEPTH :: nat where
  "MAX_SUPPORTED_DEPTH = 1024"

definition effective_max_depth :: "ValueLimits \<Rightarrow> nat" where
  "effective_max_depth limits =
     (if max_depth limits < MAX_SUPPORTED_DEPTH then max_depth limits else MAX_SUPPORTED_DEPTH)"

definition default_value_limits :: ValueLimits where
  "default_value_limits = \<lparr>max_depth = 64, max_nodes = 1000000,
     max_payload_bytes = (case try_from u64_max DEFAULT_MAX_PAYLOAD_BYTES of
       Some n \<Rightarrow> n | None \<Rightarrow> u64_max),
     max_collection_len = 1000000\<rparr>"

record ValueMetrics =
  m_nodes :: nat
  m_payload_bytes :: nat
  m_depth :: nat

record AdmittedValue =
  admitted_value :: Value
  admitted_metrics :: ValueMetrics
  admitted_limits :: ValueLimits

section \<open>Bounded containers\<close>

text \<open>\<^verbatim>\<open>BoundedVec<T, MIN, MAX>\<close>, \<^verbatim>\<open>OwnedBytes<MAX>\<close> and \<^verbatim>\<open>AsciiText<MAX>\<close> are their contents;
  the const generics are parameters of the constructors.\<close>

definition bounded_vec_try_from :: "nat \<Rightarrow> nat \<Rightarrow> 'a list \<Rightarrow> LengthError + 'a list" where
  "bounded_vec_try_from minimum maximum items =
     (let actual = length items in
      if minimum > maximum \<or> actual < minimum \<or> actual > maximum
      then Err \<lparr>le_minimum = minimum, le_maximum = maximum, le_actual = actual\<rparr>
      else Ok items)"

definition owned_bytes_try_from :: "nat \<Rightarrow> bytes \<Rightarrow> LengthError + bytes" where
  "owned_bytes_try_from maximum bs =
     (let actual = length bs in
      if actual > maximum then Err \<lparr>le_minimum = 0, le_maximum = maximum, le_actual = actual\<rparr>
      else Ok bs)"

definition ascii_text_try_from :: "nat \<Rightarrow> bytes \<Rightarrow> TextError + bytes" where
  "ascii_text_try_from maximum text =
     (let actual = length text in
      if actual > maximum
      then Err (TE_TooLong \<lparr>le_minimum = 0, le_maximum = maximum, le_actual = actual\<rparr>)
      else if \<not> is_ascii text then Err TE_NonAscii
      else Ok text)"

section \<open>Fixed-width byte operations\<close>

fun append_word :: "bytes \<Rightarrow> u128 \<Rightarrow> nat \<Rightarrow> bytes" where
  "append_word output word 0 = output"
| "append_word output word (Suc width) =
     append_word output (drop_bit 8 word) width @ [ucast (word mod 256)]"

definition signed_to_bits :: "i128 \<Rightarrow> u128" where
  "signed_to_bits word = (if sint word < 0 then - 1 - (- (word + 1)) else word)"

text \<open>The comparison loop of \<^verbatim>\<open>bytes_before\<close>, from the current index on.\<close>

fun bytes_before :: "bytes \<Rightarrow> bytes \<Rightarrow> bool" where
  "bytes_before (l # ls) (r # rs) =
     (if l < r then True else if l > r then False else bytes_before ls rs)"
| "bytes_before ls rs = (length ls < length rs)"

section \<open>Canonical encoding\<close>

definition check_wire_length :: "nat \<Rightarrow> ValueError + unit" where
  "check_wire_length n = rbind (ok_or (try_from u32_max n) VE_ArithmeticOverflow) (\<lambda>_. Ok ())"

definition put_zcve_length :: "bytes \<Rightarrow> nat \<Rightarrow> ValueError + bytes" where
  "put_zcve_length output n =
     rbind (ok_or (try_from u32_max n) VE_ArithmeticOverflow) (\<lambda>n.
       Ok (append_word output (of_nat n) 4))"

definition put_zcve_blob :: "bytes \<Rightarrow> bytes \<Rightarrow> ValueError + bytes" where
  "put_zcve_blob output bs = rbind (put_zcve_length output (length bs)) (\<lambda>output. Ok (output @ bs))"

text \<open>The loops of \<^verbatim>\<open>encode_zcve_items\<close>, \<^verbatim>\<open>encode_zcve_fields\<close> and \<^verbatim>\<open>encode_zcve_entries\<close>; the
  tag and the length that those functions write first are \<open>zcve_header\<close> at their call.\<close>

definition zcve_header :: "u8 \<Rightarrow> nat \<Rightarrow> bytes \<Rightarrow> ValueError + bytes" where
  "zcve_header tag n output = put_zcve_length (output @ [tag]) n"

fun encode_zcve_value :: "Value \<Rightarrow> bytes \<Rightarrow> ValueError + bytes"
  and encode_zcve_items :: "Value list \<Rightarrow> bytes \<Rightarrow> ValueError + bytes"
  and encode_zcve_fields :: "Field list \<Rightarrow> bytes \<Rightarrow> ValueError + bytes"
  and encode_zcve_entries :: "MapEntry list \<Rightarrow> bytes \<Rightarrow> ValueError + bytes"
where
  "encode_zcve_value VUnit output = Ok (output @ [TAG_UNIT])"
| "encode_zcve_value (VBool False) output = Ok (output @ [TAG_BOOL_FALSE])"
| "encode_zcve_value (VBool True) output = Ok (output @ [TAG_BOOL_TRUE])"
| "encode_zcve_value (VU128 i) output = Ok (append_word (output @ [TAG_U128]) i 16)"
| "encode_zcve_value (VI128 i) output =
     Ok (append_word (output @ [TAG_I128]) (signed_to_bits i) 16)"
| "encode_zcve_value (VBytes bs) output = put_zcve_blob (output @ [TAG_BYTES]) bs"
| "encode_zcve_value (VText txt) output = put_zcve_blob (output @ [TAG_TEXT]) txt"
| "encode_zcve_value (VEnum type_id variant) output =
     Ok (append_word (append_word (output @ [TAG_ENUM]) (ucast type_id) 4) (ucast variant) 2)"
| "encode_zcve_value (VTuple items) output =
     rbind (zcve_header TAG_TUPLE (length items) output) (encode_zcve_items items)"
| "encode_zcve_value (VRecord flds) output =
     rbind (zcve_header TAG_RECORD (length flds) output) (encode_zcve_fields flds)"
| "encode_zcve_value (VSum type_id variant None) output =
     Ok (append_word (append_word (output @ [TAG_SUM]) (ucast type_id) 4) (ucast variant) 2 @ [0])"
| "encode_zcve_value (VSum type_id variant (Some child)) output =
     encode_zcve_value child
       (append_word (append_word (output @ [TAG_SUM]) (ucast type_id) 4) (ucast variant) 2 @ [1])"
| "encode_zcve_value (VVector items) output =
     rbind (zcve_header TAG_VECTOR (length items) output) (encode_zcve_items items)"
| "encode_zcve_value (VMap entries) output =
     rbind (zcve_header TAG_MAP (length entries) output) (encode_zcve_entries entries)"
| "encode_zcve_items [] output = Ok output"
| "encode_zcve_items (item # items) output =
     rbind (encode_zcve_value item output) (encode_zcve_items items)"
| "encode_zcve_fields [] output = Ok output"
| "encode_zcve_fields (MkField i v # flds) output =
     rbind (encode_zcve_value v (append_word output (ucast i) 2)) (encode_zcve_fields flds)"
| "encode_zcve_entries [] output = Ok output"
| "encode_zcve_entries (MkMapEntry ek k v # entries) output =
     rbind (put_zcve_blob output ek) (\<lambda>output.
     rbind (encode_zcve_value v []) (\<lambda>encoded_value.
     rbind (put_zcve_blob output encoded_value) (encode_zcve_entries entries)))"

section \<open>Encoded length\<close>

definition checked_encoded_length_add :: "nat \<Rightarrow> nat \<Rightarrow> ValueError + nat" where
  "checked_encoded_length_add left right =
     ok_or (checked_add usize_max left right) VE_ArithmeticOverflow"

text \<open>The three loops carry the running length.\<close>

fun encoded_length :: "Value \<Rightarrow> ValueError + nat"
  and encoded_length_items :: "Value list \<Rightarrow> nat \<Rightarrow> ValueError + nat"
  and encoded_length_fields :: "Field list \<Rightarrow> nat \<Rightarrow> ValueError + nat"
  and encoded_length_entries :: "MapEntry list \<Rightarrow> nat \<Rightarrow> ValueError + nat"
where
  "encoded_length VUnit = Ok 1"
| "encoded_length (VBool _) = Ok 1"
| "encoded_length (VU128 _) = Ok 17"
| "encoded_length (VI128 _) = Ok 17"
| "encoded_length (VBytes bs) =
     rbind (check_wire_length (length bs)) (\<lambda>_. checked_encoded_length_add 5 (length bs))"
| "encoded_length (VText txt) =
     rbind (check_wire_length (length txt)) (\<lambda>_. checked_encoded_length_add 5 (length txt))"
| "encoded_length (VEnum _ _) = Ok 7"
| "encoded_length (VTuple items) =
     rbind (check_wire_length (length items)) (\<lambda>_. encoded_length_items items 5)"
| "encoded_length (VVector items) =
     rbind (check_wire_length (length items)) (\<lambda>_. encoded_length_items items 5)"
| "encoded_length (VRecord flds) =
     rbind (check_wire_length (length flds)) (\<lambda>_. encoded_length_fields flds 5)"
| "encoded_length (VSum _ _ None) = Ok 8"
| "encoded_length (VSum _ _ (Some child)) =
     rbind (encoded_length child) (\<lambda>n. checked_encoded_length_add 8 n)"
| "encoded_length (VMap entries) =
     rbind (check_wire_length (length entries)) (\<lambda>_. encoded_length_entries entries 5)"
| "encoded_length_items [] len = Ok len"
| "encoded_length_items (child # items) len =
     rbind (encoded_length child) (\<lambda>n.
     rbind (checked_encoded_length_add len n) (encoded_length_items items))"
| "encoded_length_fields [] len = Ok len"
| "encoded_length_fields (MkField i v # flds) len =
     rbind (checked_encoded_length_add len 2) (\<lambda>len.
     rbind (encoded_length v) (\<lambda>n.
     rbind (checked_encoded_length_add len n) (encoded_length_fields flds)))"
| "encoded_length_entries [] len = Ok len"
| "encoded_length_entries (MkMapEntry ek k v # entries) len =
     rbind (encoded_length v) (\<lambda>n.
     rbind (check_wire_length (length ek)) (\<lambda>_.
     rbind (check_wire_length n) (\<lambda>_.
     rbind (checked_encoded_length_add len 8) (\<lambda>len.
     rbind (checked_encoded_length_add len (length ek)) (\<lambda>len.
     rbind (checked_encoded_length_add len n) (encoded_length_entries entries))))))"

section \<open>Ordering checks\<close>

fun ensure_strict_fields :: "Field list \<Rightarrow> ValueError + unit" where
  "ensure_strict_fields (a # b # flds) =
     (if field_id a \<ge> field_id b then Err (VE_RecordFieldOrder (field_id a) (field_id b))
      else ensure_strict_fields (b # flds))"
| "ensure_strict_fields flds = Ok ()"

fun ensure_strict_map_keys :: "MapEntry list \<Rightarrow> ValueError + unit" where
  "ensure_strict_map_keys (a # b # entries) =
     (if \<not> bytes_before (encoded_key a) (encoded_key b) then Err VE_MapKeyOrder
      else ensure_strict_map_keys (b # entries))"
| "ensure_strict_map_keys entries = Ok ()"

section \<open>Admission\<close>

definition validate_collection_len :: "nat \<Rightarrow> ValueLimits \<Rightarrow> ValueError + unit" where
  "validate_collection_len n limits =
     rbind (ok_or (try_from u32_max n) VE_ArithmeticOverflow) (\<lambda>attempted.
       if attempted > max_collection_len limits
       then Err (VE_CollectionLimit (max_collection_len limits) attempted)
       else Ok ())"

definition add_payload :: "nat \<Rightarrow> ValueLimits \<Rightarrow> ValueMetrics \<Rightarrow> ValueError + ValueMetrics" where
  "add_payload n limits metrics =
     rbind (ok_or (try_from u64_max n) VE_ArithmeticOverflow) (\<lambda>n.
     rbind (ok_or (checked_add u64_max (m_payload_bytes metrics) n) VE_ArithmeticOverflow) (\<lambda>p.
       if p > max_payload_bytes limits
       then Err (VE_PayloadLimit (max_payload_bytes limits) p)
       else Ok (metrics\<lparr>m_payload_bytes := p\<rparr>)))"

text \<open>The opening of \<^verbatim>\<open>validate_value\<close>: depth check, depth high-water mark, node count.\<close>

definition enter_value :: "nat \<Rightarrow> ValueLimits \<Rightarrow> ValueMetrics \<Rightarrow> ValueError + ValueMetrics" where
  "enter_value d limits metrics =
     (if d > effective_max_depth limits
      then Err (VE_DepthLimit (effective_max_depth limits) d)
      else let metrics = metrics\<lparr>m_depth := max (m_depth metrics) d\<rparr> in
        rbind (ok_or (checked_add u64_max (m_nodes metrics) 1) VE_ArithmeticOverflow) (\<lambda>n.
          if n > max_nodes limits then Err (VE_NodeLimit (max_nodes limits) n)
          else Ok (metrics\<lparr>m_nodes := n\<rparr>)))"

definition next_depth :: "nat \<Rightarrow> ValueError + nat" where
  "next_depth d = ok_or (checked_add u32_max d 1) VE_ArithmeticOverflow"

fun validate_value :: "Value \<Rightarrow> nat \<Rightarrow> ValueLimits \<Rightarrow> ValueMetrics \<Rightarrow> ValueError + ValueMetrics"
  and validate_items :: "Value list \<Rightarrow> nat \<Rightarrow> ValueLimits \<Rightarrow> ValueMetrics \<Rightarrow> ValueError + ValueMetrics"
  and validate_fields :: "Field list \<Rightarrow> nat \<Rightarrow> ValueLimits \<Rightarrow> ValueMetrics \<Rightarrow> ValueError + ValueMetrics"
  and validate_entries :: "MapEntry list \<Rightarrow> nat \<Rightarrow> ValueLimits \<Rightarrow> ValueMetrics \<Rightarrow> ValueError + ValueMetrics"
where
  "validate_value (VBytes bs) d limits metrics =
     rbind (enter_value d limits metrics) (add_payload (length bs) limits)"
| "validate_value (VText txt) d limits metrics =
     rbind (enter_value d limits metrics) (\<lambda>metrics.
       if \<not> is_ascii txt then Err VE_NonAsciiText
       else add_payload (length txt) limits metrics)"
| "validate_value (VTuple items) d limits metrics =
     rbind (enter_value d limits metrics) (\<lambda>metrics.
     rbind (validate_collection_len (length items) limits) (\<lambda>_.
     rbind (next_depth d) (\<lambda>d. validate_items items d limits metrics)))"
| "validate_value (VVector items) d limits metrics =
     rbind (enter_value d limits metrics) (\<lambda>metrics.
     rbind (validate_collection_len (length items) limits) (\<lambda>_.
     rbind (next_depth d) (\<lambda>d. validate_items items d limits metrics)))"
| "validate_value (VRecord flds) d limits metrics =
     rbind (enter_value d limits metrics) (\<lambda>metrics.
     rbind (validate_collection_len (length flds) limits) (\<lambda>_.
     rbind (ensure_strict_fields flds) (\<lambda>_.
     rbind (next_depth d) (\<lambda>d. validate_fields flds d limits metrics))))"
| "validate_value (VSum _ _ None) d limits metrics = enter_value d limits metrics"
| "validate_value (VSum _ _ (Some child)) d limits metrics =
     rbind (enter_value d limits metrics) (\<lambda>metrics.
     rbind (next_depth d) (\<lambda>d. validate_value child d limits metrics))"
| "validate_value (VMap entries) d limits metrics =
     rbind (enter_value d limits metrics) (\<lambda>metrics.
     rbind (validate_collection_len (length entries) limits) (\<lambda>_.
     rbind (ensure_strict_map_keys entries) (\<lambda>_.
     rbind (next_depth d) (\<lambda>d. validate_entries entries d limits metrics))))"
| "validate_value VUnit d limits metrics = enter_value d limits metrics"
| "validate_value (VBool _) d limits metrics = enter_value d limits metrics"
| "validate_value (VU128 _) d limits metrics = enter_value d limits metrics"
| "validate_value (VI128 _) d limits metrics = enter_value d limits metrics"
| "validate_value (VEnum _ _) d limits metrics = enter_value d limits metrics"
| "validate_items [] d limits metrics = Ok metrics"
| "validate_items (item # items) d limits metrics =
     rbind (validate_value item d limits metrics) (validate_items items d limits)"
| "validate_fields [] d limits metrics = Ok metrics"
| "validate_fields (MkField i v # flds) d limits metrics =
     rbind (validate_value v d limits metrics) (validate_fields flds d limits)"
| "validate_entries [] d limits metrics = Ok metrics"
| "validate_entries (MkMapEntry ek k v # entries) d limits metrics =
     rbind (add_payload (length ek) limits metrics) (\<lambda>metrics.
     rbind (encoded_length v) (\<lambda>n.
     rbind (add_payload n limits metrics) (\<lambda>metrics.
     rbind (validate_value k d limits metrics) (\<lambda>metrics.
     rbind (validate_value v d limits metrics) (validate_entries entries d limits)))))"

abbreviation zero_metrics :: ValueMetrics where
  "zero_metrics \<equiv> \<lparr>m_nodes = 0, m_payload_bytes = 0, m_depth = 0\<rparr>"

definition validate_limits :: "Value \<Rightarrow> ValueLimits \<Rightarrow> ValueError + ValueMetrics" where
  "validate_limits v limits = validate_value v 0 limits zero_metrics"

section \<open>Encoding entry points\<close>

definition append_encoded :: "Value \<Rightarrow> bytes \<Rightarrow> ValueError + bytes" where
  "append_encoded v output =
     rbind (encode_zcve_value v []) (\<lambda>encoded.
     rbind (ok_or (checked_add usize_max (length output) (length encoded)) VE_ArithmeticOverflow)
       (\<lambda>_. Ok (output @ encoded)))"

definition encode_zcve_to_with_limits :: "Value \<Rightarrow> bytes \<Rightarrow> ValueLimits \<Rightarrow> ValueError + bytes" where
  "encode_zcve_to_with_limits v output limits =
     rbind (validate_limits v limits) (\<lambda>_. append_encoded v output)"

definition encode_zcve_to :: "Value \<Rightarrow> bytes \<Rightarrow> ValueError + bytes" where
  "encode_zcve_to v output = encode_zcve_to_with_limits v output default_value_limits"

definition zcve_bytes_with_limits :: "Value \<Rightarrow> ValueLimits \<Rightarrow> ValueError + bytes" where
  "zcve_bytes_with_limits v limits = encode_zcve_to_with_limits v [] limits"

definition zcve_bytes :: "Value \<Rightarrow> ValueError + bytes" where
  "zcve_bytes v = encode_zcve_to v []"

section \<open>Constructors\<close>

definition field_new :: "u16 \<Rightarrow> Value \<Rightarrow> Field" where
  "field_new i v = MkField i v"

definition map_entry_try_new_with_limits ::
    "Value \<Rightarrow> Value \<Rightarrow> ValueLimits \<Rightarrow> ValueError + MapEntry" where
  "map_entry_try_new_with_limits k v limits =
     rbind (zcve_bytes_with_limits k limits) (\<lambda>ek.
     rbind (check_wire_length (length ek)) (\<lambda>_. Ok (MkMapEntry ek k v)))"

definition map_entry_try_new :: "Value \<Rightarrow> Value \<Rightarrow> ValueError + MapEntry" where
  "map_entry_try_new k v = map_entry_try_new_with_limits k v default_value_limits"

definition value_bytes_with_limits :: "bytes \<Rightarrow> ValueLimits \<Rightarrow> ValueError + Value" where
  "value_bytes_with_limits bs limits =
     rbind (check_wire_length (length bs)) (\<lambda>_.
     rbind (validate_limits (VBytes bs) limits) (\<lambda>_. Ok (VBytes bs)))"

definition value_text_ascii_with_limits :: "bytes \<Rightarrow> ValueLimits \<Rightarrow> ValueError + Value" where
  "value_text_ascii_with_limits txt limits =
     (if \<not> is_ascii txt then Err VE_NonAsciiText
      else rbind (check_wire_length (length txt)) (\<lambda>_.
        rbind (validate_limits (VText txt) limits) (\<lambda>_. Ok (VText txt))))"

definition value_bytes_with_max :: "bytes \<Rightarrow> nat \<Rightarrow> LengthError + Value" where
  "value_bytes_with_max bs maximum =
     (let actual = length bs in
      if actual > maximum then Err \<lparr>le_minimum = 0, le_maximum = maximum, le_actual = actual\<rparr>
      else Ok (VBytes bs))"

definition value_bytes :: "bytes \<Rightarrow> LengthError + Value" where
  "value_bytes bs = value_bytes_with_max bs DEFAULT_MAX_PAYLOAD_BYTES"

definition value_text_ascii_with_max :: "bytes \<Rightarrow> nat \<Rightarrow> TextError + Value" where
  "value_text_ascii_with_max txt maximum =
     (if \<not> is_ascii txt then Err TE_NonAscii
      else let actual = length txt in
        if actual > maximum
        then Err (TE_TooLong \<lparr>le_minimum = 0, le_maximum = maximum, le_actual = actual\<rparr>)
        else Ok (VText txt))"

definition value_text_ascii :: "bytes \<Rightarrow> TextError + Value" where
  "value_text_ascii txt = value_text_ascii_with_max txt DEFAULT_MAX_PAYLOAD_BYTES"

definition value_tuple :: "Value list \<Rightarrow> ValueError + Value" where
  "value_tuple items = rbind (check_wire_length (length items)) (\<lambda>_. Ok (VTuple items))"

definition value_vector :: "Value list \<Rightarrow> ValueError + Value" where
  "value_vector items = rbind (check_wire_length (length items)) (\<lambda>_. Ok (VVector items))"

definition record_canonical :: "Field list \<Rightarrow> ValueError + Value" where
  "record_canonical flds =
     rbind (check_wire_length (length flds)) (\<lambda>_.
     rbind (ensure_strict_fields flds) (\<lambda>_. Ok (VRecord flds)))"

definition normalize_record :: "Field list \<Rightarrow> ValueError + Value" where
  "normalize_record flds = record_canonical (sort_key field_id flds)"

fun check_entry_lengths :: "MapEntry list \<Rightarrow> ValueError + unit" where
  "check_entry_lengths [] = Ok ()"
| "check_entry_lengths (entry # entries) =
     rbind (encoded_length (entry_value entry)) (\<lambda>n.
     rbind (check_wire_length n) (\<lambda>_. check_entry_lengths entries))"

definition map_canonical :: "MapEntry list \<Rightarrow> ValueError + Value" where
  "map_canonical entries =
     rbind (check_wire_length (length entries)) (\<lambda>_.
     rbind (ensure_strict_map_keys entries) (\<lambda>_.
     rbind (check_entry_lengths entries) (\<lambda>_. Ok (VMap entries))))"

definition normalize_map :: "MapEntry list \<Rightarrow> ValueError + Value" where
  "normalize_map entries = map_canonical (sort_key encoded_key entries)"

definition admit_with_limits :: "Value \<Rightarrow> ValueLimits \<Rightarrow> ValueError + AdmittedValue" where
  "admit_with_limits v limits =
     rbind (validate_limits v limits) (\<lambda>metrics.
       Ok \<lparr>admitted_value = v, admitted_metrics = metrics, admitted_limits = limits\<rparr>)"

definition admit :: "Value \<Rightarrow> ValueError + AdmittedValue" where
  "admit v = admit_with_limits v default_value_limits"

definition admitted_encode_zcve_to :: "AdmittedValue \<Rightarrow> bytes \<Rightarrow> ValueError + bytes" where
  "admitted_encode_zcve_to a output = append_encoded (admitted_value a) output"

end
