(* ===== verification/Zeno_Hash.thy ===== *)
theory Zeno_Hash
  imports Zeno_Value
begin

text \<open>
  Hashing and domain separation of \<^verbatim>\<open>zeno-fcis-codec\<close>: the sealed \<^verbatim>\<open>CommitmentHasher\<close> trait with
  its providers, domains and the reserved namespace, the commitment preimage, commitments
  with their stack-buffer fast path, and evidence artifacts.

  A hasher is the record of the trait's items.  The SHA-256 engines are third-party code:
  they are the parameter of the provider definitions, and the incremental-update law that
  the code relies on is the assumption of the locale \<open>sha2_engine\<close>.
\<close>

section \<open>Errors\<close>

datatype EncodeError =
    EE_LengthOverflow
  | EE_NonAsciiText
  | EE_NonCanonicalRecord
  | EE_NonCanonicalMap
  | EE_MapKeyMismatch
  | EE_InvalidDomain
  | EE_EnvelopeInputLimit nat nat
  | EE_InvalidValue ValueError
  | EE_UnsupportedProtocolVariant string

section \<open>Hashers\<close>

record hasher =
  algorithm_id :: string
  h_hash :: "bytes \<Rightarrow> hash32"
  h_hash_parts :: "bytes list \<Rightarrow> hash32"

text \<open>The default method of the trait.\<close>

definition default_hash_parts :: "(bytes \<Rightarrow> hash32) \<Rightarrow> bytes list \<Rightarrow> hash32" where
  "default_hash_parts hash parts = hash (concat parts)"

text \<open>The engine of the provider crate: its one-shot digest and its incremental interface.\<close>

record 's engine =
  eng_digest :: "bytes \<Rightarrow> bytes"
  eng_new :: 's
  eng_update :: "'s \<Rightarrow> bytes \<Rightarrow> 's"
  eng_finalize :: "'s \<Rightarrow> bytes"

definition RustCryptoSha256 :: "'s engine \<Rightarrow> hasher" where
  "RustCryptoSha256 e =
     \<lparr>algorithm_id = ''sha2-256/rustcrypto-0.11.0'',
      h_hash = (\<lambda>bs. be_word (eng_digest e bs)),
      h_hash_parts = (\<lambda>parts. be_word (eng_finalize e (foldl (eng_update e) (eng_new e) parts)))\<rparr>"

text \<open>\<^verbatim>\<open>slice::chunks\<close>; the chunk size is not 0.\<close>

function chunks :: "nat \<Rightarrow> bytes \<Rightarrow> bytes list" where
  "chunks n bs = (if bs = [] \<or> n = 0 then [] else take n bs # chunks n (drop n bs))"
  by pat_completeness auto
termination
  by (relation "measure (\<lambda>(n, bs). length bs)") auto

declare chunks.simps [simp del]

definition libcrux_hash_parts :: "'s engine \<Rightarrow> bytes list \<Rightarrow> hash32" where
  "libcrux_hash_parts e parts =
     be_word (eng_finalize e
       (foldl (\<lambda>s part. foldl (eng_update e) s (chunks u32_max part)) (eng_new e) parts))"

definition LibcruxSha256 :: "'s engine \<Rightarrow> hasher" where
  "LibcruxSha256 e =
     \<lparr>algorithm_id = ''sha2-256/libcrux-0.0.8-hacl'',
      h_hash = (\<lambda>bs. libcrux_hash_parts e [bs]),
      h_hash_parts = libcrux_hash_parts e\<rparr>"

section \<open>Domains\<close>

record Domain =
  domain_name :: bytes
  domain_version :: u16

definition ascii_bytes :: "string \<Rightarrow> bytes" where
  "ascii_bytes s = map of_char s"

definition RESERVED_DOMAIN_NAMESPACE :: bytes where
  "RESERVED_DOMAIN_NAMESPACE = ascii_bytes ''zeno-fcis''"

definition is_reserved_domain_name :: "bytes \<Rightarrow> bool" where
  "is_reserved_domain_name name \<longleftrightarrow>
     name = RESERVED_DOMAIN_NAMESPACE \<or> prefix (ascii_bytes ''zeno-fcis/'') name"

definition domain_new :: "bytes \<Rightarrow> u16 \<Rightarrow> EncodeError + Domain" where
  "domain_new name version =
     (if name = [] \<or> \<not> is_ascii name \<or> length name > u16_max \<or> is_reserved_domain_name name
      then Err EE_InvalidDomain
      else Ok \<lparr>domain_name = name, domain_version = version\<rparr>)"

section \<open>Commitments\<close>

definition HASH_MAGIC :: bytes where
  "HASH_MAGIC = ascii_bytes ''ZENOFCIS-HASH'' @ [0]"

definition domain_preimage :: "Domain \<Rightarrow> bytes \<Rightarrow> EncodeError + bytes" where
  "domain_preimage domain payload =
     rbind (ok_or (try_from u16_max (length (domain_name domain))) EE_LengthOverflow) (\<lambda>domain_length.
     rbind (ok_or (try_from u64_max (length payload)) EE_LengthOverflow) (\<lambda>payload_length.
       Ok (HASH_MAGIC
           @ be_bytes 2 (domain_version domain)
           @ be_bytes 2 (of_nat domain_length :: u16)
           @ domain_name domain
           @ be_bytes 8 (of_nat payload_length :: u64)
           @ payload)))"

definition SMALL_PREIMAGE_BYTES :: nat where
  "SMALL_PREIMAGE_BYTES = 128"

text \<open>\<^verbatim>\<open>preimage[offset..end].copy_from_slice(part); offset = end\<close>\<close>

definition copy_part :: "bytes \<times> nat \<Rightarrow> bytes \<Rightarrow> bytes \<times> nat" where
  "copy_part = (\<lambda>(buffer, offset) part.
     (take offset buffer @ part @ drop (offset + length part) buffer, offset + length part))"

definition commitment :: "hasher \<Rightarrow> Domain \<Rightarrow> bytes \<Rightarrow> EncodeError + hash32" where
  "commitment H domain payload =
     rbind (ok_or (try_from u16_max (length (domain_name domain))) EE_LengthOverflow) (\<lambda>domain_length.
     rbind (ok_or (try_from u64_max (length payload)) EE_LengthOverflow) (\<lambda>payload_length.
       let parts = [HASH_MAGIC,
                    be_bytes 2 (domain_version domain),
                    be_bytes 2 (of_nat domain_length :: u16),
                    domain_name domain,
                    be_bytes 8 (of_nat payload_length :: u64),
                    payload];
           header_length = length HASH_MAGIC + 2 + 2 + length (domain_name domain) + 8
       in case checked_add usize_max header_length (length payload) of
            Some n \<Rightarrow>
              if n \<le> SMALL_PREIMAGE_BYTES
              then Ok (h_hash H (take n (fst (foldl copy_part
                     (replicate SMALL_PREIMAGE_BYTES 0, 0) parts))))
              else Ok (h_hash_parts H parts)
          | None \<Rightarrow> Ok (h_hash_parts H parts)))"

section \<open>Evidence artifacts\<close>

record EvidenceArtifact =
  artifact_bytes :: bytes
  artifact_digest :: hash32

definition artifact_new :: "hasher \<Rightarrow> bytes \<Rightarrow> EvidenceArtifact" where
  "artifact_new H bs = \<lparr>artifact_bytes = bs, artifact_digest = h_hash H bs\<rparr>"

definition artifact_matches :: "hasher \<Rightarrow> EvidenceArtifact \<Rightarrow> bool" where
  "artifact_matches H a \<longleftrightarrow> h_hash H (artifact_bytes a) = artifact_digest a"

section \<open>The hasher contract\<close>

text \<open>The law of \<^verbatim>\<open>CommitmentHasher\<close>: hashing parts is hashing their concatenation.\<close>

locale commitment_hasher =
  fixes H :: hasher
  assumes hash_parts_concat: "h_hash_parts H parts = h_hash H (concat parts)"

text \<open>What the providers rely on: updates accumulate, and finalising gives the digest.\<close>

locale sha2_engine =
  fixes e :: "'s engine"
  assumes finalize_updates:
    "eng_finalize e (foldl (eng_update e) (eng_new e) parts) = eng_digest e (concat parts)"

lemma concat_chunks: "n \<noteq> 0 \<Longrightarrow> concat (chunks n bs) = bs"
proof (induction n bs rule: chunks.induct)
  case (1 n bs)
  then show ?case by (subst chunks.simps) simp
qed

lemma foldl_foldl: "foldl (\<lambda>s x. foldl f s (g x)) s xs = foldl f s (concat (map g xs))"
  by (induction xs arbitrary: s) simp_all

lemma concat_map_chunks: "concat (concat (map (chunks u32_max) parts)) = concat parts"
  by (induction parts) (simp_all add: concat_chunks)

sublocale sha2_engine \<subseteq> rustcrypto: commitment_hasher "RustCryptoSha256 e"
  by unfold_locales (simp add: RustCryptoSha256_def finalize_updates)

context sha2_engine
begin

lemma libcrux_digest: "libcrux_hash_parts e parts = be_word (eng_digest e (concat parts))"
  unfolding libcrux_hash_parts_def foldl_foldl finalize_updates concat_map_chunks ..

end

sublocale sha2_engine \<subseteq> libcrux: commitment_hasher "LibcruxSha256 e"
  by unfold_locales (simp add: LibcruxSha256_def libcrux_digest)

context sha2_engine
begin

lemma provider_parts:
  "h_hash_parts (RustCryptoSha256 e) parts = h_hash (RustCryptoSha256 e) (concat parts)"
  "h_hash_parts (LibcruxSha256 e) parts = h_hash (LibcruxSha256 e) (concat parts)"
  by (rule rustcrypto.hash_parts_concat libcrux.hash_parts_concat)+

end

text \<open>The two instances of the model: a hasher that keeps the trait's default method, and an
  engine that buffers its input and digests it at the end.\<close>

definition default_hasher :: "string \<Rightarrow> (bytes \<Rightarrow> hash32) \<Rightarrow> hasher" where
  "default_hasher name hash =
     \<lparr>algorithm_id = name, h_hash = hash, h_hash_parts = default_hash_parts hash\<rparr>"

definition buffering_engine :: "(bytes \<Rightarrow> bytes) \<Rightarrow> bytes engine" where
  "buffering_engine digest =
     \<lparr>eng_digest = digest, eng_new = [], eng_update = (@), eng_finalize = digest\<rparr>"

interpretation default_hasher: commitment_hasher "default_hasher name hash" for name hash
  by unfold_locales (simp add: default_hasher_def default_hash_parts_def)

lemma foldl_append: "foldl (@) bs parts = bs @ concat parts"
  by (induction parts arbitrary: bs) simp_all

interpretation buffering_engine: sha2_engine "buffering_engine digest" for digest
  by unfold_locales (simp add: buffering_engine_def foldl_append)

section \<open>Commitments hash the preimage\<close>

lemma copy_parts:
  assumes "length bs + length (concat parts) \<le> length buf"
  shows "foldl copy_part (bs @ drop (length bs) buf, length bs) parts =
    (bs @ concat parts @ drop (length bs + length (concat parts)) buf,
     length bs + length (concat parts))"
  using assms
proof (induction parts arbitrary: bs)
  case (Cons p ps)
  have "copy_part (bs @ drop (length bs) buf, length bs) p =
      ((bs @ p) @ drop (length (bs @ p)) buf, length (bs @ p))"
    using Cons.prems by (simp add: copy_part_def add.commute)
  then show ?case using Cons.IH [of "bs @ p"] Cons.prems by (simp add: add.assoc)
qed simp

lemma copy_parts_zero:
  assumes "length (concat parts) \<le> n"
  shows "take (length (concat parts)) (fst (foldl copy_part (replicate n 0, 0) parts)) = concat parts"
  using copy_parts [of "[]" parts "replicate n 0"] assms by simp

lemma length_HASH_MAGIC [simp]: "length HASH_MAGIC = 14"
  by (simp add: HASH_MAGIC_def ascii_bytes_def)

context commitment_hasher
begin

lemma commitment_preimage:
  "commitment H domain payload =
     rbind (domain_preimage domain payload) (\<lambda>preimage. Ok (h_hash H preimage))"
proof -
  let ?parts = "[HASH_MAGIC, be_bytes 2 (domain_version domain),
    be_bytes 2 (of_nat (length (domain_name domain)) :: u16), domain_name domain,
    be_bytes 8 (of_nat (length payload) :: u64), payload]"
  have len: "length (concat ?parts) = 26 + length (domain_name domain) + length payload"
    by simp
  have "h_hash H (take (26 + length (domain_name domain) + length payload)
      (fst (foldl copy_part (replicate SMALL_PREIMAGE_BYTES 0, 0) ?parts))) = h_hash H (concat ?parts)"
    if "26 + length (domain_name domain) + length payload \<le> SMALL_PREIMAGE_BYTES"
    using copy_parts_zero [of ?parts SMALL_PREIMAGE_BYTES] that unfolding len by simp
  then show ?thesis
    by (simp add: commitment_def domain_preimage_def try_from_def checked_add_def Let_def
        hash_parts_concat)
qed

end

lemma preimage_inject:
  assumes "domain_preimage d p = Inr x" and "domain_preimage d' p' = Inr x"
  shows "d = d' \<and> p = p'"
proof -
  let ?n = "\<lambda>d. length (domain_name d)"
  from assms have n: "?n d \<le> u16_max" "?n d' \<le> u16_max"
    and eq: "be_bytes 2 (domain_version d) @ be_bytes 2 (of_nat (?n d) :: u16) @ domain_name d
        @ be_bytes 8 (of_nat (length p) :: u64) @ p
      = be_bytes 2 (domain_version d') @ be_bytes 2 (of_nat (?n d') :: u16) @ domain_name d'
        @ be_bytes 8 (of_nat (length p') :: u64) @ p'"
    by (auto simp: domain_preimage_def)
  from eq have v: "domain_version d = domain_version d'"
    and "(of_nat (?n d) :: u16) = of_nat (?n d')"
    by (simp_all add: be_bytes_inject)
  from arg_cong [OF this(2), of unat] n have len: "?n d = ?n d'"
    by (simp add: unat_of_nat)
  with eq v have "domain_name d = domain_name d'" "p = p'"
    by simp_all
  with v show ?thesis by simp
qed

end
