(* ===== verification/Zeno_Merkle.thy ===== *)
theory Zeno_Merkle
  imports Zeno_Hash
begin

text \<open>
  \<^verbatim>\<open>zeno-fcis-codec::collection_merkle\<close>: commitments to collections with opaque 256-bit keys, the
  update of one path from the summaries of its siblings, and the rebuild from all entries.

  A key is its 32 bytes.  A digest is a 256-bit word, hashed as its 32 bytes.  The module hashes with
  \<^verbatim>\<open>RustCryptoSha256\<close>, whose engine is the parameter \<open>sha\<close>.  Reading a bit beyond the key is an
  index out of bounds, which panics: \<open>rebuild\<close> returns \<open>None\<close> there.
\<close>

unbundle bit_operations_syntax

type_synonym Key = bytes
type_synonym Digest = hash32

definition KEY_BITS :: nat where
  "KEY_BITS = 256"

section \<open>Hashes\<close>

definition merkle_hash :: "'s engine \<Rightarrow> bytes list \<Rightarrow> Digest" where
  "merkle_hash sha parts = h_hash_parts (RustCryptoSha256 sha) parts"

definition empty_hash :: "'s engine \<Rightarrow> Digest" where
  "empty_hash sha = merkle_hash sha [ascii_bytes ''ZFCIS-MAP-EMPTY'' @ [0]]"

definition leaf_hash :: "'s engine \<Rightarrow> Key \<Rightarrow> bytes \<Rightarrow> Digest" where
  "leaf_hash sha key data =
     merkle_hash sha [ascii_bytes ''ZFCIS-MAP-LEAF'' @ [0], key, be_bytes 32 (merkle_hash sha [data])]"

definition node_hash :: "'s engine \<Rightarrow> Digest \<Rightarrow> Digest \<Rightarrow> Digest" where
  "node_hash sha left right =
     merkle_hash sha [ascii_bytes ''ZFCIS-MAP-NODE'' @ [0], be_bytes 32 left, be_bytes 32 right]"

section \<open>Subtrees\<close>

datatype Subtree = Empty | Leaf Digest | Branch Digest

fun digest_with :: "Subtree \<Rightarrow> Digest \<Rightarrow> Digest" where
  "digest_with Empty e = e"
| "digest_with (Leaf h) e = h"
| "digest_with (Branch h) e = h"

definition subtree_digest :: "'s engine \<Rightarrow> Subtree \<Rightarrow> Digest" where
  "subtree_digest sha t = digest_with t (empty_hash sha)"

record NodeWrite =
  nw_depth :: nat
  nw_prefix :: Key
  nw_hash :: "Digest option"

record PathUpdate =
  pu_leaf :: "Digest option"
  pu_root :: Digest
  pu_nodes :: "NodeWrite list"

section \<open>Key bits\<close>

definition key_bit :: "Key \<Rightarrow> nat \<Rightarrow> u8" where
  "key_bit key depth = drop_bit (7 - depth mod 8) (key ! (depth div 8)) AND 1"

text \<open>The highest \<^verbatim>\<open>remainder\<close> bits of a byte; the shift drops what leaves the byte.\<close>

definition key_prefix :: "Key \<Rightarrow> nat \<Rightarrow> Key" where
  "key_prefix key depth =
     (let depth = min depth KEY_BITS; whole = depth div 8; remainder = depth mod 8;
          out = take whole key @ drop whole (replicate 32 0)
      in if remainder \<noteq> 0 then out[whole := (key ! whole) AND push_bit (8 - remainder) 255] else out)"

definition key_bounds :: "Key \<Rightarrow> nat \<Rightarrow> Key \<times> Key" where
  "key_bounds key depth =
     (let depth = min depth KEY_BITS; low = key_prefix key depth; high = low;
          whole = depth div 8; remainder = depth mod 8
      in (low,
          if remainder = 0 then take whole high @ replicate (32 - whole) 255
          else let high = high[whole := (high ! whole) OR drop_bit remainder 255]
               in take (whole + 1) high @ replicate (32 - (whole + 1)) 255))"

definition sibling_prefix :: "Key \<Rightarrow> nat \<Rightarrow> Key option" where
  "sibling_prefix key depth =
     (if depth \<ge> KEY_BITS then None
      else let other = key_prefix key (depth + 1)
           in Some (other[depth div 8 := (other ! (depth div 8)) XOR push_bit (7 - depth mod 8) 1]))"

definition shared_bits :: "Key \<Rightarrow> Key \<Rightarrow> nat" where
  "shared_bits a b = length (takeWhile (\<lambda>i. key_bit a i = key_bit b i) [0..<KEY_BITS])"

text \<open>\<^verbatim>\<open>Iterator::max\<close>\<close>

fun iter_max :: "nat list \<Rightarrow> nat option" where
  "iter_max [] = None"
| "iter_max (x # xs) = Some (fold max xs x)"

definition shared_path_length :: "Key \<Rightarrow> Key list \<Rightarrow> nat" where
  "shared_path_length key neighbours =
     (case iter_max (map (\<lambda>other. shared_bits key other + 1) (filter (\<lambda>other. other \<noteq> key) neighbours)) of
        None \<Rightarrow> 0 | Some n \<Rightarrow> n)"

section \<open>Path update\<close>

fun combine :: "'s engine \<Rightarrow> Subtree \<Rightarrow> Subtree \<Rightarrow> Digest \<Rightarrow> Subtree" where
  "combine sha Empty Empty e = Empty"
| "combine sha Empty (Leaf h) e = Leaf h"
| "combine sha (Leaf h) Empty e = Leaf h"
| "combine sha left right e = Branch (node_hash sha (digest_with left e) (digest_with right e))"

text \<open>One round of the loop of \<^verbatim>\<open>update_path\<close>, which runs from the deepest sibling to the root.\<close>

definition update_step ::
    "'s engine \<Rightarrow> Key \<Rightarrow> Digest \<Rightarrow> nat \<times> Subtree \<Rightarrow> Subtree \<times> NodeWrite list \<Rightarrow> Subtree \<times> NodeWrite list" where
  "update_step sha key e = (\<lambda>(depth, other) (child, nodes).
     let (left, right) = (if key_bit key depth = 0 then (child, other) else (other, child));
         child = combine sha left right e;
         h = (case child of Branch h \<Rightarrow> Some h | _ \<Rightarrow> None)
     in (child, nodes @ [\<lparr>nw_depth = depth, nw_prefix = key_prefix key depth, nw_hash = h\<rparr>]))"

definition update_path :: "'s engine \<Rightarrow> Key \<Rightarrow> bytes option \<Rightarrow> Subtree list \<Rightarrow> PathUpdate option" where
  "update_path sha key data siblings =
     (if length siblings > KEY_BITS then None
      else
      let e = empty_hash sha;
          leaf = map_option (leaf_hash sha key) data;
          child = (case leaf of None \<Rightarrow> Empty | Some h \<Rightarrow> Leaf h);
          (child, nodes) = fold (update_step sha key e) (rev (enumerate 0 siblings)) (child, [])
      in Some \<lparr>pu_leaf = leaf, pu_root = digest_with child e, pu_nodes = nodes\<rparr>)"

section \<open>Rebuild\<close>

text \<open>\<^verbatim>\<open>slice::partition_point\<close>, by the bisection of \<^verbatim>\<open>binary_search_by\<close> as in the standard library.\<close>

definition partition_point :: "('a \<Rightarrow> bool) \<Rightarrow> 'a list \<Rightarrow> nat" where
  "partition_point P xs =
     (case binary_search_by (\<lambda>x. if P x then Less else Greater) xs of Inl i \<Rightarrow> i | Inr i \<Rightarrow> i)"

text \<open>\<^verbatim>\<open>Vec::dedup_by_key\<close>: of neighbours with equal keys the first is kept.\<close>

fun dedup_by_key :: "('a \<Rightarrow> 'k) \<Rightarrow> 'a list \<Rightarrow> 'a list" where
  "dedup_by_key f (x # y # xs) = (if f x = f y then dedup_by_key f (x # xs) else x # dedup_by_key f (y # xs))"
| "dedup_by_key f xs = xs"

function rebuild :: "'s engine \<Rightarrow> (Key \<times> Digest) list \<Rightarrow> nat \<Rightarrow> Digest option" where
  "rebuild sha leaves depth =
     (case leaves of
        [] \<Rightarrow> Some (empty_hash sha)
      | [(_, leaf)] \<Rightarrow> Some leaf
      | _ \<Rightarrow>
          if depth \<ge> KEY_BITS then None
          else
          let split = partition_point (\<lambda>(key, _). key_bit key depth = 0) leaves in
          Option.bind (rebuild sha (take split leaves) (depth + 1)) (\<lambda>left.
          Option.bind (rebuild sha (drop split leaves) (depth + 1)) (\<lambda>right.
            Some (node_hash sha left right))))"
  by pat_completeness auto
termination rebuild
  by (relation "measure (\<lambda>(_, _, depth). KEY_BITS - depth)") auto

declare rebuild.simps [simp del]

definition rebuild_root :: "'s engine \<Rightarrow> (Key \<times> bytes) list \<Rightarrow> Digest option" where
  "rebuild_root sha entries =
     (let leaves = map (\<lambda>(key, data). (key, leaf_hash sha key data)) entries;
          leaves = sort_key fst leaves;
          leaves = dedup_by_key fst leaves
      in rebuild sha leaves 0)"

end
