(* ===== verification/Zeno_Value_Laws.thy ===== *)
theory Zeno_Value_Laws
  imports Zeno_Value
begin

text \<open>
  What the value crate promises.  \<open>enc\<close> is the ZCVE/1 byte string of a value written without
  buffers and errors, and the encoder and the length function are shown to compute it
  exactly when every wire length fits its 32 bits.  The admission walk is characterised by
  the size measures \<open>vnodes\<close>, \<open>vpayload\<close> and \<open>vheight\<close>; its proof composes the rules of \<open>meters\<close>.
  \<open>repr_valid\<close> is the representation invariant, established by every public constructor.
\<close>

section \<open>The encoding as a specification\<close>

fun enc :: "Value \<Rightarrow> bytes"
  and enc_items :: "Value list \<Rightarrow> bytes"
  and enc_fields :: "Field list \<Rightarrow> bytes"
  and enc_entries :: "MapEntry list \<Rightarrow> bytes"
where
  "enc VUnit = [TAG_UNIT]"
| "enc (VBool b) = [if b then TAG_BOOL_TRUE else TAG_BOOL_FALSE]"
| "enc (VU128 i) = TAG_U128 # be_bytes 16 i"
| "enc (VI128 i) = TAG_I128 # be_bytes 16 i"
| "enc (VBytes bs) = TAG_BYTES # blob_bytes bs"
| "enc (VText txt) = TAG_TEXT # blob_bytes txt"
| "enc (VEnum t n) = TAG_ENUM # be_bytes 4 t @ be_bytes 2 n"
| "enc (VTuple xs) = TAG_TUPLE # be_bytes 4 (of_nat (length xs) :: u32) @ enc_items xs"
| "enc (VRecord fs) = TAG_RECORD # be_bytes 4 (of_nat (length fs) :: u32) @ enc_fields fs"
| "enc (VSum t n None) = TAG_SUM # be_bytes 4 t @ be_bytes 2 n @ [0]"
| "enc (VSum t n (Some v)) = TAG_SUM # be_bytes 4 t @ be_bytes 2 n @ [1] @ enc v"
| "enc (VVector xs) = TAG_VECTOR # be_bytes 4 (of_nat (length xs) :: u32) @ enc_items xs"
| "enc (VMap es) = TAG_MAP # be_bytes 4 (of_nat (length es) :: u32) @ enc_entries es"
| "enc_items [] = []"
| "enc_items (v # vs) = enc v @ enc_items vs"
| "enc_fields [] = []"
| "enc_fields (MkField i v # fs) = be_bytes 2 i @ enc v @ enc_fields fs"
| "enc_entries [] = []"
| "enc_entries (MkMapEntry ek k v # es) = blob_bytes ek @ blob_bytes (enc v) @ enc_entries es"

text \<open>Every length written on the wire fits its \<^verbatim>\<open>u32\<close>.\<close>

fun encodable :: "Value \<Rightarrow> bool"
  and encodable_items :: "Value list \<Rightarrow> bool"
  and encodable_fields :: "Field list \<Rightarrow> bool"
  and encodable_entries :: "MapEntry list \<Rightarrow> bool"
where
  "encodable (VBytes bs) = (length bs \<le> u32_max)"
| "encodable (VText txt) = (length txt \<le> u32_max)"
| "encodable (VTuple xs) = (length xs \<le> u32_max \<and> encodable_items xs)"
| "encodable (VRecord fs) = (length fs \<le> u32_max \<and> encodable_fields fs)"
| "encodable (VSum _ _ None) = True"
| "encodable (VSum _ _ (Some v)) = encodable v"
| "encodable (VVector xs) = (length xs \<le> u32_max \<and> encodable_items xs)"
| "encodable (VMap es) = (length es \<le> u32_max \<and> encodable_entries es)"
| "encodable VUnit = True"
| "encodable (VBool _) = True"
| "encodable (VU128 _) = True"
| "encodable (VI128 _) = True"
| "encodable (VEnum _ _) = True"
| "encodable_items [] = True"
| "encodable_items (v # vs) = (encodable v \<and> encodable_items vs)"
| "encodable_fields [] = True"
| "encodable_fields (MkField i v # fs) = (encodable v \<and> encodable_fields fs)"
| "encodable_entries [] = True"
| "encodable_entries (MkMapEntry ek k v # es) =
     (length ek \<le> u32_max \<and> encodable v \<and> length (enc v) \<le> u32_max \<and> encodable_entries es)"

section \<open>The encoder computes the encoding\<close>

lemma append_word_eq: "append_word output w n = output @ be_bytes n w"
proof (induction n arbitrary: w)
  case (Suc n)
  have "(ucast (w mod 256) :: u8) = ucast w"
    by (rule bit_eqI) (auto simp: bit_simps simp flip: take_bit_eq_mod [where n = 8, simplified])
  with Suc show ?case by simp
qed simp

lemma be_bytes_ucast: "8 * n \<le> LENGTH('a) \<Longrightarrow> LENGTH('a) \<le> LENGTH('b) \<Longrightarrow>
  be_bytes n (ucast (w :: 'a::len word) :: 'b::len word) = be_bytes n w"
proof (induction n arbitrary: w)
  case (Suc n)
  have "drop_bit 8 (ucast w :: 'b word) = ucast (drop_bit 8 w)"
    using Suc.prems by (intro bit_eqI) (auto simp: bit_simps dest: bit_imp_le_length)
  moreover have "(ucast (ucast w :: 'b word) :: u8) = ucast w"
    using Suc.prems by (intro bit_eqI) (auto simp: bit_simps dest: bit_imp_le_length)
  ultimately show ?case using Suc by simp
qed simp

lemma signed_to_bits_eq [simp]: "signed_to_bits w = w"
  by (simp add: signed_to_bits_def)

lemma Nil_less_iff: "[] < (ys :: bytes) \<longleftrightarrow> ys \<noteq> []"
  by (cases ys) simp_all

lemma bytes_before_less: "bytes_before xs ys \<longleftrightarrow> xs < ys"
  by (induction xs ys rule: bytes_before.induct) (auto simp: Nil_less_iff)

lemma put_zcve_length_eq:
  "put_zcve_length output n =
     (if n \<le> u32_max then Ok (output @ be_bytes 4 (of_nat n :: u32)) else Err VE_ArithmeticOverflow)"
proof (cases "n \<le> u32_max")
  case True
  then have "(of_nat n :: u128) = ucast (of_nat n :: u32)"
    by (simp add: unsigned_of_nat take_bit_nat_eq_self)
  with True show ?thesis
    by (simp add: put_zcve_length_def try_from_def append_word_eq be_bytes_ucast)
next
  case False
  then show ?thesis by (simp add: put_zcve_length_def try_from_def)
qed

lemma put_zcve_blob_eq:
  "put_zcve_blob output bs =
     (if length bs \<le> u32_max then Ok (output @ blob_bytes bs) else Err VE_ArithmeticOverflow)"
  by (simp add: put_zcve_blob_def put_zcve_length_eq blob_bytes_def)

lemma encode_eq:
  "encode_zcve_value v out = (if encodable v then Ok (out @ enc v) else Err VE_ArithmeticOverflow)"
  "encode_zcve_items vs out =
     (if encodable_items vs then Ok (out @ enc_items vs) else Err VE_ArithmeticOverflow)"
  "encode_zcve_fields fs out =
     (if encodable_fields fs then Ok (out @ enc_fields fs) else Err VE_ArithmeticOverflow)"
  "encode_zcve_entries es out =
     (if encodable_entries es then Ok (out @ enc_entries es) else Err VE_ArithmeticOverflow)"
proof (induction v out and vs out and fs out and es out
    rule: encode_zcve_value_encode_zcve_items_encode_zcve_fields_encode_zcve_entries.induct)
qed (simp_all add: zcve_header_def put_zcve_length_eq put_zcve_blob_eq append_word_eq be_bytes_ucast)

lemma checked_encoded_length_add_eq:
  "checked_encoded_length_add a b =
     (if a + b \<le> usize_max then Ok (a + b) else Err VE_ArithmeticOverflow)"
  by (simp add: checked_encoded_length_add_def checked_add_def)

lemma check_wire_length_eq:
  "check_wire_length n = (if n \<le> u32_max then Ok () else Err VE_ArithmeticOverflow)"
  by (simp add: check_wire_length_def try_from_def)

lemma encoded_length_eq:
  "encoded_length v =
     (if encodable v \<and> length (enc v) \<le> usize_max then Ok (length (enc v))
      else Err VE_ArithmeticOverflow)"
  "n \<le> usize_max \<Longrightarrow> encoded_length_items vs n =
     (if encodable_items vs \<and> n + length (enc_items vs) \<le> usize_max
      then Ok (n + length (enc_items vs)) else Err VE_ArithmeticOverflow)"
  "n \<le> usize_max \<Longrightarrow> encoded_length_fields fs n =
     (if encodable_fields fs \<and> n + length (enc_fields fs) \<le> usize_max
      then Ok (n + length (enc_fields fs)) else Err VE_ArithmeticOverflow)"
  "n \<le> usize_max \<Longrightarrow> encoded_length_entries es n =
     (if encodable_entries es \<and> n + length (enc_entries es) \<le> usize_max
      then Ok (n + length (enc_entries es)) else Err VE_ArithmeticOverflow)"
proof (induction v and vs n and fs n and es n
    rule: encoded_length_encoded_length_items_encoded_length_fields_encoded_length_entries.induct)
qed (simp_all add: checked_encoded_length_add_eq check_wire_length_eq)

section \<open>Size measures\<close>

fun vnodes :: "Value \<Rightarrow> nat" and vnodes_items :: "Value list \<Rightarrow> nat"
  and vnodes_fields :: "Field list \<Rightarrow> nat" and vnodes_entries :: "MapEntry list \<Rightarrow> nat"
where
  "vnodes (VTuple xs) = Suc (vnodes_items xs)"
| "vnodes (VVector xs) = Suc (vnodes_items xs)"
| "vnodes (VRecord fs) = Suc (vnodes_fields fs)"
| "vnodes (VSum _ _ (Some v)) = Suc (vnodes v)"
| "vnodes (VMap es) = Suc (vnodes_entries es)"
| "vnodes _ = 1"
| "vnodes_items [] = 0"
| "vnodes_items (v # vs) = vnodes v + vnodes_items vs"
| "vnodes_fields [] = 0"
| "vnodes_fields (MkField i v # fs) = vnodes v + vnodes_fields fs"
| "vnodes_entries [] = 0"
| "vnodes_entries (MkMapEntry ek k v # es) = vnodes k + vnodes v + vnodes_entries es"

lemmas value_tree_induct = vnodes_vnodes_items_vnodes_fields_vnodes_entries.induct
  [case_names Tuple Vector Record Sum_Some Map Unit Bool U128 I128 Bytes Text Enum Sum_None Items_Nil Items_Cons Fields_Nil Fields_Cons Entries_Nil Entries_Cons]

fun vpayload :: "Value \<Rightarrow> nat" and vpayload_items :: "Value list \<Rightarrow> nat"
  and vpayload_fields :: "Field list \<Rightarrow> nat" and vpayload_entries :: "MapEntry list \<Rightarrow> nat"
where
  "vpayload (VBytes bs) = length bs"
| "vpayload (VText txt) = length txt"
| "vpayload (VTuple xs) = vpayload_items xs"
| "vpayload (VVector xs) = vpayload_items xs"
| "vpayload (VRecord fs) = vpayload_fields fs"
| "vpayload (VSum _ _ (Some v)) = vpayload v"
| "vpayload (VMap es) = vpayload_entries es"
| "vpayload _ = 0"
| "vpayload_items [] = 0"
| "vpayload_items (v # vs) = vpayload v + vpayload_items vs"
| "vpayload_fields [] = 0"
| "vpayload_fields (MkField i v # fs) = vpayload v + vpayload_fields fs"
| "vpayload_entries [] = 0"
| "vpayload_entries (MkMapEntry ek k v # es) =
     length ek + length (enc v) + vpayload k + vpayload v + vpayload_entries es"

text \<open>Height above the root: a leaf or an empty collection has height 0.\<close>

fun vheight :: "Value \<Rightarrow> nat" and vheight_items :: "Value list \<Rightarrow> nat"
  and vheight_fields :: "Field list \<Rightarrow> nat" and vheight_entries :: "MapEntry list \<Rightarrow> nat"
where
  "vheight (VTuple xs) = vheight_items xs"
| "vheight (VVector xs) = vheight_items xs"
| "vheight (VRecord fs) = vheight_fields fs"
| "vheight (VSum _ _ (Some v)) = Suc (vheight v)"
| "vheight (VMap es) = vheight_entries es"
| "vheight _ = 0"
| "vheight_items [] = 0"
| "vheight_items (v # vs) = max (Suc (vheight v)) (vheight_items vs)"
| "vheight_fields [] = 0"
| "vheight_fields (MkField i v # fs) = max (Suc (vheight v)) (vheight_fields fs)"
| "vheight_entries [] = 0"
| "vheight_entries (MkMapEntry ek k v # es) =
     max (Suc (max (vheight k) (vheight v))) (vheight_entries es)"

text \<open>The structural part of admission: text, order and collection sizes.\<close>

fun admissible :: "nat \<Rightarrow> Value \<Rightarrow> bool" and admissible_items :: "nat \<Rightarrow> Value list \<Rightarrow> bool"
  and admissible_fields :: "nat \<Rightarrow> Field list \<Rightarrow> bool" and admissible_entries :: "nat \<Rightarrow> MapEntry list \<Rightarrow> bool"
where
  "admissible n (VText txt) = is_ascii txt"
| "admissible n (VTuple xs) = (length xs \<le> n \<and> admissible_items n xs)"
| "admissible n (VVector xs) = (length xs \<le> n \<and> admissible_items n xs)"
| "admissible n (VRecord fs) =
     (length fs \<le> n \<and> sorted_wrt (<) (map field_id fs) \<and> admissible_fields n fs)"
| "admissible n (VSum _ _ (Some v)) = admissible n v"
| "admissible n (VMap es) =
     (length es \<le> n \<and> sorted_wrt (<) (map encoded_key es) \<and> admissible_entries n es)"
| "admissible n _ = True"
| "admissible_items n [] = True"
| "admissible_items n (v # vs) = (admissible n v \<and> admissible_items n vs)"
| "admissible_fields n [] = True"
| "admissible_fields n (MkField i v # fs) = (admissible n v \<and> admissible_fields n fs)"
| "admissible_entries n [] = True"
| "admissible_entries n (MkMapEntry ek k v # es) =
     (encodable v \<and> admissible n k \<and> admissible n v \<and> admissible_entries n es)"

section \<open>The admission walk\<close>

definition limits_in_range :: "ValueLimits \<Rightarrow> bool" where
  "limits_in_range L \<longleftrightarrow> max_depth L \<le> u32_max \<and> max_nodes L \<le> u64_max
     \<and> max_payload_bytes L \<le> u64_max \<and> max_collection_len L \<le> u32_max"

lemma ensure_strict_fields_Ok: "ensure_strict_fields fs = Inr u \<longleftrightarrow> sorted_wrt (<) (map field_id fs)"
  by (induction fs rule: ensure_strict_fields.induct) (auto dest: order.strict_trans)

lemma ensure_strict_map_keys_Ok:
  "ensure_strict_map_keys es = Inr u \<longleftrightarrow> sorted_wrt (<) (map encoded_key es)"
  by (induction es rule: ensure_strict_map_keys.induct)
    (auto simp: bytes_before_less dest: order.strict_trans)

lemma enter_value_Ok:
  assumes "limits_in_range L"
  shows "enter_value d L m = Inr m' \<longleftrightarrow> d \<le> effective_max_depth L \<and> m_nodes m + 1 \<le> max_nodes L
    \<and> m' = m\<lparr>m_nodes := m_nodes m + 1, m_depth := max (m_depth m) d\<rparr>"
  using assms by (auto simp: enter_value_def limits_in_range_def Let_def not_le)

lemma add_payload_Ok:
  assumes "limits_in_range L"
  shows "add_payload n L m = Inr m' \<longleftrightarrow> m_payload_bytes m + n \<le> max_payload_bytes L
    \<and> m' = m\<lparr>m_payload_bytes := m_payload_bytes m + n\<rparr>"
  using assms by (auto simp: add_payload_def limits_in_range_def)

lemma next_depth_Ok: "next_depth d = Inr d' \<longleftrightarrow> d + 1 \<le> u32_max \<and> d' = d + 1"
  by (auto simp: next_depth_def)

lemma validate_collection_len_Ok:
  "limits_in_range L \<Longrightarrow> validate_collection_len n L = Inr u \<longleftrightarrow> n \<le> max_collection_len L"
  by (auto simp: validate_collection_len_def limits_in_range_def)

lemma effective_max_depth_le: "effective_max_depth L \<le> 1024"
  by (simp add: effective_max_depth_def MAX_SUPPORTED_DEPTH_def)

definition metered :: "ValueMetrics \<Rightarrow> nat \<Rightarrow> nat \<Rightarrow> nat \<Rightarrow> ValueMetrics" where
  "metered m n p h = m\<lparr>m_nodes := m_nodes m + n, m_payload_bytes := m_payload_bytes m + p, m_depth := max (m_depth m) h\<rparr>"


definition within :: "ValueMetrics \<Rightarrow> ValueLimits \<Rightarrow> bool" where
  "within m L \<longleftrightarrow> m_nodes m \<le> max_nodes L \<and> m_payload_bytes m \<le> max_payload_bytes L"

definition fits :: "ValueMetrics \<Rightarrow> ValueLimits \<Rightarrow> nat \<Rightarrow> nat \<Rightarrow> nat \<Rightarrow> bool" where
  "fits m L n p h \<longleftrightarrow> m_nodes m + n \<le> max_nodes L \<and> m_payload_bytes m + p \<le> max_payload_bytes L
     \<and> h \<le> effective_max_depth L"

lemma metered_metered [simp]: "metered (metered m a b c) a' b' c' = metered m (a + a') (b + b') (max c c')"
  by (simp add: metered_def max.assoc)

lemma fits_metered: "fits m L a b c \<and> fits (metered m a b c) L n p h \<longleftrightarrow> fits m L (a + n) (b + p) (max c h)"
  by (auto simp: fits_def metered_def)

text \<open>\<open>meters L d ok n p h f\<close>: started at metrics that have seen depth \<open>d\<close>, the walk \<open>f\<close> succeeds
  exactly when \<open>ok\<close> holds and \<open>n\<close> nodes, \<open>p\<close> payload bytes and depth \<open>h\<close> fit the limits, and
  then adds exactly these.\<close>

definition meters :: "ValueLimits \<Rightarrow> nat \<Rightarrow> bool \<Rightarrow> nat \<Rightarrow> nat \<Rightarrow> nat \<Rightarrow>
    (ValueMetrics \<Rightarrow> 'e + ValueMetrics) \<Rightarrow> bool" where
  "meters L d ok n p h f \<longleftrightarrow> (\<forall>m m'. within m L \<and> d \<le> m_depth m \<and> d \<le> effective_max_depth L \<longrightarrow>
     f m = Inr m' \<longleftrightarrow> ok \<and> fits m L n p h \<and> m' = metered m n p h)"

lemma meters_seq:
  assumes f: "meters L d ok1 n1 p1 h1 f" and g: "meters L d' ok2 n2 p2 h2 g" and d: "d' \<le> max d h1"
  shows "meters L d (ok1 \<and> ok2) (n1 + n2) (p1 + p2) (max h1 h2) (\<lambda>m. rbind (f m) g)"
  unfolding meters_def
proof (intro allI impI)
  fix m m'
  assume pre: "within m L \<and> d \<le> m_depth m \<and> d \<le> effective_max_depth L"
  then have "f m = Inr m1 \<longleftrightarrow> ok1 \<and> fits m L n1 p1 h1 \<and> m1 = metered m n1 p1 h1" for m1
    using f by (simp add: meters_def)
  moreover have "g (metered m n1 p1 h1) = Inr m' \<longleftrightarrow> ok2 \<and> fits (metered m n1 p1 h1) L n2 p2 h2
      \<and> m' = metered (metered m n1 p1 h1) n2 p2 h2" if "fits m L n1 p1 h1"
  proof -
    have "within (metered m n1 p1 h1) L" "d' \<le> m_depth (metered m n1 p1 h1)"
      "d' \<le> effective_max_depth L"
      using that d pre by (auto simp: within_def fits_def metered_def)
    with g show ?thesis by (simp add: meters_def del: metered_metered)
  qed
  ultimately show "rbind (f m) g = Inr m' \<longleftrightarrow> (ok1 \<and> ok2) \<and> fits m L (n1 + n2) (p1 + p2) (max h1 h2)
      \<and> m' = metered m (n1 + n2) (p1 + p2) (max h1 h2)"
    by (auto simp flip: fits_metered)
qed

lemma meters_skip: "meters L d True 0 0 d Inr"
  by (auto simp: meters_def fits_def within_def metered_def max_def)

lemma meters_check:
  "meters L d ok n p h g \<Longrightarrow> meters L d ((\<exists>u. r = Inr u) \<and> ok) n p h (\<lambda>m. rbind r (\<lambda>_. g m))"
  by (auto simp: meters_def)

lemma meters_next_depth:
  "meters L d ok n p h (g (Suc d)) \<Longrightarrow> meters L d ok n p h (\<lambda>m. rbind (next_depth d) (\<lambda>d. g d m))"
  using effective_max_depth_le [of L] by (auto simp: meters_def next_depth_Ok)

lemma meters_enter: "limits_in_range L \<Longrightarrow> meters L 0 True 1 0 d (enter_value d L)"
  by (auto simp: meters_def enter_value_Ok fits_def metered_def within_def)

lemma meters_payload: "limits_in_range L \<Longrightarrow> meters L d True 0 n d (add_payload n L)"
  by (auto simp: meters_def add_payload_Ok fits_def metered_def within_def max_def)

lemma meters_cong:
  "meters L d ok n p h f \<Longrightarrow> ok = ok' \<Longrightarrow> n = n' \<Longrightarrow> p = p' \<Longrightarrow> h = h' \<Longrightarrow>
    (\<And>m. f m = f' m) \<Longrightarrow> meters L d ok' n' p' h' f'"
  by (simp add: meters_def)

lemma meters_encoded_length:
  assumes L: "limits_in_range L" and g: "meters L d ok n p h g" and d: "d \<le> h"
  shows "meters L d (encodable v \<and> ok) n (length (enc v) + p) h
    (\<lambda>m. rbind (encoded_length v) (\<lambda>k. rbind (add_payload k L m) g))"
proof -
  have "meters L d ok n (length (enc v) + p) h (\<lambda>m. rbind (add_payload (length (enc v)) L m) g)"
    using meters_seq [OF meters_payload [OF L, of d "length (enc v)"] g] d by (simp add: max_def)
  with L show ?thesis
    by (fastforce simp: meters_def encoded_length_eq fits_def limits_in_range_def)
qed

lemma meters_node:
  assumes L: "limits_in_range L" and g: "meters L d ok n p (d + h) (g (Suc d))"
  shows "meters L 0 ((\<exists>u. r = Inr u) \<and> ok) (Suc n) p (d + h)
    (\<lambda>m. rbind (enter_value d L m) (\<lambda>m. rbind r (\<lambda>_. rbind (next_depth d) (\<lambda>d. g d m))))"
  using meters_seq [OF meters_enter [OF L, of d] meters_check [where r = r, OF meters_next_depth [where g = g, OF g]]]
  by (simp add: max_def)

lemma meters_leaf: "limits_in_range L \<Longrightarrow> meters L 0 True (Suc 0) 0 d (enter_value d L)"
  using meters_enter [of L d] by simp

lemma meters_blob: "limits_in_range L \<Longrightarrow>
  meters L 0 True (Suc 0) n d (\<lambda>m. rbind (enter_value d L m) (add_payload n L))"
  using meters_seq [OF meters_enter [of L d] meters_payload [of L d n]] by simp

lemma meters_weaken: "meters L 0 ok n p h f \<Longrightarrow> meters L d ok n p h f"
  by (simp add: meters_def)

lemma meters_refuse: "\<not> ok \<Longrightarrow> (\<And>m m'. f m \<noteq> Inr m') \<Longrightarrow> meters L d ok n p h f"
  by (simp add: meters_def)

lemma meters_text:
  assumes "limits_in_range L"
  shows "meters L 0 ok (Suc 0) n d (\<lambda>m. rbind (enter_value d L m)
    (\<lambda>m. if \<not> ok then Inl e else add_payload n L m))"
  using meters_blob [OF assms] by (cases ok) (simp_all add: meters_refuse)

lemma validate_leaf:
  "validate_value VUnit d L = enter_value d L"
  "validate_value (VBool b) d L = enter_value d L"
  "validate_value (VU128 i) d L = enter_value d L"
  "validate_value (VI128 i) d L = enter_value d L"
  "validate_value (VEnum t n) d L = enter_value d L"
  "validate_value (VSum t n None) d L = enter_value d L"
  "validate_value (VBytes bs) d L = (\<lambda>m. rbind (enter_value d L m) (add_payload (length bs) L))"
  "validate_value (VText txt) d L = (\<lambda>m. rbind (enter_value d L m)
     (\<lambda>m. if \<not> is_ascii txt then Err VE_NonAsciiText else add_payload (length txt) L m))"
  by (simp_all add: fun_eq_iff)

lemma meters_validate:
  fixes L
  assumes L: "limits_in_range L"
  shows "meters L 0 (admissible (max_collection_len L) v) (vnodes v) (vpayload v) (d + vheight v)
      (validate_value v d L)"
    and "meters L d (admissible_items (max_collection_len L) vs) (vnodes_items vs)
      (vpayload_items vs) (d + vheight_items vs) (validate_items vs (Suc d) L)"
    and "meters L d (admissible_fields (max_collection_len L) fs) (vnodes_fields fs)
      (vpayload_fields fs) (d + vheight_fields fs) (validate_fields fs (Suc d) L)"
    and "meters L d (admissible_entries (max_collection_len L) es) (vnodes_entries es)
      (vpayload_entries es) (d + vheight_entries es) (validate_entries es (Suc d) L)"
proof (induction v and vs and fs and es arbitrary: d and d and d and d
    rule: vnodes_vnodes_items_vnodes_fields_vnodes_entries.induct)
  case (1 xs)
  show ?case using meters_node [where g = "\<lambda>d. validate_items xs d L", OF L 1]
    by (rule meters_cong) (simp_all add: validate_collection_len_Ok [OF L])
next
  case (2 xs)
  show ?case using meters_node [where g = "\<lambda>d. validate_items xs d L", OF L 2]
    by (rule meters_cong) (simp_all add: validate_collection_len_Ok [OF L])
next
  case (3 fs)
  show ?case using meters_node [where g = "\<lambda>d. validate_fields fs d L" and
        r = "rbind (validate_collection_len (length fs) L) (\<lambda>_. ensure_strict_fields fs)", OF L 3]
    by (rule meters_cong)
      (simp_all add: validate_collection_len_Ok [OF L] ensure_strict_fields_Ok rbind_assoc)
next
  case (4 t n v)
  show ?case using meters_node [where g = "\<lambda>d. validate_value v d L" and r = "Inr ()" and h = "Suc (vheight v)" and d = d,
        OF L meters_weaken] 4 [of "Suc d"]
    by simp
next
  case (5 es)
  show ?case using meters_node [where g = "\<lambda>d. validate_entries es d L" and
        r = "rbind (validate_collection_len (length es) L) (\<lambda>_. ensure_strict_map_keys es)", OF L 5]
    by (rule meters_cong)
      (simp_all add: validate_collection_len_Ok [OF L] ensure_strict_map_keys_Ok rbind_assoc)
next
  case 7
  show ?case by (rule meters_cong [OF meters_skip]) simp_all
next
  case (8 v vs)
  show ?case by (rule meters_cong [OF meters_seq [OF meters_weaken [OF 8(1) [of "Suc d"]] 8(2)]]) simp_all
next
  case 9
  show ?case by (rule meters_cong [OF meters_skip]) simp_all
next
  case (10 i v fs)
  show ?case by (rule meters_cong [OF meters_seq [OF meters_weaken [OF 10(1) [of "Suc d"]] 10(2)]]) simp_all
next
  case 11
  show ?case by (rule meters_cong [OF meters_skip]) simp_all
next
  case (12 ek k v es)
  have "meters L d (admissible (max_collection_len L) k \<and> admissible (max_collection_len L) v \<and>
      admissible_entries (max_collection_len L) es) (vnodes k + (vnodes v + vnodes_entries es))
    (vpayload k + (vpayload v + vpayload_entries es)) (d + vheight_entries (MkMapEntry ek k v # es))
    (\<lambda>m. rbind (validate_value k (Suc d) L m) (\<lambda>m. rbind (validate_value v (Suc d) L m) (validate_entries es (Suc d) L)))"
    by (rule meters_cong [OF meters_seq [OF meters_weaken [OF 12(1) [of "Suc d"]] 
       meters_seq [where d = d, OF meters_weaken [OF 12(2) [of "Suc d"]] 12(3) [of d]]]]) simp_all
  from meters_seq [where d = d, OF meters_payload [OF L] meters_encoded_length [OF L this]]
  show ?case by (rule meters_cong) simp_all
qed (simp_all only: validate_leaf, simp_all add: meters_leaf L meters_blob meters_text)


lemma validate_limits_Ok:
  assumes "limits_in_range L"
  shows "validate_limits v L = Inr m \<longleftrightarrow> admissible (max_collection_len L) v
    \<and> vnodes v \<le> max_nodes L \<and> vpayload v \<le> max_payload_bytes L
    \<and> vheight v \<le> effective_max_depth L
    \<and> m = \<lparr>m_nodes = vnodes v, m_payload_bytes = vpayload v, m_depth = vheight v\<rparr>"
  using meters_validate(1) [OF assms, of v 0]
  by (auto simp: validate_limits_def meters_def within_def fits_def metered_def)

section \<open>The representation invariant\<close>

fun repr_valid :: "Value \<Rightarrow> bool"
  and repr_valid_items :: "Value list \<Rightarrow> bool"
  and repr_valid_fields :: "Field list \<Rightarrow> bool"
  and repr_valid_entries :: "MapEntry list \<Rightarrow> bool"
where
  "repr_valid (VBytes bs) = (length bs \<le> u32_max)"
| "repr_valid (VText txt) = (is_ascii txt \<and> length txt \<le> u32_max)"
| "repr_valid (VTuple xs) = (length xs \<le> u32_max \<and> repr_valid_items xs)"
| "repr_valid (VRecord fs) =
     (length fs \<le> u32_max \<and> sorted_wrt (<) (map field_id fs) \<and> repr_valid_fields fs)"
| "repr_valid (VSum _ _ (Some v)) = repr_valid v"
| "repr_valid (VVector xs) = (length xs \<le> u32_max \<and> repr_valid_items xs)"
| "repr_valid (VMap es) =
     (length es \<le> u32_max \<and> sorted_wrt (<) (map encoded_key es) \<and> repr_valid_entries es)"
| "repr_valid _ = True"
| "repr_valid_items [] = True"
| "repr_valid_items (v # vs) = (repr_valid v \<and> repr_valid_items vs)"
| "repr_valid_fields [] = True"
| "repr_valid_fields (MkField i v # fs) = (repr_valid v \<and> repr_valid_fields fs)"
| "repr_valid_entries [] = True"
| "repr_valid_entries (MkMapEntry ek k v # es) =
     (ek = enc k \<and> repr_valid k \<and> length (enc k) \<le> u32_max
      \<and> repr_valid v \<and> length (enc v) \<le> u32_max \<and> repr_valid_entries es)"

definition field_valid :: "Field \<Rightarrow> bool" where
  "field_valid f \<longleftrightarrow> repr_valid (field_value f)"

definition entry_valid :: "MapEntry \<Rightarrow> bool" where
  "entry_valid e \<longleftrightarrow> encoded_key e = enc (entry_key e) \<and> repr_valid (entry_key e)
     \<and> length (encoded_key e) \<le> u32_max \<and> repr_valid (entry_value e)"

lemma repr_valid_items_all: "repr_valid_items vs \<longleftrightarrow> (\<forall>v\<in>set vs. repr_valid v)"
  by (induction vs) auto

lemma repr_valid_fields_all: "repr_valid_fields fs \<longleftrightarrow> (\<forall>f\<in>set fs. field_valid f)"
proof (induction fs)
  case (Cons f fs) then show ?case by (cases f) (auto simp: field_valid_def)
qed simp

lemma repr_valid_entries_all: "repr_valid_entries es \<longleftrightarrow>
    (\<forall>e\<in>set es. entry_valid e \<and> length (enc (entry_value e)) \<le> u32_max)"
proof (induction es)
  case (Cons e es) then show ?case by (cases e) (auto simp: entry_valid_def)
qed simp

lemma repr_valid_encodable:
  "repr_valid v \<Longrightarrow> encodable v"
  "repr_valid_items vs \<Longrightarrow> encodable_items vs"
  "repr_valid_fields fs \<Longrightarrow> encodable_fields fs"
  "repr_valid_entries es \<Longrightarrow> encodable_entries es"
  by (induction v and vs and fs and es
      rule: encodable_encodable_items_encodable_fields_encodable_entries.induct) simp_all

lemma append_encoded_eq:
  "append_encoded v out =
     (if encodable v \<and> length out + length (enc v) \<le> usize_max then Ok (out @ enc v)
      else Err VE_ArithmeticOverflow)"
  by (simp add: append_encoded_def encode_eq checked_add_def)

lemma zcve_bytes_with_limits_Ok:
  assumes "zcve_bytes_with_limits v L = Inr bs"
  shows "bs = enc v \<and> encodable v \<and> length (enc v) \<le> usize_max \<and> (\<exists>m. validate_limits v L = Inr m)"
  using assms by (auto simp: zcve_bytes_with_limits_def encode_zcve_to_with_limits_def
      append_encoded_eq split: if_splits)

lemma map_entry_valid:
  assumes "map_entry_try_new_with_limits k v L = Inr e" "repr_valid k" "repr_valid v"
  shows "entry_valid e \<and> entry_key e = k \<and> entry_value e = v"
  using assms by (auto simp: map_entry_try_new_with_limits_def entry_valid_def check_wire_length_eq
      dest!: zcve_bytes_with_limits_Ok split: if_splits)

lemma check_entry_lengths_Ok:
  "check_entry_lengths es = Inr u \<longleftrightarrow>
     (\<forall>e\<in>set es. encodable (entry_value e) \<and> length (enc (entry_value e)) \<le> u32_max)"
  by (induction es) (auto simp: encoded_length_eq check_wire_length_eq split: if_splits)

lemma record_canonical_valid:
  "record_canonical fs = Inr v \<Longrightarrow> \<forall>f\<in>set fs. field_valid f \<Longrightarrow> repr_valid v"
  by (auto simp: record_canonical_def check_wire_length_eq ensure_strict_fields_Ok
      repr_valid_fields_all split: if_splits)

lemma map_canonical_valid:
  "map_canonical es = Inr v \<Longrightarrow> \<forall>e\<in>set es. entry_valid e \<Longrightarrow> repr_valid v"
  by (auto simp: map_canonical_def check_wire_length_eq ensure_strict_map_keys_Ok
      repr_valid_entries_all check_entry_lengths_Ok split: if_splits)

text \<open>The values the public constructors can build, from any limits the caller picks.\<close>

inductive built :: "Value \<Rightarrow> bool" and built_field :: "Field \<Rightarrow> bool"
  and built_entry :: "MapEntry \<Rightarrow> bool" where
  built_unit: "built VUnit"
| built_bool: "built (VBool b)"
| built_u128: "built (VU128 i)"
| built_i128: "built (VI128 i)"
| built_enum: "built (VEnum t n)"
| built_sum_none: "built (VSum t n None)"
| built_sum_some: "built v \<Longrightarrow> built (VSum t n (Some v))"
| built_bytes: "value_bytes bs = Inr v \<Longrightarrow> built v"
| built_bytes_limits: "value_bytes_with_limits bs L = Inr v \<Longrightarrow> built v"
| built_text: "value_text_ascii txt = Inr v \<Longrightarrow> built v"
| built_text_limits: "value_text_ascii_with_limits txt L = Inr v \<Longrightarrow> built v"
| built_tuple: "value_tuple vs = Inr v \<Longrightarrow> (\<And>x. x \<in> set vs \<Longrightarrow> built x) \<Longrightarrow> built v"
| built_vector: "value_vector vs = Inr v \<Longrightarrow> (\<And>x. x \<in> set vs \<Longrightarrow> built x) \<Longrightarrow> built v"
| built_record: "record_canonical fs = Inr v \<Longrightarrow> (\<And>f. f \<in> set fs \<Longrightarrow> built_field f) \<Longrightarrow> built v"
| built_normal_record: "normalize_record fs = Inr v \<Longrightarrow> (\<And>f. f \<in> set fs \<Longrightarrow> built_field f) \<Longrightarrow> built v"
| built_map: "map_canonical es = Inr v \<Longrightarrow> (\<And>e. e \<in> set es \<Longrightarrow> built_entry e) \<Longrightarrow> built v"
| built_normal_map: "normalize_map es = Inr v \<Longrightarrow> (\<And>e. e \<in> set es \<Longrightarrow> built_entry e) \<Longrightarrow> built v"
| built_field_new: "built v \<Longrightarrow> built_field (field_new i v)"
| built_entry_new: "map_entry_try_new_with_limits k v L = Inr e \<Longrightarrow> built k \<Longrightarrow> built v \<Longrightarrow> built_entry e"

lemma built_valid:
  "built v \<Longrightarrow> repr_valid v"
  "built_field f \<Longrightarrow> field_valid f"
  "built_entry e \<Longrightarrow> entry_valid e"
proof (induction rule: built_built_field_built_entry.inducts)
qed (auto simp: value_bytes_def value_bytes_with_max_def value_bytes_with_limits_def
    value_text_ascii_def value_text_ascii_with_max_def value_text_ascii_with_limits_def
    value_tuple_def value_vector_def Let_def DEFAULT_MAX_PAYLOAD_BYTES_def check_wire_length_eq
    repr_valid_items_all field_valid_def field_new_def normalize_record_def normalize_map_def
    dest: map_entry_valid record_canonical_valid map_canonical_valid split: if_splits)

section \<open>Properties\<close>

text \<open>C29: every value that the public constructors can build, with whatever limits and in whatever
  nesting, satisfies the representation invariant: text is ASCII, record fields and map keys
  are strictly increasing, every map entry caches the encoding of its own key, and every
  length fits the 32 bits the wire format gives it.\<close>

theorem constructors_establish_invariant:
  "built v \<Longrightarrow> repr_valid v"
  by (rule built_valid(1))

theorem constructors_establish_invariant_witness:
  "built (VRecord [MkField 2 (VBool True), MkField 3 VUnit]) \<and>
   repr_valid (VRecord [MkField 2 (VBool True), MkField 3 VUnit])"
proof -
  let ?v = "VRecord [MkField 2 (VBool True), MkField 3 VUnit]"
  have fields: "built_field (field_new 3 VUnit)" "built_field (field_new 2 (VBool True))"
    by (intro built_field_new built_unit built_bool)+
  have "normalize_record [field_new 3 VUnit, field_new 2 (VBool True)] = Inr ?v"
    by (simp add: normalize_record_def field_new_def record_canonical_def check_wire_length_eq)
  then have "built ?v" by (rule built_normal_record) (use fields in auto)
  then show ?thesis using constructors_establish_invariant by blast
qed

text \<open>The encoder appends exactly the ZCVE/1 byte string \<open>enc v\<close> to its buffer, and it fails,
  with an arithmetic overflow, exactly when a length does not fit its 32-bit prefix.\<close>

theorem encoder_exact:
  "encode_zcve_value v output =
     (if encodable v then Ok (output @ enc v) else Err VE_ArithmeticOverflow)"
  by (rule encode_eq(1))

text \<open>The length computed without encoding is the length of the encoding, and the computation
  fails exactly when the encoder would, or the total exceeds \<^verbatim>\<open>usize\<close>.\<close>

theorem encoded_length_exact:
  "encoded_length v =
     (if encodable v \<and> length (enc v) \<le> usize_max
      then rbind (encode_zcve_value v []) (\<lambda>bs. Ok (length bs))
      else Err VE_ArithmeticOverflow)"
  by (simp add: encoded_length_eq(1) encode_eq(1))

text \<open>C37: admission accepts a value exactly when its text, order and collection sizes are right and
  its node count, payload and height are within the limits (the depth limit capped at the
  supported 1024), and then reports exactly these three measures.\<close>

theorem admission_exact:
  assumes "limits_in_range limits"
  shows "validate_limits v limits = Ok metrics \<longleftrightarrow>
    admissible (max_collection_len limits) v \<and> vnodes v \<le> max_nodes limits
    \<and> vpayload v \<le> max_payload_bytes limits
    \<and> vheight v \<le> min (max_depth limits) MAX_SUPPORTED_DEPTH
    \<and> metrics = \<lparr>m_nodes = vnodes v, m_payload_bytes = vpayload v, m_depth = vheight v\<rparr>"
  unfolding validate_limits_Ok [OF assms]
  by (auto simp: effective_max_depth_def min_def)

lemma default_value_limits_in_range: "limits_in_range default_value_limits"
  by (simp add: limits_in_range_def default_value_limits_def DEFAULT_MAX_PAYLOAD_BYTES_def try_from_def)

lemma default_limit_simps:
  "max_nodes default_value_limits = 1000000"
  "max_payload_bytes default_value_limits = 67108864"
  "max_collection_len default_value_limits = 1000000"
  "effective_max_depth default_value_limits = 64"
  by (simp_all add: default_value_limits_def DEFAULT_MAX_PAYLOAD_BYTES_def try_from_def
      effective_max_depth_def MAX_SUPPORTED_DEPTH_def)

theorem admission_exact_witness:
  "limits_in_range default_value_limits \<and>
   validate_limits (VTuple [VUnit, VBytes [1, 2, 3]]) default_value_limits =
     Ok \<lparr>m_nodes = 3, m_payload_bytes = 3, m_depth = 1\<rparr>"
  using admission_exact [OF default_value_limits_in_range, of "VTuple [VUnit, VBytes [1, 2, 3]]"]
    default_value_limits_in_range
  by (simp add: default_value_limits_def DEFAULT_MAX_PAYLOAD_BYTES_def try_from_def
      MAX_SUPPORTED_DEPTH_def)

end
