(* ===== verification/Zeno_Codec.thy ===== *)
theory Zeno_Codec
  imports Zeno_Value_Laws Zeno_Hash
begin

text \<open>
  The canonical codec of \<^verbatim>\<open>zeno-fcis-codec\<close>: canonical bytes of values and envelopes, and the
  bounded decoder.  The decoder threads its cursor and its resource state; a state lost with
  an error is never observable, because every public entry point creates its own.  The
  recursion of the decoder ends because \<^verbatim>\<open>enter\<close> refuses a depth above the supported 1024.
\<close>

section \<open>Errors\<close>

datatype DecodeError =
    DE_InputLimit nat nat
  | DE_LengthOverflow
  | DE_UnexpectedEnd nat nat
  | DE_TrailingBytes nat
  | DE_UnknownTag u8
  | DE_Utf8
  | DE_NonAsciiText
  | DE_InvalidSumFlag
  | DE_NonCanonicalRecord
  | DE_NonCanonicalMap
  | DE_NonCanonical
  | DE_EnvelopeMagic
  | DE_BlobLimit nat nat
  | DE_DepthLimit nat nat
  | DE_NodeLimit nat nat
  | DE_PayloadLimit nat nat
  | DE_CollectionLimit nat nat
  | DE_InvalidValue ValueError
  | DE_Encode EncodeError

fun map_value_encode_error :: "ValueError \<Rightarrow> EncodeError" where
  "map_value_encode_error (VE_RecordFieldOrder _ _) = EE_NonCanonicalRecord"
| "map_value_encode_error VE_MapKeyOrder = EE_NonCanonicalMap"
| "map_value_encode_error VE_NonAsciiText = EE_NonAsciiText"
| "map_value_encode_error other = EE_InvalidValue other"

definition map_value_decode_error :: "ValueError \<Rightarrow> DecodeError" where
  "map_value_decode_error e = DE_InvalidValue e"

definition map_decode_encode_error :: "EncodeError \<Rightarrow> DecodeError" where
  "map_decode_encode_error e = DE_Encode e"

section \<open>Encoding\<close>

definition value_encode_to :: "Value \<Rightarrow> bytes \<Rightarrow> EncodeError + bytes" where
  "value_encode_to v output = map_err map_value_encode_error (encode_zcve_to v output)"

definition admitted_encode_to :: "AdmittedValue \<Rightarrow> bytes \<Rightarrow> EncodeError + bytes" where
  "admitted_encode_to a output = map_err map_value_encode_error (admitted_encode_zcve_to a output)"

text \<open>The provided method \<^verbatim>\<open>CanonicalEncode::canonical_bytes\<close>, of any implementation.\<close>

definition canonical_bytes :: "('a \<Rightarrow> bytes \<Rightarrow> EncodeError + bytes) \<Rightarrow> 'a \<Rightarrow> EncodeError + bytes" where
  "canonical_bytes encode_to x = encode_to x []"

definition encode_value_with_limits :: "Value \<Rightarrow> bytes \<Rightarrow> ValueLimits \<Rightarrow> EncodeError + bytes" where
  "encode_value_with_limits v output limits =
     map_err map_value_encode_error (encode_zcve_to_with_limits v output limits)"

definition canonical_value_bytes_with_limits :: "Value \<Rightarrow> ValueLimits \<Rightarrow> EncodeError + bytes" where
  "canonical_value_bytes_with_limits v limits =
     map_err map_value_encode_error (zcve_bytes_with_limits v limits)"

section \<open>Limits\<close>

record DecodeLimits =
  max_input_bytes :: nat
  dl_value :: ValueLimits

definition DEFAULT_MAX_INPUT_BYTES :: nat where
  "DEFAULT_MAX_INPUT_BYTES = 64 * 1024 * 1024"

definition default_decode_limits :: DecodeLimits where
  "default_decode_limits =
     \<lparr>max_input_bytes = DEFAULT_MAX_INPUT_BYTES, dl_value = default_value_limits\<rparr>"

section \<open>Envelopes\<close>

record Envelope =
  env_type_id :: u32
  env_schema_hash :: hash32
  env_value :: Value

definition ENVELOPE_MAGIC :: bytes where
  "ENVELOPE_MAGIC = ascii_bytes ''ZFCISV1'' @ [0]"

definition ENVELOPE_OVERHEAD_BYTES :: nat where
  "ENVELOPE_OVERHEAD_BYTES = 8 + 4 + 32 + 4"

definition append_envelope ::
    "bytes \<Rightarrow> u32 \<Rightarrow> hash32 \<Rightarrow> bytes \<Rightarrow> nat \<Rightarrow> EncodeError + bytes" where
  "append_envelope output type_id schema_hash payload max_input =
     rbind (ok_or (try_from u32_max (length payload)) EE_LengthOverflow) (\<lambda>payload_length.
     rbind (ok_or (checked_add u64_max ENVELOPE_OVERHEAD_BYTES payload_length) EE_LengthOverflow)
       (\<lambda>attempted.
     if attempted > max_input then Err (EE_EnvelopeInputLimit max_input attempted)
     else
     rbind (ok_or (try_from usize_max attempted) EE_LengthOverflow) (\<lambda>total.
     rbind (ok_or (checked_add usize_max (length output) total) EE_LengthOverflow) (\<lambda>_.
       Ok (output @ ENVELOPE_MAGIC @ be_bytes 4 type_id @ be_bytes 32 schema_hash
           @ be_bytes 4 (of_nat payload_length :: u32) @ payload)))))"

definition envelope_encode_to_with_limits ::
    "Envelope \<Rightarrow> bytes \<Rightarrow> DecodeLimits \<Rightarrow> EncodeError + bytes" where
  "envelope_encode_to_with_limits e output limits =
     rbind (canonical_value_bytes_with_limits (env_value e) (dl_value limits)) (\<lambda>payload.
       append_envelope output (env_type_id e) (env_schema_hash e) payload (max_input_bytes limits))"

definition envelope_canonical_bytes_with_limits ::
    "Envelope \<Rightarrow> DecodeLimits \<Rightarrow> EncodeError + bytes" where
  "envelope_canonical_bytes_with_limits e limits = envelope_encode_to_with_limits e [] limits"

definition envelope_encode_to :: "Envelope \<Rightarrow> bytes \<Rightarrow> EncodeError + bytes" where
  "envelope_encode_to e output = envelope_encode_to_with_limits e output
     \<lparr>max_input_bytes = u64_max, dl_value = default_value_limits\<rparr>"

record AdmittedEnvelope =
  ae_type_id :: u32
  ae_schema_hash :: hash32
  ae_value :: AdmittedValue
  ae_payload_length :: nat
  ae_max_input_bytes :: nat

definition admitted_envelope_try_new_with_limits ::
    "u32 \<Rightarrow> hash32 \<Rightarrow> AdmittedValue \<Rightarrow> DecodeLimits \<Rightarrow> EncodeError + AdmittedEnvelope" where
  "admitted_envelope_try_new_with_limits type_id schema_hash v limits =
     rbind (if admitted_limits v = dl_value limits then Ok v
            else map_err map_value_encode_error
              (admit_with_limits (admitted_value v) (dl_value limits))) (\<lambda>v.
     rbind (map_err map_value_encode_error (encoded_length (admitted_value v))) (\<lambda>n.
     rbind (ok_or (try_from u32_max n) EE_LengthOverflow) (\<lambda>payload_length.
     rbind (ok_or (checked_add u64_max ENVELOPE_OVERHEAD_BYTES payload_length) EE_LengthOverflow)
       (\<lambda>attempted.
     if attempted > max_input_bytes limits
     then Err (EE_EnvelopeInputLimit (max_input_bytes limits) attempted)
     else Ok \<lparr>ae_type_id = type_id, ae_schema_hash = schema_hash, ae_value = v,
       ae_payload_length = payload_length, ae_max_input_bytes = max_input_bytes limits\<rparr>))))"

definition admitted_envelope_try_new_with_limit ::
    "u32 \<Rightarrow> hash32 \<Rightarrow> AdmittedValue \<Rightarrow> nat \<Rightarrow> EncodeError + AdmittedEnvelope" where
  "admitted_envelope_try_new_with_limit type_id schema_hash v max_input =
     admitted_envelope_try_new_with_limits type_id schema_hash v
       \<lparr>max_input_bytes = max_input, dl_value = default_value_limits\<rparr>"

definition admitted_envelope_try_new ::
    "u32 \<Rightarrow> hash32 \<Rightarrow> AdmittedValue \<Rightarrow> EncodeError + AdmittedEnvelope" where
  "admitted_envelope_try_new type_id schema_hash v =
     admitted_envelope_try_new_with_limit type_id schema_hash v DEFAULT_MAX_INPUT_BYTES"

definition try_from_envelope_with_limits ::
    "Envelope \<Rightarrow> DecodeLimits \<Rightarrow> EncodeError + AdmittedEnvelope" where
  "try_from_envelope_with_limits e limits =
     rbind (map_err map_value_encode_error (admit_with_limits (env_value e) (dl_value limits)))
       (\<lambda>v. admitted_envelope_try_new_with_limits (env_type_id e) (env_schema_hash e) v limits)"

definition try_from_envelope :: "Envelope \<Rightarrow> EncodeError + AdmittedEnvelope" where
  "try_from_envelope e = try_from_envelope_with_limits e default_decode_limits"

definition admitted_envelope_limits :: "AdmittedEnvelope \<Rightarrow> DecodeLimits" where
  "admitted_envelope_limits a =
     \<lparr>max_input_bytes = ae_max_input_bytes a, dl_value = admitted_limits (ae_value a)\<rparr>"

definition admitted_envelope_encoded_length :: "AdmittedEnvelope \<Rightarrow> nat" where
  "admitted_envelope_encoded_length a = ENVELOPE_OVERHEAD_BYTES + ae_payload_length a"

definition into_envelope :: "AdmittedEnvelope \<Rightarrow> Envelope" where
  "into_envelope a = \<lparr>env_type_id = ae_type_id a, env_schema_hash = ae_schema_hash a,
     env_value = admitted_value (ae_value a)\<rparr>"

definition admitted_envelope_encode_to :: "AdmittedEnvelope \<Rightarrow> bytes \<Rightarrow> EncodeError + bytes" where
  "admitted_envelope_encode_to a output =
     rbind (canonical_bytes admitted_encode_to (ae_value a)) (\<lambda>payload.
       append_envelope output (ae_type_id a) (ae_schema_hash a) payload (ae_max_input_bytes a))"

section \<open>Decoder state\<close>

record DecodeState =
  ds_limits :: ValueLimits
  ds_nodes :: nat
  ds_payload_bytes :: nat
  ds_depth :: nat

definition decode_state_new :: "ValueLimits \<Rightarrow> DecodeState" where
  "decode_state_new limits =
     \<lparr>ds_limits = limits, ds_nodes = 0, ds_payload_bytes = 0, ds_depth = 0\<rparr>"

definition ds_enter :: "nat \<Rightarrow> DecodeState \<Rightarrow> DecodeError + DecodeState" where
  "ds_enter d st =
     (if d > effective_max_depth (ds_limits st)
      then Err (DE_DepthLimit (effective_max_depth (ds_limits st)) d)
      else rbind (ok_or (checked_add u64_max (ds_nodes st) 1) DE_LengthOverflow) (\<lambda>n.
        if n > max_nodes (ds_limits st) then Err (DE_NodeLimit (max_nodes (ds_limits st)) n)
        else Ok (st\<lparr>ds_depth := max (ds_depth st) d, ds_nodes := n\<rparr>)))"

definition ds_payload :: "nat \<Rightarrow> DecodeState \<Rightarrow> DecodeError + DecodeState" where
  "ds_payload n st =
     rbind (ok_or (try_from u64_max n) DE_LengthOverflow) (\<lambda>n.
     rbind (ok_or (checked_add u64_max (ds_payload_bytes st) n) DE_LengthOverflow) (\<lambda>p.
       if p > max_payload_bytes (ds_limits st)
       then Err (DE_PayloadLimit (max_payload_bytes (ds_limits st)) p)
       else Ok (st\<lparr>ds_payload_bytes := p\<rparr>)))"

definition initial_collection_capacity :: "nat \<Rightarrow> nat \<Rightarrow> nat \<Rightarrow> DecodeError + nat" where
  "initial_collection_capacity item_count remaining_wire_bytes minimum_wire_bytes_per_item =
     rbind (ok_or (try_from usize_max item_count) DE_LengthOverflow) (\<lambda>item_count.
     rbind (ok_or (checked_div remaining_wire_bytes minimum_wire_bytes_per_item)
       DE_LengthOverflow) (\<lambda>wire_bound. Ok (min item_count wire_bound)))"

definition ds_reservation :: "DecodeState \<Rightarrow> nat \<Rightarrow> nat \<Rightarrow> nat \<Rightarrow> DecodeError + nat" where
  "ds_reservation st item_count remaining_wire_bytes minimum_wire_bytes_per_item =
     (let nodes = (case try_from usize_max (max_nodes (ds_limits st) - ds_nodes st) of
            Some n \<Rightarrow> n | None \<Rightarrow> usize_max) in
      rbind (initial_collection_capacity item_count remaining_wire_bytes minimum_wire_bytes_per_item)
        (\<lambda>n. Ok (min n nodes)))"

definition ds_collection :: "DecodeState \<Rightarrow> nat \<Rightarrow> DecodeError + unit" where
  "ds_collection st n =
     (if n > max_collection_len (ds_limits st)
      then Err (DE_CollectionLimit (max_collection_len (ds_limits st)) n) else Ok ())"

section \<open>Cursor\<close>

definition read_word :: "bytes \<Rightarrow> u128" where
  "read_word bs = foldl (\<lambda>word b. push_bit 8 word OR ucast b) 0 bs"

definition bits_to_signed :: "u128 \<Rightarrow> i128" where
  "bits_to_signed bits = (if bits \<le> 2 ^ 127 - 1 then bits else - (- 1 - bits) - 1)"

definition codec_take :: "nat \<Rightarrow> cursor \<Rightarrow> DecodeError + bytes \<times> cursor" where
  "codec_take = cursor_take DE_LengthOverflow DE_UnexpectedEnd"

definition take_u8 :: "cursor \<Rightarrow> DecodeError + u8 \<times> cursor" where
  "take_u8 c = rbind (codec_take 1 c) (\<lambda>(bs, c). Ok (bs ! 0, c))"

definition take_u16 :: "cursor \<Rightarrow> DecodeError + u16 \<times> cursor" where
  "take_u16 c = rbind (codec_take 2 c) (\<lambda>(bs, c). Ok (ucast (read_word bs), c))"

definition take_u32 :: "cursor \<Rightarrow> DecodeError + u32 \<times> cursor" where
  "take_u32 c = rbind (codec_take 4 c) (\<lambda>(bs, c). Ok (ucast (read_word bs), c))"

definition take_blob :: "nat \<Rightarrow> cursor \<Rightarrow> DecodeError + bytes \<times> cursor" where
  "take_blob maximum c =
     rbind (take_u32 c) (\<lambda>(n, c).
       if unat n > maximum then Err (DE_BlobLimit maximum (unat n))
       else rbind (ok_or (try_from usize_max (unat n)) DE_LengthOverflow) (\<lambda>n. codec_take n c))"

section \<open>Decoder\<close>

definition decode_next_depth :: "nat \<Rightarrow> DecodeError + nat" where
  "decode_next_depth d = ok_or (checked_add u32_max d 1) DE_LengthOverflow"

text \<open>The loops \<^verbatim>\<open>decode_items\<close>, \<^verbatim>\<open>decode_fields\<close> and \<^verbatim>\<open>decode_entries\<close> run on the number of
  iterations left; the capacity that those functions reserve first is computed at their
  call.  \<open>previous\<close> is their local of the same name.\<close>

function (sequential) decode_value_inner ::
    "cursor \<Rightarrow> DecodeState \<Rightarrow> nat \<Rightarrow> DecodeError + Value \<times> cursor \<times> DecodeState"
  and decode_complete_value ::
    "bytes \<Rightarrow> DecodeState \<Rightarrow> nat \<Rightarrow> DecodeError + Value \<times> DecodeState"
  and decode_items ::
    "cursor \<Rightarrow> DecodeState \<Rightarrow> nat \<Rightarrow> nat \<Rightarrow> DecodeError + Value list \<times> cursor \<times> DecodeState"
  and decode_fields ::
    "cursor \<Rightarrow> DecodeState \<Rightarrow> nat \<Rightarrow> nat \<Rightarrow> u16 option \<Rightarrow>
       DecodeError + Field list \<times> cursor \<times> DecodeState"
  and decode_entries ::
    "cursor \<Rightarrow> DecodeState \<Rightarrow> nat \<Rightarrow> nat \<Rightarrow> bytes option \<Rightarrow>
       DecodeError + MapEntry list \<times> cursor \<times> DecodeState"
where
  "decode_value_inner c st d =
     rbind (ds_enter d st) (\<lambda>st.
     rbind (take_u8 c) (\<lambda>(tag, c).
       if tag = TAG_UNIT then Ok (VUnit, c, st)
       else if tag = TAG_BOOL_FALSE then Ok (VBool False, c, st)
       else if tag = TAG_BOOL_TRUE then Ok (VBool True, c, st)
       else if tag = TAG_U128 then
         rbind (codec_take 16 c) (\<lambda>(bs, c). Ok (VU128 (read_word bs), c, st))
       else if tag = TAG_I128 then
         rbind (codec_take 16 c) (\<lambda>(bs, c). Ok (VI128 (bits_to_signed (read_word bs)), c, st))
       else if tag = TAG_BYTES then
         rbind (take_blob (max_payload_bytes (ds_limits st)) c) (\<lambda>(bs, c).
         rbind (ds_payload (length bs) st) (\<lambda>st.
         rbind (map_err map_value_decode_error (value_bytes_with_limits bs (ds_limits st))) (\<lambda>v.
           Ok (v, c, st))))
       else if tag = TAG_TEXT then
         rbind (take_blob (max_payload_bytes (ds_limits st)) c) (\<lambda>(bs, c).
         rbind (ds_payload (length bs) st) (\<lambda>st.
           if \<not> is_ascii bs then Err DE_NonAsciiText
           else if \<not> utf8_valid bs then Err DE_Utf8
           else rbind (map_err map_value_decode_error (value_text_ascii_with_limits bs (ds_limits st)))
             (\<lambda>v. Ok (v, c, st))))
       else if tag = TAG_ENUM then
         rbind (take_u32 c) (\<lambda>(type_id, c).
         rbind (take_u16 c) (\<lambda>(variant, c). Ok (VEnum type_id variant, c, st)))
       else if tag = TAG_TUPLE \<or> tag = TAG_VECTOR then
         rbind (take_u32 c) (\<lambda>(n, c).
         rbind (ds_collection st (unat n)) (\<lambda>_.
         rbind (decode_next_depth d) (\<lambda>d'.
         rbind (ds_reservation st (unat n) (cursor_remaining c) 1) (\<lambda>_.
         rbind (decode_items c st d' (unat n)) (\<lambda>(items, c, st).
         rbind (map_err map_value_decode_error
             (if tag = TAG_TUPLE then value_tuple items else value_vector items)) (\<lambda>v.
           Ok (v, c, st)))))))
       else if tag = TAG_RECORD then
         rbind (take_u32 c) (\<lambda>(n, c).
         rbind (ds_collection st (unat n)) (\<lambda>_.
         rbind (decode_next_depth d) (\<lambda>d'.
         rbind (ds_reservation st (unat n) (cursor_remaining c) 3) (\<lambda>_.
         rbind (decode_fields c st d' (unat n) None) (\<lambda>(flds, c, st).
         rbind (map_err map_value_decode_error (record_canonical flds)) (\<lambda>v.
           Ok (v, c, st)))))))
       else if tag = TAG_SUM then
         rbind (take_u32 c) (\<lambda>(type_id, c).
         rbind (take_u16 c) (\<lambda>(variant, c).
         rbind (take_u8 c) (\<lambda>(flag, c).
           if flag = 0 then Ok (VSum type_id variant None, c, st)
           else if flag = 1 then
             rbind (decode_next_depth d) (\<lambda>d'.
             rbind (decode_value_inner c st d') (\<lambda>(child, c, st).
               Ok (VSum type_id variant (Some child), c, st)))
           else Err DE_InvalidSumFlag)))
       else if tag = TAG_MAP then
         rbind (take_u32 c) (\<lambda>(n, c).
         rbind (ds_collection st (unat n)) (\<lambda>_.
         rbind (decode_next_depth d) (\<lambda>d'.
         rbind (ds_reservation st (unat n) (cursor_remaining c) 10) (\<lambda>_.
         rbind (decode_entries c st d' (unat n) None) (\<lambda>(entries, c, st).
         rbind (map_err map_value_decode_error (map_canonical entries)) (\<lambda>v.
           Ok (v, c, st)))))))
       else Err (DE_UnknownTag tag)))"
| "decode_complete_value bs st d =
     rbind (decode_value_inner (cursor_new bs) st d) (\<lambda>(v, c, st).
       if cursor_remaining c \<noteq> 0 then Err (DE_TrailingBytes (cur_offset c))
       else rbind (map_err map_decode_encode_error
           (canonical_value_bytes_with_limits v (ds_limits st))) (\<lambda>canonical.
         if canonical \<noteq> bs then Err DE_NonCanonical else Ok (v, st)))"
| "decode_items c st d 0 = Ok ([], c, st)"
| "decode_items c st d (Suc n) =
     rbind (decode_value_inner c st d) (\<lambda>(child, c, st).
     rbind (decode_items c st d n) (\<lambda>(items, c, st). Ok (child # items, c, st)))"
| "decode_fields c st d 0 previous = Ok ([], c, st)"
| "decode_fields c st d (Suc n) previous =
     rbind (take_u16 c) (\<lambda>(i, c).
       if (case previous of Some p \<Rightarrow> p \<ge> i | None \<Rightarrow> False) then Err DE_NonCanonicalRecord
       else rbind (decode_value_inner c st d) (\<lambda>(child, c, st).
         rbind (decode_fields c st d n (Some i)) (\<lambda>(flds, c, st).
           Ok (field_new i child # flds, c, st))))"
| "decode_entries c st d 0 previous = Ok ([], c, st)"
| "decode_entries c st d (Suc n) previous =
     rbind (take_blob (max_payload_bytes (ds_limits st)) c) (\<lambda>(ek, c).
     rbind (ds_payload (length ek) st) (\<lambda>st.
       if (case previous of Some p \<Rightarrow> \<not> bytes_before p ek | None \<Rightarrow> False)
       then Err DE_NonCanonicalMap
       else
       rbind (take_blob (max_payload_bytes (ds_limits st)) c) (\<lambda>(ev, c).
       rbind (ds_payload (length ev) st) (\<lambda>st.
       rbind (decode_complete_value ek st d) (\<lambda>(k, st).
       rbind (decode_complete_value ev st d) (\<lambda>(v, st).
       rbind (map_err map_value_decode_error (map_entry_try_new_with_limits k v (ds_limits st)))
         (\<lambda>entry.
       if encoded_key entry \<noteq> ek then Err DE_NonCanonical
       else rbind (decode_entries c st d n (Some ek)) (\<lambda>(entries, c, st).
         Ok (entry # entries, c, st)))))))))"
  by pat_completeness auto

lemma ds_enter_depth: "ds_enter d st = Inr st' \<Longrightarrow> d \<le> 1024"
  using effective_max_depth_le [of "ds_limits st"] by (auto simp: ds_enter_def split: if_splits)

lemma decode_next_depth_Ok: "decode_next_depth d = Inr d' \<longleftrightarrow> d + 1 \<le> u32_max \<and> d' = d + 1"
  by (auto simp: decode_next_depth_def)

text \<open>Every nested call is one level deeper, or on the same level and shorter.\<close>

termination decode_value_inner
  by (relation "measures [\<lambda>x. case x of
        Inl (Inl (c, st, d)) \<Rightarrow> 1025 - d
      | Inl (Inr (bs, st, d)) \<Rightarrow> 1025 - d
      | Inr (Inl (c, st, d, n)) \<Rightarrow> 1025 - d
      | Inr (Inr (Inl (c, st, d, n, p))) \<Rightarrow> 1025 - d
      | Inr (Inr (Inr (c, st, d, n, p))) \<Rightarrow> 1025 - d,
      \<lambda>x. case x of
        Inl (Inl (c, st, d)) \<Rightarrow> 0
      | Inl (Inr (bs, st, d)) \<Rightarrow> 1
      | Inr (Inl (c, st, d, n)) \<Rightarrow> 2 + n
      | Inr (Inr (Inl (c, st, d, n, p))) \<Rightarrow> 2 + n
      | Inr (Inr (Inr (c, st, d, n, p))) \<Rightarrow> 2 + n]")
    (auto dest!: ds_enter_depth simp: decode_next_depth_Ok)

definition enforce_input_limit :: "bytes \<Rightarrow> DecodeLimits \<Rightarrow> DecodeError + unit" where
  "enforce_input_limit bs limits =
     rbind (ok_or (try_from u64_max (length bs)) DE_LengthOverflow) (\<lambda>actual.
       if actual > max_input_bytes limits then Err (DE_InputLimit (max_input_bytes limits) actual)
       else Ok ())"

definition decode_value_with_metrics ::
    "bytes \<Rightarrow> DecodeLimits \<Rightarrow> DecodeError + Value \<times> ValueMetrics" where
  "decode_value_with_metrics bs limits =
     rbind (enforce_input_limit bs limits) (\<lambda>_.
     rbind (decode_complete_value bs (decode_state_new (dl_value limits)) 0) (\<lambda>(v, st).
       Ok (v, \<lparr>m_nodes = ds_nodes st, m_payload_bytes = ds_payload_bytes st,
               m_depth = ds_depth st\<rparr>)))"

definition decode_value :: "bytes \<Rightarrow> DecodeLimits \<Rightarrow> DecodeError + Value" where
  "decode_value bs limits = rbind (decode_value_with_metrics bs limits) (\<lambda>(v, _). Ok v)"

definition decode_envelope :: "bytes \<Rightarrow> DecodeLimits \<Rightarrow> DecodeError + Envelope" where
  "decode_envelope bs limits =
     rbind (enforce_input_limit bs limits) (\<lambda>_.
     rbind (codec_take (length ENVELOPE_MAGIC) (cursor_new bs)) (\<lambda>(magic, c).
       if magic \<noteq> ENVELOPE_MAGIC then Err DE_EnvelopeMagic
       else
       rbind (take_u32 c) (\<lambda>(type_id, c).
       rbind (codec_take 32 c) (\<lambda>(schema_bytes, c).
       rbind (take_blob (max_input_bytes limits) c) (\<lambda>(payload, c).
         if cursor_remaining c \<noteq> 0 then Err (DE_TrailingBytes (cur_offset c))
         else rbind (decode_value payload limits) (\<lambda>v.
           Ok \<lparr>env_type_id = type_id, env_schema_hash = be_word schema_bytes,
               env_value = v\<rparr>))))))"

end
