(* ===== verification/Zeno_Codec_Laws.thy ===== *)
theory Zeno_Codec_Laws
  imports Zeno_Codec
begin

text \<open>
  What the codec promises.  The decoder inverts the encoder with the exact metrics of the
  admission walk (\<open>decode_enc\<close>, by induction on the value), it returns only representation-valid
  values (\<open>decodes_valid\<close>, by induction on the depth left), and it re-encodes what it decoded.
  Together they give \<open>decode_value_with_metrics_iff\<close>, the exact set of accepted inputs.  The
  locale \<open>canonical_codec\<close> states the contract that every decoder of the workspace keeps.
\<close>

section \<open>Reading\<close>

interpretation codec: byte_cursor codec_take
  unfolding codec_take_def by (rule cursor_take_byte_cursor)

lemma read_word_be_word: "read_word bs = be_word bs"
  by (simp add: read_word_def be_word_def)

lemma ucast_be_word:
  assumes "LENGTH('b) \<le> LENGTH('a)"
  shows "ucast (be_word bs :: 'a::len word) = (be_word bs :: 'b::len word)"
proof (induction bs rule: rev_induct)
  case (snoc b bs)
  have "ucast (push_bit 8 (be_word bs :: 'a word) OR ucast b) =
      push_bit 8 (ucast (be_word bs :: 'a word) :: 'b word) OR ucast b"
    using assms by (intro bit_eqI) (auto simp: bit_simps dest: bit_imp_le_length)
  with snoc show ?case by simp
qed simp

lemma take_u16_word: "take_u16 = cursor_word codec_take 2"
  by (simp add: take_u16_def cursor_word_def fun_eq_iff read_word_be_word ucast_be_word)

lemma take_u32_word: "take_u32 = cursor_word codec_take 4"
  by (simp add: take_u32_def cursor_word_def fun_eq_iff read_word_be_word ucast_be_word)

lemma bits_to_signed_id [simp]: "bits_to_signed w = w"
  by (simp add: bits_to_signed_def)

lemma take_u8_Cons:
  assumes "cursor_wf c" "rest c = b # ys"
  shows "take_u8 c = Inr (b, advance 1 c) \<and> cursor_wf (advance 1 c) \<and> rest (advance 1 c) = ys"
  using codec.take_append [of c "[b]" ys] assms by (simp add: take_u8_def)

lemma take_u16_append:
  assumes "cursor_wf c" "rest c = be_bytes 2 i @ ys"
  shows "take_u16 c = Inr (i, advance 2 c) \<and> cursor_wf (advance 2 c) \<and> rest (advance 2 c) = ys"
  using codec.word_append [of c 2 i ys] assms by (simp add: take_u16_word)

lemma take_u32_append:
  assumes "cursor_wf c" "rest c = be_bytes 4 i @ ys"
  shows "take_u32 c = Inr (i, advance 4 c) \<and> cursor_wf (advance 4 c) \<and> rest (advance 4 c) = ys"
  using codec.word_append [of c 4 i ys] assms by (simp add: take_u32_word)

lemma take_blob_append:
  assumes "cursor_wf c" "rest c = blob_bytes bs @ ys" "length bs \<le> u32_max" "length bs \<le> maximum"
  shows "take_blob maximum c = Inr (bs, advance (4 + length bs) c)
    \<and> cursor_wf (advance (4 + length bs) c) \<and> rest (advance (4 + length bs) c) = ys"
proof -
  have "unat (of_nat (length bs) :: u32) = length bs" using assms(3) by (simp add: unat_of_nat)
  moreover from this have "try_from usize_max (unat (of_nat (length bs) :: u32)) = Some (length bs)"
    using assms(3) by simp
  moreover have "take_u32 c = Inr (of_nat (length bs), advance 4 c)" "cursor_wf (advance 4 c)"
      "rest (advance 4 c) = bs @ ys"
    using take_u32_append [OF assms(1), of "of_nat (length bs)" "bs @ ys"] assms(2)
    by (simp_all add: blob_bytes_def)
  ultimately show ?thesis using codec.take_append [of "advance 4 c" bs ys] assms
    by (simp add: take_blob_def)
qed

section \<open>Metering in the decoder\<close>

definition ds_metered :: "DecodeState \<Rightarrow> nat \<Rightarrow> nat \<Rightarrow> nat \<Rightarrow> DecodeState" where
  "ds_metered st n p h = st\<lparr>ds_nodes := ds_nodes st + n, ds_payload_bytes := ds_payload_bytes st + p,
     ds_depth := max (ds_depth st) h\<rparr>"

definition ds_fits :: "DecodeState \<Rightarrow> nat \<Rightarrow> nat \<Rightarrow> nat \<Rightarrow> bool" where
  "ds_fits st n p h \<longleftrightarrow> limits_in_range (ds_limits st) \<and> ds_nodes st + n \<le> max_nodes (ds_limits st)
     \<and> ds_payload_bytes st + p \<le> max_payload_bytes (ds_limits st)
     \<and> h \<le> effective_max_depth (ds_limits st)"

lemma ds_limits_metered [simp]: "ds_limits (ds_metered st n p h) = ds_limits st"
  by (simp add: ds_metered_def)

lemma ds_metered_metered [simp]:
  "ds_metered (ds_metered st a b c) a' b' c' = ds_metered st (a + a') (b + b') (max c c')"
  by (simp add: ds_metered_def max.assoc)

lemma ds_fits_mono: "ds_fits st n p h \<Longrightarrow> n' \<le> n \<Longrightarrow> p' \<le> p \<Longrightarrow> h' \<le> h \<Longrightarrow> ds_fits st n' p' h'"
  by (auto simp: ds_fits_def)

lemma ds_fits_metered:
  "ds_fits st (a + n) (b + p) (max c h) \<Longrightarrow> ds_fits (ds_metered st a b c) n p h"
  by (auto simp: ds_fits_def ds_metered_def)

lemma ds_depth_metered: "h \<le> ds_depth (ds_metered st n p h)" "d \<le> ds_depth st \<Longrightarrow> d \<le> ds_depth (ds_metered st n p h)"
  by (simp_all add: ds_metered_def)

lemma ds_enter_fits: "ds_fits st (Suc 0) 0 d \<Longrightarrow> ds_enter d st = Inr (ds_metered st (Suc 0) 0 d)"
  by (auto simp: ds_fits_def limits_in_range_def ds_enter_def ds_metered_def)

lemma ds_payload_fits:
  "ds_fits st 0 n h \<Longrightarrow> d \<le> ds_depth st \<Longrightarrow> ds_payload n st = Inr (ds_metered st 0 n d)"
  by (auto simp: ds_fits_def limits_in_range_def ds_payload_def ds_metered_def max_def)

lemma ds_reservation_Ok: "n \<le> usize_max \<Longrightarrow> k \<noteq> 0 \<Longrightarrow> \<exists>r. ds_reservation st n m k = Inr r"
  by (simp add: ds_reservation_def initial_collection_capacity_def)

lemma ds_fits_canonical:
  assumes "ds_fits st (vnodes v) (vpayload v) (d + vheight v)" "admissible (max_collection_len (ds_limits st)) v"
    "encodable v" "length (enc v) \<le> u32_max"
  shows "zcve_bytes_with_limits v (ds_limits st) = Inr (enc v)"
proof -
  have "\<exists>m. validate_limits v (ds_limits st) = Inr m"
    using assms by (subst validate_limits_Ok) (auto simp: ds_fits_def)
  then show ?thesis using assms
    by (auto simp: zcve_bytes_with_limits_def encode_zcve_to_with_limits_def append_encoded_eq)
qed


section \<open>Decoding an encoding\<close>

declare decode_value_inner.simps [simp del] decode_complete_value.simps [simp del]

lemma value_bytes_with_limits_fits:
  "ds_fits st (Suc 0) (length bs) d \<Longrightarrow> length bs \<le> u32_max \<Longrightarrow>
    value_bytes_with_limits bs (ds_limits st) = Inr (VBytes bs)"
  by (auto simp: value_bytes_with_limits_def check_wire_length_eq validate_limits_Ok ds_fits_def)

lemma value_text_with_limits_fits:
  "ds_fits st (Suc 0) (length bs) d \<Longrightarrow> length bs \<le> u32_max \<Longrightarrow> is_ascii bs \<Longrightarrow>
    value_text_ascii_with_limits bs (ds_limits st) = Inr (VText bs)"
  by (auto simp: value_text_ascii_with_limits_def check_wire_length_eq validate_limits_Ok ds_fits_def)

text \<open>The common opening of every collection: tag, count, limit, depth and reservation.\<close>

lemma decode_collection:
  assumes f: "ds_fits st (Suc n) p (d + h)" and c: "cursor_wf c"
    and r: "rest c = tag # be_bytes 4 (of_nat len :: u32) @ ys"
    and n: "len \<le> u32_max" "len \<le> max_collection_len (ds_limits st)"
  defines "st1 \<equiv> ds_metered st (Suc 0) 0 d"
  shows "tag = TAG_TUPLE \<Longrightarrow> decode_value_inner c st d =
      rbind (decode_items (advance 5 c) st1 (Suc d) len) (\<lambda>(items, c, st).
      rbind (map_err map_value_decode_error (value_tuple items)) (\<lambda>v. Ok (v, c, st)))"
    and "tag = TAG_VECTOR \<Longrightarrow> decode_value_inner c st d =
      rbind (decode_items (advance 5 c) st1 (Suc d) len) (\<lambda>(items, c, st).
      rbind (map_err map_value_decode_error (value_vector items)) (\<lambda>v. Ok (v, c, st)))"
    and "tag = TAG_RECORD \<Longrightarrow> decode_value_inner c st d =
      rbind (decode_fields (advance 5 c) st1 (Suc d) len None) (\<lambda>(flds, c, st).
      rbind (map_err map_value_decode_error (record_canonical flds)) (\<lambda>v. Ok (v, c, st)))"
    and "tag = TAG_MAP \<Longrightarrow> decode_value_inner c st d =
      rbind (decode_entries (advance 5 c) st1 (Suc d) len None) (\<lambda>(entries, c, st).
      rbind (map_err map_value_decode_error (map_canonical entries)) (\<lambda>v. Ok (v, c, st)))"
    and "cursor_wf (advance 5 c)" and "rest (advance 5 c) = ys"
    and "ds_fits st1 n p (d + h)" and "d \<le> ds_depth st1"
proof -
  have tag: "take_u8 c = Inr (tag, advance 1 c)" "cursor_wf (advance 1 c)"
      "rest (advance 1 c) = be_bytes 4 (of_nat len :: u32) @ ys"
    using take_u8_Cons [OF c r] by auto
  have len: "take_u32 (advance 1 c) = Inr (of_nat len, advance 5 c)" "cursor_wf (advance 5 c)"
      "rest (advance 5 c) = ys"
    using take_u32_append [OF tag(2,3)] by simp_all
  have "decode_next_depth d = Inr (Suc d)"
    using f effective_max_depth_le [of "ds_limits st"] by (auto simp: ds_fits_def decode_next_depth_Ok)
  moreover have "ds_enter d st = Inr st1"
    unfolding st1_def by (rule ds_enter_fits, rule ds_fits_mono [OF f]) simp_all
  moreover have "ds_collection st1 len = Inr ()" using n(2) by (simp add: ds_collection_def st1_def)
  moreover have "rbind (ds_reservation st1 len m k) (\<lambda>_. x) = x" if "k \<noteq> 0" for m k and x :: "DecodeError + Value \<times> cursor \<times> DecodeState"
    using ds_reservation_Ok [of len k st1 m] n(1) that by auto
  moreover have "unat (of_nat len :: u32) = len" using n(1) by (simp add: unat_of_nat)
  ultimately have opens: "decode_next_depth d = Inr (Suc d)" "ds_enter d st = Inr st1" "ds_collection st1 len = Inr ()"
    "unat (of_nat len :: u32) = len" "\<And>m k (x :: DecodeError + Value \<times> cursor \<times> DecodeState). k \<noteq> 0 \<Longrightarrow> rbind (ds_reservation st1 len m k) (\<lambda>_. x) = x"
    by blast+
  show "tag = TAG_TUPLE \<Longrightarrow> decode_value_inner c st d =
      rbind (decode_items (advance 5 c) st1 (Suc d) len) (\<lambda>(items, c, st).
      rbind (map_err map_value_decode_error (value_tuple items)) (\<lambda>v. Ok (v, c, st)))"
    "tag = TAG_VECTOR \<Longrightarrow> decode_value_inner c st d =
      rbind (decode_items (advance 5 c) st1 (Suc d) len) (\<lambda>(items, c, st).
      rbind (map_err map_value_decode_error (value_vector items)) (\<lambda>v. Ok (v, c, st)))"
    "tag = TAG_RECORD \<Longrightarrow> decode_value_inner c st d =
      rbind (decode_fields (advance 5 c) st1 (Suc d) len None) (\<lambda>(flds, c, st).
      rbind (map_err map_value_decode_error (record_canonical flds)) (\<lambda>v. Ok (v, c, st)))"
    "tag = TAG_MAP \<Longrightarrow> decode_value_inner c st d =
      rbind (decode_entries (advance 5 c) st1 (Suc d) len None) (\<lambda>(entries, c, st).
      rbind (map_err map_value_decode_error (map_canonical entries)) (\<lambda>v. Ok (v, c, st)))"
    by (subst decode_value_inner.simps, simp add: opens tag len(1) [unfolded One_nat_def])+
  show "cursor_wf (advance 5 c)" "rest (advance 5 c) = ys" by (fact len)+
  show "ds_fits st1 n p (d + h)" unfolding st1_def
    by (rule ds_fits_metered) (use f in \<open>simp add: max_def\<close>)
  show "d \<le> ds_depth st1" by (simp add: st1_def ds_metered_def)
qed

lemma ds_fits_skip: "ds_fits st n p h \<Longrightarrow> d \<le> ds_depth st \<Longrightarrow> st = ds_metered st 0 0 d"
  by (simp add: ds_metered_def max_def)

lemma decode_complete_value_enc:
  assumes "decode_value_inner (cursor_new (enc v)) st d =
      Inr (v, advance (length (enc v)) (cursor_new (enc v)), st')"
    and "zcve_bytes_with_limits v (ds_limits st') = Inr (enc v)"
  shows "decode_complete_value (enc v) st d = Inr (v, st')"
  using assms by (simp add: decode_complete_value.simps cursor_remaining_rest canonical_value_bytes_with_limits_def)

lemma leaf_header:
  assumes "ds_fits st (Suc 0) p d" and "cursor_wf c" and "rest c = tag # ys"
  shows "ds_enter d st = Inr (ds_metered st (Suc 0) 0 d)" and "take_u8 c = Inr (tag, advance 1 c)"
    and "cursor_wf (advance 1 c)" and "rest (advance 1 c) = ys"
  using take_u8_Cons [OF assms(2,3)] ds_enter_fits [OF ds_fits_mono [OF assms(1)]] by auto

lemma decode_bytes_leaf:
  assumes "ds_fits st (Suc 0) (length bs) d" "cursor_wf c" "rest c = TAG_BYTES # blob_bytes bs @ ys"
    "length bs \<le> u32_max"
  shows "decode_value_inner c st d =
    Inr (VBytes bs, advance (5 + length bs) c, ds_metered st (Suc 0) (length bs) d)"
proof -
  note h = leaf_header [OF assms(1-3)]
  have max: "length bs \<le> max_payload_bytes (ds_limits st)" using assms(1) by (simp add: ds_fits_def)
  have p: "ds_payload (length bs) (ds_metered st (Suc 0) 0 d) = Inr (ds_metered st (Suc 0) (length bs) d)"
    using ds_payload_fits [of "ds_metered st (Suc 0) 0 d" "length bs" d d]
      ds_fits_metered [of st "Suc 0" 0 0 "length bs" d d] assms(1) by (simp add: ds_depth_metered)
  show ?thesis using take_blob_append [OF h(3,4) assms(4) max] p h(1,2)
      value_bytes_with_limits_fits [OF assms(1,4)]
    by (subst decode_value_inner.simps) simp
qed

lemma decode_text_leaf:
  assumes "ds_fits st (Suc 0) (length bs) d" "cursor_wf c" "rest c = TAG_TEXT # blob_bytes bs @ ys"
    "length bs \<le> u32_max" "is_ascii bs"
  shows "decode_value_inner c st d =
    Inr (VText bs, advance (5 + length bs) c, ds_metered st (Suc 0) (length bs) d)"
proof -
  note h = leaf_header [OF assms(1-3)]
  have max: "length bs \<le> max_payload_bytes (ds_limits st)" using assms(1) by (simp add: ds_fits_def)
  have p: "ds_payload (length bs) (ds_metered st (Suc 0) 0 d) = Inr (ds_metered st (Suc 0) (length bs) d)"
    using ds_payload_fits [of "ds_metered st (Suc 0) 0 d" "length bs" d d]
      ds_fits_metered [of st "Suc 0" 0 0 "length bs" d d] assms(1) by (simp add: ds_depth_metered)
  show ?thesis using take_blob_append [OF h(3,4) assms(4) max] p h(1,2)
      value_text_with_limits_fits [OF assms(1,4,5)] assms(5) is_ascii_utf8_valid [OF assms(5)]
    by (subst decode_value_inner.simps) simp
qed

lemma decode_word_leaf:
  assumes "ds_fits st (Suc 0) 0 d" "cursor_wf c"
  shows "rest c = TAG_U128 # be_bytes 16 i @ ys \<Longrightarrow>
      decode_value_inner c st d = Inr (VU128 i, advance 17 c, ds_metered st (Suc 0) 0 d)"
    and "rest c = TAG_I128 # be_bytes 16 i @ ys \<Longrightarrow>
      decode_value_inner c st d = Inr (VI128 i, advance 17 c, ds_metered st (Suc 0) 0 d)"
proof -
  have take: "codec_take 16 c' = Inr (be_bytes 16 i, advance 16 c')"
    if "cursor_wf c'" "rest c' = be_bytes 16 i @ ys" for c'
    using codec.take_append [OF that] by simp
  show "decode_value_inner c st d = Inr (VU128 i, advance 17 c, ds_metered st (Suc 0) 0 d)"
    if r: "rest c = TAG_U128 # be_bytes 16 i @ ys"
    using leaf_header [OF assms r] take [of "advance 1 c"]
    by (subst decode_value_inner.simps) (simp add: read_word_be_word)
  show "decode_value_inner c st d = Inr (VI128 i, advance 17 c, ds_metered st (Suc 0) 0 d)"
    if r: "rest c = TAG_I128 # be_bytes 16 i @ ys"
    using leaf_header [OF assms r] take [of "advance 1 c"]
    by (subst decode_value_inner.simps) (simp add: read_word_be_word)
qed

lemma ids_append:
  assumes "cursor_wf c" "rest c = be_bytes 4 t @ be_bytes 2 n @ ys"
  shows "take_u32 c = Inr (t, advance 4 c)" "take_u16 (advance 4 c) = Inr (n, advance 6 c)"
    "cursor_wf (advance 6 c)" "rest (advance 6 c) = ys"
  using take_u32_append [OF assms] take_u16_append [of "advance 4 c" n ys] by simp_all


lemma decode_payload_blob:
  assumes "ds_fits st n (length bs + p) h" "d \<le> ds_depth st" "cursor_wf c" "rest c = blob_bytes bs @ ys"
    "length bs \<le> u32_max"
  shows "take_blob (max_payload_bytes (ds_limits st)) c = Inr (bs, advance (4 + length bs) c)"
    "cursor_wf (advance (4 + length bs) c)" "rest (advance (4 + length bs) c) = ys"
    "ds_payload (length bs) st = Inr (ds_metered st 0 (length bs) d)"
    "ds_fits (ds_metered st 0 (length bs) d) n p h"
    "d \<le> ds_depth (ds_metered st 0 (length bs) d)"
proof -
  have "length bs \<le> max_payload_bytes (ds_limits st)" using assms(1) by (simp add: ds_fits_def)
  from take_blob_append [OF assms(3,4,5) this]
  show "take_blob (max_payload_bytes (ds_limits st)) c = Inr (bs, advance (4 + length bs) c)"
    "cursor_wf (advance (4 + length bs) c)" "rest (advance (4 + length bs) c) = ys" by auto
  show "ds_payload (length bs) st = Inr (ds_metered st 0 (length bs) d)"
    using ds_payload_fits [OF ds_fits_mono [OF assms(1), of 0 "length bs" h] assms(2)] by simp
  show "ds_fits (ds_metered st 0 (length bs) d) n p h"
    using assms(1) by (simp add: ds_fits_def ds_metered_def)
qed (simp add: ds_metered_def)

lemma record_canonical_Ok:
  "length fs \<le> u32_max \<Longrightarrow> sorted_wrt (<) (map field_id fs) \<Longrightarrow> record_canonical fs = Inr (VRecord fs)"
  using ensure_strict_fields_Ok [of fs "()"] by (simp add: record_canonical_def check_wire_length_eq)

lemma map_canonical_Ok:
  assumes "length es \<le> u32_max" "sorted_wrt (<) (map encoded_key es)" "repr_valid_entries es"
  shows "map_canonical es = Inr (VMap es)"
proof -
  have "check_entry_lengths es = Inr ()"
    using assms(3) repr_valid_encodable by (auto simp: check_entry_lengths_Ok repr_valid_entries_all entry_valid_def)
  with assms ensure_strict_map_keys_Ok [of es "()"] show ?thesis
    by (simp add: map_canonical_def check_wire_length_eq)
qed

lemma max_Suc_assoc: "max (Suc (max a b)) c = max (Suc a) (max (Suc b) c)"
  by (simp flip: max.assoc)

lemma ds_fits_split:
  assumes "ds_fits st (n1 + n2) (p1 + p2) (d + max (Suc h1) h2)" "d \<le> ds_depth st"
  shows "ds_fits st n1 p1 (Suc d + h1)"
    and "ds_fits (ds_metered st n1 p1 (Suc d + h1)) n2 p2 (d + h2)"
    and "ds_metered (ds_metered st n1 p1 (Suc d + h1)) n2 p2 (d + h2) =
      ds_metered st (n1 + n2) (p1 + p2) (d + max (Suc h1) h2)"
    and "d \<le> ds_depth (ds_metered st n1 p1 (Suc d + h1))"
  using assms by (auto simp: ds_fits_def ds_metered_def max_def split: if_splits)

text \<open>The decoder state after one map entry.\<close>

definition ds_entry :: "DecodeState \<Rightarrow> nat \<Rightarrow> Value \<Rightarrow> Value \<Rightarrow> DecodeState" where
  "ds_entry st d k v = ds_metered st (vnodes k + vnodes v)
     (length (enc k) + length (enc v) + vpayload k + vpayload v)
     (max d (max (Suc d + vheight k) (Suc d + vheight v)))"

lemma decode_entry_step:
  assumes k: "repr_valid k" "length (enc k) \<le> u32_max" and v: "repr_valid v" "length (enc v) \<le> u32_max"
    and adm: "admissible (max_collection_len (ds_limits st)) k" "admissible (max_collection_len (ds_limits st)) v"
    and prev: "\<forall>p\<in>set_option bprev. p < enc k"
    and c: "cursor_wf c" "rest c = blob_bytes (enc k) @ blob_bytes (enc v) @ ys"
    and fit: "ds_fits st (vnodes k + (vnodes v + n)) (length (enc k) + (length (enc v) + (vpayload k + (vpayload v + p))))
      (d + max (Suc (vheight k)) (max (Suc (vheight v)) h))" "d \<le> ds_depth st"
    and inner: "\<And>x st. x \<in> {k, v} \<Longrightarrow> admissible (max_collection_len (ds_limits st)) x \<Longrightarrow>
      ds_fits st (vnodes x) (vpayload x) (Suc d + vheight x) \<Longrightarrow>
      decode_value_inner (cursor_new (enc x)) st (Suc d) = Inr (x, advance (length (enc x)) (cursor_new (enc x)),
        ds_metered st (vnodes x) (vpayload x) (Suc d + vheight x))"
  shows "decode_entries c st (Suc d) (Suc m) bprev =
      rbind (decode_entries (advance (8 + length (enc k) + length (enc v)) c) (ds_entry st d k v)
          (Suc d) m (Some (enc k)))
        (\<lambda>(es, c, st). Ok (MkMapEntry (enc k) k v # es, c, st))"
    and "ds_fits (ds_entry st d k v) n p (d + h)" and "d \<le> ds_depth (ds_entry st d k v)"
    and "cursor_wf (advance (8 + length (enc k) + length (enc v)) c)"
    and "rest (advance (8 + length (enc k) + length (enc v)) c) = ys"
proof -
  note b1 = decode_payload_blob [OF fit c k(2)]
  note b2 = decode_payload_blob [OF b1(5,6,2,3) v(2)]
  define s2 where "s2 = ds_metered st 0 (length (enc k) + length (enc v)) d"
  have lim2: "ds_limits s2 = ds_limits st" by (simp add: s2_def)
  have f2: "ds_fits s2 (vnodes k + (vnodes v + n)) (vpayload k + (vpayload v + p))
      (d + max (Suc (vheight k)) (max (Suc (vheight v)) h))" and d2: "d \<le> ds_depth s2"
    using b2(5,6) by (simp_all add: s2_def)
  note f3 = ds_fits_split [OF f2 d2]
  define s3 where "s3 = ds_metered s2 (vnodes k) (vpayload k) (Suc d + vheight k)"
  note f4 = ds_fits_split [OF f3(2,4), folded s3_def]
  define s4 where "s4 = ds_metered s3 (vnodes v) (vpayload v) (Suc d + vheight v)"
  have lim: "ds_limits s3 = ds_limits st" "ds_limits s4 = ds_limits st"
    by (simp_all add: s3_def s4_def lim2)
  have zk: "zcve_bytes_with_limits k (ds_limits st) = Inr (enc k)"
    using ds_fits_canonical [OF f3(1)] adm k repr_valid_encodable(1) by (simp add: lim2)
  have zv: "zcve_bytes_with_limits v (ds_limits st) = Inr (enc v)"
    using ds_fits_canonical [OF f4(1)] adm v repr_valid_encodable(1) by (simp add: lim)
  have ck: "decode_complete_value (enc k) s2 (Suc d) = Inr (k, s3)"
    using decode_complete_value_enc [OF inner [OF _ _ f3(1)]] adm zk by (simp add: lim2 s3_def)
  have cv: "decode_complete_value (enc v) s3 (Suc d) = Inr (v, s4)"
    using decode_complete_value_enc [OF inner [OF _ _ f4(1)]] adm zv by (simp add: lim s4_def)
  have entry: "map_entry_try_new_with_limits k v (ds_limits st) = Inr (MkMapEntry (enc k) k v)"
    using zk k(2) by (simp add: map_entry_try_new_with_limits_def check_wire_length_eq)
  have pv: "\<not> (case bprev of Some p \<Rightarrow> \<not> bytes_before p (enc k) | None \<Rightarrow> False)"
    using prev by (auto simp: bytes_before_less split: option.splits)
  have adv: "advance (4 + length (enc k) + (4 + length (enc v))) c = advance (8 + length (enc k) + length (enc v)) c"
    by (simp add: algebra_simps)
  have s4: "ds_entry st d k v = s4"
    by (simp add: ds_entry_def s4_def s3_def s2_def algebra_simps max.assoc)
  have p2: "ds_payload (length (enc v)) (ds_metered st 0 (length (enc k)) d) = Inr s2"
    using b2(4) by (simp add: s2_def)
  show "decode_entries c st (Suc d) (Suc m) bprev =
      rbind (decode_entries (advance (8 + length (enc k) + length (enc v)) c) (ds_entry st d k v)
          (Suc d) m (Some (enc k)))
        (\<lambda>(es, c, st). Ok (MkMapEntry (enc k) k v # es, c, st))"
    using b1(1,4) b2(1) p2 ck cv entry pv adv unfolding s4 by (simp add: lim)
  show "ds_fits (ds_entry st d k v) n p (d + h)" "d \<le> ds_depth (ds_entry st d k v)"
    "cursor_wf (advance (8 + length (enc k) + length (enc v)) c)"
    "rest (advance (8 + length (enc k) + length (enc v)) c) = ys"
    using f4(2,4) b2(2,3) adv by (simp_all add: s4 s4_def add.assoc)
qed

lemma decode_enc:
  "\<lbrakk>repr_valid v; admissible (max_collection_len (ds_limits st)) v; cursor_wf c; rest c = enc v @ ys;
     ds_fits st (vnodes v) (vpayload v) (d + vheight v)\<rbrakk> \<Longrightarrow>
   decode_value_inner c st d = Inr (v, advance (length (enc v)) c,
     ds_metered st (vnodes v) (vpayload v) (d + vheight v))"
  "\<lbrakk>repr_valid_items vs; admissible_items (max_collection_len (ds_limits st)) vs; cursor_wf c;
     rest c = enc_items vs @ ys; ds_fits st (vnodes_items vs) (vpayload_items vs) (d + vheight_items vs);
     d \<le> ds_depth st\<rbrakk> \<Longrightarrow>
   decode_items c st (Suc d) (length vs) = Inr (vs, advance (length (enc_items vs)) c,
     ds_metered st (vnodes_items vs) (vpayload_items vs) (d + vheight_items vs))"
  "\<lbrakk>repr_valid_fields fs; admissible_fields (max_collection_len (ds_limits st)) fs; cursor_wf c;
     rest c = enc_fields fs @ ys; ds_fits st (vnodes_fields fs) (vpayload_fields fs) (d + vheight_fields fs);
     d \<le> ds_depth st; sorted_wrt (<) (map field_id fs);
     \<forall>p\<in>set_option prev. \<forall>f\<in>set fs. p < field_id f\<rbrakk> \<Longrightarrow>
   decode_fields c st (Suc d) (length fs) prev = Inr (fs, advance (length (enc_fields fs)) c,
     ds_metered st (vnodes_fields fs) (vpayload_fields fs) (d + vheight_fields fs))"
  "\<lbrakk>repr_valid_entries es; admissible_entries (max_collection_len (ds_limits st)) es; cursor_wf c;
     rest c = enc_entries es @ ys; ds_fits st (vnodes_entries es) (vpayload_entries es) (d + vheight_entries es);
     d \<le> ds_depth st; sorted_wrt (<) (map encoded_key es);
     \<forall>p\<in>set_option bprev. \<forall>e\<in>set es. p < encoded_key e\<rbrakk> \<Longrightarrow>
   decode_entries c st (Suc d) (length es) bprev = Inr (es, advance (length (enc_entries es)) c,
     ds_metered st (vnodes_entries es) (vpayload_entries es) (d + vheight_entries es))"
proof (induction v and vs and fs and es arbitrary: c st d ys and c st d ys and c st d ys prev
    and c st d ys bprev rule: value_tree_induct)
  case (Tuple xs)
  then have r: "rest c = TAG_TUPLE # be_bytes 4 (of_nat (length xs) :: u32) @ enc_items xs @ ys"
    and f: "ds_fits st (Suc (vnodes_items xs)) (vpayload_items xs) (d + vheight_items xs)"
    and n: "length xs \<le> u32_max" "length xs \<le> max_collection_len (ds_limits st)"
    by simp_all
  note h = decode_collection [OF f Tuple.prems(3) r n]
  from Tuple.IH [OF _ _ h(5-8)] Tuple.prems show ?case by (simp add: h(1) value_tuple_def check_wire_length_eq)
next
  case (Vector xs)
  then have r: "rest c = TAG_VECTOR # be_bytes 4 (of_nat (length xs) :: u32) @ enc_items xs @ ys"
    and f: "ds_fits st (Suc (vnodes_items xs)) (vpayload_items xs) (d + vheight_items xs)"
    and n: "length xs \<le> u32_max" "length xs \<le> max_collection_len (ds_limits st)"
    by simp_all
  note h = decode_collection [OF f Vector.prems(3) r n]
  from Vector.IH [OF _ _ h(5-8)] Vector.prems show ?case by (simp add: h(2) value_vector_def check_wire_length_eq)
next
  case (Record fs)
  then have r: "rest c = TAG_RECORD # be_bytes 4 (of_nat (length fs) :: u32) @ enc_fields fs @ ys"
    and f: "ds_fits st (Suc (vnodes_fields fs)) (vpayload_fields fs) (d + vheight_fields fs)"
    and n: "length fs \<le> u32_max" "length fs \<le> max_collection_len (ds_limits st)"
    by simp_all
  note h = decode_collection [OF f Record.prems(3) r n]
  from Record.IH [OF _ _ h(5-8), of None] Record.prems show ?case by (simp add: h(3) record_canonical_Ok)
next
  case (Sum_Some t n v)
  then have f: "ds_fits st (Suc (vnodes v)) (vpayload v) (d + Suc (vheight v))"
    and r: "rest c = TAG_SUM # be_bytes 4 t @ be_bytes 2 n @ 1 # enc v @ ys" by simp_all
  have f0: "ds_fits st (Suc 0) 0 d" by (rule ds_fits_mono [OF f]) simp_all
  note h = leaf_header [OF f0 Sum_Some.prems(3) r]
  note i = ids_append [OF h(3,4)]
  have j: "take_u8 (advance 7 c) = Inr (1, advance 8 c)" "cursor_wf (advance 8 c)" "rest (advance 8 c) = enc v @ ys"
    using take_u8_Cons [OF i(3,4)] by simp_all
  have "ds_fits (ds_metered st (Suc 0) 0 d) (vnodes v) (vpayload v) (Suc d + vheight v)"
    by (rule ds_fits_metered) (use f in \<open>simp add: max_def\<close>)
  moreover have "decode_next_depth d = Inr (Suc d)"
    using f effective_max_depth_le [of "ds_limits st"] by (auto simp: ds_fits_def decode_next_depth_Ok)
  ultimately show ?case using Sum_Some.IH [OF _ _ j(2,3), of "ds_metered st (Suc 0) 0 d" "Suc d"] Sum_Some.prems h(1,2) i(1,2) j(1)
    by (subst decode_value_inner.simps) simp
next
  case (Map es)
  then have r: "rest c = TAG_MAP # be_bytes 4 (of_nat (length es) :: u32) @ enc_entries es @ ys"
    and f: "ds_fits st (Suc (vnodes_entries es)) (vpayload_entries es) (d + vheight_entries es)"
    and n: "length es \<le> u32_max" "length es \<le> max_collection_len (ds_limits st)"
    by simp_all
  note h = decode_collection [OF f Map.prems(3) r n]
  from Map.IH [OF _ _ h(5-8), of None] Map.prems show ?case by (simp add: h(4) map_canonical_Ok)
next
  case Unit
  then show ?case using leaf_header [of st 0 d c] by (subst decode_value_inner.simps) simp
next
  case (Bool b)
  then show ?case using leaf_header [of st 0 d c] by (cases b) (subst decode_value_inner.simps, simp)+
next
  case (U128 i)
  then show ?case using decode_word_leaf(1) [of st d c i ys] by simp
next
  case (I128 i)
  then show ?case using decode_word_leaf(2) [of st d c i ys] by simp
next
  case (Bytes bs)
  then show ?case using decode_bytes_leaf [of st bs d c ys] by simp
next
  case (Text bs)
  then show ?case using decode_text_leaf [of st bs d c ys] by simp
next
  case (Enum t n)
  then have r: "rest c = TAG_ENUM # be_bytes 4 t @ be_bytes 2 n @ ys" and f: "ds_fits st (Suc 0) 0 d" by simp_all
  note h = leaf_header [OF f Enum(3) r]
  show ?case using ids_append [OF h(3,4)] h by (subst decode_value_inner.simps) simp
next
  case (Sum_None t n)
  then have r: "rest c = TAG_SUM # be_bytes 4 t @ be_bytes 2 n @ 0 # ys" and f: "ds_fits st (Suc 0) 0 d" by simp_all
  note h = leaf_header [OF f Sum_None(3) r]
  note i = ids_append [OF h(3,4)]
  show ?case using i h take_u8_Cons [OF i(3,4)] by (subst decode_value_inner.simps) simp
next
  case Items_Nil
  then show ?case using ds_fits_skip [of st] by simp
next
  case (Items_Cons v vs)
  note f = ds_fits_split [OF Items_Cons.prems(5) [simplified] Items_Cons.prems(6)]
  have r: "rest c = enc v @ enc_items vs @ ys" using Items_Cons by simp
  show ?case using Items_Cons.IH(1) [OF _ _ Items_Cons.prems(3) r f(1)] 
      Items_Cons.IH(2) [OF _ _ _ _ f(2,4), of "advance (length (enc v)) c" ys] Items_Cons.prems r f(3) by simp
next
  case Fields_Nil
  then show ?case using ds_fits_skip [of st] by simp
next
  case (Fields_Cons i v fs)
  note f = ds_fits_split [OF Fields_Cons.prems(5) [simplified] Fields_Cons.prems(6)]
  have r: "rest c = be_bytes 2 i @ enc v @ enc_fields fs @ ys" using Fields_Cons by simp
  note u = take_u16_append [OF Fields_Cons.prems(3) r]
  have "\<not> (case prev of Some p \<Rightarrow> p \<ge> i | None \<Rightarrow> False)"
    using Fields_Cons.prems(8) by (auto split: option.splits)
  then show ?case using Fields_Cons.IH(1) [OF _ _ _ _ f(1), of "advance 2 c" "enc_fields fs @ ys"] u
      Fields_Cons.IH(2) [OF _ _ _ _ f(2,4), of "advance (2 + length (enc v)) c" ys "Some i"] Fields_Cons.prems f(3)
    by (simp add: field_new_def)
next
  case Entries_Nil
  then show ?case using ds_fits_skip [of st] by simp
next
  case (Entries_Cons ek k v es)
  then have k: "repr_valid k" "length (enc k) \<le> u32_max" and v: "repr_valid v" "length (enc v) \<le> u32_max"
    and ek: "ek = enc k" and es: "repr_valid_entries es"
    and adm: "admissible (max_collection_len (ds_limits st)) k" "admissible (max_collection_len (ds_limits st)) v"
      "admissible_entries (max_collection_len (ds_limits st)) es"
    and prev: "\<forall>p\<in>set_option bprev. p < enc k"
    and r: "rest c = blob_bytes (enc k) @ blob_bytes (enc v) @ enc_entries es @ ys"
    and fit: "ds_fits st (vnodes k + (vnodes v + vnodes_entries es))
      (length (enc k) + (length (enc v) + (vpayload k + (vpayload v + vpayload_entries es))))
      (d + max (Suc (vheight k)) (max (Suc (vheight v)) (vheight_entries es)))"
    by (auto simp: max_Suc_assoc add.assoc)
  have inner: "decode_value_inner (cursor_new (enc x)) st (Suc d) = Inr (x, advance (length (enc x)) (cursor_new (enc x)),
        ds_metered st (vnodes x) (vpayload x) (Suc d + vheight x))"
    if "x \<in> {k, v}" "admissible (max_collection_len (ds_limits st)) x"
      "ds_fits st (vnodes x) (vpayload x) (Suc d + vheight x)" for x st
    using that Entries_Cons.IH(1) [OF k(1), of st "cursor_new (enc k)" "[]" "Suc d"]
      Entries_Cons.IH(2) [OF v(1), of st "cursor_new (enc v)" "[]" "Suc d"] k(2) v(2) by auto
  note step = decode_entry_step [OF k v adm(1,2) prev Entries_Cons.prems(3) r fit Entries_Cons.prems(6) inner]
  have lim: "ds_limits (ds_entry st d k v) = ds_limits st" by (simp add: ds_entry_def)
  have "decode_entries (advance (8 + length (enc k) + length (enc v)) c) (ds_entry st d k v) (Suc d)
      (length es) (Some (enc k)) = Inr (es, advance (length (enc_entries es)) (advance (8 + length (enc k) + length (enc v)) c),
        ds_metered (ds_entry st d k v) (vnodes_entries es) (vpayload_entries es) (d + vheight_entries es))"
    using Entries_Cons.prems(7) ek by (intro Entries_Cons.IH(3) [OF es _ step(4,5,2,3)]) (simp_all add: lim adm)
  moreover have "ds_metered (ds_entry st d k v) (vnodes_entries es) (vpayload_entries es)
      (d + vheight_entries es) = ds_metered st (vnodes_entries (MkMapEntry ek k v # es))
      (vpayload_entries (MkMapEntry ek k v # es)) (d + vheight_entries (MkMapEntry ek k v # es))"
    by (simp add: ds_entry_def ek add.assoc) (auto simp: max_def)
  ultimately show ?case using step(1) [of "length es"]
    by (simp del: decode_entries.simps vnodes_entries.simps vpayload_entries.simps vheight_entries.simps
        add: ek add.assoc)
qed

section \<open>Decoded values are representation-valid\<close>

lemma ds_enter_limits: "ds_enter d st = Inr st' \<Longrightarrow> ds_limits st' = ds_limits st"
  by (auto simp: ds_enter_def split: if_splits)

lemma ds_payload_limits: "ds_payload n st = Inr st' \<Longrightarrow> ds_limits st' = ds_limits st"
  by (auto simp: ds_payload_def split: if_splits)

text \<open>At depth \<open>d\<close> the decoder returns only representation-valid values and keeps its limits.\<close>

definition decodes_valid :: "nat \<Rightarrow> bool" where
  "decodes_valid d \<longleftrightarrow> (\<forall>c st v c' st'. decode_value_inner c st d = Inr (v, c', st') \<longrightarrow>
     repr_valid v \<and> ds_limits st' = ds_limits st)"

lemma decodes_validD:
  "decodes_valid d \<Longrightarrow> decode_value_inner c st d = Inr (v, c', st') \<Longrightarrow>
    repr_valid v \<and> ds_limits st' = ds_limits st"
  unfolding decodes_valid_def by blast

lemma decode_complete_inner: "decode_complete_value bs st d = Inr (v, st') \<Longrightarrow>
    \<exists>c'. decode_value_inner (cursor_new bs) st d = Inr (v, c', st')
      \<and> zcve_bytes_with_limits v (ds_limits st') = Inr bs"
  by (auto simp: decode_complete_value.simps canonical_value_bytes_with_limits_def split: if_splits)

lemma decode_complete_valid:
  "decodes_valid d \<Longrightarrow> decode_complete_value bs st d = Inr (v, st') \<Longrightarrow>
    repr_valid v \<and> ds_limits st' = ds_limits st"
  by (auto dest!: decode_complete_inner dest: decodes_validD)

lemma decode_items_valid:
  "decodes_valid d \<Longrightarrow> decode_items c st d n = Inr (vs, c', st') \<Longrightarrow>
    repr_valid_items vs \<and> ds_limits st' = ds_limits st"
  by (induction n arbitrary: c st vs) (auto, (metis decodes_validD)+)

lemma decode_fields_valid:
  "decodes_valid d \<Longrightarrow> decode_fields c st d n prev = Inr (fs, c', st') \<Longrightarrow>
    repr_valid_fields fs \<and> ds_limits st' = ds_limits st"
proof (induction n arbitrary: c st prev fs)
  case (Suc n)
  from Suc.prems(2) obtain i c1 v c2 st1 fs' where "decode_value_inner c1 st d = Inr (v, c2, st1)"
      "decode_fields c2 st1 d n (Some i) = Inr (fs', c', st')" "fs = MkField i v # fs'"
    by (auto simp: field_new_def split: if_splits)
  with decodes_validD [OF Suc.prems(1), of c1 st v c2 st1] Suc.IH [OF Suc.prems(1), of c2 st1 "Some i" fs']
  show ?case by simp
qed simp

text \<open>One iteration of the entry loop.\<close>

lemma decode_entries_Suc:
  assumes "decode_entries c st d (Suc n) prev = Inr (es, c', st')"
  obtains bs1 bs2 st1 st2 st3 k v c1 ek e es' where
    "decode_complete_value bs1 st1 d = Inr (k, st2)" "decode_complete_value bs2 st2 d = Inr (v, st3)"
    "map_entry_try_new_with_limits k v (ds_limits st3) = Inr e"
    "decode_entries c1 st3 d n (Some ek) = Inr (es', c', st')" "es = e # es'"
    "ds_limits st1 = ds_limits st"
  using assms by (auto dest!: ds_payload_limits split: if_splits)

lemma decode_entries_valid:
  "decodes_valid d \<Longrightarrow> decode_entries c st d n prev = Inr (es, c', st') \<Longrightarrow>
    (\<forall>e\<in>set es. entry_valid e) \<and> ds_limits st' = ds_limits st"
proof (induction n arbitrary: c st prev es)
  case (Suc n)
  from Suc.prems(2) obtain bs1 bs2 st1 st2 st3 k v c1 ek e es' where
      e: "decode_complete_value bs1 st1 d = Inr (k, st2)" "decode_complete_value bs2 st2 d = Inr (v, st3)"
        "map_entry_try_new_with_limits k v (ds_limits st3) = Inr e"
      and es: "decode_entries c1 st3 d n (Some ek) = Inr (es', c', st')" "es = e # es'"
        "ds_limits st1 = ds_limits st"
    by (rule decode_entries_Suc)
  have "repr_valid k \<and> repr_valid v \<and> ds_limits st3 = ds_limits st"
    using decode_complete_valid [OF Suc.prems(1) e(1)] decode_complete_valid [OF Suc.prems(1) e(2)] es(3)
    by simp
  with map_entry_valid [OF e(3)] Suc.IH [OF Suc.prems(1) es(1)] es(2) show ?case by simp
qed simp

lemma constructor_valid:
  "value_bytes_with_limits bs L = Inr v \<Longrightarrow> repr_valid v"
  "value_text_ascii_with_limits bs L = Inr v \<Longrightarrow> repr_valid v"
  "value_tuple vs = Inr v \<Longrightarrow> repr_valid_items vs \<Longrightarrow> repr_valid v"
  "value_vector vs = Inr v \<Longrightarrow> repr_valid_items vs \<Longrightarrow> repr_valid v"
  "record_canonical fs = Inr v \<Longrightarrow> repr_valid_fields fs \<Longrightarrow> repr_valid v"
  by (auto simp: value_bytes_with_limits_def value_text_ascii_with_limits_def value_tuple_def
      value_vector_def check_wire_length_eq repr_valid_fields_all
      dest: record_canonical_valid split: if_splits)

lemma decodes_valid_step:
  assumes d: "decodes_valid (Suc d)"
  shows "decodes_valid d"
  unfolding decodes_valid_def
proof (intro allI impI)
  fix c st v c' st'
  assume run: "decode_value_inner c st d = Inr (v, c', st')"
  then obtain st1 tag c1 where st1: "ds_enter d st = Inr st1" "take_u8 c = Inr (tag, c1)"
    by (subst (asm) decode_value_inner.simps) auto
  with run have "repr_valid v \<and> ds_limits st' = ds_limits st1"
    by (subst (asm) decode_value_inner.simps, simp only: rbind_simps prod.case split: if_splits)
      (auto simp: decode_next_depth_Ok dest: constructor_valid map_canonical_valid ds_payload_limits
        dest!: decodes_validD [OF d] decode_items_valid [OF d] decode_fields_valid [OF d]
        decode_entries_valid [OF d] split: if_splits)
  with ds_enter_limits [OF st1(1)] show "repr_valid v \<and> ds_limits st' = ds_limits st" by simp
qed

lemma decodes_valid: "decodes_valid d"
proof (induction "1025 - d" arbitrary: d)
  case 0
  have False if "decode_value_inner c st d = Inr r" for c st r
    using that 0 by (subst (asm) decode_value_inner.simps) (auto dest: ds_enter_depth)
  then show ?case unfolding decodes_valid_def by blast
next
  case (Suc n)
  then show ?case using decodes_valid_step by simp
qed

section \<open>What the decoder accepts\<close>

definition decode_limits_in_range :: "DecodeLimits \<Rightarrow> bool" where
  "decode_limits_in_range L \<longleftrightarrow> limits_in_range (dl_value L) \<and> max_input_bytes L \<le> u64_max"

lemma default_limits_in_range: "decode_limits_in_range default_decode_limits"
  by (simp add: decode_limits_in_range_def limits_in_range_def default_decode_limits_def
      default_value_limits_def DEFAULT_MAX_INPUT_BYTES_def DEFAULT_MAX_PAYLOAD_BYTES_def try_from_def)

lemma zcve_bytes_with_limits_eq:
  "zcve_bytes_with_limits v L = Inr bs \<longleftrightarrow>
     bs = enc v \<and> encodable v \<and> length (enc v) \<le> usize_max \<and> (\<exists>m. validate_limits v L = Inr m)"
  by (auto simp: zcve_bytes_with_limits_def encode_zcve_to_with_limits_def append_encoded_eq
      split: if_splits)

lemma enforce_input_limit_Ok:
  "max_input_bytes L \<le> u64_max \<Longrightarrow>
    enforce_input_limit bs L = Inr u \<longleftrightarrow> length bs \<le> max_input_bytes L"
  by (auto simp: enforce_input_limit_def)

lemma decode_complete_value_intro:
  assumes L: "limits_in_range L" and v: "repr_valid v" and len: "length (enc v) \<le> usize_max"
    and m: "validate_limits v L = Inr m"
  shows "decode_complete_value (enc v) (decode_state_new L) 0 =
    Inr (v, \<lparr>ds_limits = L, ds_nodes = m_nodes m, ds_payload_bytes = m_payload_bytes m,
      ds_depth = m_depth m\<rparr>)"
proof -
  note ok = iffD1 [OF validate_limits_Ok [OF L] m]
  have "decode_value_inner (cursor_new (enc v)) (decode_state_new L) 0 =
      Inr (v, advance (length (enc v)) (cursor_new (enc v)),
        ds_metered (decode_state_new L) (vnodes v) (vpayload v) (0 + vheight v))"
    using ok L len by (intro decode_enc(1) [where ys = "[]"] v)
      (simp_all add: decode_state_new_def ds_fits_def)
  moreover have "zcve_bytes_with_limits v L = Inr (enc v)"
    using m len repr_valid_encodable(1) [OF v] by (auto simp: zcve_bytes_with_limits_eq)
  ultimately show ?thesis
    using ok decode_complete_value_enc [of v "decode_state_new L" 0]
    by (simp add: decode_state_new_def ds_metered_def)
qed

lemma decode_value_with_metrics_iff:
  assumes L: "decode_limits_in_range L"
  shows "decode_value_with_metrics bs L = Inr (v, m) \<longleftrightarrow>
    repr_valid v \<and> bs = enc v \<and> length bs \<le> max_input_bytes L \<and>
    validate_limits v (dl_value L) = Inr m" (is "?run m \<longleftrightarrow> ?spec m")
proof -
  have intro: "?run m" if "?spec m" for m
  proof -
    from that have v: "repr_valid v" and bs: "bs = enc v" and len: "length (enc v) \<le> max_input_bytes L"
      and m: "validate_limits v (dl_value L) = Inr m" by auto
    from len L have "length (enc v) \<le> usize_max" by (simp add: decode_limits_in_range_def)
    with v m L have "decode_complete_value (enc v) (decode_state_new (dl_value L)) 0 =
        Inr (v, \<lparr>ds_limits = dl_value L, ds_nodes = m_nodes m, ds_payload_bytes = m_payload_bytes m,
          ds_depth = m_depth m\<rparr>)"
      by (intro decode_complete_value_intro) (simp_all add: decode_limits_in_range_def)
    then show ?thesis using L len
      by (simp add: bs decode_limits_in_range_def decode_value_with_metrics_def enforce_input_limit_Ok)
  qed
  have "\<exists>m'. ?spec m'" if "?run m"
  proof -
    from that L obtain st where len: "length bs \<le> max_input_bytes L"
      and run: "decode_complete_value bs (decode_state_new (dl_value L)) 0 = Inr (v, st)"
      by (auto simp: decode_limits_in_range_def decode_value_with_metrics_def enforce_input_limit_Ok)
    have "repr_valid v" "ds_limits st = dl_value L"
      using decode_complete_valid [OF decodes_valid run] by (simp_all add: decode_state_new_def)
    with len decode_complete_inner [OF run] show ?thesis by (auto simp: zcve_bytes_with_limits_eq)
  qed
  with intro show ?thesis by fastforce
qed

lemma decode_value_iff:
  assumes L: "decode_limits_in_range L"
  shows "decode_value bs L = Inr v \<longleftrightarrow> repr_valid v \<and> length bs \<le> max_input_bytes L
    \<and> canonical_value_bytes_with_limits v (dl_value L) = Inr bs"
proof -
  have "decode_value bs L = Inr v \<longleftrightarrow> (\<exists>m. decode_value_with_metrics bs L = Inr (v, m))"
    by (auto simp: decode_value_def)
  also have "\<dots> \<longleftrightarrow> repr_valid v \<and> length bs \<le> max_input_bytes L \<and> bs = enc v \<and>
      (\<exists>m. validate_limits v (dl_value L) = Inr m)"
    by (auto simp: decode_value_with_metrics_iff [OF L])
  finally show ?thesis
    using L repr_valid_encodable(1) [of v]
    by (auto simp: canonical_value_bytes_with_limits_def zcve_bytes_with_limits_eq decode_limits_in_range_def)
qed

section \<open>The codec contract\<close>

text \<open>A canonical decoder accepts only the one encoding of what it returns; a canonical codec
  also accepts everything it encodes.  \<open>valid\<close> is what the decoder guarantees of its result.\<close>

locale canonical_decoder =
  fixes encode :: "'a \<Rightarrow> 'e + bytes"
    and decode :: "bytes \<Rightarrow> 'f + 'a"
    and valid :: "'a \<Rightarrow> bool"
  assumes decode_canonical: "decode bs = Inr x \<Longrightarrow> valid x \<and> encode x = Inr bs"
begin

text \<open>No two byte strings decode to the same value: the format is not malleable.\<close>

lemma decode_inject: "decode bs = Inr x \<Longrightarrow> decode bs' = Inr x \<Longrightarrow> bs = bs'"
  by (auto dest!: decode_canonical)

end

locale canonical_codec = canonical_decoder +
  assumes decode_encode: "valid x \<Longrightarrow> encode x = Inr bs \<Longrightarrow> decode bs = Inr x"
begin

lemma decode_iff: "decode bs = Inr x \<longleftrightarrow> valid x \<and> encode x = Inr bs"
  using decode_encode decode_canonical by blast

lemma encode_inject:
  "valid x \<Longrightarrow> valid y \<Longrightarrow> encode x = Inr bs \<Longrightarrow> encode y = Inr bs \<Longrightarrow> x = y"
  by (metis decode_encode sum.inject(2))

end

definition value_valid :: "DecodeLimits \<Rightarrow> Value \<Rightarrow> bool" where
  "value_valid L v \<longleftrightarrow> repr_valid v \<and> length (enc v) \<le> max_input_bytes L"

lemma value_codec:
  assumes "decode_limits_in_range L"
  shows "canonical_codec (\<lambda>v. canonical_value_bytes_with_limits v (dl_value L))
    (\<lambda>bs. decode_value bs L) (value_valid L)"
  by unfold_locales
    (auto simp: decode_value_iff [OF assms] value_valid_def canonical_value_bytes_with_limits_def
      zcve_bytes_with_limits_eq)

interpretation default_value: canonical_codec
  "\<lambda>v. canonical_value_bytes_with_limits v (dl_value default_decode_limits)"
  "\<lambda>bs. decode_value bs default_decode_limits" "value_valid default_decode_limits"
  by (rule value_codec [OF default_limits_in_range])


text \<open>What a decoder with limits \<open>L\<close> admits as one value.\<close>

definition value_admitted :: "DecodeLimits \<Rightarrow> Value \<Rightarrow> bool" where
  "value_admitted L v \<longleftrightarrow> value_valid L v \<and> is_ok (validate_limits v (dl_value L))"

lemma decode_value_admitted:
  assumes "decode_limits_in_range L"
  shows "decode_value bs L = Inr v \<longleftrightarrow> bs = enc v \<and> value_admitted L v"
  using assms by (auto simp: decode_value_def decode_value_with_metrics_iff [OF assms] value_admitted_def
      value_valid_def is_ok_iff)

lemma value_canonical_bytes_Ok:
  assumes "repr_valid v"
  shows "canonical_bytes value_encode_to v = Inr bs \<longleftrightarrow>
    is_ok (validate_limits v default_value_limits) \<and> length (enc v) \<le> usize_max \<and> bs = enc v"
  using repr_valid_encodable(1) [OF assms]
  by (auto simp: canonical_bytes_def value_encode_to_def encode_zcve_to_def encode_zcve_to_with_limits_def
      append_encoded_eq is_ok_iff)

definition default_admitted :: "Value \<Rightarrow> bool" where
  "default_admitted v \<longleftrightarrow> is_ok (validate_limits v default_value_limits)"

text \<open>Encodings are injective on the values that the encoder accepts.\<close>

lemma enc_inject:
  assumes "repr_valid v" "repr_valid w" "default_admitted v" "length (enc v) \<le> u32_max" "enc v = enc w"
    "default_admitted w"
  shows "v = w"
proof -
  let ?L = "\<lparr>max_input_bytes = u64_max, dl_value = default_value_limits\<rparr>"
  have L: "decode_limits_in_range ?L"
    using default_value_limits_in_range by (simp add: decode_limits_in_range_def)
  from assms have "value_admitted ?L v" "value_admitted ?L w"
    by (simp_all add: value_admitted_def value_valid_def default_admitted_def)
  with decode_value_admitted [OF L, of "enc v"] assms(5) show ?thesis by (metis sum.inject(2))
qed

section \<open>Envelopes\<close>

lemma length_ENVELOPE_MAGIC [simp]: "length ENVELOPE_MAGIC = 8"
  by (simp add: ENVELOPE_MAGIC_def ascii_bytes_def)

definition envelope_enc :: "Envelope \<Rightarrow> bytes" where
  "envelope_enc e = ENVELOPE_MAGIC @ be_bytes 4 (env_type_id e) @ be_bytes 32 (env_schema_hash e)
     @ blob_bytes (enc (env_value e))"

lemma append_envelope_Ok:
  "append_envelope out t h payload n = Inr bs \<longleftrightarrow>
     length payload \<le> u32_max \<and> 48 + length payload \<le> n \<and> length out + 48 + length payload \<le> usize_max \<and>
     bs = out @ ENVELOPE_MAGIC @ be_bytes 4 t @ be_bytes 32 h @ blob_bytes payload"
  by (auto simp: append_envelope_def ENVELOPE_OVERHEAD_BYTES_def blob_bytes_def)


lemma take_u32_reads: "cursor_wf c \<Longrightarrow> take_u32 c = Inr (w, c') \<longleftrightarrow> reads c (be_bytes 4 w) c'"
  by (simp add: take_u32_word codec.word_reads)

lemma take_blob_reads:
  assumes "cursor_wf c"
  shows "take_blob n c = Inr (bs, c') \<longleftrightarrow> reads c (blob_bytes bs) c' \<and> length bs \<le> u32_max \<and> length bs \<le> n"
proof
  assume "take_blob n c = Inr (bs, c')"
  then obtain w c1 where w: "take_u32 c = Inr (w, c1)" "unat w \<le> n" "codec_take (unat w) c1 = Inr (bs, c')"
    by (auto simp: take_blob_def split: if_splits)
  moreover from w(1) assms have c1: "cursor_wf c1" by (auto simp: take_u32_reads dest: readsD(3))
  ultimately have "length bs = unat w" by (simp add: codec.take_reads)
  moreover have "cursor_blob codec_take c = Inr (bs, c')"
    using w by (simp add: cursor_blob_def take_u32_word)
  ultimately show "reads c (blob_bytes bs) c' \<and> length bs \<le> u32_max \<and> length bs \<le> n"
    using w(2) assms by (simp add: codec.blob_reads)
next
  assume "reads c (blob_bytes bs) c' \<and> length bs \<le> u32_max \<and> length bs \<le> n"
  with take_blob_append [OF assms reads_rest [of c "blob_bytes bs" c']]
  show "take_blob n c = Inr (bs, c')" by (auto dest: readsD(2))
qed

lemma be_word_hash_inject: "length bs = 32 \<Longrightarrow> be_bytes 32 (be_word bs :: hash32) = bs"
  using be_bytes_be_word [of bs, where 'a = 256] by simp

lemma decode_envelope_iff:
  assumes L: "decode_limits_in_range L"
  shows "decode_envelope bs L = Inr e \<longleftrightarrow> repr_valid (env_value e)
    \<and> envelope_canonical_bytes_with_limits e L = Inr bs"
proof
  assume "decode_envelope bs L = Inr e"
  then have len: "length bs \<le> max_input_bytes L"
    using L by (auto simp: decode_envelope_def enforce_input_limit_Ok decode_limits_in_range_def)
  then have wf: "cursor_wf (cursor_new bs)" using L by (simp add: decode_limits_in_range_def)
  from \<open>decode_envelope bs L = Inr e\<close> obtain c1 t c2 h c3 payload c4 v where
    t: "codec_take 8 (cursor_new bs) = Inr (ENVELOPE_MAGIC, c1)" "take_u32 c1 = Inr (t, c2)"
      "codec_take 32 c2 = Inr (h, c3)" "take_blob (max_input_bytes L) c3 = Inr (payload, c4)"
      "cursor_remaining c4 = 0" "decode_value payload L = Inr v"
    and e: "e = \<lparr>env_type_id = t, env_schema_hash = be_word h, env_value = v\<rparr>"
    by (auto simp: decode_envelope_def split: if_splits)
  from t(1) wf have r1: "reads (cursor_new bs) ENVELOPE_MAGIC c1" by (simp add: codec.take_reads)
  from t(2) readsD(3) [OF r1] have r2: "reads c1 (be_bytes 4 t) c2" by (simp add: take_u32_reads)
  from t(3) readsD(3) [OF r2] have r3: "reads c2 h c3" "length h = 32" by (simp_all add: codec.take_reads)
  from t(4) readsD(3) [OF r3(1)] have r4: "reads c3 (blob_bytes payload) c4" "length payload \<le> u32_max"
    by (simp_all add: take_blob_reads)
  from reads_trans [OF r1 reads_trans [OF r2 reads_trans [OF r3(1) r4(1)]]] t(5)
  have "bs = ENVELOPE_MAGIC @ be_bytes 4 t @ h @ blob_bytes payload" by (simp add: reads_all)
  with t(6) e r3(2) r4(2) len L show "repr_valid (env_value e) \<and> envelope_canonical_bytes_with_limits e L = Inr bs"
    by (auto simp: decode_value_iff envelope_canonical_bytes_with_limits_def envelope_encode_to_with_limits_def
        append_envelope_Ok be_word_hash_inject decode_limits_in_range_def)
next
  assume valid: "repr_valid (env_value e) \<and> envelope_canonical_bytes_with_limits e L = Inr bs"
  then obtain payload where p: "canonical_value_bytes_with_limits (env_value e) (dl_value L) = Inr payload"
      "length payload \<le> u32_max" "48 + length payload \<le> max_input_bytes L"
    and bs: "bs = ENVELOPE_MAGIC @ be_bytes 4 (env_type_id e) @ be_bytes 32 (env_schema_hash e) @ blob_bytes payload"
    by (auto simp: envelope_canonical_bytes_with_limits_def envelope_encode_to_with_limits_def append_envelope_Ok)
  then have len: "length bs \<le> max_input_bytes L" by simp
  then have wf: "cursor_wf (cursor_new bs)" using L by (simp add: decode_limits_in_range_def)
  have "decode_value payload L = Inr (env_value e)" using p valid L by (simp add: decode_value_iff)
  moreover define c where "c n = advance n (cursor_new bs)" for n
  have r: "reads (cursor_new bs) ENVELOPE_MAGIC (c 8)" "reads (c 8) (be_bytes 4 (env_type_id e)) (c 12)"
      "reads (c 12) (be_bytes 32 (env_schema_hash e)) (c 44)" "reads (c 44) (blob_bytes payload) (c (48 + length payload))"
    using wf by (simp_all add: reads_def c_def bs)
  then have "codec_take 8 (cursor_new bs) = Inr (ENVELOPE_MAGIC, c 8)"
      "take_u32 (c 8) = Inr (env_type_id e, c 12)"
      "codec_take 32 (c 12) = Inr (be_bytes 32 (env_schema_hash e), c 44)"
      "take_blob (max_input_bytes L) (c 44) = Inr (payload, c (48 + length payload))"
    using wf p(2,3) readsD(3) [OF r(1)] readsD(3) [OF r(2)] readsD(3) [OF r(3)]
    by (simp_all add: codec.take_reads take_u32_reads take_blob_reads)
  moreover have "cursor_remaining (c (48 + length payload)) = 0" by (simp add: c_def cursor_remaining_rest bs)
  ultimately show "decode_envelope bs L = Inr e"
    using len L by (simp add: decode_envelope_def enforce_input_limit_Ok decode_limits_in_range_def)
qed

lemma envelope_codec:
  assumes "decode_limits_in_range L"
  shows "canonical_codec (\<lambda>e. envelope_canonical_bytes_with_limits e L) (\<lambda>bs. decode_envelope bs L)
    (\<lambda>e. repr_valid (env_value e))"
  by unfold_locales (simp_all add: decode_envelope_iff [OF assms])

interpretation default_envelope: canonical_codec
  "\<lambda>e. envelope_canonical_bytes_with_limits e default_decode_limits"
  "\<lambda>bs. decode_envelope bs default_decode_limits" "\<lambda>e. repr_valid (env_value e)"
  by (rule envelope_codec [OF default_limits_in_range])

section \<open>Admitted envelopes\<close>

text \<open>What every constructor of \<^verbatim>\<open>AdmittedEnvelope\<close> establishes.\<close>

definition admitted_valid :: "AdmittedValue \<Rightarrow> bool" where
  "admitted_valid a \<longleftrightarrow> validate_limits (admitted_value a) (admitted_limits a) = Inr (admitted_metrics a)"

definition admitted_envelope_valid :: "AdmittedEnvelope \<Rightarrow> bool" where
  "admitted_envelope_valid a \<longleftrightarrow> admitted_valid (ae_value a)
     \<and> encoded_length (admitted_value (ae_value a)) = Inr (ae_payload_length a)
     \<and> ae_payload_length a \<le> u32_max
     \<and> ENVELOPE_OVERHEAD_BYTES + ae_payload_length a \<le> ae_max_input_bytes a"

lemma admit_with_limits_valid:
  "admit_with_limits v L = Inr a \<longleftrightarrow> admitted_value a = v \<and> admitted_limits a = L \<and> admitted_valid a"
  by (cases a) (auto simp: admit_with_limits_def admitted_valid_def)

lemma admitted_envelope_try_new_valid:
  assumes "admitted_envelope_try_new_with_limits t h a L = Inr e" and "admitted_valid a"
  shows "admitted_envelope_valid e \<and> admitted_envelope_limits e = L
    \<and> into_envelope e = \<lparr>env_type_id = t, env_schema_hash = h, env_value = admitted_value a\<rparr>"
  using assms
  by (auto simp: admitted_envelope_try_new_with_limits_def admitted_envelope_valid_def
      admitted_envelope_limits_def into_envelope_def admit_with_limits_valid split: if_splits)

text \<open>Encoding an admitted envelope never fails and agrees with the plain envelope.\<close>

lemma admitted_envelope_encode:
  assumes "admitted_envelope_valid e" and "ae_max_input_bytes e \<le> u64_max"
  shows "canonical_bytes admitted_envelope_encode_to e =
      envelope_canonical_bytes_with_limits (into_envelope e) (admitted_envelope_limits e)"
    and "\<exists>bs. canonical_bytes admitted_envelope_encode_to e = Inr bs
      \<and> length bs = admitted_envelope_encoded_length e"
proof -
  let ?v = "admitted_value (ae_value e)"
  from assms(1) have v: "encodable ?v" "length (enc ?v) \<le> usize_max"
      "ae_payload_length e = length (enc ?v)" "length (enc ?v) \<le> u32_max"
      "48 + length (enc ?v) \<le> ae_max_input_bytes e"
      "validate_limits ?v (admitted_limits (ae_value e)) = Inr (admitted_metrics (ae_value e))"
    by (auto simp: admitted_envelope_valid_def admitted_valid_def encoded_length_eq
        ENVELOPE_OVERHEAD_BYTES_def split: if_splits)
  have enc: "canonical_bytes admitted_encode_to (ae_value e) = Inr (enc ?v)"
    using v by (simp add: canonical_bytes_def admitted_encode_to_def admitted_encode_zcve_to_def append_encoded_eq)
  have enc': "canonical_value_bytes_with_limits ?v (admitted_limits (ae_value e)) = Inr (enc ?v)"
    using v by (auto simp: canonical_value_bytes_with_limits_def zcve_bytes_with_limits_eq)
  show "canonical_bytes admitted_envelope_encode_to e =
      envelope_canonical_bytes_with_limits (into_envelope e) (admitted_envelope_limits e)"
    using enc enc' by (simp add: canonical_bytes_def admitted_envelope_encode_to_def
        envelope_canonical_bytes_with_limits_def envelope_encode_to_with_limits_def into_envelope_def
        admitted_envelope_limits_def)
  show "\<exists>bs. canonical_bytes admitted_envelope_encode_to e = Inr bs
      \<and> length bs = admitted_envelope_encoded_length e"
    using enc v assms(2) by (auto simp: canonical_bytes_def admitted_envelope_encode_to_def
        append_envelope_Ok admitted_envelope_encoded_length_def ENVELOPE_OVERHEAD_BYTES_def)
qed

section \<open>Reservations\<close>

text \<open>The capacity reserved before a collection is read is bounded by the bytes present, the
  nodes left and the count, whatever count the input claims.\<close>

lemma reservation_bound:
  assumes "ds_reservation st n remaining k = Inr r"
  shows "r \<le> n \<and> r * k \<le> remaining \<and> r \<le> max_nodes (ds_limits st) - ds_nodes st"
proof -
  from assms have "k \<noteq> 0" "r \<le> n" "r \<le> remaining div k"
    by (auto simp: ds_reservation_def initial_collection_capacity_def)
  moreover have "r \<le> max_nodes (ds_limits st) - ds_nodes st"
    using assms by (auto simp: ds_reservation_def Let_def try_from_def split: if_splits option.splits)
  ultimately show ?thesis by (metis div_le_mono2 div_times_less_eq_dividend le_trans mult_le_mono1 mult.commute)
qed

section \<open>Properties\<close>

lemma default_decode_limit_simps:
  "max_input_bytes default_decode_limits = 67108864"
  "dl_value default_decode_limits = default_value_limits"
  by (simp_all add: default_decode_limits_def DEFAULT_MAX_INPUT_BYTES_def)

text \<open>C1: the decoder accepts a byte string exactly when it is the canonical encoding of a
  representation-valid value within the limits; the value it returns is that value and the
  metrics it returns are those of the admission walk.  In particular decoding inverts
  encoding, and no other input decodes.\<close>

theorem decoder_accepts_exactly:
  assumes "decode_limits_in_range limits"
  shows "decode_value_with_metrics bs limits = Ok (v, metrics) \<longleftrightarrow>
    repr_valid v \<and> canonical_value_bytes_with_limits v (dl_value limits) = Ok bs
    \<and> length bs \<le> max_input_bytes limits \<and> validate_limits v (dl_value limits) = Ok metrics"
  unfolding decode_value_with_metrics_iff [OF assms]
  using assms repr_valid_encodable(1) [of v]
  by (auto simp: canonical_value_bytes_with_limits_def zcve_bytes_with_limits_eq decode_limits_in_range_def)

theorem decoder_accepts_exactly_witness:
  "decode_limits_in_range default_decode_limits \<and>
   decode_value_with_metrics [11, 0, 0, 0, 2, 0, 2] default_decode_limits =
     Ok (VVector [VUnit, VBool True], \<lparr>m_nodes = 3, m_payload_bytes = 0, m_depth = 1\<rparr>)"
  using decoder_accepts_exactly [OF default_limits_in_range, of "[11, 0, 0, 0, 2, 0, 2]"
      "VVector [VUnit, VBool True]" "\<lparr>m_nodes = 3, m_payload_bytes = 0, m_depth = 1\<rparr>"]
    default_limits_in_range default_value_limits_in_range
  by (simp add: canonical_value_bytes_with_limits_def zcve_bytes_with_limits_eq validate_limits_Ok
      default_limit_simps default_decode_limit_simps be_bytes_numeral)

text \<open>The value format is not malleable: two inputs that decode to the same value are equal, and
  two representation-valid values with the same canonical bytes are equal.\<close>

theorem value_format_injective:
  assumes "decode_limits_in_range limits"
  shows "(decode_value bs limits = Ok v \<and> decode_value bs' limits = Ok v \<longrightarrow> bs = bs')
    \<and> (value_valid limits v \<and> value_valid limits w
       \<and> canonical_value_bytes_with_limits v (dl_value limits) = Ok bs
       \<and> canonical_value_bytes_with_limits w (dl_value limits) = Ok bs \<longrightarrow> v = w)"
  using canonical_decoder.decode_inject [OF canonical_codec.axioms(1) [OF value_codec [OF assms]]]
    canonical_codec.encode_inject [OF value_codec [OF assms]] by blast

theorem value_format_injective_witness:
  "\<forall>bs. decode_value bs default_decode_limits = Ok VUnit \<longleftrightarrow> bs = [0]"
proof -
  have "decode_value [0] default_decode_limits = Ok VUnit"
    using default_value_limits_in_range
    by (simp add: decode_value_iff [OF default_limits_in_range] canonical_value_bytes_with_limits_def
        zcve_bytes_with_limits_eq validate_limits_Ok default_limit_simps default_decode_limit_simps)
  then show ?thesis using value_format_injective [OF default_limits_in_range] by blast
qed

text \<open>C34: an envelope decodes exactly from its own canonical bytes: the magic, the type, the schema
  hash and the length-framed payload, with nothing behind it and no second spelling.\<close>

theorem envelope_decoder_accepts_exactly:
  assumes "decode_limits_in_range limits"
  shows "decode_envelope bs limits = Ok e \<longleftrightarrow>
    repr_valid (env_value e) \<and> envelope_canonical_bytes_with_limits e limits = Ok bs"
  by (rule decode_envelope_iff [OF assms])

theorem envelope_decoder_accepts_exactly_witness:
  "\<exists>bs. decode_envelope bs default_decode_limits =
     Ok \<lparr>env_type_id = 7, env_schema_hash = 9, env_value = VUnit\<rparr>"
proof -
  let ?e = "\<lparr>env_type_id = 7, env_schema_hash = 9, env_value = VUnit\<rparr>"
  have "canonical_value_bytes_with_limits VUnit default_value_limits = Ok [0]"
    using default_value_limits_in_range
    by (simp add: canonical_value_bytes_with_limits_def zcve_bytes_with_limits_eq validate_limits_Ok
        default_limit_simps)
  then have "\<exists>bs. envelope_canonical_bytes_with_limits ?e default_decode_limits = Ok bs"
    by (simp add: envelope_canonical_bytes_with_limits_def envelope_encode_to_with_limits_def
        append_envelope_Ok default_decode_limit_simps)
  then show ?thesis
    using envelope_decoder_accepts_exactly [OF default_limits_in_range] by fastforce
qed

text \<open>Encoding an admitted envelope cannot fail: it writes exactly the promised number of bytes,
  and they are the bytes of the plain envelope under the limits it was admitted with.\<close>

theorem admitted_envelope_encodes:
  assumes "admitted_envelope_try_new_with_limits type_id schema_hash v limits = Ok e"
    and "admitted_valid v" and "max_input_bytes limits \<le> u64_max"
  shows "\<exists>bs. canonical_bytes admitted_envelope_encode_to e = Ok bs
    \<and> length bs = admitted_envelope_encoded_length e
    \<and> envelope_canonical_bytes_with_limits (into_envelope e) limits = Ok bs"
proof -
  from admitted_envelope_try_new_valid [OF assms(1,2)]
  have e: "admitted_envelope_valid e" "admitted_envelope_limits e = limits" by simp_all
  moreover from e(2) assms(3) have "ae_max_input_bytes e \<le> u64_max"
    by (auto simp: admitted_envelope_limits_def)
  ultimately show ?thesis using admitted_envelope_encode [of e] by auto
qed

theorem admitted_envelope_encodes_witness:
  "\<exists>e bs. try_from_envelope \<lparr>env_type_id = 7, env_schema_hash = 9, env_value = VUnit\<rparr> = Ok e
     \<and> canonical_bytes admitted_envelope_encode_to e = Ok bs \<and> length bs = 49"
proof -
  let ?m = "\<lparr>m_nodes = 1, m_payload_bytes = 0, m_depth = 0\<rparr>"
  let ?a = "\<lparr>admitted_value = VUnit, admitted_metrics = ?m, admitted_limits = default_value_limits\<rparr>"
  have m: "validate_limits VUnit default_value_limits = Ok ?m"
    using default_value_limits_in_range
    by (simp add: validate_limits_Ok default_limit_simps)
  then have a: "admitted_valid ?a" "admit_with_limits VUnit default_value_limits = Ok ?a"
    by (simp_all add: admitted_valid_def admit_with_limits_def)
  obtain e where e: "admitted_envelope_try_new_with_limits 7 9 ?a default_decode_limits = Ok e"
    by (simp add: admitted_envelope_try_new_with_limits_def default_decode_limits_def
        DEFAULT_MAX_INPUT_BYTES_def ENVELOPE_OVERHEAD_BYTES_def try_from_def checked_add_def)
  then have len: "admitted_envelope_encoded_length e = 49"
    by (auto simp: admitted_envelope_try_new_with_limits_def default_decode_limits_def
        admitted_envelope_encoded_length_def ENVELOPE_OVERHEAD_BYTES_def split: if_splits)
  have "max_input_bytes default_decode_limits \<le> u64_max"
    using default_limits_in_range by (simp add: decode_limits_in_range_def)
  from admitted_envelope_encodes [OF e a(1) this] len e a(2) show ?thesis
    by (auto simp: try_from_envelope_def try_from_envelope_with_limits_def default_decode_limits_def)
qed

text \<open>The capacity the decoder reserves before reading a collection is bounded by the claimed
  count, by the wire bytes that are really left and by the nodes still allowed, so a hostile
  count cannot make it allocate.\<close>

theorem reservation_bounded:
  assumes "ds_reservation st n remaining minimum = Ok capacity"
  shows "capacity \<le> n \<and> capacity * minimum \<le> remaining
    \<and> capacity \<le> max_nodes (ds_limits st) - ds_nodes st"
  using assms by (rule reservation_bound)

theorem reservation_bounded_witness:
  "\<exists>capacity. ds_reservation (decode_state_new default_value_limits) u32_max 12 10 = Ok capacity
     \<and> capacity * 10 \<le> 12"
proof -
  obtain capacity where
    "ds_reservation (decode_state_new default_value_limits) u32_max 12 10 = Ok capacity"
    using ds_reservation_Ok [of u32_max 10] by fastforce
  with reservation_bounded [OF this] show ?thesis by blast
qed

end
