(* ===== verification/Zeno_Domains.thy ===== *)
theory Zeno_Domains
  imports Zeno_Hash Zeno_Value_Laws
begin

text \<open>
  The closed registry of \<^verbatim>\<open>zeno-fcis-codec/src/domains.rs\<close>: every commitment domain of the
  workspace by the constant that names it, and the list \<open>domains_ALL\<close> of them in the source's order.
\<close>

definition registered :: "string \<Rightarrow> u16 \<Rightarrow> Domain" where
  "registered name version = \<lparr>domain_name = ascii_bytes name, domain_version = version\<rparr>"

definition ACCESS_MAP_KEY :: Domain where
  "ACCESS_MAP_KEY = registered ''zeno-fcis/access-map-key'' 1"

definition AUTH_EMPTY :: Domain where
  "AUTH_EMPTY = registered ''zeno-fcis/auth-empty'' 1"

definition AUTH_LEAF :: Domain where
  "AUTH_LEAF = registered ''zeno-fcis/auth-leaf'' 1"

definition AUTH_NODE :: Domain where
  "AUTH_NODE = registered ''zeno-fcis/auth-node'' 1"

definition AUTH_PATCH :: Domain where
  "AUTH_PATCH = registered ''zeno-fcis/auth-patch'' 1"

definition AUTHENTICATED_AUTHORITY_CONFIG :: Domain where
  "AUTHENTICATED_AUTHORITY_CONFIG = registered ''zeno-fcis/authenticated-authority-config'' 1"

definition AUTHENTICATED_AUTHORIZATION :: Domain where
  "AUTHENTICATED_AUTHORIZATION = registered ''zeno-fcis/authenticated-authorization'' 1"

definition AUTHORIZATION_INVOCATION :: Domain where
  "AUTHORIZATION_INVOCATION = registered ''zeno-fcis/authorization-invocation'' 2"

definition AUTHORIZATION_POLICY :: Domain where
  "AUTHORIZATION_POLICY = registered ''zeno-fcis/authorization-policy'' 2"

definition AUTHORIZED_BUNDLE :: Domain where
  "AUTHORIZED_BUNDLE = registered ''zeno-fcis/authorized-bundle'' 2"

definition AUTHORIZED_GENESIS :: Domain where
  "AUTHORIZED_GENESIS = registered ''zeno-fcis/authorized-genesis'' 2"

definition AUTHORIZED_REJECT :: Domain where
  "AUTHORIZED_REJECT = registered ''zeno-fcis/authorized-reject'' 2"

definition AUTHORIZED_TRANSITION :: Domain where
  "AUTHORIZED_TRANSITION = registered ''zeno-fcis/authorized-transition'' 2"

definition BACKEND_CERTIFICATE :: Domain where
  "BACKEND_CERTIFICATE = registered ''zeno-fcis/backend-certificate'' 1"

definition BACKEND_IDENTITY :: Domain where
  "BACKEND_IDENTITY = registered ''zeno-fcis/backend-identity'' 1"

definition BACKEND_REQUEST :: Domain where
  "BACKEND_REQUEST = registered ''zeno-fcis/backend-request'' 1"

definition BACKEND_RESPONSE :: Domain where
  "BACKEND_RESPONSE = registered ''zeno-fcis/backend-response'' 1"

definition BACKEND_SYNTHESIS_CHECKER :: Domain where
  "BACKEND_SYNTHESIS_CHECKER = registered ''zeno-fcis/backend-synthesis-checker'' 1"

definition BACKEND_SYNTHESIS_COMPOSITION :: Domain where
  "BACKEND_SYNTHESIS_COMPOSITION = registered ''zeno-fcis/backend-synthesis-composition'' 1"

definition BACKEND_SYNTHESIS_REFERENCE :: Domain where
  "BACKEND_SYNTHESIS_REFERENCE = registered ''zeno-fcis/backend-synthesis-reference'' 1"

definition BENCH :: Domain where
  "BENCH = registered ''zeno-fcis/bench'' 1"

definition BOOTSTRAP_FILE :: Domain where
  "BOOTSTRAP_FILE = registered ''zeno-fcis/bootstrap-file'' 1"

definition BOOTSTRAP_MANIFEST :: Domain where
  "BOOTSTRAP_MANIFEST = registered ''zeno-fcis/bootstrap-manifest'' 1"

definition CANDIDATE :: Domain where
  "CANDIDATE = registered ''zeno-fcis/candidate'' 1"

definition CATALOG_MANIFEST :: Domain where
  "CATALOG_MANIFEST = registered ''zeno-fcis/catalog-manifest'' 3"

definition CHANNEL_DEFINITION :: Domain where
  "CHANNEL_DEFINITION = registered ''zeno-fcis/channel-definition'' 3"

definition CHANNEL_REGISTRY :: Domain where
  "CHANNEL_REGISTRY = registered ''zeno-fcis/channel-registry'' 3"

definition COMMIT_PLAN :: Domain where
  "COMMIT_PLAN = registered ''zeno-fcis/commit-plan'' 1"

definition COMPLETE_FOOTPRINT_CLAIM :: Domain where
  "COMPLETE_FOOTPRINT_CLAIM = registered ''zeno-fcis/complete-footprint-claim'' 1"

definition COMPLETE_FOOTPRINT_EVIDENCE :: Domain where
  "COMPLETE_FOOTPRINT_EVIDENCE = registered ''zeno-fcis/complete-footprint-evidence'' 1"

definition COMPLETE_FOOTPRINT_WITNESS :: Domain where
  "COMPLETE_FOOTPRINT_WITNESS = registered ''zeno-fcis/complete-footprint-witness'' 1"

definition COMPLETE_INVOCATION_CONTEXT :: Domain where
  "COMPLETE_INVOCATION_CONTEXT = registered ''zeno-fcis/complete-invocation-context'' 1"

definition COMPLETION_CHECKER_SOURCE :: Domain where
  "COMPLETION_CHECKER_SOURCE = registered ''zeno-fcis/completion-checker-source'' 1"

definition COMPLETION_IR_SOURCE :: Domain where
  "COMPLETION_IR_SOURCE = registered ''zeno-fcis/completion-ir-source'' 1"

definition COMPLETION_PROBLEM :: Domain where
  "COMPLETION_PROBLEM = registered ''zeno-fcis/completion-problem'' 1"

definition COMPLETION_SPACE_SOURCE :: Domain where
  "COMPLETION_SPACE_SOURCE = registered ''zeno-fcis/completion-space-source'' 1"

definition COMPOSED_DOMAIN_PROGRAM :: Domain where
  "COMPOSED_DOMAIN_PROGRAM = registered ''zeno-fcis/composed-domain-program'' 1"

definition COMPOSITION_CLAIM :: Domain where
  "COMPOSITION_CLAIM = registered ''zeno-fcis/composition-claim'' 2"

definition COMPOSITION_SPEC :: Domain where
  "COMPOSITION_SPEC = registered ''zeno-fcis/composition-spec'' 2"

definition DELIVERY :: Domain where
  "DELIVERY = registered ''zeno-fcis/delivery'' 1"

definition DELIVERY_INTERPRETER :: Domain where
  "DELIVERY_INTERPRETER = registered ''zeno-fcis/delivery-interpreter'' 2"

definition DETERMINISM_PROBE :: Domain where
  "DETERMINISM_PROBE = registered ''zeno-fcis/determinism-probe'' 1"

definition DETERMINISTIC_PARALLEL_AUTHORIZATION :: Domain where
  "DETERMINISTIC_PARALLEL_AUTHORIZATION = registered ''zeno-fcis/deterministic-parallel-authorization'' 1"

definition EFFECT_DEFINITION :: Domain where
  "EFFECT_DEFINITION = registered ''zeno-fcis/effect-definition'' 3"

definition EFFECT_REGISTRY :: Domain where
  "EFFECT_REGISTRY = registered ''zeno-fcis/effect-registry'' 3"

definition EXECUTABLE_COMPOSITION :: Domain where
  "EXECUTABLE_COMPOSITION = registered ''zeno-fcis/executable-composition'' 1"

definition EXHAUSTIVE_COVERAGE_CLAIM :: Domain where
  "EXHAUSTIVE_COVERAGE_CLAIM = registered ''zeno-fcis/exhaustive-coverage-claim'' 1"

definition EXHAUSTIVE_DOMAIN :: Domain where
  "EXHAUSTIVE_DOMAIN = registered ''zeno-fcis/exhaustive-domain'' 1"

definition EXHAUSTIVE_FOOTPRINT_DOMAIN :: Domain where
  "EXHAUSTIVE_FOOTPRINT_DOMAIN = registered ''zeno-fcis/exhaustive-footprint-domain'' 1"

definition FINITE_ADMISSION_SOURCE :: Domain where
  "FINITE_ADMISSION_SOURCE = registered ''zeno-fcis/finite-admission-source'' 1"

definition FINITE_ADMISSION_SPECIFICATION :: Domain where
  "FINITE_ADMISSION_SPECIFICATION = registered ''zeno-fcis/finite-admission-specification'' 1"

definition FINITE_ALGORITHM :: Domain where
  "FINITE_ALGORITHM = registered ''zeno-fcis/finite-algorithm'' 1"

definition FINITE_CHECKER :: Domain where
  "FINITE_CHECKER = registered ''zeno-fcis/finite-checker'' 1"

definition FINITE_CHECKER_SOURCE :: Domain where
  "FINITE_CHECKER_SOURCE = registered ''zeno-fcis/finite-checker-source'' 1"

definition FINITE_CLOSED_TOTALITY :: Domain where
  "FINITE_CLOSED_TOTALITY = registered ''zeno-fcis/finite-closed-totality'' 1"

definition FINITE_CONTRACT :: Domain where
  "FINITE_CONTRACT = registered ''zeno-fcis/finite-contract'' 1"

definition FINITE_CONTRACT_COVERAGE :: Domain where
  "FINITE_CONTRACT_COVERAGE = registered ''zeno-fcis/finite-contract-coverage'' 1"

definition FINITE_DECISION_CONTRACT :: Domain where
  "FINITE_DECISION_CONTRACT = registered ''zeno-fcis/finite-decision-contract'' 1"

definition FINITE_DECISION_EVALUATOR :: Domain where
  "FINITE_DECISION_EVALUATOR = registered ''zeno-fcis/finite-decision-evaluator'' 2"

definition FINITE_EXECUTION_SOURCE :: Domain where
  "FINITE_EXECUTION_SOURCE = registered ''zeno-fcis/finite-execution-source'' 1"

definition FINITE_EXECUTION_SPECIFICATION :: Domain where
  "FINITE_EXECUTION_SPECIFICATION = registered ''zeno-fcis/finite-execution-specification'' 1"

definition FINITE_GRAMMAR :: Domain where
  "FINITE_GRAMMAR = registered ''zeno-fcis/finite-grammar'' 1"

definition FINITE_IR_SOURCE :: Domain where
  "FINITE_IR_SOURCE = registered ''zeno-fcis/finite-ir-source'' 1"

definition FINITE_RUNTIME_SOURCE :: Domain where
  "FINITE_RUNTIME_SOURCE = registered ''zeno-fcis/finite-runtime-source'' 1"

definition FINITE_SCHEMA :: Domain where
  "FINITE_SCHEMA = registered ''zeno-fcis/finite-schema'' 1"

definition FINITE_V2_EXECUTION_SOURCE :: Domain where
  "FINITE_V2_EXECUTION_SOURCE = registered ''zeno-fcis/finite-v2-execution-source'' 1"

definition FINITE_V2_EXECUTION_SPECIFICATION :: Domain where
  "FINITE_V2_EXECUTION_SPECIFICATION = registered ''zeno-fcis/finite-v2-execution-specification'' 1"

definition FINITE_V2_INPUT_SOURCE :: Domain where
  "FINITE_V2_INPUT_SOURCE = registered ''zeno-fcis/finite-v2-input-source'' 1"

definition FINITE_V2_INPUT_SPECIFICATION :: Domain where
  "FINITE_V2_INPUT_SPECIFICATION = registered ''zeno-fcis/finite-v2-input-specification'' 1"

definition FINITE_V2_INTEGER_SOURCE :: Domain where
  "FINITE_V2_INTEGER_SOURCE = registered ''zeno-fcis/finite-v2-integer-source'' 1"

definition FINITE_V2_INTEGER_SPECIFICATION :: Domain where
  "FINITE_V2_INTEGER_SPECIFICATION = registered ''zeno-fcis/finite-v2-integer-specification'' 1"

definition FINITE_V2_METER_SOURCE :: Domain where
  "FINITE_V2_METER_SOURCE = registered ''zeno-fcis/finite-v2-meter-source'' 1"

definition FINITE_V2_RECORD_EXECUTION_SOURCE :: Domain where
  "FINITE_V2_RECORD_EXECUTION_SOURCE = registered ''zeno-fcis/finite-v2-record-execution-source'' 1"

definition FINITE_V2_RECORD_EXECUTION_SPECIFICATION :: Domain where
  "FINITE_V2_RECORD_EXECUTION_SPECIFICATION = registered ''zeno-fcis/finite-v2-record-execution-specification'' 1"

definition FOLD_INPUT :: Domain where
  "FOLD_INPUT = registered ''zeno-fcis/fold-input'' 1"

definition FORMAL_RUN :: Domain where
  "FORMAL_RUN = registered ''zeno-fcis/formal-run'' 3"

definition FORMAL_SOURCE :: Domain where
  "FORMAL_SOURCE = registered ''zeno-fcis/formal-source'' 1"

definition GENERATED_FILE :: Domain where
  "GENERATED_FILE = registered ''zeno-fcis/generated-file'' 1"

definition GENERATION_MANIFEST :: Domain where
  "GENERATION_MANIFEST = registered ''zeno-fcis/generation-manifest'' 1"

definition GENESIS_LAW_EVALUATION :: Domain where
  "GENESIS_LAW_EVALUATION = registered ''zeno-fcis/genesis-law-evaluation'' 1"

definition GENESIS_LAW_INPUT :: Domain where
  "GENESIS_LAW_INPUT = registered ''zeno-fcis/genesis-law-input'' 1"

definition GENESIS_POLICY_BINDING :: Domain where
  "GENESIS_POLICY_BINDING = registered ''zeno-fcis/genesis-policy-binding'' 2"

definition LAW_ASSUMPTIONS :: Domain where
  "LAW_ASSUMPTIONS = registered ''zeno-fcis/law-assumptions'' 1"

definition LAW_COVERAGE :: Domain where
  "LAW_COVERAGE = registered ''zeno-fcis/law-coverage'' 1"

definition LAW_DEFINITION :: Domain where
  "LAW_DEFINITION = registered ''zeno-fcis/law-definition'' 1"

definition LAW_EVALUATION :: Domain where
  "LAW_EVALUATION = registered ''zeno-fcis/law-evaluation'' 1"

definition LAW_INPUT :: Domain where
  "LAW_INPUT = registered ''zeno-fcis/law-input'' 1"

definition LAW_MANIFEST :: Domain where
  "LAW_MANIFEST = registered ''zeno-fcis/law-manifest'' 1"

definition LAW_PROOF_SUBJECT :: Domain where
  "LAW_PROOF_SUBJECT = registered ''zeno-fcis/law-proof-subject'' 1"

definition LAW_QUERY_ID :: Domain where
  "LAW_QUERY_ID = registered ''zeno-fcis/law-query-id'' 1"

definition MOUNTED_COUNTEREXAMPLE :: Domain where
  "MOUNTED_COUNTEREXAMPLE = registered ''zeno-fcis/mounted-counterexample'' 1"

definition MOUNTED_INPUT :: Domain where
  "MOUNTED_INPUT = registered ''zeno-fcis/mounted-input'' 1"

definition NORMALIZED_DECISION :: Domain where
  "NORMALIZED_DECISION = registered ''zeno-fcis/normalized-decision'' 1"

definition OBSERVED_FOOTPRINT :: Domain where
  "OBSERVED_FOOTPRINT = registered ''zeno-fcis/observed-footprint'' 1"

definition OUTBOX_ENTRY :: Domain where
  "OUTBOX_ENTRY = registered ''zeno-fcis/outbox-entry'' 1"

definition OUTBOX_PLAN :: Domain where
  "OUTBOX_PLAN = registered ''zeno-fcis/outbox-plan'' 1"

definition PARITY :: Domain where
  "PARITY = registered ''zeno-fcis/parity'' 1"

definition PATCH :: Domain where
  "PATCH = registered ''zeno-fcis/patch'' 1"

definition PREPARED_FOLD :: Domain where
  "PREPARED_FOLD = registered ''zeno-fcis/prepared-fold'' 1"

definition PROFILE_EVOLUTION :: Domain where
  "PROFILE_EVOLUTION = registered ''zeno-fcis/profile-evolution'' 1"

definition PROJECT_CATALOG :: Domain where
  "PROJECT_CATALOG = registered ''zeno-fcis/project-catalog'' 3"

definition PROJECT_PROFILE :: Domain where
  "PROJECT_PROFILE = registered ''zeno-fcis/project-profile'' 1"

definition PROJECT_SPEC :: Domain where
  "PROJECT_SPEC = registered ''zeno-fcis/project-spec'' 1"

definition PROJECTION_RELATION_SUBJECT :: Domain where
  "PROJECTION_RELATION_SUBJECT = registered ''zeno-fcis/projection-relation-subject'' 1"

definition PROJECTOR_EVIDENCE :: Domain where
  "PROJECTOR_EVIDENCE = registered ''zeno-fcis/projector-evidence'' 1"

definition PROJECTOR_QUALIFICATION :: Domain where
  "PROJECTOR_QUALIFICATION = registered ''zeno-fcis/projector-qualification'' 1"

definition PROMOTION_EVIDENCE :: Domain where
  "PROMOTION_EVIDENCE = registered ''zeno-fcis/promotion-evidence'' 1"

definition PROMOTION_POLICY :: Domain where
  "PROMOTION_POLICY = registered ''zeno-fcis/promotion-policy'' 1"

definition PROMOTION_REPORT :: Domain where
  "PROMOTION_REPORT = registered ''zeno-fcis/promotion-report'' 1"

definition REASON_DEFINITION :: Domain where
  "REASON_DEFINITION = registered ''zeno-fcis/reason-definition'' 3"

definition REASON_REGISTRY :: Domain where
  "REASON_REGISTRY = registered ''zeno-fcis/reason-registry'' 3"

definition REFINEMENT_CASE :: Domain where
  "REFINEMENT_CASE = registered ''zeno-fcis/refinement-case'' 1"

definition REFINEMENT_INPUT :: Domain where
  "REFINEMENT_INPUT = registered ''zeno-fcis/refinement-input'' 1"

definition SCHEMA :: Domain where
  "SCHEMA = registered ''zeno-fcis/schema'' 1"

definition SECRET_EXPOSURE_PERMIT :: Domain where
  "SECRET_EXPOSURE_PERMIT = registered ''zeno-fcis/secret-exposure-permit'' 1"

definition SECURITY_CAPACITY_EVIDENCE_SET :: Domain where
  "SECURITY_CAPACITY_EVIDENCE_SET = registered ''zeno-fcis/security-capacity-evidence-set'' 1"

definition SECURITY_DEPLOYMENT :: Domain where
  "SECURITY_DEPLOYMENT = registered ''zeno-fcis/security-deployment'' 1"

definition SECURITY_EVIDENCE_SET :: Domain where
  "SECURITY_EVIDENCE_SET = registered ''zeno-fcis/security-evidence-set'' 1"

definition SECURITY_LEAKAGE_REPORT_SET :: Domain where
  "SECURITY_LEAKAGE_REPORT_SET = registered ''zeno-fcis/security-leakage-report-set'' 1"

definition SECURITY_POLICY :: Domain where
  "SECURITY_POLICY = registered ''zeno-fcis/security-policy'' 1"

definition SECURITY_PROMOTION_POLICY :: Domain where
  "SECURITY_PROMOTION_POLICY = registered ''zeno-fcis/security-promotion-policy'' 1"

definition SECURITY_TRACE :: Domain where
  "SECURITY_TRACE = registered ''zeno-fcis/security-trace'' 1"

definition SEMANTIC_PROGRAM :: Domain where
  "SEMANTIC_PROGRAM = registered ''zeno-fcis/semantic-program'' 1"

definition SYNTHESIS_ASSIGNMENT :: Domain where
  "SYNTHESIS_ASSIGNMENT = registered ''zeno-fcis/synthesis-assignment'' 1"

definition SYNTHESIS_CERTIFICATE :: Domain where
  "SYNTHESIS_CERTIFICATE = registered ''zeno-fcis/synthesis-certificate'' 1"

definition SYNTHESIS_COMPILED :: Domain where
  "SYNTHESIS_COMPILED = registered ''zeno-fcis/synthesis-compiled'' 1"

definition SYNTHESIS_COUNTEREXAMPLE :: Domain where
  "SYNTHESIS_COUNTEREXAMPLE = registered ''zeno-fcis/synthesis-counterexample'' 1"

definition SYNTHESIS_PROBLEM :: Domain where
  "SYNTHESIS_PROBLEM = registered ''zeno-fcis/synthesis-problem'' 1"

definition SYNTHESIS_TRACE :: Domain where
  "SYNTHESIS_TRACE = registered ''zeno-fcis/synthesis-trace'' 1"

definition TEST :: Domain where
  "TEST = registered ''zeno-fcis/test'' 1"

definition TRANSITION_RESOURCES :: Domain where
  "TRANSITION_RESOURCES = registered ''zeno-fcis/transition-resources'' 1"

definition V2_CERTIFICATE :: Domain where
  "V2_CERTIFICATE = registered ''zeno-fcis/v2/certificate'' 1"

definition V2_CHAIN :: Domain where
  "V2_CHAIN = registered ''zeno-fcis/v2/chain'' 1"

definition V2_CHECKPOINT :: Domain where
  "V2_CHECKPOINT = registered ''zeno-fcis/v2/checkpoint'' 1"

definition V2_EFFECT_DELIVERY :: Domain where
  "V2_EFFECT_DELIVERY = registered ''zeno-fcis/v2/effect-delivery'' 1"

definition V2_GENESIS :: Domain where
  "V2_GENESIS = registered ''zeno-fcis/v2/genesis'' 1"

definition V2_PUBLICATION :: Domain where
  "V2_PUBLICATION = registered ''zeno-fcis/v2/publication'' 1"

definition V2_STATE :: Domain where
  "V2_STATE = registered ''zeno-fcis/v2/state'' 1"

definition VALUE :: Domain where
  "VALUE = registered ''zeno-fcis/value'' 1"

definition VECTOR :: Domain where
  "VECTOR = registered ''zeno-fcis/vector'' 1"

definition VECTOR_SET :: Domain where
  "VECTOR_SET = registered ''zeno-fcis/vector-set'' 1"

definition VERIFIED_LAW_SET :: Domain where
  "VERIFIED_LAW_SET = registered ''zeno-fcis/verified-law-set'' 1"

definition ZENODEX_ZUSD_MOUNT_ALGORITHM :: Domain where
  "ZENODEX_ZUSD_MOUNT_ALGORITHM = registered ''zeno-fcis/zenodex/zusd/mount-algorithm'' 1"

definition ZENODEX_ZUSD_MOUNT_BUDGET :: Domain where
  "ZENODEX_ZUSD_MOUNT_BUDGET = registered ''zeno-fcis/zenodex/zusd/mount-budget'' 1"

definition ZENODEX_ZUSD_MOUNT_CASE :: Domain where
  "ZENODEX_ZUSD_MOUNT_CASE = registered ''zeno-fcis/zenodex/zusd/mount-case'' 1"

definition ZENODEX_ZUSD_MOUNT_CONTEXT :: Domain where
  "ZENODEX_ZUSD_MOUNT_CONTEXT = registered ''zeno-fcis/zenodex/zusd/mount-context'' 1"

definition ZENODEX_ZUSD_MOUNT_SCHEMA :: Domain where
  "ZENODEX_ZUSD_MOUNT_SCHEMA = registered ''zeno-fcis/zenodex/zusd/mount-schema'' 1"

definition domains_ALL :: "Domain list" where
  "domains_ALL =
     [ACCESS_MAP_KEY, AUTH_EMPTY, AUTH_LEAF, AUTH_NODE, AUTH_PATCH,
      AUTHENTICATED_AUTHORITY_CONFIG, AUTHENTICATED_AUTHORIZATION,
      AUTHORIZATION_INVOCATION, AUTHORIZATION_POLICY, AUTHORIZED_BUNDLE,
      AUTHORIZED_GENESIS, AUTHORIZED_REJECT, AUTHORIZED_TRANSITION, BACKEND_CERTIFICATE,
      BACKEND_IDENTITY, BACKEND_REQUEST, BACKEND_RESPONSE, BACKEND_SYNTHESIS_CHECKER,
      BACKEND_SYNTHESIS_COMPOSITION, BACKEND_SYNTHESIS_REFERENCE, BENCH, BOOTSTRAP_FILE,
      BOOTSTRAP_MANIFEST, CANDIDATE, CATALOG_MANIFEST, CHANNEL_DEFINITION,
      CHANNEL_REGISTRY, COMMIT_PLAN, COMPLETE_FOOTPRINT_CLAIM,
      COMPLETE_FOOTPRINT_EVIDENCE, COMPLETE_FOOTPRINT_WITNESS,
      COMPLETE_INVOCATION_CONTEXT, COMPLETION_CHECKER_SOURCE, COMPLETION_IR_SOURCE,
      COMPLETION_PROBLEM, COMPLETION_SPACE_SOURCE, COMPOSED_DOMAIN_PROGRAM,
      COMPOSITION_CLAIM, COMPOSITION_SPEC, DELIVERY, DELIVERY_INTERPRETER,
      DETERMINISM_PROBE, DETERMINISTIC_PARALLEL_AUTHORIZATION, EFFECT_DEFINITION,
      EFFECT_REGISTRY, EXECUTABLE_COMPOSITION, EXHAUSTIVE_COVERAGE_CLAIM,
      EXHAUSTIVE_DOMAIN, EXHAUSTIVE_FOOTPRINT_DOMAIN, FINITE_ADMISSION_SOURCE,
      FINITE_ADMISSION_SPECIFICATION, FINITE_ALGORITHM, FINITE_CHECKER,
      FINITE_CHECKER_SOURCE, FINITE_CLOSED_TOTALITY, FINITE_CONTRACT,
      FINITE_CONTRACT_COVERAGE, FINITE_DECISION_CONTRACT, FINITE_DECISION_EVALUATOR,
      FINITE_EXECUTION_SOURCE, FINITE_EXECUTION_SPECIFICATION, FINITE_GRAMMAR,
      FINITE_IR_SOURCE, FINITE_RUNTIME_SOURCE, FINITE_SCHEMA, FINITE_V2_EXECUTION_SOURCE,
      FINITE_V2_EXECUTION_SPECIFICATION, FINITE_V2_INPUT_SOURCE,
      FINITE_V2_INPUT_SPECIFICATION, FINITE_V2_INTEGER_SOURCE,
      FINITE_V2_INTEGER_SPECIFICATION, FINITE_V2_METER_SOURCE,
      FINITE_V2_RECORD_EXECUTION_SOURCE, FINITE_V2_RECORD_EXECUTION_SPECIFICATION,
      FOLD_INPUT, FORMAL_RUN, FORMAL_SOURCE, GENERATED_FILE, GENERATION_MANIFEST,
      GENESIS_LAW_EVALUATION, GENESIS_LAW_INPUT, GENESIS_POLICY_BINDING, LAW_ASSUMPTIONS,
      LAW_COVERAGE, LAW_DEFINITION, LAW_EVALUATION, LAW_INPUT, LAW_MANIFEST,
      LAW_PROOF_SUBJECT, LAW_QUERY_ID, MOUNTED_COUNTEREXAMPLE, MOUNTED_INPUT,
      NORMALIZED_DECISION, OBSERVED_FOOTPRINT, OUTBOX_ENTRY, OUTBOX_PLAN, PARITY, PATCH,
      PREPARED_FOLD, PROFILE_EVOLUTION, PROJECT_CATALOG, PROJECT_PROFILE, PROJECT_SPEC,
      PROJECTION_RELATION_SUBJECT, PROJECTOR_EVIDENCE, PROJECTOR_QUALIFICATION,
      PROMOTION_EVIDENCE, PROMOTION_POLICY, PROMOTION_REPORT, REASON_DEFINITION,
      REASON_REGISTRY, REFINEMENT_CASE, REFINEMENT_INPUT, SCHEMA, SECRET_EXPOSURE_PERMIT,
      SECURITY_CAPACITY_EVIDENCE_SET, SECURITY_DEPLOYMENT, SECURITY_EVIDENCE_SET,
      SECURITY_LEAKAGE_REPORT_SET, SECURITY_POLICY, SECURITY_PROMOTION_POLICY,
      SECURITY_TRACE, SEMANTIC_PROGRAM, SYNTHESIS_ASSIGNMENT, SYNTHESIS_CERTIFICATE,
      SYNTHESIS_COMPILED, SYNTHESIS_COUNTEREXAMPLE, SYNTHESIS_PROBLEM, SYNTHESIS_TRACE,
      TEST, TRANSITION_RESOURCES, V2_CERTIFICATE, V2_CHAIN, V2_CHECKPOINT,
      V2_EFFECT_DELIVERY, V2_GENESIS, V2_PUBLICATION, V2_STATE, VALUE, VECTOR, VECTOR_SET,
      VERIFIED_LAW_SET, ZENODEX_ZUSD_MOUNT_ALGORITHM, ZENODEX_ZUSD_MOUNT_BUDGET,
      ZENODEX_ZUSD_MOUNT_CASE, ZENODEX_ZUSD_MOUNT_CONTEXT, ZENODEX_ZUSD_MOUNT_SCHEMA]"

lemmas domain_defs =
  ACCESS_MAP_KEY_def AUTH_EMPTY_def AUTH_LEAF_def AUTH_NODE_def AUTH_PATCH_def
  AUTHENTICATED_AUTHORITY_CONFIG_def AUTHENTICATED_AUTHORIZATION_def
  AUTHORIZATION_INVOCATION_def AUTHORIZATION_POLICY_def AUTHORIZED_BUNDLE_def
  AUTHORIZED_GENESIS_def AUTHORIZED_REJECT_def AUTHORIZED_TRANSITION_def BACKEND_CERTIFICATE_def
  BACKEND_IDENTITY_def BACKEND_REQUEST_def BACKEND_RESPONSE_def BACKEND_SYNTHESIS_CHECKER_def
  BACKEND_SYNTHESIS_COMPOSITION_def BACKEND_SYNTHESIS_REFERENCE_def BENCH_def BOOTSTRAP_FILE_def
  BOOTSTRAP_MANIFEST_def CANDIDATE_def CATALOG_MANIFEST_def CHANNEL_DEFINITION_def
  CHANNEL_REGISTRY_def COMMIT_PLAN_def COMPLETE_FOOTPRINT_CLAIM_def
  COMPLETE_FOOTPRINT_EVIDENCE_def COMPLETE_FOOTPRINT_WITNESS_def COMPLETE_INVOCATION_CONTEXT_def
  COMPLETION_CHECKER_SOURCE_def COMPLETION_IR_SOURCE_def COMPLETION_PROBLEM_def
  COMPLETION_SPACE_SOURCE_def COMPOSED_DOMAIN_PROGRAM_def COMPOSITION_CLAIM_def
  COMPOSITION_SPEC_def DELIVERY_def DELIVERY_INTERPRETER_def DETERMINISM_PROBE_def
  DETERMINISTIC_PARALLEL_AUTHORIZATION_def EFFECT_DEFINITION_def EFFECT_REGISTRY_def
  EXECUTABLE_COMPOSITION_def EXHAUSTIVE_COVERAGE_CLAIM_def EXHAUSTIVE_DOMAIN_def
  EXHAUSTIVE_FOOTPRINT_DOMAIN_def FINITE_ADMISSION_SOURCE_def FINITE_ADMISSION_SPECIFICATION_def
  FINITE_ALGORITHM_def FINITE_CHECKER_def FINITE_CHECKER_SOURCE_def FINITE_CLOSED_TOTALITY_def
  FINITE_CONTRACT_def FINITE_CONTRACT_COVERAGE_def FINITE_DECISION_CONTRACT_def
  FINITE_DECISION_EVALUATOR_def FINITE_EXECUTION_SOURCE_def FINITE_EXECUTION_SPECIFICATION_def
  FINITE_GRAMMAR_def FINITE_IR_SOURCE_def FINITE_RUNTIME_SOURCE_def FINITE_SCHEMA_def
  FINITE_V2_EXECUTION_SOURCE_def FINITE_V2_EXECUTION_SPECIFICATION_def
  FINITE_V2_INPUT_SOURCE_def FINITE_V2_INPUT_SPECIFICATION_def FINITE_V2_INTEGER_SOURCE_def
  FINITE_V2_INTEGER_SPECIFICATION_def FINITE_V2_METER_SOURCE_def
  FINITE_V2_RECORD_EXECUTION_SOURCE_def FINITE_V2_RECORD_EXECUTION_SPECIFICATION_def
  FOLD_INPUT_def FORMAL_RUN_def FORMAL_SOURCE_def GENERATED_FILE_def GENERATION_MANIFEST_def
  GENESIS_LAW_EVALUATION_def GENESIS_LAW_INPUT_def GENESIS_POLICY_BINDING_def
  LAW_ASSUMPTIONS_def LAW_COVERAGE_def LAW_DEFINITION_def LAW_EVALUATION_def LAW_INPUT_def
  LAW_MANIFEST_def LAW_PROOF_SUBJECT_def LAW_QUERY_ID_def MOUNTED_COUNTEREXAMPLE_def
  MOUNTED_INPUT_def NORMALIZED_DECISION_def OBSERVED_FOOTPRINT_def OUTBOX_ENTRY_def
  OUTBOX_PLAN_def PARITY_def PATCH_def PREPARED_FOLD_def PROFILE_EVOLUTION_def
  PROJECT_CATALOG_def PROJECT_PROFILE_def PROJECT_SPEC_def PROJECTION_RELATION_SUBJECT_def
  PROJECTOR_EVIDENCE_def PROJECTOR_QUALIFICATION_def PROMOTION_EVIDENCE_def PROMOTION_POLICY_def
  PROMOTION_REPORT_def REASON_DEFINITION_def REASON_REGISTRY_def REFINEMENT_CASE_def
  REFINEMENT_INPUT_def SCHEMA_def SECRET_EXPOSURE_PERMIT_def SECURITY_CAPACITY_EVIDENCE_SET_def
  SECURITY_DEPLOYMENT_def SECURITY_EVIDENCE_SET_def SECURITY_LEAKAGE_REPORT_SET_def
  SECURITY_POLICY_def SECURITY_PROMOTION_POLICY_def SECURITY_TRACE_def SEMANTIC_PROGRAM_def
  SYNTHESIS_ASSIGNMENT_def SYNTHESIS_CERTIFICATE_def SYNTHESIS_COMPILED_def
  SYNTHESIS_COUNTEREXAMPLE_def SYNTHESIS_PROBLEM_def SYNTHESIS_TRACE_def TEST_def
  TRANSITION_RESOURCES_def V2_CERTIFICATE_def V2_CHAIN_def V2_CHECKPOINT_def
  V2_EFFECT_DELIVERY_def V2_GENESIS_def V2_PUBLICATION_def V2_STATE_def VALUE_def VECTOR_def
  VECTOR_SET_def VERIFIED_LAW_SET_def ZENODEX_ZUSD_MOUNT_ALGORITHM_def
  ZENODEX_ZUSD_MOUNT_BUDGET_def ZENODEX_ZUSD_MOUNT_CASE_def ZENODEX_ZUSD_MOUNT_CONTEXT_def
  ZENODEX_ZUSD_MOUNT_SCHEMA_def

section \<open>The registry is closed\<close>

fun increasing :: "bytes list \<Rightarrow> bool" where
  "increasing (a # b # names) = (bytes_before a b \<and> increasing (b # names))"
| "increasing names = True"

lemma increasing_sorted: "increasing names \<Longrightarrow> sorted_wrt (<) names"
  by (induction names rule: increasing.induct)
    (auto simp: bytes_before_less dest: order.strict_trans)

lemma registry_increasing: "increasing (map domain_name domains_ALL)"
  by (simp add: domains_ALL_def domain_defs registered_def ascii_bytes_def)

lemma registry_sorted: "sorted_wrt (<) (map domain_name domains_ALL)"
  by (rule increasing_sorted [OF registry_increasing])

lemma registry_reserved: "list_all (\<lambda>d. is_reserved_domain_name (domain_name d)) domains_ALL"
  by (simp add: domains_ALL_def domain_defs registered_def is_reserved_domain_name_def ascii_bytes_def)

lemma registry_short: "list_all (\<lambda>d. length (domain_name d) \<le> 50) domains_ALL"
  by (simp add: domains_ALL_def domain_defs registered_def ascii_bytes_def)

lemma domain_new_not_registered:
  "domain_new name version = Inr d \<Longrightarrow> d \<notin> set domains_ALL"
  using registry_reserved by (auto simp: domain_new_def list_all_iff split: if_splits)

lemma registered_commitment:
  assumes "d \<in> set domains_ALL" and "length payload \<le> u64_max"
  shows "\<exists>preimage. domain_preimage d payload = Inr preimage"
  using registry_short assms by (fastforce simp: domain_preimage_def list_all_iff)

section \<open>Properties\<close>

text \<open>A commitment preimage determines its domain and its payload: no two domains and no two
  payloads of one domain share a preimage.\<close>

theorem preimage_injective:
  assumes "domain_preimage d p = Ok preimage" and "domain_preimage d' p' = Ok preimage"
  shows "d = d' \<and> p = p'"
  using assms by (rule preimage_inject)

theorem preimage_injective_witness:
  "\<exists>preimage. domain_preimage PATCH [1, 2] = Ok preimage \<and>
     (\<forall>d p. domain_preimage d p = Ok preimage \<longrightarrow> PATCH = d \<and> [1, 2] = p)"
proof -
  obtain preimage where "domain_preimage PATCH [1, 2] = Ok preimage"
    using registered_commitment [of PATCH "[1, 2]"] by (auto simp: domains_ALL_def)
  with preimage_injective [OF this] show ?thesis by blast
qed

text \<open>The registry lists its 147 domains in strictly increasing name order, so no name occurs
  twice, and every name lies in the reserved namespace, which the public constructor refuses.\<close>

theorem registry_closed:
  "length domains_ALL = 147 \<and> sorted_wrt (<) (map domain_name domains_ALL)
   \<and> list_all (\<lambda>d. is_reserved_domain_name (domain_name d)
       \<and> domain_new (domain_name d) (domain_version d) = Err EE_InvalidDomain) domains_ALL"
proof (intro conjI)
  show "length domains_ALL = 147" by (simp add: domains_ALL_def)
  show "sorted_wrt (<) (map domain_name domains_ALL)" by (rule registry_sorted)
  show "list_all (\<lambda>d. is_reserved_domain_name (domain_name d)
      \<and> domain_new (domain_name d) (domain_version d) = Err EE_InvalidDomain) domains_ALL"
    using registry_reserved by (auto simp: list_all_iff domain_new_def)
qed

text \<open>A domain that application code builds never collides with a protocol domain: no payloads
  under the two give the same preimage.\<close>

theorem application_domains_separate:
  assumes "domain_new name version = Ok app" and "protocol \<in> set domains_ALL"
    and "domain_preimage app p = Ok x" and "domain_preimage protocol q = Ok y"
  shows "x \<noteq> y"
proof
  assume "x = y"
  with assms(3,4) have "app = protocol" using preimage_inject by blast
  with assms(2) domain_new_not_registered [OF assms(1)] show False by simp
qed

theorem application_domains_separate_witness:
  "\<exists>app x y. domain_new [97] 1 = Ok app \<and> domain_preimage app [] = Ok x
     \<and> domain_preimage VALUE [] = Ok y \<and> x \<noteq> y"
proof -
  have new: "domain_new [97] 1 = Ok \<lparr>domain_name = [97], domain_version = 1\<rparr>"
    by (simp add: domain_new_def is_reserved_domain_name_def RESERVED_DOMAIN_NAMESPACE_def
        ascii_bytes_def)
  have mem: "VALUE \<in> set domains_ALL" by (simp add: domains_ALL_def)
  obtain y where y: "domain_preimage VALUE [] = Ok y" using registered_commitment [OF mem, of "[]"] by auto
  obtain x where x: "domain_preimage \<lparr>domain_name = [97], domain_version = 1\<rparr> [] = Ok x"
    by (simp add: domain_preimage_def try_from_def)
  show ?thesis using application_domains_separate [OF new mem x y] new x y by blast
qed

text \<open>A commitment is the hash of the preimage of its domain and payload, whether it takes the
  128-byte stack buffer or the incremental path, for every hasher that keeps the trait's law.\<close>

theorem commitment_hashes_preimage:
  assumes "commitment_hasher H"
  shows "commitment H domain payload =
    rbind (domain_preimage domain payload) (\<lambda>preimage. Ok (h_hash H preimage))"
  by (rule commitment_hasher.commitment_preimage [OF assms])

theorem commitment_hashes_preimage_witness:
  "commitment (default_hasher ''length'' (\<lambda>bs. of_nat (length bs))) VALUE [7] =
    rbind (domain_preimage VALUE [7]) (\<lambda>preimage. Ok (of_nat (length preimage)))"
  using commitment_hashes_preimage [OF default_hasher.commitment_hasher_axioms] by (simp add: default_hasher_def)

text \<open>Both SHA-256 providers keep the trait's law, given that their engine's updates accumulate;
  the libcrux provider's splitting into 32-bit chunks changes nothing.\<close>

theorem providers_keep_hasher_law:
  assumes "sha2_engine e"
  shows "h_hash_parts (RustCryptoSha256 e) parts = h_hash (RustCryptoSha256 e) (concat parts)
    \<and> h_hash_parts (LibcruxSha256 e) parts = h_hash (LibcruxSha256 e) (concat parts)
    \<and> h_hash (LibcruxSha256 e) bs = h_hash (RustCryptoSha256 e) bs"
  using sha2_engine.provider_parts [OF assms] sha2_engine.libcrux_digest [OF assms]
  by (simp add: LibcruxSha256_def RustCryptoSha256_def)

theorem providers_keep_hasher_law_witness:
  "h_hash_parts (LibcruxSha256 (buffering_engine id)) [[1], [2, 3]] =
     h_hash (RustCryptoSha256 (buffering_engine id)) [1, 2, 3]"
  using providers_keep_hasher_law [OF buffering_engine.sha2_engine_axioms, of id "[[1], [2, 3]]" "[1, 2, 3]"]
  by simp

end
