(* ===== verification/Zeno_Patch.thy ===== *)
theory Zeno_Patch
  imports Zeno_Codec_Laws Zeno_Domains
begin

text \<open>
  \<^verbatim>\<open>zeno-fcis-patch\<close>: paths into a value, patch operations, canonical patches with their
  construction, application and decoding, and the functions that look up, replace, insert
  and delete at a path.
\<close>

section \<open>Data\<close>

datatype PathSegment =
    PS_Field u16
  | PS_TupleIndex u32
  | PS_VectorIndex u32
  | PS_SumPayload
  | PS_MapKey bytes

type_synonym ValuePath = "PathSegment list"

datatype PatchOp =
    PO_Insert ValuePath "Value option" Value
  | PO_Update ValuePath hash32 Value
  | PO_Delete ValuePath hash32

record CanonicalPatch =
  cp_state_type :: u32
  cp_expected_pre_root :: hash32
  cp_operations :: "PatchOp list"

record AppliedPatch =
  ap_state :: Value
  ap_post_root :: hash32

datatype PatchError =
    PE_Encode EncodeError
  | PE_InvalidValue ValueError
  | PE_OverlappingPaths
  | PE_InsertAtRoot
  | PE_DeleteRoot
  | PE_MissingMapKey
  | PE_UnexpectedMapKey
  | PE_MapKeyMismatch
  | PE_UnsupportedInsertTarget
  | PE_UnsupportedDeleteTarget
  | PE_PathTypeMismatch
  | PE_PathNotFound
  | PE_IndexOverflow
  | PE_ExpectedAbsent
  | PE_PreRootMismatch hash32 hash32
  | PE_OldValueMismatch ValuePath hash32 hash32

datatype PatchDecodeError =
    PD_InputLimit nat nat
  | PD_OperationLimit nat nat
  | PD_PathSegmentLimit nat nat
  | PD_MapKeyLimit nat nat
  | PD_ValueNodeLimit nat nat
  | PD_ValuePayloadLimit nat nat
  | PD_LengthOverflow
  | PD_UnexpectedEnd nat nat
  | PD_TrailingBytes nat
  | PD_UnknownPathTag u8
  | PD_UnknownOperationTag u8
  | PD_InvalidMapKeyFlag u8
  | PD_Value DecodeError
  | PD_Patch PatchError
  | PD_Encode EncodeError
  | PD_NonCanonical

record PatchDecodeLimits =
  pl_max_input_bytes :: nat
  pl_max_operations :: nat
  pl_max_path_segments :: nat
  pl_max_map_key_bytes :: nat
  pl_max_value_nodes :: nat
  pl_max_value_payload_bytes :: nat
  pl_value :: DecodeLimits

definition default_patch_decode_limits :: PatchDecodeLimits where
  "default_patch_decode_limits =
     \<lparr>pl_max_input_bytes = DEFAULT_MAX_INPUT_BYTES, pl_max_operations = 4096,
      pl_max_path_segments = 256, pl_max_map_key_bytes = 65536, pl_max_value_nodes = 1000000,
      pl_max_value_payload_bytes = 64 * 1024 * 1024, pl_value = default_decode_limits\<rparr>"

section \<open>Path order\<close>

text \<open>The derived order of \<^verbatim>\<open>PathSegment\<close>: by variant, then by its field.  \<^verbatim>\<open>ValuePath\<close> derives the
  lexicographic order of its slice.\<close>

fun segment_key :: "PathSegment \<Rightarrow> nat \<times> nat \<times> bytes" where
  "segment_key (PS_Field i) = (0, unat i, [])"
| "segment_key (PS_TupleIndex i) = (1, unat i, [])"
| "segment_key (PS_VectorIndex i) = (2, unat i, [])"
| "segment_key PS_SumPayload = (3, 0, [])"
| "segment_key (PS_MapKey k) = (4, 0, k)"

lemma segment_key_inject [simp]: "segment_key a = segment_key b \<longleftrightarrow> a = b"
  by (cases a; cases b) (simp_all add: word_unat_eq_iff)

instantiation PathSegment :: linorder
begin

definition less_eq_PathSegment :: "PathSegment \<Rightarrow> PathSegment \<Rightarrow> bool" where
  "less_eq_PathSegment a b \<longleftrightarrow> segment_key a \<le> segment_key b"

definition less_PathSegment :: "PathSegment \<Rightarrow> PathSegment \<Rightarrow> bool" where
  "less_PathSegment a b \<longleftrightarrow> segment_key a < segment_key b"

instance
proof
  fix a b c :: PathSegment
  show "(a < b) = (a \<le> b \<and> \<not> b \<le> a)"
    by (simp add: less_PathSegment_def less_eq_PathSegment_def less_le_not_le)
  show "a \<le> a" by (simp add: less_eq_PathSegment_def)
  show "a \<le> b \<Longrightarrow> b \<le> c \<Longrightarrow> a \<le> c" by (auto simp: less_eq_PathSegment_def)
  show "a \<le> b \<Longrightarrow> b \<le> a \<Longrightarrow> a = b" by (auto simp: less_eq_PathSegment_def dest: antisym)
  show "a \<le> b \<or> b \<le> a" by (auto simp: less_eq_PathSegment_def)
qed

end

definition is_prefix_of :: "ValuePath \<Rightarrow> ValuePath \<Rightarrow> bool" where
  "is_prefix_of self other \<longleftrightarrow>
     length self \<le> length other \<and> list_all (\<lambda>(left, right). left = right) (zip self other)"

section \<open>Encoding\<close>

definition put_length :: "bytes \<Rightarrow> nat \<Rightarrow> EncodeError + bytes" where
  "put_length output n =
     rbind (ok_or (try_from u32_max n) EE_LengthOverflow) (\<lambda>n.
       Ok (output @ be_bytes 4 (of_nat n :: u32)))"

definition put_blob :: "bytes \<Rightarrow> bytes \<Rightarrow> EncodeError + bytes" where
  "put_blob output bs = rbind (put_length output (length bs)) (\<lambda>output. Ok (output @ bs))"

fun encode_segment :: "PathSegment \<Rightarrow> bytes \<Rightarrow> EncodeError + bytes" where
  "encode_segment (PS_Field i) output = Ok (output @ [0] @ be_bytes 2 i)"
| "encode_segment (PS_TupleIndex i) output = Ok (output @ [1] @ be_bytes 4 i)"
| "encode_segment (PS_VectorIndex i) output = Ok (output @ [2] @ be_bytes 4 i)"
| "encode_segment PS_SumPayload output = Ok (output @ [3])"
| "encode_segment (PS_MapKey k) output = put_blob (output @ [4]) k"

definition path_encode_to :: "ValuePath \<Rightarrow> bytes \<Rightarrow> EncodeError + bytes" where
  "path_encode_to path output =
     rbind (put_length output (length path)) (fold_res encode_segment path)"

definition path_canonical_bytes :: "ValuePath \<Rightarrow> EncodeError + bytes" where
  "path_canonical_bytes path = path_encode_to path []"

fun op_path :: "PatchOp \<Rightarrow> ValuePath" where
  "op_path (PO_Insert path _ _) = path"
| "op_path (PO_Update path _ _) = path"
| "op_path (PO_Delete path _) = path"

definition op_sort_key :: "PatchOp \<Rightarrow> PatchError + bytes" where
  "op_sort_key op = map_err PE_Encode (path_canonical_bytes (op_path op))"

fun op_encode_to :: "PatchOp \<Rightarrow> bytes \<Rightarrow> EncodeError + bytes" where
  "op_encode_to (PO_Insert path map_key v) output =
     rbind (path_canonical_bytes path) (\<lambda>p.
     rbind (put_blob (output @ [0]) p) (\<lambda>output.
     rbind (case map_key of
         None \<Rightarrow> Ok (output @ [0])
       | Some k \<Rightarrow> rbind (canonical_bytes value_encode_to k) (put_blob (output @ [1]))) (\<lambda>output.
     rbind (canonical_bytes value_encode_to v) (put_blob output))))"
| "op_encode_to (PO_Update path expected v) output =
     rbind (path_canonical_bytes path) (\<lambda>p.
     rbind (put_blob (output @ [1]) p) (\<lambda>output.
     rbind (canonical_bytes value_encode_to v) (put_blob (output @ be_bytes 32 expected))))"
| "op_encode_to (PO_Delete path expected) output =
     rbind (path_canonical_bytes path) (\<lambda>p.
     rbind (put_blob (output @ [2]) p) (\<lambda>output. Ok (output @ be_bytes 32 expected)))"

definition op_canonical_bytes :: "PatchOp \<Rightarrow> EncodeError + bytes" where
  "op_canonical_bytes op = op_encode_to op []"

definition patch_encode_to :: "CanonicalPatch \<Rightarrow> bytes \<Rightarrow> EncodeError + bytes" where
  "patch_encode_to p output =
     rbind (put_length (output @ be_bytes 4 (cp_state_type p) @ be_bytes 32 (cp_expected_pre_root p))
       (length (cp_operations p)))
     (fold_res (\<lambda>op output. rbind (op_canonical_bytes op) (put_blob output)) (cp_operations p))"

definition patch_canonical_bytes :: "CanonicalPatch \<Rightarrow> EncodeError + bytes" where
  "patch_canonical_bytes p = patch_encode_to p []"

section \<open>Construction\<close>

fun validate_insert_shape :: "PatchOp \<Rightarrow> PatchError + unit" where
  "validate_insert_shape (PO_Insert path map_key _) =
     (if path = [] then Err PE_InsertAtRoot
      else case last path of
        PS_Field _ \<Rightarrow> if map_key \<noteq> None then Err PE_UnexpectedMapKey else Ok ()
      | PS_MapKey encoded \<Rightarrow>
          (case map_key of
             None \<Rightarrow> Err PE_MissingMapKey
           | Some k \<Rightarrow> rbind (map_err PE_Encode (canonical_bytes value_encode_to k)) (\<lambda>actual.
               if actual \<noteq> encoded then Err PE_MapKeyMismatch else Ok ()))
      | _ \<Rightarrow> Err PE_UnsupportedInsertTarget)"
| "validate_insert_shape _ = Ok ()"

text \<open>\<^verbatim>\<open>windows(2).any(|pair| pair[0].is_prefix_of(pair[1]))\<close>\<close>

fun adjacent_prefix :: "ValuePath list \<Rightarrow> bool" where
  "adjacent_prefix (a # b # paths) = (is_prefix_of a b \<or> adjacent_prefix (b # paths))"
| "adjacent_prefix _ = False"

definition patch_try_new :: "u32 \<Rightarrow> hash32 \<Rightarrow> PatchOp list \<Rightarrow> PatchError + CanonicalPatch" where
  "patch_try_new state_type expected_pre_root operations =
     rbind (each_res validate_insert_shape operations) (\<lambda>_.
     rbind (map_res (\<lambda>op. rbind (op_sort_key op) (\<lambda>k. Ok (k, op))) operations) (\<lambda>keyed.
       let keyed = sort_key fst keyed;
           paths = sort (map (\<lambda>(_, op). op_path op) keyed)
       in if adjacent_prefix paths then Err PE_OverlappingPaths
          else Ok \<lparr>cp_state_type = state_type, cp_expected_pre_root = expected_pre_root,
                   cp_operations = map snd keyed\<rparr>))"

section \<open>Access by path\<close>

definition search_field :: "u16 \<Rightarrow> Field list \<Rightarrow> nat + nat" where
  "search_field i flds = binary_search_by_key field_id i flds"

definition search_entry :: "bytes \<Rightarrow> MapEntry list \<Rightarrow> nat + nat" where
  "search_entry k entries = binary_search_by_key encoded_key k entries"

text \<open>\<^verbatim>\<open>usize::try_from(index)\<close> and \<^verbatim>\<open>items.get(index)\<close>\<close>

definition get_item :: "u32 \<Rightarrow> Value list \<Rightarrow> PatchError + nat" where
  "get_item i items =
     rbind (ok_or (try_from usize_max (unat i)) PE_IndexOverflow) (\<lambda>index.
       if index < length items then Ok index else Err PE_PathNotFound)"

fun lookup :: "Value \<Rightarrow> ValuePath \<Rightarrow> PatchError + Value" where
  "lookup v [] = Ok v"
| "lookup (VRecord flds) (PS_Field i # path) =
     rbind (map_err (\<lambda>_. PE_PathNotFound) (search_field i flds)) (\<lambda>index.
       lookup (field_value (flds ! index)) path)"
| "lookup (VTuple items) (PS_TupleIndex i # path) =
     rbind (get_item i items) (\<lambda>index. lookup (items ! index) path)"
| "lookup (VVector items) (PS_VectorIndex i # path) =
     rbind (get_item i items) (\<lambda>index. lookup (items ! index) path)"
| "lookup (VSum _ _ payload) (PS_SumPayload # path) =
     rbind (ok_or payload PE_PathNotFound) (\<lambda>child. lookup child path)"
| "lookup (VMap entries) (PS_MapKey k # path) =
     rbind (map_err (\<lambda>_. PE_PathNotFound) (search_entry k entries)) (\<lambda>index.
       lookup (entry_value (entries ! index)) path)"
| "lookup _ _ = Err PE_PathTypeMismatch"

fun replace_at :: "Value \<Rightarrow> ValuePath \<Rightarrow> Value \<Rightarrow> PatchError + Value" where
  "replace_at v [] replacement = Ok replacement"
| "replace_at (VRecord flds) (PS_Field i # path) replacement =
     rbind (map_err (\<lambda>_. PE_PathNotFound) (search_field i flds)) (\<lambda>index.
     rbind (replace_at (field_value (flds ! index)) path replacement) (\<lambda>child.
       map_err PE_InvalidValue (record_canonical (flds[index := field_new i child]))))"
| "replace_at (VTuple items) (PS_TupleIndex i # path) replacement =
     rbind (get_item i items) (\<lambda>index.
     rbind (replace_at (items ! index) path replacement) (\<lambda>child.
       map_err PE_InvalidValue (value_tuple (items[index := child]))))"
| "replace_at (VVector items) (PS_VectorIndex i # path) replacement =
     rbind (get_item i items) (\<lambda>index.
     rbind (replace_at (items ! index) path replacement) (\<lambda>child.
       map_err PE_InvalidValue (value_vector (items[index := child]))))"
| "replace_at (VSum t n payload) (PS_SumPayload # path) replacement =
     rbind (ok_or payload PE_PathNotFound) (\<lambda>current.
     rbind (replace_at current path replacement) (\<lambda>child. Ok (VSum t n (Some child))))"
| "replace_at (VMap entries) (PS_MapKey k # path) replacement =
     rbind (map_err (\<lambda>_. PE_PathNotFound) (search_entry k entries)) (\<lambda>index.
     rbind (replace_at (entry_value (entries ! index)) path replacement) (\<lambda>child.
     rbind (map_err PE_InvalidValue (map_entry_try_new (entry_key (entries ! index)) child)) (\<lambda>entry.
       map_err PE_InvalidValue (map_canonical (entries[index := entry])))))"
| "replace_at _ _ _ = Err PE_PathTypeMismatch"

text \<open>The target step of an insertion, and of a deletion: the branch for an empty \<^verbatim>\<open>rest\<close>.\<close>

fun insert_last :: "Value \<Rightarrow> PathSegment \<Rightarrow> Value option \<Rightarrow> Value \<Rightarrow> PatchError + Value" where
  "insert_last (VRecord flds) (PS_Field i) map_key inserted =
     (case search_field i flds of
        Inr _ \<Rightarrow> Err PE_ExpectedAbsent
      | Inl index \<Rightarrow>
          map_err PE_InvalidValue (record_canonical (vec_insert index (field_new i inserted) flds)))"
| "insert_last (VMap entries) (PS_MapKey k) map_key inserted =
     rbind (ok_or map_key PE_MissingMapKey) (\<lambda>key.
       case search_entry k entries of
         Inr _ \<Rightarrow> Err PE_ExpectedAbsent
       | Inl index \<Rightarrow>
           rbind (map_err PE_InvalidValue (map_entry_try_new key inserted)) (\<lambda>entry.
             if encoded_key entry \<noteq> k then Err PE_MapKeyMismatch
             else map_err PE_InvalidValue (map_canonical (vec_insert index entry entries))))"
| "insert_last _ _ _ _ = Err PE_UnsupportedInsertTarget"

fun delete_last :: "Value \<Rightarrow> PathSegment \<Rightarrow> PatchError + Value" where
  "delete_last (VRecord flds) (PS_Field i) =
     rbind (map_err (\<lambda>_. PE_PathNotFound) (search_field i flds)) (\<lambda>index.
       map_err PE_InvalidValue (record_canonical (vec_remove index flds)))"
| "delete_last (VMap entries) (PS_MapKey k) =
     rbind (map_err (\<lambda>_. PE_PathNotFound) (search_entry k entries)) (\<lambda>index.
       map_err PE_InvalidValue (map_canonical (vec_remove index entries)))"
| "delete_last _ _ = Err PE_UnsupportedDeleteTarget"

fun insert_at :: "Value \<Rightarrow> ValuePath \<Rightarrow> Value option \<Rightarrow> Value \<Rightarrow> PatchError + Value" where
  "insert_at v [] map_key inserted = Err PE_InsertAtRoot"
| "insert_at v [seg] map_key inserted = insert_last v seg map_key inserted"
| "insert_at (VRecord flds) (PS_Field i # path) map_key inserted =
     rbind (map_err (\<lambda>_. PE_PathNotFound) (search_field i flds)) (\<lambda>index.
     rbind (insert_at (field_value (flds ! index)) path map_key inserted) (\<lambda>child.
       map_err PE_InvalidValue (record_canonical (flds[index := field_new i child]))))"
| "insert_at (VTuple items) (PS_TupleIndex i # path) map_key inserted =
     rbind (get_item i items) (\<lambda>index.
     rbind (insert_at (items ! index) path map_key inserted) (\<lambda>child.
       map_err PE_InvalidValue (value_tuple (items[index := child]))))"
| "insert_at (VVector items) (PS_VectorIndex i # path) map_key inserted =
     rbind (get_item i items) (\<lambda>index.
     rbind (insert_at (items ! index) path map_key inserted) (\<lambda>child.
       map_err PE_InvalidValue (value_vector (items[index := child]))))"
| "insert_at (VSum t n payload) (PS_SumPayload # path) map_key inserted =
     rbind (ok_or payload PE_PathNotFound) (\<lambda>current.
     rbind (insert_at current path map_key inserted) (\<lambda>child. Ok (VSum t n (Some child))))"
| "insert_at (VMap entries) (PS_MapKey k # path) map_key inserted =
     rbind (map_err (\<lambda>_. PE_PathNotFound) (search_entry k entries)) (\<lambda>index.
     rbind (insert_at (entry_value (entries ! index)) path map_key inserted) (\<lambda>child.
     rbind (map_err PE_InvalidValue (map_entry_try_new (entry_key (entries ! index)) child)) (\<lambda>entry.
       map_err PE_InvalidValue (map_canonical (entries[index := entry])))))"
| "insert_at _ _ _ _ = Err PE_PathTypeMismatch"

fun delete_at :: "Value \<Rightarrow> ValuePath \<Rightarrow> PatchError + Value" where
  "delete_at v [] = Err PE_DeleteRoot"
| "delete_at v [seg] = delete_last v seg"
| "delete_at (VRecord flds) (PS_Field i # path) =
     rbind (map_err (\<lambda>_. PE_PathNotFound) (search_field i flds)) (\<lambda>index.
     rbind (delete_at (field_value (flds ! index)) path) (\<lambda>child.
       map_err PE_InvalidValue (record_canonical (flds[index := field_new i child]))))"
| "delete_at (VTuple items) (PS_TupleIndex i # path) =
     rbind (get_item i items) (\<lambda>index.
     rbind (delete_at (items ! index) path) (\<lambda>child.
       map_err PE_InvalidValue (value_tuple (items[index := child]))))"
| "delete_at (VVector items) (PS_VectorIndex i # path) =
     rbind (get_item i items) (\<lambda>index.
     rbind (delete_at (items ! index) path) (\<lambda>child.
       map_err PE_InvalidValue (value_vector (items[index := child]))))"
| "delete_at (VSum t n payload) (PS_SumPayload # path) =
     rbind (ok_or payload PE_PathNotFound) (\<lambda>current.
     rbind (delete_at current path) (\<lambda>child. Ok (VSum t n (Some child))))"
| "delete_at (VMap entries) (PS_MapKey k # path) =
     rbind (map_err (\<lambda>_. PE_PathNotFound) (search_entry k entries)) (\<lambda>index.
     rbind (delete_at (entry_value (entries ! index)) path) (\<lambda>child.
     rbind (map_err PE_InvalidValue (map_entry_try_new (entry_key (entries ! index)) child)) (\<lambda>entry.
       map_err PE_InvalidValue (map_canonical (entries[index := entry])))))"
| "delete_at _ _ = Err PE_PathTypeMismatch"

definition value_at :: "Value \<Rightarrow> ValuePath \<Rightarrow> PatchError + Value" where
  "value_at v path = lookup v path"

section \<open>Application\<close>

definition hash_value :: "hasher \<Rightarrow> Domain \<Rightarrow> Value \<Rightarrow> PatchError + hash32" where
  "hash_value H domain v =
     rbind (map_err PE_Encode (canonical_bytes value_encode_to v)) (\<lambda>bs.
       map_err PE_Encode (commitment H domain bs))"

definition hash_precondition_value :: "hasher \<Rightarrow> Value \<Rightarrow> PatchError + hash32" where
  "hash_precondition_value H v = hash_value H VALUE v"

text \<open>The shared guard of \<^verbatim>\<open>Update\<close> and \<^verbatim>\<open>Delete\<close>: the value at the path has the expected hash.\<close>

definition check_old_value :: "hasher \<Rightarrow> Value \<Rightarrow> ValuePath \<Rightarrow> hash32 \<Rightarrow> PatchError + unit" where
  "check_old_value H current path expected =
     rbind (lookup current path) (\<lambda>old.
     rbind (hash_precondition_value H old) (\<lambda>actual.
       if actual \<noteq> expected then Err (PE_OldValueMismatch path expected actual) else Ok ()))"

fun apply_op :: "hasher \<Rightarrow> PatchOp \<Rightarrow> Value \<Rightarrow> PatchError + Value" where
  "apply_op H (PO_Insert path map_key v) current = insert_at current path map_key v"
| "apply_op H (PO_Update path expected v) current =
     rbind (check_old_value H current path expected) (\<lambda>_. replace_at current path v)"
| "apply_op H (PO_Delete path expected) current =
     rbind (check_old_value H current path expected) (\<lambda>_. delete_at current path)"

definition patch_apply :: "hasher \<Rightarrow> CanonicalPatch \<Rightarrow> Value \<Rightarrow> Domain \<Rightarrow> PatchError + AppliedPatch" where
  "patch_apply H p state state_domain =
     rbind (hash_value H state_domain state) (\<lambda>actual_pre_root.
       if actual_pre_root \<noteq> cp_expected_pre_root p
       then Err (PE_PreRootMismatch (cp_expected_pre_root p) actual_pre_root)
       else
       rbind (fold_res (apply_op H) (cp_operations p) state) (\<lambda>current.
       rbind (hash_value H state_domain current) (\<lambda>post_root.
         Ok \<lparr>ap_state = current, ap_post_root = post_root\<rparr>)))"

section \<open>Decoding\<close>

record PatchDecodeState =
  pst_value_nodes :: nat
  pst_value_payload_bytes :: nat

definition patch_take :: "nat \<Rightarrow> cursor \<Rightarrow> PatchDecodeError + bytes \<times> cursor" where
  "patch_take = cursor_take PD_LengthOverflow PD_UnexpectedEnd"

definition patch_take_u8 :: "cursor \<Rightarrow> PatchDecodeError + u8 \<times> cursor" where
  "patch_take_u8 c =
     rbind (patch_take 1 c) (\<lambda>(bs, c).
       case bs of b # _ \<Rightarrow> Ok (b, c) | [] \<Rightarrow> Err (PD_UnexpectedEnd (cur_offset c) 1))"

definition patch_take_u16 :: "cursor \<Rightarrow> PatchDecodeError + u16 \<times> cursor" where
  "patch_take_u16 = cursor_word patch_take 2"

definition patch_take_u32 :: "cursor \<Rightarrow> PatchDecodeError + u32 \<times> cursor" where
  "patch_take_u32 = cursor_word patch_take 4"

definition patch_take_hash32 :: "cursor \<Rightarrow> PatchDecodeError + hash32 \<times> cursor" where
  "patch_take_hash32 = cursor_word patch_take 32"

definition patch_take_blob :: "cursor \<Rightarrow> PatchDecodeError + bytes \<times> cursor" where
  "patch_take_blob c =
     rbind (patch_take_u32 c) (\<lambda>(n, c).
     rbind (ok_or (try_from usize_max (unat n)) PD_LengthOverflow) (\<lambda>n. patch_take n c))"

definition patch_collection_capacity :: "nat \<Rightarrow> nat \<Rightarrow> nat \<Rightarrow> PatchDecodeError + nat" where
  "patch_collection_capacity item_count remaining_wire_bytes minimum_wire_bytes_per_item =
     rbind (ok_or (try_from usize_max item_count) PD_LengthOverflow) (\<lambda>item_count.
     rbind (ok_or (checked_div remaining_wire_bytes minimum_wire_bytes_per_item)
       PD_LengthOverflow) (\<lambda>wire_bound. Ok (min item_count wire_bound)))"

definition decode_patch_value ::
    "bytes \<Rightarrow> PatchDecodeLimits \<Rightarrow> PatchDecodeState \<Rightarrow> PatchDecodeError + Value \<times> PatchDecodeState" where
  "decode_patch_value bs limits st =
     rbind (map_err PD_Value (decode_value bs (pl_value limits))) (\<lambda>v.
     rbind (map_err (\<lambda>e. PD_Value (DE_InvalidValue e)) (validate_limits v (dl_value (pl_value limits))))
       (\<lambda>metrics.
     rbind (ok_or (checked_add u64_max (pst_value_nodes st) (m_nodes metrics)) PD_LengthOverflow) (\<lambda>n.
     if n > pl_max_value_nodes limits then Err (PD_ValueNodeLimit (pl_max_value_nodes limits) n)
     else
     rbind (ok_or (checked_add u64_max (pst_value_payload_bytes st) (m_payload_bytes metrics))
       PD_LengthOverflow) (\<lambda>p.
     if p > pl_max_value_payload_bytes limits
     then Err (PD_ValuePayloadLimit (pl_max_value_payload_bytes limits) p)
     else Ok (v, \<lparr>pst_value_nodes = n, pst_value_payload_bytes = p\<rparr>)))))"

definition decode_segment ::
    "PatchDecodeLimits \<Rightarrow> cursor \<Rightarrow> PatchDecodeState \<Rightarrow>
       PatchDecodeError + PathSegment \<times> cursor \<times> PatchDecodeState" where
  "decode_segment limits c st =
     rbind (patch_take_u8 c) (\<lambda>(tag, c).
       if tag = 0 then rbind (patch_take_u16 c) (\<lambda>(i, c). Ok (PS_Field i, c, st))
       else if tag = 1 then rbind (patch_take_u32 c) (\<lambda>(i, c). Ok (PS_TupleIndex i, c, st))
       else if tag = 2 then rbind (patch_take_u32 c) (\<lambda>(i, c). Ok (PS_VectorIndex i, c, st))
       else if tag = 3 then Ok (PS_SumPayload, c, st)
       else if tag = 4 then
         rbind (patch_take_blob c) (\<lambda>(k, c).
         rbind (ok_or (try_from u64_max (length k)) PD_LengthOverflow) (\<lambda>actual.
         if actual > pl_max_map_key_bytes limits
         then Err (PD_MapKeyLimit (pl_max_map_key_bytes limits) actual)
         else rbind (decode_patch_value k limits st) (\<lambda>(_, st). Ok (PS_MapKey k, c, st))))
       else Err (PD_UnknownPathTag tag))"

definition decode_value_path ::
    "bytes \<Rightarrow> PatchDecodeLimits \<Rightarrow> PatchDecodeState \<Rightarrow> PatchDecodeError + ValuePath \<times> PatchDecodeState" where
  "decode_value_path bs limits st =
     rbind (patch_take_u32 (cursor_new bs)) (\<lambda>(n, c).
     if unat n > pl_max_path_segments limits
     then Err (PD_PathSegmentLimit (pl_max_path_segments limits) (unat n))
     else
     rbind (patch_collection_capacity (unat n) (cursor_remaining c) 1) (\<lambda>_.
     rbind (decode_times (unat n) (decode_segment limits) c st) (\<lambda>(segments, c, st).
     if cursor_remaining c \<noteq> 0 then Err (PD_TrailingBytes (cur_offset c))
     else Ok (segments, st))))"

definition decode_patch_operation ::
    "bytes \<Rightarrow> PatchDecodeLimits \<Rightarrow> PatchDecodeState \<Rightarrow> PatchDecodeError + PatchOp \<times> PatchDecodeState" where
  "decode_patch_operation bs limits st =
     rbind (patch_take_u8 (cursor_new bs)) (\<lambda>(tag, c).
     if tag \<noteq> 0 \<and> tag \<noteq> 1 \<and> tag \<noteq> 2 then Err (PD_UnknownOperationTag tag)
     else
     rbind (patch_take_blob c) (\<lambda>(p, c).
     rbind (decode_value_path p limits st) (\<lambda>(path, st).
     rbind (if tag = 0 then
              rbind (patch_take_u8 c) (\<lambda>(flag, c).
              rbind (if flag = 0 then Ok (None, c, st)
                     else if flag = 1 then
                       rbind (patch_take_blob c) (\<lambda>(k, c).
                       rbind (decode_patch_value k limits st) (\<lambda>(k, st). Ok (Some k, c, st)))
                     else Err (PD_InvalidMapKeyFlag flag)) (\<lambda>(map_key, c, st).
              rbind (patch_take_blob c) (\<lambda>(v, c).
              rbind (decode_patch_value v limits st) (\<lambda>(v, st).
                Ok (PO_Insert path map_key v, c, st)))))
            else if tag = 1 then
              rbind (patch_take_hash32 c) (\<lambda>(expected, c).
              rbind (patch_take_blob c) (\<lambda>(v, c).
              rbind (decode_patch_value v limits st) (\<lambda>(v, st).
                Ok (PO_Update path expected v, c, st))))
            else rbind (patch_take_hash32 c) (\<lambda>(expected, c). Ok (PO_Delete path expected, c, st)))
       (\<lambda>(op, c, st).
     if cursor_remaining c \<noteq> 0 then Err (PD_TrailingBytes (cur_offset c))
     else Ok (op, st)))))"

definition decode_canonical_patch ::
    "bytes \<Rightarrow> PatchDecodeLimits \<Rightarrow> PatchDecodeError + CanonicalPatch" where
  "decode_canonical_patch bs limits =
     rbind (ok_or (try_from u64_max (length bs)) PD_LengthOverflow) (\<lambda>actual_input.
     if actual_input > pl_max_input_bytes limits
     then Err (PD_InputLimit (pl_max_input_bytes limits) actual_input)
     else
     rbind (patch_take_u32 (cursor_new bs)) (\<lambda>(state_type, c).
     rbind (patch_take_hash32 c) (\<lambda>(expected_pre_root, c).
     rbind (patch_take_u32 c) (\<lambda>(operation_count, c).
     if unat operation_count > pl_max_operations limits
     then Err (PD_OperationLimit (pl_max_operations limits) (unat operation_count))
     else
     rbind (patch_collection_capacity (unat operation_count) (cursor_remaining c) 4) (\<lambda>_.
     rbind (decode_times (unat operation_count)
         (\<lambda>c st. rbind (patch_take_blob c) (\<lambda>(encoded, c).
                 rbind (decode_patch_operation encoded limits st) (\<lambda>(op, st). Ok (op, c, st))))
         c \<lparr>pst_value_nodes = 0, pst_value_payload_bytes = 0\<rparr>) (\<lambda>(operations, c, _).
     if cursor_remaining c \<noteq> 0 then Err (PD_TrailingBytes (cur_offset c))
     else
     rbind (map_err PD_Patch (patch_try_new state_type expected_pre_root operations)) (\<lambda>p.
     rbind (map_err PD_Encode (patch_canonical_bytes p)) (\<lambda>encoded.
     if encoded \<noteq> bs then Err PD_NonCanonical else Ok p))))))))"

end
