(* ===== verification/Zeno_Auth.thy ===== *)
theory Zeno_Auth
  imports Zeno_Merkle Zeno_Patch
begin

text \<open>
  \<^verbatim>\<open>zeno-fcis-authenticated\<close>: a versioned sparse Merkle tree of fixed depth over the logical leaves
  that a projector reads off a state, membership and absence proofs, update plans bound to a semantic
  patch, and the canonical formats of plans and proofs.

  Keys are hashes.  A \<^verbatim>\<open>BTreeMap\<close> from keys to values is the list of its entries in increasing order of the
  keys.  The projector is a parameter; the hasher is the one of \<^verbatim>\<open>RustCryptoSha256\<close>.
\<close>

unbundle bit_operations_syntax

section \<open>Data\<close>

definition MAX_REFERENCE_LEAVES :: nat where
  "MAX_REFERENCE_LEAVES = 4096"

definition AUTHENTICATED_PLAN_ENCODING_VERSION :: u16 where
  "AUTHENTICATED_PLAN_ENCODING_VERSION = 2"

definition SPARSE_PROOF_ENCODING_VERSION :: u16 where
  "SPARSE_PROOF_ENCODING_VERSION = 1"

definition TREE_DEPTH :: nat where
  "TREE_DEPTH = 256"

datatype AuthError =
    AE_ZeroIdentity
  | AE_ZeroSemanticRoot
  | AE_DuplicateLeafKey
  | AE_TooManyLeaves
  | AE_ProjectionMismatch
  | AE_ProjectorMismatch
  | AE_ProfileMismatch
  | AE_VersionConflict
  | AE_RootConflict
  | AE_PostRootMismatch
  | AE_VersionOverflow
  | AE_ProofLength
  | AE_ProofProfileMismatch
  | AE_ProofVersionMismatch
  | AE_ProofRootMismatch
  | AE_ProofKeyMismatch
  | AE_InvalidProof
  | AE_Patch PatchError
  | AE_Encode EncodeError

datatype AuthDecodeError =
    AD_InputLimit nat nat
  | AD_WriteLimit nat nat
  | AD_StaleNodeLimit nat nat
  | AD_LengthOverflow
  | AD_UnexpectedEnd nat nat
  | AD_TrailingBytes nat
  | AD_VersionMismatch u16 u16
  | AD_ZeroProfileIdentity
  | AD_NonSuccessorVersion
  | AD_StaleVersionMismatch
  | AD_UnknownWriteTag u8
  | AD_UnknownProofLeafTag u8
  | AD_NonCanonicalWriteOrder
  | AD_NonCanonicalStaleOrder
  | AD_StaleKeyNotWritten
  | AD_ProofLength nat nat
  | AD_Value DecodeError
  | AD_Encode EncodeError
  | AD_NonCanonical

record AuthenticatedDecodeLimits =
  adl_max_input_bytes :: nat
  adl_max_writes :: nat
  adl_max_stale_nodes :: nat
  adl_value :: DecodeLimits

definition default_authenticated_decode_limits :: AuthenticatedDecodeLimits where
  "default_authenticated_decode_limits =
     \<lparr>adl_max_input_bytes = 4 * 1024 * 1024, adl_max_writes = MAX_REFERENCE_LEAVES,
      adl_max_stale_nodes = MAX_REFERENCE_LEAVES, adl_value = default_decode_limits\<rparr>"

record AuthenticatedProfile =
  apr_tree_id :: hash32
  apr_profile_hash :: hash32
  apr_projector_hash :: hash32

definition profile_try_new :: "hash32 \<Rightarrow> hash32 \<Rightarrow> hash32 \<Rightarrow> AuthError + AuthenticatedProfile" where
  "profile_try_new tree_id profile_hash projector_hash =
     (if tree_id = 0 \<or> profile_hash = 0 \<or> projector_hash = 0 then Err AE_ZeroIdentity
      else Ok \<lparr>apr_tree_id = tree_id, apr_profile_hash = profile_hash, apr_projector_hash = projector_hash\<rparr>)"

definition profile_encode_to :: "AuthenticatedProfile \<Rightarrow> bytes \<Rightarrow> bytes" where
  "profile_encode_to p output = output @ be_bytes 32 (apr_tree_id p) @ be_bytes 32 (apr_profile_hash p) @ be_bytes 32 (apr_projector_hash p)"

text \<open>The project's projector, with the identity that it declares.\<close>

record StateProjector =
  pj_declared_hash :: hash32
  pj_project :: "Value \<Rightarrow> AuthError + (hash32 \<times> Value) list"

type_synonym Leaves = "(hash32 \<times> Value) list"

text \<open>\<^verbatim>\<open>BTreeMap::insert\<close> and \<^verbatim>\<open>BTreeMap::get\<close>.\<close>

fun btree_insert :: "hash32 \<Rightarrow> 'v \<Rightarrow> (hash32 \<times> 'v) list \<Rightarrow> 'v option \<times> (hash32 \<times> 'v) list" where
  "btree_insert k v [] = (None, [(k, v)])"
| "btree_insert k v ((k', v') # xs) =
     (if k < k' then (None, (k, v) # (k', v') # xs)
      else if k = k' then (Some v', (k, v) # xs)
      else (let (old, xs) = btree_insert k v xs in (old, (k', v') # xs)))"

definition btree_get :: "(hash32 \<times> 'v) list \<Rightarrow> hash32 \<Rightarrow> 'v option" where
  "btree_get m k = map_of m k"

datatype LeafWrite = LW_Put hash32 Value | LW_Delete hash32

fun write_key :: "LeafWrite \<Rightarrow> hash32" where
  "write_key (LW_Put key _) = key"
| "write_key (LW_Delete key) = key"

type_synonym NodeBatch = "LeafWrite list"

definition batch_from_maps :: "Leaves \<Rightarrow> Leaves \<Rightarrow> NodeBatch" where
  "batch_from_maps before after =
     (let old_writes = concat (map (\<lambda>(key, old). case btree_get after key of
              None \<Rightarrow> [LW_Delete key]
            | Some new \<Rightarrow> if new \<noteq> old then [LW_Put key new] else []) before);
          new_writes = concat (map (\<lambda>(key, v). if btree_get before key = None then [LW_Put key v] else []) after)
      in sort_key write_key (old_writes @ new_writes))"

record StaleNodeCandidate =
  sn_stale_since_version :: u64
  sn_key :: hash32
  sn_old_leaf_hash :: hash32

record DecodedAuthenticatedPlan =
  dap_profile :: AuthenticatedProfile
  dap_expected_version :: u64
  dap_next_version :: u64
  dap_semantic_pre_root :: hash32
  dap_semantic_post_root :: hash32
  dap_patch_hash :: hash32
  dap_authenticated_pre_root :: hash32
  dap_authenticated_post_root :: hash32
  dap_node_batch :: NodeBatch
  dap_stale_nodes :: "StaleNodeCandidate list"

text \<open>A plan that can be applied keeps the leaves after it as well.\<close>

record PlannedAuthenticatedCommit = DecodedAuthenticatedPlan +
  pac_post_leaves :: Leaves

record PlannedState =
  pst_semantic_post_state :: Value
  pst_authenticated :: PlannedAuthenticatedCommit

datatype ProofLeaf = PF_Membership Value | PF_Absence

record SparseProof =
  sp_profile :: AuthenticatedProfile
  sp_version :: u64
  sp_root :: hash32
  sp_key :: hash32
  sp_leaf :: ProofLeaf
  sp_siblings :: "hash32 list"

record SparseProofContext =
  spc_profile :: AuthenticatedProfile
  spc_version :: u64
  spc_root :: hash32
  spc_key :: hash32

record ContextVerifiedSparseProof =
  cvp_context :: SparseProofContext
  cvp_leaf :: ProofLeaf

record ReferenceSparseTree =
  rst_profile :: AuthenticatedProfile
  rst_version :: u64
  rst_root :: hash32
  rst_leaves :: Leaves

section \<open>Hashes\<close>

definition auth_put_length :: "bytes \<Rightarrow> nat \<Rightarrow> EncodeError + bytes" where
  "auth_put_length output n =
     rbind (ok_or (try_from u32_max n) EE_LengthOverflow) (\<lambda>n. Ok (output @ be_bytes 4 (of_nat n :: u32)))"

definition auth_put_blob :: "bytes \<Rightarrow> bytes \<Rightarrow> EncodeError + bytes" where
  "auth_put_blob output bs = rbind (auth_put_length output (length bs)) (\<lambda>output. Ok (output @ bs))"

definition hash_bytes :: "hasher \<Rightarrow> Domain \<Rightarrow> bytes \<Rightarrow> AuthError + hash32" where
  "hash_bytes H domain bs = map_err AE_Encode (commitment H domain bs)"

definition hash_canonical :: "hasher \<Rightarrow> Domain \<Rightarrow> EncodeError + bytes \<Rightarrow> AuthError + hash32" where
  "hash_canonical H domain r = rbind (map_err AE_Encode r) (hash_bytes H domain)"

definition auth_leaf_hash :: "hasher \<Rightarrow> hash32 \<Rightarrow> Value \<Rightarrow> AuthError + hash32" where
  "auth_leaf_hash H key v =
     rbind (map_err AE_Encode (canonical_bytes value_encode_to v)) (\<lambda>encoded.
     rbind (map_err AE_Encode (auth_put_blob (be_bytes 32 key) encoded)) (hash_bytes H AUTH_LEAF))"

definition auth_node_hash :: "hasher \<Rightarrow> hash32 \<Rightarrow> hash32 \<Rightarrow> AuthError + hash32" where
  "auth_node_hash H left right = hash_bytes H AUTH_NODE (be_bytes 32 left @ be_bytes 32 right)"

text \<open>The array of empty subtrees, filled from the leaves to the root.\<close>

definition empty_hashes :: "hasher \<Rightarrow> AuthError + hash32 list" where
  "empty_hashes H =
     rbind (hash_bytes H AUTH_EMPTY (ascii_bytes ''leaf'')) (\<lambda>leaf.
       fold_res (\<lambda>depth hashes. rbind (auth_node_hash H (hashes ! (depth + 1)) (hashes ! (depth + 1))) (\<lambda>h. Ok (hashes[depth := h])))
         (rev [0..<TREE_DEPTH]) ((replicate (TREE_DEPTH + 1) 0)[TREE_DEPTH := leaf]))"

definition auth_key_bit :: "hash32 \<Rightarrow> nat \<Rightarrow> u8" where
  "auth_key_bit key depth = drop_bit (7 - depth mod 8) (be_bytes 32 key ! (depth div 8)) AND 1"

definition hashed_leaves :: "hasher \<Rightarrow> Leaves \<Rightarrow> AuthError + (hash32 \<times> hash32) list" where
  "hashed_leaves H leaves = map_res (\<lambda>(key, v). rbind (auth_leaf_hash H key v) (\<lambda>h. Ok (key, h))) leaves"

text \<open>The depth starts at 0 and grows by one, so it meets the last depth before it could pass it.\<close>

function subtree_hash :: "hasher \<Rightarrow> (hash32 \<times> hash32) list \<Rightarrow> nat \<Rightarrow> hash32 list \<Rightarrow> AuthError + hash32" where
  "subtree_hash H leaves depth empties =
     (if leaves = [] then Ok (empties ! depth)
      else if depth \<ge> TREE_DEPTH then (if length leaves = 1 then Ok (snd (leaves ! 0)) else Err AE_DuplicateLeafKey)
      else
      let split = partition_point (\<lambda>(key, _). auth_key_bit key depth = 0) leaves in
      rbind (subtree_hash H (take split leaves) (depth + 1) empties) (\<lambda>left.
      rbind (subtree_hash H (drop split leaves) (depth + 1) empties) (\<lambda>right.
        auth_node_hash H left right)))"
  by pat_completeness auto
termination subtree_hash
  by (relation "measure (\<lambda>(_, _, depth, _). TREE_DEPTH - depth)") auto

declare subtree_hash.simps [simp del]

function proof_siblings ::
    "hasher \<Rightarrow> (hash32 \<times> hash32) list \<Rightarrow> hash32 \<Rightarrow> nat \<Rightarrow> hash32 list \<Rightarrow> hash32 list \<Rightarrow> AuthError + hash32 list" where
  "proof_siblings H leaves key depth empties siblings =
     (if depth \<ge> TREE_DEPTH then Ok siblings
      else
      let split = partition_point (\<lambda>(candidate, _). auth_key_bit candidate depth = 0) leaves;
          left = take split leaves; right = drop split leaves in
      if auth_key_bit key depth = 0 then
        rbind (subtree_hash H right (depth + 1) empties) (\<lambda>h. proof_siblings H left key (depth + 1) empties (siblings @ [h]))
      else
        rbind (subtree_hash H left (depth + 1) empties) (\<lambda>h. proof_siblings H right key (depth + 1) empties (siblings @ [h])))"
  by pat_completeness auto
termination proof_siblings
  by (relation "measure (\<lambda>(_, _, _, depth, _, _). TREE_DEPTH - depth)") auto

declare proof_siblings.simps [simp del]

section \<open>The reference tree\<close>

definition projected_map :: "Leaves \<Rightarrow> AuthError + Leaves" where
  "projected_map leaves =
     (if length leaves > MAX_REFERENCE_LEAVES then Err AE_TooManyLeaves
      else fold_res (\<lambda>(key, v) m. let (old, m) = btree_insert key v m in
        if old \<noteq> None then Err AE_DuplicateLeafKey else Ok m) leaves [])"

definition tree_from_map :: "hasher \<Rightarrow> AuthenticatedProfile \<Rightarrow> u64 \<Rightarrow> Leaves \<Rightarrow> AuthError + ReferenceSparseTree" where
  "tree_from_map H profile version leaves =
     (if length leaves > MAX_REFERENCE_LEAVES then Err AE_TooManyLeaves
      else
      rbind (hashed_leaves H leaves) (\<lambda>hashed.
      rbind (empty_hashes H) (\<lambda>empties.
      rbind (subtree_hash H hashed 0 empties) (\<lambda>root.
        Ok \<lparr>rst_profile = profile, rst_version = version, rst_root = root, rst_leaves = leaves\<rparr>))))"

definition tree_try_new :: "hasher \<Rightarrow> AuthenticatedProfile \<Rightarrow> u64 \<Rightarrow> Leaves \<Rightarrow> AuthError + ReferenceSparseTree" where
  "tree_try_new H profile version leaves = rbind (projected_map leaves) (tree_from_map H profile version)"

definition tree_get :: "ReferenceSparseTree \<Rightarrow> hash32 \<Rightarrow> Value option" where
  "tree_get t key = btree_get (rst_leaves t) key"

definition tree_prove :: "hasher \<Rightarrow> ReferenceSparseTree \<Rightarrow> hash32 \<Rightarrow> AuthError + SparseProof" where
  "tree_prove H t key =
     rbind (hashed_leaves H (rst_leaves t)) (\<lambda>hashed.
     rbind (empty_hashes H) (\<lambda>empties.
     rbind (proof_siblings H hashed key 0 empties []) (\<lambda>siblings.
       Ok \<lparr>sp_profile = rst_profile t, sp_version = rst_version t, sp_root = rst_root t, sp_key = key,
         sp_leaf = (case btree_get (rst_leaves t) key of Some v \<Rightarrow> PF_Membership v | None \<Rightarrow> PF_Absence),
         sp_siblings = siblings\<rparr>)))"

definition tree_apply_plan :: "hasher \<Rightarrow> ReferenceSparseTree \<Rightarrow> PlannedAuthenticatedCommit \<Rightarrow> AuthError + ReferenceSparseTree" where
  "tree_apply_plan H t plan =
     (if rst_profile t \<noteq> dap_profile plan then Err AE_ProfileMismatch
      else if rst_version t \<noteq> dap_expected_version plan then Err AE_VersionConflict
      else if rst_root t \<noteq> dap_authenticated_pre_root plan then Err AE_RootConflict
      else
      rbind (tree_from_map H (dap_profile plan) (dap_next_version plan) (pac_post_leaves plan)) (\<lambda>rebuilt.
        if rst_root rebuilt \<noteq> dap_authenticated_post_root plan then Err AE_PostRootMismatch else Ok rebuilt))"

section \<open>Verification\<close>

definition recompute_root :: "hasher \<Rightarrow> SparseProof \<Rightarrow> AuthError + hash32" where
  "recompute_root H p =
     (if length (sp_siblings p) \<noteq> TREE_DEPTH then Err AE_ProofLength
      else
      rbind (empty_hashes H) (\<lambda>empties.
      rbind (case sp_leaf p of PF_Membership v \<Rightarrow> auth_leaf_hash H (sp_key p) v | PF_Absence \<Rightarrow> Ok (empties ! TREE_DEPTH)) (\<lambda>current.
        fold_res (\<lambda>depth current.
            if auth_key_bit (sp_key p) depth = 0 then auth_node_hash H current (sp_siblings p ! depth)
            else auth_node_hash H (sp_siblings p ! depth) current)
          (rev [0..<TREE_DEPTH]) current)))"

definition verify_internal_consistency :: "hasher \<Rightarrow> SparseProof \<Rightarrow> AuthError + bool" where
  "verify_internal_consistency H p = rbind (recompute_root H p) (\<lambda>root. Ok (root = sp_root p))"

definition verify_against :: "hasher \<Rightarrow> SparseProof \<Rightarrow> SparseProofContext \<Rightarrow> AuthError + ContextVerifiedSparseProof" where
  "verify_against H p expected =
     (if sp_profile p \<noteq> spc_profile expected then Err AE_ProofProfileMismatch
      else if sp_version p \<noteq> spc_version expected then Err AE_ProofVersionMismatch
      else if sp_root p \<noteq> spc_root expected then Err AE_ProofRootMismatch
      else if sp_key p \<noteq> spc_key expected then Err AE_ProofKeyMismatch
      else rbind (recompute_root H p) (\<lambda>root.
        if root \<noteq> spc_root expected then Err AE_InvalidProof
        else Ok \<lparr>cvp_context = expected, cvp_leaf = sp_leaf p\<rparr>))"

section \<open>Planning\<close>

record AuthenticatedStatePlanner =
  asp_profile :: AuthenticatedProfile
  asp_projector :: StateProjector

definition planner_try_new :: "AuthenticatedProfile \<Rightarrow> StateProjector \<Rightarrow> AuthError + AuthenticatedStatePlanner" where
  "planner_try_new profile projector =
     (if pj_declared_hash projector \<noteq> apr_projector_hash profile then Err AE_ProjectorMismatch
      else Ok \<lparr>asp_profile = profile, asp_projector = projector\<rparr>)"

definition stale_candidates :: "hasher \<Rightarrow> u64 \<Rightarrow> Leaves \<Rightarrow> NodeBatch \<Rightarrow> AuthError + StaleNodeCandidate list" where
  "stale_candidates H version before writes =
     fold_res (\<lambda>write stale_nodes.
       case btree_get before (write_key write) of
         None \<Rightarrow> Ok stale_nodes
       | Some old \<Rightarrow> rbind (auth_leaf_hash H (write_key write) old) (\<lambda>h.
           Ok (stale_nodes @ [\<lparr>sn_stale_since_version = version, sn_key = write_key write, sn_old_leaf_hash = h\<rparr>])))
       writes []"

definition plan_authenticated_update ::
    "hasher \<Rightarrow> Value \<Rightarrow> Domain \<Rightarrow> CanonicalPatch \<Rightarrow> ReferenceSparseTree \<Rightarrow> StateProjector \<Rightarrow> AuthError + PlannedState" where
  "plan_authenticated_update H pre_state state_domain patch t projector =
     rbind (rbind (pj_project projector pre_state) projected_map) (\<lambda>before.
     if before \<noteq> rst_leaves t then Err AE_ProjectionMismatch
     else if cp_expected_pre_root patch = 0 then Err AE_ZeroSemanticRoot
     else
     rbind (map_err AE_Patch (patch_apply H patch pre_state state_domain)) (\<lambda>applied.
     rbind (rbind (pj_project projector (ap_state applied)) projected_map) (\<lambda>after.
     rbind (ok_or (checked_add u64_max (unat (rst_version t)) 1) AE_VersionOverflow) (\<lambda>n.
     let next_version = of_nat n in
     rbind (tree_from_map H (rst_profile t) next_version after) (\<lambda>rebuilt.
     let node_batch = batch_from_maps before after in
     rbind (stale_candidates H (rst_version t) before node_batch) (\<lambda>stale_nodes.
     rbind (hash_canonical H AUTH_PATCH (patch_canonical_bytes patch)) (\<lambda>patch_hash.
       Ok \<lparr>pst_semantic_post_state = ap_state applied,
         pst_authenticated =
           \<lparr>dap_profile = rst_profile t, dap_expected_version = rst_version t, dap_next_version = next_version,
            dap_semantic_pre_root = cp_expected_pre_root patch, dap_semantic_post_root = ap_post_root applied,
            dap_patch_hash = patch_hash, dap_authenticated_pre_root = rst_root t, dap_authenticated_post_root = rst_root rebuilt,
            dap_node_batch = node_batch, dap_stale_nodes = stale_nodes, pac_post_leaves = after\<rparr>\<rparr>)))))))"

definition planner_plan ::
    "hasher \<Rightarrow> AuthenticatedStatePlanner \<Rightarrow> Value \<Rightarrow> Domain \<Rightarrow> CanonicalPatch \<Rightarrow> ReferenceSparseTree \<Rightarrow> AuthError + PlannedState" where
  "planner_plan H planner pre_state state_domain patch t =
     (if rst_profile t \<noteq> asp_profile planner then Err AE_ProfileMismatch
      else if pj_declared_hash (asp_projector planner) \<noteq> apr_projector_hash (asp_profile planner) then Err AE_ProjectorMismatch
      else plan_authenticated_update H pre_state state_domain patch t (asp_projector planner))"

section \<open>Canonical formats\<close>

definition batch_encode_to :: "NodeBatch \<Rightarrow> bytes \<Rightarrow> EncodeError + bytes" where
  "batch_encode_to writes output =
     rbind (auth_put_length output (length writes)) (\<lambda>output.
       fold_res (\<lambda>write output. case write of
           LW_Put key v \<Rightarrow> rbind (canonical_bytes value_encode_to v) (\<lambda>encoded. auth_put_blob (output @ [0] @ be_bytes 32 key) encoded)
         | LW_Delete key \<Rightarrow> Ok (output @ [1] @ be_bytes 32 key)) writes output)"

definition batch_canonical_bytes :: "NodeBatch \<Rightarrow> EncodeError + bytes" where
  "batch_canonical_bytes writes = batch_encode_to writes []"

definition auth_plan_encode_to :: "'a DecodedAuthenticatedPlan_scheme \<Rightarrow> bytes \<Rightarrow> EncodeError + bytes" where
  "auth_plan_encode_to p output =
     (let output = profile_encode_to (dap_profile p) (output @ be_bytes 2 AUTHENTICATED_PLAN_ENCODING_VERSION)
            @ be_bytes 8 (dap_expected_version p) @ be_bytes 8 (dap_next_version p)
            @ concat (map (be_bytes 32) [dap_semantic_pre_root p, dap_semantic_post_root p, dap_patch_hash p,
                dap_authenticated_pre_root p, dap_authenticated_post_root p]) in
      rbind (batch_canonical_bytes (dap_node_batch p)) (\<lambda>encoded.
      rbind (auth_put_blob output encoded) (\<lambda>output.
      rbind (auth_put_length output (length (dap_stale_nodes p))) (\<lambda>output.
        Ok (output @ concat (map (\<lambda>s. be_bytes 8 (sn_stale_since_version s) @ be_bytes 32 (sn_key s)
          @ be_bytes 32 (sn_old_leaf_hash s)) (dap_stale_nodes p)))))))"

definition auth_plan_canonical_bytes :: "'a DecodedAuthenticatedPlan_scheme \<Rightarrow> EncodeError + bytes" where
  "auth_plan_canonical_bytes p = auth_plan_encode_to p []"

definition proof_encode_to :: "SparseProof \<Rightarrow> bytes \<Rightarrow> EncodeError + bytes" where
  "proof_encode_to p output =
     (let output = profile_encode_to (sp_profile p) (output @ be_bytes 2 SPARSE_PROOF_ENCODING_VERSION)
            @ be_bytes 8 (sp_version p) @ be_bytes 32 (sp_root p) @ be_bytes 32 (sp_key p) in
      rbind (case sp_leaf p of
          PF_Absence \<Rightarrow> Ok (output @ [0])
        | PF_Membership v \<Rightarrow> rbind (canonical_bytes value_encode_to v) (auth_put_blob (output @ [1]))) (\<lambda>output.
      rbind (auth_put_length output (length (sp_siblings p))) (\<lambda>output.
        Ok (output @ concat (map (be_bytes 32) (sp_siblings p))))))"

definition proof_canonical_bytes :: "SparseProof \<Rightarrow> EncodeError + bytes" where
  "proof_canonical_bytes p = proof_encode_to p []"

section \<open>Decoding\<close>

definition auth_take :: "nat \<Rightarrow> cursor \<Rightarrow> AuthDecodeError + bytes \<times> cursor" where
  "auth_take = cursor_take AD_LengthOverflow AD_UnexpectedEnd"

definition auth_take_u8 :: "cursor \<Rightarrow> AuthDecodeError + u8 \<times> cursor" where
  "auth_take_u8 = cursor_word auth_take 1"

definition auth_take_u16 :: "cursor \<Rightarrow> AuthDecodeError + u16 \<times> cursor" where
  "auth_take_u16 = cursor_word auth_take 2"

definition auth_take_u32 :: "cursor \<Rightarrow> AuthDecodeError + u32 \<times> cursor" where
  "auth_take_u32 = cursor_word auth_take 4"

definition auth_take_u64 :: "cursor \<Rightarrow> AuthDecodeError + u64 \<times> cursor" where
  "auth_take_u64 = cursor_word auth_take 8"

definition auth_take_hash32 :: "cursor \<Rightarrow> AuthDecodeError + hash32 \<times> cursor" where
  "auth_take_hash32 = cursor_word auth_take 32"

text \<open>The length is a \<^verbatim>\<open>u32\<close>, which fits a \<^verbatim>\<open>usize\<close>.\<close>

definition auth_take_blob :: "cursor \<Rightarrow> AuthDecodeError + bytes \<times> cursor" where
  "auth_take_blob = cursor_blob auth_take"

definition auth_bounded_capacity :: "nat \<Rightarrow> nat \<Rightarrow> nat \<Rightarrow> AuthDecodeError + nat" where
  "auth_bounded_capacity item_count remaining_wire_bytes minimum_wire_bytes_per_item =
     rbind (ok_or (try_from usize_max item_count) AD_LengthOverflow) (\<lambda>item_count.
     rbind (ok_or (checked_div remaining_wire_bytes minimum_wire_bytes_per_item) AD_LengthOverflow) (\<lambda>wire_bound.
       Ok (min item_count wire_bound)))"

definition enforce_authenticated_input_limit :: "bytes \<Rightarrow> AuthenticatedDecodeLimits \<Rightarrow> AuthDecodeError + unit" where
  "enforce_authenticated_input_limit bs limits =
     rbind (ok_or (try_from u64_max (length bs)) AD_LengthOverflow) (\<lambda>actual.
       if actual > adl_max_input_bytes limits then Err (AD_InputLimit (adl_max_input_bytes limits) actual) else Ok ())"

definition require_complete :: "cursor \<Rightarrow> AuthDecodeError + unit" where
  "require_complete c = (if cursor_remaining c = 0 then Ok () else Err (AD_TrailingBytes (cur_offset c)))"

definition require_canonical :: "bytes \<Rightarrow> EncodeError + bytes \<Rightarrow> AuthDecodeError + unit" where
  "require_canonical bs r =
     rbind (map_err AD_Encode r) (\<lambda>canonical. if canonical = bs then Ok () else Err AD_NonCanonical)"

definition decode_profile :: "cursor \<Rightarrow> AuthDecodeError + AuthenticatedProfile \<times> cursor" where
  "decode_profile c =
     rbind (auth_take_hash32 c) (\<lambda>(tree_id, c).
     rbind (auth_take_hash32 c) (\<lambda>(profile_hash, c).
     rbind (auth_take_hash32 c) (\<lambda>(projector_hash, c).
     rbind (map_err (\<lambda>_. AD_ZeroProfileIdentity) (profile_try_new tree_id profile_hash projector_hash)) (\<lambda>profile.
       Ok (profile, c)))))"

definition decode_authenticated_value :: "bytes \<Rightarrow> AuthenticatedDecodeLimits \<Rightarrow> AuthDecodeError + Value" where
  "decode_authenticated_value bs limits = map_err AD_Value (decode_value bs (adl_value limits))"

text \<open>One round of the loop over the writes; the state is the key of the write before.\<close>

definition decode_write :: "AuthenticatedDecodeLimits \<Rightarrow> cursor \<Rightarrow> hash32 option \<Rightarrow> AuthDecodeError + LeafWrite \<times> cursor \<times> hash32 option" where
  "decode_write limits c previous_key =
     rbind (auth_take_u8 c) (\<lambda>(tag, c).
     rbind (auth_take_hash32 c) (\<lambda>(key, c).
     if (case previous_key of Some previous \<Rightarrow> previous \<ge> key | None \<Rightarrow> False) then Err AD_NonCanonicalWriteOrder
     else if tag = 0 then
       rbind (auth_take_blob c) (\<lambda>(encoded, c).
       rbind (decode_authenticated_value encoded limits) (\<lambda>v. Ok (LW_Put key v, c, Some key)))
     else if tag = 1 then Ok (LW_Delete key, c, Some key)
     else Err (AD_UnknownWriteTag tag)))"

definition decode_node_batch :: "bytes \<Rightarrow> AuthenticatedDecodeLimits \<Rightarrow> AuthDecodeError + NodeBatch" where
  "decode_node_batch bs limits =
     rbind (auth_take_u32 (cursor_new bs)) (\<lambda>(n, c).
     if unat n > adl_max_writes limits then Err (AD_WriteLimit (adl_max_writes limits) (unat n))
     else
     rbind (auth_bounded_capacity (unat n) (cursor_remaining c) 33) (\<lambda>_.
     rbind (decode_times (unat n) (decode_write limits) c None) (\<lambda>(writes, c, _).
     rbind (require_complete c) (\<lambda>_.
     rbind (require_canonical bs (batch_canonical_bytes writes)) (\<lambda>_. Ok writes)))))"

definition decode_stale ::
    "u64 \<Rightarrow> NodeBatch \<Rightarrow> cursor \<Rightarrow> hash32 option \<Rightarrow> AuthDecodeError + StaleNodeCandidate \<times> cursor \<times> hash32 option" where
  "decode_stale expected_version node_batch c previous_key =
     rbind (auth_take_u64 c) (\<lambda>(stale_since_version, c).
     if stale_since_version \<noteq> expected_version then Err AD_StaleVersionMismatch
     else
     rbind (auth_take_hash32 c) (\<lambda>(key, c).
     if (case previous_key of Some previous \<Rightarrow> previous \<ge> key | None \<Rightarrow> False) then Err AD_NonCanonicalStaleOrder
     else (case binary_search_by_key write_key key node_batch of
       Inl _ \<Rightarrow> Err AD_StaleKeyNotWritten
     | Inr _ \<Rightarrow>
         rbind (auth_take_hash32 c) (\<lambda>(old_leaf_hash, c).
           Ok (\<lparr>sn_stale_since_version = stale_since_version, sn_key = key, sn_old_leaf_hash = old_leaf_hash\<rparr>, c, Some key)))))"

definition decode_authenticated_plan :: "bytes \<Rightarrow> AuthenticatedDecodeLimits \<Rightarrow> AuthDecodeError + DecodedAuthenticatedPlan" where
  "decode_authenticated_plan bs limits =
     rbind (enforce_authenticated_input_limit bs limits) (\<lambda>_.
     rbind (auth_take_u16 (cursor_new bs)) (\<lambda>(format, c).
     if format \<noteq> AUTHENTICATED_PLAN_ENCODING_VERSION then Err (AD_VersionMismatch AUTHENTICATED_PLAN_ENCODING_VERSION format)
     else
     rbind (decode_profile c) (\<lambda>(profile, c).
     rbind (auth_take_u64 c) (\<lambda>(expected_version, c).
     rbind (auth_take_u64 c) (\<lambda>(next_version, c).
     if checked_add u64_max (unat expected_version) 1 \<noteq> Some (unat next_version) then Err AD_NonSuccessorVersion
     else
     rbind (auth_take_hash32 c) (\<lambda>(semantic_pre_root, c).
     rbind (auth_take_hash32 c) (\<lambda>(semantic_post_root, c).
     rbind (auth_take_hash32 c) (\<lambda>(patch_hash, c).
     rbind (auth_take_hash32 c) (\<lambda>(authenticated_pre_root, c).
     rbind (auth_take_hash32 c) (\<lambda>(authenticated_post_root, c).
     rbind (auth_take_blob c) (\<lambda>(encoded, c).
     rbind (decode_node_batch encoded limits) (\<lambda>node_batch.
     rbind (auth_take_u32 c) (\<lambda>(n, c).
     if unat n > adl_max_stale_nodes limits then Err (AD_StaleNodeLimit (adl_max_stale_nodes limits) (unat n))
     else
     rbind (auth_bounded_capacity (unat n) (cursor_remaining c) 72) (\<lambda>_.
     rbind (decode_times (unat n) (decode_stale expected_version node_batch) c None) (\<lambda>(stale_nodes, c, _).
     rbind (require_complete c) (\<lambda>_.
     let decoded = \<lparr>dap_profile = profile, dap_expected_version = expected_version, dap_next_version = next_version,
       dap_semantic_pre_root = semantic_pre_root, dap_semantic_post_root = semantic_post_root, dap_patch_hash = patch_hash,
       dap_authenticated_pre_root = authenticated_pre_root, dap_authenticated_post_root = authenticated_post_root,
       dap_node_batch = node_batch, dap_stale_nodes = stale_nodes\<rparr> in
     rbind (require_canonical bs (auth_plan_canonical_bytes decoded)) (\<lambda>_. Ok decoded)))))))))))))))))"

definition decode_proof_leaf :: "AuthenticatedDecodeLimits \<Rightarrow> cursor \<Rightarrow> AuthDecodeError + ProofLeaf \<times> cursor" where
  "decode_proof_leaf limits c =
     rbind (auth_take_u8 c) (\<lambda>(tag, c).
     if tag = 0 then Ok (PF_Absence, c)
     else if tag = 1 then
       rbind (auth_take_blob c) (\<lambda>(encoded, c).
       rbind (decode_authenticated_value encoded limits) (\<lambda>v. Ok (PF_Membership v, c)))
     else Err (AD_UnknownProofLeafTag tag))"

definition decode_sibling :: "cursor \<Rightarrow> unit \<Rightarrow> AuthDecodeError + hash32 \<times> cursor \<times> unit" where
  "decode_sibling c st = rbind (auth_take_hash32 c) (\<lambda>(h, c). Ok (h, c, st))"

definition decode_sparse_proof :: "bytes \<Rightarrow> AuthenticatedDecodeLimits \<Rightarrow> AuthDecodeError + SparseProof" where
  "decode_sparse_proof bs limits =
     rbind (enforce_authenticated_input_limit bs limits) (\<lambda>_.
     rbind (auth_take_u16 (cursor_new bs)) (\<lambda>(format, c).
     if format \<noteq> SPARSE_PROOF_ENCODING_VERSION then Err (AD_VersionMismatch SPARSE_PROOF_ENCODING_VERSION format)
     else
     rbind (decode_profile c) (\<lambda>(profile, c).
     rbind (auth_take_u64 c) (\<lambda>(version, c).
     rbind (auth_take_hash32 c) (\<lambda>(root, c).
     rbind (auth_take_hash32 c) (\<lambda>(key, c).
     rbind (decode_proof_leaf limits c) (\<lambda>(leaf, c).
     rbind (auth_take_u32 c) (\<lambda>(n, c).
     if n \<noteq> of_nat TREE_DEPTH then Err (AD_ProofLength TREE_DEPTH (unat n))
     else
     rbind (decode_times (unat n) decode_sibling c ()) (\<lambda>(siblings, c, _).
     rbind (require_complete c) (\<lambda>_.
     let decoded = \<lparr>sp_profile = profile, sp_version = version, sp_root = root, sp_key = key, sp_leaf = leaf, sp_siblings = siblings\<rparr> in
     rbind (require_canonical bs (proof_canonical_bytes decoded)) (\<lambda>_. Ok decoded)))))))))))"

end
