(* ===== verification/Zeno_Merkle_Laws.thy ===== *)
theory Zeno_Merkle_Laws
  imports Zeno_Merkle
begin

text \<open>
  Laws of the collection commitments: the bisection of \<^verbatim>\<open>rebuild\<close> splits sorted leaves by their next
  bit, so a rebuild is the digest of a reference subtree that partitions the leaves by filtering; the
  subtree of a depth is the combination of its halves, which carries the path update; prefixes, bounds
  and sibling prefixes are exact; and a root binds the map of the entries.
\<close>

section \<open>Bisection at a boundary\<close>

lemma partition_point_split:
  assumes mono: "sorted_wrt (\<lambda>x y. P y \<longrightarrow> P x) xs"
  shows "take (partition_point P xs) xs = filter P xs \<and> drop (partition_point P xs) xs = filter (\<lambda>x. \<not> P x) xs"
proof -
  let ?f = "\<lambda>x. if P x then Less else Greater"
  have down: "P (xs ! i)" if "P (xs ! j)" "i \<le> j" "j < length xs" for i j
    using sorted_wrt_nth_less [OF mono, of i j] that by (cases "i = j") auto
  have inv: "n \<noteq> 0 \<Longrightarrow> base + n \<le> length xs \<Longrightarrow> base = 0 \<or> P (xs ! base) \<Longrightarrow>
      \<forall>i. base + n \<le> i \<and> i < length xs \<longrightarrow> \<not> P (xs ! i) \<Longrightarrow>
      (let r = binary_search_loop ?f xs n base in r < length xs \<and> (r = 0 \<or> P (xs ! r)) \<and> (\<forall>i. r < i \<and> i < length xs \<longrightarrow> \<not> P (xs ! i)))"
    for n base
  proof (induction n arbitrary: base rule: less_induct)
    case (less n)
    show ?case
    proof (cases "n \<le> 1")
      case True
      then have "n = 1" using less.prems by simp
      with less.prems show ?thesis by (auto simp: binary_search_loop.simps Let_def Suc_le_eq)
    next
      case False
      let ?mid = "base + n div 2"
      show ?thesis
      proof (cases "P (xs ! ?mid)")
        case True
        have "?mid + (n - n div 2) = base + n" by simp
        then show ?thesis using less.IH [of "n - n div 2" ?mid] less.prems False True
          by (subst binary_search_loop.simps) (auto simp: Let_def)
      next
        case mid: False
        have "\<not> P (xs ! i)" if "base + (n - n div 2) \<le> i" "i < length xs" for i
        proof -
          have "?mid \<le> i" using that(1) by linarith
          then show ?thesis using mid down [of i ?mid] that(2) by blast
        qed
        then show ?thesis using less.IH [of "n - n div 2" base] less.prems False mid
          by (subst binary_search_loop.simps) (auto simp: Let_def)
      qed
    qed
  qed
  have split: "partition_point P xs \<le> length xs \<and> (\<forall>i<partition_point P xs. P (xs ! i))
      \<and> (\<forall>i. partition_point P xs \<le> i \<and> i < length xs \<longrightarrow> \<not> P (xs ! i))"
  proof (cases "xs = []")
    case True
    then show ?thesis by (simp add: partition_point_def binary_search_by_def)
  next
    case False
    define r where "r = binary_search_loop ?f xs (length xs) 0"
    have "\<forall>i. 0 + length xs \<le> i \<and> i < length xs \<longrightarrow> \<not> P (xs ! i)" by auto
    from inv [OF _ _ _ this] False
    have r: "r < length xs" "r = 0 \<or> P (xs ! r)" "\<forall>i. r < i \<and> i < length xs \<longrightarrow> \<not> P (xs ! i)"
      by (simp_all add: r_def Let_def)
    have eq: "partition_point P xs = (if P (xs ! r) then r + 1 else r)"
      using False by (simp add: partition_point_def binary_search_by_def r_def)
    show ?thesis
    proof (cases "P (xs ! r)")
      case True
      with r down [of r] show ?thesis unfolding eq by auto
    next
      case False
      with r show ?thesis unfolding eq by (auto simp: le_less)
    qed
  qed
  let ?s = "partition_point P xs"
  have "\<forall>x\<in>set (take ?s xs). P x" "\<forall>x\<in>set (drop ?s xs). \<not> P x"
    using split by (auto simp: in_set_conv_nth)
  then have "filter P (take ?s xs @ drop ?s xs) = take ?s xs" "filter (\<lambda>x. \<not> P x) (take ?s xs @ drop ?s xs) = drop ?s xs"
    unfolding filter_append by (simp_all add: filter_empty_conv)
  then show ?thesis by simp
qed

section \<open>Bits of a key\<close>

abbreviation key_ok :: "Key \<Rightarrow> bool" where
  "key_ok k \<equiv> length k = 32"

lemma key_bit_eq: "key_bit k i = (if bit (k ! (i div 8)) (7 - i mod 8) then 1 else 0)"
  unfolding key_bit_def bit_iff_odd_drop_bit and_one_eq by (simp add: mod2_eq_if)

lemma key_bit_cases: "key_bit k i = 0 \<or> key_bit k i = 1"
  by (simp add: key_bit_eq)

definition agree :: "nat \<Rightarrow> Key \<Rightarrow> Key \<Rightarrow> bool" where
  "agree n a b \<longleftrightarrow> (\<forall>i<n. key_bit a i = key_bit b i)"

lemma agree_sym: "agree n a b \<longleftrightarrow> agree n b a" by (auto simp: agree_def)

lemma agree_trans: "agree n a b \<Longrightarrow> agree n b c \<Longrightarrow> agree n a c" by (auto simp: agree_def)

lemma agree_Suc: "agree (Suc n) a b \<longleftrightarrow> agree n a b \<and> key_bit a n = key_bit b n"
  by (auto simp: agree_def less_Suc_eq)

lemma agree_byte:
  assumes "agree n a b" and "8 * j + 7 < n"
  shows "a ! j = b ! j"
proof (rule bit_word_eqI)
  fix m assume "m < LENGTH(8)"
  then have m: "m < 8" by simp
  define x where "x = 7 - m"
  then have x: "x < 8" "7 - x = m" "8 * j + x < n" using m assms(2) by auto
  with assms(1) have "key_bit a (8 * j + x) = key_bit b (8 * j + x)" by (simp add: agree_def)
  moreover have "(8 * j + x) div 8 = j" "(8 * j + x) mod 8 = x" using x(1) by simp_all
  ultimately show "bit (a ! j) m \<longleftrightarrow> bit (b ! j) m" using x(2) by (simp add: key_bit_eq split: if_splits)
qed

lemma agree_take:
  assumes "agree n a b" and "key_ok a" "key_ok b" and "8 * j \<le> n"
  shows "take j a = take j b"
  using agree_byte [OF assms(1)] assms(2-4) by (intro nth_equalityI) auto

lemma agree_all: "agree KEY_BITS a b \<Longrightarrow> key_ok a \<Longrightarrow> key_ok b \<Longrightarrow> a = b"
  using agree_take [of KEY_BITS a b 32] by (simp add: KEY_BITS_def)

text \<open>Bytes with equal leading bits compare like their first different bit.\<close>

lemma byte_bit_mono:
  fixes x y :: u8
  assumes "x \<le> y" and "k < 8" and same: "\<And>m. k < m \<Longrightarrow> m < 8 \<Longrightarrow> bit x m \<longleftrightarrow> bit y m" and "bit x k"
  shows "bit y k"
proof (rule ccontr)
  assume no: "\<not> bit y k"
  have "bit x m \<longleftrightarrow> bit y m" if "k < m" for m
    using same [OF that] bit_imp_le_length [of x m] bit_imp_le_length [of y m] by auto
  then have "drop_bit (Suc k) x = drop_bit (Suc k) y"
    by (intro bit_word_eqI) (auto simp: bit_drop_bit_eq)
  then have hi: "unat x div 2 ^ Suc k = unat y div 2 ^ Suc k"
    by (metis unsigned_drop_bit_eq drop_bit_eq_div unat_drop_bit_eq)
  have bits: "odd (unat x div 2 ^ k)" "even (unat y div 2 ^ k)"
    using bit_unsigned_iff [where 'a = nat, of x k] bit_unsigned_iff [where 'a = nat, of y k] assms(2,4) no
    by (simp_all add: bit_nat_def)
  have "unat x div 2 ^ k \<le> unat y div 2 ^ k" using assms(1) by (simp add: word_le_nat_alt div_le_mono)
  moreover have "unat x div 2 ^ k div 2 = unat y div 2 ^ k div 2" using hi unfolding power_Suc2 div_mult2_eq .
  moreover have False if "X \<le> Y" "X div 2 = Y div 2" "odd X" "even Y" for X Y :: nat using that by presburger
  ultimately show False using bits by blast
qed

lemma lex_append_same: "xs @ ys \<le> xs @ zs \<longleftrightarrow> ys \<le> (zs :: 'a::linorder list)"
  by (induction xs) auto

lemma key_bit_mono:
  assumes "a \<le> b" and "key_ok a" "key_ok b" and "agree d a b" and "d < KEY_BITS" and "key_bit b d = 0"
  shows "key_bit a d = 0"
proof -
  let ?j = "d div 8" and ?k = "7 - d mod 8"
  have j: "?j < 32" using assms(5) by (simp add: KEY_BITS_def)
  have "take ?j a = take ?j b" using agree_take [OF assms(4,2,3), of ?j] by simp
  moreover have "a = take ?j a @ a ! ?j # drop (Suc ?j) a" "b = take ?j b @ b ! ?j # drop (Suc ?j) b"
    using j assms(2,3) by (simp_all add: id_take_nth_drop)
  ultimately have "a ! ?j # drop (Suc ?j) a \<le> b ! ?j # drop (Suc ?j) b"
    using assms(1) lex_append_same by metis
  then have le: "a ! ?j \<le> b ! ?j" by auto
  have "bit (a ! ?j) m \<longleftrightarrow> bit (b ! ?j) m" if m: "?k < m" "m < 8" for m
  proof -
    define x where "x = 7 - m"
    have x: "x < d mod 8" "7 - x = m" "x < 8" using m by (auto simp: x_def)
    then have "8 * ?j + x < d" by (metis add_less_cancel_left mult_div_mod_eq)
    with assms(4) have "key_bit a (8 * ?j + x) = key_bit b (8 * ?j + x)" by (simp add: agree_def)
    moreover have "(8 * ?j + x) div 8 = ?j" "(8 * ?j + x) mod 8 = x" using x(3) by simp_all
    ultimately show ?thesis using x(2) by (simp add: key_bit_eq split: if_splits)
  qed
  from byte_bit_mono [OF le _ this] assms(6) show ?thesis by (auto simp: key_bit_eq split: if_splits)
qed


section \<open>The subtree of a set of leaves\<close>

abbreviation bit_side :: "u8 \<Rightarrow> nat \<Rightarrow> (Key \<times> 'a) list \<Rightarrow> (Key \<times> 'a) list" where
  "bit_side b d L \<equiv> filter (\<lambda>x. key_bit (fst x) d = b) L"

function subtree :: "'s engine \<Rightarrow> (Key \<times> Digest) list \<Rightarrow> nat \<Rightarrow> Subtree" where
  "subtree sha L d =
     (if L = [] then Empty
      else if length L = 1 then Leaf (snd (hd L))
      else if d \<ge> KEY_BITS then Empty
      else Branch (node_hash sha (subtree_digest sha (subtree sha (bit_side 0 d L) (d + 1)))
                                 (subtree_digest sha (subtree sha (bit_side 1 d L) (d + 1)))))"
  by pat_completeness auto
termination subtree
  by (relation "measure (\<lambda>(_, _, d). KEY_BITS - d)") auto

declare subtree.simps [simp del]

definition leaves_at :: "nat \<Rightarrow> (Key \<times> 'a) list \<Rightarrow> bool" where
  "leaves_at d L \<longleftrightarrow> distinct (map fst L) \<and> (\<forall>x\<in>set L. key_ok (fst x))
     \<and> (\<forall>x\<in>set L. \<forall>y\<in>set L. agree d (fst x) (fst y))"

lemma leaves_at_side: "leaves_at d L \<Longrightarrow> leaves_at (Suc d) (bit_side b d L)"
  by (auto simp: leaves_at_def agree_Suc distinct_map intro: inj_on_subset)

lemma leaves_at_0: "leaves_at 0 L \<longleftrightarrow> distinct (map fst L) \<and> (\<forall>x\<in>set L. key_ok (fst x))"
  by (auto simp: leaves_at_def agree_def)

lemma not_bit_0: "key_bit k i \<noteq> 0 \<longleftrightarrow> key_bit k i = 1"
  using key_bit_cases [of k i] by auto

text \<open>Two leaves below the last bit would have the same key.\<close>

lemma leaves_at_end:
  assumes "leaves_at d L" and "d \<ge> KEY_BITS"
  shows "length L \<le> 1"
proof (rule ccontr)
  assume "\<not> length L \<le> 1"
  then obtain x y M where L: "L = x # y # M" by (cases L; cases "tl L") auto
  have "agree d (fst x) (fst y)" "key_ok (fst x)" "key_ok (fst y)" and ne: "fst x \<noteq> fst y"
    using assms(1) unfolding leaves_at_def L by simp_all
  moreover from this assms(2) have "agree KEY_BITS (fst x) (fst y)" by (simp add: agree_def)
  ultimately show False using agree_all by blast
qed

lemma subtree_Nil [simp]: "subtree sha [] d = Empty"
  by (simp add: subtree.simps)

lemma subtree_single [simp]: "subtree sha [x] d = Leaf (snd x)"
  by (simp add: subtree.simps)

lemma subtree_perm:
  "mset L = mset M \<Longrightarrow> subtree sha L d = subtree sha M d"
proof (induction sha L d arbitrary: M rule: subtree.induct)
  case (1 sha L d)
  have len: "length M = length L" using 1(3) by (metis size_mset)
  have side: "mset (bit_side b d L) = mset (bit_side b d M)" for b using 1(3) by simp
  show ?case
  proof (cases "length L \<le> 1 \<or> d \<ge> KEY_BITS")
    case True
    moreover have "M = [x]" if "L = [x]" for x using that 1(3) by simp
    moreover have "M = [] \<longleftrightarrow> L = []" using len by auto
    ultimately show ?thesis using len
      by (cases L; cases "tl L") (auto simp: subtree.simps [of sha _ d])
  next
    case False
    then have "L \<noteq> []" "length L \<noteq> 1" "\<not> KEY_BITS \<le> d" "M \<noteq> []" "length M \<noteq> 1" using len by auto
    with 1(1,2) [OF _ _ _ side] show ?thesis
      by (subst (1 2) subtree.simps) simp
  qed
qed

lemma combine_branch:
  assumes "\<not> (l = Empty \<and> r = Empty)" "\<not> (l = Empty \<and> (\<exists>h. r = Leaf h))" "\<not> (r = Empty \<and> (\<exists>h. l = Leaf h))"
  shows "combine sha l r e = Branch (node_hash sha (digest_with l e) (digest_with r e))"
  using assms by (cases l; cases r) auto

lemma subtree_shape:
  assumes "leaves_at d L"
  shows "subtree sha L d = Empty \<longleftrightarrow> L = []" and "(\<exists>h. subtree sha L d = Leaf h) \<longleftrightarrow> length L = 1"
proof -
  have "L = [] \<or> length L = 1 \<or> d < KEY_BITS" using leaves_at_end [OF assms] by (cases L) (auto simp: not_less)
  then show "subtree sha L d = Empty \<longleftrightarrow> L = []" "(\<exists>h. subtree sha L d = Leaf h) \<longleftrightarrow> length L = 1"
    unfolding subtree.simps [of sha L d] by auto
qed

lemma side_lengths: "length (bit_side 0 d L) + length (bit_side 1 d L) = length L"
  using sum_length_filter_compl [of "\<lambda>x. key_bit (fst x) d = 0" L] by (simp add: not_bit_0)

lemma subtree_combine:
  assumes "leaves_at d L" and "d < KEY_BITS"
  shows "subtree sha L d =
    combine sha (subtree sha (bit_side 0 d L) (Suc d)) (subtree sha (bit_side 1 d L) (Suc d)) (empty_hash sha)"
proof (cases "length L \<le> 1")
  case True
  then consider "L = []" | x where "L = [x]" by (cases L; cases "tl L") auto
  then show ?thesis
  proof cases
    case 2
    then show ?thesis using not_bit_0 [of "fst x" d] by auto
  qed simp
next
  case False
  let ?l = "subtree sha (bit_side 0 d L) (Suc d)" and ?r = "subtree sha (bit_side 1 d L) (Suc d)"
  have l: "?l = Empty \<longleftrightarrow> length (bit_side 0 d L) = 0" "(\<exists>h. ?l = Leaf h) \<longleftrightarrow> length (bit_side 0 d L) = 1"
    unfolding subtree_shape [OF leaves_at_side [OF assms(1)]] by simp_all
  have r: "?r = Empty \<longleftrightarrow> length (bit_side 1 d L) = 0" "(\<exists>h. ?r = Leaf h) \<longleftrightarrow> length (bit_side 1 d L) = 1"
    unfolding subtree_shape [OF leaves_at_side [OF assms(1)]] by simp_all
  have "combine sha ?l ?r (empty_hash sha) =
      Branch (node_hash sha (digest_with ?l (empty_hash sha)) (digest_with ?r (empty_hash sha)))"
    by (rule combine_branch; unfold l r; use False side_lengths [of d L] in linarith)
  moreover have "L \<noteq> []" "length L \<noteq> 1" using False by auto
  ultimately show ?thesis using assms(2) by (subst subtree.simps) (simp add: subtree_digest_def)
qed

section \<open>Rebuild computes the subtree digest\<close>

lemma rebuild_subtree:
  assumes "sorted_wrt (\<lambda>x y. fst x < fst y) L" and "leaves_at d L"
  shows "rebuild sha L d = Some (subtree_digest sha (subtree sha L d))"
  using assms
proof (induction sha L d rule: subtree.induct)
  case (1 sha L d)
  show ?case
  proof (cases "length L \<le> 1")
    case True
    then show ?thesis by (cases L; cases "tl L") (auto simp: rebuild.simps [of sha _ d] subtree_digest_def)
  next
    case False
    then have ne: "L \<noteq> []" and d: "\<not> KEY_BITS \<le> d" using leaves_at_end [OF 1(4)] by auto
    have "sorted_wrt (\<lambda>x y. key_bit (fst y) d = 0 \<longrightarrow> key_bit (fst x) d = 0) L"
      using 1(3)
    proof (rule sorted_wrt_mono_rel [rotated])
      fix x y assume "x \<in> set L" "y \<in> set L" "fst x < fst y"
      then show "key_bit (fst y) d = 0 \<longrightarrow> key_bit (fst x) d = 0"
        using key_bit_mono [of "fst x" "fst y" d] 1(4) d by (auto simp: leaves_at_def)
    qed
    from partition_point_split [OF this]
    have split: "take (partition_point (\<lambda>(key, _). key_bit key d = 0) L) L = bit_side 0 d L"
      "drop (partition_point (\<lambda>(key, _). key_bit key d = 0) L) L = bit_side 1 d L"
      by (simp_all add: case_prod_unfold not_bit_0)
    have ih: "rebuild sha (bit_side 0 d L) (d + 1) = Some (subtree_digest sha (subtree sha (bit_side 0 d L) (d + 1)))"
      "rebuild sha (bit_side 1 d L) (d + 1) = Some (subtree_digest sha (subtree sha (bit_side 1 d L) (d + 1)))"
      using 1(1,2) False d 1(3) ne leaves_at_side [OF 1(4)] by (auto simp: sorted_wrt_filter)
    obtain x y M where L: "L = x # y # M" using False by (cases L; cases "tl L") auto
    have "rebuild sha L d = Option.bind (rebuild sha (bit_side 0 d L) (d + 1)) (\<lambda>left.
          Option.bind (rebuild sha (bit_side 1 d L) (d + 1)) (\<lambda>right. Some (node_hash sha left right)))"
      using d by (subst rebuild.simps) (simp add: L Let_def split [unfolded L] split: prod.splits)
    moreover have "subtree sha L d = Branch (node_hash sha (subtree_digest sha (subtree sha (bit_side 0 d L) (d + 1)))
                                 (subtree_digest sha (subtree sha (bit_side 1 d L) (d + 1))))"
      using d by (subst subtree.simps) (simp add: L)
    ultimately show ?thesis using ih by (simp add: subtree_digest_def)
  qed
qed


section \<open>Entries as a map\<close>

lemma map_of_filter_key: "map_of xs k = map_option snd (find (\<lambda>x. fst x = k) xs)"
  by (induction xs) auto

lemma find_filter: "find P xs = (case filter P xs of [] \<Rightarrow> None | x # _ \<Rightarrow> Some x)"
  by (induction xs) auto

lemma map_of_sort_key: "map_of (sort_key fst xs) = map_of xs"
  by (rule ext) (simp add: map_of_filter_key find_filter sort_key_stable)

lemma dedup_by_key_mem: "set (dedup_by_key f xs) \<subseteq> set xs"
  by (induction f xs rule: dedup_by_key.induct) auto

lemma map_of_dedup: "map_of (dedup_by_key fst xs) = map_of xs"
proof (induction "fst :: 'a \<times> 'b \<Rightarrow> 'a" xs rule: dedup_by_key.induct)
  case (1 x y xs)
  then show ?case by (cases x; cases y) (auto simp: fun_eq_iff)
qed simp_all

lemma dedup_sorted: "sorted (map fst xs) \<Longrightarrow> sorted_wrt (\<lambda>x y. fst x < fst y) (dedup_by_key fst xs)"
proof (induction "fst :: 'a \<times> 'b \<Rightarrow> 'a" xs rule: dedup_by_key.induct)
  case (1 x y xs)
  have "fst x < fst z" if "fst x \<noteq> fst y" "z \<in> set (dedup_by_key fst (y # xs))" for z
    using that 1(3) dedup_by_key_mem [of fst "y # xs"] by fastforce
  with 1 show ?case by auto
qed simp_all

definition leaf_entry :: "'s engine \<Rightarrow> Key \<times> bytes \<Rightarrow> Key \<times> Digest" where
  "leaf_entry sha x = (fst x, leaf_hash sha (fst x) (snd x))"

lemma fst_leaf_entry [simp]: "fst (leaf_entry sha x) = fst x"
  by (simp add: leaf_entry_def)

lemma map_of_leaf_entry: "map_of (map (leaf_entry sha) xs) k = map_option (leaf_hash sha k) (map_of xs k)"
  by (induction xs) (auto simp: leaf_entry_def)

lemma sorted_wrt_less_distinct: "sorted_wrt (\<lambda>x y. fst x < (fst y :: 'a::linorder)) xs \<Longrightarrow> distinct (map fst xs)"
  by (induction xs) auto

lemma map_of_eq_mset:
  assumes "distinct (map fst xs)" "distinct (map fst ys)" "map_of xs = map_of ys"
  shows "mset xs = mset ys"
  using assms map_of_inject_set by (metis distinct_map set_eq_iff_mset_eq_distinct)

lemma map_of_keys: "map_of xs = map_of ys \<Longrightarrow> fst ` set xs = fst ` set ys"
  by (metis dom_map_of_conv_image_fst)

abbreviation keys_ok :: "(Key \<times> 'a) list \<Rightarrow> bool" where
  "keys_ok M \<equiv> \<forall>k\<in>fst ` set M. key_ok k"

text \<open>The root of a list of entries is the digest of the subtree of any duplicate-free list with the same map.\<close>

lemma rebuild_root_subtree:
  assumes "keys_ok entries" and "distinct (map fst M)" and "map_of M = map_of entries"
  shows "rebuild_root sha entries = Some (subtree_digest sha (subtree sha (map (leaf_entry sha) M) 0))"
proof -
  let ?raw = "map (leaf_entry sha) entries"
  let ?L = "dedup_by_key fst (sort_key fst ?raw)"
  have sorted: "sorted_wrt (\<lambda>x y. fst x < fst y) ?L" by (intro dedup_sorted) simp
  have maps: "map_of ?L = map_of (map (leaf_entry sha) M)"
    by (rule ext) (simp only: map_of_dedup map_of_sort_key map_of_leaf_entry assms(3))
  have d: "distinct (map fst ?L)" using sorted by (rule sorted_wrt_less_distinct)
  have "set ?L \<subseteq> set (sort_key fst ?raw)" by (rule dedup_by_key_mem)
  then have "fst ` set ?L \<subseteq> fst ` set entries" by (auto simp: image_iff dest!: subsetD) (metis fst_conv fst_leaf_entry)
  then have "keys_ok ?L" using assms(1) by blast
  then have "leaves_at 0 ?L" using d unfolding leaves_at_0 by blast
  then have "rebuild sha ?L 0 = Some (subtree_digest sha (subtree sha ?L 0))"
    by (rule rebuild_subtree [OF sorted])
  moreover have "subtree sha ?L 0 = subtree sha (map (leaf_entry sha) M) 0"
    using assms(2) d maps by (intro subtree_perm map_of_eq_mset) (simp_all add: comp_def)
  ultimately show ?thesis
    by (simp add: rebuild_root_def Let_def case_prod_unfold leaf_entry_def [abs_def])
qed

lemma distinct_entries: "\<exists>M. distinct (map fst M) \<and> map_of M = map_of (entries :: ('a::linorder \<times> 'b) list)"
proof (intro exI conjI)
  let ?M = "dedup_by_key fst (sort_key fst entries)"
  show "distinct (map fst ?M)" by (intro sorted_wrt_less_distinct dedup_sorted) simp
  show "map_of ?M = map_of entries" by (simp only: map_of_dedup map_of_sort_key)
qed

section \<open>Path update\<close>

lemma shared_bits_agree: "d \<le> KEY_BITS \<Longrightarrow> d \<le> shared_bits a b \<longleftrightarrow> agree d a b"
proof -
  have gen: "d \<le> n \<Longrightarrow> d \<le> length (takeWhile P [0..<n]) \<longleftrightarrow> (\<forall>i<d. P i)" for P n
  proof (induction n arbitrary: d)
    case (Suc n)
    show ?case
    proof (cases "\<forall>i<n. P i")
      case True
      then have "takeWhile P [0..<Suc n] = [0..<n] @ takeWhile P [n]" 
        using takeWhile_append2 [of "[0..<n]" P "[n]"] by simp
      then show ?thesis using True Suc.prems by (auto simp: less_Suc_eq le_Suc_eq)
    next
      case False
      then have "takeWhile P [0..<Suc n] = takeWhile P [0..<n]" by (auto simp: takeWhile_append1)
      moreover have "length (takeWhile P [0..<n]) < n" using False Suc.IH [of n] by (metis le_refl not_less)
      ultimately show ?thesis using False Suc.IH [of d] Suc.prems by (cases "d = Suc n") (auto intro: less_SucI)
    qed
  qed simp
  show "d \<le> KEY_BITS \<Longrightarrow> ?thesis" unfolding shared_bits_def agree_def by (rule gen)
qed

text \<open>What the caller has to supply at a depth: the subtree of the entries that leave the key's path there.\<close>

definition sibling :: "'s engine \<Rightarrow> Key \<Rightarrow> (Key \<times> bytes) list \<Rightarrow> nat \<Rightarrow> Subtree" where
  "sibling sha key M i = subtree sha (map (leaf_entry sha) (filter (\<lambda>x. shared_bits key (fst x) = i) M)) (i + 1)"

definition on_path :: "Key \<Rightarrow> bytes option \<Rightarrow> (Key \<times> bytes) list \<Rightarrow> nat \<Rightarrow> (Key \<times> bytes) list" where
  "on_path key data M d = (case data of None \<Rightarrow> [] | Some r \<Rightarrow> [(key, r)]) @ filter (\<lambda>x. d \<le> shared_bits key (fst x)) M"

definition path_node :: "'s engine \<Rightarrow> Key \<Rightarrow> bytes option \<Rightarrow> (Key \<times> bytes) list \<Rightarrow> nat \<Rightarrow> NodeWrite" where
  "path_node sha key data M d =
     \<lparr>nw_depth = d, nw_prefix = key_prefix key d,
      nw_hash = (case subtree sha (map (leaf_entry sha) (on_path key data M d)) d of Branch h \<Rightarrow> Some h | _ \<Rightarrow> None)\<rparr>"

definition others_ok :: "Key \<Rightarrow> (Key \<times> bytes) list \<Rightarrow> bool" where
  "others_ok key M \<longleftrightarrow> key_ok key \<and> keys_ok M \<and> distinct (map fst M) \<and> key \<notin> fst ` set M"

lemma on_path_leaves:
  assumes "others_ok key M" and "d \<le> KEY_BITS"
  shows "leaves_at d (map (leaf_entry sha) (on_path key data M d))"
proof -
  have "agree d key (fst x)" if "x \<in> set (on_path key data M d)" for x
    using that shared_bits_agree [OF assms(2), of key "fst x"]
    by (auto simp: on_path_def agree_def split: option.splits)
  then have "agree d (fst x) (fst y)" if "x \<in> set (on_path key data M d)" "y \<in> set (on_path key data M d)" for x y
    using that agree_trans agree_sym by metis
  moreover have "distinct (map fst (on_path key data M d))" "keys_ok (on_path key data M d)"
    using assms(1) by (auto simp: on_path_def others_ok_def distinct_map intro: inj_on_subset split: option.splits)
  ultimately show ?thesis by (auto simp: leaves_at_def comp_def)
qed

lemma on_path_sides:
  assumes "others_ok key M" and "d < KEY_BITS"
  shows "bit_side (key_bit key d) d (on_path key data M d) = on_path key data M (Suc d)"
    and "bit_side (1 - key_bit key d) d (on_path key data M d) = filter (\<lambda>x. shared_bits key (fst x) = d) M"
proof -
  have s: "Suc d \<le> shared_bits key k \<longleftrightarrow> d \<le> shared_bits key k \<and> key_bit k d = key_bit key d" for k
    using shared_bits_agree [of "Suc d" key k] shared_bits_agree [of d key k] assms(2) by (auto simp: agree_Suc)
  show "bit_side (key_bit key d) d (on_path key data M d) = on_path key data M (Suc d)"
    by (auto simp: on_path_def s intro!: filter_cong split: option.splits)
  have n: "key_bit k d = 1 - key_bit key d \<longleftrightarrow> key_bit k d \<noteq> key_bit key d" for k
    using key_bit_cases [of k d] key_bit_cases [of key d] by auto
  have e: "shared_bits key k = d \<longleftrightarrow> d \<le> shared_bits key k \<and> key_bit k d \<noteq> key_bit key d" for k
    using s [of k] by auto
  show "bit_side (1 - key_bit key d) d (on_path key data M d) = filter (\<lambda>x. shared_bits key (fst x) = d) M"
    unfolding n on_path_def e by (auto intro!: filter_cong split: option.splits)
qed

lemma update_step_apply:
  "update_step sha key e (d, other) (child, nodes) =
     (let t = (if key_bit key d = 0 then combine sha child other e else combine sha other child e)
      in (t, nodes @ [\<lparr>nw_depth = d, nw_prefix = key_prefix key d, nw_hash = (case t of Branch h \<Rightarrow> Some h | _ \<Rightarrow> None)\<rparr>]))"
  by (simp add: update_step_def Let_def)

lemma update_loop:
  assumes "others_ok key M" and "n \<le> KEY_BITS" and far: "\<forall>x\<in>set M. shared_bits key (fst x) < n" and "d \<le> n"
  shows "fold (update_step sha key (empty_hash sha)) (rev (map (\<lambda>i. (i, sibling sha key M i)) [d..<n]))
      (case data of None \<Rightarrow> Empty | Some r \<Rightarrow> Leaf (leaf_hash sha key r), []) =
    (subtree sha (map (leaf_entry sha) (on_path key data M d)) d, map (path_node sha key data M) (rev [d..<n]))"
  using \<open>d \<le> n\<close>
proof (induction d rule: inc_induct)
  case base
  have "filter (\<lambda>x. n \<le> shared_bits key (fst x)) M = []" using far by (auto simp: filter_empty_conv not_le)
  then show ?case by (auto simp: on_path_def leaf_entry_def split: option.splits)
next
  case (step d)
  have d: "d < KEY_BITS" using step.hyps assms(2) by simp
  note sides = on_path_sides [OF assms(1) d, of data]
  have "subtree sha (map (leaf_entry sha) (on_path key data M d)) d =
      (if key_bit key d = 0 then combine sha (subtree sha (map (leaf_entry sha) (on_path key data M (Suc d))) (Suc d)) (sibling sha key M d) (empty_hash sha)
       else combine sha (sibling sha key M d) (subtree sha (map (leaf_entry sha) (on_path key data M (Suc d))) (Suc d)) (empty_hash sha))"
    using subtree_combine [OF on_path_leaves [OF assms(1), of d sha data] d] sides key_bit_cases [of key d] d
    by (auto simp: filter_map comp_def sibling_def)
  then show ?case using step.hyps
    by (simp add: upt_conv_Cons step.IH update_step_apply Let_def path_node_def [of sha key data M d])
qed

lemma enumerate_map_upt: "enumerate 0 (map f [0..<n]) = map (\<lambda>i. (i, f i)) [0..<n]"
  by (rule nth_equalityI) (auto simp: nth_enumerate_eq)

lemma update_path_result:
  assumes "others_ok key M" and "n \<le> KEY_BITS" and "\<forall>x\<in>set M. shared_bits key (fst x) < n"
  shows "update_path sha key data (map (sibling sha key M) [0..<n]) =
    Some \<lparr>pu_leaf = map_option (leaf_hash sha key) data,
          pu_root = subtree_digest sha (subtree sha (map (leaf_entry sha) (on_path key data M 0)) 0),
          pu_nodes = map (path_node sha key data M) (rev [0..<n])\<rparr>"
  using update_loop [OF assms le0, of sha data] assms(2)
  by (cases data) (simp_all add: update_path_def Let_def enumerate_map_upt subtree_digest_def)


section \<open>Order and bits\<close>

lemma first_difference:
  assumes "key_ok a" "key_ok b" "a \<noteq> b"
  shows "\<exists>e<KEY_BITS. agree e a b \<and> key_bit a e \<noteq> key_bit b e"
proof -
  define e where "e = (LEAST i. key_bit a i \<noteq> key_bit b i)"
  obtain i where i: "i < KEY_BITS" "key_bit a i \<noteq> key_bit b i"
    using agree_all [OF _ assms(1,2)] assms(3) by (auto simp: agree_def)
  have "key_bit a e \<noteq> key_bit b e" "e \<le> i" unfolding e_def
    using LeastI [of "\<lambda>i. key_bit a i \<noteq> key_bit b i", OF i(2)] Least_le [of "\<lambda>i. key_bit a i \<noteq> key_bit b i", OF i(2)] by simp_all
  moreover have "agree e a b" unfolding agree_def e_def by (blast dest: not_less_Least)
  ultimately show ?thesis using i(1) le_less_trans by blast
qed

lemma key_less_bit:
  assumes "key_ok a" "key_ok b" "agree e a b" "e < KEY_BITS" "key_bit a e = 0" "key_bit b e = 1"
  shows "a < b"
proof (rule ccontr)
  assume "\<not> a < b"
  then have "b \<le> a" by simp
  from key_bit_mono [OF this assms(2,1) _ assms(4,5)] assms(3,6) show False by (simp add: agree_sym)
qed

text \<open>A key between two keys shares what they share.\<close>

lemma agree_between:
  assumes "a \<le> b" "b \<le> c" "key_ok a" "key_ok b" "key_ok c" "agree d a c" "d \<le> KEY_BITS"
  shows "agree d a b"
  using assms(6,7)
proof (induction d)
  case (Suc d)
  then have ab: "agree d a b" and ac: "agree d a c" "key_bit a d = key_bit c d" and d: "d < KEY_BITS" by (auto simp: agree_Suc)
  have bc: "agree d b c" using ab ac(1) by (auto simp: agree_def)
  have "key_bit b d = 0 \<Longrightarrow> key_bit a d = 0" using key_bit_mono [OF assms(1,3,4) ab d] .
  moreover have "key_bit c d = 0 \<Longrightarrow> key_bit b d = 0" using key_bit_mono [OF assms(2,4,5) bc d] .
  ultimately show ?case using ab ac key_bit_cases [of a d] key_bit_cases [of b d] by (auto simp: agree_Suc)
qed (simp add: agree_def)

lemma shared_bits_le: "shared_bits a b \<le> KEY_BITS"
  unfolding shared_bits_def using length_takeWhile_le [of _ "[0..<KEY_BITS]"] by (metis diff_zero length_upt)

lemma shared_bits_sym: "shared_bits a b = shared_bits b a"
  unfolding shared_bits_def by (subst eq_commute) (rule refl)

lemma shared_bits_less: "key_ok a \<Longrightarrow> key_ok b \<Longrightarrow> a \<noteq> b \<Longrightarrow> shared_bits a b < KEY_BITS"
  using shared_bits_agree [of KEY_BITS a b] agree_all [of a b] by (metis le_refl not_le)

lemma shared_bits_between:
  assumes "a \<le> b" "b \<le> c" "key_ok a" "key_ok b" "key_ok c"
  shows "shared_bits a c \<le> shared_bits a b" and "shared_bits c a \<le> shared_bits c b"
proof -
  let ?d = "shared_bits a c"
  have ac: "agree ?d a c" using shared_bits_agree [OF shared_bits_le, of a c a c] by simp
  have ab: "agree ?d a b" using agree_between [OF assms ac shared_bits_le] .
  with ac have "agree ?d c b" by (auto simp: agree_def)
  with ab show "shared_bits a c \<le> shared_bits a b" "shared_bits c a \<le> shared_bits c b"
    using shared_bits_agree [OF shared_bits_le [of a c]] by (simp_all add: shared_bits_sym [of c a])
qed

lemma iter_max_le: "(case iter_max xs of None \<Rightarrow> 0 | Some m \<Rightarrow> m) \<le> n \<longleftrightarrow> (\<forall>x\<in>set xs. x \<le> n)"
proof -
  have "fold max xs x \<le> n \<longleftrightarrow> (\<forall>y\<in>set (x # xs). y \<le> n)" for x :: nat and xs
    by (induction xs arbitrary: x) auto
  then show ?thesis by (cases xs) auto
qed

lemma shared_path_length_le:
  "shared_path_length key ks \<le> n \<longleftrightarrow> (\<forall>k\<in>set ks. k \<noteq> key \<longrightarrow> shared_bits key k < n)"
  unfolding shared_path_length_def iter_max_le by (auto simp: Suc_le_eq)

lemma shared_path_length_bound: "key_ok key \<Longrightarrow> \<forall>k\<in>set ks. key_ok k \<Longrightarrow> shared_path_length key ks \<le> KEY_BITS"
  by (auto simp: shared_path_length_le shared_bits_less)

text \<open>The nearest keys on both sides decide the length of the path.\<close>

definition nearest :: "Key \<Rightarrow> Key list \<Rightarrow> Key list \<Rightarrow> bool" where
  "nearest key ks near \<longleftrightarrow> set near \<subseteq> set ks
     \<and> (\<forall>k\<in>set ks. k < key \<longrightarrow> (\<exists>p\<in>set near. k \<le> p \<and> p < key))
     \<and> (\<forall>k\<in>set ks. key < k \<longrightarrow> (\<exists>p\<in>set near. key < p \<and> p \<le> k))"

lemma nearest_path_length:
  assumes "key_ok key" "\<forall>k\<in>set ks. key_ok k" "nearest key ks near"
  shows "shared_path_length key near = shared_path_length key ks"
proof (rule antisym)
  let ?n = "shared_path_length key ks"
  have "\<forall>k\<in>set ks. k \<noteq> key \<longrightarrow> shared_bits key k < ?n" using shared_path_length_le [of key ks ?n] by simp
  then show "shared_path_length key near \<le> ?n" using assms(3) by (auto simp: shared_path_length_le nearest_def)
next
  let ?n = "shared_path_length key near"
  have near: "\<forall>k\<in>set near. k \<noteq> key \<longrightarrow> shared_bits key k < ?n" using shared_path_length_le [of key near ?n] by simp
  have "shared_bits key k < ?n" if k: "k \<in> set ks" "k \<noteq> key" for k
  proof -
    have ok: "\<forall>p\<in>set near. key_ok p" "key_ok k" using assms(2,3) k(1) by (auto simp: nearest_def)
    from k consider p where "p \<in> set near" "k \<le> p" "p < key" | p where "p \<in> set near" "key < p" "p \<le> k"
      using assms(3) unfolding nearest_def by (metis linorder_neqE)
    then show ?thesis
    proof cases
      case 1
      then have "shared_bits key k \<le> shared_bits key p" using ok assms(1) by (intro shared_bits_between) auto
      with near 1 show ?thesis by fastforce
    next
      case 2
      then have "shared_bits key k \<le> shared_bits key p" using ok assms(1) by (intro shared_bits_between) auto
      with near 2 show ?thesis by fastforce
    qed
  qed
  then show "shared_path_length key ks \<le> ?n" by (simp add: shared_path_length_le)
qed

section \<open>Prefixes and bounds\<close>

lemma bit_255: "bit (255 :: int) m \<longleftrightarrow> m < 8"
proof -
  have "255 = (mask 8 :: int)" by (simp add: mask_eq_exp_minus_1)
  moreover have "bit (mask 8 :: int) m \<longleftrightarrow> m < 8" unfolding bit_mask_iff by (auto simp: possible_bit_def)
  ultimately show ?thesis by (rule ssubst)
qed

lemma key_prefix_length [simp]: "key_ok k \<Longrightarrow> key_ok (key_prefix k d)"
  by (auto simp: key_prefix_def Let_def KEY_BITS_def min_def)

lemma key_prefix_nth:
  assumes "key_ok k" "d \<le> KEY_BITS" "j < 32"
  shows "key_prefix k d ! j = (if j < d div 8 then k ! j else if j = d div 8 \<and> d mod 8 \<noteq> 0
     then (k ! j) AND push_bit (8 - d mod 8) 255 else 0)"
  using assms by (auto simp: key_prefix_def Let_def KEY_BITS_def nth_append nth_list_update min_def)

lemma key_bit_prefix:
  assumes "key_ok k" "d \<le> KEY_BITS" "i < KEY_BITS"
  shows "key_bit (key_prefix k d) i = (if i < d then key_bit k i else 0)"
proof -
  have j: "i div 8 < 32" using assms(3) by (simp add: KEY_BITS_def)
  consider "i div 8 < d div 8" | "i div 8 = d div 8" | "i div 8 > d div 8" by linarith
  then show ?thesis
  proof cases
    case 1
    then have "i < d" by (metis div_le_mono not_le)
    with 1 show ?thesis by (simp add: key_bit_eq key_prefix_nth [OF assms(1,2) j])
  next
    case 2
    then have "i < d \<longleftrightarrow> i mod 8 < d mod 8" by (metis add_less_cancel_left div_mult_mod_eq)
    moreover have "i mod 8 < 8" "d mod 8 < 8" by simp_all
    ultimately show ?thesis using 2 key_prefix_nth [OF assms(1,2) j]
      by (auto simp: key_bit_eq bit_and_iff bit_push_bit_iff bit_255)
  next
    case 3
    then have "\<not> i < d" by (metis div_le_mono less_or_eq_imp_le not_le)
    with 3 show ?thesis by (simp add: key_bit_eq key_prefix_nth [OF assms(1,2) j])
  qed
qed

lemma key_bounds_low: "d \<le> KEY_BITS \<Longrightarrow> fst (key_bounds k d) = key_prefix k d"
  by (simp add: key_bounds_def Let_def)

lemma key_bounds_high_length: "key_ok k \<Longrightarrow> d \<le> KEY_BITS \<Longrightarrow> key_ok (snd (key_bounds k d))"
  by (auto simp: key_bounds_def Let_def KEY_BITS_def)

lemma key_bounds_high_nth:
  assumes "key_ok k" "d \<le> KEY_BITS" "j < 32"
  shows "snd (key_bounds k d) ! j = (if j < d div 8 then k ! j else if j = d div 8 \<and> d mod 8 \<noteq> 0
     then key_prefix k d ! j OR drop_bit (d mod 8) 255 else 255)"
  using assms key_prefix_nth [OF assms] key_prefix_length [OF assms(1), of d]
  by (auto simp: key_bounds_def Let_def KEY_BITS_def nth_append nth_list_update min_def less_Suc_eq)

lemma key_bit_high:
  assumes "key_ok k" "d \<le> KEY_BITS" "i < KEY_BITS"
  shows "key_bit (snd (key_bounds k d)) i = (if i < d then key_bit k i else 1)"
proof -
  have j: "i div 8 < 32" using assms(3) by (simp add: KEY_BITS_def)
  consider "i div 8 < d div 8" | "i div 8 = d div 8" | "i div 8 > d div 8" by linarith
  then show ?thesis
  proof cases
    case 1
    then have "i < d" by (metis div_le_mono not_le)
    with 1 show ?thesis by (simp add: key_bit_eq key_bounds_high_nth [OF assms(1,2) j])
  next
    case 2
    then have lt: "i < d \<longleftrightarrow> i mod 8 < d mod 8" by (metis add_less_cancel_left div_mult_mod_eq)
    moreover have "i mod 8 < 8" "d mod 8 < 8" by simp_all
    moreover have "bit (drop_bit (d mod 8) (255 :: u8)) (7 - i mod 8) \<longleftrightarrow> \<not> i mod 8 < d mod 8"
      by (auto simp: bit_drop_bit_eq bit_255)
    ultimately show ?thesis using 2 key_bit_prefix [OF assms] key_bounds_high_nth [OF assms(1,2) j]
      by (auto simp: key_bit_eq bit_or_iff bit_255 split: if_splits)
  next
    case 3
    then have "\<not> i < d" by (metis div_le_mono less_or_eq_imp_le not_le)
    with 3 show ?thesis by (simp add: key_bit_eq key_bounds_high_nth [OF assms(1,2) j] bit_255)
  qed
qed

lemma bounds_exact:
  assumes "key_ok key" "key_ok k" "d \<le> KEY_BITS"
  shows "fst (key_bounds key d) \<le> k \<and> k \<le> snd (key_bounds key d) \<longleftrightarrow> agree d key k"
proof -
  define low high where "low = key_prefix key d" and "high = snd (key_bounds key d)"
  note ok = assms(1,2) key_prefix_length [OF assms(1), of d, folded low_def]
    key_bounds_high_length [OF assms(1,3), folded high_def]
  note low = key_bit_prefix [OF assms(1,3), folded low_def] and high = key_bit_high [OF assms(1,3), folded high_def]
  have "low \<le> k \<and> k \<le> high" if a: "agree d key k"
  proof
    show "low \<le> k"
    proof (cases "low = k")
      case False
      then obtain e where e: "e < KEY_BITS" "agree e low k" "key_bit low e \<noteq> key_bit k e"
        using first_difference ok by metis
      then have "key_bit low e = 0" using low [OF e(1)] a by (auto simp: agree_def split: if_splits)
      moreover from this e(3) have "key_bit k e = 1" using key_bit_cases [of k e] by auto
      ultimately show ?thesis using key_less_bit [OF ok(3,2) e(2,1)] by simp
    qed simp
    show "k \<le> high"
    proof (cases "k = high")
      case False
      then obtain e where e: "e < KEY_BITS" "agree e k high" "key_bit k e \<noteq> key_bit high e"
        using first_difference ok by metis
      then have "key_bit high e = 1" using high [OF e(1)] a by (auto simp: agree_def split: if_splits)
      moreover from this e(3) have "key_bit k e = 0" using key_bit_cases [of k e] by auto
      ultimately show ?thesis using key_less_bit [OF ok(2,4) e(2,1)] by simp
    qed simp
  qed
  moreover have "agree d key k" if "low \<le> k" "k \<le> high"
  proof -
    have "agree d low high" "agree d key low" using low high assms(3) by (auto simp: agree_def)
    with agree_between [OF that ok(3,2,4) _ assms(3)] show ?thesis using agree_trans by blast
  qed
  ultimately show ?thesis using assms(3) by (auto simp: key_bounds_low low_def high_def)
qed

lemma prefix_eq_iff:
  assumes "key_ok a" "key_ok b" "d \<le> KEY_BITS"
  shows "key_prefix a d = key_prefix b d \<longleftrightarrow> agree d a b"
proof
  assume "key_prefix a d = key_prefix b d"
  then have "(if i < d then key_bit a i else 0) = (if i < d then key_bit b i else 0)" if "i < KEY_BITS" for i
    using key_bit_prefix [OF assms(1,3) that] key_bit_prefix [OF assms(2,3) that] by simp
  then show "agree d a b" using assms(3) unfolding agree_def by (metis less_le_trans)
next
  assume "agree d a b"
  then have "agree KEY_BITS (key_prefix a d) (key_prefix b d)"
    by (auto simp: agree_def key_bit_prefix assms)
  then show "key_prefix a d = key_prefix b d" using agree_all assms by simp
qed

lemma sibling_prefix_bits:
  assumes "key_ok k" "d < KEY_BITS" "sibling_prefix k d = Some p"
  shows "key_ok p" and "i < KEY_BITS \<Longrightarrow> key_bit p i = (if i < d then key_bit k i else if i = d then 1 - key_bit k d else 0)"
proof -
  have p: "p = (key_prefix k (d + 1))[d div 8 := (key_prefix k (d + 1) ! (d div 8)) XOR push_bit (7 - d mod 8) 1]"
    using assms by (simp add: sibling_prefix_def Let_def)
  show "key_ok p" using assms(1) by (simp add: p)
  assume i: "i < KEY_BITS"
  have b: "key_bit (key_prefix k (d + 1)) i = (if i < d + 1 then key_bit k i else 0)"
    using key_bit_prefix [OF assms(1) _ i, of "d + 1"] assms(2) by simp
  have j: "d div 8 < 32" using assms(2) by (simp add: KEY_BITS_def)
  have e: "i = d \<longleftrightarrow> i div 8 = d div 8 \<and> 7 - i mod 8 = 7 - d mod 8"
  proof
    assume a: "i div 8 = d div 8 \<and> 7 - i mod 8 = 7 - d mod 8"
    moreover have "i mod 8 < 8" "d mod 8 < 8" by simp_all
    ultimately have "i mod 8 = d mod 8" by linarith
    with a show "i = d" by (metis div_mult_mod_eq)
  qed simp
  have f: "bit (p ! (i div 8)) (7 - i mod 8) \<longleftrightarrow> bit (key_prefix k (d + 1) ! (i div 8)) (7 - i mod 8) \<noteq> (i = d)"
    using assms(1) j unfolding p e by (auto simp: nth_list_update bit_xor_iff bit_exp_iff)
  have "key_bit p i = (if i = d then 1 - key_bit (key_prefix k (d + 1)) i else key_bit (key_prefix k (d + 1)) i)"
    using f by (auto simp: key_bit_eq)
  then show "key_bit p i = (if i < d then key_bit k i else if i = d then 1 - key_bit k d else 0)"
    using b by auto
qed

lemma sibling_prefix_exact:
  assumes "key_ok key" "key_ok k" "d < KEY_BITS" "sibling_prefix key d = Some p"
  shows "key_prefix k (d + 1) = p \<longleftrightarrow> shared_bits key k = d"
proof -
  note ok = sibling_prefix_bits(1) [OF assms(1,3,4)]
  have pp: "key_prefix p (d + 1) = p"
    using sibling_prefix_bits(2) [OF assms(1,3,4)] key_bit_prefix [OF ok, of "d + 1"] assms(3) ok
    by (intro agree_all) (auto simp: agree_def)
  have "key_prefix k (d + 1) = p \<longleftrightarrow> agree (Suc d) k p"
    using prefix_eq_iff [OF assms(2) ok, of "d + 1"] pp assms(3) by simp
  also have "\<dots> \<longleftrightarrow> agree d key k \<and> key_bit k d \<noteq> key_bit key d"
    using sibling_prefix_bits(2) [OF assms(1,3,4)] assms(3) key_bit_cases [of k d] key_bit_cases [of key d]
    unfolding agree_Suc by (auto simp: agree_def)
  also have "\<dots> \<longleftrightarrow> shared_bits key k = d"
    using shared_bits_agree [of d key k] shared_bits_agree [of "Suc d" key k] assms(3) by (auto simp: agree_Suc)
  finally show ?thesis .
qed


section \<open>What is hashed for a root\<close>

definition empty_input :: bytes where
  "empty_input = ascii_bytes ''ZFCIS-MAP-EMPTY'' @ [0]"

definition leaf_input :: "Key \<Rightarrow> Digest \<Rightarrow> bytes" where
  "leaf_input key h = ascii_bytes ''ZFCIS-MAP-LEAF'' @ [0] @ key @ be_bytes 32 h"

definition node_input :: "Digest \<Rightarrow> Digest \<Rightarrow> bytes" where
  "node_input l r = ascii_bytes ''ZFCIS-MAP-NODE'' @ [0] @ be_bytes 32 l @ be_bytes 32 r"

lemma inputs_differ:
  "empty_input \<noteq> leaf_input k h" "empty_input \<noteq> node_input l r" "leaf_input k h \<noteq> node_input l r"
  by (simp_all add: empty_input_def leaf_input_def node_input_def ascii_bytes_def)

lemma leaf_input_inject: "key_ok k \<Longrightarrow> key_ok k' \<Longrightarrow> leaf_input k h = leaf_input k' h' \<longleftrightarrow> k = k' \<and> h = h'"
  by (auto simp: leaf_input_def be_bytes_inject)

lemma node_input_inject: "node_input l r = node_input l' r' \<longleftrightarrow> l = l' \<and> r = r'"
  by (auto simp: node_input_def be_bytes_inject)

function node_inputs :: "'s engine \<Rightarrow> (Key \<times> Digest) list \<Rightarrow> nat \<Rightarrow> bytes list" where
  "node_inputs sha L d =
     (if length L \<le> 1 \<or> d \<ge> KEY_BITS then []
      else node_input (subtree_digest sha (subtree sha (bit_side 0 d L) (d + 1)))
             (subtree_digest sha (subtree sha (bit_side 1 d L) (d + 1)))
           # node_inputs sha (bit_side 0 d L) (d + 1) @ node_inputs sha (bit_side 1 d L) (d + 1))"
  by pat_completeness auto
termination node_inputs
  by (relation "measure (\<lambda>(_, _, d). KEY_BITS - d)") auto

declare node_inputs.simps [simp del]

definition merkle_inputs :: "'s engine \<Rightarrow> (Key \<times> bytes) list \<Rightarrow> bytes list" where
  "merkle_inputs sha M =
     empty_input # map snd M @ map (\<lambda>x. leaf_input (fst x) (merkle_hash sha [snd x])) M
     @ node_inputs sha (map (leaf_entry sha) M) 0"

context sha2_engine
begin

lemma merkle_hash_input: "merkle_hash e parts = h_hash (RustCryptoSha256 e) (concat parts)"
  by (simp add: merkle_hash_def provider_parts)

lemma hash_input:
  "empty_hash e = h_hash (RustCryptoSha256 e) empty_input"
  "leaf_hash e k r = h_hash (RustCryptoSha256 e) (leaf_input k (merkle_hash e [r]))"
  "node_hash e x y = h_hash (RustCryptoSha256 e) (node_input x y)"
  by (simp_all add: empty_hash_def leaf_hash_def node_hash_def merkle_hash_input empty_input_def leaf_input_def node_input_def)

text \<open>Every leaf is the hash of a leaf preimage, every digest that of a preimage of its shape.\<close>

definition leaves_from :: "bytes set \<Rightarrow> (Key \<times> Digest) list \<Rightarrow> bool" where
  "leaves_from Q L \<longleftrightarrow> (\<forall>x\<in>set L. \<exists>h. leaf_input (fst x) h \<in> Q \<and> snd x = h_hash (RustCryptoSha256 e) (leaf_input (fst x) h))"

definition node_preimage :: "nat \<Rightarrow> (Key \<times> Digest) list \<Rightarrow> bytes" where
  "node_preimage d L = node_input (subtree_digest e (subtree e (bit_side 0 d L) (d + 1)))
     (subtree_digest e (subtree e (bit_side 1 d L) (d + 1)))"

definition digest_shape :: "nat \<Rightarrow> (Key \<times> Digest) list \<Rightarrow> bytes \<Rightarrow> bool" where
  "digest_shape d L p \<longleftrightarrow> L = [] \<and> p = empty_input
     \<or> (\<exists>k h. key_ok k \<and> L = [(k, h_hash (RustCryptoSha256 e) p)] \<and> p = leaf_input k h)
     \<or> length L > 1 \<and> d < KEY_BITS \<and> p = node_preimage d L"

lemma digest_preimage:
  assumes "leaves_at d L" "leaves_from Q L" "empty_input \<in> Q" "set (node_inputs e L d) \<subseteq> Q"
  shows "\<exists>p\<in>Q. subtree_digest e (subtree e L d) = h_hash (RustCryptoSha256 e) p \<and> digest_shape d L p"
proof -
  consider "L = []" | x where "L = [x]" | "length L > 1" by (cases L; cases "tl L") auto
  then show ?thesis
  proof cases
    case 1
    with assms(3) show ?thesis by (auto simp: subtree_digest_def hash_input digest_shape_def)
  next
    case 2
    then obtain h where "leaf_input (fst x) h \<in> Q" "snd x = h_hash (RustCryptoSha256 e) (leaf_input (fst x) h)"
      using assms(2) by (auto simp: leaves_from_def)
    with 2 assms(1) show ?thesis
      by (cases x) (auto simp: subtree_digest_def leaves_at_def digest_shape_def intro!: bexI)
  next
    case 3
    then have d: "d < KEY_BITS" using leaves_at_end [OF assms(1)] by fastforce
    have "node_preimage d L \<in> Q" using assms(4) 3 d by (subst (asm) node_inputs.simps) (simp add: node_preimage_def)
    moreover have "subtree e L d = Branch (h_hash (RustCryptoSha256 e) (node_preimage d L))"
      using 3 d by (subst subtree.simps) (auto simp: node_preimage_def hash_input)
    ultimately show ?thesis using 3 d by (auto simp: subtree_digest_def digest_shape_def intro!: bexI)
  qed
qed

lemma digest_shape_cases:
  assumes "digest_shape d L p" "digest_shape d L' p"
  shows "set L = set L' \<or> (length L > 1 \<and> length L' > 1 \<and> d < KEY_BITS \<and> node_preimage d L = node_preimage d L')"
proof -
  have n: "node_preimage d X \<noteq> empty_input" "node_preimage d X \<noteq> leaf_input k h" for X k h
    using inputs_differ by (metis node_preimage_def)+
  show ?thesis using assms unfolding digest_shape_def
    by (elim disjE conjE exE) (simp_all add: inputs_differ inputs_differ [symmetric] n n [symmetric] leaf_input_inject)
qed

lemma digest_binds:
  assumes "leaves_at d L" "leaves_at d L'" "leaves_from Q L" "leaves_from Q L'" "empty_input \<in> Q"
    "set (node_inputs e L d) \<subseteq> Q" "set (node_inputs e L' d) \<subseteq> Q" "inj_on (h_hash (RustCryptoSha256 e)) Q"
    "subtree_digest e (subtree e L d) = subtree_digest e (subtree e L' d)"
  shows "set L = set L'"
  using assms
proof (induction "KEY_BITS - d" arbitrary: d L L' rule: less_induct)
  case less
  obtain p where p: "p \<in> Q" "subtree_digest e (subtree e L d) = h_hash (RustCryptoSha256 e) p" "digest_shape d L p"
    using digest_preimage [OF less.prems(1,3,5,6)] by blast
  obtain p' where p': "p' \<in> Q" "subtree_digest e (subtree e L' d) = h_hash (RustCryptoSha256 e) p'" "digest_shape d L' p'"
    using digest_preimage [OF less.prems(2,4,5,7)] by blast
  have "p' = p" using less.prems(8,9) p(1,2) p'(1,2) by (auto dest: inj_onD)
  with digest_shape_cases p(3) p'(3) consider "set L = set L'"
    | "length L > 1" "length L' > 1" "d < KEY_BITS" "node_preimage d L = node_preimage d L'" by blast
  then show ?case
  proof cases
    case 2
    have nodes: "set (node_inputs e (bit_side b d X) (d + 1)) \<subseteq> Q"
      if "b = 0 \<or> b = 1" "length X > 1" "set (node_inputs e X d) \<subseteq> Q" for b X
      using that 2(3) by (subst (asm) node_inputs.simps) auto
    have side: "leaves_from Q (bit_side b d X)" if "leaves_from Q X" for b X using that by (simp add: leaves_from_def)
    have "set (bit_side b d L) = set (bit_side b d L')" if b: "b = 0 \<or> b = 1" for b
    proof (rule less.hyps [of "d + 1"])
      show "subtree_digest e (subtree e (bit_side b d L) (d + 1)) = subtree_digest e (subtree e (bit_side b d L') (d + 1))"
        using 2(4) b by (auto simp: node_preimage_def node_input_inject)
    qed (use 2 less.prems nodes [OF b] side leaves_at_side in auto)
    from this [of 0] this [of 1] have "x \<in> set L \<longleftrightarrow> x \<in> set L'" for x
      using key_bit_cases [of "fst x" d] unfolding set_eq_iff set_filter by (cases x) auto
    then show ?thesis by blast
  qed
qed

lemma root_binds:
  assumes "keys_ok M" "keys_ok M'" "distinct (map fst M)" "distinct (map fst M')"
    and inj: "inj_on (h_hash (RustCryptoSha256 e)) (set (merkle_inputs e M) \<union> set (merkle_inputs e M'))"
    and "rebuild_root e M = rebuild_root e M'"
  shows "map_of M = map_of M'"
proof -
  define Q where "Q = set (merkle_inputs e M) \<union> set (merkle_inputs e M')"
  let ?L = "map (leaf_entry e) M" and ?L' = "map (leaf_entry e) M'"
  have "leaves_at 0 ?L" "leaves_at 0 ?L'" using assms(1-4) by (simp_all add: leaves_at_0 comp_def)
  moreover have "leaves_from Q ?L" "leaves_from Q ?L'"
    by (auto simp: leaves_from_def Q_def merkle_inputs_def leaf_entry_def hash_input)
  moreover have "subtree_digest e (subtree e ?L 0) = subtree_digest e (subtree e ?L' 0)"
    using assms(6) rebuild_root_subtree [OF assms(1,3) refl, of e] rebuild_root_subtree [OF assms(2,4) refl, of e] by simp
  moreover have "empty_input \<in> Q" "set (node_inputs e ?L 0) \<subseteq> Q" "set (node_inputs e ?L' 0) \<subseteq> Q"
    by (auto simp: Q_def merkle_inputs_def)
  ultimately have L: "set ?L = set ?L'" using digest_binds inj [folded Q_def] by blast
  have inj': "r = r' \<and> k = k'" if "(k, r) \<in> set M" "(k', r') \<in> set M'" "leaf_entry e (k, r) = leaf_entry e (k', r')" for k r k' r'
  proof -
    have k: "k = k'" and ok: "key_ok k" using that assms(1) by (auto simp: leaf_entry_def)
    have "leaf_input k (merkle_hash e [r]) \<in> Q" "leaf_input k (merkle_hash e [r']) \<in> Q" "r \<in> Q" "r' \<in> Q"
      using that(1,2) k by (force simp: Q_def merkle_inputs_def)+
    note q = this and inj = inj [folded Q_def]
    have "leaf_input k (merkle_hash e [r]) = leaf_input k (merkle_hash e [r'])"
      using that(3) k by (intro inj_onD [OF inj _ q(1,2)]) (simp add: leaf_entry_def hash_input)
    then have "r = r'" using ok by (intro inj_onD [OF inj _ q(3,4)]) (simp add: leaf_input_inject merkle_hash_input)
    then show ?thesis using k by simp
  qed
  have "set M = set M'"
  proof (intro subset_antisym subrelI)
    fix k r assume m: "(k, r) \<in> set M"
    then have "leaf_entry e (k, r) \<in> set ?L'" unfolding L [symmetric] by simp
    then obtain k' r' where "(k', r') \<in> set M'" "leaf_entry e (k, r) = leaf_entry e (k', r')" by auto
    with inj' [OF m] show "(k, r) \<in> set M'" by blast
  next
    fix k' r' assume m: "(k', r') \<in> set M'"
    then have "leaf_entry e (k', r') \<in> set ?L" unfolding L by simp
    then obtain k r where "(k, r) \<in> set M" "leaf_entry e (k, r) = leaf_entry e (k', r')" by auto
    with inj' [OF _ m] show "(k', r') \<in> set M" by blast
  qed
  then show ?thesis using assms(3,4) map_of_inject_set by blast
qed

end


section \<open>Properties\<close>

text \<open>Rebuilding a collection never runs past the last bit of a key, and its root depends only on
  the map of the entries, of duplicate keys the first: neither the order nor shadowed entries matter.\<close>

theorem rebuild_root_of_map:
  assumes "keys_ok entries"
  shows "(\<exists>root. rebuild_root sha entries = Some root)
    \<and> (\<forall>entries'. map_of entries' = map_of entries \<longrightarrow> rebuild_root sha entries' = rebuild_root sha entries)"
proof -
  obtain M where M: "distinct (map fst M)" "map_of M = map_of entries" using distinct_entries by metis
  have "rebuild_root sha entries' = Some (subtree_digest sha (subtree sha (map (leaf_entry sha) M) 0))"
    if "map_of entries' = map_of entries" for entries'
    using that M assms map_of_keys [OF that] by (intro rebuild_root_subtree) auto
  then show ?thesis by simp
qed

theorem rebuild_root_of_map_witness:
  "rebuild_root (buffering_engine (be_bytes 32 \<circ> (of_nat \<circ> length :: bytes \<Rightarrow> hash32)))
     [(replicate 32 1, [7]), (replicate 32 0, []), (replicate 32 1, [8])] =
   rebuild_root (buffering_engine (be_bytes 32 \<circ> (of_nat \<circ> length :: bytes \<Rightarrow> hash32)))
     [(replicate 32 0, []), (replicate 32 1, [7])]"
proof -
  have "map_of [(replicate 32 (1 :: u8), [7 :: u8]), (replicate 32 0, []), (replicate 32 1, [8])] =
      map_of [(replicate 32 0, []), (replicate 32 1, [7])]"
    by (simp add: fun_eq_iff)
  then show ?thesis by (intro rebuild_root_of_map [THEN conjunct2, rule_format]) auto
qed

text \<open>C30: updating one path from the summaries of its siblings gives the root and the branch hashes
  of a full rebuild of the updated collection; the path length that the nearest keys determine is enough.\<close>

theorem update_path_matches_rebuild:
  assumes "key_ok key" and "keys_ok entries" and "distinct (map fst entries)"
    and "others = filter (\<lambda>x. fst x \<noteq> key) entries" and "nearest key (map fst others) near"
    and "n = shared_path_length key near"
    and "map_of entries' = (map_of entries)(key := data)"
  shows "\<exists>u. update_path sha key data (map (sibling sha key others) [0..<n]) = Some u
    \<and> pu_leaf u = map_option (leaf_hash sha key) data
    \<and> rebuild_root sha entries' = Some (pu_root u)
    \<and> pu_nodes u = map (path_node sha key data others) (rev [0..<n])"
proof -
  have ok: "others_ok key others" using assms(1-4) by (auto simp: others_ok_def distinct_map intro: inj_on_subset)
  have keys: "\<forall>k\<in>set (map fst others). key_ok k" using assms(2,4) by auto
  have n: "n = shared_path_length key (map fst others)" using nearest_path_length [OF assms(1) keys assms(5)] assms(6) by simp
  have "\<forall>x\<in>set others. shared_bits key (fst x) < n" "n \<le> KEY_BITS"
    using shared_path_length_le [of key "map fst others" n] shared_path_length_bound [OF assms(1) keys] n assms(4) by auto
  note r = update_path_result [OF ok this(2,1), of sha data]
  let ?M = "on_path key data others 0"
  have maps: "map_of others = (map_of entries)(key := None)"
    unfolding assms(4) by (induction entries) (auto simp: fun_eq_iff)
  have M: "map_of ?M = map_of entries'" unfolding assms(7) using maps
    by (auto simp: on_path_def fun_eq_iff split: option.splits)
  moreover have "distinct (map fst ?M)" "keys_ok ?M"
    using ok by (auto simp: on_path_def others_ok_def distinct_map split: option.splits)
  ultimately have "rebuild_root sha entries' = Some (subtree_digest sha (subtree sha (map (leaf_entry sha) ?M) 0))"
    using map_of_keys [OF M] by (intro rebuild_root_subtree) auto
  with r show ?thesis by simp
qed

theorem update_path_matches_rebuild_witness:
  "\<exists>u. update_path (buffering_engine (be_bytes 32 \<circ> (of_nat \<circ> length :: bytes \<Rightarrow> hash32))) (replicate 32 1) (Some [7])
      (map (sibling (buffering_engine (be_bytes 32 \<circ> (of_nat \<circ> length :: bytes \<Rightarrow> hash32))) (replicate 32 1) [(replicate 32 0, [])]) [0..<8]) = Some u
    \<and> rebuild_root (buffering_engine (be_bytes 32 \<circ> (of_nat \<circ> length :: bytes \<Rightarrow> hash32)))
        [(replicate 32 1, [7]), (replicate 32 0, [])] = Some (pu_root u)"
proof -
  have "shared_path_length (replicate 32 1) [replicate 32 0] = 8"
    by (simp add: shared_path_length_def shared_bits_def key_bit_def KEY_BITS_def upt_rec)
  moreover have "nearest (replicate 32 1) [replicate 32 0] [replicate 32 0]"
    by (auto simp: nearest_def)
  ultimately show ?thesis
    using update_path_matches_rebuild [of "replicate 32 1" "[(replicate 32 0, [])]" "[(replicate 32 0, [])]"
      "[replicate 32 0]" 8 "[(replicate 32 1, [7]), (replicate 32 0, [])]" "Some [7]"
      "buffering_engine (be_bytes 32 \<circ> (of_nat \<circ> length :: bytes \<Rightarrow> hash32))"]
    by (auto simp: fun_eq_iff)
qed

text \<open>The bounds of a prefix contain exactly the keys with that prefix, which are the keys that
  share its bits; the sibling prefix is that of the keys that leave the path at its depth.\<close>

theorem prefix_bounds_exact:
  assumes "key_ok key" and "key_ok k" and "d \<le> KEY_BITS"
  shows "(fst (key_bounds key d) \<le> k \<and> k \<le> snd (key_bounds key d) \<longleftrightarrow> d \<le> shared_bits key k)
    \<and> (key_prefix k d = key_prefix key d \<longleftrightarrow> d \<le> shared_bits key k)
    \<and> (case sibling_prefix key d of
         None \<Rightarrow> d = KEY_BITS
       | Some p \<Rightarrow> d < KEY_BITS \<and> (key_prefix k (d + 1) = p \<longleftrightarrow> shared_bits key k = d))"
proof -
  have "sibling_prefix key d = None \<longleftrightarrow> d = KEY_BITS" using assms(3) by (auto simp: sibling_prefix_def Let_def)
  then have "case sibling_prefix key d of None \<Rightarrow> d = KEY_BITS
      | Some p \<Rightarrow> d < KEY_BITS \<and> (key_prefix k (d + 1) = p \<longleftrightarrow> shared_bits key k = d)"
    using sibling_prefix_exact [OF assms(1,2)] assms(3) by (cases "sibling_prefix key d") (simp_all add: le_less)
  moreover have "key_prefix k d = key_prefix key d \<longleftrightarrow> d \<le> shared_bits key k"
    using prefix_eq_iff [OF assms(2,1,3)] shared_bits_agree [OF assms(3), of key k] agree_sym by simp
  ultimately show ?thesis
    using bounds_exact [OF assms] shared_bits_agree [OF assms(3), of key k] by simp
qed

theorem prefix_bounds_exact_witness:
  "key_prefix (replicate 32 3) 12 = key_prefix (replicate 32 7) 12 \<longleftrightarrow> 12 \<le> shared_bits (replicate 32 7) (replicate 32 3)"
  using prefix_bounds_exact [of "replicate 32 7" "replicate 32 3" 12] by (simp add: KEY_BITS_def)

text \<open>C31: two collections with the same root are the same map, unless two of the byte strings hashed
  for their roots collide.\<close>

theorem merkle_root_binds:
  assumes "sha2_engine sha" and "keys_ok M" and "keys_ok M'" and "distinct (map fst M)" and "distinct (map fst M')"
    and "inj_on (h_hash (RustCryptoSha256 sha)) (set (merkle_inputs sha M) \<union> set (merkle_inputs sha M'))"
    and "rebuild_root sha M = rebuild_root sha M'"
  shows "map_of M = map_of M'"
  using sha2_engine.root_binds [OF assms] .

theorem merkle_root_binds_witness:
  "rebuild_root (buffering_engine (be_bytes 32 \<circ> (of_nat \<circ> length :: bytes \<Rightarrow> hash32))) [(replicate 32 1, [7])] \<noteq>
   rebuild_root (buffering_engine (be_bytes 32 \<circ> (of_nat \<circ> length :: bytes \<Rightarrow> hash32))) []"
proof
  let ?e = "buffering_engine (be_bytes 32 \<circ> (of_nat \<circ> length :: bytes \<Rightarrow> hash32))"
  assume eq: "rebuild_root ?e [(replicate 32 1, [7])] = rebuild_root ?e []"
  have H: "h_hash (RustCryptoSha256 ?e) = of_nat \<circ> length"
    by (auto simp: fun_eq_iff RustCryptoSha256_def buffering_engine_def)
  have "inj_on (h_hash (RustCryptoSha256 ?e)) (set (merkle_inputs ?e [(replicate 32 1, [7])]) \<union> set (merkle_inputs ?e []))"
    unfolding H by (simp add: merkle_inputs_def node_inputs.simps empty_input_def leaf_input_def ascii_bytes_def)
  from merkle_root_binds [OF buffering_engine.sha2_engine_axioms _ _ _ _ this eq]
  show False by (simp add: fun_eq_iff split: if_splits) 
qed

end
