(* ===== verification/Zeno_Plan.thy ===== *)
theory Zeno_Plan
  imports Zeno_Patch
begin

text \<open>
  \<^verbatim>\<open>zeno-fcis-plan\<close>: the effects that a commit carries and the outbox entries it asks to
  deliver, both ordered by ordinal, with their encodings, the identity of a delivery and the
  strict decoders.  Ordinals, operations and channels keep their 32 bits.
\<close>

section \<open>Data\<close>

record Effect =
  eff_ordinal :: u32
  eff_operation :: u32
  eff_authority :: hash32
  eff_subject :: hash32
  eff_payload :: Value

record CommitPlan =
  plan_effects :: "Effect list"

record OutboxEntry =
  ob_ordinal :: u32
  ob_channel :: u32
  ob_destination :: Value
  ob_payload :: Value

record OutboxPlan =
  plan_entries :: "OutboxEntry list"

datatype PlanError =
    PLE_DuplicateEffectOrdinal u32
  | PLE_DuplicateOutboxOrdinal u32

datatype PlanDecodeError =
    PLD_InputLimit nat nat
  | PLD_EffectLimit nat nat
  | PLD_OutboxEntryLimit nat nat
  | PLD_ValueNodeLimit nat nat
  | PLD_ValuePayloadLimit nat nat
  | PLD_LengthOverflow
  | PLD_UnexpectedEnd nat nat
  | PLD_TrailingBytes nat
  | PLD_Value DecodeError
  | PLD_Plan PlanError
  | PLD_Encode EncodeError
  | PLD_NonCanonical

record PlanDecodeLimits =
  pnl_max_input_bytes :: nat
  pnl_max_effects :: nat
  pnl_max_outbox_entries :: nat
  pnl_max_value_nodes :: nat
  pnl_max_value_payload_bytes :: nat
  pnl_value :: DecodeLimits

definition default_plan_decode_limits :: PlanDecodeLimits where
  "default_plan_decode_limits = \<lparr>
     pnl_max_input_bytes = DEFAULT_MAX_INPUT_BYTES,
     pnl_max_effects = 4096,
     pnl_max_outbox_entries = 4096,
     pnl_max_value_nodes = 1000000,
     pnl_max_value_payload_bytes = 64 * 1024 * 1024,
     pnl_value = default_decode_limits\<rparr>"

section \<open>Encoding\<close>

definition plan_put_length :: "bytes \<Rightarrow> nat \<Rightarrow> EncodeError + bytes" where
  "plan_put_length output n =
     rbind (ok_or (try_from u32_max n) EE_LengthOverflow) (\<lambda>n.
       Ok (output @ be_bytes 4 (of_nat n :: u32)))"

definition plan_put_blob :: "bytes \<Rightarrow> bytes \<Rightarrow> EncodeError + bytes" where
  "plan_put_blob output bs = rbind (plan_put_length output (length bs)) (\<lambda>output. Ok (output @ bs))"

definition effect_encode_to :: "Effect \<Rightarrow> bytes \<Rightarrow> EncodeError + bytes" where
  "effect_encode_to e output =
     (let output = output @ be_bytes 4 (eff_ordinal e) @ be_bytes 4 (eff_operation e)
        @ be_bytes 32 (eff_authority e) @ be_bytes 32 (eff_subject e) in
      rbind (canonical_bytes value_encode_to (eff_payload e)) (\<lambda>payload.
        plan_put_blob output payload))"

definition effect_canonical_bytes :: "Effect \<Rightarrow> EncodeError + bytes" where
  "effect_canonical_bytes e = effect_encode_to e []"

definition commit_plan_encode_to :: "CommitPlan \<Rightarrow> bytes \<Rightarrow> EncodeError + bytes" where
  "commit_plan_encode_to p output =
     rbind (plan_put_length output (length (plan_effects p))) (\<lambda>output.
       fold_res (\<lambda>e output. rbind (effect_canonical_bytes e) (\<lambda>b. plan_put_blob output b))
         (plan_effects p) output)"

definition commit_plan_canonical_bytes :: "CommitPlan \<Rightarrow> EncodeError + bytes" where
  "commit_plan_canonical_bytes p = commit_plan_encode_to p []"

definition outbox_entry_encode_to :: "OutboxEntry \<Rightarrow> bytes \<Rightarrow> EncodeError + bytes" where
  "outbox_entry_encode_to e output =
     (let output = output @ be_bytes 4 (ob_ordinal e) @ be_bytes 4 (ob_channel e) in
      rbind (canonical_bytes value_encode_to (ob_destination e)) (\<lambda>destination.
      rbind (plan_put_blob output destination) (\<lambda>output.
      rbind (canonical_bytes value_encode_to (ob_payload e)) (\<lambda>payload.
        plan_put_blob output payload))))"

definition outbox_entry_canonical_bytes :: "OutboxEntry \<Rightarrow> EncodeError + bytes" where
  "outbox_entry_canonical_bytes e = outbox_entry_encode_to e []"

definition outbox_plan_encode_to :: "OutboxPlan \<Rightarrow> bytes \<Rightarrow> EncodeError + bytes" where
  "outbox_plan_encode_to p output =
     rbind (plan_put_length output (length (plan_entries p))) (\<lambda>output.
       fold_res (\<lambda>e output. rbind (outbox_entry_canonical_bytes e) (\<lambda>b. plan_put_blob output b))
         (plan_entries p) output)"

definition outbox_plan_canonical_bytes :: "OutboxPlan \<Rightarrow> EncodeError + bytes" where
  "outbox_plan_canonical_bytes p = outbox_plan_encode_to p []"

text \<open>The identity of a delivery binds the candidate and the whole entry.\<close>

definition delivery_id :: "hasher \<Rightarrow> OutboxEntry \<Rightarrow> hash32 \<Rightarrow> EncodeError + hash32" where
  "delivery_id H e candidate_id =
     rbind (outbox_entry_encode_to e (be_bytes 32 candidate_id)) (\<lambda>bs. commitment H DELIVERY bs)"

section \<open>Construction\<close>

fun ensure_unique_effects :: "Effect list \<Rightarrow> PlanError + unit" where
  "ensure_unique_effects (x # y # effects) =
     (if eff_ordinal x = eff_ordinal y then Err (PLE_DuplicateEffectOrdinal (eff_ordinal x))
      else ensure_unique_effects (y # effects))"
| "ensure_unique_effects _ = Ok ()"

definition commit_plan_try_new :: "Effect list \<Rightarrow> PlanError + CommitPlan" where
  "commit_plan_try_new effects =
     (let effects = sort_key eff_ordinal effects in
      rbind (ensure_unique_effects effects) (\<lambda>_. Ok \<lparr>plan_effects = effects\<rparr>))"

definition commit_plan_empty :: CommitPlan where
  "commit_plan_empty = \<lparr>plan_effects = []\<rparr>"

fun ensure_unique_entries :: "OutboxEntry list \<Rightarrow> PlanError + unit" where
  "ensure_unique_entries (x # y # entries) =
     (if ob_ordinal x = ob_ordinal y then Err (PLE_DuplicateOutboxOrdinal (ob_ordinal x))
      else ensure_unique_entries (y # entries))"
| "ensure_unique_entries _ = Ok ()"

definition outbox_plan_try_new :: "OutboxEntry list \<Rightarrow> PlanError + OutboxPlan" where
  "outbox_plan_try_new entries =
     (let entries = sort_key ob_ordinal entries in
      rbind (ensure_unique_entries entries) (\<lambda>_. Ok \<lparr>plan_entries = entries\<rparr>))"

definition outbox_plan_empty :: OutboxPlan where
  "outbox_plan_empty = \<lparr>plan_entries = []\<rparr>"

section \<open>Decoding\<close>

record PlanDecodeState =
  pls_value_nodes :: nat
  pls_value_payload_bytes :: nat

definition plan_take :: "nat \<Rightarrow> cursor \<Rightarrow> PlanDecodeError + bytes \<times> cursor" where
  "plan_take = cursor_take PLD_LengthOverflow PLD_UnexpectedEnd"

definition plan_take_u32 :: "cursor \<Rightarrow> PlanDecodeError + u32 \<times> cursor" where
  "plan_take_u32 = cursor_word plan_take 4"

definition plan_take_hash32 :: "cursor \<Rightarrow> PlanDecodeError + hash32 \<times> cursor" where
  "plan_take_hash32 = cursor_word plan_take 32"

definition plan_take_blob :: "cursor \<Rightarrow> PlanDecodeError + bytes \<times> cursor" where
  "plan_take_blob c =
     rbind (plan_take_u32 c) (\<lambda>(n, c).
     rbind (ok_or (try_from usize_max (unat n)) PLD_LengthOverflow) (\<lambda>n. plan_take n c))"

definition plan_collection_capacity :: "nat \<Rightarrow> nat \<Rightarrow> nat \<Rightarrow> PlanDecodeError + nat" where
  "plan_collection_capacity item_count remaining_wire_bytes minimum_wire_bytes_per_item =
     rbind (ok_or (try_from usize_max item_count) PLD_LengthOverflow) (\<lambda>item_count.
     rbind (ok_or (checked_div remaining_wire_bytes minimum_wire_bytes_per_item)
       PLD_LengthOverflow) (\<lambda>wire_bound. Ok (min item_count wire_bound)))"

definition enforce_plan_input_limit :: "bytes \<Rightarrow> PlanDecodeLimits \<Rightarrow> PlanDecodeError + unit" where
  "enforce_plan_input_limit bs limits =
     rbind (ok_or (try_from u64_max (length bs)) PLD_LengthOverflow) (\<lambda>actual.
       if actual > pnl_max_input_bytes limits
       then Err (PLD_InputLimit (pnl_max_input_bytes limits) actual) else Ok ())"

definition ensure_plan_consumed :: "cursor \<Rightarrow> PlanDecodeError + unit" where
  "ensure_plan_consumed c =
     (if cursor_remaining c \<noteq> 0 then Err (PLD_TrailingBytes (cur_offset c)) else Ok ())"

definition ensure_canonical_plan :: "bytes \<Rightarrow> EncodeError + bytes \<Rightarrow> PlanDecodeError + unit" where
  "ensure_canonical_plan input p =
     rbind (map_err PLD_Encode p) (\<lambda>encoded.
       if encoded \<noteq> input then Err PLD_NonCanonical else Ok ())"

definition decode_plan_value ::
    "bytes \<Rightarrow> PlanDecodeLimits \<Rightarrow> PlanDecodeState \<Rightarrow> PlanDecodeError + Value \<times> PlanDecodeState" where
  "decode_plan_value bs limits st =
     rbind (map_err PLD_Value (decode_value bs (pnl_value limits))) (\<lambda>v.
     rbind (map_err (\<lambda>e. PLD_Value (DE_InvalidValue e)) (validate_limits v (dl_value (pnl_value limits))))
       (\<lambda>metrics.
     rbind (ok_or (checked_add u64_max (pls_value_nodes st) (m_nodes metrics)) PLD_LengthOverflow) (\<lambda>n.
     if n > pnl_max_value_nodes limits then Err (PLD_ValueNodeLimit (pnl_max_value_nodes limits) n)
     else
     rbind (ok_or (checked_add u64_max (pls_value_payload_bytes st) (m_payload_bytes metrics))
       PLD_LengthOverflow) (\<lambda>p.
     if p > pnl_max_value_payload_bytes limits
     then Err (PLD_ValuePayloadLimit (pnl_max_value_payload_bytes limits) p)
     else Ok (v, \<lparr>pls_value_nodes = n, pls_value_payload_bytes = p\<rparr>)))))"

definition decode_effect ::
    "bytes \<Rightarrow> PlanDecodeLimits \<Rightarrow> PlanDecodeState \<Rightarrow> PlanDecodeError + Effect \<times> PlanDecodeState" where
  "decode_effect bs limits st =
     rbind (plan_take_u32 (cursor_new bs)) (\<lambda>(ordinal, c).
     rbind (plan_take_u32 c) (\<lambda>(operation, c).
     rbind (plan_take_hash32 c) (\<lambda>(authority, c).
     rbind (plan_take_hash32 c) (\<lambda>(subject, c).
     rbind (plan_take_blob c) (\<lambda>(encoded, c).
     rbind (decode_plan_value encoded limits st) (\<lambda>(payload, st).
     rbind (ensure_plan_consumed c) (\<lambda>_.
       Ok (\<lparr>eff_ordinal = ordinal, eff_operation = operation, eff_authority = authority,
            eff_subject = subject, eff_payload = payload\<rparr>, st))))))))"

definition decode_outbox_entry ::
    "bytes \<Rightarrow> PlanDecodeLimits \<Rightarrow> PlanDecodeState \<Rightarrow> PlanDecodeError + OutboxEntry \<times> PlanDecodeState" where
  "decode_outbox_entry bs limits st =
     rbind (plan_take_u32 (cursor_new bs)) (\<lambda>(ordinal, c).
     rbind (plan_take_u32 c) (\<lambda>(channel, c).
     rbind (plan_take_blob c) (\<lambda>(encoded_destination, c).
     rbind (decode_plan_value encoded_destination limits st) (\<lambda>(destination, st).
     rbind (plan_take_blob c) (\<lambda>(encoded_payload, c).
     rbind (decode_plan_value encoded_payload limits st) (\<lambda>(payload, st).
     rbind (ensure_plan_consumed c) (\<lambda>_.
       Ok (\<lparr>ob_ordinal = ordinal, ob_channel = channel, ob_destination = destination,
            ob_payload = payload\<rparr>, st))))))))"

abbreviation plan_decode_state_default :: PlanDecodeState where
  "plan_decode_state_default \<equiv> \<lparr>pls_value_nodes = 0, pls_value_payload_bytes = 0\<rparr>"

definition decode_commit_plan :: "bytes \<Rightarrow> PlanDecodeLimits \<Rightarrow> PlanDecodeError + CommitPlan" where
  "decode_commit_plan bs limits =
     rbind (enforce_plan_input_limit bs limits) (\<lambda>_.
     rbind (plan_take_u32 (cursor_new bs)) (\<lambda>(effect_count, c).
     if unat effect_count > pnl_max_effects limits
     then Err (PLD_EffectLimit (pnl_max_effects limits) (unat effect_count))
     else
     rbind (plan_collection_capacity (unat effect_count) (cursor_remaining c) 4) (\<lambda>_.
     rbind (decode_times (unat effect_count)
         (\<lambda>c st. rbind (plan_take_blob c) (\<lambda>(encoded, c).
                 rbind (decode_effect encoded limits st) (\<lambda>(e, st). Ok (e, c, st))))
         c plan_decode_state_default) (\<lambda>(effects, c, _).
     rbind (ensure_plan_consumed c) (\<lambda>_.
     rbind (map_err PLD_Plan (commit_plan_try_new effects)) (\<lambda>p.
     rbind (ensure_canonical_plan bs (commit_plan_canonical_bytes p)) (\<lambda>_. Ok p)))))))"

definition decode_outbox_plan :: "bytes \<Rightarrow> PlanDecodeLimits \<Rightarrow> PlanDecodeError + OutboxPlan" where
  "decode_outbox_plan bs limits =
     rbind (enforce_plan_input_limit bs limits) (\<lambda>_.
     rbind (plan_take_u32 (cursor_new bs)) (\<lambda>(entry_count, c).
     if unat entry_count > pnl_max_outbox_entries limits
     then Err (PLD_OutboxEntryLimit (pnl_max_outbox_entries limits) (unat entry_count))
     else
     rbind (plan_collection_capacity (unat entry_count) (cursor_remaining c) 4) (\<lambda>_.
     rbind (decode_times (unat entry_count)
         (\<lambda>c st. rbind (plan_take_blob c) (\<lambda>(encoded, c).
                 rbind (decode_outbox_entry encoded limits st) (\<lambda>(e, st). Ok (e, c, st))))
         c plan_decode_state_default) (\<lambda>(entries, c, _).
     rbind (ensure_plan_consumed c) (\<lambda>_.
     rbind (map_err PLD_Plan (outbox_plan_try_new entries)) (\<lambda>p.
     rbind (ensure_canonical_plan bs (outbox_plan_canonical_bytes p)) (\<lambda>_. Ok p)))))))"

end
