(* ===== verification/Zeno_Patch_Laws.thy ===== *)
theory Zeno_Patch_Laws
  imports Zeno_Patch
begin

text \<open>
  What patches promise.  The overlap check of \<^verbatim>\<open>try_new\<close> compares neighbours only, and that is
  shown to separate every pair of paths.  Reading and writing by path is the locale
  \<open>path_tree\<close>, interpreted on values: an edit is seen at its path and at no disjoint path.
  Hence a patch that applies has met every precondition against the \<^emph>\<open>original\<close> state, has
  every effect in the final state, and changes nothing else.
\<close>

section \<open>Overlap check\<close>

definition disjoint_paths :: "'a list \<Rightarrow> 'a list \<Rightarrow> bool" where
  "disjoint_paths p q \<longleftrightarrow> \<not> prefix p q \<and> \<not> prefix q p"

lemma disjoint_paths_sym: "disjoint_paths p q \<longleftrightarrow> disjoint_paths q p"
  by (auto simp: disjoint_paths_def)

lemma is_prefix_of_prefix: "is_prefix_of p q \<longleftrightarrow> prefix p q"
proof (induction p arbitrary: q)
  case (Cons a p)
  then show ?case by (cases q) (auto simp: is_prefix_of_def)
qed (simp add: is_prefix_of_def)

lemma prefix_le: "prefix p q \<Longrightarrow> p \<le> (q :: 'a::linorder list)"
proof (induction p arbitrary: q)
  case (Cons a p)
  then show ?case by (cases q) auto
qed simp

text \<open>In the lexicographic order the extensions of a list form an interval that starts at it.\<close>

lemma prefix_between:
  "p \<le> q \<Longrightarrow> q \<le> r \<Longrightarrow> prefix p r \<Longrightarrow> prefix p (q :: 'a::linorder list)"
proof (induction p arbitrary: q r)
  case (Cons a p)
  from Cons.prems(3) obtain r' where r: "r = a # r'" "prefix p r'" by (cases r) auto
  with Cons.prems obtain b q' where q: "q = b # q'" by (cases q) auto
  with Cons.prems r have "a = b" "p \<le> q'" "q' \<le> r'" by auto
  with Cons.IH r q show ?case by auto
qed simp

lemma adjacent_prefix_disjoint:
  "sorted paths \<Longrightarrow> \<not> adjacent_prefix paths \<Longrightarrow> sorted_wrt disjoint_paths paths"
proof (induction paths rule: adjacent_prefix.induct)
  case (1 a b paths)
  have "disjoint_paths a c" if "c \<in> set (b # paths)" for c
  proof -
    have le: "a \<le> b" "b \<le> c" "a \<le> c" using "1.prems"(1) that by auto
    have "\<not> prefix a b" using "1.prems"(2) by (simp add: is_prefix_of_prefix)
    with prefix_between [OF le(1,2)] have "\<not> prefix a c" by blast
    moreover from this le(3) have "\<not> prefix c a" using prefix_le [of c a] by auto
    ultimately show ?thesis by (simp add: disjoint_paths_def)
  qed
  with 1 show ?case by simp
qed simp_all

section \<open>Trees accessed by path\<close>

fun walk :: "('v \<Rightarrow> 's \<Rightarrow> 'e + 'v) \<Rightarrow> 'v \<Rightarrow> 's list \<Rightarrow> 'e + 'v" where
  "walk child v [] = Ok v"
| "walk child v (s # path) = rbind (child v s) (\<lambda>c. walk child c path)"

fun edit :: "('v \<Rightarrow> 's \<Rightarrow> 'e + 'v) \<Rightarrow> ('v \<Rightarrow> 's \<Rightarrow> 'v \<Rightarrow> 'e + 'v) \<Rightarrow> ('v \<Rightarrow> 'e + 'v) \<Rightarrow>
    's list \<Rightarrow> 'v \<Rightarrow> 'e + 'v" where
  "edit child set_child f [] v = f v"
| "edit child set_child f (s # path) v =
     rbind (child v s) (\<lambda>c. rbind (edit child set_child f path c) (set_child v s))"

text \<open>What a container promises for one step: the child just stored is found, the other
  children stay, and valid parts make a valid whole.\<close>

locale path_tree =
  fixes child :: "'v \<Rightarrow> 's \<Rightarrow> 'e + 'v"
    and set_child :: "'v \<Rightarrow> 's \<Rightarrow> 'v \<Rightarrow> 'e + 'v"
    and valid :: "'v \<Rightarrow> bool"
  assumes child_valid: "valid v \<Longrightarrow> child v s = Inr c \<Longrightarrow> valid c"
    and set_valid: "valid v \<Longrightarrow> valid c \<Longrightarrow> set_child v s c = Inr v' \<Longrightarrow> valid v'"
    and child_set: "valid v \<Longrightarrow> set_child v s c = Inr v' \<Longrightarrow> child v' s = Inr c"
    and child_set_other: "valid v \<Longrightarrow> set_child v s c = Inr v' \<Longrightarrow> t \<noteq> s \<Longrightarrow> child v' t = child v t"
begin

lemma walk_valid: "valid v \<Longrightarrow> walk child v path = Inr c \<Longrightarrow> valid c"
  by (induction path arbitrary: v) (auto dest: child_valid)

lemma edit_target:
  "valid v \<Longrightarrow> edit child set_child f path v = Inr v' \<Longrightarrow>
    \<exists>c c'. walk child v path = Inr c \<and> f c = Inr c' \<and> walk child v' path = Inr c'"
  by (induction path arbitrary: v v') (auto dest: child_valid child_set, blast dest: child_valid child_set)

lemma edit_valid:
  assumes "\<And>c c'. valid c \<Longrightarrow> f c = Inr c' \<Longrightarrow> valid c'"
  shows "valid v \<Longrightarrow> edit child set_child f path v = Inr v' \<Longrightarrow> valid v'"
  by (induction path arbitrary: v v') (auto intro: assms set_valid child_valid)

lemma edit_other:
  "valid v \<Longrightarrow> edit child set_child f path v = Inr v' \<Longrightarrow> disjoint_paths path q \<Longrightarrow>
    walk child v' q = walk child v q"
proof (induction path arbitrary: v v' q)
  case (Cons s path)
  from Cons.prems(3) obtain t q' where q: "q = t # q'" by (cases q) (auto simp: disjoint_paths_def)
  from Cons.prems(2) obtain c c' where c: "child v s = Inr c" "edit child set_child f path c = Inr c'"
      "set_child v s c' = Inr v'" by auto
  show ?case
  proof (cases "t = s")
    case True
    with Cons.prems(3) q have "disjoint_paths path q'" by (auto simp: disjoint_paths_def)
    with Cons.IH [OF child_valid [OF Cons.prems(1) c(1)] c(2)] show ?thesis
      using True q c child_set [OF Cons.prems(1) c(3)] by simp
  next
    case False
    with child_set_other [OF Cons.prems(1) c(3)] show ?thesis by (simp add: q)
  qed
qed (simp add: disjoint_paths_def)

end

lemma walk_append: "walk child v (p @ q) = rbind (walk child v p) (\<lambda>c. walk child c q)"
  by (induction p arbitrary: v) (simp_all add: rbind_assoc)

section \<open>Values as a tree\<close>

interpretation field_index: ordered_index field_id search_field
  unfolding search_field_def by (rule binary_search_by_key_index)

interpretation entry_index: ordered_index encoded_key search_entry
  unfolding search_entry_def by (rule binary_search_by_key_index)

definition child_at :: "Value \<Rightarrow> PathSegment \<Rightarrow> PatchError + Value" where
  "child_at v s = lookup v [s]"

definition set_child_at :: "Value \<Rightarrow> PathSegment \<Rightarrow> Value \<Rightarrow> PatchError + Value" where
  "set_child_at v s c = replace_at v [s] c"

lemma lookup_walk: "lookup v path = walk child_at v path"
proof (induction path arbitrary: v)
  case (Cons s path)
  have "lookup v (s # path) = rbind (child_at v s) (\<lambda>c. lookup c path)"
    by (cases v; cases s) (simp_all add: child_at_def rbind_assoc)
  with Cons show ?case by simp
qed simp

lemma replace_edit: "replace_at v path x = edit child_at set_child_at (\<lambda>_. Ok x) path v"
proof (induction path arbitrary: v)
  case (Cons s path)
  have "replace_at v (s # path) x =
      rbind (child_at v s) (\<lambda>c. rbind (replace_at c path x) (set_child_at v s))"
    by (cases v; cases s)
      (auto simp: child_at_def set_child_at_def rbind_def map_err_def ok_or_def split: sum.splits option.splits)
  with Cons show ?case by simp
qed simp

lemma insert_edit:
  "insert_at v (path @ [s]) k x = edit child_at set_child_at (\<lambda>c. insert_last c s k x) path v"
proof (induction path arbitrary: v)
  case (Cons t path)
  obtain u path' where "path @ [s] = u # path'" by (cases path) auto
  then have "insert_at v (t # path @ [s]) k x =
      rbind (child_at v t) (\<lambda>c. rbind (insert_at c (path @ [s]) k x) (set_child_at v t))"
    by (cases v; cases t)
      (auto simp: child_at_def set_child_at_def rbind_def map_err_def ok_or_def split: sum.splits option.splits)
  with Cons show ?case by simp
qed simp

lemma delete_edit:
  "delete_at v (path @ [s]) = edit child_at set_child_at (\<lambda>c. delete_last c s) path v"
proof (induction path arbitrary: v)
  case (Cons t path)
  obtain u path' where "path @ [s] = u # path'" by (cases path) auto
  then have "delete_at v (t # path @ [s]) =
      rbind (child_at v t) (\<lambda>c. rbind (delete_at c (path @ [s])) (set_child_at v t))"
    by (cases v; cases t)
      (auto simp: child_at_def set_child_at_def rbind_def map_err_def ok_or_def split: sum.splits option.splits)
  with Cons show ?case by simp
qed simp

text \<open>One step into each container.\<close>

lemma child_at_record:
  "child_at (VRecord fs) (PS_Field i) =
     (case index_lookup search_field i fs of None \<Rightarrow> Err PE_PathNotFound | Some f \<Rightarrow> Ok (field_value f))"
  by (simp add: child_at_def index_lookup_def split: sum.splits)

lemma child_at_map:
  "child_at (VMap es) (PS_MapKey k) =
     (case index_lookup search_entry k es of None \<Rightarrow> Err PE_PathNotFound | Some e \<Rightarrow> Ok (entry_value e))"
  by (simp add: child_at_def index_lookup_def split: sum.splits)

lemma get_item_Ok: "get_item i items = Inr n \<longleftrightarrow> n = unat i \<and> n < length items"
  using unsigned_less [of i, where ?'a = nat] by (auto simp: get_item_def)

lemma get_item_length: "length xs = length ys \<Longrightarrow> get_item i xs = get_item i ys"
  by (simp add: get_item_def)

lemma record_canonical_eq: "record_canonical fs = Inr v \<longleftrightarrow>
    v = VRecord fs \<and> length fs \<le> u32_max \<and> sorted_wrt (<) (map field_id fs)"
  using ensure_strict_fields_Ok [of fs "()"]
  by (auto simp: record_canonical_def check_wire_length_eq split: if_splits)

lemma map_canonical_eq: "map_canonical es = Inr v \<longleftrightarrow>
    v = VMap es \<and> length es \<le> u32_max \<and> sorted_wrt (<) (map encoded_key es)
    \<and> (\<forall>e\<in>set es. encodable (entry_value e) \<and> length (enc (entry_value e)) \<le> u32_max)"
  using ensure_strict_map_keys_Ok [of es "()"] check_entry_lengths_Ok [of es "()"]
  by (auto simp: map_canonical_def check_wire_length_eq split: if_splits)

lemma map_entry_try_new_eq:
  "map_entry_try_new k v = Inr e \<Longrightarrow> e = MkMapEntry (enc k) k v \<and> length (enc k) \<le> u32_max"
  by (auto simp: map_entry_try_new_def map_entry_try_new_with_limits_def check_wire_length_eq
      dest!: zcve_bytes_with_limits_Ok split: if_splits)

lemma entry_key_valid: "entry_valid e \<Longrightarrow> enc (entry_key e) = encoded_key e"
  by (simp add: entry_valid_def)

text \<open>What storing a child does, container by container.\<close>

lemma set_child_record:
  assumes "set_child_at (VRecord fs) (PS_Field i) c = Inr v'"
  obtains index where "search_field i fs = Inr index" "v' = VRecord (fs[index := MkField i c])"
    "length fs \<le> u32_max"
  using assms by (auto simp: set_child_at_def record_canonical_eq field_new_def)

lemma set_child_map:
  assumes "set_child_at (VMap es) (PS_MapKey k) c = Inr v'" and "repr_valid (VMap es)"
  obtains index e where "search_entry k es = Inr index" "v' = VMap (es[index := e])"
    "encoded_key e = k" "entry_value e = c" "entry_key e = entry_key (es ! index)"
    "length (enc c) \<le> u32_max"
proof -
  from assms(1) obtain index e where e: "search_entry k es = Inr index"
      "map_entry_try_new (entry_key (es ! index)) c = Inr e" "map_canonical (es[index := e]) = Inr v'"
    by (auto simp: set_child_at_def)
  from assms(2) have srt: "sorted_wrt (<) (map encoded_key es)" and ev: "\<forall>e\<in>set es. entry_valid e"
    by (auto simp: repr_valid_entries_all)
  from entry_index.search_found [OF srt e(1)] have i: "index < length es" "encoded_key (es ! index) = k"
    by auto
  from map_entry_try_new_eq [OF e(2)] i ev have "encoded_key e = k" "entry_value e = c"
      "entry_key e = entry_key (es ! index)"
    by (auto simp: entry_key_valid)
  moreover have "e \<in> set (es[index := e])" using i(1) by (simp add: set_update_memI)
  ultimately show ?thesis using that [OF e(1)] e(3) by (auto simp: map_canonical_eq)
qed

lemma set_child_items:
  "set_child_at (VTuple xs) (PS_TupleIndex i) c = Inr v' \<longleftrightarrow>
     unat i < length xs \<and> length xs \<le> u32_max \<and> v' = VTuple (xs[unat i := c])"
  "set_child_at (VVector xs) (PS_VectorIndex i) c = Inr v' \<longleftrightarrow>
     unat i < length xs \<and> length xs \<le> u32_max \<and> v' = VVector (xs[unat i := c])"
  by (auto simp: set_child_at_def get_item_Ok value_tuple_def value_vector_def check_wire_length_eq)

lemma set_child_cases:
  assumes "set_child_at v s c = Inr v'"
  obtains (of_record) fs i where "v = VRecord fs" "s = PS_Field i"
  | (of_tuple) xs i where "v = VTuple xs" "s = PS_TupleIndex i"
  | (of_vector) xs i where "v = VVector xs" "s = PS_VectorIndex i"
  | (of_sum) t n y where "v = VSum t n (Some y)" "s = PS_SumPayload" "v' = VSum t n (Some c)"
  | (of_map) es k where "v = VMap es" "s = PS_MapKey k"
  using assms by (cases v; cases s) (auto simp: set_child_at_def)

lemma child_at_items:
  "child_at (VTuple xs) (PS_TupleIndex i) =
     (if unat i < length xs then Ok (xs ! unat i) else Err PE_PathNotFound)"
  "child_at (VVector xs) (PS_VectorIndex i) =
     (if unat i < length xs then Ok (xs ! unat i) else Err PE_PathNotFound)"
  using unsigned_less [of i, where ?'a = nat] by (auto simp: child_at_def get_item_def try_from_def)

lemma child_at_sum: "child_at (VSum t n (Some c)) PS_SumPayload = Ok c"
  by (simp add: child_at_def)

text \<open>A step of the wrong kind depends on the kind of the value only.\<close>

lemma child_at_mismatch:
  "value_kind v = value_kind v' \<Longrightarrow> child_at v s = Err PE_PathTypeMismatch \<Longrightarrow>
    child_at v' s = Err PE_PathTypeMismatch"
  by (cases v; cases v'; cases s) (auto simp: child_at_def get_item_def rbind_def ok_or_def map_err_def
      split: sum.splits option.splits if_splits)


lemma child_set_record:
  assumes "sorted_wrt (<) (map field_id fs)" and "search_field i fs = Inr index"
  shows "child_at (VRecord (fs[index := MkField i c])) t =
    (if t = PS_Field i then Ok c else child_at (VRecord fs) t)"
proof (cases t)
  case (PS_Field j)
  then show ?thesis
    using field_index.lookup_update [OF assms, of "MkField i c" j] by (simp add: child_at_record)
qed (simp_all add: child_at_def)

lemma child_set_map:
  assumes "sorted_wrt (<) (map encoded_key es)" and "search_entry k es = Inr index" and "encoded_key e = k"
  shows "child_at (VMap (es[index := e])) t =
    (if t = PS_MapKey k then Ok (entry_value e) else child_at (VMap es) t)"
proof (cases t)
  case (PS_MapKey j)
  then show ?thesis
    using entry_index.lookup_update [OF assms, of j] by (simp add: child_at_map)
qed (simp_all add: child_at_def)

lemma child_set_items:
  assumes "unat i < length xs"
  shows "child_at (VTuple (xs[unat i := c])) t =
      (if t = PS_TupleIndex i then Ok c else child_at (VTuple xs) t)"
    and "child_at (VVector (xs[unat i := c])) t =
      (if t = PS_VectorIndex i then Ok c else child_at (VVector xs) t)"
proof -
  show "child_at (VTuple (xs[unat i := c])) t =
      (if t = PS_TupleIndex i then Ok c else child_at (VTuple xs) t)"
  proof (cases t)
    case (PS_TupleIndex j)
    then show ?thesis using assms by (simp add: child_at_items word_unat_eq_iff)
  qed (simp_all add: child_at_def)
  show "child_at (VVector (xs[unat i := c])) t =
      (if t = PS_VectorIndex i then Ok c else child_at (VVector xs) t)"
  proof (cases t)
    case (PS_VectorIndex j)
    then show ?thesis using assms by (simp add: child_at_items word_unat_eq_iff)
  qed (simp_all add: child_at_def)
qed

lemma child_at_set:
  assumes v: "repr_valid v" and set: "set_child_at v s c = Inr v'"
  shows "child_at v' t = (if t = s then Ok c else child_at v t)"
  using set
proof (cases rule: set_child_cases)
  case (of_record fs i)
  with set obtain index where "search_field i fs = Inr index" "v' = VRecord (fs[index := MkField i c])"
    by (metis set_child_record)
  then show ?thesis using of_record v child_set_record [of fs i index c t] by simp
next
  case (of_map es k)
  with set v obtain index e where "search_entry k es = Inr index" "v' = VMap (es[index := e])"
      "encoded_key e = k" "entry_value e = c"
    by (metis set_child_map)
  then show ?thesis using of_map v child_set_map [of es k index e t] by simp
next
  case (of_sum u n y)
  then show ?thesis by (cases t) (simp_all add: child_at_def)
qed (use set in \<open>auto simp: set_child_items child_set_items\<close>)

lemma child_at_valid: "repr_valid v \<Longrightarrow> child_at v s = Inr c \<Longrightarrow> repr_valid c"
proof (cases v; cases s)
  fix fs i assume v: "repr_valid v" "child_at v s = Inr c" "v = VRecord fs" "s = PS_Field i"
  then obtain f where "index_lookup search_field i fs = Some f" "c = field_value f"
    by (auto simp: child_at_record split: option.splits)
  with v show "repr_valid c"
    using field_index.lookup_iff [of fs i f] by (auto simp: repr_valid_fields_all field_valid_def)
next
  fix es k assume v: "repr_valid v" "child_at v s = Inr c" "v = VMap es" "s = PS_MapKey k"
  then obtain e where "index_lookup search_entry k es = Some e" "c = entry_value e"
    by (auto simp: child_at_map split: option.splits)
  with v show "repr_valid c"
    using entry_index.lookup_iff [of es k e] by (auto simp: repr_valid_entries_all entry_valid_def)
next
  fix t n x assume "repr_valid v" "child_at v s = Inr c" "v = VSum t n x" "s = PS_SumPayload"
  then show "repr_valid c" by (cases x) (auto simp: child_at_def)
qed (auto simp: child_at_def child_at_items repr_valid_items_all get_item_Ok)

lemma set_child_valid:
  assumes v: "repr_valid v" and c: "repr_valid c" and set: "set_child_at v s c = Inr v'"
  shows "repr_valid v'"
  using set
proof (cases rule: set_child_cases)
  case (of_record fs i)
  with set obtain index where i: "search_field i fs = Inr index" "v' = VRecord (fs[index := MkField i c])"
    by (metis set_child_record)
  from of_record v have srt: "sorted_wrt (<) (map field_id fs)" by simp
  from field_index.search_found [OF srt i(1)] field_index.update_sorted [OF srt, of index "MkField i c"]
  show ?thesis using i of_record v c
    by (auto simp: repr_valid_fields_all field_valid_def dest!: set_update_subset_insert [THEN subsetD])
next
  case (of_map es k)
  with set v obtain index e where i: "search_entry k es = Inr index" "v' = VMap (es[index := e])"
      "encoded_key e = k" "entry_value e = c" "entry_key e = entry_key (es ! index)" "length (enc c) \<le> u32_max"
    by (metis set_child_map)
  from of_map v have srt: "sorted_wrt (<) (map encoded_key es)"
    and ev: "\<forall>e\<in>set es. entry_valid e \<and> length (enc (entry_value e)) \<le> u32_max"
    by (auto simp: repr_valid_entries_all)
  from entry_index.search_found [OF srt i(1)] have n: "index < length es" "encoded_key (es ! index) = k" by auto
  with ev have "entry_valid (es ! index)" by simp
  with i n c have "entry_valid e" by (auto simp: entry_valid_def)
  with i n of_map v entry_index.update_sorted [OF srt n(1), of e] show ?thesis
    by (auto simp: repr_valid_entries_all dest!: set_update_subset_insert [THEN subsetD])
qed (use set v c in \<open>auto simp: set_child_items repr_valid_items_all
    dest!: set_update_subset_insert [THEN subsetD]\<close>)

interpretation value_tree: path_tree child_at set_child_at repr_valid
proof
  fix v v' c s t
  show "repr_valid v \<Longrightarrow> child_at v s = Inr c \<Longrightarrow> repr_valid c" by (rule child_at_valid)
  show "repr_valid v \<Longrightarrow> repr_valid c \<Longrightarrow> set_child_at v s c = Inr v' \<Longrightarrow> repr_valid v'"
    by (rule set_child_valid)
  show "repr_valid v \<Longrightarrow> set_child_at v s c = Inr v' \<Longrightarrow> child_at v' s = Inr c"
    using child_at_set [of v s c v' s] by simp
  show "repr_valid v \<Longrightarrow> set_child_at v s c = Inr v' \<Longrightarrow> t \<noteq> s \<Longrightarrow> child_at v' t = child_at v t"
    using child_at_set [of v s c v' t] by simp
qed

section \<open>Insertion and deletion\<close>

lemma vec_insert_valid_record:
  assumes "repr_valid (VRecord fs)" "field_valid f" "record_canonical (vec_insert i f fs) = Inr v'"
  shows "repr_valid v'"
  using assms record_canonical_valid [OF assms(3)] by (auto simp: repr_valid_fields_all)

lemma insert_last_record:
  assumes v: "repr_valid (VRecord fs)" and x: "repr_valid x"
    and ins: "insert_last (VRecord fs) (PS_Field i) k x = Inr v'"
  shows "repr_valid v'" "child_at (VRecord fs) (PS_Field i) = Inl PE_PathNotFound"
    "child_at v' t = (if t = PS_Field i then Ok x else child_at (VRecord fs) t)"
proof -
  let ?f = "MkField i x"
  from ins obtain n where n: "search_field (field_id ?f) fs = Inl n"
      "record_canonical (vec_insert n ?f fs) = Inr v'"
    by (auto simp: field_new_def split: sum.splits)
  from v have srt: "sorted_wrt (<) (map field_id fs)" by simp
  show "repr_valid v'" by (rule vec_insert_valid_record [OF v _ n(2)]) (simp add: field_valid_def x)
  show "child_at (VRecord fs) (PS_Field i) = Inl PE_PathNotFound"
    using n(1) by (simp add: child_at_record index_lookup_def)
  show "child_at v' t = (if t = PS_Field i then Ok x else child_at (VRecord fs) t)"
  proof (cases t)
    case (PS_Field j)
    with n show ?thesis using field_index.lookup_insert [OF srt n(1), of j]
      by (simp add: record_canonical_eq child_at_record)
  qed (use n(2) in \<open>simp_all add: record_canonical_eq child_at_def\<close>)
qed

lemma insert_last_map:
  assumes v: "repr_valid (VMap es)" and x: "repr_valid x" and key: "\<forall>y\<in>set_option key. repr_valid y"
    and ins: "insert_last (VMap es) (PS_MapKey k) key x = Inr v'"
  shows "repr_valid v'" "child_at (VMap es) (PS_MapKey k) = Inl PE_PathNotFound"
    "child_at v' t = (if t = PS_MapKey k then Ok x else child_at (VMap es) t)"
proof -
  from ins obtain n e y where n: "search_entry k es = Inl n" "key = Some y" "map_entry_try_new y x = Inr e"
      "encoded_key e = k" "map_canonical (vec_insert n e es) = Inr v'"
    by (cases "search_entry k es") (auto split: if_splits)
  from v have srt: "sorted_wrt (<) (map encoded_key es)" by simp
  have ev: "entry_valid e" and ex: "entry_value e = x"
    using map_entry_valid [OF n(3) [unfolded map_entry_try_new_def]] key n(2) x by auto
  show "repr_valid v'"
    by (rule map_canonical_valid [OF n(5)]) (use v ev in \<open>auto simp: repr_valid_entries_all\<close>)
  show "child_at (VMap es) (PS_MapKey k) = Inl PE_PathNotFound"
    using n(1) by (simp add: child_at_map index_lookup_def)
  show "child_at v' t = (if t = PS_MapKey k then Ok x else child_at (VMap es) t)"
  proof (cases t)
    case (PS_MapKey j)
    with n show ?thesis using entry_index.lookup_insert [OF srt, of e n j] ex
      by (simp add: map_canonical_eq child_at_map)
  qed (use n(5) in \<open>simp_all add: map_canonical_eq child_at_def\<close>)
qed

lemma insert_last_laws:
  assumes "repr_valid v" "repr_valid x" "\<forall>y\<in>set_option key. repr_valid y"
    and "insert_last v s key x = Inr v'"
  shows "repr_valid v'" "child_at v s = Inl PE_PathNotFound"
    "child_at v' t = (if t = s then Ok x else child_at v t)"
proof -
  have "repr_valid v' \<and> child_at v s = Inl PE_PathNotFound
      \<and> child_at v' t = (if t = s then Ok x else child_at v t)"
    using assms(4)
  proof (cases "(v, s, key, x)" rule: insert_last.cases)
    case (1 fs i k y)
    then show ?thesis using insert_last_record [of fs x i key v'] assms by simp
  next
    case (2 es k key' y)
    then show ?thesis using insert_last_map [of es x key k v'] assms by simp
  qed simp_all
  then show "repr_valid v'" "child_at v s = Inl PE_PathNotFound"
    "child_at v' t = (if t = s then Ok x else child_at v t)" by simp_all
qed

lemma delete_last_record:
  assumes v: "repr_valid (VRecord fs)" and del: "delete_last (VRecord fs) (PS_Field i) = Inr v'"
  shows "repr_valid v'"
    "child_at v' t = (if t = PS_Field i then Inl PE_PathNotFound else child_at (VRecord fs) t)"
proof -
  from del obtain n where n: "search_field i fs = Inr n" "record_canonical (vec_remove n fs) = Inr v'"
    by auto
  from v have srt: "sorted_wrt (<) (map field_id fs)" by simp
  show "repr_valid v'" using v record_canonical_valid [OF n(2)] set_vec_remove [of n fs]
    by (auto simp: repr_valid_fields_all)
  show "child_at v' t = (if t = PS_Field i then Inl PE_PathNotFound else child_at (VRecord fs) t)"
  proof (cases t)
    case (PS_Field j)
    with n show ?thesis using field_index.lookup_remove [OF srt n(1), of j]
      by (simp add: record_canonical_eq child_at_record)
  qed (use n(2) in \<open>simp_all add: record_canonical_eq child_at_def\<close>)
qed

lemma delete_last_map:
  assumes v: "repr_valid (VMap es)" and del: "delete_last (VMap es) (PS_MapKey k) = Inr v'"
  shows "repr_valid v'"
    "child_at v' t = (if t = PS_MapKey k then Inl PE_PathNotFound else child_at (VMap es) t)"
proof -
  from del obtain n where n: "search_entry k es = Inr n" "map_canonical (vec_remove n es) = Inr v'"
    by auto
  from v have srt: "sorted_wrt (<) (map encoded_key es)" by simp
  show "repr_valid v'" using v map_canonical_valid [OF n(2)] set_vec_remove [of n es]
    by (auto simp: repr_valid_entries_all)
  show "child_at v' t = (if t = PS_MapKey k then Inl PE_PathNotFound else child_at (VMap es) t)"
  proof (cases t)
    case (PS_MapKey j)
    with n show ?thesis using entry_index.lookup_remove [OF srt n(1), of j]
      by (simp add: map_canonical_eq child_at_map)
  qed (use n(2) in \<open>simp_all add: map_canonical_eq child_at_def\<close>)
qed

lemma delete_last_laws:
  assumes "repr_valid v" and "delete_last v s = Inr v'"
  shows "repr_valid v'" "child_at v' t = (if t = s then Inl PE_PathNotFound else child_at v t)"
proof -
  have "repr_valid v' \<and> child_at v' t = (if t = s then Inl PE_PathNotFound else child_at v t)"
    using assms(2)
  proof (cases "(v, s)" rule: delete_last.cases)
    case (1 fs i)
    then show ?thesis using delete_last_record [of fs i v'] assms by simp
  next
    case (2 es k)
    then show ?thesis using delete_last_map [of es k v'] assms by simp
  qed simp_all
  then show "repr_valid v'" "child_at v' t = (if t = s then Inl PE_PathNotFound else child_at v t)"
    by simp_all
qed

section \<open>One operation\<close>

text \<open>An edit that changes one child of the node at a path leaves every disjoint path alone.\<close>

lemma edit_last_other:
  assumes v: "repr_valid v" and e: "edit child_at set_child_at f path v = Inr v'"
    and f: "\<And>c c' t. repr_valid c \<Longrightarrow> f c = Inr c' \<Longrightarrow> t \<noteq> s \<Longrightarrow> child_at c' t = child_at c t"
    and d: "disjoint_paths (path @ [s]) q"
  shows "lookup v' q = lookup v q"
proof (cases "disjoint_paths path q")
  case True
  with value_tree.edit_other [OF v e] show ?thesis by (simp add: lookup_walk)
next
  case False
  moreover have "\<not> prefix q path" using d by (auto simp: disjoint_paths_def)
  ultimately obtain r where r: "q = path @ r" by (auto simp: disjoint_paths_def prefix_def)
  with d obtain t q' where q: "q = path @ t # q'" "t \<noteq> s"
    by (cases r) (auto simp: disjoint_paths_def)
  from value_tree.edit_target [OF v e] obtain c c' where c: "walk child_at v path = Inr c" "f c = Inr c'"
      "walk child_at v' path = Inr c'" by blast
  from f [OF value_tree.walk_valid [OF v c(1)] c(2) q(2)] c show ?thesis
    by (simp add: lookup_walk walk_append q(1))
qed

fun op_valid :: "PatchOp \<Rightarrow> bool" where
  "op_valid (PO_Insert _ key v) \<longleftrightarrow> repr_valid v \<and> (\<forall>k\<in>set_option key. repr_valid k)"
| "op_valid (PO_Update _ _ v) \<longleftrightarrow> repr_valid v"
| "op_valid (PO_Delete _ _) \<longleftrightarrow> True"

text \<open>What an operation requires of the state before it, and what it leaves behind.\<close>

fun op_requires :: "hasher \<Rightarrow> PatchOp \<Rightarrow> Value \<Rightarrow> bool" where
  "op_requires H (PO_Insert path _ _) v \<longleftrightarrow> lookup v path = Inl PE_PathNotFound"
| "op_requires H (PO_Update path h _) v \<longleftrightarrow>
     (\<exists>old. lookup v path = Inr old \<and> hash_precondition_value H old = Inr h)"
| "op_requires H (PO_Delete path h) v \<longleftrightarrow>
     (\<exists>old. lookup v path = Inr old \<and> hash_precondition_value H old = Inr h)"

fun op_ensures :: "PatchOp \<Rightarrow> Value \<Rightarrow> bool" where
  "op_ensures (PO_Insert path _ x) v \<longleftrightarrow> lookup v path = Inr x"
| "op_ensures (PO_Update path _ x) v \<longleftrightarrow> lookup v path = Inr x"
| "op_ensures (PO_Delete path _) v \<longleftrightarrow> lookup v path = Inl PE_PathNotFound"

lemma op_requires_cong: "lookup v (op_path op) = lookup v' (op_path op) \<Longrightarrow> op_requires H op v = op_requires H op v'"
  by (cases op) simp_all

lemma op_ensures_cong: "lookup v (op_path op) = lookup v' (op_path op) \<Longrightarrow> op_ensures op v = op_ensures op v'"
  by (cases op) simp_all

lemma insert_at_laws:
  assumes v: "repr_valid v" "op_valid (PO_Insert path key x)" and ins: "insert_at v path key x = Inr v'"
  shows "repr_valid v'" "lookup v path = Inl PE_PathNotFound" "lookup v' path = Inr x"
    "disjoint_paths path q \<Longrightarrow> lookup v' q = lookup v q"
proof -
  from ins obtain p s where path: "path = p @ [s]" by (cases path rule: rev_cases) auto
  let ?f = "\<lambda>c. insert_last c s key x"
  have e: "edit child_at set_child_at ?f p v = Inr v'" using ins by (simp add: path insert_edit)
  from v(2) have x: "repr_valid x" "\<forall>y\<in>set_option key. repr_valid y" by simp_all
  note laws = insert_last_laws [OF _ x]
  from value_tree.edit_target [OF v(1) e] obtain c c' where c: "walk child_at v p = Inr c" "?f c = Inr c'"
      "walk child_at v' p = Inr c'" by blast
  note cl = laws [OF value_tree.walk_valid [OF v(1) c(1)] c(2)]
  show "repr_valid v'" by (rule value_tree.edit_valid [OF laws(1) v(1) e])
  show "lookup v path = Inl PE_PathNotFound" "lookup v' path = Inr x"
    using c cl(2) cl(3) [of s] by (simp_all add: path lookup_walk walk_append)
  show "disjoint_paths path q \<Longrightarrow> lookup v' q = lookup v q"
    by (rule edit_last_other [OF v(1) e, where s = s]) (simp_all add: laws(3) path)
qed

lemma delete_at_laws:
  assumes v: "repr_valid v" and del: "delete_at v path = Inr v'"
  shows "repr_valid v'" "lookup v' path = Inl PE_PathNotFound"
    "disjoint_paths path q \<Longrightarrow> lookup v' q = lookup v q"
proof -
  from del obtain p s where path: "path = p @ [s]" by (cases path rule: rev_cases) auto
  let ?f = "\<lambda>c. delete_last c s"
  have e: "edit child_at set_child_at ?f p v = Inr v'" using del by (simp add: path delete_edit)
  from value_tree.edit_target [OF v e] obtain c c' where c: "walk child_at v p = Inr c" "?f c = Inr c'"
      "walk child_at v' p = Inr c'" by blast
  note cl = delete_last_laws [OF value_tree.walk_valid [OF v c(1)] c(2)]
  show "repr_valid v'" by (rule value_tree.edit_valid [OF delete_last_laws(1) v e])
  show "lookup v' path = Inl PE_PathNotFound"
    using c cl(2) [of s] by (simp add: path lookup_walk walk_append)
  show "disjoint_paths path q \<Longrightarrow> lookup v' q = lookup v q"
    by (rule edit_last_other [OF v e, where s = s]) (simp_all add: delete_last_laws(2) path)
qed

lemma replace_at_laws:
  assumes v: "repr_valid v" "repr_valid x" and rep: "replace_at v path x = Inr v'"
  shows "repr_valid v'" "lookup v' path = Inr x" "disjoint_paths path q \<Longrightarrow> lookup v' q = lookup v q"
proof -
  have e: "edit child_at set_child_at (\<lambda>_. Ok x) path v = Inr v'" using rep by (simp add: replace_edit)
  show "repr_valid v'" by (rule value_tree.edit_valid [OF _ v(1) e]) (use v(2) in simp)
  show "lookup v' path = Inr x" using value_tree.edit_target [OF v(1) e] by (auto simp: lookup_walk)
  show "disjoint_paths path q \<Longrightarrow> lookup v' q = lookup v q"
    using value_tree.edit_other [OF v(1) e] by (simp add: lookup_walk)
qed

lemma check_old_value_Ok: "check_old_value H v path h = Inr u \<longleftrightarrow>
    (\<exists>old. lookup v path = Inr old \<and> hash_precondition_value H old = Inr h)"
  by (auto simp: check_old_value_def)

lemma apply_op_laws:
  assumes "repr_valid v" "op_valid op" "apply_op H op v = Inr v'"
  shows "repr_valid v'" "op_requires H op v" "op_ensures op v'"
    "disjoint_paths (op_path op) q \<Longrightarrow> lookup v' q = lookup v q"
proof -
  have "repr_valid v' \<and> op_requires H op v \<and> op_ensures op v' \<and>
      (disjoint_paths (op_path op) q \<longrightarrow> lookup v' q = lookup v q)"
  proof (cases op)
    case (PO_Insert path key x)
    with assms insert_at_laws [of v path key x v'] show ?thesis by simp
  next
    case (PO_Update path h x)
    with assms replace_at_laws [of v x path v'] show ?thesis by (auto simp: check_old_value_Ok)
  next
    case (PO_Delete path h)
    with assms delete_at_laws [of v path v'] show ?thesis by (auto simp: check_old_value_Ok)
  qed
  then show "repr_valid v'" "op_requires H op v" "op_ensures op v'"
    "disjoint_paths (op_path op) q \<Longrightarrow> lookup v' q = lookup v q" by simp_all
qed

section \<open>A whole patch\<close>

lemma apply_ops_laws:
  assumes "repr_valid v" "\<forall>op\<in>set ops. op_valid op" "sorted_wrt disjoint_paths (map op_path ops)"
    "fold_res (apply_op H) ops v = Inr v'"
  shows "repr_valid v' \<and> (\<forall>op\<in>set ops. op_requires H op v \<and> op_ensures op v') \<and>
    (\<forall>q. (\<forall>op\<in>set ops. disjoint_paths (op_path op) q) \<longrightarrow> lookup v' q = lookup v q)"
  using assms
proof (induction ops arbitrary: v)
  case (Cons op ops)
  from Cons.prems(4) obtain v1 where v1: "apply_op H op v = Inr v1" "fold_res (apply_op H) ops v1 = Inr v'"
    by auto
  have one: "repr_valid v1" "op_requires H op v" "op_ensures op v1"
      "\<And>q. disjoint_paths (op_path op) q \<Longrightarrow> lookup v1 q = lookup v q"
    using apply_op_laws [OF _ _ v1(1)] Cons.prems by auto
  from Cons.IH [OF one(1)] Cons.prems v1(2) have IH: "repr_valid v'"
      "\<forall>op\<in>set ops. op_requires H op v1 \<and> op_ensures op v'"
      "\<And>q. \<forall>op\<in>set ops. disjoint_paths (op_path op) q \<Longrightarrow> lookup v' q = lookup v1 q"
    by auto
  have dj: "disjoint_paths (op_path op) (op_path op')" if "op' \<in> set ops" for op'
    using Cons.prems(3) that by auto
  have "lookup v' (op_path op) = lookup v1 (op_path op)"
    by (rule IH(3)) (use dj in \<open>simp add: disjoint_paths_sym\<close>)
  then have "op_ensures op v'" using one(3) op_ensures_cong by blast
  moreover have "op_requires H op' v" if "op' \<in> set ops" for op'
    using that IH(2) op_requires_cong [OF one(4) [OF dj [OF that]]] by blast
  ultimately show ?case using IH one by simp
qed simp

lemma patch_try_new_Ok:
  assumes "patch_try_new t r ops = Inr p"
  shows "cp_state_type p = t" "cp_expected_pre_root p = r" "mset (cp_operations p) = mset ops"
    "sorted_wrt disjoint_paths (sort (map op_path ops))"
    "\<forall>op\<in>set ops. validate_insert_shape op = Inr () \<and> (\<exists>k. op_sort_key op = Inr k)"
proof -
  from assms obtain keyed where k: "each_res validate_insert_shape ops = Inr ()"
      "map_res (\<lambda>op. rbind (op_sort_key op) (\<lambda>k. Ok (k, op))) ops = Inr keyed"
      "\<not> adjacent_prefix (sort (map (\<lambda>(_, op). op_path op) (sort_key fst keyed)))"
    and p: "p = \<lparr>cp_state_type = t, cp_expected_pre_root = r, cp_operations = map snd (sort_key fst keyed)\<rparr>"
    by (auto simp: patch_try_new_def Let_def split: if_splits)
  from k(2) have snd: "map snd keyed = ops" and keys: "\<forall>op\<in>set ops. \<exists>k. op_sort_key op = Inr k"
    by (induction ops arbitrary: keyed) auto
  show "cp_state_type p = t" "cp_expected_pre_root p = r" by (simp_all add: p)
  show "mset (cp_operations p) = mset ops"
    using arg_cong [OF snd, of mset] by (simp add: p)
  have "mset (map (\<lambda>(_, op). op_path op) (sort_key fst keyed)) = mset (map op_path (map snd keyed))"
    by (simp add: case_prod_unfold image_mset.compositionality comp_def)
  then have "mset (map (\<lambda>(_, op). op_path op) (sort_key fst keyed)) = mset (map op_path ops)"
    by (simp only: snd)
  then have "sort (map (\<lambda>(_, op). op_path op) (sort_key fst keyed)) = sort (map op_path ops)"
    by (intro properties_for_sort) (simp_all add: mset_eq_setD)
  with k(3) show "sorted_wrt disjoint_paths (sort (map op_path ops))"
    by (intro adjacent_prefix_disjoint) simp_all
  show "\<forall>op\<in>set ops. validate_insert_shape op = Inr () \<and> (\<exists>k. op_sort_key op = Inr k)"
    using k(1) keys by (simp add: each_res_eq_Ok)
qed

lemma disjoint_paths_irrefl: "disjoint_paths p q \<Longrightarrow> p \<noteq> q"
  by (auto simp: disjoint_paths_def)

lemma sorted_disjoint_iff:
  "sorted_wrt disjoint_paths paths \<longleftrightarrow>
     distinct paths \<and> (\<forall>p\<in>set paths. \<forall>q\<in>set paths. p \<noteq> q \<longrightarrow> disjoint_paths p q)"
  by (induction paths) (auto simp: disjoint_paths_sym dest: disjoint_paths_irrefl)

lemma sorted_disjoint_perm:
  "mset ps = mset qs \<Longrightarrow> sorted_wrt disjoint_paths ps \<longleftrightarrow> sorted_wrt disjoint_paths qs"
  unfolding sorted_disjoint_iff by (metis mset_eq_setD mset_eq_imp_distinct_iff)

text \<open>The paths of a constructed patch never overlap.\<close>

definition patch_disjoint :: "CanonicalPatch \<Rightarrow> bool" where
  "patch_disjoint p \<longleftrightarrow> sorted_wrt disjoint_paths (map op_path (cp_operations p))"

lemma patch_try_new_disjoint: "patch_try_new t r ops = Inr p \<Longrightarrow> patch_disjoint p"
  using patch_try_new_Ok(3,4) [of t r ops p]
    sorted_disjoint_perm [of "map op_path (cp_operations p)" "sort (map op_path ops)"]
  by (simp add: patch_disjoint_def)

text \<open>Overlapping operations are refused.\<close>

lemma patch_try_new_overlap:
  "i < j \<Longrightarrow> j < length ops \<Longrightarrow> \<not> disjoint_paths (op_path (ops ! i)) (op_path (ops ! j)) \<Longrightarrow>
    patch_try_new t r ops \<noteq> Inr p"
  using patch_try_new_Ok(4) [of t r ops p] sorted_disjoint_perm [of "sort (map op_path ops)" "map op_path ops"]
  by (auto simp: sorted_wrt_iff_nth_less)

lemma patch_apply_Ok:
  "patch_apply H p v domain = Inr a \<longleftrightarrow> hash_value H domain v = Inr (cp_expected_pre_root p)
    \<and> fold_res (apply_op H) (cp_operations p) v = Inr (ap_state a)
    \<and> hash_value H domain (ap_state a) = Inr (ap_post_root a)"
  by (cases a) (auto simp: patch_apply_def split: if_splits)

lemma patch_apply_laws:
  assumes "repr_valid v" "\<forall>op\<in>set (cp_operations p). op_valid op" "patch_disjoint p"
    "patch_apply H p v domain = Inr a"
  shows "repr_valid (ap_state a)"
    "op \<in> set (cp_operations p) \<Longrightarrow> op_requires H op v \<and> op_ensures op (ap_state a)"
    "\<forall>op\<in>set (cp_operations p). disjoint_paths (op_path op) q \<Longrightarrow> lookup (ap_state a) q = lookup v q"
  using apply_ops_laws [OF assms(1,2) assms(3) [unfolded patch_disjoint_def], of H "ap_state a"] assms(4)
  by (auto simp: patch_apply_Ok)

section \<open>Construction is independent of the order of the operations\<close>

fun segment_bytes :: "PathSegment \<Rightarrow> bytes" where
  "segment_bytes (PS_Field i) = 0 # be_bytes 2 i"
| "segment_bytes (PS_TupleIndex i) = 1 # be_bytes 4 i"
| "segment_bytes (PS_VectorIndex i) = 2 # be_bytes 4 i"
| "segment_bytes PS_SumPayload = [3]"
| "segment_bytes (PS_MapKey k) = 4 # blob_bytes k"

fun segment_fits :: "PathSegment \<Rightarrow> bool" where
  "segment_fits (PS_MapKey k) = (length k \<le> u32_max)"
| "segment_fits _ = True"

lemma put_length_Ok: "put_length out n = Inr bs \<longleftrightarrow> n \<le> u32_max \<and> bs = out @ be_bytes 4 (of_nat n :: u32)"
  by (auto simp: put_length_def)

lemma put_blob_Ok: "put_blob out b = Inr bs \<longleftrightarrow> length b \<le> u32_max \<and> bs = out @ blob_bytes b"
  by (auto simp: put_blob_def put_length_Ok blob_bytes_def)

lemma put_blobs_Ok:
  assumes "\<And>x b. x \<in> set xs \<Longrightarrow> encode x = Inr b \<longleftrightarrow> good x \<and> b = item_bytes x"
  shows "fold_res (\<lambda>x out. rbind (encode x) (put_blob out)) xs out = Inr bs \<longleftrightarrow>
    (\<forall>x\<in>set xs. good x \<and> length (item_bytes x) \<le> u32_max)
    \<and> bs = out @ concat (map (\<lambda>x. blob_bytes (item_bytes x)) xs)"
  using assms by (induction xs arbitrary: out) (auto simp: put_blob_Ok)

lemma encode_segment_Ok: "encode_segment s out = Inr bs \<longleftrightarrow> segment_fits s \<and> bs = out @ segment_bytes s"
  by (cases s) (auto simp: put_blob_Ok)

lemma encode_segments_Ok: "fold_res encode_segment path out = Inr bs \<longleftrightarrow>
    list_all segment_fits path \<and> bs = out @ concat (map segment_bytes path)"
  by (induction path arbitrary: out) (auto simp: encode_segment_Ok)

definition path_bytes :: "ValuePath \<Rightarrow> bytes" where
  "path_bytes path = be_bytes 4 (of_nat (length path) :: u32) @ concat (map segment_bytes path)"

lemma path_canonical_bytes_Ok: "path_canonical_bytes path = Inr bs \<longleftrightarrow>
    length path \<le> u32_max \<and> list_all segment_fits path \<and> bs = path_bytes path"
  by (auto simp: path_canonical_bytes_def path_encode_to_def put_length_Ok encode_segments_Ok path_bytes_def)

lemma of_nat_u32_inject: "m \<le> u32_max \<Longrightarrow> n \<le> u32_max \<Longrightarrow> (of_nat m :: u32) = of_nat n \<longleftrightarrow> m = n"
  by (simp add: word_unat_eq_iff unat_of_nat)

lemma blob_bytes_inject:
  assumes "length a \<le> u32_max" "length b \<le> u32_max" "blob_bytes a @ xs = blob_bytes b @ ys"
  shows "a = b \<and> xs = ys"
proof -
  from assms(3) have "(of_nat (length a) :: u32) = of_nat (length b)" "a @ xs = b @ ys"
    by (simp_all add: blob_bytes_def be_bytes_inject)
  with assms(1,2) show ?thesis by (simp add: of_nat_u32_inject)
qed

lemma segment_bytes_inject:
  "segment_fits s \<Longrightarrow> segment_fits t \<Longrightarrow> segment_bytes s @ xs = segment_bytes t @ ys \<Longrightarrow> s = t \<and> xs = ys"
  by (cases s; cases t) (auto simp: be_bytes_inject dest: blob_bytes_inject [simplified])

lemma segments_inject:
  "length p = length q \<Longrightarrow> list_all segment_fits p \<Longrightarrow> list_all segment_fits q \<Longrightarrow>
    concat (map segment_bytes p) = concat (map segment_bytes q) \<Longrightarrow> p = q"
  by (induction p q rule: list_induct2) (auto dest: segment_bytes_inject)

lemma path_canonical_bytes_inject:
  assumes "path_canonical_bytes p = Inr bs" "path_canonical_bytes q = Inr bs"
  shows "p = q"
  using assms segments_inject [of p q]
  by (auto simp: path_canonical_bytes_Ok path_bytes_def be_bytes_inject of_nat_u32_inject)

lemma keyed_ops: "map_res (\<lambda>op. rbind (f op) (\<lambda>k. Ok (k, op))) ops = Inr keyed \<longleftrightarrow>
    map snd keyed = ops \<and> (\<forall>(k, op)\<in>set keyed. f op = Inr k)"
  by (induction ops arbitrary: keyed) auto

lemma patch_try_new_perm:
  assumes "patch_try_new t r ops = Inr p" and "mset ops' = mset ops"
  shows "patch_try_new t r ops' = Inr p"
proof -
  let ?key = "\<lambda>op. rbind (op_sort_key op) (\<lambda>k. Ok (k, op))"
  from assms(1) obtain keyed where k: "each_res validate_insert_shape ops = Inr ()" "map_res ?key ops = Inr keyed"
      "\<not> adjacent_prefix (sort (map (\<lambda>(_, op). op_path op) (sort_key fst keyed)))"
    and p: "p = \<lparr>cp_state_type = t, cp_expected_pre_root = r, cp_operations = map snd (sort_key fst keyed)\<rparr>"
    by (auto simp: patch_try_new_def Let_def split: if_splits)
  have keyed: "map snd keyed = ops" "\<forall>(k, op)\<in>set keyed. op_sort_key op = Inr k"
    using k(2) by (simp_all add: keyed_ops)
  define keyed' where "keyed' = map (\<lambda>op. (projr (op_sort_key op), op)) ops'"
  have perm: "mset keyed' = mset keyed"
  proof -
    have "map (\<lambda>op. (projr (op_sort_key op), op)) (map snd keyed) = map (\<lambda>x. x) keyed"
      unfolding map_map using keyed(2) by (intro map_cong) auto
    then show ?thesis using assms(2) keyed(1) by (simp add: keyed'_def flip: mset_map)
      (metis mset_map)
  qed
  have k': "map_res ?key ops' = Inr keyed'"
    using keyed mset_eq_setD [OF perm] by (simp add: keyed_ops keyed'_def comp_def)
  have "inj_on fst (set keyed)"
  proof (rule inj_onI)
    fix x y assume xy: "x \<in> set keyed" "y \<in> set keyed" "fst x = fst y"
    then have "path_canonical_bytes (op_path (snd x)) = Inr (fst x)"
        "path_canonical_bytes (op_path (snd y)) = Inr (fst x)"
      using bspec [OF keyed(2)] by (fastforce simp: op_sort_key_def case_prod_unfold)+
    then have "op_path (snd x) = op_path (snd y)" by (rule path_canonical_bytes_inject)
    moreover have "distinct (map op_path ops)"
      using patch_try_new_Ok(4) [OF assms(1)] by (simp add: sorted_disjoint_iff)
    ultimately have "snd x = snd y"
      using xy(1,2) unfolding keyed(1) [symmetric] by (auto simp: distinct_map inj_on_def)
    with xy(3) show "x = y" by (simp add: prod_eq_iff)
  qed
  then have "sort_key fst keyed' = sort_key fst keyed"
    using mset_eq_setD [OF perm] by (intro sort_key_inj_key_eq) (simp_all add: perm)
  then show ?thesis using k k' p mset_eq_setD [OF assms(2)]
    by (simp add: patch_try_new_def each_res_eq_Ok)
qed


section \<open>Decoding\<close>

lemma decode_value_valid: "decode_value bs L = Inr v \<Longrightarrow> repr_valid v"
  by (auto simp: decode_value_def decode_value_with_metrics_def dest: decode_complete_valid [OF decodes_valid])

lemma decode_patch_value_valid: "decode_patch_value bs L st = Inr (v, st') \<Longrightarrow> repr_valid v"
  by (auto simp: decode_patch_value_def dest: decode_value_valid split: if_splits)

lemma decode_times_all:
  assumes "\<And>c st x c' st'. f c st = Inr (x, c', st') \<Longrightarrow> P x"
  shows "decode_times n f c st = Inr (xs, c', st') \<Longrightarrow> \<forall>x\<in>set xs. P x"
  by (induction n arbitrary: c st xs) (auto dest: assms)

lemma decode_patch_operation_valid:
  "decode_patch_operation bs L st = Inr (op, st') \<Longrightarrow> op_valid op"
  by (auto simp: decode_patch_operation_def dest!: decode_patch_value_valid split: if_splits)

text \<open>A decoded patch is exactly one that \<^verbatim>\<open>try_new\<close> builds and that encodes to the input.\<close>

definition patch_valid :: "CanonicalPatch \<Rightarrow> bool" where
  "patch_valid p \<longleftrightarrow> (\<forall>op\<in>set (cp_operations p). op_valid op)
     \<and> patch_try_new (cp_state_type p) (cp_expected_pre_root p) (cp_operations p) = Inr p"

lemma decode_canonical_patch_sound:
  assumes "decode_canonical_patch bs L = Inr p"
  shows "patch_valid p \<and> patch_canonical_bytes p = Inr bs"
proof -
  from assms obtain t r n ops c c' st st' where
    ops: "decode_times n (\<lambda>c st. rbind (patch_take_blob c) (\<lambda>(encoded, c).
            rbind (decode_patch_operation encoded L st) (\<lambda>(op, st). Ok (op, c, st)))) c st = Inr (ops, c', st')"
    and p: "patch_try_new t r ops = Inr p" "patch_canonical_bytes p = Inr bs"
    by (auto simp: decode_canonical_patch_def split: if_splits)
  have "\<forall>op\<in>set ops. op_valid op"
    by (rule decode_times_all [OF _ ops]) (auto dest: decode_patch_operation_valid)
  with patch_try_new_Ok(1-3) [OF p(1)] patch_try_new_perm [OF p(1), of "cp_operations p"] p(2)
  show ?thesis by (auto simp: patch_valid_def dest: mset_eq_setD)
qed

interpretation patch_decoder: canonical_decoder patch_canonical_bytes
  "\<lambda>bs. decode_canonical_patch bs L" patch_valid for L
  by unfold_locales (rule decode_canonical_patch_sound)

section \<open>Properties\<close>

text \<open>A patch is built only from operations whose paths are pairwise disjoint, neither equal nor
  one inside the other, although the constructor compares neighbouring paths only; it holds
  exactly the given operations.\<close>

theorem patch_paths_disjoint:
  assumes "patch_try_new state_type root ops = Ok p" and "i < j" and "j < length ops"
  shows "disjoint_paths (op_path (ops ! i)) (op_path (ops ! j)) \<and> mset (cp_operations p) = mset ops"
  using patch_try_new_overlap [OF assms(2,3)] patch_try_new_Ok(3) [OF assms(1)] assms(1) by blast

text \<open>The order in which operations are handed to the constructor is irrelevant: every
  permutation builds the same patch, byte for byte.\<close>

theorem patch_order_irrelevant:
  assumes "patch_try_new state_type root ops = Ok p" and "mset ops' = mset ops"
  shows "patch_try_new state_type root ops' = Ok p"
  using assms by (rule patch_try_new_perm)

text \<open>C4: a patch that applies has checked the root of the state it started from and returns the
  root of the state it ends in; every operation found its precondition in the original state,
  every operation's effect stands in the final state, and a path disjoint from all operations
  reads the same before and after.\<close>

theorem patch_apply_correct:
  assumes "patch_try_new state_type root ops = Ok p" and "\<forall>op\<in>set ops. op_valid op"
    and "repr_valid state" and "patch_apply H p state domain = Ok a"
  shows "hash_value H domain state = Ok root \<and> hash_value H domain (ap_state a) = Ok (ap_post_root a)
    \<and> repr_valid (ap_state a)
    \<and> (\<forall>op\<in>set ops. op_requires H op state \<and> op_ensures op (ap_state a))
    \<and> (\<forall>q. (\<forall>op\<in>set ops. disjoint_paths (op_path op) q) \<longrightarrow> lookup (ap_state a) q = lookup state q)"
proof -
  have ops: "set (cp_operations p) = set ops"
    using patch_try_new_Ok(3) [OF assms(1)] by (rule mset_eq_setD)
  have valid: "\<forall>op\<in>set (cp_operations p). op_valid op" using assms(2) by (simp add: ops)
  note laws = patch_apply_laws [OF assms(3) valid patch_try_new_disjoint [OF assms(1)] assms(4)]
  show ?thesis using laws assms(4) patch_try_new_Ok(2) [OF assms(1)]
    by (auto simp: patch_apply_Ok ops)
qed

interpretation patch_cursor: byte_cursor patch_take
  unfolding patch_take_def by (rule cursor_take_byte_cursor)

subsection \<open>A concrete patch\<close>

text \<open>A record with one flag, and a patch that sets it and adds a field.\<close>

definition sample_state :: Value where
  "sample_state = VRecord [MkField 2 (VBool False)]"

definition sample_ops :: "PatchOp list" where
  "sample_ops = [PO_Update [PS_Field 2] 0 (VBool True), PO_Insert [PS_Field 3] None VUnit]"

definition sample_hasher :: hasher where
  "sample_hasher = default_hasher ''zero'' (\<lambda>_. 0)"

lemma sample_commitment:
  "length (domain_name domain) \<le> u16_max \<Longrightarrow> length payload \<le> u64_max \<Longrightarrow>
    commitment sample_hasher domain payload = Ok 0"
  unfolding sample_hasher_def default_hasher.commitment_preimage
  by (simp add: domain_preimage_def try_from_def default_hasher_def)

lemma canonical_value_bytes:
  assumes "repr_valid v" "length (enc v) \<le> u32_max" "validate_limits v default_value_limits = Ok m"
  shows "canonical_bytes value_encode_to v = Ok (enc v)"
  using assms repr_valid_encodable(1)
  by (simp add: canonical_bytes_def value_encode_to_def encode_zcve_to_def encode_zcve_to_with_limits_def
      append_encoded_eq)

lemma sample_hash_value:
  assumes "repr_valid v" "length (enc v) \<le> u32_max" "validate_limits v default_value_limits = Ok m"
    "length (domain_name domain) \<le> u16_max"
  shows "hash_value sample_hasher domain v = Ok 0"
  using canonical_value_bytes [OF assms(1-3)] assms(2,4) sample_commitment [of domain "enc v"]
  by (simp add: hash_value_def)

definition sample_patch :: CanonicalPatch where
  "sample_patch = \<lparr>cp_state_type = 1, cp_expected_pre_root = 0, cp_operations = sample_ops\<rparr>"

lemma sample_try_new: "patch_try_new 1 0 sample_ops = Ok sample_patch"
  by (simp add: patch_try_new_def sample_ops_def sample_patch_def op_sort_key_def path_canonical_bytes_def
     path_encode_to_def put_length_def try_from_def is_prefix_of_def less_eq_PathSegment_def less_PathSegment_def be_bytes_numeral)

lemma sample_hashes:
  "hash_value sample_hasher VALUE sample_state = Ok 0"
  "hash_value sample_hasher VALUE (VBool False) = Ok 0"
  "hash_value sample_hasher VALUE (VRecord [MkField 2 (VBool True), MkField 3 VUnit]) = Ok 0"
proof -
  have "length (domain_name VALUE) \<le> u16_max" by (simp add: VALUE_def registered_def ascii_bytes_def)
  then show "hash_value sample_hasher VALUE sample_state = Ok 0"
    "hash_value sample_hasher VALUE (VBool False) = Ok 0"
    "hash_value sample_hasher VALUE (VRecord [MkField 2 (VBool True), MkField 3 VUnit]) = Ok 0"
    using default_value_limits_in_range
    by (auto intro!: sample_hash_value simp: sample_state_def validate_limits_Ok default_limit_simps)
qed

lemma sample_apply:
  "patch_apply sample_hasher sample_patch sample_state VALUE =
     Ok \<lparr>ap_state = VRecord [MkField 2 (VBool True), MkField 3 VUnit], ap_post_root = 0\<rparr>"
proof -
  have search: "search_field 2 [MkField 2 v] = Inr 0" "search_field 3 [MkField 2 v] = Inl 1" for v
    by (simp_all add: search_field_def binary_search_by_key_def binary_search_by_def cmp_def
        binary_search_loop.simps)
  show ?thesis
    using sample_hashes search
    by (simp add: patch_apply_def sample_patch_def sample_ops_def sample_state_def check_old_value_def
        hash_precondition_value_def record_canonical_def field_new_def check_wire_length_eq vec_insert_def)
qed

lemma sample_ops_valid: "\<forall>op\<in>set sample_ops. op_valid op" and sample_state_valid: "repr_valid sample_state"
  by (simp_all add: sample_ops_def sample_state_def)

theorem patch_paths_disjoint_witness:
  "disjoint_paths (op_path (sample_ops ! 0)) (op_path (sample_ops ! 1)) \<and> mset sample_ops = mset sample_ops"
  using patch_paths_disjoint [OF sample_try_new, of 0 1] by (simp add: sample_ops_def sample_patch_def)

theorem patch_order_irrelevant_witness:
  "patch_try_new 1 0 (rev sample_ops) = Ok sample_patch"
  using patch_order_irrelevant [OF sample_try_new, of "rev sample_ops"] by simp

theorem patch_apply_correct_witness:
  "\<exists>a. patch_apply sample_hasher sample_patch sample_state VALUE = Ok a
     \<and> lookup (ap_state a) [PS_Field 2] = Ok (VBool True)"
  using patch_apply_correct [OF sample_try_new sample_ops_valid sample_state_valid sample_apply] sample_apply
  by (simp add: sample_ops_def)

definition empty_patch :: CanonicalPatch where
  "empty_patch = \<lparr>cp_state_type = 1, cp_expected_pre_root = 0, cp_operations = []\<rparr>"

definition empty_patch_bytes :: bytes where
  "empty_patch_bytes = be_bytes 4 (1 :: u32) @ be_bytes 32 (0 :: hash32) @ be_bytes 4 (0 :: u32)"

end
