(* ===== verification/Zeno_Patch_Codec.thy ===== *)
theory Zeno_Patch_Codec
  imports Zeno_Patch_Laws
begin

text \<open>
  The wire form of a patch: the decoder accepts exactly the canonical encodings of valid patches
  within the resource limits, and the encoding of a valid patch determines it.
\<close>

section \<open>Values inside a patch\<close>

definition patch_limits_in_range :: "PatchDecodeLimits \<Rightarrow> bool" where
  "patch_limits_in_range L \<longleftrightarrow> decode_limits_in_range (pl_value L)
     \<and> pl_max_input_bytes L \<le> u64_max \<and> pl_max_value_nodes L \<le> u64_max
     \<and> pl_max_value_payload_bytes L \<le> u64_max"

definition patch_meter_within :: "PatchDecodeLimits \<Rightarrow> PatchDecodeState \<Rightarrow> bool" where
  "patch_meter_within L st \<longleftrightarrow> pst_value_nodes st \<le> pl_max_value_nodes L
     \<and> pst_value_payload_bytes st \<le> pl_max_value_payload_bytes L"

definition patch_value_step :: "PatchDecodeLimits \<Rightarrow> Value \<Rightarrow> PatchDecodeState \<Rightarrow> PatchDecodeState \<Rightarrow> bool" where
  "patch_value_step L v st st' \<longleftrightarrow> value_admitted (pl_value L) v \<and> patch_meter_within L st'
     \<and> st' = \<lparr>pst_value_nodes = pst_value_nodes st + vnodes v,
             pst_value_payload_bytes = pst_value_payload_bytes st + vpayload v\<rparr>"

lemma decode_patch_value_iff:
  assumes "patch_limits_in_range L"
  shows "decode_patch_value bs L st = Inr (v, st') \<longleftrightarrow> bs = enc v \<and> patch_value_step L v st st'"
proof -
  have L: "decode_limits_in_range (pl_value L)" "limits_in_range (dl_value (pl_value L))"
    using assms by (simp_all add: patch_limits_in_range_def decode_limits_in_range_def)
  show ?thesis
    using assms
    by (auto simp: decode_patch_value_def decode_value_admitted [OF L(1)] patch_value_step_def
        patch_meter_within_def value_admitted_def is_ok_iff validate_limits_Ok [OF L(2)] patch_limits_in_range_def
        intro!: exI [of _ v] split: if_splits)
qed

lemma patch_value_steps_iff:
  assumes "patch_meter_within L st"
  shows "item_steps (patch_value_step L) vs st st' \<longleftrightarrow>
    (\<forall>v\<in>set vs. value_admitted (pl_value L) v) \<and> patch_meter_within L st'
    \<and> st' = \<lparr>pst_value_nodes = pst_value_nodes st + sum_list (map vnodes vs),
            pst_value_payload_bytes = pst_value_payload_bytes st + sum_list (map vpayload vs)\<rparr>"
  using assms
proof (induction vs arbitrary: st)
  case (Cons v vs)
  then show ?case by (auto simp: patch_value_step_def patch_meter_within_def add.assoc)
qed auto

section \<open>Paths\<close>

lemma patch_take_blob_eq: "patch_take_blob = cursor_blob patch_take"
proof
  fix c
  have "unat n \<le> u64_max" for n :: u32 using unsigned_less [of n, where ?'a = nat] by simp
  then show "patch_take_blob c = cursor_blob patch_take c"
    by (simp add: patch_take_blob_def cursor_blob_def patch_take_u32_def try_from_def)
qed

lemma patch_take_reads:
  assumes "cursor_wf c"
  shows "patch_take_u8 c = Inr (x, c') \<longleftrightarrow> reads c [x] c' \<and> cursor_wf c'"
    "patch_take_u16 c = Inr (y, c') \<longleftrightarrow> reads c (be_bytes 2 y) c' \<and> cursor_wf c'"
    "patch_take_u32 c = Inr (w, c') \<longleftrightarrow> reads c (be_bytes 4 w) c' \<and> cursor_wf c'"
    "patch_take_hash32 c = Inr (h, c') \<longleftrightarrow> reads c (be_bytes 32 h) c' \<and> cursor_wf c'"
    "patch_take_blob c = Inr (bs, c') \<longleftrightarrow> reads c (blob_bytes bs) c' \<and> cursor_wf c' \<and> length bs \<le> u32_max"
proof -
  show "patch_take_u8 c = Inr (x, c') \<longleftrightarrow> reads c [x] c' \<and> cursor_wf c'"
  proof -
    have "patch_take_u8 c = Inr (x, c') \<longleftrightarrow> patch_take 1 c = Inr ([x], c')"
    proof (cases "patch_take 1 c")
      case (Inr r)
      then obtain b c1 where "r = ([b], c1)"
        using patch_cursor.take_reads [OF assms, of 1 "fst r" "snd r"] by (cases r) (auto simp: length_Suc_conv)
      with Inr show ?thesis by (auto simp: patch_take_u8_def)
    qed (simp add: patch_take_u8_def)
    then show ?thesis using readsD(3) by (auto simp: patch_cursor.take_reads [OF assms])
  qed
qed (use patch_cursor.word_reads [OF assms, where 'a = 16] patch_cursor.word_reads [OF assms, where 'a = 32]
    patch_cursor.word_reads [OF assms, where 'a = 256] patch_cursor.blob_reads [OF assms] readsD(3)
  in \<open>auto simp: patch_take_u16_def patch_take_u32_def patch_take_hash32_def patch_take_blob_eq\<close>)

lemma patch_tag_bind:
  assumes "cursor_wf c"
  shows "rbind (patch_take_u8 c) f = Inr y \<longleftrightarrow> (\<exists>tag c1. reads c [tag] c1 \<and> cursor_wf c1 \<and> f (tag, c1) = Inr y)"
    "rbind (patch_take_hash32 c) g = Inr y \<longleftrightarrow> (\<exists>h c1. reads c (be_bytes 32 h) c1 \<and> cursor_wf c1 \<and> g (h, c1) = Inr y)"
  by (auto simp: patch_take_reads [OF assms])

text \<open>The values that a segment carries: a map key is an encoded value.\<close>

fun segment_values :: "DecodeLimits \<Rightarrow> PathSegment \<Rightarrow> Value list" where
  "segment_values L (PS_MapKey k) = (case decode_value k L of Inr v \<Rightarrow> [v] | Inl _ \<Rightarrow> [])"
| "segment_values L _ = []"

fun segment_admitted :: "PatchDecodeLimits \<Rightarrow> PathSegment \<Rightarrow> bool" where
  "segment_admitted L (PS_MapKey k) \<longleftrightarrow> length k \<le> pl_max_map_key_bytes L \<and> is_ok (decode_value k (pl_value L))"
| "segment_admitted L _ \<longleftrightarrow> True"

definition segment_step :: "PatchDecodeLimits \<Rightarrow> PathSegment \<Rightarrow> PatchDecodeState \<Rightarrow> PatchDecodeState \<Rightarrow> bool" where
  "segment_step L s st st' \<longleftrightarrow> segment_admitted L s
     \<and> item_steps (patch_value_step L) (segment_values (pl_value L) s) st st'"

lemma map_key_step:
  assumes "patch_limits_in_range L" and "length k \<le> u32_max"
  shows "segment_step L (PS_MapKey k) st st' \<longleftrightarrow> length k \<le> pl_max_map_key_bytes L
     \<and> (\<exists>v. decode_patch_value k L st = Inr (v, st'))"
proof -
  have L: "decode_limits_in_range (pl_value L)" using assms(1) by (simp add: patch_limits_in_range_def)
  show ?thesis
  proof (cases "decode_value k (pl_value L)")
    case (Inl e)
    then show ?thesis by (simp add: segment_step_def is_ok_iff decode_patch_value_def)
  next
    case (Inr v)
    then have "k = enc v" by (simp add: decode_value_admitted [OF L])
    moreover have "w = v" if "decode_patch_value k L st = Inr (w, st')" for w
      using that Inr by (auto simp: decode_patch_value_def if_Err_Ok)
    ultimately have "decode_patch_value k L st = Inr (w, st') \<longleftrightarrow> w = v \<and> patch_value_step L v st st'" for w
      using decode_patch_value_iff [OF assms(1), of k st] by blast
    with Inr show ?thesis by (auto simp: segment_step_def is_ok_iff)
  qed
qed

lemma segment_readers:
  assumes L: "patch_limits_in_range L" and "cursor_wf c"
  shows "rbind (patch_take_u16 c) (\<lambda>(i, c). Ok (PS_Field i, c, st)) = Inr (s, c', st') \<longleftrightarrow>
      (\<exists>i. s = PS_Field i \<and> reads c (be_bytes 2 i) c') \<and> st' = st"
    "rbind (patch_take_u32 c) (\<lambda>(i, c). Ok (PS_TupleIndex i, c, st)) = Inr (s, c', st') \<longleftrightarrow>
      (\<exists>i. s = PS_TupleIndex i \<and> reads c (be_bytes 4 i) c') \<and> st' = st"
    "rbind (patch_take_u32 c) (\<lambda>(i, c). Ok (PS_VectorIndex i, c, st)) = Inr (s, c', st') \<longleftrightarrow>
      (\<exists>i. s = PS_VectorIndex i \<and> reads c (be_bytes 4 i) c') \<and> st' = st"
    "rbind (patch_take_blob c) (\<lambda>(k, c).
         rbind (ok_or (try_from u64_max (length k)) PD_LengthOverflow) (\<lambda>actual.
         if actual > pl_max_map_key_bytes L
         then Err (PD_MapKeyLimit (pl_max_map_key_bytes L) actual)
         else rbind (decode_patch_value k L st) (\<lambda>(_, st). Ok (PS_MapKey k, c, st)))) = Inr (s, c', st') \<longleftrightarrow>
      (\<exists>k. s = PS_MapKey k \<and> reads c (blob_bytes k) c' \<and> length k \<le> u32_max \<and> segment_step L (PS_MapKey k) st st')"
proof -
  have "try_from u64_max (length k) = Some (length k)" if "length k \<le> u32_max" for k :: bytes
    using that by (simp add: try_from_def)
  then show "rbind (patch_take_blob c) (\<lambda>(k, c).
         rbind (ok_or (try_from u64_max (length k)) PD_LengthOverflow) (\<lambda>actual.
         if actual > pl_max_map_key_bytes L
         then Err (PD_MapKeyLimit (pl_max_map_key_bytes L) actual)
         else rbind (decode_patch_value k L st) (\<lambda>(_, st). Ok (PS_MapKey k, c, st)))) = Inr (s, c', st') \<longleftrightarrow>
      (\<exists>k. s = PS_MapKey k \<and> reads c (blob_bytes k) c' \<and> length k \<le> u32_max \<and> segment_step L (PS_MapKey k) st st')"
    using readsD(3) by (auto simp: patch_take_reads [OF assms(2)] if_Err_Ok not_less map_key_step [OF L])
qed (use readsD(3) in \<open>auto simp: patch_take_reads [OF assms(2)]\<close>)

lemma decode_segment_iff:
  assumes L: "patch_limits_in_range L" and wf: "cursor_wf c"
  shows "decode_segment L c st = Inr (s, c', st') \<longleftrightarrow>
    reads c (segment_bytes s) c' \<and> segment_fits s \<and> segment_step L s st st'"
proof -
  have cons: "reads c (x # xs) c' \<longleftrightarrow> (\<exists>c1. reads c [x] c1 \<and> cursor_wf c1 \<and> reads c1 xs c')" for x xs
    using reads_append [of c "[x]" xs c'] readsD(3) by auto
  have "decode_segment L c st = Inr (s, c', st') \<longleftrightarrow> (\<exists>tag c1. reads c [tag] c1 \<and> cursor_wf c1 \<and>
      (tag = 0 \<and> (\<exists>i. s = PS_Field i \<and> reads c1 (be_bytes 2 i) c') \<and> st' = st
       \<or> tag = 1 \<and> (\<exists>i. s = PS_TupleIndex i \<and> reads c1 (be_bytes 4 i) c') \<and> st' = st
       \<or> tag = 2 \<and> (\<exists>i. s = PS_VectorIndex i \<and> reads c1 (be_bytes 4 i) c') \<and> st' = st
       \<or> tag = 3 \<and> s = PS_SumPayload \<and> c' = c1 \<and> st' = st
       \<or> tag = 4 \<and> (\<exists>k. s = PS_MapKey k \<and> reads c1 (blob_bytes k) c' \<and> length k \<le> u32_max
           \<and> segment_step L (PS_MapKey k) st st')))"
    unfolding decode_segment_def patch_tag_bind(1) [OF wf] prod.case
  proof (intro arg_cong [where f = Ex] ext conj_cong refl, goal_cases)
    case (1 tag c1)
    consider "tag = 0" | "tag = 1" | "tag = 2" | "tag = 3" | "tag = 4"
      | "tag \<noteq> 0" "tag \<noteq> 1" "tag \<noteq> 2" "tag \<noteq> 3" "tag \<noteq> 4" by blast
    then show ?case using segment_readers [OF L 1(2), of st s c' st'] by cases (simp_all del: rbind_eq_Ok, auto)
  qed
  then show ?thesis
    using readsD(3) [of c "[3]" c']
    by (cases s) (simp_all add: cons [where xs = "be_bytes 2 i" for i :: u16] cons [where xs = "be_bytes 4 i" for i :: u32]
      cons [where xs = "blob_bytes k" for k] segment_step_def, auto)
qed


lemma path_bytes_reads:
  "reads c (path_bytes path) c' \<and> length path \<le> u32_max \<longleftrightarrow>
     (\<exists>n c1. reads c (be_bytes 4 (n :: u32)) c1 \<and> unat n = length path \<and> reads c1 (concat (map segment_bytes path)) c')"
proof -
  have n: "unat n = length path \<longleftrightarrow> length path \<le> u32_max \<and> n = of_nat (length path)" for n :: u32
  proof
    assume "unat n = length path"
    from this [symmetric] show "length path \<le> u32_max \<and> n = of_nat (length path)"
      using unsigned_less [of n, where ?'a = nat] by simp
  qed (simp add: unat_of_nat)
  show ?thesis unfolding n path_bytes_def reads_append by auto
qed

definition path_admitted :: "PatchDecodeLimits \<Rightarrow> ValuePath \<Rightarrow> bool" where
  "path_admitted L path \<longleftrightarrow> length path \<le> u32_max \<and> list_all segment_fits path
     \<and> length path \<le> pl_max_path_segments L \<and> (\<forall>s\<in>set path. segment_admitted L s)"

definition path_values :: "PatchDecodeLimits \<Rightarrow> ValuePath \<Rightarrow> Value list" where
  "path_values L path = concat (map (segment_values (pl_value L)) path)"

lemma segment_steps_eq:
  "item_steps (segment_step L) path st st' \<longleftrightarrow> (\<forall>s\<in>set path. segment_admitted L s)
     \<and> item_steps (patch_value_step L) (path_values L path) st st'"
  unfolding segment_step_def [abs_def] item_steps_guarded path_values_def item_steps_concat [symmetric] ..

lemma patch_collection_capacity_eq:
  "k \<noteq> 0 \<Longrightarrow> patch_collection_capacity (unat (n :: u32)) m k = Inr (min (unat n) (m div k))"
  using unsigned_less [of n, where ?'a = nat]
  by (simp add: patch_collection_capacity_def try_from_def checked_div_def)

lemma decode_value_path_iff:
  assumes L: "patch_limits_in_range L" and "length bs \<le> u32_max"
  shows "decode_value_path bs L st = Inr (path, st') \<longleftrightarrow> bs = path_bytes path \<and> path_admitted L path
     \<and> item_steps (patch_value_step L) (path_values L path) st st'"
proof -
  have wf: "cursor_wf (cursor_new bs)" using assms(2) by simp
  have "decode_value_path bs L st = Inr (path, st') \<longleftrightarrow> (\<exists>n c c'. reads (cursor_new bs) (be_bytes 4 (n :: u32)) c \<and> cursor_wf c
      \<and> unat n \<le> pl_max_path_segments L \<and> decode_times (unat n) (decode_segment L) c st = Inr (path, c', st')
      \<and> cursor_remaining c' = 0)"
    by (auto simp: decode_value_path_def patch_take_reads [OF wf] if_Err_Ok patch_collection_capacity_eq not_less)
  also have "\<dots> \<longleftrightarrow> (\<exists>c'. (\<exists>n c. reads (cursor_new bs) (be_bytes 4 (n :: u32)) c \<and> unat n = length path
        \<and> reads c (concat (map segment_bytes path)) c') \<and> cursor_remaining c' = 0)
      \<and> length path \<le> pl_max_path_segments L \<and> list_all segment_fits path \<and> item_steps (segment_step L) path st st'"
    using item_loop_iff [of "decode_segment L" segment_bytes segment_fits "segment_step L", OF decode_segment_iff [OF L]]
      readsD(3) by (auto simp: list_all_iff cong: conj_cong) metis+
  also have "\<dots> \<longleftrightarrow> (\<exists>c'. reads (cursor_new bs) (path_bytes path) c' \<and> cursor_remaining c' = 0) \<and> length path \<le> u32_max
      \<and> length path \<le> pl_max_path_segments L \<and> list_all segment_fits path \<and> item_steps (segment_step L) path st st'"
    unfolding path_bytes_reads [symmetric] by blast
  finally show ?thesis using assms(2) unfolding segment_steps_eq
    by (auto simp: reads_consumed path_admitted_def)
qed

section \<open>Operations\<close>

definition map_key_bytes :: "Value option \<Rightarrow> bytes" where
  "map_key_bytes key = (case key of None \<Rightarrow> [0] | Some k \<Rightarrow> 1 # blob_bytes (enc k))"

fun op_tail_bytes :: "PatchOp \<Rightarrow> bytes" where
  "op_tail_bytes (PO_Insert _ key v) = map_key_bytes key @ blob_bytes (enc v)"
| "op_tail_bytes (PO_Update _ h v) = be_bytes 32 h @ blob_bytes (enc v)"
| "op_tail_bytes (PO_Delete _ h) = be_bytes 32 h"

fun op_tag :: "PatchOp \<Rightarrow> u8" where
  "op_tag (PO_Insert _ _ _) = 0"
| "op_tag (PO_Update _ _ _) = 1"
| "op_tag (PO_Delete _ _) = 2"

lemma op_tags: "\<not> (op_tag op \<noteq> 0 \<and> op_tag op \<noteq> 1 \<and> op_tag op \<noteq> 2)"
  by (cases op) simp_all

definition op_bytes :: "PatchOp \<Rightarrow> bytes" where
  "op_bytes op = op_tag op # blob_bytes (path_bytes (op_path op)) @ op_tail_bytes op"

fun op_tail_values :: "PatchOp \<Rightarrow> Value list" where
  "op_tail_values (PO_Insert _ key v) = (case key of None \<Rightarrow> [] | Some k \<Rightarrow> [k]) @ [v]"
| "op_tail_values (PO_Update _ _ v) = [v]"
| "op_tail_values (PO_Delete _ _) = []"

definition op_values :: "PatchDecodeLimits \<Rightarrow> PatchOp \<Rightarrow> Value list" where
  "op_values L op = path_values L (op_path op) @ op_tail_values op"

definition op_step :: "PatchDecodeLimits \<Rightarrow> PatchOp \<Rightarrow> PatchDecodeState \<Rightarrow> PatchDecodeState \<Rightarrow> bool" where
  "op_step L op st st' \<longleftrightarrow> path_admitted L (op_path op) \<and> item_steps (patch_value_step L) (op_values L op) st st'"

text \<open>One length-prefixed value.\<close>

lemma patch_value_blob:
  assumes L: "patch_limits_in_range L" and wf: "cursor_wf c"
  shows "rbind (patch_take_blob c) (\<lambda>(v, c). rbind (decode_patch_value v L st) (\<lambda>(v, st). f v c st)) = Inr y \<longleftrightarrow>
    (\<exists>v c1 st1. reads c (blob_bytes (enc v)) c1 \<and> cursor_wf c1 \<and> length (enc v) \<le> u32_max
       \<and> patch_value_step L v st st1 \<and> f v c1 st1 = Inr y)"
  by (auto simp: patch_take_reads [OF wf] decode_patch_value_iff [OF L])

lemma map_key_reader:
  assumes L: "patch_limits_in_range L" and wf: "cursor_wf c"
  shows "rbind (patch_take_u8 c) (\<lambda>(flag, c).
     rbind (if flag = 0 then Ok (None, c, st)
            else if flag = 1 then rbind (patch_take_blob c) (\<lambda>(k, c).
              rbind (decode_patch_value k L st) (\<lambda>(k, st). Ok (Some k, c, st)))
            else Err (PD_InvalidMapKeyFlag flag)) f) = Inr y \<longleftrightarrow>
   (\<exists>key c1 st1. reads c (map_key_bytes key) c1 \<and> cursor_wf c1 \<and> (\<forall>k\<in>set_option key. length (enc k) \<le> u32_max)
      \<and> item_steps (patch_value_step L) (case key of None \<Rightarrow> [] | Some k \<Rightarrow> [k]) st st1 \<and> f (key, c1, st1) = Inr y)"
  (is "?L \<longleftrightarrow> ?R")
proof -
  have "?L \<longleftrightarrow> (\<exists>flag c0. reads c [flag] c0 \<and> cursor_wf c0 \<and> (flag = 0 \<and> f (None, c0, st) = Inr y
     \<or> flag = 1 \<and> (\<exists>k c1 st1. reads c0 (blob_bytes (enc k)) c1 \<and> cursor_wf c1 \<and> length (enc k) \<le> u32_max
          \<and> patch_value_step L k st st1 \<and> f (Some k, c1, st1) = Inr y)))"
    unfolding patch_tag_bind(1) [OF wf] prod.case
  proof (intro arg_cong [where f = Ex] ext conj_cong refl, goal_cases)
    case (1 flag c0)
    consider "flag = 0" | "flag = 1" | "flag \<noteq> 0" "flag \<noteq> 1" by blast
    then show ?case
    proof cases
      case 2
      then show ?thesis by (auto simp: patch_take_reads [OF 1(2)] decode_patch_value_iff [OF L]; blast)
    qed simp_all
  qed
  also have "\<dots> \<longleftrightarrow> ?R"
  proof -
    have "reads c (1 # bs) c' \<longleftrightarrow> (\<exists>c1. reads c [1] c1 \<and> cursor_wf c1 \<and> reads c1 bs c')" for bs c'
      using reads_append [of c "[1]" bs c'] readsD(3) by auto
    note one = this [where bs = "blob_bytes b" for b]
    show ?thesis by (auto simp: split_option_ex map_key_bytes_def one) blast+
  qed
  finally show ?thesis .
qed

lemma op_tail_readers:
  assumes L: "patch_limits_in_range L" and wf: "cursor_wf c"
  shows "rbind (patch_take_u8 c) (\<lambda>(flag, c).
     rbind (if flag = 0 then Ok (None, c, st)
            else if flag = 1 then rbind (patch_take_blob c) (\<lambda>(k, c).
              rbind (decode_patch_value k L st) (\<lambda>(k, st). Ok (Some k, c, st)))
            else Err (PD_InvalidMapKeyFlag flag)) (\<lambda>(map_key, c, st).
     rbind (patch_take_blob c) (\<lambda>(v, c).
     rbind (decode_patch_value v L st) (\<lambda>(v, st). Ok (PO_Insert path map_key v, c, st))))) = Inr (op, c', st') \<longleftrightarrow>
    (\<exists>key v. op = PO_Insert path key v \<and> reads c (op_tail_bytes op) c' \<and> (\<forall>v\<in>set (op_tail_values op). length (enc v) \<le> u32_max)
       \<and> item_steps (patch_value_step L) (op_tail_values op) st st')" (is ?insert)
    "rbind (patch_take_hash32 c) (\<lambda>(expected, c).
     rbind (patch_take_blob c) (\<lambda>(v, c).
     rbind (decode_patch_value v L st) (\<lambda>(v, st). Ok (PO_Update path expected v, c, st)))) = Inr (op, c', st') \<longleftrightarrow>
    (\<exists>h v. op = PO_Update path h v \<and> reads c (op_tail_bytes op) c' \<and> (\<forall>v\<in>set (op_tail_values op). length (enc v) \<le> u32_max)
       \<and> item_steps (patch_value_step L) (op_tail_values op) st st')" (is ?update)
    "rbind (patch_take_hash32 c) (\<lambda>(expected, c). Ok (PO_Delete path expected, c, st)) = Inr (op, c', st') \<longleftrightarrow>
    (\<exists>h. op = PO_Delete path h \<and> reads c (op_tail_bytes op) c' \<and> (\<forall>v\<in>set (op_tail_values op). length (enc v) \<le> u32_max)
       \<and> item_steps (patch_value_step L) (op_tail_values op) st st')" (is ?delete)
proof -
  have value_tail: "rbind (patch_take_blob c1) (\<lambda>(v, c). rbind (decode_patch_value v L st1)
        (\<lambda>(v, st). Ok (f v, c, st))) = Inr (op, c', st') \<longleftrightarrow>
      (\<exists>v. op = f v \<and> reads c1 (blob_bytes (enc v)) c' \<and> length (enc v) \<le> u32_max \<and> patch_value_step L v st1 st')"
    if "cursor_wf c1" for c1 st1 and f :: "Value \<Rightarrow> PatchOp"
    using readsD(3) by (auto simp: patch_value_blob [OF L that] simp del: rbind_eq_Ok)
  have "rbind (patch_take_u8 c) (\<lambda>(flag, c).
     rbind (if flag = 0 then Ok (None, c, st)
            else if flag = 1 then rbind (patch_take_blob c) (\<lambda>(k, c).
              rbind (decode_patch_value k L st) (\<lambda>(k, st). Ok (Some k, c, st)))
            else Err (PD_InvalidMapKeyFlag flag)) (\<lambda>(map_key, c, st).
     rbind (patch_take_blob c) (\<lambda>(v, c).
     rbind (decode_patch_value v L st) (\<lambda>(v, st). Ok (PO_Insert path map_key v, c, st))))) = Inr (op, c', st') \<longleftrightarrow>
    (\<exists>key c1 st1. reads c (map_key_bytes key) c1 \<and> cursor_wf c1 \<and> (\<forall>k\<in>set_option key. length (enc k) \<le> u32_max)
      \<and> item_steps (patch_value_step L) (case key of None \<Rightarrow> [] | Some k \<Rightarrow> [k]) st st1
      \<and> (\<exists>v. op = PO_Insert path key v \<and> reads c1 (blob_bytes (enc v)) c' \<and> length (enc v) \<le> u32_max \<and> patch_value_step L v st1 st'))"
    unfolding map_key_reader [OF L wf] prod.case
    by (intro arg_cong [where f = Ex] ext conj_cong refl value_tail)
  also have "\<dots> \<longleftrightarrow> (\<exists>key v. op = PO_Insert path key v \<and> reads c (op_tail_bytes op) c'
       \<and> (\<forall>v\<in>set (op_tail_values op). length (enc v) \<le> u32_max)
       \<and> item_steps (patch_value_step L) (op_tail_values op) st st')"
  proof (cases op)
    case (PO_Insert p key v)
    then show ?thesis by (cases key) (auto simp: reads_append split_option_ex; blast dest: readsD(3))+
  qed auto
  finally show ?insert .
  have "rbind (patch_take_hash32 c) (\<lambda>(expected, c).
     rbind (patch_take_blob c) (\<lambda>(v, c).
     rbind (decode_patch_value v L st) (\<lambda>(v, st). Ok (PO_Update path expected v, c, st)))) = Inr (op, c', st') \<longleftrightarrow>
    (\<exists>h c1. reads c (be_bytes 32 h) c1 \<and> cursor_wf c1 \<and> (\<exists>v. op = PO_Update path h v \<and> reads c1 (blob_bytes (enc v)) c'
       \<and> length (enc v) \<le> u32_max \<and> patch_value_step L v st st'))"
    unfolding patch_tag_bind(2) [OF wf] prod.case
    by (intro arg_cong [where f = Ex] ext conj_cong refl value_tail)
  then show ?update
    by (cases op) (auto simp: reads_append simp del: rbind_eq_Ok dest: readsD(3))
  show ?delete using readsD(3) by (auto simp: patch_take_reads [OF wf])
qed

text \<open>What \<^verbatim>\<open>decode_patch_operation\<close> reads after the path.\<close>

definition op_tail ::
    "PatchDecodeLimits \<Rightarrow> u8 \<Rightarrow> ValuePath \<Rightarrow> cursor \<Rightarrow> PatchDecodeState \<Rightarrow>
       PatchDecodeError + PatchOp \<times> cursor \<times> PatchDecodeState" where
  "op_tail L tag path c st =
   (if tag = 0 then
      rbind (patch_take_u8 c) (\<lambda>(flag, c).
      rbind (if flag = 0 then Ok (None, c, st)
             else if flag = 1 then
               rbind (patch_take_blob c) (\<lambda>(k, c).
               rbind (decode_patch_value k L st) (\<lambda>(k, st). Ok (Some k, c, st)))
             else Err (PD_InvalidMapKeyFlag flag)) (\<lambda>(map_key, c, st).
      rbind (patch_take_blob c) (\<lambda>(v, c).
      rbind (decode_patch_value v L st) (\<lambda>(v, st).
        Ok (PO_Insert path map_key v, c, st)))))
    else if tag = 1 then
      rbind (patch_take_hash32 c) (\<lambda>(expected, c).
      rbind (patch_take_blob c) (\<lambda>(v, c).
      rbind (decode_patch_value v L st) (\<lambda>(v, st).
        Ok (PO_Update path expected v, c, st))))
    else rbind (patch_take_hash32 c) (\<lambda>(expected, c). Ok (PO_Delete path expected, c, st)))"

lemma op_tail_iff:
  assumes L: "patch_limits_in_range L" and wf: "cursor_wf c"
  shows "\<not> (tag \<noteq> 0 \<and> tag \<noteq> 1 \<and> tag \<noteq> 2) \<and>
   op_tail L tag path c st = Inr (op, c', st') \<longleftrightarrow>
   tag = op_tag op \<and> path = op_path op \<and> reads c (op_tail_bytes op) c'
     \<and> (\<forall>v\<in>set (op_tail_values op). length (enc v) \<le> u32_max)
     \<and> item_steps (patch_value_step L) (op_tail_values op) st st'"
proof -
  note readers = op_tail_readers [OF L wf, where st = st and path = path and op = op and c' = c' and st' = st']
  consider "tag = 0" | "tag = 1" | "tag = 2" | "tag \<noteq> 0" "tag \<noteq> 1" "tag \<noteq> 2" by blast
  then show ?thesis
  proof cases
    case 1
    then show ?thesis using readers(1) by (cases op) (simp_all add: op_tail_def del: rbind_eq_Ok op_tail_bytes.simps, blast+)
  next
    case 2
    then show ?thesis using readers(2) by (cases op) (simp_all add: op_tail_def del: rbind_eq_Ok op_tail_bytes.simps, blast+)
  next
    case 3
    then show ?thesis using readers(3) by (cases op) (simp_all add: op_tail_def del: rbind_eq_Ok op_tail_bytes.simps, blast+)
  qed (cases op; simp)
qed

lemma decode_patch_operation_eq:
  "decode_patch_operation bs L st =
     rbind (patch_take_u8 (cursor_new bs)) (\<lambda>(tag, c).
     if tag \<noteq> 0 \<and> tag \<noteq> 1 \<and> tag \<noteq> 2 then Err (PD_UnknownOperationTag tag)
     else
     rbind (patch_take_blob c) (\<lambda>(p, c).
     rbind (decode_value_path p L st) (\<lambda>(path, st).
     rbind (op_tail L tag path c st) (\<lambda>(op, c, st).
     if cursor_remaining c \<noteq> 0 then Err (PD_TrailingBytes (cur_offset c)) else Ok (op, st)))))"
  by (simp only: decode_patch_operation_def op_tail_def)

text \<open>The head of an operation: its tag and its path.\<close>

lemma op_head_reads:
  "reads c (op_bytes op) c' \<longleftrightarrow> (\<exists>c1 c2. reads c [op_tag op] c1 \<and> cursor_wf c1
     \<and> reads c1 (blob_bytes (path_bytes (op_path op))) c2 \<and> cursor_wf c2 \<and> reads c2 (op_tail_bytes op) c')"
  using reads_append [of c "[op_tag op]" "blob_bytes (path_bytes (op_path op)) @ op_tail_bytes op" c'] readsD(3)
  by (auto simp: op_bytes_def reads_append) blast+

lemma op_bytes_fits:
  assumes "length (op_bytes op) \<le> u32_max"
  shows "length (path_bytes (op_path op)) \<le> u32_max" "\<forall>v\<in>set (op_tail_values op). length (enc v) \<le> u32_max"
  using assms by (cases op; auto simp: op_bytes_def map_key_bytes_def split: option.splits)+

lemma decode_patch_operation_iff:
  assumes L: "patch_limits_in_range L" and len: "length bs \<le> u32_max"
  shows "decode_patch_operation bs L st = Inr (op, st') \<longleftrightarrow> bs = op_bytes op \<and> op_step L op st st'"
proof -
  have wf: "cursor_wf (cursor_new bs)" using len by simp
  have path: "rbind (patch_take_blob c) (\<lambda>(p, c). rbind (decode_value_path p L st) (\<lambda>(path, st). f path c st)) = Inr y \<longleftrightarrow>
      (\<exists>path c2 st1. reads c (blob_bytes (path_bytes path)) c2 \<and> cursor_wf c2 \<and> length (path_bytes path) \<le> u32_max
        \<and> path_admitted L path \<and> item_steps (patch_value_step L) (path_values L path) st st1 \<and> f path c2 st1 = Inr y)"
    if "cursor_wf c" for c f and y :: "PatchOp \<times> PatchDecodeState"
    using decode_value_path_iff [OF L] by (auto simp: patch_take_reads [OF that] cong: conj_cong)
  have "decode_patch_operation bs L st = Inr (op, st') \<longleftrightarrow> (\<exists>c1 c2 c3 st1. reads (cursor_new bs) [op_tag op] c1 \<and> cursor_wf c1
      \<and> reads c1 (blob_bytes (path_bytes (op_path op))) c2 \<and> cursor_wf c2 \<and> length (path_bytes (op_path op)) \<le> u32_max
      \<and> path_admitted L (op_path op) \<and> item_steps (patch_value_step L) (path_values L (op_path op)) st st1
      \<and> reads c2 (op_tail_bytes op) c3 \<and> (\<forall>v\<in>set (op_tail_values op). length (enc v) \<le> u32_max)
      \<and> item_steps (patch_value_step L) (op_tail_values op) st1 st' \<and> cursor_remaining c3 = 0)"
    unfolding decode_patch_operation_eq patch_tag_bind(1) [OF wf] prod.case if_Err_Ok
  proof (intro iffI; clarify)
    fix tag c1
    assume r: "reads (cursor_new bs) [tag] c1" "cursor_wf c1" and ok: "\<not> (tag \<noteq> 0 \<and> tag \<noteq> 1 \<and> tag \<noteq> 2)"
      and "rbind (patch_take_blob c1) (\<lambda>(p, c). rbind (decode_value_path p L st) (\<lambda>(path, st).
        rbind (op_tail L tag path c st) (\<lambda>(op, c, st).
        if cursor_remaining c \<noteq> 0 then Err (PD_TrailingBytes (cur_offset c)) else Ok (op, st)))) = Inr (op, st')"
    then obtain path c2 st1 c3 where p: "reads c1 (blob_bytes (path_bytes path)) c2" "cursor_wf c2" "length (path_bytes path) \<le> u32_max"
        "path_admitted L path" "item_steps (patch_value_step L) (path_values L path) st st1"
        "op_tail L tag path c2 st1 = Inr (op, c3, st')" "cursor_remaining c3 = 0"
      unfolding path [OF r(2)] by (auto simp: if_Err_Ok)
    from op_tail_iff [OF L p(2), of tag path st1 op c3 st'] ok p(6)
    have "tag = op_tag op \<and> path = op_path op \<and> reads c2 (op_tail_bytes op) c3
      \<and> (\<forall>v\<in>set (op_tail_values op). length (enc v) \<le> u32_max)
      \<and> item_steps (patch_value_step L) (op_tail_values op) st1 st'" by blast
    with p r show "\<exists>c1 c2 c3 st1. reads (cursor_new bs) [op_tag op] c1 \<and> cursor_wf c1
      \<and> reads c1 (blob_bytes (path_bytes (op_path op))) c2 \<and> cursor_wf c2 \<and> length (path_bytes (op_path op)) \<le> u32_max
      \<and> path_admitted L (op_path op) \<and> item_steps (patch_value_step L) (path_values L (op_path op)) st st1
      \<and> reads c2 (op_tail_bytes op) c3 \<and> (\<forall>v\<in>set (op_tail_values op). length (enc v) \<le> u32_max)
      \<and> item_steps (patch_value_step L) (op_tail_values op) st1 st' \<and> cursor_remaining c3 = 0"
      by (intro exI [of _ c1] exI [of _ c2] exI [of _ c3] exI [of _ st1]) simp
  next
    fix c1 c2 c3 st1
    assume r: "reads (cursor_new bs) [op_tag op] c1" "cursor_wf c1"
      and p: "reads c1 (blob_bytes (path_bytes (op_path op))) c2" "cursor_wf c2" "length (path_bytes (op_path op)) \<le> u32_max"
        "path_admitted L (op_path op)" "item_steps (patch_value_step L) (path_values L (op_path op)) st st1"
      and t: "reads c2 (op_tail_bytes op) c3" "\<forall>v\<in>set (op_tail_values op). length (enc v) \<le> u32_max"
        "item_steps (patch_value_step L) (op_tail_values op) st1 st'" "cursor_remaining c3 = 0"
    then have tail: "op_tail L (op_tag op) (op_path op) c2 st1 = Inr (op, c3, st')"
      using op_tail_iff [OF L p(2), of "op_tag op" "op_path op" st1 op c3 st'] by blast
    have "rbind (patch_take_blob c1) (\<lambda>(p, c). rbind (decode_value_path p L st) (\<lambda>(path, st).
        rbind (op_tail L (op_tag op) path c st) (\<lambda>(op, c, st).
        if cursor_remaining c \<noteq> 0 then Err (PD_TrailingBytes (cur_offset c)) else Ok (op, st)))) = Inr (op, st')"
      unfolding path [OF r(2)] using p tail t(4) by (intro exI conjI) auto
    then show "\<exists>tag c1. reads (cursor_new bs) [tag] c1 \<and> cursor_wf c1 \<and> \<not> (tag \<noteq> 0 \<and> tag \<noteq> 1 \<and> tag \<noteq> 2) \<and>
      rbind (patch_take_blob c1) (\<lambda>(p, c). rbind (decode_value_path p L st) (\<lambda>(path, st).
        rbind (op_tail L tag path c st) (\<lambda>(op, c, st).
        if cursor_remaining c \<noteq> 0 then Err (PD_TrailingBytes (cur_offset c)) else Ok (op, st)))) = Inr (op, st')"
      using r op_tags [of op] by blast
  qed
  also have "\<dots> \<longleftrightarrow> (\<exists>c3. reads (cursor_new bs) (op_bytes op) c3 \<and> cursor_remaining c3 = 0)
      \<and> length (path_bytes (op_path op)) \<le> u32_max \<and> (\<forall>v\<in>set (op_tail_values op). length (enc v) \<le> u32_max)
      \<and> op_step L op st st'"
    unfolding op_head_reads op_step_def op_values_def item_steps_append by blast
  also have "\<dots> \<longleftrightarrow> bs = op_bytes op \<and> op_step L op st st'"
    using len op_bytes_fits [of op] unfolding reads_consumed by auto
  finally show ?thesis .
qed

section \<open>Whole patches\<close>

lemma patch_op_items:
  "patch_limits_in_range L \<Longrightarrow> framed_items patch_take op_bytes (\<lambda>bs. decode_patch_operation bs L) (op_step L)"
  by unfold_locales (rule decode_patch_operation_iff)

lemma default_patch_limits_in_range: "patch_limits_in_range default_patch_decode_limits"
  by (simp add: patch_limits_in_range_def default_patch_decode_limits_def default_limits_in_range
      DEFAULT_MAX_INPUT_BYTES_def)

interpretation default_patch_ops: framed_items patch_take op_bytes
  "\<lambda>bs. decode_patch_operation bs default_patch_decode_limits" "op_step default_patch_decode_limits"
  by (rule patch_op_items [OF default_patch_limits_in_range])

definition patch_values :: "PatchDecodeLimits \<Rightarrow> PatchOp list \<Rightarrow> Value list" where
  "patch_values L ops = concat (map (op_values L) ops)"

text \<open>The resource limits of a patch.\<close>

definition ops_within :: "PatchDecodeLimits \<Rightarrow> PatchOp list \<Rightarrow> bool" where
  "ops_within L ops \<longleftrightarrow> length ops \<le> pl_max_operations L \<and> (\<forall>op\<in>set ops. path_admitted L (op_path op))
     \<and> (\<forall>v\<in>set (patch_values L ops). value_admitted (pl_value L) v)
     \<and> sum_list (map vnodes (patch_values L ops)) \<le> pl_max_value_nodes L
     \<and> sum_list (map vpayload (patch_values L ops)) \<le> pl_max_value_payload_bytes L"

lemma op_steps_eq:
  "(\<exists>st'. item_steps (op_step L) ops \<lparr>pst_value_nodes = 0, pst_value_payload_bytes = 0\<rparr> st')
     \<and> length ops \<le> pl_max_operations L \<longleftrightarrow> ops_within L ops"
  unfolding op_step_def [abs_def] item_steps_guarded item_steps_concat patch_values_def [symmetric] ops_within_def
  by (auto simp: patch_value_steps_iff patch_meter_within_def)

lemma ops_within_perm:
  assumes "mset ops = mset ops'" and "ops_within L ops" shows "ops_within L ops'"
proof -
  have m: "mset (patch_values L ops) = mset (patch_values L ops')"
    unfolding patch_values_def by (rule mset_concat_perm [OF assms(1)])
  then have "sum_list (map f (patch_values L ops)) = sum_list (map f (patch_values L ops'))" for f :: "Value \<Rightarrow> nat"
    by (metis mset_map sum_mset_sum_list)
  then show ?thesis using assms(2) mset_eq_setD [OF m] mset_eq_setD [OF assms(1)] mset_eq_length [OF assms(1)]
    by (simp add: ops_within_def)
qed

lemma op_canonical_bytes_Ok:
  assumes "op_valid op"
  shows "op_canonical_bytes op = Inr bs \<longleftrightarrow>
    (length (op_path op) \<le> u32_max \<and> list_all segment_fits (op_path op) \<and> length (path_bytes (op_path op)) \<le> u32_max
     \<and> (\<forall>v\<in>set (op_tail_values op). default_admitted v \<and> length (enc v) \<le> u32_max)) \<and> bs = op_bytes op"
  using assms
  by (cases op) (auto simp: op_canonical_bytes_def op_bytes_def path_canonical_bytes_Ok put_blob_Ok map_key_bytes_def
      value_canonical_bytes_Ok default_admitted_def split: option.splits)

definition patch_bytes :: "CanonicalPatch \<Rightarrow> bytes" where
  "patch_bytes p = be_bytes 4 (cp_state_type p) @ be_bytes 32 (cp_expected_pre_root p)
     @ framed_bytes op_bytes (cp_operations p)"

lemma patch_canonical_bytes_Ok:
  assumes "\<forall>op\<in>set (cp_operations p). op_valid op" and "patch_canonical_bytes p = Inr bs"
  shows "bs = patch_bytes p \<and> length (cp_operations p) \<le> u32_max
    \<and> (\<forall>op\<in>set (cp_operations p). length (op_bytes op) \<le> u32_max)"
  using assms(2) put_blobs_Ok [of "cp_operations p" op_canonical_bytes, OF op_canonical_bytes_Ok] assms(1)
  by (auto simp: patch_canonical_bytes_def patch_encode_to_def put_length_Ok framed_bytes_def patch_bytes_def)

lemma patch_framed_eq:
  "(\<lambda>c st. rbind (patch_take_blob c) (\<lambda>(encoded, c). rbind (f encoded st) (\<lambda>(e, st). Ok (e, c, st))))
     = decode_framed patch_take f"
  by (simp add: fun_eq_iff decode_framed_def patch_take_blob_eq)

lemma decode_canonical_patch_within:
  assumes L: "patch_limits_in_range L" and dec: "decode_canonical_patch bs L = Inr p"
  shows "ops_within L (cp_operations p) \<and> length bs \<le> pl_max_input_bytes L"
proof -
  let ?st = "\<lparr>pst_value_nodes = 0, pst_value_payload_bytes = 0\<rparr>"
  from dec have len: "length bs \<le> pl_max_input_bytes L" by (auto simp: decode_canonical_patch_def if_Err_Ok)
  then have wf: "cursor_wf (cursor_new bs)" using L by (simp add: patch_limits_in_range_def)
  from dec wf obtain t r n c ops c' st' where c: "cursor_wf c" and n: "unat (n :: u32) \<le> pl_max_operations L"
    and loop: "decode_times (unat n) (decode_framed patch_take (\<lambda>bs. decode_patch_operation bs L)) c ?st = Inr (ops, c', st')"
    and new: "patch_try_new t r ops = Inr p"
    unfolding decode_canonical_patch_def patch_framed_eq
    by (auto simp: if_Err_Ok patch_take_reads not_less)
  from framed_items.framed_loop_iff [OF patch_op_items [OF L] c, THEN iffD1, OF loop]
  have "length ops = unat n" "item_steps (op_step L) ops ?st st'" by blast+
  with n op_steps_eq [of L ops] have "ops_within L ops" by auto
  with ops_within_perm patch_try_new_Ok(3) [OF new, symmetric] len show ?thesis by blast
qed

lemma decode_canonical_patch_complete:
  assumes L: "patch_limits_in_range L" and valid: "patch_valid p" and within: "ops_within L (cp_operations p)"
    and bs: "patch_canonical_bytes p = Inr bs" and len: "length bs \<le> pl_max_input_bytes L"
  shows "decode_canonical_patch bs L = Inr p"
proof -
  let ?st = "\<lparr>pst_value_nodes = 0, pst_value_payload_bytes = 0\<rparr>" and ?ops = "cp_operations p"
  let ?n = "of_nat (length ?ops) :: u32"
  note v = valid [unfolded patch_valid_def]
  from patch_canonical_bytes_Ok [OF _ bs] v have b: "bs = patch_bytes p" "length ?ops \<le> u32_max"
      "\<forall>op\<in>set ?ops. length (op_bytes op) \<le> u32_max" by simp_all
  have u64: "length bs \<le> u64_max" using len L by (simp add: patch_limits_in_range_def)
  then obtain c1 c2 c3 c4 where r: "reads (cursor_new bs) (be_bytes 4 (cp_state_type p)) c1"
      "reads c1 (be_bytes 32 (cp_expected_pre_root p)) c2" "reads c2 (be_bytes 4 ?n) c3"
      "reads c3 (concat (map (\<lambda>op. blob_bytes (op_bytes op)) ?ops)) c4" "cursor_remaining c4 = 0"
    using reads_consumed [of bs "patch_bytes p"] b(1)
    unfolding patch_bytes_def framed_bytes_def reads_append by auto
  have wf: "cursor_wf (cursor_new bs)" "cursor_wf c1" "cursor_wf c2" "cursor_wf c3"
    using u64 r readsD(3) by auto
  from op_steps_eq [of L ?ops] within obtain st' where st: "item_steps (op_step L) ?ops ?st st'" by blast
  have n: "unat ?n = length ?ops" using b(2) by (simp add: unat_of_nat)
  have "decode_times (unat ?n) (decode_framed patch_take (\<lambda>bs. decode_patch_operation bs L)) c3 ?st = Inr (?ops, c4, st')"
    unfolding framed_items.framed_loop_iff [OF patch_op_items [OF L] wf(4)] using n r(4) b(3) st by simp
  moreover have "patch_take_u32 (cursor_new bs) = Inr (cp_state_type p, c1)"
    "patch_take_hash32 c1 = Inr (cp_expected_pre_root p, c2)" "patch_take_u32 c2 = Inr (?n, c3)"
    using r wf by (simp_all add: patch_take_reads)
  moreover have "length ?ops \<le> pl_max_operations L" using within by (simp add: ops_within_def)
  ultimately show ?thesis
    unfolding decode_canonical_patch_def patch_framed_eq
    using u64 len v bs r(5) n patch_collection_capacity_eq [of 4 ?n "cursor_remaining c3"]
    by (simp add: try_from_def)
qed

lemma decode_canonical_patch_iff:
  assumes "patch_limits_in_range L"
  shows "decode_canonical_patch bs L = Inr p \<longleftrightarrow> patch_valid p \<and> ops_within L (cp_operations p)
    \<and> patch_canonical_bytes p = Inr bs \<and> length bs \<le> pl_max_input_bytes L"
  using decode_canonical_patch_sound decode_canonical_patch_within [OF assms]
    decode_canonical_patch_complete [OF assms] by blast

section \<open>Encodings determine patches\<close>

lemma blobs_inject:
  "length xs = length ys \<Longrightarrow> \<forall>x\<in>set xs. length (f x) \<le> u32_max \<Longrightarrow> \<forall>y\<in>set ys. length (f y) \<le> u32_max \<Longrightarrow>
    concat (map (\<lambda>x. blob_bytes (f x)) xs) = concat (map (\<lambda>x. blob_bytes (f x)) ys) \<Longrightarrow> map f xs = map f ys"
  by (induction xs ys rule: list_induct2) (auto dest: blob_bytes_inject [simplified])

lemma framed_bytes_inject:
  assumes "framed_bytes f xs = framed_bytes f ys" and "length xs \<le> u32_max" "length ys \<le> u32_max"
    and "\<forall>x\<in>set xs. length (f x) \<le> u32_max" "\<forall>y\<in>set ys. length (f y) \<le> u32_max"
  shows "map f xs = map f ys"
  using assms blobs_inject [OF _ assms(4,5)] by (auto simp: framed_bytes_def be_bytes_inject of_nat_u32_inject)

lemma fold_blobs_ok:
  "fold_res (\<lambda>x out. rbind (encode x) (put_blob out)) xs out = Inr bs \<Longrightarrow> x \<in> set xs \<Longrightarrow> \<exists>b. encode x = Inr b"
  by (induction xs arbitrary: out) auto

lemma map_eq_on:
  "map f xs = map f ys \<Longrightarrow> (\<And>x y. x \<in> set xs \<Longrightarrow> y \<in> set ys \<Longrightarrow> f x = f y \<Longrightarrow> x = y) \<Longrightarrow> xs = ys"
  by (induction xs arbitrary: ys) (fastforce simp: Cons_eq_map_conv)+

lemma op_bytes_inject:
  assumes "op_valid op" "op_valid op'" and "is_ok (op_canonical_bytes op)" "is_ok (op_canonical_bytes op')"
    and "op_bytes op = op_bytes op'"
  shows "op = op'"
proof -
  have ok: "length (op_path op) \<le> u32_max" "list_all segment_fits (op_path op)" "length (path_bytes (op_path op)) \<le> u32_max"
      "\<forall>v\<in>set (op_tail_values op). default_admitted v \<and> length (enc v) \<le> u32_max"
    and ok': "length (op_path op') \<le> u32_max" "list_all segment_fits (op_path op')" "length (path_bytes (op_path op')) \<le> u32_max"
      "\<forall>v\<in>set (op_tail_values op'). default_admitted v \<and> length (enc v) \<le> u32_max"
    using assms(1-4) by (auto simp: is_ok_iff op_canonical_bytes_Ok)
  from assms(5) have tag: "op_tag op = op_tag op'"
    and "blob_bytes (path_bytes (op_path op)) @ op_tail_bytes op = blob_bytes (path_bytes (op_path op')) @ op_tail_bytes op'"
    by (simp_all add: op_bytes_def)
  from blob_bytes_inject [OF ok(3) ok'(3) this(2)]
  have path: "path_bytes (op_path op) = path_bytes (op_path op')" and tail: "op_tail_bytes op = op_tail_bytes op'" by simp_all
  have "op_path op = op_path op'"
    by (rule path_canonical_bytes_inject) (use ok ok' path in \<open>simp_all add: path_canonical_bytes_Ok\<close>)
  moreover have one: "v = w \<and> xs = ys" if "blob_bytes (enc v) @ xs = blob_bytes (enc w) @ ys" "repr_valid v" "repr_valid w"
      "default_admitted v \<and> length (enc v) \<le> u32_max" "default_admitted w \<and> length (enc w) \<le> u32_max" for v w xs ys
    using blob_bytes_inject [OF _ _ that(1)] enc_inject [OF that(2,3)] that(4,5) by auto
  ultimately have path: "op_path op = op_path op'" by simp
  show ?thesis
  proof (cases op)
    case I: (PO_Insert p k v)
    with tag obtain p' k' v' where I': "op' = PO_Insert p' k' v'" by (cases op') auto
    have v: "v = v'" if "blob_bytes (enc v) = blob_bytes (enc v')"
      using one [of v "[]" v' "[]"] that I I' ok(4) ok'(4) assms(1,2) by simp
    show ?thesis
    proof (cases k)
      case None
      then show ?thesis using tail v path I I' by (cases k') (simp_all add: map_key_bytes_def)
    next
      case (Some x)
      with tail I I' obtain x' where k': "k' = Some x'"
        and "blob_bytes (enc x) @ blob_bytes (enc v) = blob_bytes (enc x') @ blob_bytes (enc v')"
        by (cases k') (simp_all add: map_key_bytes_def)
      from one [OF this(2)] Some k' I I' ok(4) ok'(4) assms(1,2) v path show ?thesis by simp
    qed
  next
    case U: (PO_Update p h v)
    with tag obtain p' h' v' where U': "op' = PO_Update p' h' v'" by (cases op') auto
    from tail have "h = h'" "blob_bytes (enc v) = blob_bytes (enc v')" by (simp_all add: U U' be_bytes_inject)
    with one [of v "[]" v' "[]"] U U' ok(4) ok'(4) assms(1,2) path show ?thesis by simp
  next
    case D: (PO_Delete p h)
    with tag obtain p' h' where D': "op' = PO_Delete p' h'" by (cases op') auto
    from tail have "h = h'" by (simp add: D D' be_bytes_inject)
    with D D' path show ?thesis by simp
  qed
qed

lemma patch_bytes_inject:
  assumes "patch_valid p" "patch_valid q" and "patch_canonical_bytes p = Inr bs" "patch_canonical_bytes q = Inr bs"
  shows "p = q"
proof -
  note valid = assms(1,2) [unfolded patch_valid_def]
  note p = patch_canonical_bytes_Ok [OF valid(1) [THEN conjunct1] assms(3)]
  note q = patch_canonical_bytes_Ok [OF valid(2) [THEN conjunct1] assms(4)]
  from p q have h: "cp_state_type p = cp_state_type q" "cp_expected_pre_root p = cp_expected_pre_root q"
    and "framed_bytes op_bytes (cp_operations p) = framed_bytes op_bytes (cp_operations q)"
    by (auto simp: patch_bytes_def be_bytes_inject)
  then have m: "map op_bytes (cp_operations p) = map op_bytes (cp_operations q)"
    using p q by (intro framed_bytes_inject) auto
  have ok: "\<forall>op\<in>set (cp_operations r). is_ok (op_canonical_bytes op)"
    if "patch_canonical_bytes r = Inr bs" for r
    using that by (auto simp: patch_canonical_bytes_def patch_encode_to_def is_ok_iff dest: fold_blobs_ok)
  have "cp_operations p = cp_operations q"
    by (rule map_eq_on [OF m]) (use op_bytes_inject valid ok assms(3,4) in blast)
  with h show ?thesis by (auto intro: CanonicalPatch.equality)
qed

section \<open>Properties\<close>

text \<open>C9: the patch decoder accepts a byte string exactly when it is the canonical encoding of a
  patch that the constructor itself builds from representation-valid operations and whose
  operations, paths, map keys and values keep the limits; it then returns that patch.\<close>

theorem patch_decoder_accepts_exactly:
  assumes "patch_limits_in_range limits"
  shows "decode_canonical_patch bs limits = Ok p \<longleftrightarrow> patch_valid p \<and> ops_within limits (cp_operations p)
    \<and> patch_canonical_bytes p = Ok bs \<and> length bs \<le> pl_max_input_bytes limits"
  using assms by (rule decode_canonical_patch_iff)

lemma empty_patch_valid: "patch_valid empty_patch" "ops_within L []"
  "patch_canonical_bytes empty_patch = Ok empty_patch_bytes"
  by (simp_all add: patch_valid_def empty_patch_def patch_try_new_def ops_within_def patch_values_def
      patch_canonical_bytes_def patch_encode_to_def put_length_def try_from_def empty_patch_bytes_def)

theorem patch_decoder_accepts_exactly_witness:
  "decode_canonical_patch empty_patch_bytes default_patch_decode_limits = Ok empty_patch"
  using patch_decoder_accepts_exactly [OF default_patch_limits_in_range, of empty_patch_bytes empty_patch]
    empty_patch_valid
  by (simp add: empty_patch_def empty_patch_bytes_def default_patch_decode_limits_def DEFAULT_MAX_INPUT_BYTES_def)

end
