(* ===== verification/Zeno_Plan_Laws.thy ===== *)
theory Zeno_Plan_Laws
  imports Zeno_Plan Zeno_Patch_Codec
begin

text \<open>
  Plans: duplicates are found exactly, construction does not depend on the order of its input,
  the strict decoders accept exactly the canonical encodings within the limits, and the identity
  of a delivery determines the candidate and the entry up to a hash collision.
\<close>

section \<open>Unique ordinals\<close>

text \<open>Both plans sort by ordinal and then compare neighbours.  On a sorted list this finds every
  duplicate, and reports the least ordinal that occurs twice.\<close>

definition repeated :: "'k list \<Rightarrow> 'k \<Rightarrow> bool" where
  "repeated ks k \<longleftrightarrow> 2 \<le> count (mset ks) k"

lemma repeated_mem: "repeated ks k \<Longrightarrow> k \<in> set ks"
  by (metis repeated_def count_eq_zero_iff not_numeral_le_zero set_mset_mset)

definition least_repeated :: "'k::linorder list \<Rightarrow> 'k \<Rightarrow> bool" where
  "least_repeated ks k \<longleftrightarrow> repeated ks k \<and> (\<forall>k'. repeated ks k' \<longrightarrow> k \<le> k')"

locale unique_ordinals =
  fixes ordinal :: "'a \<Rightarrow> 'k::linorder"
    and check :: "'a list \<Rightarrow> 'e + unit"
    and duplicate :: "'k \<Rightarrow> 'e"
  assumes check_pair: "check (x # y # xs) =
      (if ordinal x = ordinal y then Inl (duplicate (ordinal x)) else check (y # xs))"
    and check_short: "check [] = Inr ()" "check [x] = Inr ()"
begin

lemma check_sorted:
  assumes "sorted (map ordinal xs)"
  shows "check xs = Inr () \<longleftrightarrow> distinct (map ordinal xs)"
  using assms
proof (induction xs rule: induct_list012)
  case (3 x y zs)
  then show ?case by (auto simp: check_pair)
qed (simp_all add: check_short)

lemma check_duplicate:
  assumes "sorted (map ordinal xs)" and "\<not> distinct (map ordinal xs)"
  shows "\<exists>k. check xs = Inl (duplicate k) \<and> least_repeated (map ordinal xs) k"
  using assms
proof (induction xs rule: induct_list012)
  case (3 x y zs)
  show ?case
  proof (cases "ordinal x = ordinal y")
    case True
    have "ordinal x \<le> k'" if "repeated (map ordinal (x # y # zs)) k'" for k'
      using repeated_mem [OF that] "3.prems"(1) True by auto
    moreover have "repeated (map ordinal (x # y # zs)) (ordinal x)" using True by (simp add: repeated_def)
    ultimately show ?thesis using True by (auto simp: check_pair least_repeated_def)
  next
    case False
    then have new: "ordinal x \<notin> set (map ordinal (y # zs))" using "3.prems"(1) by auto
    then have "repeated (map ordinal (x # y # zs)) k \<longleftrightarrow> repeated (map ordinal (y # zs)) k" for k
      using repeated_mem [of "map ordinal (y # zs)" k] count_eq_zero_iff [of "mset (map ordinal (y # zs))" k]
      by (auto simp: repeated_def)
    moreover have "sorted (map ordinal (y # zs))" "\<not> distinct (map ordinal (y # zs))"
      using "3.prems" new by auto
    ultimately show ?thesis using "3.IH"(2) False by (simp add: check_pair least_repeated_def)
  qed
qed simp_all

lemma sorted_strict: "distinct (map ordinal xs) \<Longrightarrow> sorted_wrt (<) (map ordinal (sort_key ordinal xs))"
  by (simp add: strict_sorted_iff distinct_map inj_on_def)

lemma sort_unique:
  assumes "mset xs = mset ys" and "distinct (map ordinal xs)"
  shows "sort_key ordinal xs = sort_key ordinal ys"
  using assms by (intro sort_key_inj_key_eq) (simp_all add: distinct_map)

lemma check_sort: "check (sort_key ordinal xs) = Inr () \<longleftrightarrow> distinct (map ordinal xs)"
  by (subst check_sorted) (simp_all add: distinct_map)

lemma check_sort_duplicate:
  assumes "\<not> distinct (map ordinal xs)"
  shows "\<exists>k. check (sort_key ordinal xs) = Inl (duplicate k) \<and> least_repeated (map ordinal xs) k"
proof -
  have "mset (map ordinal (sort_key ordinal xs)) = mset (map ordinal xs)" by simp
  then show ?thesis using check_duplicate [of "sort_key ordinal xs"] assms
    by (simp add: least_repeated_def repeated_def distinct_map)
qed

end

interpretation effect_ordinals: unique_ordinals eff_ordinal ensure_unique_effects PLE_DuplicateEffectOrdinal
  by unfold_locales simp_all

interpretation entry_ordinals: unique_ordinals ob_ordinal ensure_unique_entries PLE_DuplicateOutboxOrdinal
  by unfold_locales simp_all

lemma commit_plan_try_new_Ok:
  "commit_plan_try_new es = Inr p \<longleftrightarrow> distinct (map eff_ordinal es) \<and> p = \<lparr>plan_effects = sort_key eff_ordinal es\<rparr>"
  using effect_ordinals.check_sort [of es] by (auto simp: commit_plan_try_new_def Let_def)

lemma outbox_plan_try_new_Ok:
  "outbox_plan_try_new es = Inr p \<longleftrightarrow> distinct (map ob_ordinal es) \<and> p = \<lparr>plan_entries = sort_key ob_ordinal es\<rparr>"
  using entry_ordinals.check_sort [of es] by (auto simp: outbox_plan_try_new_def Let_def)

section \<open>Values inside a plan\<close>

definition plan_limits_in_range :: "PlanDecodeLimits \<Rightarrow> bool" where
  "plan_limits_in_range L \<longleftrightarrow> decode_limits_in_range (pnl_value L)
     \<and> pnl_max_input_bytes L \<le> u64_max \<and> pnl_max_value_nodes L \<le> u64_max
     \<and> pnl_max_value_payload_bytes L \<le> u64_max"

definition plan_within :: "PlanDecodeLimits \<Rightarrow> PlanDecodeState \<Rightarrow> bool" where
  "plan_within L st \<longleftrightarrow> pls_value_nodes st \<le> pnl_max_value_nodes L
     \<and> pls_value_payload_bytes st \<le> pnl_max_value_payload_bytes L"

definition plan_value_step :: "PlanDecodeLimits \<Rightarrow> Value \<Rightarrow> PlanDecodeState \<Rightarrow> PlanDecodeState \<Rightarrow> bool" where
  "plan_value_step L v st st' \<longleftrightarrow> value_admitted (pnl_value L) v \<and> plan_within L st'
     \<and> st' = \<lparr>pls_value_nodes = pls_value_nodes st + vnodes v,
             pls_value_payload_bytes = pls_value_payload_bytes st + vpayload v\<rparr>"

lemma decode_plan_value_iff:
  assumes "plan_limits_in_range L"
  shows "decode_plan_value bs L st = Inr (v, st') \<longleftrightarrow> bs = enc v \<and> plan_value_step L v st st'"
proof -
  have L: "decode_limits_in_range (pnl_value L)" "limits_in_range (dl_value (pnl_value L))"
    using assms by (simp_all add: plan_limits_in_range_def decode_limits_in_range_def)
  show ?thesis
    using assms
    by (auto simp: decode_plan_value_def decode_value_admitted [OF L(1)] plan_value_step_def
        plan_within_def value_admitted_def is_ok_iff validate_limits_Ok [OF L(2)] plan_limits_in_range_def
        intro!: exI [of _ v] split: if_splits)
qed

lemma plan_value_steps_iff:
  assumes "plan_within L st"
  shows "item_steps (plan_value_step L) vs st st' \<longleftrightarrow>
    (\<forall>v\<in>set vs. value_admitted (pnl_value L) v) \<and> plan_within L st'
    \<and> st' = \<lparr>pls_value_nodes = pls_value_nodes st + sum_list (map vnodes vs),
            pls_value_payload_bytes = pls_value_payload_bytes st + sum_list (map vpayload vs)\<rparr>"
  using assms
proof (induction vs arbitrary: st)
  case (Cons v vs)
  then show ?case by (auto simp: plan_value_step_def plan_within_def add.assoc)
qed auto

section \<open>Effects and outbox entries\<close>

lemma plan_put_eq [simp]: "plan_put_length = put_length" "plan_put_blob = put_blob"
  by (simp_all add: fun_eq_iff plan_put_length_def put_length_def plan_put_blob_def put_blob_def)

interpretation plan_cursor: byte_cursor plan_take
  unfolding plan_take_def by (rule cursor_take_byte_cursor)

lemma plan_take_blob_eq: "plan_take_blob = cursor_blob plan_take"
proof
  fix c
  have "unat n \<le> u64_max" for n :: u32 using unsigned_less [of n, where ?'a = nat] by simp
  then show "plan_take_blob c = cursor_blob plan_take c"
    by (simp add: plan_take_blob_def cursor_blob_def plan_take_u32_def try_from_def)
qed

lemma plan_take_reads:
  assumes "cursor_wf c"
  shows "plan_take_u32 c = Inr (w, c') \<longleftrightarrow> reads c (be_bytes 4 w) c' \<and> cursor_wf c'"
    "plan_take_hash32 c = Inr (h, c') \<longleftrightarrow> reads c (be_bytes 32 h) c' \<and> cursor_wf c'"
    "plan_take_blob c = Inr (bs, c') \<longleftrightarrow> reads c (blob_bytes bs) c' \<and> cursor_wf c' \<and> length bs \<le> u32_max"
  using plan_cursor.word_reads [OF assms, where 'a = 32] plan_cursor.word_reads [OF assms, where 'a = 256]
    plan_cursor.blob_reads [OF assms] readsD(3)
  by (auto simp: plan_take_u32_def plan_take_hash32_def plan_take_blob_eq)

definition effect_bytes :: "Effect \<Rightarrow> bytes" where
  "effect_bytes e = be_bytes 4 (eff_ordinal e) @ be_bytes 4 (eff_operation e)
     @ be_bytes 32 (eff_authority e) @ be_bytes 32 (eff_subject e) @ blob_bytes (enc (eff_payload e))"

definition outbox_entry_bytes :: "OutboxEntry \<Rightarrow> bytes" where
  "outbox_entry_bytes e = be_bytes 4 (ob_ordinal e) @ be_bytes 4 (ob_channel e)
     @ blob_bytes (enc (ob_destination e)) @ blob_bytes (enc (ob_payload e))"

definition effect_step :: "PlanDecodeLimits \<Rightarrow> Effect \<Rightarrow> PlanDecodeState \<Rightarrow> PlanDecodeState \<Rightarrow> bool" where
  "effect_step L e = item_steps (plan_value_step L) [eff_payload e]"

definition outbox_entry_step :: "PlanDecodeLimits \<Rightarrow> OutboxEntry \<Rightarrow> PlanDecodeState \<Rightarrow> PlanDecodeState \<Rightarrow> bool" where
  "outbox_entry_step L e = item_steps (plan_value_step L) [ob_destination e, ob_payload e]"

lemma ensure_plan_consumed_Ok: "ensure_plan_consumed c = Inr u \<longleftrightarrow> cursor_remaining c = 0"
  by (simp add: ensure_plan_consumed_def)

lemma decode_effect_iff:
  assumes "plan_limits_in_range L" and "length bs \<le> u32_max"
  shows "decode_effect bs L st = Inr (e, st') \<longleftrightarrow> bs = effect_bytes e \<and> effect_step L e st st'"
proof -
  have wf: "cursor_wf (cursor_new bs)" using assms(2) by simp
  have "decode_effect bs L st = Inr (e, st') \<longleftrightarrow>
      (\<exists>c1 c2 c3 c4 c5. reads (cursor_new bs) (be_bytes 4 (eff_ordinal e)) c1
        \<and> reads c1 (be_bytes 4 (eff_operation e)) c2 \<and> reads c2 (be_bytes 32 (eff_authority e)) c3
        \<and> reads c3 (be_bytes 32 (eff_subject e)) c4 \<and> reads c4 (blob_bytes (enc (eff_payload e))) c5
        \<and> length (enc (eff_payload e)) \<le> u32_max \<and> cursor_remaining c5 = 0 \<and> effect_step L e st st')"
    using wf by (cases e) (auto simp: decode_effect_def plan_take_reads decode_plan_value_iff [OF assms(1)]
        ensure_plan_consumed_Ok effect_step_def cong: conj_cong; blast dest: readsD(3))
  also have "\<dots> \<longleftrightarrow> (\<exists>c. reads (cursor_new bs) (effect_bytes e) c \<and> cursor_remaining c = 0)
      \<and> length (enc (eff_payload e)) \<le> u32_max \<and> effect_step L e st st'"
    unfolding effect_bytes_def reads_append by blast
  finally show ?thesis using assms(2) by (auto simp: reads_consumed effect_bytes_def)
qed

lemma decode_outbox_entry_iff:
  assumes "plan_limits_in_range L" and "length bs \<le> u32_max"
  shows "decode_outbox_entry bs L st = Inr (e, st') \<longleftrightarrow> bs = outbox_entry_bytes e \<and> outbox_entry_step L e st st'"
proof -
  have wf: "cursor_wf (cursor_new bs)" using assms(2) by simp
  have "decode_outbox_entry bs L st = Inr (e, st') \<longleftrightarrow>
      (\<exists>c1 c2 c3 c4. reads (cursor_new bs) (be_bytes 4 (ob_ordinal e)) c1
        \<and> reads c1 (be_bytes 4 (ob_channel e)) c2 \<and> reads c2 (blob_bytes (enc (ob_destination e))) c3
        \<and> reads c3 (blob_bytes (enc (ob_payload e))) c4
        \<and> length (enc (ob_destination e)) \<le> u32_max \<and> length (enc (ob_payload e)) \<le> u32_max
        \<and> cursor_remaining c4 = 0 \<and> outbox_entry_step L e st st')"
    using wf by (cases e) (auto simp: decode_outbox_entry_def plan_take_reads decode_plan_value_iff [OF assms(1)]
        ensure_plan_consumed_Ok outbox_entry_step_def cong: conj_cong; blast dest: readsD(3))
  also have "\<dots> \<longleftrightarrow> (\<exists>c. reads (cursor_new bs) (outbox_entry_bytes e) c \<and> cursor_remaining c = 0)
      \<and> length (enc (ob_destination e)) \<le> u32_max \<and> length (enc (ob_payload e)) \<le> u32_max
      \<and> outbox_entry_step L e st st'"
    unfolding outbox_entry_bytes_def reads_append by blast
  finally show ?thesis using assms(2) by (auto simp: reads_consumed outbox_entry_bytes_def)
qed

lemma effect_items:
  "plan_limits_in_range L \<Longrightarrow> framed_items plan_take effect_bytes (\<lambda>bs. decode_effect bs L) (effect_step L)"
  by unfold_locales (rule decode_effect_iff)

lemma outbox_entry_items:
  "plan_limits_in_range L \<Longrightarrow>
    framed_items plan_take outbox_entry_bytes (\<lambda>bs. decode_outbox_entry bs L) (outbox_entry_step L)"
  by unfold_locales (rule decode_outbox_entry_iff)

lemma default_plan_limits_in_range: "plan_limits_in_range default_plan_decode_limits"
  by (simp add: plan_limits_in_range_def default_plan_decode_limits_def default_limits_in_range
      DEFAULT_MAX_INPUT_BYTES_def)

interpretation default_effects: framed_items plan_take effect_bytes
  "\<lambda>bs. decode_effect bs default_plan_decode_limits" "effect_step default_plan_decode_limits"
  by (rule effect_items [OF default_plan_limits_in_range])

interpretation default_entries: framed_items plan_take outbox_entry_bytes
  "\<lambda>bs. decode_outbox_entry bs default_plan_decode_limits" "outbox_entry_step default_plan_decode_limits"
  by (rule outbox_entry_items [OF default_plan_limits_in_range])

section \<open>Whole plans\<close>

definition plan_values_within :: "PlanDecodeLimits \<Rightarrow> Value list \<Rightarrow> bool" where
  "plan_values_within L vs \<longleftrightarrow> (\<forall>v\<in>set vs. value_admitted (pnl_value L) v)
     \<and> sum_list (map vnodes vs) \<le> pnl_max_value_nodes L
     \<and> sum_list (map vpayload vs) \<le> pnl_max_value_payload_bytes L"

lemma plan_values_within_steps:
  "(\<exists>st'. item_steps (plan_value_step L) vs plan_decode_state_default st') \<longleftrightarrow> plan_values_within L vs"
  by (auto simp: plan_value_steps_iff plan_within_def plan_values_within_def)

lemma plan_values_within_perm:
  assumes "mset vs = mset ws" shows "plan_values_within L vs \<longleftrightarrow> plan_values_within L ws"
proof -
  have "sum_list (map f vs) = sum_list (map f ws)" for f :: "Value \<Rightarrow> nat"
    using assms by (metis mset_map sum_mset_sum_list)
  then show ?thesis using mset_eq_setD [OF assms] by (simp add: plan_values_within_def)
qed

lemma effect_canonical_bytes_Ok:
  assumes "repr_valid (eff_payload e)"
  shows "effect_canonical_bytes e = Inr bs \<longleftrightarrow>
    (default_admitted (eff_payload e) \<and> length (enc (eff_payload e)) \<le> u32_max) \<and> bs = effect_bytes e"
  by (auto simp: effect_canonical_bytes_def effect_encode_to_def Let_def effect_bytes_def
      value_canonical_bytes_Ok [OF assms] put_blob_Ok default_admitted_def)

lemma outbox_entry_encode_to_Ok:
  assumes "repr_valid (ob_destination e)" "repr_valid (ob_payload e)"
  shows "outbox_entry_encode_to e out = Inr bs \<longleftrightarrow>
    (default_admitted (ob_destination e) \<and> length (enc (ob_destination e)) \<le> u32_max
     \<and> default_admitted (ob_payload e) \<and> length (enc (ob_payload e)) \<le> u32_max)
    \<and> bs = out @ outbox_entry_bytes e"
  by (auto simp: outbox_entry_encode_to_def Let_def outbox_entry_bytes_def put_blob_Ok default_admitted_def
      value_canonical_bytes_Ok [OF assms(1)] value_canonical_bytes_Ok [OF assms(2)])

lemma outbox_entry_canonical_bytes_Ok:
  assumes "repr_valid (ob_destination e)" "repr_valid (ob_payload e)"
  shows "outbox_entry_canonical_bytes e = Inr bs \<longleftrightarrow>
    (default_admitted (ob_destination e) \<and> length (enc (ob_destination e)) \<le> u32_max
     \<and> default_admitted (ob_payload e) \<and> length (enc (ob_payload e)) \<le> u32_max)
    \<and> bs = outbox_entry_bytes e"
  by (simp add: outbox_entry_canonical_bytes_def outbox_entry_encode_to_Ok [OF assms])

lemma enforce_plan_input_limit_Ok:
  assumes "plan_limits_in_range L"
  shows "enforce_plan_input_limit bs L = Inr u \<longleftrightarrow> length bs \<le> pnl_max_input_bytes L"
  using assms by (auto simp: enforce_plan_input_limit_def plan_limits_in_range_def split: if_splits)

lemma plan_collection_capacity_eq:
  "k \<noteq> 0 \<Longrightarrow> plan_collection_capacity (unat (n :: u32)) m k = Inr (min (unat n) (m div k))"
  using unsigned_less [of n, where ?'a = nat]
  by (simp add: plan_collection_capacity_def try_from_def checked_div_def)

lemma ensure_canonical_plan_Ok: "ensure_canonical_plan bs r = Inr u \<longleftrightarrow> r = Inr bs"
  by (cases r) (auto simp: ensure_canonical_plan_def)

lemma framed_step_eq:
  "(\<lambda>c st. rbind (plan_take_blob c) (\<lambda>(encoded, c). rbind (f encoded st) (\<lambda>(e, st). Ok (e, c, st))))
     = decode_framed plan_take f"
  by (simp add: fun_eq_iff decode_framed_def plan_take_blob_eq)

definition entry_values :: "OutboxEntry \<Rightarrow> Value list" where
  "entry_values e = [ob_destination e, ob_payload e]"

definition commit_plan_valid :: "PlanDecodeLimits \<Rightarrow> CommitPlan \<Rightarrow> bool" where
  "commit_plan_valid L p \<longleftrightarrow> sorted_wrt (<) (map eff_ordinal (plan_effects p))
     \<and> length (plan_effects p) \<le> pnl_max_effects L \<and> plan_values_within L (map eff_payload (plan_effects p))"

definition outbox_plan_valid :: "PlanDecodeLimits \<Rightarrow> OutboxPlan \<Rightarrow> bool" where
  "outbox_plan_valid L p \<longleftrightarrow> sorted_wrt (<) (map ob_ordinal (plan_entries p))
     \<and> length (plan_entries p) \<le> pnl_max_outbox_entries L
     \<and> plan_values_within L (concat (map entry_values (plan_entries p)))"

lemma plan_values_valid: "plan_values_within L vs \<Longrightarrow> v \<in> set vs \<Longrightarrow> repr_valid v"
  by (simp add: plan_values_within_def value_admitted_def value_valid_def)

lemma commit_plan_canonical_bytes_Ok:
  assumes "\<forall>e\<in>set (plan_effects p). repr_valid (eff_payload e)"
  shows "commit_plan_canonical_bytes p = Inr bs \<longleftrightarrow> length (plan_effects p) \<le> u32_max
    \<and> (\<forall>e\<in>set (plan_effects p). (default_admitted (eff_payload e) \<and> length (enc (eff_payload e)) \<le> u32_max)
         \<and> length (effect_bytes e) \<le> u32_max)
    \<and> bs = framed_bytes effect_bytes (plan_effects p)"
  using put_blobs_Ok [of "plan_effects p" effect_canonical_bytes, OF effect_canonical_bytes_Ok] assms
  by (auto simp: commit_plan_canonical_bytes_def commit_plan_encode_to_def put_length_Ok framed_bytes_def)

lemma outbox_plan_canonical_bytes_Ok:
  assumes "\<forall>e\<in>set (plan_entries p). repr_valid (ob_destination e) \<and> repr_valid (ob_payload e)"
  shows "outbox_plan_canonical_bytes p = Inr bs \<longleftrightarrow> length (plan_entries p) \<le> u32_max
    \<and> (\<forall>e\<in>set (plan_entries p). (default_admitted (ob_destination e) \<and> length (enc (ob_destination e)) \<le> u32_max
         \<and> default_admitted (ob_payload e) \<and> length (enc (ob_payload e)) \<le> u32_max)
         \<and> length (outbox_entry_bytes e) \<le> u32_max)
    \<and> bs = framed_bytes outbox_entry_bytes (plan_entries p)"
  using put_blobs_Ok [of "plan_entries p" outbox_entry_canonical_bytes, OF outbox_entry_canonical_bytes_Ok] assms
  by (auto simp: outbox_plan_canonical_bytes_def outbox_plan_encode_to_def put_length_Ok framed_bytes_def)

lemma effect_steps_eq:
  "item_steps (effect_step L) es st st' \<longleftrightarrow> item_steps (plan_value_step L) (map eff_payload es) st st'"
  using item_steps_concat [of "plan_value_step L" "\<lambda>e. [eff_payload e]" es st st']
  by (simp add: effect_step_def [abs_def] concat_map_singleton del: item_steps.simps)

lemma commit_plan_encoding:
  assumes "plan_values_within L (map eff_payload (plan_effects p))" and "commit_plan_canonical_bytes p = Inr bs"
  shows "bs = framed_bytes effect_bytes (plan_effects p) \<and> length (plan_effects p) \<le> u32_max
    \<and> (\<forall>e\<in>set (plan_effects p). length (effect_bytes e) \<le> u32_max)"
  using assms(2) plan_values_valid [OF assms(1)] by (subst (asm) commit_plan_canonical_bytes_Ok) auto

lemma outbox_plan_encoding:
  assumes "plan_values_within L (concat (map entry_values (plan_entries p)))"
    and "outbox_plan_canonical_bytes p = Inr bs"
  shows "bs = framed_bytes outbox_entry_bytes (plan_entries p) \<and> length (plan_entries p) \<le> u32_max
    \<and> (\<forall>e\<in>set (plan_entries p). length (outbox_entry_bytes e) \<le> u32_max)"
proof -
  have "\<forall>e\<in>set (plan_entries p). repr_valid (ob_destination e) \<and> repr_valid (ob_payload e)"
    by (auto intro!: plan_values_valid [OF assms(1)] simp: entry_values_def)
  from outbox_plan_canonical_bytes_Ok [OF this] assms(2) show ?thesis by auto
qed

lemma outbox_entry_steps_eq:
  "item_steps (outbox_entry_step L) es st st' \<longleftrightarrow>
     item_steps (plan_value_step L) (concat (map entry_values es)) st st'"
  using item_steps_concat [of "plan_value_step L" entry_values es st st']
  by (simp add: outbox_entry_step_def [abs_def] entry_values_def del: item_steps.simps)

text \<open>The decoders sort what they have read and compare the encoding of the result with the input.
  So they accept exactly the encodings of sorted lists.\<close>

lemma sorted_items_iff:
  fixes ordinal :: "'a \<Rightarrow> 'k::linorder"
  assumes perm: "\<And>xs ys. mset xs = mset ys \<Longrightarrow> sized xs \<Longrightarrow> sized ys"
    and encode: "sized ys \<Longrightarrow> encode ys = Inr bs \<Longrightarrow> bs = framed_bytes item_bytes ys
      \<and> length ys \<le> u32_max \<and> (\<forall>y\<in>set ys. length (item_bytes y) \<le> u32_max)"
  shows "(\<exists>xs. bs = framed_bytes item_bytes xs \<and> length xs \<le> u32_max
      \<and> (\<forall>x\<in>set xs. length (item_bytes x) \<le> u32_max) \<and> sized xs \<and> length xs \<le> m
      \<and> distinct (map ordinal xs) \<and> ys = sort_key ordinal xs \<and> encode ys = Inr bs) \<longleftrightarrow>
    sorted_wrt (<) (map ordinal ys) \<and> length ys \<le> m \<and> sized ys \<and> encode ys = Inr bs" (is "?read \<longleftrightarrow> ?spec")
proof
  assume ?read
  then obtain xs where xs: "sized xs" "length xs \<le> m" "distinct (map ordinal xs)" "ys = sort_key ordinal xs"
    "encode ys = Inr bs" by blast
  moreover have "sized ys" using perm [of xs ys] xs(1,4) by simp
  ultimately show ?spec by (simp add: strict_sorted_iff distinct_map inj_on_def)
next
  assume spec: ?spec
  then have "sort_key ordinal ys = ys" "distinct (map ordinal ys)" by (simp_all add: sort_key_strict strict_sorted_iff)
  then show ?read using spec encode by (intro exI [of _ ys]) simp
qed

lemma decode_commit_plan_iff:
  assumes L: "plan_limits_in_range L"
  shows "decode_commit_plan bs L = Inr p \<longleftrightarrow>
    commit_plan_valid L p \<and> commit_plan_canonical_bytes p = Inr bs \<and> length bs \<le> pnl_max_input_bytes L"
proof -
  obtain es where p: "p = \<lparr>plan_effects = es\<rparr>" by (cases p)
  have new: "commit_plan_try_new xs = Inr p \<longleftrightarrow> distinct (map eff_ordinal xs) \<and> es = sort_key eff_ordinal xs" for xs
    by (auto simp: commit_plan_try_new_Ok p)
  have len: "length bs \<le> pnl_max_input_bytes L \<Longrightarrow> length bs \<le> usize_max"
    using L by (simp add: plan_limits_in_range_def)
  have "decode_commit_plan bs L = Inr p \<longleftrightarrow> length bs \<le> pnl_max_input_bytes L \<and>
      (\<exists>n c es c' st'. plan_take_u32 (cursor_new bs) = Inr (n, c)
        \<and> decode_times (unat n) (decode_framed plan_take (\<lambda>bs. decode_effect bs L)) c
            plan_decode_state_default = Inr (es, c', st') \<and> cursor_remaining c' = 0
        \<and> (unat n \<le> pnl_max_effects L \<and> commit_plan_try_new es = Inr p \<and> commit_plan_canonical_bytes p = Inr bs))"
    by (auto simp: decode_commit_plan_def enforce_plan_input_limit_Ok [OF L] ensure_plan_consumed_Ok
        plan_collection_capacity_eq framed_step_eq ensure_canonical_plan_Ok if_Err_Ok not_less)
  also have "\<dots> \<longleftrightarrow> length bs \<le> pnl_max_input_bytes L \<and>
      (\<exists>xs. bs = framed_bytes effect_bytes xs \<and> length xs \<le> u32_max
        \<and> (\<forall>e\<in>set xs. length (effect_bytes e) \<le> u32_max) \<and> plan_values_within L (map eff_payload xs)
        \<and> length xs \<le> pnl_max_effects L \<and> distinct (map eff_ordinal xs) \<and> es = sort_key eff_ordinal xs
        \<and> commit_plan_canonical_bytes \<lparr>plan_effects = es\<rparr> = Inr bs)"
    using framed_items.framed_input_ex [OF effect_items [OF L] len, where st = plan_decode_state_default
        and Q = "\<lambda>n es. n \<le> pnl_max_effects L \<and> commit_plan_try_new es = Inr p \<and> commit_plan_canonical_bytes p = Inr bs",
        folded plan_take_u32_def]
    unfolding effect_steps_eq plan_values_within_steps [symmetric] new by (simp only: p) blast
  also have "\<dots> \<longleftrightarrow> length bs \<le> pnl_max_input_bytes L \<and> commit_plan_valid L p \<and> commit_plan_canonical_bytes p = Inr bs"
    using commit_plan_encoding [of L p bs]
    by (subst sorted_items_iff) (auto simp: commit_plan_valid_def p elim: plan_values_within_perm [THEN iffD1, rotated])
  finally show ?thesis by blast
qed

lemma decode_outbox_plan_iff:
  assumes L: "plan_limits_in_range L"
  shows "decode_outbox_plan bs L = Inr p \<longleftrightarrow>
    outbox_plan_valid L p \<and> outbox_plan_canonical_bytes p = Inr bs \<and> length bs \<le> pnl_max_input_bytes L"
proof -
  obtain es where p: "p = \<lparr>plan_entries = es\<rparr>" by (cases p)
  have new: "outbox_plan_try_new xs = Inr p \<longleftrightarrow> distinct (map ob_ordinal xs) \<and> es = sort_key ob_ordinal xs" for xs
    by (auto simp: outbox_plan_try_new_Ok p)
  have len: "length bs \<le> pnl_max_input_bytes L \<Longrightarrow> length bs \<le> usize_max"
    using L by (simp add: plan_limits_in_range_def)
  have "decode_outbox_plan bs L = Inr p \<longleftrightarrow> length bs \<le> pnl_max_input_bytes L \<and>
      (\<exists>n c es c' st'. plan_take_u32 (cursor_new bs) = Inr (n, c)
        \<and> decode_times (unat n) (decode_framed plan_take (\<lambda>bs. decode_outbox_entry bs L)) c
            plan_decode_state_default = Inr (es, c', st') \<and> cursor_remaining c' = 0
        \<and> (unat n \<le> pnl_max_outbox_entries L \<and> outbox_plan_try_new es = Inr p \<and> outbox_plan_canonical_bytes p = Inr bs))"
    by (auto simp: decode_outbox_plan_def enforce_plan_input_limit_Ok [OF L] ensure_plan_consumed_Ok
        plan_collection_capacity_eq framed_step_eq ensure_canonical_plan_Ok if_Err_Ok not_less)
  also have "\<dots> \<longleftrightarrow> length bs \<le> pnl_max_input_bytes L \<and>
      (\<exists>xs. bs = framed_bytes outbox_entry_bytes xs \<and> length xs \<le> u32_max
        \<and> (\<forall>e\<in>set xs. length (outbox_entry_bytes e) \<le> u32_max) \<and> plan_values_within L (concat (map entry_values xs))
        \<and> length xs \<le> pnl_max_outbox_entries L \<and> distinct (map ob_ordinal xs) \<and> es = sort_key ob_ordinal xs
        \<and> outbox_plan_canonical_bytes \<lparr>plan_entries = es\<rparr> = Inr bs)"
    using framed_items.framed_input_ex [OF outbox_entry_items [OF L] len, where st = plan_decode_state_default
        and Q = "\<lambda>n es. n \<le> pnl_max_outbox_entries L \<and> outbox_plan_try_new es = Inr p \<and> outbox_plan_canonical_bytes p = Inr bs",
        folded plan_take_u32_def]
    unfolding outbox_entry_steps_eq plan_values_within_steps [symmetric] new by (simp only: p) blast
  also have "\<dots> \<longleftrightarrow> length bs \<le> pnl_max_input_bytes L \<and> outbox_plan_valid L p \<and> outbox_plan_canonical_bytes p = Inr bs"
    using outbox_plan_encoding [of L p bs]
    by (subst sorted_items_iff) (auto simp: outbox_plan_valid_def p elim: plan_values_within_perm [THEN iffD1, rotated]
        intro: mset_concat_perm)
  finally show ?thesis by blast
qed

section \<open>Identity of a delivery\<close>

definition entry_valid_values :: "OutboxEntry \<Rightarrow> bool" where
  "entry_valid_values e \<longleftrightarrow> repr_valid (ob_destination e) \<and> repr_valid (ob_payload e)"

lemma outbox_entry_bytes_inject:
  assumes "entry_valid_values e" "entry_valid_values e'"
    and "is_ok (outbox_entry_canonical_bytes e)" "is_ok (outbox_entry_canonical_bytes e')"
    and "outbox_entry_bytes e = outbox_entry_bytes e'"
  shows "e = e'"
proof -
  note v = assms(1,2) [unfolded entry_valid_values_def]
  have a: "default_admitted (ob_destination e)" "length (enc (ob_destination e)) \<le> u32_max"
      "default_admitted (ob_payload e)" "length (enc (ob_payload e)) \<le> u32_max"
    and a': "default_admitted (ob_destination e')" "length (enc (ob_destination e')) \<le> u32_max"
      "default_admitted (ob_payload e')" "length (enc (ob_payload e')) \<le> u32_max"
    using assms(3,4) v by (auto simp: is_ok_iff outbox_entry_canonical_bytes_Ok)
  from assms(5) have h: "ob_ordinal e = ob_ordinal e'" "ob_channel e = ob_channel e'"
    and t: "blob_bytes (enc (ob_destination e)) @ blob_bytes (enc (ob_payload e)) =
        blob_bytes (enc (ob_destination e')) @ blob_bytes (enc (ob_payload e'))"
    by (simp_all add: outbox_entry_bytes_def be_bytes_inject)
  from blob_bytes_inject [OF a(2) a'(2) t] have d: "enc (ob_destination e) = enc (ob_destination e')"
    and p: "blob_bytes (enc (ob_payload e)) = blob_bytes (enc (ob_payload e'))" by simp_all
  from blob_bytes_inject [OF a(4) a'(4), of "[]" "[]"] p have "enc (ob_payload e) = enc (ob_payload e')" by simp
  with d h a a' v show ?thesis by (auto intro!: OutboxEntry.equality enc_inject)
qed

lemma delivery_id_Ok:
  assumes "commitment_hasher H" and "entry_valid_values e" and "delivery_id H e c = Inr h"
  shows "is_ok (outbox_entry_canonical_bytes e)"
    "\<exists>x. domain_preimage DELIVERY (be_bytes 32 c @ outbox_entry_bytes e) = Inr x \<and> h_hash H x = h"
  using assms by (auto simp: delivery_id_def commitment_hasher.commitment_preimage is_ok_iff
      outbox_entry_encode_to_Ok outbox_entry_canonical_bytes_Ok entry_valid_values_def)

lemma least_repeated_unique: "least_repeated ks k \<Longrightarrow> least_repeated ks k' \<Longrightarrow> k = k'"
  by (auto simp: least_repeated_def intro: order.antisym)

lemma least_repeated_perm: "mset ks = mset ks' \<Longrightarrow> least_repeated ks = least_repeated ks'"
  by (simp add: fun_eq_iff least_repeated_def repeated_def)

context unique_ordinals
begin

lemma check_sort_perm:
  assumes "mset xs = mset ys"
  shows "check (sort_key ordinal xs) = check (sort_key ordinal ys)"
proof (cases "distinct (map ordinal xs)")
  case True
  then show ?thesis by (simp add: sort_unique [OF assms])
next
  case False
  have m: "mset (map ordinal xs) = mset (map ordinal ys)" using assms by simp
  then have "\<not> distinct (map ordinal ys)" using False by (metis mset_eq_imp_distinct_iff)
  with check_sort_duplicate [OF False] check_sort_duplicate [of ys] least_repeated_perm [OF m] show ?thesis
    by (metis least_repeated_unique)
qed

end

lemma commit_plan_try_new_cases:
  "(\<exists>p. commit_plan_try_new es = Inr p \<and> mset (plan_effects p) = mset es
      \<and> sorted_wrt (<) (map eff_ordinal (plan_effects p)))
   \<or> (\<exists>k. commit_plan_try_new es = Inl (PLE_DuplicateEffectOrdinal k) \<and> least_repeated (map eff_ordinal es) k)"
  using effect_ordinals.check_sort_duplicate [of es] effect_ordinals.sorted_strict [of es]
    commit_plan_try_new_Ok [of es "\<lparr>plan_effects = sort_key eff_ordinal es\<rparr>"]
  by (cases "distinct (map eff_ordinal es)") (auto simp: commit_plan_try_new_def)

lemma outbox_plan_try_new_cases:
  "(\<exists>q. outbox_plan_try_new xs = Inr q \<and> mset (plan_entries q) = mset xs
      \<and> sorted_wrt (<) (map ob_ordinal (plan_entries q)))
   \<or> (\<exists>k. outbox_plan_try_new xs = Inl (PLE_DuplicateOutboxOrdinal k) \<and> least_repeated (map ob_ordinal xs) k)"
  using entry_ordinals.check_sort_duplicate [of xs] entry_ordinals.sorted_strict [of xs]
    outbox_plan_try_new_Ok [of xs "\<lparr>plan_entries = sort_key ob_ordinal xs\<rparr>"]
  by (cases "distinct (map ob_ordinal xs)") (auto simp: outbox_plan_try_new_def)

lemma commit_plan_try_new_perm:
  assumes "mset es' = mset es" shows "commit_plan_try_new es' = commit_plan_try_new es"
proof (cases "distinct (map eff_ordinal es')")
  case True
  then show ?thesis by (simp add: commit_plan_try_new_def effect_ordinals.sort_unique [OF assms])
next
  case False
  with effect_ordinals.check_sort_duplicate [OF this] effect_ordinals.check_sort_perm [OF assms]
  show ?thesis by (auto simp: commit_plan_try_new_def)
qed

lemma outbox_plan_try_new_perm:
  assumes "mset xs' = mset xs" shows "outbox_plan_try_new xs' = outbox_plan_try_new xs"
proof (cases "distinct (map ob_ordinal xs')")
  case True
  then show ?thesis by (simp add: outbox_plan_try_new_def entry_ordinals.sort_unique [OF assms])
next
  case False
  with entry_ordinals.check_sort_duplicate [OF this] entry_ordinals.check_sort_perm [OF assms]
  show ?thesis by (auto simp: outbox_plan_try_new_def)
qed

section \<open>Properties\<close>

text \<open>C35: the plan decoders accept a byte string exactly when it is the canonical encoding of a plan
  with strictly increasing ordinals whose number of items, values and total value size keep the
  limits; they then return that plan.\<close>

theorem plan_decoders_accept_exactly:
  assumes "plan_limits_in_range L"
  shows "(decode_commit_plan bs L = Ok p \<longleftrightarrow> commit_plan_valid L p
      \<and> commit_plan_canonical_bytes p = Ok bs \<and> length bs \<le> pnl_max_input_bytes L)
    \<and> (decode_outbox_plan bs L = Ok q \<longleftrightarrow> outbox_plan_valid L q
      \<and> outbox_plan_canonical_bytes q = Ok bs \<and> length bs \<le> pnl_max_input_bytes L)"
  using decode_commit_plan_iff [OF assms] decode_outbox_plan_iff [OF assms] by simp

theorem plan_decoders_accept_exactly_witness:
  "decode_commit_plan [0, 0, 0, 0] default_plan_decode_limits = Ok commit_plan_empty
   \<and> decode_outbox_plan [0, 0, 0, 0] default_plan_decode_limits = Ok outbox_plan_empty"
  using plan_decoders_accept_exactly [OF default_plan_limits_in_range, of "[0, 0, 0, 0]" commit_plan_empty
      outbox_plan_empty]
  by (simp add: commit_plan_valid_def outbox_plan_valid_def commit_plan_empty_def outbox_plan_empty_def
      plan_values_within_def commit_plan_canonical_bytes_def commit_plan_encode_to_def put_length_Ok
      outbox_plan_canonical_bytes_def outbox_plan_encode_to_def be_bytes_numeral default_plan_decode_limits_def
      DEFAULT_MAX_INPUT_BYTES_def)

text \<open>Plan construction succeeds exactly when no ordinal occurs twice, and then holds the given
  items in strictly increasing ordinal order; otherwise it reports the least ordinal that occurs
  twice.\<close>

theorem plan_construction_exact:
  "(case commit_plan_try_new es of
      Inr p \<Rightarrow> mset (plan_effects p) = mset es \<and> sorted_wrt (<) (map eff_ordinal (plan_effects p))
    | Inl (PLE_DuplicateEffectOrdinal k) \<Rightarrow> least_repeated (map eff_ordinal es) k
    | Inl (PLE_DuplicateOutboxOrdinal _) \<Rightarrow> False)
   \<and> (case outbox_plan_try_new xs of
      Inr q \<Rightarrow> mset (plan_entries q) = mset xs \<and> sorted_wrt (<) (map ob_ordinal (plan_entries q))
    | Inl (PLE_DuplicateOutboxOrdinal k) \<Rightarrow> least_repeated (map ob_ordinal xs) k
    | Inl (PLE_DuplicateEffectOrdinal _) \<Rightarrow> False)"
  using commit_plan_try_new_cases [of es] outbox_plan_try_new_cases [of xs] by auto

text \<open>The order in which a plan's items are given is irrelevant, in success and in error.\<close>

theorem plan_order_irrelevant:
  assumes "mset es' = mset es" and "mset xs' = mset xs"
  shows "commit_plan_try_new es' = commit_plan_try_new es \<and> outbox_plan_try_new xs' = outbox_plan_try_new xs"
  using commit_plan_try_new_perm [OF assms(1)] outbox_plan_try_new_perm [OF assms(2)] by simp


definition sample_entry :: OutboxEntry where
  "sample_entry = \<lparr>ob_ordinal = 7, ob_channel = 20, ob_destination = VUnit, ob_payload = VBool True\<rparr>"

theorem plan_order_irrelevant_witness:
  "outbox_plan_try_new [sample_entry\<lparr>ob_ordinal := 9\<rparr>, sample_entry] =
   outbox_plan_try_new [sample_entry, sample_entry\<lparr>ob_ordinal := 9\<rparr>]"
  using plan_order_irrelevant [of "[]" "[]" "[sample_entry\<lparr>ob_ordinal := 9\<rparr>, sample_entry]"
      "[sample_entry, sample_entry\<lparr>ob_ordinal := 9\<rparr>]"] by simp

text \<open>C39: two deliveries with the same identity are the same entry of the same candidate, or the two
  different preimages that were hashed for them collide.\<close>

theorem delivery_id_binds:
  assumes "commitment_hasher H" and "entry_valid_values e" "entry_valid_values e'"
    and "delivery_id H e c = Ok h" and "delivery_id H e' c' = Ok h"
  shows "\<exists>x x'. domain_preimage DELIVERY (be_bytes 32 c @ outbox_entry_bytes e) = Ok x
    \<and> domain_preimage DELIVERY (be_bytes 32 c' @ outbox_entry_bytes e') = Ok x'
    \<and> h_hash H x = h \<and> h_hash H x' = h \<and> (x = x' \<longleftrightarrow> c = c' \<and> e = e')"
proof -
  note ok = delivery_id_Ok [OF assms(1,2,4)] delivery_id_Ok [OF assms(1,3,5)]
  have "c = c' \<and> e = e'" if "be_bytes 32 c @ outbox_entry_bytes e = be_bytes 32 c' @ outbox_entry_bytes e'"
    using that outbox_entry_bytes_inject [OF assms(2,3) ok(1,3)] by (simp add: be_bytes_inject)
  then show ?thesis using ok(2,4) preimage_inject by fastforce
qed

lemma sample_admitted: "default_admitted VUnit" "default_admitted (VBool True)"
  by (simp_all add: default_admitted_def is_ok_iff validate_limits_Ok [OF default_value_limits_in_range] default_limit_simps)

lemma sample_entry_delivery: "delivery_id sample_hasher sample_entry c = Ok 0"
proof -
  have "outbox_entry_encode_to sample_entry (be_bytes 32 c) =
      Ok (be_bytes 32 c @ outbox_entry_bytes sample_entry)"
    using sample_admitted by (subst outbox_entry_encode_to_Ok) (simp_all add: sample_entry_def)
  moreover have "length (domain_name DELIVERY) \<le> u16_max"
    by (simp add: DELIVERY_def registered_def ascii_bytes_def)
  ultimately show ?thesis using sample_commitment [of DELIVERY "be_bytes 32 c @ outbox_entry_bytes sample_entry"]
    by (simp add: delivery_id_def outbox_entry_bytes_def sample_entry_def)
qed

theorem delivery_id_binds_witness:
  "\<exists>x. domain_preimage DELIVERY (be_bytes 32 (1 :: hash32) @ outbox_entry_bytes sample_entry) = Ok x
     \<and> h_hash sample_hasher x = 0"
  using delivery_id_binds [OF _ _ _ sample_entry_delivery [of 1] sample_entry_delivery [of 1]]
    default_hasher.commitment_hasher_axioms
  by (auto simp: entry_valid_values_def sample_entry_def sample_hasher_def)

end
