(* ===== verification/Zeno_Auth_Laws.thy ===== *)
theory Zeno_Auth_Laws
  imports Zeno_Auth Zeno_Merkle_Laws Zeno_Plan_Laws
begin

text \<open>
  Laws of the authenticated state: the sparse tree is the digest of a reference tree over the bits of the
  keys, proofs are complete and sound up to the strings that are hashed for them, and plans do what they say.
\<close>

section \<open>Hashed strings\<close>

definition preimage_of :: "Domain \<Rightarrow> bytes \<Rightarrow> bytes" where
  "preimage_of d bs = (case domain_preimage d bs of Inr x \<Rightarrow> x | Inl _ \<Rightarrow> [])"

lemma auth_domains: "AUTH_EMPTY \<in> set domains_ALL" "AUTH_LEAF \<in> set domains_ALL" "AUTH_NODE \<in> set domains_ALL" "AUTH_PATCH \<in> set domains_ALL"
  by (simp_all add: domains_ALL_def)

lemma preimage_of_Ok: "d \<in> set domains_ALL \<Longrightarrow> length bs \<le> u64_max \<Longrightarrow> domain_preimage d bs = Inr (preimage_of d bs)"
  using registered_commitment [of d bs] by (auto simp: preimage_of_def)

lemma preimage_of_inject:
  assumes "d \<in> set domains_ALL" "d' \<in> set domains_ALL" "length bs \<le> u64_max" "length bs' \<le> u64_max"
    and "preimage_of d bs = preimage_of d' bs'"
  shows "d = d' \<and> bs = bs'"
  using preimage_inject [OF preimage_of_Ok [OF assms(1,3)] preimage_of_Ok [OF assms(2,4), folded assms(5)]] .

definition auth_node_input :: "hash32 \<Rightarrow> hash32 \<Rightarrow> bytes" where
  "auth_node_input left right = preimage_of AUTH_NODE (be_bytes 32 left @ be_bytes 32 right)"

definition auth_value_input :: "hash32 \<Rightarrow> Value \<Rightarrow> bytes" where
  "auth_value_input key v = preimage_of AUTH_LEAF (be_bytes 32 key @ blob_bytes (enc v))"

definition auth_absent_input :: bytes where
  "auth_absent_input = preimage_of AUTH_EMPTY (ascii_bytes ''leaf'')"

lemma auth_node_input_inject: "auth_node_input l r = auth_node_input l' r' \<Longrightarrow> l = l' \<and> r = r'"
  using preimage_of_inject [of AUTH_NODE AUTH_NODE "be_bytes 32 l @ be_bytes 32 r" "be_bytes 32 l' @ be_bytes 32 r'"]
  by (simp add: auth_node_input_def auth_domains be_bytes_inject)

definition node_digest :: "hasher \<Rightarrow> hash32 \<Rightarrow> hash32 \<Rightarrow> hash32" where
  "node_digest H left right = h_hash H (auth_node_input left right)"

fun level_empty :: "hasher \<Rightarrow> nat \<Rightarrow> hash32" where
  "level_empty H 0 = h_hash H auth_absent_input"
| "level_empty H (Suc n) = node_digest H (level_empty H n) (level_empty H n)"

definition all_empties :: "hasher \<Rightarrow> hash32 list" where
  "all_empties H = map (\<lambda>d. level_empty H (TREE_DEPTH - d)) [0..<TREE_DEPTH + 1]"

lemma all_empties_nth: "d \<le> TREE_DEPTH \<Longrightarrow> all_empties H ! d = level_empty H (TREE_DEPTH - d)"
  by (simp add: all_empties_def TREE_DEPTH_def del: upt_Suc)

context commitment_hasher begin

lemma hash_bytes_Ok: "d \<in> set domains_ALL \<Longrightarrow> length bs \<le> u64_max \<Longrightarrow> hash_bytes H d bs = Inr (h_hash H (preimage_of d bs))"
  by (simp add: hash_bytes_def commitment_preimage preimage_of_Ok)

lemma auth_node_hash_Ok [simp]: "auth_node_hash H l r = Inr (node_digest H l r)"
  by (simp add: auth_node_hash_def hash_bytes_Ok auth_domains node_digest_def auth_node_input_def)

lemma empty_hashes_Ok: "empty_hashes H = Inr (all_empties H)"
proof -
  define filled where "filled k = map (\<lambda>d. if k \<le> d then level_empty H (TREE_DEPTH - d) else 0) [0..<TREE_DEPTH + 1]" for k
  have nth: "filled k ! d = (if k \<le> d then level_empty H (TREE_DEPTH - d) else 0)" if "d < TREE_DEPTH + 1" for k d
    using that by (simp add: filled_def del: upt_Suc)
  have len: "length (filled k) = TREE_DEPTH + 1" for k by (simp add: filled_def)
  have step: "(filled (Suc k))[k := level_empty H (TREE_DEPTH - k)] = filled k" if "k < TREE_DEPTH" for k
    using that by (intro nth_equalityI) (auto simp: len nth nth_list_update)
  have "fold_res (\<lambda>depth hashes. rbind (auth_node_hash H (hashes ! (depth + 1)) (hashes ! (depth + 1))) (\<lambda>h. Ok (hashes[depth := h])))
      (rev [0..<k]) (filled k) = Inr (filled 0)" if "k \<le> TREE_DEPTH" for k
    using that
  proof (induction k)
    case (Suc k)
    have "level_empty H (TREE_DEPTH - k) = node_digest H (level_empty H (TREE_DEPTH - Suc k)) (level_empty H (TREE_DEPTH - Suc k))"
      using Suc.prems by (metis Suc_diff_Suc Suc_le_lessD level_empty.simps(2))
    with Suc step [of k] nth [of "Suc k" "Suc k"] show ?case by simp
  qed simp
  moreover have "(replicate (TREE_DEPTH + 1) 0)[TREE_DEPTH := h_hash H auth_absent_input] = filled TREE_DEPTH"
    by (intro nth_equalityI) (auto simp: len nth nth_list_update simp del: replicate_Suc)
  moreover have "filled 0 = all_empties H" by (simp add: filled_def all_empties_def)
  ultimately show ?thesis
    by (simp add: empty_hashes_def hash_bytes_Ok auth_domains auth_absent_input_def ascii_bytes_def)
qed

end

section \<open>Bits of a key\<close>

lemma be_bytes_nth: "i < n \<Longrightarrow> be_bytes n w ! i = ucast (drop_bit (8 * (n - 1 - i)) w)"
proof (induction n arbitrary: w)
  case (Suc n)
  show ?case
  proof (cases "i < n")
    case True
    then have "8 * (n - 1 - i) + 8 = 8 * (n - i)" by simp
    with True Suc.IH [OF True, of "drop_bit 8 w"] show ?thesis by (simp add: nth_append)
  next
    case False
    with Suc.prems have "i = n" by simp
    then show ?thesis by (simp add: nth_append)
  qed
qed simp

lemma auth_key_bit_eq:
  assumes "d < TREE_DEPTH"
  shows "auth_key_bit key d = (if bit key (TREE_DEPTH - 1 - d) then 1 else 0)"
proof -
  have d: "d div 8 < 32" using assms by (simp add: TREE_DEPTH_def)
  have "8 * (31 - q) + (7 - r) = 255 - (8 * q + r)" if "q < 32" "r < 8" for q r :: nat using that by linarith
  from this [OF d, of "d mod 8"] have e: "8 * (31 - d div 8) + (7 - d mod 8) = TREE_DEPTH - 1 - d" by (simp add: TREE_DEPTH_def)
  have "bit (be_bytes 32 key ! (d div 8)) (7 - d mod 8) \<longleftrightarrow> bit key (TREE_DEPTH - 1 - d)"
    using be_bytes_nth [OF d, of key] e le_imp_less_Suc [of "7 - d mod 8" 7] by (simp add: bit_ucast_iff bit_drop_bit_eq)
  then show ?thesis unfolding auth_key_bit_def bit_iff_odd_drop_bit and_one_eq by (simp add: mod2_eq_if)
qed

lemma word_bit_mono:
  fixes x y :: "'a::len word"
  assumes "x \<le> y" and "drop_bit (Suc k) x = drop_bit (Suc k) y" and "bit x k"
  shows "bit y k"
proof (rule ccontr)
  assume no: "\<not> bit y k"
  from assms(2) have hi: "unat x div 2 ^ Suc k = unat y div 2 ^ Suc k"
    by (metis unsigned_drop_bit_eq drop_bit_eq_div unat_drop_bit_eq)
  have k: "k < LENGTH('a)" using assms(3) by (rule bit_imp_le_length)
  have bits: "odd (unat x div 2 ^ k)" "even (unat y div 2 ^ k)"
    using bit_unsigned_iff [where 'a = nat, of x k] bit_unsigned_iff [where 'a = nat, of y k] assms(3) no k
    by (simp_all add: bit_nat_def)
  have "unat x div 2 ^ k \<le> unat y div 2 ^ k" using assms(1) by (simp add: word_le_nat_alt div_le_mono)
  moreover have "unat x div 2 ^ k div 2 = unat y div 2 ^ k div 2" using hi unfolding power_Suc2 div_mult2_eq .
  moreover have False if "X \<le> Y" "X div 2 = Y div 2" "odd X" "even Y" for X Y :: nat using that by presburger
  ultimately show False using bits by blast
qed

section \<open>The reference tree\<close>

text \<open>The leaves below a node, with \<open>n\<close> bits left, agree in the bits above.\<close>

abbreviation leaf_side :: "bool \<Rightarrow> nat \<Rightarrow> (hash32 \<times> 'v) list \<Rightarrow> (hash32 \<times> 'v) list" where
  "leaf_side b n L \<equiv> filter (\<lambda>x. bit (fst x) n = b) L"

definition below_node :: "nat \<Rightarrow> (hash32 \<times> 'v) list \<Rightarrow> bool" where
  "below_node n L \<longleftrightarrow> sorted_wrt (\<lambda>x y. fst x < fst y) L
     \<and> (\<forall>x\<in>set L. \<forall>y\<in>set L. drop_bit n (fst x) = drop_bit n (fst y))"

lemma below_sorted: "below_node n L \<Longrightarrow> sorted_wrt (\<lambda>x y. fst x < fst y) L"
  unfolding below_node_def by blast

lemma below_agree: "below_node n L \<Longrightarrow> x \<in> set L \<Longrightarrow> y \<in> set L \<Longrightarrow> drop_bit n (fst x) = drop_bit n (fst y)"
  unfolding below_node_def by blast

lemma drop_bit_next: "drop_bit n x = drop_bit n y \<longleftrightarrow> drop_bit (Suc n) x = drop_bit (Suc n) y \<and> (bit x n \<longleftrightarrow> bit y n)"
  for x y :: "'a::len word"
proof
  assume "drop_bit n x = drop_bit n y"
  then have "bit x (n + i) \<longleftrightarrow> bit y (n + i)" for i by (metis bit_drop_bit_eq comp_apply)
  then show "drop_bit (Suc n) x = drop_bit (Suc n) y \<and> (bit x n \<longleftrightarrow> bit y n)"
    by (intro conjI bit_eqI) (metis add_Suc_right add_Suc bit_drop_bit_eq comp_apply, metis add.right_neutral)
next
  assume a: "drop_bit (Suc n) x = drop_bit (Suc n) y \<and> (bit x n \<longleftrightarrow> bit y n)"
  have "bit x (n + i) \<longleftrightarrow> bit y (n + i)" for i
  proof (cases i)
    case (Suc j)
    then show ?thesis using a by (metis add_Suc_right add_Suc bit_drop_bit_eq comp_apply)
  qed (use a in simp)
  then show "drop_bit n x = drop_bit n y" by (intro bit_eqI) (simp add: bit_drop_bit_eq)
qed

lemma below_side: "below_node (Suc n) L \<Longrightarrow> below_node n (leaf_side b n L)"
  by (auto simp: below_node_def drop_bit_next [of n] sorted_wrt_filter)

lemma below_single:
  assumes "below_node 0 L"
  shows "length L \<le> 1"
proof (rule ccontr)
  assume "\<not> length L \<le> 1"
  then obtain x y M where L: "L = x # y # M" by (cases L; cases "tl L") auto
  have "fst x < fst y" using below_sorted [OF assms] by (simp add: L)
  moreover have "drop_bit 0 (fst x) = drop_bit 0 (fst y)" by (rule below_agree [OF assms]) (simp_all add: L)
  ultimately show False by simp
qed

lemma below_root: "below_node TREE_DEPTH L \<longleftrightarrow> sorted_wrt (\<lambda>x y. fst x < fst y) L"
proof -
  have "drop_bit TREE_DEPTH x = 0" for x :: hash32 by (simp add: TREE_DEPTH_def)
  then show ?thesis by (simp add: below_node_def)
qed

lemma split_leaves:
  assumes "below_node (Suc n) L" "n < TREE_DEPTH"
  shows "take (partition_point (\<lambda>(key, _). auth_key_bit key (TREE_DEPTH - Suc n) = 0) L) L = leaf_side False n L"
    and "drop (partition_point (\<lambda>(key, _). auth_key_bit key (TREE_DEPTH - Suc n) = 0) L) L = leaf_side True n L"
proof -
  have b: "auth_key_bit key (TREE_DEPTH - Suc n) = 0 \<longleftrightarrow> \<not> bit key n" for key
    using auth_key_bit_eq [of "TREE_DEPTH - Suc n" key] assms(2) by auto
  have "sorted_wrt (\<lambda>x y. \<not> bit (fst y) n \<longrightarrow> \<not> bit (fst x) n) L"
  proof (rule sorted_wrt_mono_rel)
    show "sorted_wrt (\<lambda>x y. fst x < fst y) L" by (rule below_sorted [OF assms(1)])
    fix x y assume xy: "x \<in> set L" "y \<in> set L" "fst x < fst y"
    have "drop_bit (Suc n) (fst x) = drop_bit (Suc n) (fst y)" by (rule below_agree [OF assms(1) xy(1,2)])
    from word_bit_mono [OF less_imp_le [OF xy(3)] this] show "\<not> bit (fst y) n \<longrightarrow> \<not> bit (fst x) n" by blast
  qed
  from partition_point_split [OF this] show
    "take (partition_point (\<lambda>(key, _). auth_key_bit key (TREE_DEPTH - Suc n) = 0) L) L = leaf_side False n L"
    "drop (partition_point (\<lambda>(key, _). auth_key_bit key (TREE_DEPTH - Suc n) = 0) L) L = leaf_side True n L"
    by (simp_all add: b case_prod_unfold)
qed

fun tree_digest :: "hasher \<Rightarrow> nat \<Rightarrow> (hash32 \<times> hash32) list \<Rightarrow> hash32" where
  "tree_digest H 0 L = (if L = [] then level_empty H 0 else snd (hd L))"
| "tree_digest H (Suc n) L = node_digest H (tree_digest H n (leaf_side False n L)) (tree_digest H n (leaf_side True n L))"

lemma tree_digest_Nil [simp]: "tree_digest H n [] = level_empty H n"
  by (induction n) simp_all

fun path_siblings :: "hasher \<Rightarrow> nat \<Rightarrow> (hash32 \<times> hash32) list \<Rightarrow> hash32 \<Rightarrow> hash32 list" where
  "path_siblings H 0 L key = []"
| "path_siblings H (Suc n) L key =
     tree_digest H n (leaf_side (\<not> bit key n) n L) # path_siblings H n (leaf_side (bit key n) n L) key"

lemma path_siblings_length [simp]: "length (path_siblings H n L key) = n"
  by (induction n arbitrary: L) simp_all

fun fold_path :: "hasher \<Rightarrow> hash32 \<Rightarrow> nat \<Rightarrow> hash32 list \<Rightarrow> hash32 \<Rightarrow> hash32" where
  "fold_path H key 0 siblings current = current"
| "fold_path H key (Suc n) siblings current =
     (if bit key n then node_digest H (hd siblings) (fold_path H key n (tl siblings) current)
      else node_digest H (fold_path H key n (tl siblings) current) (hd siblings))"

definition leaf_digest :: "hasher \<Rightarrow> (hash32 \<times> hash32) list \<Rightarrow> hash32 \<Rightarrow> hash32" where
  "leaf_digest H L key = (case map_of L key of Some h \<Rightarrow> h | None \<Rightarrow> level_empty H 0)"

text \<open>Whether a node is on the path of a key.\<close>

definition on_key_path :: "nat \<Rightarrow> (hash32 \<times> 'v) list \<Rightarrow> hash32 \<Rightarrow> bool" where
  "on_key_path n L key \<longleftrightarrow> (\<forall>x\<in>set L. drop_bit n (fst x) = drop_bit n key)"

lemma on_key_path_side: "on_key_path (Suc n) L key \<Longrightarrow> on_key_path n (leaf_side (bit key n) n L) key"
  by (auto simp: on_key_path_def drop_bit_next [of n])

lemma on_key_path_root: "on_key_path TREE_DEPTH L key"
  by (simp add: on_key_path_def TREE_DEPTH_def)

lemma map_of_side: "map_of (leaf_side (bit key n) n L) key = map_of L key"
  by (induction L) auto

lemma leaf_digest_end:
  assumes "below_node 0 L" "on_key_path 0 L key"
  shows "tree_digest H 0 L = leaf_digest H L key"
  using below_single [OF assms(1)] assms(2) by (cases L) (auto simp: leaf_digest_def on_key_path_def)

text \<open>The siblings of a key with its leaf give the digest, and nothing else does.\<close>

lemma fold_path_complete:
  assumes "below_node n L" "on_key_path n L key"
  shows "fold_path H key n (path_siblings H n L key) (leaf_digest H L key) = tree_digest H n L"
  using assms
proof (induction n arbitrary: L)
  case 0
  then show ?case using leaf_digest_end by simp
next
  case (Suc n)
  have "leaf_digest H (leaf_side (bit key n) n L) key = leaf_digest H L key" by (simp add: leaf_digest_def map_of_side)
  with Suc.IH [OF below_side [OF Suc.prems(1)] on_key_path_side [OF Suc.prems(2)]]
  show ?case by (cases "bit key n") simp_all
qed

fun fold_inputs :: "hasher \<Rightarrow> hash32 \<Rightarrow> nat \<Rightarrow> hash32 list \<Rightarrow> hash32 \<Rightarrow> bytes set" where
  "fold_inputs H key 0 siblings current = {}"
| "fold_inputs H key (Suc n) siblings current =
     insert (if bit key n then auth_node_input (hd siblings) (fold_path H key n (tl siblings) current)
       else auth_node_input (fold_path H key n (tl siblings) current) (hd siblings)) (fold_inputs H key n (tl siblings) current)"

fun tree_inputs :: "hasher \<Rightarrow> nat \<Rightarrow> (hash32 \<times> hash32) list \<Rightarrow> hash32 \<Rightarrow> bytes set" where
  "tree_inputs H 0 L key = {}"
| "tree_inputs H (Suc n) L key =
     insert (auth_node_input (tree_digest H n (leaf_side False n L)) (tree_digest H n (leaf_side True n L)))
       (tree_inputs H n (leaf_side (bit key n) n L) key)"

lemma fold_path_sound:
  assumes "below_node n L" "on_key_path n L key" "fold_path H key n siblings current = tree_digest H n L"
    and "inj_on (h_hash H) (fold_inputs H key n siblings current \<union> tree_inputs H n L key)"
  shows "current = leaf_digest H L key"
  using assms
proof (induction n arbitrary: L siblings)
  case 0
  then show ?case using leaf_digest_end by simp
next
  case (Suc n)
  let ?L = "leaf_side (bit key n) n L" and ?below = "fold_path H key n (tl siblings) current"
  let ?x = "if bit key n then auth_node_input (hd siblings) ?below else auth_node_input ?below (hd siblings)"
  let ?y = "auth_node_input (tree_digest H n (leaf_side False n L)) (tree_digest H n (leaf_side True n L))"
  have "h_hash H ?x = h_hash H ?y" using Suc.prems(3) by (auto simp: node_digest_def split: if_splits)
  then have "?x = ?y" by (rule inj_onD [OF Suc.prems(4)]) simp_all
  then have "?below = tree_digest H n ?L" by (cases "bit key n") (auto dest: auth_node_input_inject)
  moreover have "inj_on (h_hash H) (fold_inputs H key n (tl siblings) current \<union> tree_inputs H n ?L key)"
    using Suc.prems(4) by (rule inj_on_subset) auto
  ultimately have "current = leaf_digest H ?L key"
    by (intro Suc.IH [OF below_side [OF Suc.prems(1)] on_key_path_side [OF Suc.prems(2)]])
  then show ?case by (simp add: leaf_digest_def map_of_side)
qed

section \<open>The code computes the reference tree\<close>

lemma auth_key_bit_side: "n < TREE_DEPTH \<Longrightarrow> auth_key_bit key (TREE_DEPTH - Suc n) = (if bit key n then 1 else 0)"
  using auth_key_bit_eq [of "TREE_DEPTH - Suc n" key] by (simp add: Suc_diff_Suc)

lemma depth_step: "n < TREE_DEPTH \<Longrightarrow> Suc (TREE_DEPTH - Suc n) = TREE_DEPTH - n" "n < TREE_DEPTH \<Longrightarrow> \<not> TREE_DEPTH \<le> TREE_DEPTH - Suc n"
  by simp_all

context commitment_hasher begin

lemma subtree_hash_eq:
  assumes "below_node n L" "n \<le> TREE_DEPTH"
  shows "subtree_hash H L (TREE_DEPTH - n) (all_empties H) = Inr (tree_digest H n L)"
  using assms
proof (induction n arbitrary: L)
  case 0
  with below_single [OF 0(1)] show ?case
    by (cases L) (auto simp: subtree_hash.simps [of H _ TREE_DEPTH] all_empties_nth)
next
  case (Suc n)
  note IH = Suc.IH [OF below_side [OF Suc.prems(1)]]
  have n: "n < TREE_DEPTH" using Suc.prems(2) by simp
  show ?case
  proof (cases "L = []")
    case True
    then show ?thesis using Suc.prems(2) by (simp add: subtree_hash.simps [of H "[]"] all_empties_nth)
  next
    case False
    with IH [of False] IH [of True] n show ?thesis
      by (subst subtree_hash.simps) (simp add: Let_def depth_step split_leaves [OF Suc.prems(1)])
  qed
qed

lemma proof_siblings_eq:
  assumes "below_node n L" "n \<le> TREE_DEPTH"
  shows "proof_siblings H L key (TREE_DEPTH - n) (all_empties H) siblings = Inr (siblings @ path_siblings H n L key)"
  using assms
proof (induction n arbitrary: L siblings)
  case 0
  then show ?case by (simp add: proof_siblings.simps)
next
  case (Suc n)
  note IH = Suc.IH [OF below_side [OF Suc.prems(1)]]
  have n: "n < TREE_DEPTH" using Suc.prems(2) by simp
  note sub = subtree_hash_eq [OF below_side [OF Suc.prems(1)]]
  show ?case using IH [of False] IH [of True] sub [of False] sub [of True] n
    by (subst proof_siblings.simps)
      (cases "bit key n"; simp add: Let_def depth_step auth_key_bit_side [of n key] split_leaves [OF Suc.prems(1)])
qed

lemma recompute_fold:
  assumes "length siblings = TREE_DEPTH" "n \<le> TREE_DEPTH"
  shows "fold_res (\<lambda>depth current. if auth_key_bit key depth = 0 then auth_node_hash H current (siblings ! depth)
      else auth_node_hash H (siblings ! depth) current) (rev [TREE_DEPTH - n..<TREE_DEPTH]) current
    = Inr (fold_path H key n (drop (TREE_DEPTH - n) siblings) current)"
  using assms(2)
proof (induction n)
  case (Suc n)
  let ?d = "TREE_DEPTH - Suc n"
  have d: "[?d..<TREE_DEPTH] = ?d # [TREE_DEPTH - n..<TREE_DEPTH]" "?d < TREE_DEPTH"
    using Suc.prems by (simp_all add: upt_rec [of ?d] Suc_diff_Suc)
  have s: "drop ?d siblings = siblings ! ?d # drop (TREE_DEPTH - n) siblings"
    using Cons_nth_drop_Suc [of ?d siblings] Suc.prems assms(1) d(2) by (simp add: Suc_diff_Suc)
  have b: "auth_key_bit key ?d = 0 \<longleftrightarrow> \<not> bit key n" using auth_key_bit_side [of n key] Suc.prems by simp
  show ?case using Suc by (simp add: d(1) s b fold_res_append)
qed simp

end

section \<open>Leaves\<close>

text \<open>The string that is hashed for what is at a key.\<close>

definition leaf_string :: "hash32 \<Rightarrow> Value option \<Rightarrow> bytes" where
  "leaf_string key v = (case v of Some v \<Rightarrow> auth_value_input key v | None \<Rightarrow> auth_absent_input)"

definition leaf_valid :: "Value \<Rightarrow> bool" where
  "leaf_valid v \<longleftrightarrow> repr_valid v \<and> default_admitted v \<and> length (enc v) \<le> u32_max"

lemma leaf_string_inject:
  assumes "leaf_string key v = leaf_string key w" "pred_option leaf_valid v" "pred_option leaf_valid w"
  shows "v = w"
proof -
  have short: "length (be_bytes 32 key @ blob_bytes (enc x)) \<le> u64_max" if "leaf_valid x" for x
    using that by (simp add: leaf_valid_def blob_bytes_def)
  have ne: "AUTH_LEAF \<noteq> AUTH_EMPTY" by (simp add: AUTH_LEAF_def AUTH_EMPTY_def registered_def ascii_bytes_def)
  have a: "auth_value_input key x \<noteq> auth_absent_input" if "leaf_valid x" for x
    using preimage_of_inject [OF auth_domains(2,1) short [OF that], of "ascii_bytes ''leaf''"] ne
    by (auto simp: auth_value_input_def auth_absent_input_def ascii_bytes_def)
  have b: "x = y" if "leaf_valid x" "leaf_valid y" "auth_value_input key x = auth_value_input key y" for x y
  proof -
    have "blob_bytes (enc x) = blob_bytes (enc y)"
      using preimage_of_inject [OF _ _ short [OF that(1)] short [OF that(2)], of AUTH_LEAF AUTH_LEAF] that(3)
      by (simp add: auth_value_input_def auth_domains)
    then have "enc x = enc y" by (simp add: blob_bytes_def)
    with that(1,2) show ?thesis by (intro enc_inject) (simp_all add: leaf_valid_def)
  qed
  show ?thesis using assms a b by (cases v; cases w) (auto simp: leaf_string_def dest: sym)
qed

abbreviation digests :: "hasher \<Rightarrow> Leaves \<Rightarrow> (hash32 \<times> hash32) list" where
  "digests H leaves \<equiv> map (\<lambda>(key, v). (key, h_hash H (auth_value_input key v))) leaves"

lemma auth_put_blob_Ok: "auth_put_blob out bs = Inr x \<longleftrightarrow> length bs \<le> u32_max \<and> x = out @ blob_bytes bs"
  by (auto simp: auth_put_blob_def auth_put_length_def try_from_def blob_bytes_def)

context commitment_hasher begin

lemma auth_leaf_hash_iff:
  assumes "repr_valid v"
  shows "auth_leaf_hash H key v = Inr h \<longleftrightarrow> leaf_valid v \<and> h = h_hash H (auth_value_input key v)"
proof -
  have "hash_bytes H AUTH_LEAF (be_bytes 32 key @ blob_bytes bs) = Inr h \<longleftrightarrow>
      h = h_hash H (preimage_of AUTH_LEAF (be_bytes 32 key @ blob_bytes bs))" if "length bs \<le> u32_max" for bs
    using that hash_bytes_Ok [of AUTH_LEAF "be_bytes 32 key @ blob_bytes bs"] by (auto simp: auth_domains blob_bytes_def)
  then show ?thesis using assms
    by (auto simp: auth_leaf_hash_def auth_put_blob_Ok value_canonical_bytes_Ok leaf_valid_def default_admitted_def auth_value_input_def)
qed

lemma hashed_leaves_iff:
  assumes "\<forall>(key, v)\<in>set leaves. repr_valid v"
  shows "hashed_leaves H leaves = Inr hs \<longleftrightarrow> (\<forall>(key, v)\<in>set leaves. leaf_valid v) \<and> hs = digests H leaves"
  using assms
  by (induction leaves arbitrary: hs) (auto simp: hashed_leaves_def auth_leaf_hash_iff)

end

lemma map_of_digests: "map_of (digests H leaves) key = map_option (\<lambda>v. h_hash H (auth_value_input key v)) (map_of leaves key)"
  by (induction leaves) auto

lemma leaf_digest_digests: "leaf_digest H (digests H leaves) key = h_hash H (leaf_string key (map_of leaves key))"
  by (cases "map_of leaves key") (simp_all add: leaf_digest_def map_of_digests leaf_string_def)

lemma below_digests: "below_node TREE_DEPTH (digests H leaves) \<longleftrightarrow> sorted_wrt (<) (map fst leaves)"
  by (simp add: below_root sorted_wrt_map case_prod_unfold)

section \<open>Trees\<close>

definition proof_leaf :: "Value option \<Rightarrow> ProofLeaf" where
  "proof_leaf v = (case v of Some v \<Rightarrow> PF_Membership v | None \<Rightarrow> PF_Absence)"

text \<open>What the constructors of values and of trees establish.\<close>

definition leaves_valid :: "Leaves \<Rightarrow> bool" where
  "leaves_valid leaves \<longleftrightarrow> (\<forall>(key, v)\<in>set leaves. repr_valid v)"

definition tree_ok :: "hasher \<Rightarrow> ReferenceSparseTree \<Rightarrow> bool" where
  "tree_ok H t \<longleftrightarrow> sorted_wrt (<) (map fst (rst_leaves t)) \<and> (\<forall>(key, v)\<in>set (rst_leaves t). leaf_valid v)
     \<and> length (rst_leaves t) \<le> MAX_REFERENCE_LEAVES \<and> rst_root t = tree_digest H TREE_DEPTH (digests H (rst_leaves t))"

lemma btree_insert_map_of: "sorted_wrt (<) (map fst m) \<Longrightarrow> fst (btree_insert k v m) = map_of m k
    \<and> map_of (snd (btree_insert k v m)) = (map_of m)(k \<mapsto> v)"
proof (induction m)
  case (Cons x m)
  obtain k' v' where x: "x = (k', v')" by fastforce
  have none: "map_of m k = None" if "k < k'"
    using that Cons.prems by (force simp: x map_of_eq_None_iff)
  show ?case using Cons none by (auto simp: x Let_def fun_eq_iff split: prod.splits)
qed (simp add: fun_eq_iff)

lemma btree_insert_set: "fst ` set (snd (btree_insert k v m)) = insert k (fst ` set m)"
proof (induction m)
  case (Cons x m)
  obtain k' v' old xs where "x = (k', v')" "btree_insert k v m = (old, xs)" by fastforce
  with Cons show ?case by (cases "k < k'"; cases "k = k'") (auto simp: insert_commute)
qed simp

lemma btree_insert_values: "x \<in> set (snd (btree_insert k v m)) \<Longrightarrow> x = (k, v) \<or> x \<in> set m"
  by (induction m) (auto simp: Let_def split: prod.splits if_splits)

lemma btree_insert_sorted: "sorted_wrt (<) (map fst m) \<Longrightarrow> sorted_wrt (<) (map fst (snd (btree_insert k v m)))"
proof (induction m)
  case (Cons x m)
  obtain k' v' old xs where x: "x = (k', v')" "btree_insert k v m = (old, xs)" by fastforce
  have s: "fst ` set xs = insert k (fst ` set m)" using btree_insert_set [of k v m] x(2) by simp
  consider "k < k'" | "k = k'" | "k' < k" by (rule linorder_cases)
  then show ?case
  proof cases
    case 1
    with Cons.prems show ?thesis by (auto simp: x)
  next
    case 2
    with Cons.prems show ?thesis by (auto simp: x)
  next
    case 3
    have "\<forall>y\<in>fst ` set xs. k' < y" using Cons.prems 3 unfolding s by (simp add: x)
    with 3 Cons show ?thesis by (auto simp: x)
  qed
qed simp

lemma btree_insert_length: "fst (btree_insert k v m) = None \<Longrightarrow> length (snd (btree_insert k v m)) = Suc (length m)"
  by (induction m) (auto simp: Let_def split: prod.splits if_splits)

text \<open>The projected map is the sorted list of the leaves, without duplicates.\<close>

lemma projected_map_Ok:
  assumes "projected_map leaves = Inr m"
  shows "sorted_wrt (<) (map fst m)" "distinct (map fst leaves)" "map_of m = map_of leaves" "length m \<le> MAX_REFERENCE_LEAVES"
    "set m \<subseteq> set leaves"
proof -
  let ?step = "\<lambda>(key, v) m. let (old, m) = btree_insert key v m in if old \<noteq> None then Err AE_DuplicateLeafKey else Ok m"
  have "sorted_wrt (<) (map fst m) \<and> distinct (map fst leaves) \<and> set (map fst m0) \<inter> set (map fst leaves) = {}
      \<and> map_of m = map_of m0 ++ map_of leaves \<and> length m = length m0 + length leaves \<and> set m \<subseteq> set m0 \<union> set leaves"
    if "fold_res ?step leaves m0 = Inr m" "sorted_wrt (<) (map fst m0)" for m0
    using that
  proof (induction leaves arbitrary: m0)
    case (Cons x leaves)
    obtain key v where x: "x = (key, v)" by fastforce
    obtain old m1 where b: "btree_insert key v m0 = (old, m1)" by fastforce
    note f = btree_insert_map_of [OF Cons.prems(2), of key v] btree_insert_sorted [OF Cons.prems(2), of key v]
      btree_insert_set [of key v m0] btree_insert_length [of key v m0]
    from Cons.prems(1) have old: "old = None" and r: "fold_res ?step leaves m1 = Inr m"
      by (auto simp: x b Let_def split: if_splits)
    from f b old have m1: "map_of m0 key = None" "map_of m1 = (map_of m0)(key \<mapsto> v)" "sorted_wrt (<) (map fst m1)"
      "set (map fst m1) = insert key (set (map fst m0))" "length m1 = Suc (length m0)" by auto
    have v: "set m1 \<subseteq> insert (key, v) (set m0)" using btree_insert_values [of _ key v m0] b by auto
    from m1(1) have k: "key \<notin> set (map fst m0)" by (simp add: map_of_eq_None_iff)
    from Cons.IH [OF r m1(3)] m1 k v show ?case
      by (auto simp: x map_add_def fun_eq_iff map_of_eq_None_iff split: option.splits)
  qed auto
  from this [of "[]"] assms show "sorted_wrt (<) (map fst m)" "distinct (map fst leaves)" "map_of m = map_of leaves"
    "length m \<le> MAX_REFERENCE_LEAVES" "set m \<subseteq> set leaves"
    by (auto simp: projected_map_def split: if_splits)
qed

context commitment_hasher begin

lemma tree_from_map_iff:
  assumes "leaves_valid leaves" "sorted_wrt (<) (map fst leaves)"
  shows "tree_from_map H profile version leaves = Inr t \<longleftrightarrow>
    tree_ok H t \<and> rst_profile t = profile \<and> rst_version t = version \<and> rst_leaves t = leaves"
proof -
  have b: "below_node TREE_DEPTH (digests H leaves)" using assms(2) by (simp add: below_digests)
  have valid: "\<forall>(key, v)\<in>set leaves. repr_valid v" using assms(1) by (simp add: leaves_valid_def)
  show ?thesis
    using subtree_hash_eq [OF b] assms(2) hashed_leaves_iff [OF valid]
    by (cases t) (auto simp: tree_from_map_def tree_ok_def empty_hashes_Ok)
qed

lemma tree_prove_Ok:
  assumes "tree_ok H t"
  shows "tree_prove H t key = Inr \<lparr>sp_profile = rst_profile t, sp_version = rst_version t, sp_root = rst_root t, sp_key = key,
    sp_leaf = proof_leaf (tree_get t key),
    sp_siblings = path_siblings H TREE_DEPTH (digests H (rst_leaves t)) key\<rparr>"
proof -
  have b: "below_node TREE_DEPTH (digests H (rst_leaves t))" using assms by (simp add: below_digests tree_ok_def)
  have "\<forall>(key, v)\<in>set (rst_leaves t). repr_valid v" using assms by (auto simp: tree_ok_def leaf_valid_def)
  then have "hashed_leaves H (rst_leaves t) = Inr (digests H (rst_leaves t))"
    using assms by (simp add: hashed_leaves_iff tree_ok_def)
  then show ?thesis using proof_siblings_eq [OF b, of key "[]"]
    by (simp add: tree_prove_def empty_hashes_Ok tree_get_def proof_leaf_def)
qed

lemma recompute_root_Ok:
  assumes "sp_leaf p = proof_leaf v" "pred_option repr_valid v"
  shows "recompute_root H p = Inr root \<longleftrightarrow> length (sp_siblings p) = TREE_DEPTH \<and> pred_option leaf_valid v
    \<and> root = fold_path H (sp_key p) TREE_DEPTH (sp_siblings p) (h_hash H (leaf_string (sp_key p) v))"
proof -
  have leaf: "(case sp_leaf p of PF_Membership v \<Rightarrow> auth_leaf_hash H (sp_key p) v | PF_Absence \<Rightarrow> Ok (all_empties H ! TREE_DEPTH)) = Inr h
      \<longleftrightarrow> pred_option leaf_valid v \<and> h = h_hash H (leaf_string (sp_key p) v)" for h
    using assms auth_leaf_hash_iff by (cases v) (auto simp: leaf_string_def all_empties_nth proof_leaf_def)
  show ?thesis using recompute_fold [of "sp_siblings p" TREE_DEPTH "sp_key p"]
    by (auto simp: recompute_root_def empty_hashes_Ok leaf)
qed

end

section \<open>Proofs\<close>

definition proof_context :: "ReferenceSparseTree \<Rightarrow> hash32 \<Rightarrow> SparseProofContext" where
  "proof_context t key = \<lparr>spc_profile = rst_profile t, spc_version = rst_version t, spc_root = rst_root t, spc_key = key\<rparr>"

text \<open>The strings that are hashed to verify a proof, and those on the path of its key in the tree.\<close>

definition proof_inputs :: "hasher \<Rightarrow> SparseProof \<Rightarrow> bytes set" where
  "proof_inputs H p =
     (let leaf = leaf_string (sp_key p) (case sp_leaf p of PF_Membership v \<Rightarrow> Some v | PF_Absence \<Rightarrow> None)
      in insert leaf (fold_inputs H (sp_key p) TREE_DEPTH (sp_siblings p) (h_hash H leaf)))"

definition path_inputs :: "hasher \<Rightarrow> ReferenceSparseTree \<Rightarrow> hash32 \<Rightarrow> bytes set" where
  "path_inputs H t key = insert (leaf_string key (tree_get t key)) (tree_inputs H TREE_DEPTH (digests H (rst_leaves t)) key)"

definition proof_leaf_valid :: "ProofLeaf \<Rightarrow> bool" where
  "proof_leaf_valid l = (case l of PF_Membership v \<Rightarrow> repr_valid v | PF_Absence \<Rightarrow> True)"

context commitment_hasher begin

lemma prove_verifies:
  assumes "tree_ok H t"
  shows "\<exists>p. tree_prove H t key = Inr p \<and> verify_internal_consistency H p = Inr True
    \<and> verify_against H p (proof_context t key) = Inr \<lparr>cvp_context = proof_context t key, cvp_leaf = proof_leaf (tree_get t key)\<rparr>"
proof -
  let ?p = "\<lparr>sp_profile = rst_profile t, sp_version = rst_version t, sp_root = rst_root t, sp_key = key,
    sp_leaf = proof_leaf (tree_get t key), sp_siblings = path_siblings H TREE_DEPTH (digests H (rst_leaves t)) key\<rparr>"
  have b: "below_node TREE_DEPTH (digests H (rst_leaves t))" using assms by (simp add: below_digests tree_ok_def)
  have valid: "pred_option leaf_valid (tree_get t key)"
    using assms by (cases "tree_get t key") (auto simp: tree_ok_def tree_get_def btree_get_def dest: map_of_SomeD)
  then have "pred_option repr_valid (tree_get t key)" by (cases "tree_get t key") (simp_all add: leaf_valid_def)
  moreover have "rst_root t = fold_path H key TREE_DEPTH (path_siblings H TREE_DEPTH (digests H (rst_leaves t)) key)
      (h_hash H (leaf_string key (tree_get t key)))"
    using fold_path_complete [OF b on_key_path_root, of H key] assms
    by (simp add: tree_ok_def leaf_digest_digests tree_get_def btree_get_def)
  ultimately have "recompute_root H ?p = Inr (rst_root t)"
    using valid recompute_root_Ok [of ?p "tree_get t key" "rst_root t"] by simp
  then show ?thesis using tree_prove_Ok [OF assms, of key]
    by (simp add: verify_internal_consistency_def verify_against_def proof_context_def)
qed

lemma verified_leaf:
  assumes "tree_ok H t" "proof_leaf_valid (sp_leaf p)" "verify_against H p (proof_context t key) = Inr verified"
    and "inj_on (h_hash H) (proof_inputs H p \<union> path_inputs H t key)"
  shows "verified = \<lparr>cvp_context = proof_context t key, cvp_leaf = proof_leaf (tree_get t key)\<rparr>"
proof -
  obtain v where v: "sp_leaf p = proof_leaf v" "(case sp_leaf p of PF_Membership v \<Rightarrow> Some v | PF_Absence \<Rightarrow> None) = v"
  proof (cases "sp_leaf p")
    case (PF_Membership v)
    then show ?thesis by (intro that [of "Some v"]) (simp_all add: proof_leaf_def)
  next
    case PF_Absence
    then show ?thesis by (intro that [of None]) (simp_all add: proof_leaf_def)
  qed
  have valid: "pred_option repr_valid v" using assms(2) v by (cases v) (simp_all add: proof_leaf_valid_def proof_leaf_def)
  let ?leaf = "leaf_string key v" and ?there = "leaf_string key (tree_get t key)" and ?L = "digests H (rst_leaves t)"
  from assms(3) have p: "sp_key p = key" "recompute_root H p = Inr (rst_root t)" "verified = \<lparr>cvp_context = proof_context t key, cvp_leaf = sp_leaf p\<rparr>"
    by (auto simp: verify_against_def proof_context_def split: if_splits)
  from recompute_root_Ok [OF v(1) valid] p(1,2) have r: "pred_option leaf_valid v"
    "fold_path H key TREE_DEPTH (sp_siblings p) (h_hash H ?leaf) = tree_digest H TREE_DEPTH ?L"
    using assms(1) by (auto simp: tree_ok_def)
  have b: "below_node TREE_DEPTH ?L" using assms(1) by (simp add: below_digests tree_ok_def)
  have inputs: "proof_inputs H p = insert ?leaf (fold_inputs H key TREE_DEPTH (sp_siblings p) (h_hash H ?leaf))"
    by (simp add: proof_inputs_def Let_def v(2) p(1))
  have "inj_on (h_hash H) (fold_inputs H key TREE_DEPTH (sp_siblings p) (h_hash H ?leaf) \<union> tree_inputs H TREE_DEPTH ?L key)"
    using assms(4) by (rule inj_on_subset) (auto simp: inputs path_inputs_def)
  from fold_path_sound [OF b on_key_path_root r(2) this]
  have "h_hash H ?leaf = h_hash H ?there" by (simp add: leaf_digest_digests tree_get_def btree_get_def)
  then have "?leaf = ?there" by (rule inj_onD [OF assms(4)]) (simp_all add: inputs path_inputs_def)
  moreover have "pred_option leaf_valid (tree_get t key)"
    using assms(1) by (cases "tree_get t key") (auto simp: tree_ok_def tree_get_def btree_get_def dest: map_of_SomeD)
  ultimately have "v = tree_get t key" using r(1) leaf_string_inject by blast
  then show ?thesis by (simp add: p(3) v(1))
qed

end

section \<open>Plans\<close>

text \<open>The changes between two maps, in the order of the keys.\<close>

definition write_of :: "hash32 \<Rightarrow> Value option \<Rightarrow> Value option \<Rightarrow> LeafWrite option" where
  "write_of key old new = (case new of
       None \<Rightarrow> (case old of None \<Rightarrow> None | Some _ \<Rightarrow> Some (LW_Delete key))
     | Some v \<Rightarrow> if old = Some v then None else Some (LW_Put key v))"

lemma map_of_sorted: "sorted_wrt (<) (map fst m) \<Longrightarrow> (key, v) \<in> set m \<longleftrightarrow> map_of m key = Some v"
  for m :: "(hash32 \<times> 'v) list"
  by (simp add: map_of_eq_Some_iff strict_sorted_iff)

lemma write_of_key: "write_of key old new = Some write \<Longrightarrow> write_key write = key"
  by (auto simp: write_of_def split: option.splits if_splits)

lemma batch_writes:
  assumes "sorted_wrt (<) (map fst before)" "sorted_wrt (<) (map fst after)"
  shows "write \<in> set (batch_from_maps before after) \<longleftrightarrow> write_of (write_key write) (map_of before (write_key write)) (map_of after (write_key write)) = Some write"
proof -
  note m = map_of_sorted [OF assms(1)] map_of_sorted [OF assms(2)]
  have "write \<in> set (batch_from_maps before after) \<longleftrightarrow>
      (\<exists>key old. map_of before key = Some old \<and> write \<in> set (case map_of after key of None \<Rightarrow> [LW_Delete key]
          | Some new \<Rightarrow> if new \<noteq> old then [LW_Put key new] else []))
      \<or> (\<exists>key v. map_of after key = Some v \<and> map_of before key = None \<and> write = LW_Put key v)"
    by (auto simp: batch_from_maps_def Let_def btree_get_def m Bex_def split: option.splits if_splits)
  also have "\<dots> \<longleftrightarrow> write_of (write_key write) (map_of before (write_key write)) (map_of after (write_key write)) = Some write"
    by (cases "write") (auto simp: write_of_def split: option.splits if_splits)
  finally show ?thesis .
qed

lemma sorted_keys_of:
  assumes "distinct (map f xs)"
  shows "sorted_wrt (<) (map f (sort_key f xs))"
  using assms by (simp add: strict_sorted_iff sorted_sort_key distinct_map)

lemma batch_sorted:
  assumes "sorted_wrt (<) (map fst before)" "sorted_wrt (<) (map fst after)"
  shows "sorted_wrt (<) (map write_key (batch_from_maps before after))"
proof -
  have d: "distinct (map fst before)" "distinct (map fst after)" using assms by (simp_all add: strict_sorted_iff)
  define f where "f = (\<lambda>(key, old). case btree_get after key of
              None \<Rightarrow> [LW_Delete key]
            | Some new \<Rightarrow> if new \<noteq> (old :: Value) then [LW_Put key new] else [])"
  define g where "g = (\<lambda>(key, v). if btree_get before key = None then [LW_Put key (v :: Value)] else [])"
  have f: "map write_key (f x) \<in> {[], [fst x]}" for x
    by (cases x) (auto simp: f_def split: option.splits)
  have g: "map write_key (g x) = (if btree_get before (fst x) = None then [fst x] else [])" for x
    by (cases x) (simp add: g_def)
  have sub: "distinct (map write_key (concat (map f xs)))  \<and> set (map write_key (concat (map f xs))) \<subseteq> set (map fst xs)"
    if "distinct (map fst xs)" for xs
    using that
  proof (induction xs)
    case (Cons x xs)
    define R where "R = map write_key (concat (map f xs))"
    have e: "map write_key (concat (map f (x # xs))) = map write_key (f x) @ R" by (simp add: R_def)
    have R: "distinct R" "set R \<subseteq> set (map fst xs)" "fst x \<notin> set (map fst xs)"
      using Cons unfolding R_def by simp_all
    from f [of x] have "map write_key (f x) = [] \<or> map write_key (f x) = [fst x]" by blast
    with R show ?case unfolding e by (elim disjE) (simp, blast, simp, blast)
  qed simp
  have new: "map write_key (concat (map g xs)) = map fst (filter (\<lambda>x. btree_get before (fst x) = None) xs)" for xs
    by (induction xs) (simp_all add: g)
  have "set (map fst before) \<inter> set (map fst (filter (\<lambda>x. btree_get before (fst x) = None) after)) = {}"
    by (force simp: btree_get_def map_of_eq_None_iff)
  moreover have "distinct (map fst (filter (\<lambda>x. btree_get before (fst x) = None) after))"
    using d(2) by (simp add: distinct_map_filter)
  ultimately have "distinct (map write_key (concat (map f before) @ concat (map g after)))"
    using sub [OF d(1)] unfolding map_append new distinct_append by blast
  then show ?thesis unfolding batch_from_maps_def Let_def f_def [symmetric] g_def [symmetric] by (rule sorted_keys_of)
qed

text \<open>The leaves that a plan makes stale.\<close>

definition stale_of :: "hasher \<Rightarrow> u64 \<Rightarrow> Leaves \<Rightarrow> NodeBatch \<Rightarrow> StaleNodeCandidate list" where
  "stale_of H version before writes = map (\<lambda>write. \<lparr>sn_stale_since_version = version, sn_key = write_key write,
       sn_old_leaf_hash = h_hash H (leaf_string (write_key write) (map_of before (write_key write)))\<rparr>)
     (filter (\<lambda>write. map_of before (write_key write) \<noteq> None) writes)"

text \<open>A projector reads values that can be built.\<close>

definition projector_valid :: "StateProjector \<Rightarrow> bool" where
  "projector_valid projector \<longleftrightarrow> (\<forall>v leaves. pj_project projector v = Ok leaves \<longrightarrow> leaves_valid leaves)"

text \<open>Trees as a program can make them: built from leaves, or by a plan applied to such a tree.\<close>

inductive auth_reachable :: "hasher \<Rightarrow> ReferenceSparseTree \<Rightarrow> bool" for H where
  reach_new: "leaves_valid leaves \<Longrightarrow> tree_try_new H profile version leaves = Ok t \<Longrightarrow> auth_reachable H t"
| reach_plan: "auth_reachable H t \<Longrightarrow>
    projector_valid (asp_projector planner) \<Longrightarrow>
    planner_plan H planner pre_state domain patch t = Ok planned \<Longrightarrow>
    auth_reachable H t' \<Longrightarrow> tree_apply_plan H t' (pst_authenticated planned) = Ok t'' \<Longrightarrow> auth_reachable H t''"

context commitment_hasher begin

lemma stale_candidates_Ok:
  assumes "leaves_valid before" "stale_candidates H version before writes = Inr stale"
  shows "stale = stale_of H version before writes"
proof -
  let ?step = "\<lambda>w stale_nodes. case btree_get before (write_key w) of
         None \<Rightarrow> Ok stale_nodes
       | Some old \<Rightarrow> rbind (auth_leaf_hash H (write_key w) old) (\<lambda>h.
           Ok (stale_nodes @ [\<lparr>sn_stale_since_version = version, sn_key = write_key w, sn_old_leaf_hash = h\<rparr>]))"
  have hash: "h = h_hash H (auth_value_input key old)" if "map_of before key = Some old" "auth_leaf_hash H key old = Inr h" for key old h
  proof -
    have "repr_valid old" using that(1) assms(1) by (auto simp: leaves_valid_def dest: map_of_SomeD)
    with that(2) show ?thesis by (simp add: auth_leaf_hash_iff)
  qed
  have "stale = acc @ stale_of H version before ws" if "fold_res ?step ws acc = Inr stale" for ws acc
    using that
  proof (induction ws arbitrary: acc)
    case (Cons w ws)
    show ?case
    proof (cases "map_of before (write_key w)")
      case None
      with Cons.prems have "fold_res ?step ws acc = Inr stale" by (simp add: btree_get_def)
      from Cons.IH [OF this] None show ?thesis by (simp add: stale_of_def)
    next
      case (Some old)
      with Cons.prems obtain h where h: "auth_leaf_hash H (write_key w) old = Inr h"
        "fold_res ?step ws (acc @ [\<lparr>sn_stale_since_version = version, sn_key = write_key w, sn_old_leaf_hash = h\<rparr>]) = Inr stale"
        by (auto simp: btree_get_def)
      from Cons.IH [OF h(2)] hash [OF Some h(1)] Some show ?thesis by (simp add: stale_of_def leaf_string_def)
    qed
  qed (simp add: stale_of_def)
  from this [of "writes" "[]"] assms(2) show ?thesis by (simp add: stale_candidates_def)
qed

text \<open>What a plan holds.\<close>

lemma planner_plan_Ok:
  assumes "leaves_valid (rst_leaves t)"
    and "projector_valid (asp_projector planner)"
    and "planner_plan H planner pre_state domain patch t = Inr planned"
  obtains applied projected rebuilt h where
    "patch_apply H patch pre_state domain = Ok applied" "pst_semantic_post_state planned = ap_state applied"
    "pj_project (asp_projector planner) (ap_state applied) = Ok projected" "projected_map projected = Ok (rst_leaves rebuilt)"
    "tree_from_map H (rst_profile t) (rst_version t + 1) (rst_leaves rebuilt) = Ok rebuilt" "leaves_valid (rst_leaves rebuilt)"
    "unat (rst_version t) + 1 \<le> u64_max" "cp_expected_pre_root patch \<noteq> 0"
    "\<exists>leaves. pj_project (asp_projector planner) pre_state = Ok leaves \<and> projected_map leaves = Ok (rst_leaves t)"
    "pst_authenticated planned =
       \<lparr>dap_profile = rst_profile t, dap_expected_version = rst_version t, dap_next_version = rst_version t + 1,
        dap_semantic_pre_root = cp_expected_pre_root patch, dap_semantic_post_root = ap_post_root applied,
        dap_patch_hash = h, dap_authenticated_pre_root = rst_root t,
        dap_authenticated_post_root = rst_root rebuilt, dap_node_batch = batch_from_maps (rst_leaves t) (rst_leaves rebuilt),
        dap_stale_nodes = stale_of H (rst_version t) (rst_leaves t) (batch_from_maps (rst_leaves t) (rst_leaves rebuilt)),
        pac_post_leaves = rst_leaves rebuilt\<rparr>"
    "hash_canonical H AUTH_PATCH (patch_canonical_bytes patch) = Ok h"
proof -
  let ?project = "pj_project (asp_projector planner)"
  from assms(3) obtain leaves where l: "?project pre_state = Ok leaves" "projected_map leaves = Ok (rst_leaves t)" "cp_expected_pre_root patch \<noteq> 0"
    by (auto simp: planner_plan_def plan_authenticated_update_def split: if_splits)
  with assms(3) obtain applied where a: "patch_apply H patch pre_state domain = Ok applied"
    by (auto simp: planner_plan_def plan_authenticated_update_def split: if_splits)
  with assms(3) l obtain projected m where m: "?project (ap_state applied) = Ok projected" "projected_map projected = Ok m"
    by (auto simp: planner_plan_def plan_authenticated_update_def split: if_splits)
  from assms(3) l a m obtain n where n: "checked_add u64_max (unat (rst_version t)) 1 = Some n"
    by (auto simp: planner_plan_def plan_authenticated_update_def Let_def split: if_splits)
  then have v: "unat (rst_version t) + 1 \<le> u64_max" "(of_nat n :: u64) = rst_version t + 1"
    by (auto simp: checked_add_def split: if_splits)
  have valid: "leaves_valid m" using assms(2) m(1) projected_map_Ok(5) [OF m(2)] by (fastforce simp: projector_valid_def leaves_valid_def)
  from assms(3) l a m n obtain rebuilt where r1: "tree_from_map H (rst_profile t) (of_nat n) m = Ok rebuilt"
    by (auto simp: planner_plan_def plan_authenticated_update_def Let_def split: if_splits)
  from assms(3) l a m n r1 obtain stale where r2: "stale_candidates H (rst_version t) (rst_leaves t) (batch_from_maps (rst_leaves t) m) = Ok stale"
    by (auto simp: planner_plan_def plan_authenticated_update_def Let_def split: if_splits)
  from assms(3) l a m n r1 r2 obtain h where r3: "hash_canonical H AUTH_PATCH (patch_canonical_bytes patch) = Ok h"
    by (auto simp: planner_plan_def plan_authenticated_update_def Let_def split: if_splits)
  have
    r: "tree_from_map H (rst_profile t) (of_nat n) m = Ok rebuilt"
      "stale_candidates H (rst_version t) (rst_leaves t) (batch_from_maps (rst_leaves t) m) = Ok stale"
      "hash_canonical H AUTH_PATCH (patch_canonical_bytes patch) = Ok h"
      "planned = \<lparr>pst_semantic_post_state = ap_state applied, pst_authenticated =
       \<lparr>dap_profile = rst_profile t, dap_expected_version = rst_version t, dap_next_version = of_nat n,
        dap_semantic_pre_root = cp_expected_pre_root patch, dap_semantic_post_root = ap_post_root applied,
        dap_patch_hash = h, dap_authenticated_pre_root = rst_root t,
        dap_authenticated_post_root = rst_root rebuilt, dap_node_batch = batch_from_maps (rst_leaves t) m,
        dap_stale_nodes = stale, pac_post_leaves = m\<rparr>\<rparr>"
    using r1 r2 r3 assms(3) l a m n by (auto simp: planner_plan_def plan_authenticated_update_def Let_def split: if_splits)
  note r = r [unfolded v(2)]
  from r(1) valid projected_map_Ok(1) [OF m(2)] have "rst_leaves rebuilt = m" by (simp add: tree_from_map_iff)
  with that [OF a _ m(1)] m(2) r valid v l stale_candidates_Ok [OF assms(1) r(2)] show thesis by auto
qed

lemma reachable_ok: "auth_reachable H t \<Longrightarrow> tree_ok H t"
proof (induction rule: auth_reachable.induct)
  case (reach_new leaves profile version t)
  then obtain m where m: "projected_map leaves = Ok m" "tree_from_map H profile version m = Ok t"
    by (auto simp: tree_try_new_def)
  have "leaves_valid m" using reach_new(1) projected_map_Ok(5) [OF m(1)] by (auto simp: leaves_valid_def)
  with m(2) projected_map_Ok(1) [OF m(1)] show ?case by (simp add: tree_from_map_iff)
next
  case (reach_plan t planner pre_state domain patch planned t' t'')
  have "leaves_valid (rst_leaves t)" using reach_plan.IH(1) by (auto simp: tree_ok_def leaves_valid_def leaf_valid_def)
  from this reach_plan.hyps(2,3) show ?case
  proof (rule planner_plan_Ok, goal_cases)
    case (1 applied projected rebuilt h)
    from reach_plan.hyps(5) have "\<exists>p v. tree_from_map H p v (rst_leaves rebuilt) = Ok t''"
      by (auto simp: tree_apply_plan_def 1(10) split: if_splits)
    with 1(6) projected_map_Ok(1) [OF 1(4)] show ?case by (auto simp: tree_from_map_iff)
  qed
qed

end

context commitment_hasher begin

lemma plan_applies:
  assumes "auth_reachable H t"
    and "projector_valid (asp_projector planner)"
    and "planner_plan H planner pre_state domain patch t = Inr planned"
  shows "\<exists>applied leaves t'. patch_apply H patch pre_state domain = Ok applied \<and> pst_semantic_post_state planned = ap_state applied
    \<and> dap_semantic_post_root (pst_authenticated planned) = ap_post_root applied
    \<and> pj_project (asp_projector planner) (ap_state applied) = Ok leaves
    \<and> tree_apply_plan H t (pst_authenticated planned) = Ok t'
    \<and> (\<forall>key. tree_get t' key = map_of leaves key) \<and> unat (rst_version t') = unat (rst_version t) + 1
    \<and> rst_root t' = dap_authenticated_post_root (pst_authenticated planned)
    \<and> sorted_wrt (<) (map write_key (dap_node_batch (pst_authenticated planned)))
    \<and> (\<forall>w. w \<in> set (dap_node_batch (pst_authenticated planned)) \<longleftrightarrow>
         write_of (write_key w) (tree_get t (write_key w)) (tree_get t' (write_key w)) = Some w)
    \<and> dap_stale_nodes (pst_authenticated planned)
         = stale_of H (rst_version t) (rst_leaves t) (dap_node_batch (pst_authenticated planned))
    \<and> tree_apply_plan H t' (pst_authenticated planned) = Err AE_VersionConflict"
proof -
  note ok = reachable_ok [OF assms(1)]
  then have "leaves_valid (rst_leaves t)" by (auto simp: tree_ok_def leaves_valid_def leaf_valid_def)
  from this assms(2,3) show ?thesis
  proof (rule planner_plan_Ok, goal_cases)
    case (1 applied projected rebuilt h)
    note m = projected_map_Ok [OF 1(4)]
    from 1(5) m(1) 1(6) have r: "rst_profile rebuilt = rst_profile t" "rst_version rebuilt = rst_version t + 1"
      by (simp_all add: tree_from_map_iff)
    have sorted: "sorted_wrt (<) (map fst (rst_leaves t))" using ok by (simp add: tree_ok_def)
    have v: "unat (rst_version t + 1) = unat (rst_version t) + 1" using 1(7) by (simp add: unat_word_ariths)
    have ne: "rst_version t + 1 \<noteq> rst_version t" by simp
    show ?case
      by (intro exI [of _ applied] exI [of _ projected] exI [of _ rebuilt] conjI 1(1-3))
        (use 1(5) r v ne m(3) batch_sorted [OF sorted m(1)] batch_writes [OF sorted m(1)] in
          \<open>simp_all add: 1(10) tree_apply_plan_def tree_get_def btree_get_def\<close>)
  qed
qed

end

section \<open>Properties\<close>

text \<open>C33: in every tree that can be built or reached by plans, every key has a proof; the proof is consistent, verifies
  against the tree's own profile, version and root, and says what the tree holds at the key, a value or nothing.  Whatever proof
  verifies against the tree's profile, version and root for the key, over a value that can be built and with siblings from
  anywhere, says the same, unless the hash collides on two of the strings that are hashed to verify the proof or on the path of
  the key in the tree.\<close>

theorem sparse_proofs_exact:
  assumes "commitment_hasher H" "auth_reachable H t"
  shows "(\<exists>p. tree_prove H t key = Ok p \<and> verify_internal_consistency H p = Ok True
      \<and> verify_against H p (proof_context t key) = Ok \<lparr>cvp_context = proof_context t key, cvp_leaf = proof_leaf (tree_get t key)\<rparr>)
    \<and> (\<forall>p verified. proof_leaf_valid (sp_leaf p) \<and> verify_against H p (proof_context t key) = Ok verified
        \<and> inj_on (h_hash H) (proof_inputs H p \<union> path_inputs H t key)
      \<longrightarrow> verified = \<lparr>cvp_context = proof_context t key, cvp_leaf = proof_leaf (tree_get t key)\<rparr>)"
  using commitment_hasher.prove_verifies [OF assms(1) commitment_hasher.reachable_ok [OF assms], of key]
    commitment_hasher.verified_leaf [OF assms(1) commitment_hasher.reachable_ok [OF assms], of _ key]
  by blast

text \<open>C38: a plan that the planner makes applies to the tree it was made for: the tree then holds exactly what the projector reads off
  the patched state, under the next version and the root that the plan names; the writes are exactly the
  differences, in increasing order of the keys, the stale nodes are exactly the leaves that were overwritten or deleted
  with their hashes, and the plan does not apply a second time.\<close>

theorem plan_applies_exactly:
  assumes "commitment_hasher H" "auth_reachable H t"
    and "projector_valid (asp_projector planner)"
    and "planner_plan H planner pre_state domain patch t = Ok planned"
  shows "\<exists>applied leaves t'. patch_apply H patch pre_state domain = Ok applied \<and> pst_semantic_post_state planned = ap_state applied
    \<and> dap_semantic_post_root (pst_authenticated planned) = ap_post_root applied
    \<and> pj_project (asp_projector planner) (ap_state applied) = Ok leaves
    \<and> tree_apply_plan H t (pst_authenticated planned) = Ok t'
    \<and> (\<forall>key. tree_get t' key = map_of leaves key) \<and> unat (rst_version t') = unat (rst_version t) + 1
    \<and> rst_root t' = dap_authenticated_post_root (pst_authenticated planned)
    \<and> sorted_wrt (<) (map write_key (dap_node_batch (pst_authenticated planned)))
    \<and> (\<forall>w. w \<in> set (dap_node_batch (pst_authenticated planned)) \<longleftrightarrow>
         write_of (write_key w) (tree_get t (write_key w)) (tree_get t' (write_key w)) = Some w)
    \<and> dap_stale_nodes (pst_authenticated planned)
         = stale_of H (rst_version t) (rst_leaves t) (dap_node_batch (pst_authenticated planned))
    \<and> tree_apply_plan H t' (pst_authenticated planned) = Err AE_VersionConflict"
  using commitment_hasher.plan_applies [OF assms] .

text \<open>Concrete runs: a tree without leaves, under a hash that tells its strings apart.\<close>

definition tail_hasher :: hasher where
  "tail_hasher = default_hasher ''tail'' (\<lambda>bs. be_word (drop (length bs - 32) bs) + 1)"

definition empty_tree :: "hasher \<Rightarrow> ReferenceSparseTree" where
  "empty_tree H = \<lparr>rst_profile = \<lparr>apr_tree_id = 1, apr_profile_hash = 2, apr_projector_hash = 3\<rparr>, rst_version = 0,
     rst_root = level_empty H TREE_DEPTH, rst_leaves = []\<rparr>"

lemma empty_tree_reachable:
  assumes "commitment_hasher H"
  shows "auth_reachable H (empty_tree H)"
proof (rule reach_new)
  show "leaves_valid []" by (simp add: leaves_valid_def)
  show "tree_try_new H \<lparr>apr_tree_id = 1, apr_profile_hash = 2, apr_projector_hash = 3\<rparr> 0 [] = Ok (empty_tree H)"
    using commitment_hasher.tree_from_map_iff [OF assms, of "[]" _ 0 "empty_tree H"]
    by (simp add: tree_try_new_def projected_map_def leaves_valid_def tree_ok_def empty_tree_def)
qed

lemma tail_hasher_law: "commitment_hasher tail_hasher"
  unfolding tail_hasher_def by (rule default_hasher.commitment_hasher_axioms)

lemma tail_hash: "h_hash tail_hasher (auth_node_input l r) = r + 1"
proof -
  have "domain_preimage AUTH_NODE (be_bytes 32 l @ be_bytes 32 r) = Inr (auth_node_input l r)"
    unfolding auth_node_input_def by (rule preimage_of_Ok) (simp_all add: auth_domains)
  then have "HASH_MAGIC @ be_bytes 2 (domain_version AUTH_NODE) @ be_bytes 2 (of_nat (length (domain_name AUTH_NODE)) :: u16)
      @ domain_name AUTH_NODE @ be_bytes 8 (64 :: u64) @ be_bytes 32 l @ be_bytes 32 r = auth_node_input l r"
    by (simp add: domain_preimage_def)
  then have "\<exists>xs. auth_node_input l r = xs @ be_bytes 32 r" by (metis append.assoc)
  then show ?thesis by (auto simp: tail_hasher_def default_hasher_def be_word_be_bytes_full)
qed

lemma tail_levels: "level_empty tail_hasher n = level_empty tail_hasher 0 + of_nat n"
proof (induction n)
  case (Suc n)
  then show ?case by (simp add: node_digest_def tail_hash del: level_empty.simps(1))
qed simp

lemma empty_inputs:
  "tree_inputs H n [] key = (\<lambda>i. auth_node_input (level_empty H i) (level_empty H i)) ` {..<n}"
  "path_siblings H n [] key = rev (map (level_empty H) [0..<n])"
  by (induction n) (simp_all add: lessThan_Suc)

lemma empty_fold:
  "fold_path H key n (rev (map (level_empty H) [0..<n])) (level_empty H 0) = level_empty H n
    \<and> fold_inputs H key n (rev (map (level_empty H) [0..<n])) (level_empty H 0)
      = (\<lambda>i. auth_node_input (level_empty H i) (level_empty H i)) ` {..<n}"
  by (induction n) (simp_all add: lessThan_Suc node_digest_def del: level_empty.simps(1))

lemma empty_strings_distinct:
  "inj_on (h_hash tail_hasher)
     (insert auth_absent_input ((\<lambda>i. auth_node_input (level_empty tail_hasher i) (level_empty tail_hasher i)) ` {..<TREE_DEPTH}))"
proof -
  let ?node = "\<lambda>i. auth_node_input (level_empty tail_hasher i) (level_empty tail_hasher i)"
  have digest: "h_hash tail_hasher (?node i) = level_empty tail_hasher 0 + of_nat (Suc i)" for i
    by (simp add: tail_hash tail_levels [of i] del: level_empty.simps)
  have nat: "(of_nat i :: hash32) = of_nat j \<Longrightarrow> i = j" if "i \<le> TREE_DEPTH" "j \<le> TREE_DEPTH" for i j
  proof -
    assume "(of_nat i :: hash32) = of_nat j"
    then have "unat (of_nat i :: hash32) = unat (of_nat j :: hash32)" by simp
    then show "i = j" using that by (simp add: unat_of_nat take_bit_nat_eq_self TREE_DEPTH_def)
  qed
  show "inj_on (h_hash tail_hasher) (insert auth_absent_input (?node ` {..<TREE_DEPTH}))"
  proof (rule inj_onI)
    have "\<exists>i\<le>TREE_DEPTH. h_hash tail_hasher x = level_empty tail_hasher 0 + of_nat i \<and> (if i = 0 then x = auth_absent_input else x = ?node (i - 1))"
      if "x \<in> insert auth_absent_input (?node ` {..<TREE_DEPTH})" for x
      using that
    proof
      assume "x = auth_absent_input"
      then show ?thesis by (intro exI [of _ 0]) simp
    next
      assume "x \<in> ?node ` {..<TREE_DEPTH}"
      then obtain i where "i < TREE_DEPTH" "x = ?node i" by blast
      then show ?thesis using digest [of i] by (intro exI [of _ "Suc i"]) (simp del: level_empty.simps)
    qed
    note index = this
    fix x y assume x: "x \<in> insert auth_absent_input (?node ` {..<TREE_DEPTH})" and y: "y \<in> insert auth_absent_input (?node ` {..<TREE_DEPTH})"
      and e: "h_hash tail_hasher x = h_hash tail_hasher y"
    from index [OF x] index [OF y] e obtain i j where ij: "i \<le> TREE_DEPTH" "j \<le> TREE_DEPTH" "(of_nat i :: hash32) = of_nat j"
      "if i = 0 then x = auth_absent_input else x = ?node (i - 1)" "if j = 0 then y = auth_absent_input else y = ?node (j - 1)"
      by (metis add_left_cancel)
    with nat [OF ij(1,2,3)] show "x = y" by (auto split: if_splits)
  qed
qed

theorem sparse_proofs_exact_witness:
  "\<exists>p. tree_prove tail_hasher (empty_tree tail_hasher) 5 = Ok p
    \<and> verify_against tail_hasher p (proof_context (empty_tree tail_hasher) 5)
        = Ok \<lparr>cvp_context = proof_context (empty_tree tail_hasher) 5, cvp_leaf = PF_Absence\<rparr>
    \<and> (\<forall>verified. verify_against tail_hasher p (proof_context (empty_tree tail_hasher) 5) = Ok verified
        \<longrightarrow> cvp_leaf verified = PF_Absence)"
proof -
  let ?t = "empty_tree tail_hasher"
  have reach: "auth_reachable tail_hasher ?t" by (rule empty_tree_reachable [OF tail_hasher_law])
  note ok = commitment_hasher.reachable_ok [OF tail_hasher_law reach]
  have leaves: "rst_leaves ?t = []" "tree_get ?t 5 = None" by (simp_all add: empty_tree_def tree_get_def btree_get_def)
  note exact = sparse_proofs_exact [OF tail_hasher_law reach, of 5]
  from exact [THEN conjunct1] obtain p where prove: "tree_prove tail_hasher ?t 5 = Ok p"
    and v: "verify_against tail_hasher p (proof_context ?t 5)
      = Ok \<lparr>cvp_context = proof_context ?t 5, cvp_leaf = proof_leaf (tree_get ?t 5)\<rparr>" by auto
  let ?node = "\<lambda>i. auth_node_input (level_empty tail_hasher i) (level_empty tail_hasher i)"
  from prove have p: "sp_key p = 5" "sp_leaf p = PF_Absence" "sp_siblings p = rev (map (level_empty tail_hasher) [0..<TREE_DEPTH])"
    using commitment_hasher.tree_prove_Ok [OF tail_hasher_law ok, of 5]
    by (auto simp: leaves proof_leaf_def empty_inputs simp del: upt_Suc)
  have "leaf_string 5 None = auth_absent_input" "h_hash tail_hasher auth_absent_input = level_empty tail_hasher 0"
    by (simp_all add: leaf_string_def)
  then have inputs: "proof_inputs tail_hasher p \<union> path_inputs tail_hasher ?t 5 = insert auth_absent_input (?node ` {..<TREE_DEPTH})"
    using empty_fold [of tail_hasher 5 TREE_DEPTH]
    by (simp add: proof_inputs_def path_inputs_def p leaves empty_inputs Let_def del: upt_Suc level_empty.simps)
  have "inj_on (h_hash tail_hasher) (insert auth_absent_input (?node ` {..<TREE_DEPTH}))" by (rule empty_strings_distinct)
  then have "proof_leaf_valid (sp_leaf p) \<and> inj_on (h_hash tail_hasher) (proof_inputs tail_hasher p \<union> path_inputs tail_hasher ?t 5)"
    by (simp add: inputs p proof_leaf_valid_def)
  then have "cvp_leaf verified = proof_leaf (tree_get ?t 5)"
    if "verify_against tail_hasher p (proof_context ?t 5) = Ok verified" for verified
    using exact [THEN conjunct2, rule_format, of p verified] that by simp
  with prove v show ?thesis by (auto simp: leaves proof_leaf_def)
qed

text \<open>A plan: the projector reads one flag off a record, and the patch sets it.\<close>

definition one_hasher :: hasher where
  "one_hasher = default_hasher ''one'' (\<lambda>_. 1)"

definition flag_state :: "bool \<Rightarrow> Value" where
  "flag_state b = VRecord [MkField 2 (VBool b)]"

definition flag_planner :: AuthenticatedStatePlanner where
  "flag_planner = \<lparr>asp_profile = \<lparr>apr_tree_id = 1, apr_profile_hash = 2, apr_projector_hash = 3\<rparr>,
     asp_projector = \<lparr>pj_declared_hash = 3,
       pj_project = (\<lambda>v. Ok (if v = flag_state False then [(7, VBool False)] else if v = flag_state True then [(7, VBool True)] else []))\<rparr>\<rparr>"

definition flag_patch :: CanonicalPatch where
  "flag_patch = \<lparr>cp_state_type = 1, cp_expected_pre_root = 1, cp_operations = [PO_Update [PS_Field 2] 1 (VBool True)]\<rparr>"

definition flag_tree :: "u64 \<Rightarrow> bool \<Rightarrow> ReferenceSparseTree" where
  "flag_tree version b = \<lparr>rst_profile = asp_profile flag_planner, rst_version = version,
     rst_root = tree_digest one_hasher TREE_DEPTH (digests one_hasher [(7, VBool b)]), rst_leaves = [(7, VBool b)]\<rparr>"

interpretation one_hash: commitment_hasher one_hasher
  unfolding one_hasher_def by (rule default_hasher.commitment_hasher_axioms)

lemma flag_valid: "leaf_valid (VBool b)"
  using default_value_limits_in_range
  by (simp add: leaf_valid_def default_admitted_def is_ok_iff validate_limits_Ok default_limit_simps)

lemma flag_from_map: "tree_from_map one_hasher (asp_profile flag_planner) version [(7, VBool b)] = Ok (flag_tree version b)"
  by (subst one_hash.tree_from_map_iff)
    (simp_all add: leaves_valid_def tree_ok_def flag_tree_def flag_valid MAX_REFERENCE_LEAVES_def)

lemma flag_reachable: "auth_reachable one_hasher (flag_tree 0 False)"
proof (rule reach_new)
  show "leaves_valid [(7, VBool False)]" by (simp add: leaves_valid_def)
  show "tree_try_new one_hasher (asp_profile flag_planner) 0 [(7, VBool False)] = Ok (flag_tree 0 False)"
    by (simp add: tree_try_new_def projected_map_def MAX_REFERENCE_LEAVES_def flag_from_map)
qed

lemma one_commitment: "d \<in> set domains_ALL \<Longrightarrow> length bs \<le> u64_max \<Longrightarrow> commitment one_hasher d bs = Ok 1"
  by (simp add: one_hash.commitment_preimage preimage_of_Ok) (simp add: one_hasher_def default_hasher_def)

lemma one_hash_value:
  assumes "repr_valid v" "length (enc v) \<le> u32_max" "validate_limits v default_value_limits = Ok m"
  shows "hash_value one_hasher VALUE v = Ok 1"
proof -
  have "VALUE \<in> set domains_ALL" by (simp add: domains_ALL_def)
  with canonical_value_bytes [OF assms] assms(2) show ?thesis by (simp add: hash_value_def one_commitment)
qed

lemma flag_applies: "patch_apply one_hasher flag_patch (flag_state False) VALUE = Ok \<lparr>ap_state = flag_state True, ap_post_root = 1\<rparr>"
proof -
  have "hash_value one_hasher VALUE (flag_state b) = Ok 1" "hash_value one_hasher VALUE (VBool b) = Ok 1" for b
    using default_value_limits_in_range
    by (auto intro!: one_hash_value simp: flag_state_def validate_limits_Ok default_limit_simps)
  moreover have "search_field 2 [MkField 2 v] = Inr 0" for v
    by (simp add: search_field_def binary_search_by_key_def binary_search_by_def cmp_def binary_search_loop.simps)
  ultimately show ?thesis
    by (simp add: patch_apply_def flag_patch_def flag_state_def check_old_value_def hash_precondition_value_def
        record_canonical_def field_new_def check_wire_length_eq)
qed

lemma flag_planned: "\<exists>planned. planner_plan one_hasher flag_planner (flag_state False) VALUE flag_patch (flag_tree 0 False) = Ok planned"
proof -
  have "\<exists>bs. patch_canonical_bytes flag_patch = Ok bs \<and> length bs \<le> u64_max"
    using flag_valid [of True]
    by (simp add: patch_canonical_bytes_def patch_encode_to_def flag_patch_def op_canonical_bytes_def path_canonical_bytes_def
        path_encode_to_def put_length_def put_blob_def try_from_def value_canonical_bytes_Ok leaf_valid_def default_admitted_def)
  then have hash: "\<exists>h. hash_canonical one_hasher AUTH_PATCH (patch_canonical_bytes flag_patch) = Ok h"
    by (auto simp: hash_canonical_def hash_bytes_def one_commitment auth_domains)
  have leaf: "\<exists>h. auth_leaf_hash one_hasher 7 (VBool False) = Ok h" using flag_valid by (simp add: one_hash.auth_leaf_hash_iff)
  have tree: "rst_profile (flag_tree 0 False) = asp_profile flag_planner" "rst_version (flag_tree 0 False) = 0"
    "rst_leaves (flag_tree 0 False) = [(7, VBool False)]" by (simp_all add: flag_tree_def)
  have project: "pj_project (asp_projector flag_planner) (flag_state b) = Ok [(7, VBool b)]" for b
    by (cases b) (simp_all add: flag_planner_def flag_state_def)
  have "pj_declared_hash (asp_projector flag_planner) = apr_projector_hash (asp_profile flag_planner)" "cp_expected_pre_root flag_patch \<noteq> 0"
    by (simp_all add: flag_planner_def flag_patch_def)
  then show ?thesis using hash leaf flag_from_map [of 1 True]
    by (auto simp: planner_plan_def plan_authenticated_update_def project projected_map_def MAX_REFERENCE_LEAVES_def tree flag_applies
        checked_add_def batch_from_maps_def btree_get_def stale_candidates_def)
qed

theorem plan_applies_exactly_witness:
  "\<exists>planned t'. planner_plan one_hasher flag_planner (flag_state False) VALUE flag_patch (flag_tree 0 False) = Ok planned
    \<and> tree_apply_plan one_hasher (flag_tree 0 False) (pst_authenticated planned) = Ok t' \<and> tree_get t' 7 = Some (VBool True)
    \<and> LW_Put 7 (VBool True) \<in> set (dap_node_batch (pst_authenticated planned))"
proof -
  obtain planned where p: "planner_plan one_hasher flag_planner (flag_state False) VALUE flag_patch (flag_tree 0 False) = Ok planned"
    using flag_planned by blast
  have "projector_valid (asp_projector flag_planner)" by (auto simp: projector_valid_def leaves_valid_def flag_planner_def)
  from plan_applies_exactly [OF one_hash.commitment_hasher_axioms flag_reachable this p] obtain leaves t' where
    t: "pj_project (asp_projector flag_planner) (flag_state True) = Ok leaves" "\<forall>key. tree_get t' key = map_of leaves key"
      "tree_apply_plan one_hasher (flag_tree 0 False) (pst_authenticated planned) = Ok t'"
      "\<forall>w. w \<in> set (dap_node_batch (pst_authenticated planned)) \<longleftrightarrow>
         write_of (write_key w) (tree_get (flag_tree 0 False) (write_key w)) (tree_get t' (write_key w)) = Some w"
    using flag_applies by auto
  from t(1,2) have "tree_get t' 7 = Some (VBool True)" by (auto simp: flag_planner_def flag_state_def)
  with p t(3) t(4) [rule_format, of "LW_Put 7 (VBool True)"] show ?thesis
    by (auto simp: write_of_def flag_tree_def tree_get_def btree_get_def)
qed

end
