(* ===== verification/Zeno_Auth_Codec.thy ===== *)
theory Zeno_Auth_Codec
  imports Zeno_Auth_Laws
begin

text \<open>
  Laws of the canonical formats of \<^verbatim>\<open>zeno-fcis-authenticated\<close>: the decoders accept exactly the encodings of
  plans and proofs within the limits.
\<close>

section \<open>Reading\<close>

interpretation auth_cursor: byte_cursor auth_take
  unfolding auth_take_def by (rule cursor_take_byte_cursor)

lemma auth_take_reads:
  assumes "cursor_wf c"
  shows "auth_take_u8 c = Inr (a, c') \<longleftrightarrow> reads c (be_bytes 1 a) c' \<and> cursor_wf c'"
    "auth_take_u16 c = Inr (b, c') \<longleftrightarrow> reads c (be_bytes 2 b) c' \<and> cursor_wf c'"
    "auth_take_u32 c = Inr (w, c') \<longleftrightarrow> reads c (be_bytes 4 w) c' \<and> cursor_wf c'"
    "auth_take_u64 c = Inr (q, c') \<longleftrightarrow> reads c (be_bytes 8 q) c' \<and> cursor_wf c'"
    "auth_take_hash32 c = Inr (h, c') \<longleftrightarrow> reads c (be_bytes 32 h) c' \<and> cursor_wf c'"
    "auth_take_blob c = Inr (bs, c') \<longleftrightarrow> reads c (blob_bytes bs) c' \<and> cursor_wf c' \<and> length bs \<le> u32_max"
  using auth_cursor.word_reads [OF assms, where 'a = 8] auth_cursor.word_reads [OF assms, where 'a = 16]
    auth_cursor.word_reads [OF assms, where 'a = 32] auth_cursor.word_reads [OF assms, where 'a = 64]
    auth_cursor.word_reads [OF assms, where 'a = 256] auth_cursor.blob_reads [OF assms] readsD(3)
  by (auto simp: auth_take_u8_def auth_take_u16_def auth_take_u32_def auth_take_u64_def auth_take_hash32_def auth_take_blob_def)

definition auth_limits_in_range :: "AuthenticatedDecodeLimits \<Rightarrow> bool" where
  "auth_limits_in_range L \<longleftrightarrow> adl_max_input_bytes L \<le> u64_max \<and> decode_limits_in_range (adl_value L)"

definition profile_valid :: "AuthenticatedProfile \<Rightarrow> bool" where
  "profile_valid p \<longleftrightarrow> apr_tree_id p \<noteq> 0 \<and> apr_profile_hash p \<noteq> 0 \<and> apr_projector_hash p \<noteq> 0"

definition auth_profile_bytes :: "AuthenticatedProfile \<Rightarrow> bytes" where
  "auth_profile_bytes p = be_bytes 32 (apr_tree_id p) @ be_bytes 32 (apr_profile_hash p) @ be_bytes 32 (apr_projector_hash p)"

lemma decode_profile_iff:
  assumes "cursor_wf c"
  shows "decode_profile c = Inr (p, c') \<longleftrightarrow> reads c (auth_profile_bytes p) c' \<and> cursor_wf c' \<and> profile_valid p"
  using assms
  by (cases p) (auto simp: decode_profile_def auth_take_reads profile_try_new_def auth_profile_bytes_def reads_append profile_valid_def
      cong: conj_cong; blast dest: readsD(3))

lemma auth_value_iff: "auth_limits_in_range L \<Longrightarrow> decode_authenticated_value bs L = Inr v \<longleftrightarrow> bs = enc v \<and> value_admitted (adl_value L) v"
  by (auto simp: decode_authenticated_value_def auth_limits_in_range_def decode_value_admitted)

lemma auth_put_length_Ok: "auth_put_length out n = Inr bs \<longleftrightarrow> n \<le> u32_max \<and> bs = out @ be_bytes 4 (of_nat n :: u32)"
  by (auto simp: auth_put_length_def try_from_def)

lemma require_complete_Ok: "require_complete c = Inr u \<longleftrightarrow> cursor_remaining c = 0"
  by (simp add: require_complete_def)

lemma require_canonical_Ok: "require_canonical bs r = Inr u \<longleftrightarrow> r = Inr bs"
  by (cases r) (auto simp: require_canonical_def)

lemma auth_bounded_capacity_Ok: "k \<noteq> 0 \<Longrightarrow> auth_bounded_capacity (unat (n :: u32)) m k = Inr (min (unat n) (m div k))"
  using unsigned_less [of n, where ?'a = nat]
  by (simp add: auth_bounded_capacity_def try_from_def checked_div_def)

lemma enforce_authenticated_input_limit_Ok:
  "auth_limits_in_range L \<Longrightarrow> enforce_authenticated_input_limit bs L = Inr u \<longleftrightarrow> length bs \<le> adl_max_input_bytes L"
  by (auto simp: enforce_authenticated_input_limit_def auth_limits_in_range_def try_from_def split: if_splits)

section \<open>Proofs\<close>

definition proof_leaf_bytes :: "ProofLeaf \<Rightarrow> bytes" where
  "proof_leaf_bytes l = (case l of PF_Absence \<Rightarrow> [0] | PF_Membership v \<Rightarrow> [1] @ blob_bytes (enc v))"

definition proof_leaf_admitted :: "AuthenticatedDecodeLimits \<Rightarrow> ProofLeaf \<Rightarrow> bool" where
  "proof_leaf_admitted L l = (case l of PF_Absence \<Rightarrow> True | PF_Membership v \<Rightarrow> value_admitted (adl_value L) v)"

lemma one_byte: "be_bytes 1 (w :: u8) = [w]"
  by simp

lemma reads_tagged: "reads c (t # blob_bytes bs) c'' \<longleftrightarrow> (\<exists>c'. reads c [t] c' \<and> reads c' (blob_bytes bs) c'')"
  using reads_append [of c "[t]" "blob_bytes bs"] by simp

lemma decode_proof_leaf_iff:
  assumes "auth_limits_in_range L" "cursor_wf c"
  shows "decode_proof_leaf L c = Inr (l, c') \<longleftrightarrow> reads c (proof_leaf_bytes l) c' \<and> cursor_wf c' \<and> proof_leaf_admitted L l
    \<and> (\<forall>v. l = PF_Membership v \<longrightarrow> length (enc v) \<le> u32_max)"
  using assms(2)
  by (cases l) (auto simp: decode_proof_leaf_def auth_take_reads auth_value_iff [OF assms(1)] proof_leaf_bytes_def
      proof_leaf_admitted_def reads_tagged one_byte if_Err_Ok split: if_splits cong: conj_cong dest: readsD(3))

definition proof_bytes :: "SparseProof \<Rightarrow> bytes" where
  "proof_bytes p = be_bytes 2 SPARSE_PROOF_ENCODING_VERSION @ auth_profile_bytes (sp_profile p) @ be_bytes 8 (sp_version p)
     @ be_bytes 32 (sp_root p) @ be_bytes 32 (sp_key p) @ proof_leaf_bytes (sp_leaf p)
     @ be_bytes 4 (of_nat (length (sp_siblings p)) :: u32) @ concat (map (be_bytes 32) (sp_siblings p))"

lemma proof_canonical_bytes_Ok:
  assumes "\<And>v. sp_leaf p = PF_Membership v \<Longrightarrow> repr_valid v"
  shows "proof_canonical_bytes p = Inr bs \<longleftrightarrow> bs = proof_bytes p \<and> length (sp_siblings p) \<le> u32_max
    \<and> (\<forall>v. sp_leaf p = PF_Membership v \<longrightarrow> default_admitted v \<and> length (enc v) \<le> u32_max)"
proof (cases "sp_leaf p")
  case (PF_Membership v)
  then have "repr_valid v" using assms by simp
  then show ?thesis
    by (auto simp: proof_canonical_bytes_def proof_encode_to_def Let_def PF_Membership auth_put_blob_Ok auth_put_length_Ok
        value_canonical_bytes_Ok default_admitted_def proof_bytes_def proof_leaf_bytes_def profile_encode_to_def auth_profile_bytes_def)
next
  case PF_Absence
  then show ?thesis
    by (auto simp: proof_canonical_bytes_def proof_encode_to_def Let_def auth_put_length_Ok
        proof_bytes_def proof_leaf_bytes_def profile_encode_to_def auth_profile_bytes_def)
qed

lemma siblings_loop:
  assumes "cursor_wf c"
  shows "decode_times n decode_sibling c () = Inr (hs, c', u) \<longleftrightarrow> length hs = n \<and> reads c (concat (map (be_bytes 32) hs)) c'"
proof -
  have read: "decode_sibling c st = Inr (h, c', st') \<longleftrightarrow> reads c (be_bytes 32 h) c' \<and> True \<and> True"
    if "cursor_wf c" for c c' h and st st' :: unit
    using that by (auto simp: decode_sibling_def auth_take_reads dest: readsD(3))
  have "item_steps (\<lambda>_ _ _. True) hs () u" by (induction hs) auto
  then show ?thesis
    using item_loop_iff [where f = decode_sibling and item_bytes = "be_bytes 32" and fit = "\<lambda>_. True"
        and step = "\<lambda>_ _ _. True", OF read assms] by simp
qed

definition sparse_proof_valid :: "AuthenticatedDecodeLimits \<Rightarrow> SparseProof \<Rightarrow> bool" where
  "sparse_proof_valid L p \<longleftrightarrow> profile_valid (sp_profile p) \<and> length (sp_siblings p) = TREE_DEPTH \<and> proof_leaf_admitted L (sp_leaf p)"

lemma sibling_count: "n = of_nat TREE_DEPTH \<Longrightarrow> unat n = TREE_DEPTH" for n :: u32
  by (simp add: TREE_DEPTH_def)

lemma decode_sparse_proof_iff:
  assumes L: "auth_limits_in_range L"
  shows "decode_sparse_proof bs L = Inr p \<longleftrightarrow>
    sparse_proof_valid L p \<and> proof_canonical_bytes p = Inr bs \<and> length bs \<le> adl_max_input_bytes L"
proof
  assume d: "decode_sparse_proof bs L = Inr p"
  then have len: "length bs \<le> adl_max_input_bytes L"
    by (auto simp: decode_sparse_proof_def enforce_authenticated_input_limit_Ok [OF L])
  then have wf: "cursor_wf (cursor_new bs)" using L by (simp add: auth_limits_in_range_def)
  with d len show "sparse_proof_valid L p \<and> proof_canonical_bytes p = Inr bs \<and> length bs \<le> adl_max_input_bytes L"
    by (auto simp: decode_sparse_proof_def Let_def auth_take_reads decode_profile_iff decode_proof_leaf_iff [OF L]
        siblings_loop require_canonical_Ok if_Err_Ok sparse_proof_valid_def sibling_count cong: conj_cong)
next
  assume p: "sparse_proof_valid L p \<and> proof_canonical_bytes p = Inr bs \<and> length bs \<le> adl_max_input_bytes L"
  then have wf: "cursor_wf (cursor_new bs)" "length bs \<le> usize_max" using L by (simp_all add: auth_limits_in_range_def)
  have "repr_valid v" if "sp_leaf p = PF_Membership v" for v
    using p that by (simp add: sparse_proof_valid_def proof_leaf_admitted_def value_admitted_def value_valid_def)
  with p have bs: "bs = proof_bytes p" and leaf: "\<forall>v. sp_leaf p = PF_Membership v \<longrightarrow> length (enc v) \<le> u32_max"
    using proof_canonical_bytes_Ok [of p bs] by auto
  from bs wf(2) obtain c1 c2 c3 c4 c5 c6 c7 c8 where
    r: "reads (cursor_new bs) (be_bytes 2 SPARSE_PROOF_ENCODING_VERSION) c1" "reads c1 (auth_profile_bytes (sp_profile p)) c2"
      "reads c2 (be_bytes 8 (sp_version p)) c3" "reads c3 (be_bytes 32 (sp_root p)) c4" "reads c4 (be_bytes 32 (sp_key p)) c5"
      "reads c5 (proof_leaf_bytes (sp_leaf p)) c6" "reads c6 (be_bytes 4 (of_nat (length (sp_siblings p)) :: u32)) c7"
      "reads c7 (concat (map (be_bytes 32) (sp_siblings p))) c8" and e: "cursor_remaining c8 = 0"
    using reads_consumed [of bs "proof_bytes p"] by (simp add: proof_bytes_def reads_append) blast
  note w = r [THEN readsD(3)]
  have takes: "auth_take_u16 (cursor_new bs) = Inr (SPARSE_PROOF_ENCODING_VERSION, c1)"
      "decode_profile c1 = Inr (sp_profile p, c2)" "auth_take_u64 c2 = Inr (sp_version p, c3)"
      "auth_take_hash32 c3 = Inr (sp_root p, c4)" "auth_take_hash32 c4 = Inr (sp_key p, c5)"
      "decode_proof_leaf L c5 = Inr (sp_leaf p, c6)"
      "auth_take_u32 c6 = Inr (of_nat TREE_DEPTH, c7)"
      "decode_times (unat (of_nat TREE_DEPTH :: u32)) decode_sibling c7 () = Inr (sp_siblings p, c8, ())"
    using p r w wf(1) leaf
    by (simp_all add: auth_take_reads decode_profile_iff decode_proof_leaf_iff [OF L] siblings_loop sparse_proof_valid_def sibling_count)
  have eta: "\<lparr>sp_profile = sp_profile p, sp_version = sp_version p, sp_root = sp_root p, sp_key = sp_key p,
      sp_leaf = sp_leaf p, sp_siblings = sp_siblings p\<rparr> = p" by simp
  show "decode_sparse_proof bs L = Inr p"
    using takes p e by (simp add: decode_sparse_proof_def enforce_authenticated_input_limit_Ok [OF L] require_complete_Ok
        require_canonical_Ok Let_def eta)
qed

section \<open>Tables in the order of their keys\<close>

text \<open>Writes and stale nodes are read one after the other, each key above the one before.\<close>

definition next_key_step :: "hash32 \<Rightarrow> hash32 option \<Rightarrow> hash32 option \<Rightarrow> bool" where
  "next_key_step key previous next_key \<longleftrightarrow> (\<forall>p\<in>set_option previous. p < key) \<and> next_key = Some key"

lemma next_key_steps_from:
  "item_steps (\<lambda>x. next_key_step (key x)) xs (Some p) st' \<longleftrightarrow>
     sorted_wrt (<) (p # map key xs) \<and> st' = Some (last (p # map key xs))"
proof (induction xs arbitrary: p)
  case (Cons x xs)
  show ?case unfolding item_steps.simps by (simp add: next_key_step_def Cons) (auto simp: less_trans)
qed auto

lemma next_key_steps:
  "item_steps (\<lambda>x. next_key_step (key x)) xs None st' \<longleftrightarrow>
     sorted_wrt (<) (map key xs) \<and> st' = (if xs = [] then None else Some (last (map key xs)))"
  by (cases xs) (simp_all add: next_key_step_def next_key_steps_from)

section \<open>Plans\<close>

definition write_bytes :: "LeafWrite \<Rightarrow> bytes" where
  "write_bytes w = (case w of LW_Put key v \<Rightarrow> [0] @ be_bytes 32 key @ blob_bytes (enc v) | LW_Delete key \<Rightarrow> [1] @ be_bytes 32 key)"

definition write_admitted :: "AuthenticatedDecodeLimits \<Rightarrow> LeafWrite \<Rightarrow> bool" where
  "write_admitted L w = (case w of LW_Put key v \<Rightarrow> value_admitted (adl_value L) v | LW_Delete _ \<Rightarrow> True)"

definition write_short :: "LeafWrite \<Rightarrow> bool" where
  "write_short w = (case w of LW_Put key v \<Rightarrow> length (enc v) \<le> u32_max | LW_Delete _ \<Rightarrow> True)"

lemma previous_key: "(case st of Some previous \<Rightarrow> key \<le> previous | None \<Rightarrow> False) \<longleftrightarrow> \<not> (\<forall>p\<in>set_option st. p < key)"
  for key :: hash32
  by (cases st) auto

lemma reads_word_key: "reads c (t # be_bytes 32 key @ bs) c''
    \<longleftrightarrow> (\<exists>c'. reads c [t] c' \<and> (\<exists>c3. reads c' (be_bytes 32 key) c3 \<and> reads c3 bs c''))"
  using reads_append [of c "[t]" "be_bytes 32 key @ bs"] by (simp add: reads_append)

lemma reads_key: "reads c (t # be_bytes 32 key) c'' \<longleftrightarrow> (\<exists>c'. reads c [t] c' \<and> reads c' (be_bytes 32 key) c'')"
  using reads_append [of c "[t]" "be_bytes 32 key"] by simp

lemma decode_write_iff:
  assumes "auth_limits_in_range L" "cursor_wf c"
  shows "decode_write L c st = Inr (w, c', st') \<longleftrightarrow> reads c (write_bytes w) c' \<and> (write_admitted L w \<and> write_short w)
    \<and> next_key_step (write_key w) st st'"
  using assms(2)
  by (cases w) (auto simp: decode_write_def auth_take_reads auth_value_iff [OF assms(1)] write_bytes_def write_admitted_def
      write_short_def reads_word_key reads_key one_byte next_key_step_def previous_key if_Err_Ok split: if_splits cong: conj_cong dest: readsD(3))

definition batch_bytes :: "NodeBatch \<Rightarrow> bytes" where
  "batch_bytes ws = be_bytes 4 (of_nat (length ws) :: u32) @ concat (map write_bytes ws)"

lemma batch_canonical_bytes_Ok:
  assumes "\<forall>key v. LW_Put key v \<in> set ws \<longrightarrow> repr_valid v"
  shows "batch_canonical_bytes ws = Inr bs \<longleftrightarrow> bs = batch_bytes ws \<and> length ws \<le> u32_max
    \<and> (\<forall>w\<in>set ws. write_short w \<and> (\<forall>key v. w = LW_Put key v \<longrightarrow> default_admitted v))"
proof -
  let ?step = "\<lambda>w output. case w of
           LW_Put key v \<Rightarrow> rbind (canonical_bytes value_encode_to v) (\<lambda>encoded. auth_put_blob (output @ [0] @ be_bytes 32 key) encoded)
         | LW_Delete key \<Rightarrow> Ok (output @ [1] @ be_bytes 32 key)"
  have step: "?step w out = Inr bs \<longleftrightarrow> bs = out @ write_bytes w \<and> write_short w \<and> (\<forall>key v. w = LW_Put key v \<longrightarrow> default_admitted v)"
    if "\<forall>key v. w = LW_Put key v \<longrightarrow> repr_valid v" for w out bs
    using that by (cases w) (auto simp: value_canonical_bytes_Ok auth_put_blob_Ok write_bytes_def write_short_def default_admitted_def)
  have "fold_res ?step ws out = Inr bs \<longleftrightarrow> bs = out @ concat (map write_bytes ws)
      \<and> (\<forall>w\<in>set ws. write_short w \<and> (\<forall>key v. w = LW_Put key v \<longrightarrow> default_admitted v))" for out
    using assms
  proof (induction ws arbitrary: out)
    case (Cons w ws)
    then have "\<forall>key v. w = LW_Put key v \<longrightarrow> repr_valid v" by auto
    note s = step [OF this]
    show ?case using Cons by (auto simp: s simp del: LeafWrite.case)
  qed auto
  then show ?thesis by (auto simp: batch_canonical_bytes_def batch_encode_to_def auth_put_length_Ok batch_bytes_def)
qed

definition node_batch_valid :: "AuthenticatedDecodeLimits \<Rightarrow> NodeBatch \<Rightarrow> bool" where
  "node_batch_valid L ws \<longleftrightarrow> sorted_wrt (<) (map write_key ws) \<and> length ws \<le> adl_max_writes L \<and> (\<forall>w\<in>set ws. write_admitted L w)"

lemma writes_loop:
  assumes "auth_limits_in_range L" "cursor_wf c"
  shows "decode_times n (decode_write L) c None = Inr (ws, c', st') \<longleftrightarrow> length ws = n \<and> reads c (concat (map write_bytes ws)) c'
    \<and> (\<forall>w\<in>set ws. write_admitted L w \<and> write_short w) \<and> sorted_wrt (<) (map write_key ws)
    \<and> st' = (if ws = [] then None else Some (last (map write_key ws)))"
  using item_loop_iff [where f = "decode_write L" and step = "\<lambda>w. next_key_step (write_key w)", OF decode_write_iff [OF assms(1)] assms(2)] by (simp add: next_key_steps)

lemma decode_node_batch_iff:
  assumes L: "auth_limits_in_range L" and len: "length bs \<le> usize_max"
  shows "decode_node_batch bs L = Inr ws \<longleftrightarrow> node_batch_valid L ws \<and> batch_canonical_bytes ws = Inr bs"
proof -
  have wf: "cursor_wf (cursor_new bs)" using len by simp
  show ?thesis
  proof
    assume "decode_node_batch bs L = Inr ws"
    with wf show "node_batch_valid L ws \<and> batch_canonical_bytes ws = Inr bs"
      by (auto simp: decode_node_batch_def auth_take_reads writes_loop [OF L] auth_bounded_capacity_Ok require_canonical_Ok
          if_Err_Ok node_batch_valid_def not_less cong: conj_cong dest: readsD(3))
  next
    assume ws: "node_batch_valid L ws \<and> batch_canonical_bytes ws = Inr bs"
    have "repr_valid v" if "LW_Put key v \<in> set ws" for key v
      using ws that by (fastforce simp: node_batch_valid_def write_admitted_def value_admitted_def value_valid_def)
    with ws have bs: "bs = batch_bytes ws" "length ws \<le> u32_max" "\<forall>w\<in>set ws. write_short w"
      using batch_canonical_bytes_Ok [of ws bs] by auto
    from bs(1) len obtain c1 c2 where r: "reads (cursor_new bs) (be_bytes 4 (of_nat (length ws) :: u32)) c1"
      "reads c1 (concat (map write_bytes ws)) c2" "cursor_remaining c2 = 0"
      using reads_consumed [of bs "batch_bytes ws"] by (simp add: batch_bytes_def reads_append) blast
    have n: "unat (of_nat (length ws) :: u32) = length ws" using bs(2) by (simp add: unat_of_nat)
    have "auth_take_u32 (cursor_new bs) = Inr (of_nat (length ws), c1)" using r(1) wf readsD(3) [OF r(1)] by (simp add: auth_take_reads)
    moreover have "decode_times (length ws) (decode_write L) c1 None = Inr (ws, c2, if ws = [] then None else Some (last (map write_key ws)))"
      using r(2) ws bs(3) by (simp add: writes_loop [OF L readsD(3) [OF r(1)]] node_batch_valid_def)
    moreover have "auth_bounded_capacity (length ws) (cursor_remaining c1) 33 = Inr (min (length ws) (cursor_remaining c1 div 33))"
      using auth_bounded_capacity_Ok [of 33 "of_nat (length ws)"] by (simp add: n)
    ultimately show "decode_node_batch bs L = Inr ws" using ws r(3)
      by (simp add: decode_node_batch_def n require_complete_Ok require_canonical_Ok node_batch_valid_def)
  qed
qed

interpretation write_index: ordered_index write_key "binary_search_by_key write_key"
  by (rule binary_search_by_key_index)

lemma write_search:
  assumes "sorted_wrt (<) (map write_key ws)"
  shows "(case binary_search_by_key write_key key ws of Inl _ \<Rightarrow> Inl e | Inr _ \<Rightarrow> r) = Inr x \<longleftrightarrow> key \<in> write_key ` set ws \<and> r = Inr x"
proof (cases "binary_search_by_key write_key key ws")
  case (Inl i)
  have "key \<notin> write_key ` set ws"
    using write_index.search_missing [OF assms Inl] append_take_drop_id [of i ws] by (metis Un_iff image_iff less_irrefl set_append)
  with Inl show ?thesis by simp
next
  case (Inr i)
  with write_index.search_found [OF assms Inr] show ?thesis by force
qed

definition stale_bytes :: "StaleNodeCandidate \<Rightarrow> bytes" where
  "stale_bytes s = be_bytes 8 (sn_stale_since_version s) @ be_bytes 32 (sn_key s) @ be_bytes 32 (sn_old_leaf_hash s)"

definition stale_fits :: "u64 \<Rightarrow> NodeBatch \<Rightarrow> StaleNodeCandidate \<Rightarrow> bool" where
  "stale_fits version ws s \<longleftrightarrow> sn_stale_since_version s = version \<and> sn_key s \<in> write_key ` set ws"

lemma decode_stale_iff:
  assumes "sorted_wrt (<) (map write_key ws)" "cursor_wf c"
  shows "decode_stale version ws c st = Inr (s, c', st') \<longleftrightarrow> reads c (stale_bytes s) c' \<and> stale_fits version ws s
    \<and> next_key_step (sn_key s) st st'"
  using assms(2)
  by (cases s) (auto simp: decode_stale_def auth_take_reads stale_bytes_def reads_append write_search [OF assms(1)] stale_fits_def
      next_key_step_def previous_key if_Err_Ok cong: conj_cong dest: readsD(3))

lemma stale_loop:
  assumes "sorted_wrt (<) (map write_key ws)" "cursor_wf c"
  shows "decode_times n (decode_stale version ws) c None = Inr (ss, c', st') \<longleftrightarrow> length ss = n \<and> reads c (concat (map stale_bytes ss)) c'
    \<and> (\<forall>s\<in>set ss. stale_fits version ws s) \<and> sorted_wrt (<) (map sn_key ss)
    \<and> st' = (if ss = [] then None else Some (last (map sn_key ss)))"
  using item_loop_iff [where f = "decode_stale version ws" and step = "\<lambda>s. next_key_step (sn_key s)", OF decode_stale_iff [OF assms(1)] assms(2)]
  by (simp add: next_key_steps)

definition auth_plan_bytes :: "DecodedAuthenticatedPlan \<Rightarrow> bytes \<Rightarrow> bytes" where
  "auth_plan_bytes p encoded = be_bytes 2 AUTHENTICATED_PLAN_ENCODING_VERSION @ auth_profile_bytes (dap_profile p)
     @ be_bytes 8 (dap_expected_version p) @ be_bytes 8 (dap_next_version p) @ be_bytes 32 (dap_semantic_pre_root p)
     @ be_bytes 32 (dap_semantic_post_root p) @ be_bytes 32 (dap_patch_hash p) @ be_bytes 32 (dap_authenticated_pre_root p)
     @ be_bytes 32 (dap_authenticated_post_root p) @ blob_bytes encoded
     @ be_bytes 4 (of_nat (length (dap_stale_nodes p)) :: u32) @ concat (map stale_bytes (dap_stale_nodes p))"

lemma auth_plan_canonical_bytes_Ok:
  "auth_plan_canonical_bytes p = Inr bs \<longleftrightarrow> (\<exists>encoded. batch_canonical_bytes (dap_node_batch p) = Inr encoded
    \<and> length encoded \<le> u32_max \<and> length (dap_stale_nodes p) \<le> u32_max \<and> bs = auth_plan_bytes p encoded)"
  by (auto simp: auth_plan_canonical_bytes_def auth_plan_encode_to_def Let_def auth_put_blob_Ok auth_put_length_Ok auth_plan_bytes_def
      profile_encode_to_def auth_profile_bytes_def stale_bytes_def [abs_def])

definition auth_plan_valid :: "AuthenticatedDecodeLimits \<Rightarrow> DecodedAuthenticatedPlan \<Rightarrow> bool" where
  "auth_plan_valid L p \<longleftrightarrow> profile_valid (dap_profile p) \<and> unat (dap_next_version p) = unat (dap_expected_version p) + 1
     \<and> node_batch_valid L (dap_node_batch p) \<and> length (dap_stale_nodes p) \<le> adl_max_stale_nodes L
     \<and> sorted_wrt (<) (map sn_key (dap_stale_nodes p))
     \<and> (\<forall>s\<in>set (dap_stale_nodes p). stale_fits (dap_expected_version p) (dap_node_batch p) s)"

lemma successor_version: "checked_add u64_max (unat v) 1 = Some (unat w) \<longleftrightarrow> unat w = unat v + 1" for v w :: u64
  using unsigned_less [of w, where ?'a = nat] by (auto simp: checked_add_def)

lemma decode_plan_sound:
  assumes L: "auth_limits_in_range L" and d: "decode_authenticated_plan bs L = Inr p"
  shows "auth_plan_valid L p \<and> auth_plan_canonical_bytes p = Inr bs \<and> length bs \<le> adl_max_input_bytes L"
proof -
  from d have len: "length bs \<le> adl_max_input_bytes L"
    by (auto simp: decode_authenticated_plan_def enforce_authenticated_input_limit_Ok [OF L])
  then have wf: "cursor_wf (cursor_new bs)" using L by (simp add: auth_limits_in_range_def)
  have batch: "length e \<le> u32_max \<Longrightarrow> decode_node_batch e L = Inr ws \<longleftrightarrow> node_batch_valid L ws \<and> batch_canonical_bytes ws = Inr e" for e ws
    by (rule decode_node_batch_iff [OF L]) simp
  have sorted: "node_batch_valid L ws \<Longrightarrow> sorted_wrt (<) (map write_key ws)" for ws by (simp add: node_batch_valid_def)
  from d len wf show ?thesis
    by (auto simp: decode_authenticated_plan_def Let_def auth_take_reads decode_profile_iff batch stale_loop sorted successor_version
        require_canonical_Ok if_Err_Ok auth_plan_valid_def not_less cong: conj_cong dest: readsD(3))
qed

lemma decode_plan_complete:
  assumes L: "auth_limits_in_range L" and p: "auth_plan_valid L p" "auth_plan_canonical_bytes p = Inr bs" "length bs \<le> adl_max_input_bytes L"
  shows "decode_authenticated_plan bs L = Inr p"
proof -
  have wf: "cursor_wf (cursor_new bs)" "length bs \<le> usize_max" using L p(3) by (simp_all add: auth_limits_in_range_def)
  from p(2) obtain encoded where enc: "batch_canonical_bytes (dap_node_batch p) = Inr encoded" "length encoded \<le> u32_max"
    and n: "length (dap_stale_nodes p) \<le> u32_max" and bs: "bs = auth_plan_bytes p encoded"
    by (auto simp: auth_plan_canonical_bytes_Ok)
  from bs wf(2) obtain c1 c2 c3 c4 c5 c6 c7 c8 c9 c10 c11 c12 where
    r: "reads (cursor_new bs) (be_bytes 2 AUTHENTICATED_PLAN_ENCODING_VERSION) c1" "reads c1 (auth_profile_bytes (dap_profile p)) c2"
      "reads c2 (be_bytes 8 (dap_expected_version p)) c3" "reads c3 (be_bytes 8 (dap_next_version p)) c4"
      "reads c4 (be_bytes 32 (dap_semantic_pre_root p)) c5" "reads c5 (be_bytes 32 (dap_semantic_post_root p)) c6"
      "reads c6 (be_bytes 32 (dap_patch_hash p)) c7" "reads c7 (be_bytes 32 (dap_authenticated_pre_root p)) c8"
      "reads c8 (be_bytes 32 (dap_authenticated_post_root p)) c9" "reads c9 (blob_bytes encoded) c10"
      "reads c10 (be_bytes 4 (of_nat (length (dap_stale_nodes p)) :: u32)) c11"
      "reads c11 (concat (map stale_bytes (dap_stale_nodes p))) c12" and e: "cursor_remaining c12 = 0"
    using reads_consumed [of bs "auth_plan_bytes p encoded"] by (simp add: auth_plan_bytes_def reads_append) blast
  note w = wf(1) r [THEN readsD(3)]
  have n: "unat (of_nat (length (dap_stale_nodes p)) :: u32) = length (dap_stale_nodes p)" using n by (simp add: unat_of_nat)
  have v: "sorted_wrt (<) (map write_key (dap_node_batch p))" "node_batch_valid L (dap_node_batch p)"
    using p(1) by (simp_all add: auth_plan_valid_def node_batch_valid_def)
  have takes: "auth_take_u16 (cursor_new bs) = Inr (AUTHENTICATED_PLAN_ENCODING_VERSION, c1)"
      "decode_profile c1 = Inr (dap_profile p, c2)" "auth_take_u64 c2 = Inr (dap_expected_version p, c3)"
      "auth_take_u64 c3 = Inr (dap_next_version p, c4)" "auth_take_hash32 c4 = Inr (dap_semantic_pre_root p, c5)"
      "auth_take_hash32 c5 = Inr (dap_semantic_post_root p, c6)" "auth_take_hash32 c6 = Inr (dap_patch_hash p, c7)"
      "auth_take_hash32 c7 = Inr (dap_authenticated_pre_root p, c8)" "auth_take_hash32 c8 = Inr (dap_authenticated_post_root p, c9)"
      "auth_take_blob c9 = Inr (encoded, c10)" "auth_take_u32 c10 = Inr (of_nat (length (dap_stale_nodes p)), c11)"
    using p(1) r w enc(2) by (simp_all add: auth_take_reads decode_profile_iff auth_plan_valid_def)
  have loop: "decode_times (length (dap_stale_nodes p)) (decode_stale (dap_expected_version p) (dap_node_batch p)) c11 None
      = Inr (dap_stale_nodes p, c12, if dap_stale_nodes p = [] then None else Some (last (map sn_key (dap_stale_nodes p))))"
    using r w p(1) by (simp add: stale_loop [OF v(1)] auth_plan_valid_def)
  have batch: "decode_node_batch encoded L = Inr (dap_node_batch p)"
    using enc v(2) by (simp add: decode_node_batch_iff [OF L])
  have cap: "auth_bounded_capacity (length (dap_stale_nodes p)) (cursor_remaining c11) 72
      = Inr (min (length (dap_stale_nodes p)) (cursor_remaining c11 div 72))"
    using auth_bounded_capacity_Ok [of 72 "of_nat (length (dap_stale_nodes p))"] by (simp add: n)
  have eta: "\<lparr>dap_profile = dap_profile p, dap_expected_version = dap_expected_version p, dap_next_version = dap_next_version p,
       dap_semantic_pre_root = dap_semantic_pre_root p, dap_semantic_post_root = dap_semantic_post_root p, dap_patch_hash = dap_patch_hash p,
       dap_authenticated_pre_root = dap_authenticated_pre_root p, dap_authenticated_post_root = dap_authenticated_post_root p,
       dap_node_batch = dap_node_batch p, dap_stale_nodes = dap_stale_nodes p\<rparr> = p" by simp
  have succ: "unat (dap_expected_version p) + 1 \<le> u64_max"
    using p(1) unsigned_less [of "dap_next_version p", where ?'a = nat] by (simp add: auth_plan_valid_def)
  show ?thesis
    using takes batch loop cap e p succ by (simp add: decode_authenticated_plan_def enforce_authenticated_input_limit_Ok [OF L]
        require_complete_Ok require_canonical_Ok Let_def eta n auth_plan_valid_def)
qed

section \<open>Property\<close>

text \<open>C40: the decoders of sparse proofs and of authenticated plans accept exactly the canonical encodings, within the
  limits, of proofs and plans that are well-formed: a profile without zero identities, 256 siblings and an admitted leaf for a
  proof; the successor version, writes in increasing order of their keys with admitted values, and stale nodes in increasing order
  that belong to the expected version and to written keys for a plan.\<close>

theorem authenticated_decoders_accept_exactly:
  assumes "auth_limits_in_range L"
  shows "(decode_sparse_proof bs L = Ok proof \<longleftrightarrow>
      sparse_proof_valid L proof \<and> proof_canonical_bytes proof = Ok bs \<and> length bs \<le> adl_max_input_bytes L)
    \<and> (decode_authenticated_plan bs L = Ok plan \<longleftrightarrow>
      auth_plan_valid L plan \<and> auth_plan_canonical_bytes plan = Ok bs \<and> length bs \<le> adl_max_input_bytes L)"
  using decode_sparse_proof_iff [OF assms] decode_plan_sound [OF assms] decode_plan_complete [OF assms] by blast

definition sample_auth_profile :: AuthenticatedProfile where
  "sample_auth_profile = \<lparr>apr_tree_id = 1, apr_profile_hash = 2, apr_projector_hash = 3\<rparr>"

definition sample_auth_plan :: DecodedAuthenticatedPlan where
  "sample_auth_plan = \<lparr>dap_profile = sample_auth_profile, dap_expected_version = 4, dap_next_version = 5,
     dap_semantic_pre_root = 6, dap_semantic_post_root = 7, dap_patch_hash = 8, dap_authenticated_pre_root = 9,
     dap_authenticated_post_root = 10, dap_node_batch = [LW_Delete 11, LW_Delete 12],
     dap_stale_nodes = [\<lparr>sn_stale_since_version = 4, sn_key = 12, sn_old_leaf_hash = 13\<rparr>]\<rparr>"

definition sample_absence :: SparseProof where
  "sample_absence = \<lparr>sp_profile = sample_auth_profile, sp_version = 4, sp_root = 9, sp_key = 12, sp_leaf = PF_Absence,
     sp_siblings = replicate TREE_DEPTH 0\<rparr>"

theorem authenticated_decoders_accept_exactly_witness:
  "decode_sparse_proof (proof_bytes sample_absence) default_authenticated_decode_limits = Ok sample_absence
    \<and> decode_authenticated_plan (auth_plan_bytes sample_auth_plan (batch_bytes (dap_node_batch sample_auth_plan)))
        default_authenticated_decode_limits = Ok sample_auth_plan"
proof -
  let ?L = default_authenticated_decode_limits and ?batch = "batch_bytes (dap_node_batch sample_auth_plan)"
  have L: "auth_limits_in_range ?L"
    using default_limits_in_range by (simp add: auth_limits_in_range_def default_authenticated_decode_limits_def)
  have small: "adl_max_input_bytes ?L = 4194304" "adl_max_writes ?L = 4096" "adl_max_stale_nodes ?L = 4096"
    by (simp_all add: default_authenticated_decode_limits_def MAX_REFERENCE_LEAVES_def)
  have profile: "profile_valid sample_auth_profile" "length (auth_profile_bytes sample_auth_profile) = 96"
    by (simp_all add: profile_valid_def auth_profile_bytes_def sample_auth_profile_def)
  have siblings: "length (concat (map (be_bytes 32) (replicate n (0 :: hash32)))) = n * 32" for n
    by (induction n) simp_all
  have "length (proof_bytes sample_absence) \<le> 4194304"
    using siblings [of TREE_DEPTH]
    by (simp add: proof_bytes_def sample_absence_def proof_leaf_bytes_def profile(2) TREE_DEPTH_def del: map_replicate)
  moreover have "proof_canonical_bytes sample_absence = Ok (proof_bytes sample_absence)"
    by (subst proof_canonical_bytes_Ok) (simp_all add: sample_absence_def TREE_DEPTH_def)
  moreover have "sparse_proof_valid ?L sample_absence"
    by (simp add: sparse_proof_valid_def sample_absence_def profile proof_leaf_admitted_def)
  moreover have batch: "batch_canonical_bytes (dap_node_batch sample_auth_plan) = Ok ?batch"
    by (subst batch_canonical_bytes_Ok) (simp_all add: sample_auth_plan_def write_short_def)
  have len: "length ?batch = 70" by (simp add: batch_bytes_def sample_auth_plan_def write_bytes_def)
  have "auth_plan_canonical_bytes sample_auth_plan = Ok (auth_plan_bytes sample_auth_plan ?batch)"
    by (subst auth_plan_canonical_bytes_Ok, intro exI [of _ ?batch]) (simp add: batch len, simp add: sample_auth_plan_def)
  moreover have "length (auth_plan_bytes sample_auth_plan ?batch) \<le> 4194304"
    using len by (simp add: auth_plan_bytes_def blob_bytes_def profile(2) stale_bytes_def sample_auth_plan_def)
  moreover have "auth_plan_valid ?L sample_auth_plan"
    by (simp add: auth_plan_valid_def sample_auth_plan_def profile node_batch_valid_def write_admitted_def stale_fits_def small)
  ultimately show ?thesis
    using authenticated_decoders_accept_exactly [OF L, of "proof_bytes sample_absence" sample_absence]
      authenticated_decoders_accept_exactly [OF L, of "auth_plan_bytes sample_auth_plan ?batch" _ sample_auth_plan]
    by (simp add: small)
qed

end
