(* ===== verification/Zeno_Core.thy ===== *)
theory Zeno_Core
  imports Zeno_Prelude
begin

text \<open>
  \<^verbatim>\<open>zeno-fcis-core\<close>: the three-way decision algebra, the selection of one stable reason by
  its explicit precedence, and the resource identities of the logical-work profile.
  A type that implements \<^verbatim>\<open>StableReason\<close> enters as its two methods \<open>code\<close> and
  \<open>precedence\<close>; the rest of the source is translated operation by operation.
\<close>

section \<open>Decisions\<close>

datatype DecisionKind = Accept | Reject | CommittedFailure

datatype ('a, 'r, 'f) Decision =
    DAccept (accepted_candidate: 'a)
  | DReject (rejected_reason: 'r)
  | DCommittedFailure (failed_candidate: 'a) (failed_reason: 'f)

fun decision_kind :: "('a, 'r, 'f) Decision \<Rightarrow> DecisionKind" where
  "decision_kind (DAccept _) = Accept"
| "decision_kind (DReject _) = Reject"
| "decision_kind (DCommittedFailure _ _) = CommittedFailure"

fun map_candidate :: "('a \<Rightarrow> 'b) \<Rightarrow> ('a, 'r, 'f) Decision \<Rightarrow> ('b, 'r, 'f) Decision" where
  "map_candidate f (DAccept c) = DAccept (f c)"
| "map_candidate f (DReject r) = DReject r"
| "map_candidate f (DCommittedFailure c r) = DCommittedFailure (f c) r"

section \<open>Stable reasons\<close>

fun ordering_then :: "ordering \<Rightarrow> ordering \<Rightarrow> ordering" where
  "ordering_then Equal o2 = o2"
| "ordering_then o1 o2 = o1"

definition compare_reasons :: "('r \<Rightarrow> bytes) \<Rightarrow> ('r \<Rightarrow> u16) \<Rightarrow> 'r \<Rightarrow> 'r \<Rightarrow> ordering" where
  "compare_reasons code precedence left right =
     ordering_then (cmp (precedence left) (precedence right)) (cmp (code left) (code right))"

text \<open>\<^verbatim>\<open>Iterator::min_by\<close>: a fold that keeps the earlier element unless it is greater.\<close>

fun min_by :: "('r \<Rightarrow> 'r \<Rightarrow> ordering) \<Rightarrow> 'r list \<Rightarrow> 'r option" where
  "min_by compare [] = None"
| "min_by compare (x # xs) =
     Some (foldl (\<lambda>best y. if compare best y = Greater then y else best) x xs)"

definition first_reason :: "('r \<Rightarrow> bytes) \<Rightarrow> ('r \<Rightarrow> u16) \<Rightarrow> 'r list \<Rightarrow> 'r option" where
  "first_reason code precedence reasons = min_by (compare_reasons code precedence) reasons"

definition collect_and_choose ::
    "('r \<Rightarrow> bytes) \<Rightarrow> ('r \<Rightarrow> u16) \<Rightarrow> 'r list \<Rightarrow> 'r list \<times> 'r option" where
  "collect_and_choose code precedence reasons = (reasons, first_reason code precedence reasons)"

section \<open>Resources\<close>

datatype Resource = Read | Write | Candidate | Effect_res | Byte | WitnessByte | Depth | Step

abbreviation resource_count :: nat where
  "resource_count \<equiv> 8"

fun resource_index :: "Resource \<Rightarrow> nat" where
  "resource_index Read = 0"
| "resource_index Write = 1"
| "resource_index Candidate = 2"
| "resource_index Effect_res = 3"
| "resource_index Byte = 4"
| "resource_index WitnessByte = 5"
| "resource_index Depth = 6"
| "resource_index Step = 7"

section \<open>Properties\<close>

lemma decision_kind_map_candidate [simp]: "decision_kind (map_candidate f d) = decision_kind d"
  by (cases d) simp_all

lemma map_candidate_comp: "map_candidate g (map_candidate f d) = map_candidate (g \<circ> f) d"
  by (cases d) simp_all

lemma compare_reasons_eq:
  "compare_reasons code precedence l r = cmp (precedence l, code l) (precedence r, code r)"
  by (auto simp: compare_reasons_def cmp_def less_prod_def)

lemma min_by_foldl:
  fixes key :: "'r \<Rightarrow> 'k::linorder"
  defines "pick \<equiv> \<lambda>best y. if cmp (key best) (key y) = Greater then y else best"
  shows "foldl pick x xs \<in> set (x # xs) \<and> (\<forall>y\<in>set (x # xs). key (foldl pick x xs) \<le> key y)"
proof (induction xs arbitrary: x)
  case Nil
  then show ?case by simp
next
  case (Cons y ys)
  have "pick x y = x \<or> pick x y = y" "key (pick x y) \<le> key x" "key (pick x y) \<le> key y"
    by (auto simp: pick_def)
  with Cons [of "pick x y"] show ?case by (auto intro: order_trans)
qed

lemma first_reason_iff_min:
  "first_reason code precedence rs = Some r \<Longrightarrow>
     r \<in> set rs \<and> (\<forall>y\<in>set rs. (precedence r, code r) \<le> (precedence y, code y))"
  using min_by_foldl [of "\<lambda>r. (precedence r, code r)"]
  by (cases rs) (auto simp: first_reason_def compare_reasons_eq simp del: cmp_eq foldl_Cons)

lemma first_reason_None_iff: "first_reason code precedence rs = None \<longleftrightarrow> rs = []"
  by (cases rs) (simp_all add: first_reason_def)

lemma resource_index_inj: "resource_index a = resource_index b \<longleftrightarrow> a = b"
  by (cases a; cases b) simp_all

lemma resource_index_bij: "bij_betw resource_index UNIV {..<resource_count}"
proof (rule bij_betwI')
  show "resource_index a = resource_index b \<longleftrightarrow> a = b" for a b by (rule resource_index_inj)
  show "resource_index a \<in> {..<resource_count}" for a by (cases a) simp_all
  show "\<exists>a\<in>UNIV. n = resource_index a" if "n \<in> {..<resource_count}" for n
  proof -
    from that have "n \<in> {0, 1, 2, 3, 4, 5, 6, 7}" by auto
    then show ?thesis
      by (metis UNIV_I empty_iff insert_iff resource_index.simps)
  qed
qed

text \<open>\<^verbatim>\<open>first_reason\<close> returns a reason exactly when there is one, and it returns one of the
  offered reasons whose precedence, then code bytes, are least among all offered; the order
  in which reasons are offered cannot make a less urgent reason win.\<close>

theorem first_reason_selects_least:
  "case first_reason code precedence reasons of
     None \<Rightarrow> reasons = []
   | Some r \<Rightarrow> r \<in> set reasons \<and>
       (\<forall>y\<in>set reasons. (precedence r, code r) \<le> (precedence y, code y))"
  using first_reason_iff_min [of code precedence reasons] first_reason_None_iff [of code precedence reasons]
  by (simp split: option.split)

theorem first_reason_selects_least_witness:
  "first_reason (\<lambda>r. [fst r]) snd [(7 :: u8, 2 :: u16), (3, 1), (9, 1)] = Some (3, 1) \<and>
   (1 :: u16, [3 :: u8]) \<le> (2, [7]) \<and> (1 :: u16, [3 :: u8]) \<le> (1, [9])"
  using first_reason_selects_least [where code = "\<lambda>r. [fst r]" and precedence = snd
      and reasons = "[(7 :: u8, 2 :: u16), (3, 1), (9, 1)]"]
  by (simp add: first_reason_def compare_reasons_def cmp_def)

end
