(* ===== verification/Zeno_Receipt.thy ===== *)
theory Zeno_Receipt
  imports Zeno_Core Zeno_Plan
begin

text \<open>
  \<^verbatim>\<open>zeno-fcis-receipt\<close>: a candidate binds a decision, its patch, its plans and its roots under one
  identity; a commit bundle carries the candidate with everything it names; receipts record it.
  Sealing builds the bundle from its parts and the decoders rebuild it from bytes.

  \<^verbatim>\<open>CandidateId\<close> wraps a hash and is the hash here.  A reason code is the bytes of its ASCII text,
  at most 96 of them.  \<^verbatim>\<open>DecisionKind\<close> is non-exhaustive for other crates; its three variants are
  all there is, so the catch-all branches for further variants have no counterpart.
\<close>

section \<open>Data\<close>

definition MAX_REASON_CODE_BYTES :: nat where
  "MAX_REASON_CODE_BYTES = 96"

type_synonym ReasonCode = bytes

record ReceiptDecodeLimits =
  rl_max_input_bytes :: nat
  rl_max_body_bytes :: nat

definition default_receipt_decode_limits :: ReceiptDecodeLimits where
  "default_receipt_decode_limits = \<lparr>rl_max_input_bytes = 64 * 1024, rl_max_body_bytes = 16 * 1024\<rparr>"

record BundleDecodeLimits =
  bl_max_input_bytes :: nat
  bl_receipt :: ReceiptDecodeLimits
  bl_patch :: PatchDecodeLimits
  bl_commit_plan :: PlanDecodeLimits
  bl_outbox_plan :: PlanDecodeLimits

definition default_bundle_decode_limits :: BundleDecodeLimits where
  "default_bundle_decode_limits = \<lparr>
     bl_max_input_bytes = 128 * 1024 * 1024,
     bl_receipt = default_receipt_decode_limits,
     bl_patch = default_patch_decode_limits,
     bl_commit_plan = default_plan_decode_limits,
     bl_outbox_plan = default_plan_decode_limits\<rparr>"

type_synonym CandidateId = hash32

record CandidateBindings =
  cb_profile_hash :: hash32
  cb_command_hash :: hash32
  cb_context_hash :: hash32
  cb_precedence_hash :: hash32
  cb_algorithm_hash :: hash32
  cb_budget_hash :: hash32

record CandidateBody =
  body_decision_kind :: DecisionKind
  body_reason_code :: "ReasonCode option"
  body_bindings :: CandidateBindings
  body_pre_root :: hash32
  body_post_root :: hash32
  body_patch_hash :: hash32
  body_commit_plan_hash :: hash32
  body_outbox_plan_hash :: hash32

record Receipt =
  rc_candidate_id :: CandidateId
  rc_body :: CandidateBody

record RejectReceipt =
  rr_bindings :: CandidateBindings
  rr_pre_root :: hash32
  rr_reason_code :: ReasonCode

record CommitBundle =
  cbn_candidate_id :: CandidateId
  cbn_body :: CandidateBody
  cbn_patch :: CanonicalPatch
  cbn_commit_plan :: CommitPlan
  cbn_outbox_plan :: OutboxPlan
  cbn_receipt :: Receipt

datatype SealError =
    SE_Encode EncodeError
  | SE_Patch PatchError
  | SE_ReasonCode TextError
  | SE_RejectCannotBeCandidate
  | SE_AcceptHasFailureReason
  | SE_MissingFailureReason
  | SE_BundleMismatch
  | SE_UnsupportedDecisionKind

datatype ReceiptComponent = RC_CandidateBody | RC_Receipt

datatype ReceiptDecodeError =
    RD_InputLimit nat nat
  | RD_ComponentLimit ReceiptComponent nat nat
  | RD_LengthOverflow
  | RD_UnexpectedEnd nat nat
  | RD_UnknownDecisionTag u8
  | RD_InvalidReasonFlag u8
  | RD_InvalidReasonText
  | RD_TrailingBytes nat
  | RD_NonCanonical
  | RD_CandidateMismatch
  | RD_ReceiptMismatch
  | RD_Patch PatchDecodeError
  | RD_Plan PlanDecodeError
  | RD_Seal SealError
  | RD_Encode EncodeError

section \<open>Encoding\<close>

definition receipt_put_blob :: "bytes \<Rightarrow> bytes \<Rightarrow> EncodeError + bytes" where
  "receipt_put_blob output bs =
     rbind (ok_or (try_from u32_max (length bs)) EE_LengthOverflow) (\<lambda>n.
       Ok (output @ be_bytes 4 (of_nat n :: u32) @ bs))"

fun decision_tag :: "DecisionKind \<Rightarrow> u8" where
  "decision_tag Accept = 0"
| "decision_tag Reject = 1"
| "decision_tag CommittedFailure = 2"

definition encode_bindings :: "CandidateBindings \<Rightarrow> bytes \<Rightarrow> bytes" where
  "encode_bindings b output = output
     @ be_bytes 32 (cb_profile_hash b) @ be_bytes 32 (cb_command_hash b)
     @ be_bytes 32 (cb_context_hash b) @ be_bytes 32 (cb_precedence_hash b)
     @ be_bytes 32 (cb_algorithm_hash b) @ be_bytes 32 (cb_budget_hash b)"

definition body_encode_to :: "CandidateBody \<Rightarrow> bytes \<Rightarrow> EncodeError + bytes" where
  "body_encode_to b output =
     (let output = output @ [decision_tag (body_decision_kind b)] in
      rbind (case body_reason_code b of
               None \<Rightarrow> Ok (output @ [0])
             | Some reason \<Rightarrow> receipt_put_blob (output @ [1]) reason) (\<lambda>output.
      let output = encode_bindings (body_bindings b) output in
      Ok (output @ be_bytes 32 (body_pre_root b) @ be_bytes 32 (body_post_root b)
          @ be_bytes 32 (body_patch_hash b) @ be_bytes 32 (body_commit_plan_hash b)
          @ be_bytes 32 (body_outbox_plan_hash b))))"

definition body_canonical_bytes :: "CandidateBody \<Rightarrow> EncodeError + bytes" where
  "body_canonical_bytes b = body_encode_to b []"

definition receipt_encode_to :: "Receipt \<Rightarrow> bytes \<Rightarrow> EncodeError + bytes" where
  "receipt_encode_to r output =
     (let output = output @ be_bytes 32 (rc_candidate_id r) in
      rbind (body_canonical_bytes (rc_body r)) (\<lambda>body. receipt_put_blob output body))"

definition receipt_canonical_bytes :: "Receipt \<Rightarrow> EncodeError + bytes" where
  "receipt_canonical_bytes r = receipt_encode_to r []"

definition reject_receipt_new ::
    "CandidateBindings \<Rightarrow> hash32 \<Rightarrow> bytes \<Rightarrow> SealError + RejectReceipt" where
  "reject_receipt_new bindings pre_root reason =
     rbind (map_err SE_ReasonCode (ascii_text_try_from MAX_REASON_CODE_BYTES reason)) (\<lambda>reason.
       Ok \<lparr>rr_bindings = bindings, rr_pre_root = pre_root, rr_reason_code = reason\<rparr>)"

text \<open>A rejection changes nothing: its root after is its root before.\<close>

definition reject_receipt_post_root :: "RejectReceipt \<Rightarrow> hash32" where
  "reject_receipt_post_root r = rr_pre_root r"

definition reject_receipt_encode_to :: "RejectReceipt \<Rightarrow> bytes \<Rightarrow> EncodeError + bytes" where
  "reject_receipt_encode_to r output =
     receipt_put_blob (encode_bindings (rr_bindings r) output @ be_bytes 32 (rr_pre_root r)) (rr_reason_code r)"

definition reject_receipt_canonical_bytes :: "RejectReceipt \<Rightarrow> EncodeError + bytes" where
  "reject_receipt_canonical_bytes r = reject_receipt_encode_to r []"

definition bundle_encode_to :: "CommitBundle \<Rightarrow> bytes \<Rightarrow> EncodeError + bytes" where
  "bundle_encode_to b output =
     (let output = output @ be_bytes 32 (cbn_candidate_id b) in
      rbind (body_canonical_bytes (cbn_body b)) (\<lambda>x.
      rbind (receipt_put_blob output x) (\<lambda>output.
      rbind (patch_canonical_bytes (cbn_patch b)) (\<lambda>x.
      rbind (receipt_put_blob output x) (\<lambda>output.
      rbind (commit_plan_canonical_bytes (cbn_commit_plan b)) (\<lambda>x.
      rbind (receipt_put_blob output x) (\<lambda>output.
      rbind (outbox_plan_canonical_bytes (cbn_outbox_plan b)) (\<lambda>x.
      rbind (receipt_put_blob output x) (\<lambda>output.
      rbind (receipt_canonical_bytes (cbn_receipt b)) (\<lambda>x.
        receipt_put_blob output x))))))))))"

definition bundle_canonical_bytes :: "CommitBundle \<Rightarrow> EncodeError + bytes" where
  "bundle_canonical_bytes b = bundle_encode_to b []"

section \<open>Sealing and validation\<close>

fun validate_decision_reason :: "DecisionKind \<Rightarrow> bytes option \<Rightarrow> SealError + ReasonCode option" where
  "validate_decision_reason Accept None = Ok None"
| "validate_decision_reason CommittedFailure (Some reason) =
     rbind (map_err SE_ReasonCode (ascii_text_try_from MAX_REASON_CODE_BYTES reason)) (\<lambda>r. Ok (Some r))"
| "validate_decision_reason Reject _ = Err SE_RejectCannotBeCandidate"
| "validate_decision_reason Accept (Some _) = Err SE_AcceptHasFailureReason"
| "validate_decision_reason CommittedFailure None = Err SE_MissingFailureReason"

definition hash_component :: "hasher \<Rightarrow> Domain \<Rightarrow> EncodeError + bytes \<Rightarrow> SealError + hash32" where
  "hash_component H domain encoded =
     rbind (map_err SE_Encode encoded) (\<lambda>bs. map_err SE_Encode (commitment H domain bs))"

definition seal ::
    "hasher \<Rightarrow> Value \<Rightarrow> Domain \<Rightarrow> DecisionKind \<Rightarrow> bytes option \<Rightarrow> CandidateBindings \<Rightarrow>
       CanonicalPatch \<Rightarrow> CommitPlan \<Rightarrow> OutboxPlan \<Rightarrow> SealError + CommitBundle" where
  "seal H pre_state state_domain kind reason bindings p commit_plan outbox_plan =
     rbind (validate_decision_reason kind reason) (\<lambda>reason_code.
     rbind (map_err SE_Patch (patch_apply H p pre_state state_domain)) (\<lambda>applied.
     rbind (hash_component H PATCH (patch_canonical_bytes p)) (\<lambda>patch_hash.
     rbind (hash_component H COMMIT_PLAN (commit_plan_canonical_bytes commit_plan)) (\<lambda>commit_plan_hash.
     rbind (hash_component H OUTBOX_PLAN (outbox_plan_canonical_bytes outbox_plan)) (\<lambda>outbox_plan_hash.
     let body = \<lparr>body_decision_kind = kind, body_reason_code = reason_code, body_bindings = bindings,
         body_pre_root = cp_expected_pre_root p, body_post_root = ap_post_root applied,
         body_patch_hash = patch_hash, body_commit_plan_hash = commit_plan_hash,
         body_outbox_plan_hash = outbox_plan_hash\<rparr> in
     rbind (hash_component H CANDIDATE (body_canonical_bytes body)) (\<lambda>candidate_id.
       Ok \<lparr>cbn_candidate_id = candidate_id, cbn_body = body, cbn_patch = p,
           cbn_commit_plan = commit_plan, cbn_outbox_plan = outbox_plan,
           cbn_receipt = \<lparr>rc_candidate_id = candidate_id, rc_body = body\<rparr>\<rparr>))))))"

definition validate_and_apply :: "hasher \<Rightarrow> CommitBundle \<Rightarrow> Value \<Rightarrow> Domain \<Rightarrow> SealError + AppliedPatch" where
  "validate_and_apply H b pre_state state_domain =
     rbind (seal H pre_state state_domain (body_decision_kind (cbn_body b)) (body_reason_code (cbn_body b))
         (body_bindings (cbn_body b)) (cbn_patch b) (cbn_commit_plan b) (cbn_outbox_plan b)) (\<lambda>rebuilt.
     if rebuilt \<noteq> b then Err SE_BundleMismatch
     else map_err SE_Patch (patch_apply H (cbn_patch b) pre_state state_domain))"

definition bundle_validate :: "hasher \<Rightarrow> CommitBundle \<Rightarrow> Value \<Rightarrow> Domain \<Rightarrow> SealError + unit" where
  "bundle_validate H b pre_state state_domain =
     rbind (validate_and_apply H b pre_state state_domain) (\<lambda>_. Ok ())"

section \<open>Decoding\<close>

definition receipt_take :: "nat \<Rightarrow> cursor \<Rightarrow> ReceiptDecodeError + bytes \<times> cursor" where
  "receipt_take = cursor_take RD_LengthOverflow RD_UnexpectedEnd"

text \<open>\<^verbatim>\<open>self.take(1)?[0]\<close>: the slice has one byte, so the index does not panic.\<close>

definition receipt_take_u8 :: "cursor \<Rightarrow> ReceiptDecodeError + u8 \<times> cursor" where
  "receipt_take_u8 c = rbind (receipt_take 1 c) (\<lambda>(bs, c). Ok (hd bs, c))"

definition receipt_take_u32 :: "cursor \<Rightarrow> ReceiptDecodeError + u32 \<times> cursor" where
  "receipt_take_u32 = cursor_word receipt_take 4"

definition receipt_take_hash32 :: "cursor \<Rightarrow> ReceiptDecodeError + hash32 \<times> cursor" where
  "receipt_take_hash32 = cursor_word receipt_take 32"

definition receipt_take_blob :: "cursor \<Rightarrow> ReceiptDecodeError + bytes \<times> cursor" where
  "receipt_take_blob c =
     rbind (receipt_take_u32 c) (\<lambda>(n, c).
     rbind (ok_or (try_from usize_max (unat n)) RD_LengthOverflow) (\<lambda>n. receipt_take n c))"

definition take_bindings :: "cursor \<Rightarrow> ReceiptDecodeError + CandidateBindings \<times> cursor" where
  "take_bindings c =
     rbind (receipt_take_hash32 c) (\<lambda>(profile, c).
     rbind (receipt_take_hash32 c) (\<lambda>(command, c).
     rbind (receipt_take_hash32 c) (\<lambda>(ctxt, c).
     rbind (receipt_take_hash32 c) (\<lambda>(precedence, c).
     rbind (receipt_take_hash32 c) (\<lambda>(algorithm, c).
     rbind (receipt_take_hash32 c) (\<lambda>(budget, c).
       Ok (\<lparr>cb_profile_hash = profile, cb_command_hash = command, cb_context_hash = ctxt,
            cb_precedence_hash = precedence, cb_algorithm_hash = algorithm, cb_budget_hash = budget\<rparr>, c)))))))"

definition receipt_enforce_input_limit :: "bytes \<Rightarrow> nat \<Rightarrow> ReceiptDecodeError + unit" where
  "receipt_enforce_input_limit bs limit =
     rbind (ok_or (try_from u64_max (length bs)) RD_LengthOverflow) (\<lambda>actual.
       if actual > limit then Err (RD_InputLimit limit actual) else Ok ())"

definition enforce_component_limit :: "ReceiptComponent \<Rightarrow> bytes \<Rightarrow> nat \<Rightarrow> ReceiptDecodeError + unit" where
  "enforce_component_limit component bs limit =
     rbind (ok_or (try_from u64_max (length bs)) RD_LengthOverflow) (\<lambda>actual.
       if actual > limit then Err (RD_ComponentLimit component limit actual) else Ok ())"

definition ensure_consumed :: "cursor \<Rightarrow> ReceiptDecodeError + unit" where
  "ensure_consumed c = (if cursor_remaining c \<noteq> 0 then Err (RD_TrailingBytes (cur_offset c)) else Ok ())"

definition ensure_canonical :: "bytes \<Rightarrow> EncodeError + bytes \<Rightarrow> ReceiptDecodeError + unit" where
  "ensure_canonical bs encoded =
     rbind (map_err RD_Encode encoded) (\<lambda>encoded.
       if encoded \<noteq> bs then Err RD_NonCanonical else Ok ())"

definition decode_decision :: "u8 \<Rightarrow> ReceiptDecodeError + DecisionKind" where
  "decode_decision tag =
     (if tag = 0 then Ok Accept else if tag = 1 then Ok Reject
      else if tag = 2 then Ok CommittedFailure else Err (RD_UnknownDecisionTag tag))"

definition decode_reason :: "bytes \<Rightarrow> ReceiptDecodeError + bytes" where
  "decode_reason bs =
     (if \<not> utf8_valid bs then Err RD_InvalidReasonText
      else if \<not> is_ascii bs then Err RD_InvalidReasonText else Ok bs)"

definition take_reason :: "cursor \<Rightarrow> ReceiptDecodeError + bytes option \<times> cursor" where
  "take_reason c =
     rbind (receipt_take_u8 c) (\<lambda>(flag, c).
       if flag = 0 then Ok (None, c)
       else if flag = 1 then
         rbind (receipt_take_blob c) (\<lambda>(b, c).
         rbind (decode_reason b) (\<lambda>reason. Ok (Some reason, c)))
       else Err (RD_InvalidReasonFlag flag))"

definition decode_candidate_body :: "bytes \<Rightarrow> ReceiptDecodeError + CandidateBody" where
  "decode_candidate_body bs =
     rbind (receipt_take_u8 (cursor_new bs)) (\<lambda>(tag, c).
     rbind (decode_decision tag) (\<lambda>kind.
     rbind (take_reason c) (\<lambda>(reason, c).
     rbind (take_bindings c) (\<lambda>(bindings, c).
     rbind (map_err RD_Seal (validate_decision_reason kind reason)) (\<lambda>reason_code.
     rbind (receipt_take_hash32 c) (\<lambda>(pre_root, c).
     rbind (receipt_take_hash32 c) (\<lambda>(post_root, c).
     rbind (receipt_take_hash32 c) (\<lambda>(patch_hash, c).
     rbind (receipt_take_hash32 c) (\<lambda>(commit_plan_hash, c).
     rbind (receipt_take_hash32 c) (\<lambda>(outbox_plan_hash, c).
     let body = \<lparr>body_decision_kind = kind, body_reason_code = reason_code, body_bindings = bindings,
         body_pre_root = pre_root, body_post_root = post_root, body_patch_hash = patch_hash,
         body_commit_plan_hash = commit_plan_hash, body_outbox_plan_hash = outbox_plan_hash\<rparr> in
     rbind (ensure_consumed c) (\<lambda>_.
     rbind (ensure_canonical bs (body_canonical_bytes body)) (\<lambda>_. Ok body))))))))))))"

definition decode_receipt :: "hasher \<Rightarrow> bytes \<Rightarrow> ReceiptDecodeLimits \<Rightarrow> ReceiptDecodeError + Receipt" where
  "decode_receipt H bs limits =
     rbind (receipt_enforce_input_limit bs (rl_max_input_bytes limits)) (\<lambda>_.
     rbind (receipt_take_hash32 (cursor_new bs)) (\<lambda>(candidate_id, c).
     rbind (receipt_take_blob c) (\<lambda>(encoded_body, c).
     rbind (enforce_component_limit RC_CandidateBody encoded_body (rl_max_body_bytes limits)) (\<lambda>_.
     rbind (ensure_consumed c) (\<lambda>_.
     rbind (decode_candidate_body encoded_body) (\<lambda>body.
     rbind (map_err RD_Seal (hash_component H CANDIDATE (body_canonical_bytes body))) (\<lambda>expected.
     if candidate_id \<noteq> expected then Err RD_CandidateMismatch
     else
     let receipt = \<lparr>rc_candidate_id = candidate_id, rc_body = body\<rparr> in
     rbind (ensure_canonical bs (receipt_canonical_bytes receipt)) (\<lambda>_. Ok receipt))))))))"

definition decode_reject_receipt :: "bytes \<Rightarrow> ReceiptDecodeLimits \<Rightarrow> ReceiptDecodeError + RejectReceipt" where
  "decode_reject_receipt bs limits =
     rbind (receipt_enforce_input_limit bs (rl_max_input_bytes limits)) (\<lambda>_.
     rbind (take_bindings (cursor_new bs)) (\<lambda>(bindings, c).
     rbind (receipt_take_hash32 c) (\<lambda>(pre_root, c).
     rbind (receipt_take_blob c) (\<lambda>(b, c).
     rbind (decode_reason b) (\<lambda>reason.
     rbind (ensure_consumed c) (\<lambda>_.
     rbind (map_err RD_Seal (reject_receipt_new bindings pre_root reason)) (\<lambda>receipt.
     rbind (ensure_canonical bs (reject_receipt_canonical_bytes receipt)) (\<lambda>_. Ok receipt))))))))"

definition decode_commit_bundle ::
    "hasher \<Rightarrow> bytes \<Rightarrow> Value \<Rightarrow> Domain \<Rightarrow> BundleDecodeLimits \<Rightarrow> ReceiptDecodeError + CommitBundle" where
  "decode_commit_bundle H bs pre_state state_domain limits =
     rbind (receipt_enforce_input_limit bs (bl_max_input_bytes limits)) (\<lambda>_.
     rbind (receipt_take_hash32 (cursor_new bs)) (\<lambda>(candidate_id, c).
     rbind (receipt_take_blob c) (\<lambda>(encoded_body, c).
     rbind (enforce_component_limit RC_CandidateBody encoded_body (rl_max_body_bytes (bl_receipt limits))) (\<lambda>_.
     rbind (receipt_take_blob c) (\<lambda>(encoded_patch, c).
     rbind (receipt_take_blob c) (\<lambda>(encoded_commit_plan, c).
     rbind (receipt_take_blob c) (\<lambda>(encoded_outbox_plan, c).
     rbind (receipt_take_blob c) (\<lambda>(encoded_receipt, c).
     rbind (enforce_component_limit RC_Receipt encoded_receipt (rl_max_input_bytes (bl_receipt limits))) (\<lambda>_.
     rbind (ensure_consumed c) (\<lambda>_.
     rbind (decode_candidate_body encoded_body) (\<lambda>body.
     rbind (map_err RD_Patch (decode_canonical_patch encoded_patch (bl_patch limits))) (\<lambda>p.
     rbind (map_err RD_Plan (decode_commit_plan encoded_commit_plan (bl_commit_plan limits))) (\<lambda>commit_plan.
     rbind (map_err RD_Plan (decode_outbox_plan encoded_outbox_plan (bl_outbox_plan limits))) (\<lambda>outbox_plan.
     rbind (decode_receipt H encoded_receipt (bl_receipt limits)) (\<lambda>receipt.
     rbind (map_err RD_Seal (seal H pre_state state_domain (body_decision_kind body) (body_reason_code body)
         (body_bindings body) p commit_plan outbox_plan)) (\<lambda>rebuilt.
     if cbn_candidate_id rebuilt \<noteq> candidate_id \<or> cbn_body rebuilt \<noteq> body then Err RD_CandidateMismatch
     else if cbn_receipt rebuilt \<noteq> receipt then Err RD_ReceiptMismatch
     else
     rbind (ensure_canonical bs (bundle_canonical_bytes rebuilt)) (\<lambda>_. Ok rebuilt)))))))))))))))))"

end
