(* ===== verification/Zeno_Shell.thy ===== *)
theory Zeno_Shell
  imports Zeno_Receipt
begin

text \<open>
  \<^verbatim>\<open>zeno-fcis-shell\<close>: the reference semantics of an atomic commit under an expected root, of
  idempotent replay and of the outbox, and the in-memory destination of deliveries.

  The tables are boxed slices kept in key order and searched by bisection, as in the source.  Hashes
  compare as byte arrays there, which is the order of the 256-bit words here.  The destination's
  \<^verbatim>\<open>BTreeMap\<close> is a map.
\<close>

section \<open>Shell state\<close>

record ReplayRecord =
  rp_replay_id :: hash32
  rp_candidate_id :: CandidateId

record OutboxRecord =
  or_candidate_id :: CandidateId
  or_ordinal :: u32
  or_delivery_id :: hash32
  or_entry_hash :: hash32
  or_entry :: OutboxEntry
  or_acknowledged :: bool

record ShellState =
  sh_state :: Value
  sh_root :: hash32
  sh_replay :: "ReplayRecord list"
  sh_receipts :: "(CandidateId \<times> Receipt) list"
  sh_bundles :: "(CandidateId \<times> CommitBundle) list"
  sh_outbox :: "OutboxRecord list"

datatype CommitStatus = Committed | IdempotentReplay

record CommitResult =
  cr_state :: ShellState
  cr_status :: CommitStatus

datatype ShellError =
    SHE_State PatchError
  | SHE_Bundle SealError
  | SHE_Encode EncodeError
  | SHE_RootConflict hash32 hash32
  | SHE_ReplayConflict hash32 CandidateId CandidateId
  | SHE_CandidateAlreadyCommitted
  | SHE_IdempotentBundleMismatch
  | SHE_DuplicateOutboxRecord
  | SHE_CorruptReferenceState
  | SHE_UnknownDelivery hash32
  | SHE_AcknowledgementMismatch hash32 hash32 hash32

definition shell_new :: "hasher \<Rightarrow> Value \<Rightarrow> Domain \<Rightarrow> ShellError + ShellState" where
  "shell_new H state state_domain =
     rbind (map_err SHE_State (hash_value H state_domain state)) (\<lambda>root.
       Ok \<lparr>sh_state = state, sh_root = root, sh_replay = [], sh_receipts = [], sh_bundles = [],
           sh_outbox = []\<rparr>)"

definition next_pending :: "ShellState \<Rightarrow> OutboxRecord option" where
  "next_pending shell = find (\<lambda>r. \<not> or_acknowledged r) (sh_outbox shell)"

section \<open>Commit\<close>

definition hash_outbox_entry :: "hasher \<Rightarrow> OutboxEntry \<Rightarrow> ShellError + hash32" where
  "hash_outbox_entry H e =
     rbind (map_err SHE_Encode (outbox_entry_canonical_bytes e)) (\<lambda>bs.
       map_err SHE_Encode (commitment H OUTBOX_ENTRY bs))"

definition outbox_key :: "OutboxRecord \<Rightarrow> CandidateId \<times> u32" where
  "outbox_key r = (or_candidate_id r, or_ordinal r)"

definition insert_outbox_entry ::
    "hasher \<Rightarrow> CandidateId \<Rightarrow> OutboxEntry \<Rightarrow> OutboxRecord list \<Rightarrow> ShellError + OutboxRecord list" where
  "insert_outbox_entry H candidate_id e outbox =
     rbind (map_err SHE_Encode (delivery_id H e candidate_id)) (\<lambda>delivery.
     rbind (hash_outbox_entry H e) (\<lambda>entry_hash.
     let new = \<lparr>or_candidate_id = candidate_id, or_ordinal = ob_ordinal e, or_delivery_id = delivery,
         or_entry_hash = entry_hash, or_entry = e, or_acknowledged = False\<rparr> in
     case binary_search_by_key outbox_key (outbox_key new) outbox of
       Inr _ \<Rightarrow> Err SHE_DuplicateOutboxRecord
     | Inl index \<Rightarrow> Ok (vec_insert index new outbox)))"

definition apply_reference_bundle ::
    "hasher \<Rightarrow> ShellState \<Rightarrow> Domain \<Rightarrow> hash32 \<Rightarrow> CommitBundle \<Rightarrow> ShellError + CommitResult" where
  "apply_reference_bundle H shell state_domain replay_id bundle =
     (case binary_search_by_key rp_replay_id replay_id (sh_replay shell) of
       Inr index \<Rightarrow>
         (let existing = sh_replay shell ! index in
          if rp_candidate_id existing \<noteq> cbn_candidate_id bundle
          then Err (SHE_ReplayConflict replay_id (rp_candidate_id existing) (cbn_candidate_id bundle))
          else
          (case binary_search_by_key fst (rp_candidate_id existing) (sh_bundles shell) of
            Inl _ \<Rightarrow> Err SHE_CorruptReferenceState
          | Inr bundle_index \<Rightarrow>
              if snd (sh_bundles shell ! bundle_index) \<noteq> bundle then Err SHE_IdempotentBundleMismatch
              else Ok \<lparr>cr_state = shell, cr_status = IdempotentReplay\<rparr>))
     | Inl _ \<Rightarrow>
         if sh_root shell \<noteq> body_pre_root (cbn_body bundle)
         then Err (SHE_RootConflict (body_pre_root (cbn_body bundle)) (sh_root shell))
         else
         rbind (map_err SHE_Bundle (validate_and_apply H bundle (sh_state shell) state_domain)) (\<lambda>applied.
         case binary_search_by_key fst (cbn_candidate_id bundle) (sh_bundles shell) of
           Inr _ \<Rightarrow> Err SHE_CandidateAlreadyCommitted
         | Inl bundle_index \<Rightarrow>
         (case binary_search_by_key fst (cbn_candidate_id bundle) (sh_receipts shell) of
           Inr _ \<Rightarrow> Err SHE_CandidateAlreadyCommitted
         | Inl receipt_index \<Rightarrow>
         (case binary_search_by_key rp_replay_id replay_id (sh_replay shell) of
           Inr _ \<Rightarrow> Err SHE_CorruptReferenceState
         | Inl replay_index \<Rightarrow>
         rbind (fold_res (insert_outbox_entry H (cbn_candidate_id bundle))
             (plan_entries (cbn_outbox_plan bundle)) (sh_outbox shell)) (\<lambda>outbox.
         Ok \<lparr>cr_state = \<lparr>sh_state = ap_state applied, sh_root = ap_post_root applied,
               sh_replay = vec_insert replay_index
                 \<lparr>rp_replay_id = replay_id, rp_candidate_id = cbn_candidate_id bundle\<rparr> (sh_replay shell),
               sh_receipts = vec_insert receipt_index (cbn_candidate_id bundle, cbn_receipt bundle) (sh_receipts shell),
               sh_bundles = vec_insert bundle_index (cbn_candidate_id bundle, bundle) (sh_bundles shell),
               sh_outbox = outbox\<rparr>,
             cr_status = Committed\<rparr>)))))"

section \<open>Acknowledgement\<close>

text \<open>\<^verbatim>\<open>iter().position\<close>: the index of the first element that satisfies the predicate.\<close>

fun position :: "('a \<Rightarrow> bool) \<Rightarrow> 'a list \<Rightarrow> nat option" where
  "position P [] = None"
| "position P (x # xs) = (if P x then Some 0 else map_option Suc (position P xs))"

lemma position_Some:
  "position P xs = Some i \<longleftrightarrow> i < length xs \<and> P (xs ! i) \<and> (\<forall>j<i. \<not> P (xs ! j))"
proof (induction xs arbitrary: i)
  case (Cons x xs)
  then show ?case by (cases i) (auto simp: less_Suc_eq_0_disj)
qed simp

lemma position_None: "position P xs = None \<longleftrightarrow> (\<forall>x\<in>set xs. \<not> P x)"
  by (induction xs) auto

definition acknowledge :: "ShellState \<Rightarrow> hash32 \<Rightarrow> hash32 \<Rightarrow> ShellError + ShellState" where
  "acknowledge shell delivery observed_entry_hash =
     (case position (\<lambda>r. or_delivery_id r = delivery) (sh_outbox shell) of
       None \<Rightarrow> Err (SHE_UnknownDelivery delivery)
     | Some index \<Rightarrow>
         (let current = sh_outbox shell ! index in
          if or_entry_hash current \<noteq> observed_entry_hash
          then Err (SHE_AcknowledgementMismatch delivery (or_entry_hash current) observed_entry_hash)
          else if or_acknowledged current then Ok shell
          else Ok (shell\<lparr>sh_outbox := (sh_outbox shell)[index := current\<lparr>or_acknowledged := True\<rparr>]\<rparr>)))"

section \<open>The in-memory destination\<close>

record MemoryDestination =
  md_delivered :: "hash32 \<rightharpoonup> hash32"

datatype DeliveryCollision = DeliveryCollision

definition memory_destination_new :: MemoryDestination where
  "memory_destination_new = \<lparr>md_delivered = Map.empty\<rparr>"

text \<open>The identity of the interpreter hashes the provider's name and the interpreter's own source text,
  each behind its 64-bit length.  The source text is compiled in, and is a parameter.\<close>

definition interpreter_identity :: "'s engine \<Rightarrow> bytes \<Rightarrow> EncodeError + hash32" where
  "interpreter_identity sha source =
     (let provider = ascii_bytes (algorithm_id (RustCryptoSha256 sha)) in
      rbind (ok_or (try_from u64_max (length provider)) EE_LengthOverflow) (\<lambda>n.
      rbind (ok_or (try_from u64_max (length source)) EE_LengthOverflow) (\<lambda>m.
        commitment (RustCryptoSha256 sha) DELIVERY_INTERPRETER
          (be_bytes 8 (of_nat n :: u64) @ provider @ be_bytes 8 (of_nat m :: u64) @ source))))"

definition delivered_count :: "MemoryDestination \<Rightarrow> nat" where
  "delivered_count d = card (dom (md_delivered d))"

definition deliver ::
    "MemoryDestination \<Rightarrow> hash32 \<Rightarrow> hash32 \<Rightarrow> OutboxEntry \<Rightarrow> DeliveryCollision + hash32 \<times> MemoryDestination" where
  "deliver d delivery entry_hash entry =
     (case md_delivered d delivery of
       Some existing \<Rightarrow> if existing \<noteq> entry_hash then Err DeliveryCollision else Ok (existing, d)
     | None \<Rightarrow> Ok (entry_hash, \<lparr>md_delivered = (md_delivered d)(delivery \<mapsto> entry_hash)\<rparr>))"

end
