(* ===== verification/Zeno_Effects.thy ===== *)
theory Zeno_Effects
  imports Zeno_Shell
begin

text \<open>
  \<^verbatim>\<open>zeno-fcis-shell/src/effects\<close>: the registry of effect ports as contract data, and the requests and
  responses that travel through the ports.

  The registry is the constant of the source with its ten signatures and nine laws; \<open>check\<close> and
  \<open>conforms\<close> are its two checkers.  Static strings are strings, compared and encoded as their bytes.
  Integers of a port value are words of their width; \<^verbatim>\<open>usize\<close> of a commit cap has 64 bits.
  Text that the build compiles in (\<^verbatim>\<open>include_bytes!\<close>) is a parameter: the content of a named file.
\<close>

section \<open>The registry (registry.rs)\<close>

definition EFFECTS_SCHEMA :: string where
  "EFFECTS_SCHEMA = ''zeno-fcis/shell-effects/1''"

definition REGISTRY_MAX_BYTES :: u64 where
  "REGISTRY_MAX_BYTES = 2 ^ 20"

definition REGISTRY_MAX_ITEMS :: u64 where
  "REGISTRY_MAX_ITEMS = 2 ^ 20"

definition REGISTRY_MAX_DEPTH :: nat where
  "REGISTRY_MAX_DEPTH = 8"

datatype Port =
    P_ReadState | P_Commit | P_ReadHistory | P_ReadOutbox | P_Send | P_Acknowledge | P_Reopen
  | P_Clock | P_Random | P_Wait

definition port_tag :: "Port \<Rightarrow> u8" where
  "port_tag p = (case p of P_ReadState \<Rightarrow> 1 | P_Commit \<Rightarrow> 2 | P_ReadHistory \<Rightarrow> 3 | P_ReadOutbox \<Rightarrow> 4
     | P_Send \<Rightarrow> 5 | P_Acknowledge \<Rightarrow> 6 | P_Reopen \<Rightarrow> 7 | P_Clock \<Rightarrow> 8 | P_Random \<Rightarrow> 9 | P_Wait \<Rightarrow> 10)"

definition Port_ALL :: "Port list" where
  "Port_ALL = [P_ReadState, P_Commit, P_ReadHistory, P_ReadOutbox, P_Send, P_Acknowledge, P_Reopen,
     P_Clock, P_Random, P_Wait]"

text \<open>A schema node.  A \<^verbatim>\<open>Field\<close> is a name with its node.\<close>

datatype Kind =
    K_Unit
  | K_Store
  | K_Hash
  | K_Bytes u64
  | K_Int u64 u64
  | K_Record "(string \<times> Kind) list"
  | K_Choice "(string \<times> Kind) list"
  | K_List Kind u64

datatype Answer = A_Outcome Kind | A_Transport Kind | A_Fallible Kind | A_Wait Kind

fun answer_payload :: "Answer \<Rightarrow> Kind" where
  "answer_payload (A_Outcome kind) = kind"
| "answer_payload (A_Transport kind) = kind"
| "answer_payload (A_Fallible kind) = kind"
| "answer_payload (A_Wait kind) = kind"

type_synonym Resources = u8

definition RES_NONE :: Resources where "RES_NONE = 0"
definition RES_DURABLE :: Resources where "RES_DURABLE = 1"
definition RES_VOLATILE :: Resources where "RES_VOLATILE = 2"
definition RES_TRANSPORT :: Resources where "RES_TRANSPORT = 4"
definition RES_CLOCK :: Resources where "RES_CLOCK = 8"
definition RES_JITTER :: Resources where "RES_JITTER = 16"
definition RES_KNOWN :: Resources where "RES_KNOWN = 31"

definition resources_and :: "Resources \<Rightarrow> Resources \<Rightarrow> Resources" where
  "resources_and a b = a OR b"

definition resources_within :: "Resources \<Rightarrow> Resources \<Rightarrow> bool" where
  "resources_within a b \<longleftrightarrow> a AND NOT b = 0"

record Footprint =
  fp_reads :: Resources
  fp_writes :: Resources

datatype Capability =
    Cap_ReadStore | Cap_WriteStore | Cap_Relay | Cap_OpenStore | Cap_Transport | Cap_Clock | Cap_Jitter

definition capability_code :: "Capability \<Rightarrow> u8" where
  "capability_code c = (case c of Cap_ReadStore \<Rightarrow> 0 | Cap_WriteStore \<Rightarrow> 1 | Cap_Relay \<Rightarrow> 2 | Cap_OpenStore \<Rightarrow> 3
     | Cap_Transport \<Rightarrow> 4 | Cap_Clock \<Rightarrow> 5 | Cap_Jitter \<Rightarrow> 6)"

definition capability_allows :: "Capability \<Rightarrow> Footprint" where
  "capability_allows c =
     (let store = resources_and RES_DURABLE RES_VOLATILE in
      case c of
        Cap_ReadStore \<Rightarrow> \<lparr>fp_reads = store, fp_writes = RES_VOLATILE\<rparr>
      | Cap_WriteStore \<Rightarrow> \<lparr>fp_reads = store, fp_writes = store\<rparr>
      | Cap_Relay \<Rightarrow> \<lparr>fp_reads = store, fp_writes = store\<rparr>
      | Cap_OpenStore \<Rightarrow> \<lparr>fp_reads = RES_DURABLE, fp_writes = RES_VOLATILE\<rparr>
      | Cap_Transport \<Rightarrow> \<lparr>fp_reads = RES_TRANSPORT, fp_writes = RES_TRANSPORT\<rparr>
      | Cap_Clock \<Rightarrow> \<lparr>fp_reads = RES_CLOCK, fp_writes = RES_NONE\<rparr>
      | Cap_Jitter \<Rightarrow> \<lparr>fp_reads = RES_JITTER, fp_writes = RES_JITTER\<rparr>)"

datatype V2 = V2_Api "string list" | V2_External string | V2_OptIn

record Signature =
  sg_port :: Port
  sg_arguments :: Kind
  sg_answer :: Answer
  sg_capability :: Capability
  sg_footprint :: Footprint
  sg_laws :: "u16 list"
  sg_v2 :: V2

record Law =
  law_id :: u16
  law_name :: string
  law_statement :: string

record Registry =
  rg_schema :: string
  rg_signatures :: "Signature list"
  rg_laws :: "Law list"

subsection \<open>The shipped registry\<close>

definition I64_MAX :: u64 where
  "I64_MAX = 2 ^ 63 - 1"

definition K_ENVELOPE :: Kind where "K_ENVELOPE = K_Bytes REGISTRY_MAX_BYTES"
definition K_VERSION :: Kind where "K_VERSION = K_Int 0 I64_MAX"
definition K_ANY :: Kind where "K_ANY = K_Int 0 (2 ^ 64 - 1)"
definition FIELDS_STORE :: "(string \<times> Kind) list" where
  "FIELDS_STORE = [(''store'', K_Store)]"
definition FIELDS_PUBLICATION :: "(string \<times> Kind) list" where
  "FIELDS_PUBLICATION = [(''prestate'', K_ENVELOPE), (''command'', K_ENVELOPE), (''context'', K_ENVELOPE),
     (''identity'', K_ENVELOPE), (''subject'', K_ENVELOPE)]"
definition FIELDS_BOUNDED :: "(string \<times> Kind) list" where
  "FIELDS_BOUNDED = [(''version'', K_VERSION), (''cap'', K_ANY)]"
definition FIELDS_MODE :: "(string \<times> Kind) list" where
  "FIELDS_MODE = [(''unversioned'', K_Unit), (''at'', K_VERSION), (''bounded_at'', K_Record FIELDS_BOUNDED)]"
definition FIELDS_COMMIT :: "(string \<times> Kind) list" where
  "FIELDS_COMMIT = [(''store'', K_Store), (''key'', K_Hash), (''publication'', K_Record FIELDS_PUBLICATION),
     (''mode'', K_Choice FIELDS_MODE)]"
definition FIELDS_SNAPSHOT :: "(string \<times> Kind) list" where
  "FIELDS_SNAPSHOT = [(''version'', K_VERSION), (''identity'', K_ENVELOPE), (''state'', K_ENVELOPE),
     (''root'', K_Hash), (''chain'', K_Hash)]"
definition FIELDS_STATUS :: "(string \<times> Kind) list" where
  "FIELDS_STATUS = [(''committed'', K_Unit), (''replay'', K_Unit)]"
definition FIELDS_RECEIPT :: "(string \<times> Kind) list" where
  "FIELDS_RECEIPT = [(''version'', K_VERSION), (''chain'', K_Hash), (''status'', K_Choice FIELDS_STATUS)]"
definition FIELDS_ENTRY :: "(string \<times> Kind) list" where
  "FIELDS_ENTRY = [(''key'', K_Hash), (''version'', K_Int 1 I64_MAX), (''publication'', K_Record FIELDS_PUBLICATION)]"
definition FIELDS_HISTORY :: "(string \<times> Kind) list" where
  "FIELDS_HISTORY = [(''head'', K_Record FIELDS_SNAPSHOT), (''commits'', K_List (K_Record FIELDS_ENTRY) REGISTRY_MAX_ITEMS)]"
definition FIELDS_DELIVERY :: "(string \<times> Kind) list" where
  "FIELDS_DELIVERY = [(''id'', K_Hash), (''version'', K_Int 1 I64_MAX), (''lane'', K_Int 0 1),
     (''ordinal'', K_Int 0 (2 ^ 32 - 1)), (''destination'', K_ENVELOPE), (''payload'', K_ENVELOPE),
     (''payload_sha256'', K_Hash)]"
definition FIELDS_SEND :: "(string \<times> Kind) list" where
  "FIELDS_SEND = [(''store'', K_Store), (''delivery'', K_Record FIELDS_DELIVERY)]"
definition FIELDS_REPORT :: "(string \<times> Kind) list" where
  "FIELDS_REPORT = [(''delivery_id'', K_Hash), (''payload_sha256'', K_Hash)]"
definition FIELDS_ACKNOWLEDGE :: "(string \<times> Kind) list" where
  "FIELDS_ACKNOWLEDGE = [(''store'', K_Store), (''delivery_id'', K_Hash), (''payload_sha256'', K_Hash)]"
definition FIELDS_TICK :: "(string \<times> Kind) list" where
  "FIELDS_TICK = [(''epoch'', K_ANY), (''tick'', K_ANY)]"
definition FIELDS_PURPOSE :: "(string \<times> Kind) list" where
  "FIELDS_PURPOSE = [(''retry_jitter'', K_Unit)]"
definition FIELDS_RANDOM :: "(string \<times> Kind) list" where
  "FIELDS_RANDOM = [(''purpose'', K_Choice FIELDS_PURPOSE), (''bound'', K_Int 1 (2 ^ 64 - 1))]"
definition FIELDS_WAIT :: "(string \<times> Kind) list" where
  "FIELDS_WAIT = [(''deadline'', K_Record FIELDS_TICK)]"

definition FP_READ :: Footprint where
  "FP_READ = \<lparr>fp_reads = resources_and RES_DURABLE RES_VOLATILE, fp_writes = RES_VOLATILE\<rparr>"
definition FP_WRITE :: Footprint where
  "FP_WRITE = \<lparr>fp_reads = resources_and RES_DURABLE RES_VOLATILE, fp_writes = resources_and RES_DURABLE RES_VOLATILE\<rparr>"
definition FP_SEND_ONLY :: Footprint where
  "FP_SEND_ONLY = \<lparr>fp_reads = RES_TRANSPORT, fp_writes = RES_TRANSPORT\<rparr>"
definition FP_OPEN :: Footprint where
  "FP_OPEN = \<lparr>fp_reads = RES_DURABLE, fp_writes = RES_VOLATILE\<rparr>"
definition FP_TIME :: Footprint where
  "FP_TIME = \<lparr>fp_reads = RES_CLOCK, fp_writes = RES_NONE\<rparr>"
definition FP_DRAW :: Footprint where
  "FP_DRAW = \<lparr>fp_reads = RES_JITTER, fp_writes = RES_JITTER\<rparr>"

definition SIGNATURES :: "Signature list" where
  "SIGNATURES =
    [\<lparr>sg_port = P_ReadState, sg_arguments = K_Record FIELDS_STORE, sg_answer = A_Outcome (K_Record FIELDS_SNAPSHOT),
       sg_capability = Cap_ReadStore, sg_footprint = FP_READ, sg_laws = [3],
       sg_v2 = V2_Api [''V2SqliteShell::snapshot'']\<rparr>,
     \<lparr>sg_port = P_Commit, sg_arguments = K_Record FIELDS_COMMIT, sg_answer = A_Outcome (K_Record FIELDS_RECEIPT),
       sg_capability = Cap_WriteStore, sg_footprint = FP_WRITE, sg_laws = [1, 2],
       sg_v2 = V2_Api [''V2SqliteShell::commit'', ''V2SqliteShell::commit_at'', ''V2SqliteShell::commit_bounded_at'']\<rparr>,
     \<lparr>sg_port = P_ReadHistory, sg_arguments = K_Record FIELDS_STORE, sg_answer = A_Outcome (K_Record FIELDS_HISTORY),
       sg_capability = Cap_ReadStore, sg_footprint = FP_READ, sg_laws = [4],
       sg_v2 = V2_Api [''Lineage::audit_history_read_only'']\<rparr>,
     \<lparr>sg_port = P_ReadOutbox, sg_arguments = K_Record FIELDS_STORE, sg_answer = A_Outcome (K_List (K_Record FIELDS_DELIVERY) REGISTRY_MAX_ITEMS),
       sg_capability = Cap_ReadStore, sg_footprint = FP_READ, sg_laws = [4],
       sg_v2 = V2_Api [''V2SqliteShell::export_pending'']\<rparr>,
     \<lparr>sg_port = P_Send, sg_arguments = K_Record FIELDS_SEND, sg_answer = A_Transport (K_Record FIELDS_REPORT),
       sg_capability = Cap_Transport, sg_footprint = FP_SEND_ONLY, sg_laws = [5],
       sg_v2 = V2_External ''relay::export_line''\<rparr>,
     \<lparr>sg_port = P_Acknowledge, sg_arguments = K_Record FIELDS_ACKNOWLEDGE, sg_answer = A_Outcome K_Unit,
       sg_capability = Cap_Relay, sg_footprint = FP_WRITE, sg_laws = [6],
       sg_v2 = V2_Api [''V2SqliteShell::pending_by_id'', ''Pending::relayed'', ''Delivered::acknowledge'']\<rparr>,
     \<lparr>sg_port = P_Reopen, sg_arguments = K_Record FIELDS_STORE, sg_answer = A_Outcome (K_Record FIELDS_SNAPSHOT),
       sg_capability = Cap_OpenStore, sg_footprint = FP_OPEN, sg_laws = [7],
       sg_v2 = V2_Api [''V2SqliteShell::open'', ''V2SqliteShell::audit'']\<rparr>,
     \<lparr>sg_port = P_Clock, sg_arguments = K_Record [], sg_answer = A_Fallible (K_Record FIELDS_TICK),
       sg_capability = Cap_Clock, sg_footprint = FP_TIME, sg_laws = [8],
       sg_v2 = V2_OptIn\<rparr>,
     \<lparr>sg_port = P_Random, sg_arguments = K_Record FIELDS_RANDOM, sg_answer = A_Fallible (K_Int 0 (2 ^ 64 - 2)),
       sg_capability = Cap_Jitter, sg_footprint = FP_DRAW, sg_laws = [9],
       sg_v2 = V2_OptIn\<rparr>,
     \<lparr>sg_port = P_Wait, sg_arguments = K_Record FIELDS_WAIT, sg_answer = A_Wait (K_Record FIELDS_TICK),
       sg_capability = Cap_Clock, sg_footprint = FP_TIME, sg_laws = [8],
       sg_v2 = V2_OptIn\<rparr>]"

definition LAWS :: "Law list" where
  "LAWS =
    [\<lparr>law_id = 1, law_name = ''commit-once'',
       law_statement = ''Commit(k,p); Commit(k,p) applies once and the second answers Replay with the original receipt; changed bytes under k refuse with D unchanged''\<rparr>,
     \<lparr>law_id = 2, law_name = ''commit-atomic'',
       law_statement = ''a success changes state, sequence, root, chain, replay record and every required outbox row together; after a crash D is the pre-state or the complete post-state; NotApplied and Refused leave D unchanged''\<rparr>,
     \<lparr>law_id = 3, law_name = ''read-state'',
       law_statement = ''one consistent snapshot; after a successful commit it sees the post-state or a validated descendant; a failure is never an empty state''\<rparr>,
     \<lparr>law_id = 4, law_name = ''read-exact'',
       law_statement = ''consistent and exact; repeated reads with no write between agree; reads consume nothing; history proves nothing about later commits''\<rparr>,
     \<lparr>law_id = 5, law_name = ''send-exact'',
       law_statement = ''sender D is unchanged and copies are exact; a report proves neither receipt nor authentication; duplicates may duplicate external effects''\<rparr>,
     \<lparr>law_id = 6, law_name = ''acknowledge-exact'',
       law_statement = ''a matching (id, hash) sets only that record's bit, atomically and monotonically; a wrong ID or hash refuses; repeating gives AlreadyAcknowledged''\<rparr>,
     \<lparr>law_id = 7, law_name = ''reopen-audits'',
       law_statement = ''recovers and audits D and drops V, or refuses; never resets, silently repairs or substitutes a store''\<rparr>,
     \<lparr>law_id = 8, law_name = ''time-monotone'',
       law_statement = ''ticks are monotonic within an epoch; Wait returns a tick at or after its deadline or an explicit interruption; neither changes D''\<rparr>,
     \<lparr>law_id = 9, law_name = ''jitter-in-range'',
       law_statement = ''a draw is below its bound; identical generator state gives an identical draw in simulation; no independence or cryptographic claim''\<rparr>]"

definition REGISTRY :: Registry where
  "REGISTRY = \<lparr>rg_schema = EFFECTS_SCHEMA, rg_signatures = SIGNATURES, rg_laws = LAWS\<rparr>"

subsection \<open>Checking a registry\<close>

datatype RegistryError =
    RE_Schema
  | RE_Missing Port
  | RE_Order Port
  | RE_Malformed Port string
  | RE_Footprint Port
  | RE_Law Port
  | RE_UnusedLaw u16
  | RE_Unmapped Port

definition field_name_ok :: "string \<Rightarrow> bool" where
  "field_name_ok name \<longleftrightarrow> name \<noteq> [] \<and> list_all (\<lambda>b. (97 \<le> b \<and> b \<le> 122) \<or> (48 \<le> b \<and> b \<le> 57) \<or> b = 95) (ascii_bytes name)"

function check_kind :: "Port \<Rightarrow> Kind \<Rightarrow> nat \<Rightarrow> RegistryError + unit"
  and check_fields :: "Port \<Rightarrow> string list \<Rightarrow> (string \<times> Kind) list \<Rightarrow> nat \<Rightarrow> RegistryError + unit" where
  "check_kind port kind depth =
     (if depth > REGISTRY_MAX_DEPTH then Err (RE_Malformed port ''depth'')
      else case kind of
        K_Unit \<Rightarrow> Ok () | K_Store \<Rightarrow> Ok () | K_Hash \<Rightarrow> Ok ()
      | K_Bytes cap \<Rightarrow> if cap > 0 \<and> cap \<le> REGISTRY_MAX_BYTES then Ok () else Err (RE_Malformed port ''byte cap'')
      | K_Int mn mx \<Rightarrow> if mn \<le> mx then Ok () else Err (RE_Malformed port ''range'')
      | K_List item cap \<Rightarrow> if cap > 0 \<and> cap \<le> REGISTRY_MAX_ITEMS then check_kind port item (depth + 1)
          else Err (RE_Malformed port ''item cap'')
      | K_Choice fs \<Rightarrow> if fs = [] then Err (RE_Malformed port ''empty choice'') else check_fields port [] fs depth
      | K_Record fs \<Rightarrow> check_fields port [] fs depth)"
| "check_fields port prior [] depth = Ok ()"
| "check_fields port prior ((name, kind) # fs) depth =
     (if \<not> field_name_ok name \<or> name \<in> set prior then Err (RE_Malformed port ''name'')
      else rbind (check_kind port kind (depth + 1)) (\<lambda>_. check_fields port (prior @ [name]) fs depth))"
  by pat_completeness auto

termination check_kind
  by (relation "measure (\<lambda>x. case x of Inl (port, kind, depth) \<Rightarrow> size kind | Inr (port, prior, fs, depth) \<Rightarrow>
       size_list (size_prod (\<lambda>_. 0) size) fs)") auto

declare check_kind.simps [simp del]

fun check_laws :: "Registry \<Rightarrow> Port \<Rightarrow> u16 list \<Rightarrow> u16 list \<Rightarrow> RegistryError + unit" where
  "check_laws registry port prior [] = Ok ()"
| "check_laws registry port prior (i # ids) =
     (if i \<in> set prior \<or> \<not> list_ex (\<lambda>l. law_id l = i) (rg_laws registry) then Err (RE_Law port)
      else check_laws registry port (prior @ [i]) ids)"

definition v2_mapped :: "bool \<Rightarrow> V2 \<Rightarrow> bool" where
  "v2_mapped store v2 \<longleftrightarrow> (case v2 of
       V2_Api calls \<Rightarrow> calls \<noteq> [] \<and> list_all (\<lambda>call. call \<noteq> []) calls
     | V2_External name \<Rightarrow> \<not> store \<and> name \<noteq> []
     | V2_OptIn \<Rightarrow> \<not> store)"

definition check_signature :: "Registry \<Rightarrow> Signature \<Rightarrow> RegistryError + unit" where
  "check_signature registry s =
     (let port = sg_port s in
      if \<not> (case sg_arguments s of K_Record _ \<Rightarrow> True | _ \<Rightarrow> False) then Err (RE_Malformed port ''arguments'')
      else rbind (check_kind port (sg_arguments s) 0) (\<lambda>_.
      rbind (check_kind port (answer_payload (sg_answer s)) 0) (\<lambda>_.
      let footprint = sg_footprint s; allowed = capability_allows (sg_capability s) in
      if fp_reads footprint AND NOT RES_KNOWN \<noteq> 0 \<or> fp_writes footprint AND NOT RES_KNOWN \<noteq> 0
         \<or> \<not> resources_within (fp_reads footprint) (fp_reads allowed)
         \<or> \<not> resources_within (fp_writes footprint) (fp_writes allowed)
      then Err (RE_Footprint port)
      else if sg_laws s = [] then Err (RE_Law port)
      else rbind (check_laws registry port [] (sg_laws s)) (\<lambda>_.
      let store = sg_capability s \<notin> {Cap_Transport, Cap_Clock, Cap_Jitter} in
      if v2_mapped store (sg_v2 s) then Ok () else Err (RE_Unmapped port)))))"

text \<open>The loop over all ports: each has its signature at its position.\<close>

fun check_ports :: "Registry \<Rightarrow> Port list \<Rightarrow> Signature list \<Rightarrow> RegistryError + unit" where
  "check_ports registry [] (extra # _) = Err (RE_Order (sg_port extra))"
| "check_ports registry [] [] = Ok ()"
| "check_ports registry (port # ports) [] = Err (RE_Missing port)"
| "check_ports registry (port # ports) (s # ss) =
     (if sg_port s \<noteq> port then Err (if port_tag (sg_port s) < port_tag port then RE_Order (sg_port s) else RE_Missing port)
      else rbind (check_signature registry s) (\<lambda>_. check_ports registry ports ss))"

fun check_law_order :: "Registry \<Rightarrow> u16 option \<Rightarrow> Law list \<Rightarrow> RegistryError + unit" where
  "check_law_order registry previous [] = Ok ()"
| "check_law_order registry previous (law # laws) =
     (if (case previous of None \<Rightarrow> False | Some i \<Rightarrow> i \<ge> law_id law) \<or> law_name law = [] \<or> law_statement law = []
         \<or> \<not> list_ex (\<lambda>s. law_id law \<in> set (sg_laws s)) (rg_signatures registry)
      then Err (RE_UnusedLaw (law_id law))
      else check_law_order registry (Some (law_id law)) laws)"

definition registry_check :: "Registry \<Rightarrow> RegistryError + unit" where
  "registry_check registry =
     (if rg_schema registry \<noteq> EFFECTS_SCHEMA then Err RE_Schema
      else rbind (check_ports registry Port_ALL (rg_signatures registry)) (\<lambda>_.
           check_law_order registry None (rg_laws registry)))"

definition signature :: "Registry \<Rightarrow> Port \<Rightarrow> Signature option" where
  "signature registry port = find (\<lambda>s. sg_port s = port) (rg_signatures registry)"

subsection \<open>Identity of a registry\<close>

definition put_count :: "nat \<Rightarrow> bytes" where
  "put_count n = be_bytes 8 (of_nat n :: u64)"

definition put_str :: "string \<Rightarrow> bytes" where
  "put_str s = put_count (length (ascii_bytes s)) @ ascii_bytes s"

fun put_kind :: "Kind \<Rightarrow> bytes" and put_fields :: "(string \<times> Kind) list \<Rightarrow> bytes" where
  "put_kind K_Unit = [0]"
| "put_kind K_Store = [1]"
| "put_kind K_Hash = [2]"
| "put_kind (K_Bytes cap) = 3 # be_bytes 8 cap"
| "put_kind (K_Int mn mx) = 4 # be_bytes 8 mn @ be_bytes 8 mx"
| "put_kind (K_Record fs) = 5 # put_count (length fs) @ put_fields fs"
| "put_kind (K_Choice fs) = 6 # put_count (length fs) @ put_fields fs"
| "put_kind (K_List item cap) = 7 # be_bytes 8 cap @ put_kind item"
| "put_fields [] = []"
| "put_fields ((name, kind) # fs) = put_str name @ put_kind kind @ put_fields fs"

definition put_signature :: "Signature \<Rightarrow> bytes" where
  "put_signature s =
     [port_tag (sg_port s)] @ put_kind (sg_arguments s)
     @ (case sg_answer s of A_Outcome payload \<Rightarrow> 0 # put_kind payload | A_Transport payload \<Rightarrow> 1 # put_kind payload
        | A_Fallible payload \<Rightarrow> 2 # put_kind payload | A_Wait payload \<Rightarrow> 3 # put_kind payload)
     @ [capability_code (sg_capability s), fp_reads (sg_footprint s), fp_writes (sg_footprint s)]
     @ put_count (length (sg_laws s)) @ concat (map (be_bytes 2) (sg_laws s))
     @ (case sg_v2 s of V2_Api calls \<Rightarrow> 0 # put_count (length calls) @ concat (map put_str calls)
        | V2_External name \<Rightarrow> 1 # put_str name
        | V2_OptIn \<Rightarrow> [2])"

definition put_law :: "Law \<Rightarrow> bytes" where
  "put_law l = be_bytes 2 (law_id l) @ put_str (law_name l) @ put_str (law_statement l)"

definition registry_canonical_bytes :: "Registry \<Rightarrow> bytes" where
  "registry_canonical_bytes registry =
     put_str (rg_schema registry) @ put_count (length (rg_signatures registry))
     @ concat (map put_signature (rg_signatures registry))
     @ put_count (length (rg_laws registry)) @ concat (map put_law (rg_laws registry))"

definition registry_identity :: "hasher \<Rightarrow> Registry \<Rightarrow> hash32" where
  "registry_identity H registry = h_hash H (registry_canonical_bytes registry)"

definition source_digest :: "hasher \<Rightarrow> (string \<times> bytes) list \<Rightarrow> hash32" where
  "source_digest H files =
     h_hash H (put_str EFFECTS_SCHEMA @ put_count (length files)
       @ concat (map (\<lambda>(name, content). put_str name @ put_count (length content) @ content) files))"

definition program_source :: "hasher \<Rightarrow> (string \<Rightarrow> bytes) \<Rightarrow> hash32" where
  "program_source H file = source_digest H [(''program.rs'', file ''program.rs'')]"

section \<open>Port data (port.rs)\<close>

record Store =
  st_identity :: hash32
  st_handle :: u32

record OpId =
  op_epoch :: u64
  op_ordinal :: u64

definition opid_first :: "u64 \<Rightarrow> OpId" where
  "opid_first epoch = \<lparr>op_epoch = epoch, op_ordinal = 0\<rparr>"

text \<open>\<^verbatim>\<open>u64::checked_add\<close> on words.\<close>

definition checked_add64 :: "u64 \<Rightarrow> u64 \<Rightarrow> u64 option" where
  "checked_add64 a b = (if unat a + unat b \<le> u64_max then Some (a + b) else None)"

definition opid_next :: "OpId \<Rightarrow> OpId option" where
  "opid_next i = (case checked_add64 (op_ordinal i) 1 of
      Some ordinal \<Rightarrow> Some \<lparr>op_epoch = op_epoch i, op_ordinal = ordinal\<rparr>
    | None \<Rightarrow> None)"

record PublicationData =
  pd_prestate :: bytes
  pd_command :: bytes
  pd_context :: bytes
  pd_identity :: bytes
  pd_subject :: bytes

datatype CommitMode = CM_Unversioned | CM_At u64 | CM_BoundedAt u64 u64

record Snapshot =
  sn_version :: u64
  sn_identity :: bytes
  sn_state :: bytes
  sn_root :: hash32
  sn_chain :: hash32

record CommitReceipt =
  crc_version :: u64
  crc_chain :: hash32
  crc_status :: CommitStatus

record HistoryEntry =
  he_key :: hash32
  he_version :: u64
  he_publication :: PublicationData

record AuditedHistory =
  ah_head :: Snapshot
  ah_commits :: "HistoryEntry list"

record Delivery =
  dl_id :: hash32
  dl_version :: u64
  dl_lane :: u8
  dl_ordinal :: u32
  dl_destination :: bytes
  dl_payload :: bytes
  dl_payload_sha256 :: hash32

record Report =
  rep_delivery_id :: hash32
  rep_payload_sha256 :: hash32

datatype Purpose = RetryJitter

record EpochTick =
  et_epoch :: u64
  et_tick :: u64

datatype Code =
    C_Provider | C_Schema | C_Identity | C_Authority | C_Lineage | C_Checkpoint | C_InvocationKind | C_History
  | C_Range | C_PreState | C_Replay | C_Concurrent | C_Delivery | C_Interpreter | C_UnknownDelivery
  | C_AlreadyAcknowledged | C_PayloadMismatch | C_Capacity | C_Upgrade | C_Succession | C_Unsettled
  | C_Protocol | C_Interrupted | C_PolicyDuplicate | C_PolicyRecipient | C_PolicyFields | C_PolicyCapacity

datatype Fault = F_Busy | F_Full | F_Io

datatype 'a Outcome = O_Ok 'a | O_Refused Code | O_NotApplied Fault | O_Unknown Fault

datatype Sent = S_Sent Report | S_NotSent Code | S_Unknown Fault | S_Refused Code

datatype WaitError = W_Interrupted | W_Failed Fault

text \<open>\<^verbatim>\<open>NonZeroU64\<close> is the word; the bound of a draw comes from a policy that keeps it nonzero.\<close>

datatype Operation =
    Op_ReadState Store
  | Op_Commit Store hash32 PublicationData CommitMode
  | Op_ReadHistory Store
  | Op_ReadOutbox Store
  | Op_Send Store Delivery
  | Op_Acknowledge Store hash32 hash32
  | Op_Reopen Store
  | Op_Clock
  | Op_Random Purpose u64
  | Op_Wait EpochTick

datatype Response =
    R_ReadState "Snapshot Outcome"
  | R_Commit "CommitReceipt Outcome"
  | R_ReadHistory "AuditedHistory Outcome"
  | R_ReadOutbox "Delivery list Outcome"
  | R_Send Sent
  | R_Acknowledge "unit Outcome"
  | R_Reopen "Snapshot Outcome"
  | R_Clock "Fault + EpochTick"
  | R_Random "Fault + u64"
  | R_Wait "WaitError + EpochTick"

definition operation_port :: "Operation \<Rightarrow> Port" where
  "operation_port operation = (case operation of
      Op_ReadState _ \<Rightarrow> P_ReadState | Op_Commit _ _ _ _ \<Rightarrow> P_Commit | Op_ReadHistory _ \<Rightarrow> P_ReadHistory
    | Op_ReadOutbox _ \<Rightarrow> P_ReadOutbox | Op_Send _ _ \<Rightarrow> P_Send | Op_Acknowledge _ _ _ \<Rightarrow> P_Acknowledge
    | Op_Reopen _ \<Rightarrow> P_Reopen | Op_Clock \<Rightarrow> P_Clock | Op_Random _ _ \<Rightarrow> P_Random | Op_Wait _ \<Rightarrow> P_Wait)"

definition operation_store :: "Operation \<Rightarrow> Store option" where
  "operation_store operation = (case operation of
      Op_ReadState store \<Rightarrow> Some store | Op_Commit store _ _ _ \<Rightarrow> Some store | Op_ReadHistory store \<Rightarrow> Some store
    | Op_ReadOutbox store \<Rightarrow> Some store | Op_Send store _ \<Rightarrow> Some store | Op_Acknowledge store _ _ \<Rightarrow> Some store
    | Op_Reopen store \<Rightarrow> Some store | Op_Clock \<Rightarrow> None | Op_Random _ _ \<Rightarrow> None | Op_Wait _ \<Rightarrow> None)"

definition operation_subject :: "Operation \<Rightarrow> bytes" where
  "operation_subject operation = (case operation of
      Op_Commit _ _ publication _ \<Rightarrow> pd_subject publication
    | Op_Send _ delivery \<Rightarrow> be_bytes 32 (dl_id delivery)
    | Op_Acknowledge _ i _ \<Rightarrow> be_bytes 32 i
    | _ \<Rightarrow> [])"

datatype Val =
    V_Unit | V_Store Store | V_Hash hash32 | V_Bytes bytes | V_Int u64
  | V_Record "Val list" | V_Choice nat Val | V_List "Val list"

definition publication_value :: "PublicationData \<Rightarrow> Val" where
  "publication_value p = V_Record [V_Bytes (pd_prestate p), V_Bytes (pd_command p), V_Bytes (pd_context p),
     V_Bytes (pd_identity p), V_Bytes (pd_subject p)]"

definition mode_value :: "CommitMode \<Rightarrow> Val" where
  "mode_value mode = (case mode of
      CM_Unversioned \<Rightarrow> V_Choice 0 V_Unit
    | CM_At version \<Rightarrow> V_Choice 1 (V_Int version)
    | CM_BoundedAt version cap \<Rightarrow> V_Choice 2 (V_Record [V_Int version, V_Int cap]))"

definition snapshot_value :: "Snapshot \<Rightarrow> Val" where
  "snapshot_value s = V_Record [V_Int (sn_version s), V_Bytes (sn_identity s), V_Bytes (sn_state s),
     V_Hash (sn_root s), V_Hash (sn_chain s)]"

definition delivery_value :: "Delivery \<Rightarrow> Val" where
  "delivery_value d = V_Record [V_Hash (dl_id d), V_Int (dl_version d), V_Int (ucast (dl_lane d)),
     V_Int (ucast (dl_ordinal d)), V_Bytes (dl_destination d), V_Bytes (dl_payload d), V_Hash (dl_payload_sha256 d)]"

definition tick_value :: "EpochTick \<Rightarrow> Val" where
  "tick_value t = V_Record [V_Int (et_epoch t), V_Int (et_tick t)]"

definition operation_value :: "Operation \<Rightarrow> Val" where
  "operation_value operation = (case operation of
      Op_ReadState store \<Rightarrow> V_Record [V_Store store]
    | Op_ReadHistory store \<Rightarrow> V_Record [V_Store store]
    | Op_ReadOutbox store \<Rightarrow> V_Record [V_Store store]
    | Op_Reopen store \<Rightarrow> V_Record [V_Store store]
    | Op_Commit store key publication mode \<Rightarrow>
        V_Record [V_Store store, V_Hash key, publication_value publication, mode_value mode]
    | Op_Send store delivery \<Rightarrow> V_Record [V_Store store, delivery_value delivery]
    | Op_Acknowledge store i payload \<Rightarrow> V_Record [V_Store store, V_Hash i, V_Hash payload]
    | Op_Clock \<Rightarrow> V_Record []
    | Op_Random RetryJitter bound \<Rightarrow> V_Record [V_Choice 0 V_Unit, V_Int bound]
    | Op_Wait deadline \<Rightarrow> V_Record [tick_value deadline])"

definition response_not_applied :: "Port \<Rightarrow> Fault \<Rightarrow> Response" where
  "response_not_applied port fault = (case port of
      P_ReadState \<Rightarrow> R_ReadState (O_NotApplied fault)
    | P_Commit \<Rightarrow> R_Commit (O_NotApplied fault)
    | P_ReadHistory \<Rightarrow> R_ReadHistory (O_NotApplied fault)
    | P_ReadOutbox \<Rightarrow> R_ReadOutbox (O_NotApplied fault)
    | P_Acknowledge \<Rightarrow> R_Acknowledge (O_NotApplied fault)
    | P_Reopen \<Rightarrow> R_Reopen (O_NotApplied fault)
    | P_Send \<Rightarrow> R_Send (S_NotSent C_Delivery)
    | P_Clock \<Rightarrow> R_Clock (Err fault)
    | P_Random \<Rightarrow> R_Random (Err fault)
    | P_Wait \<Rightarrow> R_Wait (Err (W_Failed fault)))"

definition response_unknown :: "Port \<Rightarrow> Response" where
  "response_unknown port = (case port of
      P_Commit \<Rightarrow> R_Commit (O_Unknown F_Io)
    | P_Acknowledge \<Rightarrow> R_Acknowledge (O_Unknown F_Io)
    | P_Send \<Rightarrow> R_Send (S_Unknown F_Io)
    | other \<Rightarrow> response_not_applied other F_Io)"

definition response_refused :: "Port \<Rightarrow> Code \<Rightarrow> Response" where
  "response_refused port code = (case port of
      P_ReadState \<Rightarrow> R_ReadState (O_Refused code)
    | P_Commit \<Rightarrow> R_Commit (O_Refused code)
    | P_ReadHistory \<Rightarrow> R_ReadHistory (O_Refused code)
    | P_ReadOutbox \<Rightarrow> R_ReadOutbox (O_Refused code)
    | P_Acknowledge \<Rightarrow> R_Acknowledge (O_Refused code)
    | P_Reopen \<Rightarrow> R_Reopen (O_Refused code)
    | P_Send \<Rightarrow> R_Send (S_NotSent code)
    | other \<Rightarrow> response_not_applied other F_Io)"

definition response_port :: "Response \<Rightarrow> Port" where
  "response_port response = (case response of
      R_ReadState _ \<Rightarrow> P_ReadState | R_Commit _ \<Rightarrow> P_Commit | R_ReadHistory _ \<Rightarrow> P_ReadHistory
    | R_ReadOutbox _ \<Rightarrow> P_ReadOutbox | R_Send _ \<Rightarrow> P_Send | R_Acknowledge _ \<Rightarrow> P_Acknowledge
    | R_Reopen _ \<Rightarrow> P_Reopen | R_Clock _ \<Rightarrow> P_Clock | R_Random _ \<Rightarrow> P_Random | R_Wait _ \<Rightarrow> P_Wait)"

definition receipt_value :: "CommitReceipt \<Rightarrow> Val" where
  "receipt_value r = V_Record [V_Int (crc_version r), V_Hash (crc_chain r),
     V_Choice (case crc_status r of Committed \<Rightarrow> 0 | IdempotentReplay \<Rightarrow> 1) V_Unit]"

definition history_entry_value :: "HistoryEntry \<Rightarrow> Val" where
  "history_entry_value e = V_Record [V_Hash (he_key e), V_Int (he_version e), publication_value (he_publication e)]"

definition response_value :: "Response \<Rightarrow> Val option" where
  "response_value response = (case response of
      R_ReadState (O_Ok snapshot) \<Rightarrow> Some (snapshot_value snapshot)
    | R_Reopen (O_Ok snapshot) \<Rightarrow> Some (snapshot_value snapshot)
    | R_Commit (O_Ok receipt) \<Rightarrow> Some (receipt_value receipt)
    | R_ReadHistory (O_Ok history) \<Rightarrow> Some (V_Record [snapshot_value (ah_head history),
        V_List (map history_entry_value (ah_commits history))])
    | R_ReadOutbox (O_Ok deliveries) \<Rightarrow> Some (V_List (map delivery_value deliveries))
    | R_Send (S_Sent report) \<Rightarrow> Some (V_Record [V_Hash (rep_delivery_id report), V_Hash (rep_payload_sha256 report)])
    | R_Acknowledge (O_Ok _) \<Rightarrow> Some V_Unit
    | R_Clock (Inr tick) \<Rightarrow> Some (tick_value tick)
    | R_Wait (Inr tick) \<Rightarrow> Some (tick_value tick)
    | R_Random (Inr draw) \<Rightarrow> Some (V_Int draw)
    | _ \<Rightarrow> None)"

subsection \<open>Conformance of a value to a schema node (registry.rs)\<close>

datatype TypeError = TYE_Shape string | TYE_TooLong string | TYE_Range string

text \<open>\<^verbatim>\<open>u64::try_from(len)\<close> succeeds and is at most the cap.\<close>

definition length_within :: "nat \<Rightarrow> u64 \<Rightarrow> bool" where
  "length_within n cap \<longleftrightarrow> (case try_from u64_max n of Some m \<Rightarrow> m \<le> unat cap | None \<Rightarrow> False)"

function conforms :: "Kind \<Rightarrow> Val \<Rightarrow> string \<Rightarrow> TypeError + unit"
  and conforms_fields :: "(string \<times> Kind) list \<Rightarrow> Val list \<Rightarrow> TypeError + unit"
  and conforms_items :: "Kind \<Rightarrow> Val list \<Rightarrow> string \<Rightarrow> TypeError + unit" where
  "conforms kind v name =
     (case (kind, v) of
        (K_Unit, V_Unit) \<Rightarrow> Ok ()
      | (K_Store, V_Store _) \<Rightarrow> Ok ()
      | (K_Hash, V_Hash _) \<Rightarrow> Ok ()
      | (K_Bytes cap, V_Bytes bs) \<Rightarrow> if length_within (length bs) cap then Ok () else Err (TYE_TooLong name)
      | (K_Int mn mx, V_Int number) \<Rightarrow> if mn \<le> number \<and> number \<le> mx then Ok () else Err (TYE_Range name)
      | (K_Record fs, V_Record vs) \<Rightarrow> if length fs = length vs then conforms_fields fs vs else Err (TYE_Shape name)
      | (K_Choice fs, V_Choice index v) \<Rightarrow>
          if index < length fs then conforms (snd (fs ! index)) v (fst (fs ! index)) else Err (TYE_Shape name)
      | (K_List item cap, V_List vs) \<Rightarrow>
          if length_within (length vs) cap then conforms_items item vs name else Err (TYE_TooLong name)
      | _ \<Rightarrow> Err (TYE_Shape name))"
| "conforms_fields ((name, kind) # fs) (v # vs) = rbind (conforms kind v name) (\<lambda>_. conforms_fields fs vs)"
| "conforms_fields [] vs = Ok ()"
| "conforms_fields (f # fs) [] = Ok ()"
| "conforms_items item [] name = Ok ()"
| "conforms_items item (v # vs) name = rbind (conforms item v name) (\<lambda>_. conforms_items item vs name)"
  by pat_completeness auto

lemma size_kind_nth:
  "i < length fs \<Longrightarrow> size (snd (fs ! i)) < Suc (size_list (size_prod (\<lambda>_. 0) size) (fs :: (string \<times> Kind) list))"
proof (induction fs arbitrary: i)
  case (Cons f fs)
  then show ?case by (cases f; cases i) (auto simp: less_Suc_eq_le add.commute le_SucI trans_le_add2)
qed simp

termination conforms
proof (relation "measures [\<lambda>x. case x of Inl (kind, v, name) \<Rightarrow> size kind
    | Inr (Inl (fs, vs)) \<Rightarrow> size_list (size_prod (\<lambda>_. 0) size) fs
    | Inr (Inr (item, vs, name)) \<Rightarrow> size item,
    \<lambda>x. case x of Inr (Inr (item, vs, name)) \<Rightarrow> Suc (length vs) | _ \<Rightarrow> 0]", goal_cases)
  case 3
  then show ?case using size_kind_nth by (auto simp: less_Suc_eq_le)
qed auto

declare conforms.simps [simp del]

end
