(* ===== verification/Zeno_Programs.thy ===== *)
theory Zeno_Programs
  imports Zeno_Effects
begin

text \<open>
  \<^verbatim>\<open>zeno-fcis-shell/src/effects/program.rs\<close> and \<^verbatim>\<open>driver.rs\<close>: the two pure step programs, commit with
  recovery and outbox delivery, and the driver that holds the single outstanding request.

  A program is a record of its ports, its capabilities and its resume function.  A continuation is a
  record of the saved values.  Every step is one function of the source; the driver's \<open>reply\<close>
  returns its result together with the driver afterwards, so a refusal's effect on the driver is part
  of the model.  Counters are words of their width.
\<close>

section \<open>Programs (program.rs)\<close>

datatype ('k, 't) Step = St_Done "'t Outcome" | St_Request OpId Operation 'k

record ('k, 't) Program =
  pg_ports :: "Port list"
  pg_capabilities :: "Capability list"
  pg_resume :: "'k \<Rightarrow> Response \<Rightarrow> ('k, 't) Step"

subsection \<open>Commit with recovery\<close>

record CommitInvocation =
  ci_epoch :: u64
  ci_store :: Store
  ci_key :: hash32
  ci_publication :: PublicationData
  ci_mode :: CommitMode

record CommitPolicy =
  cpol_retries :: u8

datatype CommitPhase = CP_Commit | CP_Reopen | CP_History

record CommitContinuation =
  cc_phase :: CommitPhase
  cc_id :: OpId
  cc_retries :: u8
  cc_mode :: CommitMode
  cc_unknown :: "Fault option"
  cc_invocation :: CommitInvocation

type_synonym CommitStep = "(CommitContinuation, CommitReceipt) Step"

definition commit_operation :: "CommitInvocation \<Rightarrow> CommitMode \<Rightarrow> Operation" where
  "commit_operation invocation mode =
     Op_Commit (ci_store invocation) (ci_key invocation) (ci_publication invocation) mode"

definition history_contains :: "AuditedHistory \<Rightarrow> CommitInvocation \<Rightarrow> bool" where
  "history_contains history invocation \<longleftrightarrow>
     list_ex (\<lambda>e. he_key e = ci_key invocation \<and> he_publication e = ci_publication invocation) (ah_commits history)"

definition ask_commit_phase :: "CommitContinuation \<Rightarrow> CommitPhase \<Rightarrow> CommitStep" where
  "ask_commit_phase continuation phase =
     (case opid_next (cc_id continuation) of
       None \<Rightarrow> (case cc_unknown continuation of
           Some original \<Rightarrow> St_Done (O_Unknown original)
         | None \<Rightarrow> St_Done (O_Refused C_Range))
     | Some i \<Rightarrow>
         let store = ci_store (cc_invocation continuation);
             operation = (case phase of
                 CP_Commit \<Rightarrow> commit_operation (cc_invocation continuation) (cc_mode continuation)
               | CP_Reopen \<Rightarrow> Op_Reopen store
               | CP_History \<Rightarrow> Op_ReadHistory store)
         in St_Request i operation (continuation\<lparr>cc_phase := phase, cc_id := i\<rparr>))"

definition ask_commit :: "CommitContinuation \<Rightarrow> CommitMode \<Rightarrow> CommitStep" where
  "ask_commit continuation mode = ask_commit_phase (continuation\<lparr>cc_mode := mode\<rparr>) CP_Commit"

definition unresolved :: "CommitContinuation \<Rightarrow> Fault \<Rightarrow> CommitStep" where
  "unresolved continuation fault =
     (case cc_unknown continuation of
       Some original \<Rightarrow> St_Done (O_Unknown original)
     | None \<Rightarrow> St_Done (O_Unknown fault))"

text \<open>The subtraction wraps; every caller has checked that a retry is left.\<close>

definition spend :: "CommitContinuation \<Rightarrow> CommitContinuation" where
  "spend continuation = continuation\<lparr>cc_retries := cc_retries continuation - 1\<rparr>"

definition retry_commit_phase :: "CommitContinuation \<Rightarrow> CommitPhase \<Rightarrow> Fault \<Rightarrow> CommitStep" where
  "retry_commit_phase continuation phase fault =
     (if cc_retries continuation = 0 then unresolved continuation fault
      else ask_commit_phase (spend continuation) phase)"

definition committed :: "CommitContinuation \<Rightarrow> CommitReceipt Outcome \<Rightarrow> CommitStep" where
  "committed continuation outcome =
     (case outcome of
       O_Ok receipt \<Rightarrow> St_Done (O_Ok receipt)
     | O_Refused code \<Rightarrow> St_Done (O_Refused code)
     | O_NotApplied fault \<Rightarrow>
         if cc_retries continuation = 0 then
           (case cc_unknown continuation of
             Some original \<Rightarrow> St_Done (O_Unknown original)
           | None \<Rightarrow> St_Done (O_NotApplied fault))
         else ask_commit (spend continuation) (cc_mode continuation)
     | O_Unknown fault \<Rightarrow>
         if cc_retries continuation = 0 then unresolved continuation fault
         else
           let continuation = spend continuation;
               continuation = (if cc_unknown continuation = None
                 then continuation\<lparr>cc_unknown := Some fault\<rparr> else continuation)
           in ask_commit_phase continuation CP_Reopen)"

definition commit_start :: "CommitInvocation \<Rightarrow> CommitPolicy \<Rightarrow> CommitStep" where
  "commit_start invocation policy =
     (let mode = ci_mode invocation; i = opid_first (ci_epoch invocation);
          operation = commit_operation invocation mode
      in St_Request i operation
        \<lparr>cc_phase = CP_Commit, cc_id = i, cc_retries = cpol_retries policy, cc_mode = mode, cc_unknown = None,
         cc_invocation = invocation\<rparr>)"

definition commit_recover :: "CommitInvocation \<Rightarrow> CommitPolicy \<Rightarrow> CommitStep" where
  "commit_recover invocation policy =
     (let i = opid_first (ci_epoch invocation)
      in St_Request i (Op_Reopen (ci_store invocation))
        \<lparr>cc_phase = CP_Reopen, cc_id = i, cc_retries = cpol_retries policy, cc_mode = ci_mode invocation,
         cc_unknown = Some F_Io, cc_invocation = invocation\<rparr>)"

definition commit_resume :: "CommitContinuation \<Rightarrow> Response \<Rightarrow> CommitStep" where
  "commit_resume continuation response =
     (case (cc_phase continuation, response) of
       (CP_Commit, R_Commit outcome) \<Rightarrow> committed continuation outcome
     | (CP_Reopen, R_Reopen outcome) \<Rightarrow>
         (case outcome of
           O_Ok _ \<Rightarrow> ask_commit_phase continuation CP_History
         | O_Refused _ \<Rightarrow> unresolved continuation F_Io
         | O_NotApplied fault \<Rightarrow> retry_commit_phase continuation CP_Reopen fault
         | O_Unknown fault \<Rightarrow> retry_commit_phase continuation CP_Reopen fault)
     | (CP_History, R_ReadHistory outcome) \<Rightarrow>
         (case outcome of
           O_Ok history \<Rightarrow> ask_commit continuation
             (if history_contains history (cc_invocation continuation) then CM_Unversioned
              else ci_mode (cc_invocation continuation))
         | O_Refused _ \<Rightarrow> unresolved continuation F_Io
         | O_NotApplied fault \<Rightarrow> retry_commit_phase continuation CP_History fault
         | O_Unknown fault \<Rightarrow> retry_commit_phase continuation CP_History fault)
     | _ \<Rightarrow> unresolved continuation F_Io)"

definition CommitProgram :: "(CommitContinuation, CommitReceipt) Program" where
  "CommitProgram =
     \<lparr>pg_ports = [P_Commit, P_Reopen, P_ReadHistory],
      pg_capabilities = [Cap_WriteStore, Cap_OpenStore, Cap_ReadStore],
      pg_resume = commit_resume\<rparr>"

subsection \<open>Outbox delivery\<close>

record DeliveryInvocation =
  di_epoch :: u64
  di_store :: Store

record DeliveryPolicy =
  dp_retries :: u8
  dp_backoff :: u64
  dp_jitter :: u64

datatype DeliveryPhase = DP_Read | DP_Send | DP_Acknowledge | DP_Clock | DP_Jitter | DP_Wait

record DeliveryContinuation =
  dc_phase :: DeliveryPhase
  dc_id :: OpId
  dc_retries :: u8
  dc_invocation :: DeliveryInvocation
  dc_policy :: DeliveryPolicy
  dc_pending :: "Delivery list"
  dc_isolate_destinations :: bool
  dc_blocked :: "bytes set"
  dc_failed :: "u64 Outcome option"
  dc_current :: nat
  dc_acknowledged :: u64
  dc_may_have_sent :: bool
  dc_tick :: EpochTick

type_synonym DeliveryStep = "(DeliveryContinuation, u64) Step"

definition slice_get :: "'a list \<Rightarrow> nat \<Rightarrow> 'a option" where
  "slice_get xs i = (if i < length xs then Some (xs ! i) else None)"

definition delivery_done :: "DeliveryContinuation \<Rightarrow> u64 Outcome \<Rightarrow> DeliveryStep" where
  "delivery_done continuation outcome =
     St_Done (if dc_may_have_sent continuation then
         (case outcome of
           O_Ok n \<Rightarrow> O_Ok n
         | O_NotApplied fault \<Rightarrow> O_Unknown fault
         | O_Unknown fault \<Rightarrow> O_Unknown fault
         | O_Refused _ \<Rightarrow> O_Unknown F_Io)
       else outcome)"

definition ask :: "DeliveryContinuation \<Rightarrow> DeliveryPhase \<Rightarrow> Operation \<Rightarrow> DeliveryStep" where
  "ask continuation phase operation =
     (case opid_next (dc_id continuation) of
       None \<Rightarrow> delivery_done continuation (O_Refused C_Range)
     | Some i \<Rightarrow> St_Request i operation (continuation\<lparr>dc_phase := phase, dc_id := i\<rparr>))"

text \<open>The loop of \<^verbatim>\<open>send\<close>: past the records of blocked destinations.\<close>

function skip_blocked :: "Delivery list \<Rightarrow> bytes set \<Rightarrow> nat \<Rightarrow> nat" where
  "skip_blocked pending blocked current =
     (if current < length pending \<and> dl_destination (pending ! current) \<in> blocked
      then skip_blocked pending blocked (current + 1) else current)"
  by pat_completeness auto

termination skip_blocked
  by (relation "measure (\<lambda>(pending, blocked, current). length pending - current)") auto

declare skip_blocked.simps [simp del]

definition send :: "DeliveryContinuation \<Rightarrow> DeliveryStep" where
  "send continuation =
     (let continuation = continuation\<lparr>dc_current :=
            skip_blocked (dc_pending continuation) (dc_blocked continuation) (dc_current continuation)\<rparr>
      in case slice_get (dc_pending continuation) (dc_current continuation) of
        None \<Rightarrow> delivery_done continuation
          (case dc_failed continuation of Some failed \<Rightarrow> failed | None \<Rightarrow> O_Ok (dc_acknowledged continuation))
      | Some delivery \<Rightarrow> ask continuation DP_Send (Op_Send (di_store (dc_invocation continuation)) delivery))"

fun ordered :: "Delivery list \<Rightarrow> bool" where
  "ordered (before # after # later) =
     ((dl_version before, dl_lane before, dl_ordinal before) < (dl_version after, dl_lane after, dl_ordinal after)
      \<and> ordered (after # later))"
| "ordered [_] = True"
| "ordered [] = True"

definition read_pending :: "DeliveryContinuation \<Rightarrow> Delivery list Outcome \<Rightarrow> DeliveryStep" where
  "read_pending continuation outcome =
     (case outcome of
       O_Ok pending \<Rightarrow>
         if \<not> ordered pending then delivery_done continuation (O_Refused C_Protocol)
         else send (continuation\<lparr>dc_pending := pending, dc_current := 0\<rparr>)
     | O_Refused code \<Rightarrow> delivery_done continuation (O_Refused code)
     | O_NotApplied fault \<Rightarrow>
         if dc_retries continuation = 0 then delivery_done continuation (O_NotApplied fault)
         else ask (continuation\<lparr>dc_retries := dc_retries continuation - 1\<rparr>) DP_Read
           (Op_ReadOutbox (di_store (dc_invocation continuation)))
     | O_Unknown fault \<Rightarrow>
         if dc_retries continuation = 0 then delivery_done continuation (O_NotApplied fault)
         else ask (continuation\<lparr>dc_retries := dc_retries continuation - 1\<rparr>) DP_Read
           (Op_ReadOutbox (di_store (dc_invocation continuation))))"

definition failed_destination :: "DeliveryContinuation \<Rightarrow> u64 Outcome \<Rightarrow> DeliveryStep" where
  "failed_destination continuation failed =
     (if \<not> dc_isolate_destinations continuation then delivery_done continuation failed
      else case slice_get (dc_pending continuation) (dc_current continuation) of
        None \<Rightarrow> delivery_done continuation (O_Refused C_Protocol)
      | Some delivery \<Rightarrow>
          send (continuation\<lparr>dc_blocked := insert (dl_destination delivery) (dc_blocked continuation),
            dc_failed := (if dc_failed continuation = None then Some failed else dc_failed continuation),
            dc_current := dc_current continuation + 1\<rparr>))"

definition back_off :: "DeliveryContinuation \<Rightarrow> DeliveryStep" where
  "back_off continuation = ask (continuation\<lparr>dc_retries := dc_retries continuation - 1\<rparr>) DP_Clock Op_Clock"

definition sent_one :: "DeliveryContinuation \<Rightarrow> Sent \<Rightarrow> DeliveryStep" where
  "sent_one continuation sent =
     (let continuation = (case sent of
          S_Sent _ \<Rightarrow> continuation\<lparr>dc_may_have_sent := True\<rparr>
        | S_Unknown _ \<Rightarrow> continuation\<lparr>dc_may_have_sent := True\<rparr>
        | _ \<Rightarrow> continuation)
      in case slice_get (dc_pending continuation) (dc_current continuation) of
        None \<Rightarrow> delivery_done continuation (O_Refused C_Protocol)
      | Some delivery \<Rightarrow>
          (case sent of
            S_Sent report \<Rightarrow>
              if rep_delivery_id report = dl_id delivery \<and> rep_payload_sha256 report = dl_payload_sha256 delivery
              then ask continuation DP_Acknowledge
                (Op_Acknowledge (di_store (dc_invocation continuation)) (dl_id delivery) (dl_payload_sha256 delivery))
              else delivery_done continuation (O_Refused C_Protocol)
          | S_Refused code \<Rightarrow> failed_destination continuation (O_Refused code)
          | S_NotSent code \<Rightarrow>
              if dc_retries continuation = 0 then failed_destination continuation (O_Refused code)
              else back_off continuation
          | S_Unknown fault \<Rightarrow>
              if dc_retries continuation = 0 then failed_destination continuation (O_Unknown fault)
              else back_off continuation))"

definition retry_acknowledge :: "DeliveryContinuation \<Rightarrow> u64 Outcome \<Rightarrow> DeliveryStep" where
  "retry_acknowledge continuation failed =
     (if dc_retries continuation = 0 then failed_destination continuation failed
      else case slice_get (dc_pending continuation) (dc_current continuation) of
        None \<Rightarrow> delivery_done continuation (O_Refused C_Protocol)
      | Some delivery \<Rightarrow>
          ask (continuation\<lparr>dc_retries := dc_retries continuation - 1\<rparr>) DP_Acknowledge
            (Op_Acknowledge (di_store (dc_invocation continuation)) (dl_id delivery) (dl_payload_sha256 delivery)))"

text \<open>The first arm of \<^verbatim>\<open>acknowledged\<close>: one more record is settled.\<close>

definition settle_current :: "DeliveryContinuation \<Rightarrow> DeliveryStep" where
  "settle_current continuation =
     (case checked_add64 (dc_acknowledged continuation) 1 of
       None \<Rightarrow> delivery_done continuation (O_Refused C_Range)
     | Some n \<Rightarrow> send (continuation\<lparr>dc_acknowledged := n, dc_current := dc_current continuation + 1\<rparr>))"

definition acknowledged :: "DeliveryContinuation \<Rightarrow> unit Outcome \<Rightarrow> DeliveryStep" where
  "acknowledged continuation outcome =
     (case outcome of
       O_Ok _ \<Rightarrow> settle_current continuation
     | O_Refused code \<Rightarrow>
         if code = C_AlreadyAcknowledged then settle_current continuation
         else failed_destination continuation (O_Refused code)
     | O_NotApplied fault \<Rightarrow> retry_acknowledge continuation (O_NotApplied fault)
     | O_Unknown fault \<Rightarrow> retry_acknowledge continuation (O_Unknown fault))"

definition start_with_isolation :: "DeliveryInvocation \<Rightarrow> DeliveryPolicy \<Rightarrow> bool \<Rightarrow> DeliveryStep" where
  "start_with_isolation invocation policy isolate_destinations =
     (let i = opid_first (di_epoch invocation) in
      St_Request i (Op_ReadOutbox (di_store invocation))
        \<lparr>dc_phase = DP_Read, dc_id = i, dc_retries = dp_retries policy, dc_invocation = invocation,
         dc_policy = policy, dc_pending = [], dc_isolate_destinations = isolate_destinations, dc_blocked = {},
         dc_failed = None, dc_current = 0, dc_acknowledged = 0, dc_may_have_sent = False,
         dc_tick = \<lparr>et_epoch = di_epoch invocation, et_tick = 0\<rparr>\<rparr>)"

definition delivery_start :: "DeliveryInvocation \<Rightarrow> DeliveryPolicy \<Rightarrow> DeliveryStep" where
  "delivery_start invocation policy = start_with_isolation invocation policy False"

definition start_per_destination :: "DeliveryInvocation \<Rightarrow> DeliveryPolicy \<Rightarrow> DeliveryStep" where
  "start_per_destination invocation policy = start_with_isolation invocation policy True"

definition clock_read :: "DeliveryContinuation \<Rightarrow> Fault + EpochTick \<Rightarrow> DeliveryStep" where
  "clock_read continuation reading =
     (case reading of
       Inr now \<Rightarrow>
         if et_epoch now = di_epoch (dc_invocation continuation)
         then ask (continuation\<lparr>dc_tick := now\<rparr>) DP_Jitter (Op_Random RetryJitter (dp_jitter (dc_policy continuation)))
         else delivery_done continuation (O_Refused C_Protocol)
     | Inl fault \<Rightarrow> delivery_done continuation (O_NotApplied fault))"

definition jitter_drawn :: "DeliveryContinuation \<Rightarrow> Fault + u64 \<Rightarrow> DeliveryStep" where
  "jitter_drawn continuation draw =
     (case draw of
       Inr draw \<Rightarrow>
         if draw < dp_jitter (dc_policy continuation) then
           (case checked_add64 (et_tick (dc_tick continuation)) (dp_backoff (dc_policy continuation)) of
             None \<Rightarrow> delivery_done continuation (O_Refused C_Range)
           | Some deadline \<Rightarrow>
             (case checked_add64 deadline draw of
               None \<Rightarrow> delivery_done continuation (O_Refused C_Range)
             | Some deadline \<Rightarrow>
                 let continuation = continuation\<lparr>dc_tick := (dc_tick continuation)\<lparr>et_tick := deadline\<rparr>\<rparr>
                 in ask continuation DP_Wait (Op_Wait (dc_tick continuation))))
         else delivery_done continuation (O_Refused C_Protocol)
     | Inl fault \<Rightarrow> delivery_done continuation (O_NotApplied fault))"

definition woke_up :: "DeliveryContinuation \<Rightarrow> WaitError + EpochTick \<Rightarrow> DeliveryStep" where
  "woke_up continuation woke =
     (case woke of
       Inr now \<Rightarrow>
         if et_epoch now = et_epoch (dc_tick continuation) \<and> et_tick now \<ge> et_tick (dc_tick continuation)
         then send continuation
         else delivery_done continuation (O_Refused C_Protocol)
     | Inl W_Interrupted \<Rightarrow> delivery_done continuation (O_Refused C_Interrupted)
     | Inl (W_Failed fault) \<Rightarrow> delivery_done continuation (O_NotApplied fault))"

definition delivery_resume :: "DeliveryContinuation \<Rightarrow> Response \<Rightarrow> DeliveryStep" where
  "delivery_resume continuation response =
     (case (dc_phase continuation, response) of
       (DP_Read, R_ReadOutbox outcome) \<Rightarrow> read_pending continuation outcome
     | (DP_Send, R_Send sent) \<Rightarrow> sent_one continuation sent
     | (DP_Acknowledge, R_Acknowledge outcome) \<Rightarrow> acknowledged continuation outcome
     | (DP_Clock, R_Clock reading) \<Rightarrow> clock_read continuation reading
     | (DP_Jitter, R_Random draw) \<Rightarrow> jitter_drawn continuation draw
     | (DP_Wait, R_Wait woke) \<Rightarrow> woke_up continuation woke
     | _ \<Rightarrow> delivery_done continuation (O_Refused C_Protocol))"

definition DeliveryProgram :: "(DeliveryContinuation, u64) Program" where
  "DeliveryProgram =
     \<lparr>pg_ports = [P_ReadOutbox, P_Send, P_Acknowledge, P_Clock, P_Random, P_Wait],
      pg_capabilities = [Cap_ReadStore, Cap_Transport, Cap_Relay, Cap_Clock, Cap_Jitter],
      pg_resume = delivery_resume\<rparr>"

section \<open>The driver (driver.rs)\<close>

record Binding =
  bd_id :: OpId
  bd_port :: Port
  bd_store :: "Store option"
  bd_subject :: bytes

definition binding_of :: "OpId \<Rightarrow> Operation \<Rightarrow> Binding" where
  "binding_of i operation = \<lparr>bd_id = i, bd_port = operation_port operation, bd_store = operation_store operation,
     bd_subject = operation_subject operation\<rparr>"

record Reply =
  ry_binding :: Binding
  ry_response :: Response

datatype Refusal =
    RF_Idle | RF_Duplicate | RF_Stale | RF_Epoch | RF_Ordinal | RF_Tag | RF_Store | RF_Handle | RF_Subject
  | RF_Type TypeError

datatype Fatal = FT_Registry RegistryError | FT_Capability Port | FT_Sequence | FT_Type Port TypeError

datatype ('k, 't) DriverState = DS_Waiting Binding Operation 'k | DS_Done "'t Outcome" | DS_Failed Fatal

record ('k, 't) Driver =
  dr_registry :: Registry
  dr_epoch :: u64
  dr_answered :: "OpId option"
  dr_state :: "('k, 't) DriverState"

definition driver_admit :: "('k, 't) Program \<Rightarrow> Registry \<Rightarrow> OpId \<Rightarrow> ('k, 't) Step \<Rightarrow> Fatal + ('k, 't) DriverState" where
  "driver_admit P registry expected step =
     (case step of
       St_Done outcome \<Rightarrow> Ok (DS_Done outcome)
     | St_Request i operation continuation \<Rightarrow>
         if i \<noteq> expected then Err FT_Sequence
         else let port = operation_port operation in
         case signature registry port of
           None \<Rightarrow> Err (FT_Capability port)
         | Some s \<Rightarrow>
             if port \<notin> set (pg_ports P) then Err (FT_Capability port)
             else rbind (map_err (FT_Type port) (conforms (sg_arguments s) (operation_value operation) ''arguments''))
               (\<lambda>_. Ok (DS_Waiting (binding_of i operation) operation continuation)))"

text \<open>Each port of the program is listed once and its capability is declared.\<close>

fun check_capabilities :: "('k, 't) Program \<Rightarrow> Registry \<Rightarrow> Port list \<Rightarrow> Port list \<Rightarrow> Fatal + unit" where
  "check_capabilities P registry prior [] = Ok ()"
| "check_capabilities P registry prior (port # ports) =
     (let declared = (case signature registry port of
          Some s \<Rightarrow> sg_capability s \<in> set (pg_capabilities P) | None \<Rightarrow> False)
      in if \<not> declared \<or> port \<in> set prior then Err (FT_Capability port)
      else check_capabilities P registry (prior @ [port]) ports)"

definition driver_start :: "('k, 't) Program \<Rightarrow> Registry \<Rightarrow> u64 \<Rightarrow> ('k, 't) Step \<Rightarrow> Fatal + ('k, 't) Driver" where
  "driver_start P registry epoch first =
     rbind (map_err FT_Registry (registry_check registry)) (\<lambda>_.
     rbind (check_capabilities P registry [] (pg_ports P)) (\<lambda>_.
     rbind (driver_admit P registry (opid_first epoch) first) (\<lambda>state.
     Ok \<lparr>dr_registry = registry, dr_epoch = epoch, dr_answered = None, dr_state = state\<rparr>)))"

definition driver_request :: "('k, 't) Driver \<Rightarrow> (Binding \<times> Operation) option" where
  "driver_request d = (case dr_state d of DS_Waiting binding operation _ \<Rightarrow> Some (binding, operation) | _ \<Rightarrow> None)"

definition driver_outcome :: "('k, 't) Driver \<Rightarrow> 't Outcome option" where
  "driver_outcome d = (case dr_state d of DS_Done outcome \<Rightarrow> Some outcome | _ \<Rightarrow> None)"

definition driver_failure :: "('k, 't) Driver \<Rightarrow> Fatal option" where
  "driver_failure d = (case dr_state d of DS_Failed fatal \<Rightarrow> Some fatal | _ \<Rightarrow> None)"

definition check_store :: "Store option \<Rightarrow> Store option \<Rightarrow> Refusal + unit" where
  "check_store got expected =
     (case (got, expected) of
       (None, None) \<Rightarrow> Ok ()
     | (Some g, Some e) \<Rightarrow>
         if st_identity g \<noteq> st_identity e then Err RF_Store
         else if st_handle g \<noteq> st_handle e then Err RF_Handle else Ok ()
     | _ \<Rightarrow> Err RF_Store)"

text \<open>The checks of \<^verbatim>\<open>reply\<close> against the outstanding binding.\<close>

definition check_reply :: "Registry \<Rightarrow> u64 \<Rightarrow> OpId option \<Rightarrow> Binding \<Rightarrow> Reply \<Rightarrow> Refusal + unit" where
  "check_reply registry epoch answered binding reply =
     (let got = ry_binding reply in
      if op_epoch (bd_id got) \<noteq> epoch \<or> op_epoch (bd_id got) \<noteq> op_epoch (bd_id binding) then Err RF_Epoch
      else if Some (bd_id got) = answered then Err RF_Duplicate
      else if op_ordinal (bd_id got) < op_ordinal (bd_id binding) then Err RF_Stale
      else if op_ordinal (bd_id got) \<noteq> op_ordinal (bd_id binding) then Err RF_Ordinal
      else if bd_port got \<noteq> bd_port binding \<or> response_port (ry_response reply) \<noteq> bd_port binding then Err RF_Tag
      else rbind (check_store (bd_store got) (bd_store binding)) (\<lambda>_.
      if bd_subject got \<noteq> bd_subject binding then Err RF_Subject
      else case response_value (ry_response reply) of
        None \<Rightarrow> Ok ()
      | Some v \<Rightarrow>
          (case signature registry (bd_port binding) of
            None \<Rightarrow> Err RF_Tag
          | Some s \<Rightarrow> map_err RF_Type (conforms (answer_payload (sg_answer s)) v ''result''))))"

definition after_resume :: "('k, 't) Program \<Rightarrow> Registry \<Rightarrow> OpId \<Rightarrow> ('k, 't) Step \<Rightarrow> ('k, 't) DriverState" where
  "after_resume P registry i step =
     (case opid_next i of
       Some n \<Rightarrow> (case driver_admit P registry n step of Inr state \<Rightarrow> state | Inl fatal \<Rightarrow> DS_Failed fatal)
     | None \<Rightarrow> (case step of St_Done outcome \<Rightarrow> DS_Done outcome | St_Request _ _ _ \<Rightarrow> DS_Failed FT_Sequence))"

definition driver_reply :: "('k, 't) Program \<Rightarrow> ('k, 't) Driver \<Rightarrow> Reply \<Rightarrow> (Refusal + unit) \<times> ('k, 't) Driver" where
  "driver_reply P d reply =
     (case dr_state d of
       DS_Waiting binding operation continuation \<Rightarrow>
         (case check_reply (dr_registry d) (dr_epoch d) (dr_answered d) binding reply of
           Inl refusal \<Rightarrow> (Err refusal, d)
         | Inr _ \<Rightarrow>
             (Ok (), d\<lparr>dr_answered := Some (bd_id binding),
               dr_state := after_resume P (dr_registry d) (bd_id binding) (pg_resume P continuation (ry_response reply))\<rparr>))
     | _ \<Rightarrow> (Err (if Some (bd_id (ry_binding reply)) = dr_answered d then RF_Duplicate else RF_Idle), d))"

end
