(* ===== verification/Zeno_Transcript.thy ===== *)
theory Zeno_Transcript
  imports Zeno_Programs
begin

text \<open>
  \<^verbatim>\<open>zeno-fcis-shell/src/effects\<close>: the canonical bytes of requests and responses (\<^verbatim>\<open>codec.rs\<close>), the veto
  policies and their admission (\<^verbatim>\<open>policy.rs\<close>, \<^verbatim>\<open>policy_record.rs\<close>), and hash-linked transcripts with
  handler-free replay (\<^verbatim>\<open>record.rs\<close>).

  The hasher is a parameter, and so is the text of the source files that the build compiles in
  (\<open>file\<close>, from a name to its content).  Capacities are 64-bit words.
\<close>

section \<open>Canonical bytes (codec.rs)\<close>

definition code_byte :: "Code \<Rightarrow> u8" where
  "code_byte c = (case c of
     C_Provider \<Rightarrow> 0 | C_Schema \<Rightarrow> 1 | C_Identity \<Rightarrow> 2 | C_Authority \<Rightarrow> 3 | C_Lineage \<Rightarrow> 4 | C_Checkpoint \<Rightarrow> 5
   | C_InvocationKind \<Rightarrow> 6 | C_History \<Rightarrow> 7 | C_Range \<Rightarrow> 8 | C_PreState \<Rightarrow> 9 | C_Replay \<Rightarrow> 10 | C_Concurrent \<Rightarrow> 11
   | C_Delivery \<Rightarrow> 12 | C_Interpreter \<Rightarrow> 13 | C_UnknownDelivery \<Rightarrow> 14 | C_AlreadyAcknowledged \<Rightarrow> 15
   | C_PayloadMismatch \<Rightarrow> 16 | C_Capacity \<Rightarrow> 17 | C_Upgrade \<Rightarrow> 18 | C_Succession \<Rightarrow> 19 | C_Unsettled \<Rightarrow> 20
   | C_Protocol \<Rightarrow> 21 | C_Interrupted \<Rightarrow> 22 | C_PolicyDuplicate \<Rightarrow> 23 | C_PolicyRecipient \<Rightarrow> 24
   | C_PolicyFields \<Rightarrow> 25 | C_PolicyCapacity \<Rightarrow> 26)"

definition fault_byte :: "Fault \<Rightarrow> u8" where
  "fault_byte f = (case f of F_Busy \<Rightarrow> 0 | F_Full \<Rightarrow> 1 | F_Io \<Rightarrow> 2)"

definition codec_bytes :: "bytes \<Rightarrow> bytes" where
  "codec_bytes v = be_bytes 8 (of_nat (length v) :: u64) @ v"

definition codec_hash :: "hash32 \<Rightarrow> bytes" where
  "codec_hash h = be_bytes 32 h"

definition branch :: "'a Outcome \<Rightarrow> bytes" where
  "branch outcome = (case outcome of
     O_Ok _ \<Rightarrow> [0] | O_Refused code \<Rightarrow> [1, code_byte code] | O_NotApplied fault \<Rightarrow> [2, fault_byte fault]
   | O_Unknown fault \<Rightarrow> [3, fault_byte fault])"

definition store_bytes :: "Store \<Rightarrow> bytes" where
  "store_bytes store = codec_hash (st_identity store) @ be_bytes 4 (st_handle store)"

fun put_val :: "Val \<Rightarrow> bytes" and put_vals :: "Val list \<Rightarrow> bytes" where
  "put_val V_Unit = [0]"
| "put_val (V_Store store) = 1 # store_bytes store"
| "put_val (V_Hash h) = 2 # codec_hash h"
| "put_val (V_Bytes bs) = 3 # codec_bytes bs"
| "put_val (V_Int n) = 4 # be_bytes 8 n"
| "put_val (V_Record vs) = 5 # be_bytes 8 (of_nat (length vs) :: u64) @ put_vals vs"
| "put_val (V_List vs) = 7 # be_bytes 8 (of_nat (length vs) :: u64) @ put_vals vs"
| "put_val (V_Choice index v) = 6 # be_bytes 8 (of_nat index :: u64) @ put_val v"
| "put_vals [] = []"
| "put_vals (v # vs) = put_val v @ put_vals vs"

definition operation_bytes :: "Operation \<Rightarrow> bytes" where
  "operation_bytes operation = port_tag (operation_port operation) # put_val (operation_value operation)"

definition response_branch :: "Response \<Rightarrow> bytes" where
  "response_branch response = (case response of
     R_ReadState outcome \<Rightarrow> branch outcome
   | R_Reopen outcome \<Rightarrow> branch outcome
   | R_Commit outcome \<Rightarrow> branch outcome
   | R_ReadHistory outcome \<Rightarrow> branch outcome
   | R_ReadOutbox outcome \<Rightarrow> branch outcome
   | R_Acknowledge outcome \<Rightarrow> branch outcome
   | R_Send (S_Sent _) \<Rightarrow> [0]
   | R_Send (S_NotSent code) \<Rightarrow> [1, code_byte code]
   | R_Send (S_Unknown fault) \<Rightarrow> [2, fault_byte fault]
   | R_Send (S_Refused code) \<Rightarrow> [3, code_byte code]
   | R_Clock (Inr _) \<Rightarrow> [0]
   | R_Random (Inr _) \<Rightarrow> [0]
   | R_Wait (Inr _) \<Rightarrow> [0]
   | R_Clock (Inl fault) \<Rightarrow> [1, fault_byte fault]
   | R_Random (Inl fault) \<Rightarrow> [1, fault_byte fault]
   | R_Wait (Inl W_Interrupted) \<Rightarrow> [2]
   | R_Wait (Inl (W_Failed fault)) \<Rightarrow> [1, fault_byte fault])"

definition response_bytes :: "Response \<Rightarrow> bytes" where
  "response_bytes response = port_tag (response_port response) # response_branch response
     @ (case response_value response of Some payload \<Rightarrow> put_val payload | None \<Rightarrow> [])"

definition outcome_bytes :: "'a Outcome \<Rightarrow> u64 option \<Rightarrow> bytes" where
  "outcome_bytes outcome payload = branch outcome
     @ (case (outcome, payload) of (O_Ok _, Some n) \<Rightarrow> be_bytes 8 n | _ \<Rightarrow> [])"

definition binding_bytes :: "Binding \<Rightarrow> bytes" where
  "binding_bytes b = be_bytes 8 (op_epoch (bd_id b)) @ be_bytes 8 (op_ordinal (bd_id b)) @ [port_tag (bd_port b)]
     @ (case bd_store b of Some store \<Rightarrow> 1 # store_bytes store | None \<Rightarrow> [0]) @ codec_bytes (bd_subject b)"

section \<open>Policies (policy.rs)\<close>

type_synonym EffectKey = "hash32 \<times> hash32"

datatype Policy = PL_AtMostOne u64 | PL_Allowlist "bytes list"

definition policy_allowlist :: "bytes list \<Rightarrow> Policy" where
  "policy_allowlist recipients = PL_Allowlist (remdups_adj (sort recipients))"

fun policy_fields :: "Policy \<Rightarrow> string list" where
  "policy_fields (PL_AtMostOne _) = [''Store.identity'', ''Delivery.id'']"
| "policy_fields (PL_Allowlist _) = [''Delivery.destination'']"

definition policy_source :: "hasher \<Rightarrow> (string \<Rightarrow> bytes) \<Rightarrow> hash32" where
  "policy_source H file = source_digest H (map (\<lambda>name. (name, file name))
     [''policy.rs'', ''handler.rs'', ''policy_record.rs'', ''record.rs'', ''codec.rs''])"

definition policy_identity :: "hasher \<Rightarrow> (string \<Rightarrow> bytes) \<Rightarrow> Policy \<Rightarrow> hash32" where
  "policy_identity H file policy = h_hash H
     (codec_bytes (ascii_bytes ''zeno-fcis/effect-policy/1'') @ codec_hash (policy_source H file)
      @ (case policy of
          PL_AtMostOne capacity \<Rightarrow> 0 # be_bytes 8 capacity
        | PL_Allowlist recipients \<Rightarrow>
            1 # (case policy_allowlist recipients of
              PL_Allowlist recipients \<Rightarrow>
                be_bytes 8 (of_nat (length recipients) :: u64) @ concat (map codec_bytes recipients)
            | _ \<Rightarrow> []))
      @ concat (map (codec_bytes \<circ> ascii_bytes) (policy_fields policy)))"

type_synonym PolicyState = "EffectKey list"

definition policy_state_bytes :: "PolicyState \<Rightarrow> bytes" where
  "policy_state_bytes attempts = be_bytes 8 (of_nat (length attempts) :: u64)
     @ concat (map (\<lambda>(store, delivery). codec_hash store @ codec_hash delivery) attempts)"

datatype Verdict = VD_Allow | VD_Reject Code

record Fields =
  fl_key :: "EffectKey option"
  fl_destination :: "bytes option"

definition policy_decide :: "Policy \<Rightarrow> PolicyState \<Rightarrow> Fields \<Rightarrow> PolicyState \<times> Verdict" where
  "policy_decide policy state given =
     (case policy of
       PL_AtMostOne capacity \<Rightarrow>
         (case fl_key given of
           None \<Rightarrow> (state, VD_Reject C_PolicyFields)
         | Some key \<Rightarrow>
             if key \<in> set state then (state, VD_Reject C_PolicyDuplicate)
             else if length state \<ge> unat capacity then (state, VD_Reject C_PolicyCapacity)
             else (state @ [key], VD_Allow))
     | PL_Allowlist recipients \<Rightarrow>
         (case fl_destination given of
           None \<Rightarrow> (state, VD_Reject C_PolicyFields)
         | Some destination \<Rightarrow>
             if destination \<notin> set recipients then (state, VD_Reject C_PolicyRecipient)
             else (state, VD_Allow)))"

definition policy_step :: "Policy \<Rightarrow> PolicyState \<Rightarrow> Operation \<Rightarrow> Response option \<Rightarrow> PolicyState \<times> Verdict" where
  "policy_step policy state operation response =
     (if response \<noteq> None then (state, VD_Allow)
      else case operation of
        Op_Send store delivery \<Rightarrow>
          let declared = set (policy_fields policy) in
          policy_decide policy state
            \<lparr>fl_key = (if ''Store.identity'' \<in> declared \<and> ''Delivery.id'' \<in> declared
               then Some (st_identity store, dl_id delivery) else None),
             fl_destination = (if ''Delivery.destination'' \<in> declared then Some (dl_destination delivery) else None)\<rparr>
      | _ \<Rightarrow> (state, VD_Allow))"

record Monitor =
  mo_policy :: Policy
  mo_state :: PolicyState
  mo_identity :: hash32

definition monitor_new :: "hasher \<Rightarrow> (string \<Rightarrow> bytes) \<Rightarrow> Policy \<Rightarrow> Monitor" where
  "monitor_new H file policy = \<lparr>mo_policy = policy, mo_state = [], mo_identity = policy_identity H file policy\<rparr>"

definition policy_refused :: "Response \<Rightarrow> bool" where
  "policy_refused response \<longleftrightarrow> (case response of R_Send (S_Refused _) \<Rightarrow> True | _ \<Rightarrow> False)"

section \<open>Admission by all policies (policy_record.rs)\<close>

record PolicyDecision =
  pdc_identity :: hash32
  pdc_before :: bytes
  pdc_proposed :: bytes
  pdc_verdict :: Verdict

type_synonym Check = "PolicyDecision list"

fun check_rejection :: "Check \<Rightarrow> Code option" where
  "check_rejection [] = None"
| "check_rejection (d # ds) = (case pdc_verdict d of VD_Allow \<Rightarrow> check_rejection ds | VD_Reject code \<Rightarrow> Some code)"

definition check_bytes :: "Check \<Rightarrow> bytes" where
  "check_bytes decisions = codec_bytes (ascii_bytes ''zeno-fcis/effect-policy-check/1'')
     @ be_bytes 8 (of_nat (length decisions) :: u64)
     @ concat (map (\<lambda>d. codec_hash (pdc_identity d) @ codec_bytes (pdc_before d) @ codec_bytes (pdc_proposed d)
         @ (case pdc_verdict d of VD_Allow \<Rightarrow> [0] | VD_Reject code \<Rightarrow> [1, code_byte code])) decisions)"

text \<open>The loop of \<^verbatim>\<open>admit\<close>, over the monitors already asked and those still to ask.\<close>

fun admit_monitors :: "Monitor list \<Rightarrow> Operation \<Rightarrow> Monitor list \<Rightarrow> Check \<Rightarrow> Monitor list \<Rightarrow> Monitor list \<times> Check" where
  "admit_monitors original operation asked check [] = (asked, check)"
| "admit_monitors original operation asked check (monitor # monitors) =
     (let (state, verdict) = policy_step (mo_policy monitor) (mo_state monitor) operation None;
          decision = \<lparr>pdc_identity = mo_identity monitor, pdc_before = policy_state_bytes (mo_state monitor),
            pdc_proposed = policy_state_bytes state, pdc_verdict = verdict\<rparr>
      in case verdict of
        VD_Reject _ \<Rightarrow> (original, check @ [decision])
      | VD_Allow \<Rightarrow> admit_monitors original operation (asked @ [monitor\<lparr>mo_state := state\<rparr>]) (check @ [decision]) monitors)"

definition policy_admit :: "Monitor list \<Rightarrow> Operation \<Rightarrow> Monitor list \<times> Check" where
  "policy_admit monitors operation = admit_monitors monitors operation [] [] monitors"

section \<open>Transcripts and replay (record.rs)\<close>

record Implementation =
  im_name :: string
  im_source :: hash32

record Manifest =
  mf_registry :: hash32
  mf_program :: hash32
  mf_stack :: "string list"
  mf_schedule :: bytes
  mf_initial :: hash32
  mf_start :: bytes
  mf_implementations :: "Implementation list"
  mf_configuration :: bytes
  mf_seed :: u64
  mf_policies :: "Monitor list"

definition library_implementations :: "hasher \<Rightarrow> (string \<Rightarrow> bytes) \<Rightarrow> Implementation list" where
  "library_implementations H file =
     (let handler = source_digest H [(''handler.rs'', file ''handler.rs'')];
          recorder = source_digest H [(''record.rs'', file ''record.rs''), (''codec.rs'', file ''codec.rs'')]
      in [\<lparr>im_name = ''identity'', im_source = handler\<rparr>,
          \<lparr>im_name = ''fault'', im_source = handler\<rparr>,
          \<lparr>im_name = ''record'', im_source = recorder\<rparr>,
          \<lparr>im_name = ''replay'', im_source = recorder\<rparr>,
          \<lparr>im_name = ''policy'', im_source = policy_source H file\<rparr>,
          \<lparr>im_name = ''simulation'', im_source = source_digest H [(''simulation.rs'', file ''simulation.rs'')]\<rparr>])"

definition manifest_current ::
    "hasher \<Rightarrow> (string \<Rightarrow> bytes) \<Rightarrow> string list \<Rightarrow> bytes \<Rightarrow> hash32 \<Rightarrow> bytes \<Rightarrow> Manifest" where
  "manifest_current H file stack schedule initial start =
     \<lparr>mf_registry = registry_identity H REGISTRY, mf_program = program_source H file, mf_stack = stack,
      mf_schedule = schedule, mf_initial = initial, mf_start = start,
      mf_implementations = library_implementations H file, mf_configuration = [], mf_seed = 0, mf_policies = []\<rparr>"

definition monitors_bytes :: "Monitor list \<Rightarrow> bytes" where
  "monitors_bytes monitors = be_bytes 8 (of_nat (length monitors) :: u64)
     @ concat (map (\<lambda>m. codec_hash (mo_identity m) @ codec_bytes (policy_state_bytes (mo_state m))) monitors)"

definition manifest_bytes :: "Manifest \<Rightarrow> bytes" where
  "manifest_bytes m =
     codec_hash (mf_registry m) @ codec_hash (mf_program m)
     @ be_bytes 8 (of_nat (length (mf_stack m)) :: u64) @ concat (map (codec_bytes \<circ> ascii_bytes) (mf_stack m))
     @ codec_bytes (mf_schedule m) @ codec_hash (mf_initial m) @ codec_bytes (mf_start m)
     @ be_bytes 8 (of_nat (length (mf_implementations m)) :: u64)
     @ concat (map (\<lambda>i. codec_bytes (ascii_bytes (im_name i)) @ codec_hash (im_source i)) (mf_implementations m))
     @ codec_bytes (mf_configuration m) @ be_bytes 8 (mf_seed m)
     @ (if mf_policies m = [] then []
        else codec_bytes (ascii_bytes ''zeno-fcis/effect-policy-manifest/1'') @ monitors_bytes (mf_policies m))"

definition manifest_digest :: "hasher \<Rightarrow> Manifest \<Rightarrow> hash32" where
  "manifest_digest H m = h_hash H (manifest_bytes m)"

definition provenance_complete :: "Manifest \<Rightarrow> bool" where
  "provenance_complete m \<longleftrightarrow> list_all (\<lambda>name. list_ex (\<lambda>i. im_name i = name \<and> im_source i \<noteq> 0) (mf_implementations m)) (mf_stack m)"

datatype Entry =
    EN_Request Binding Operation
  | EN_Response Binding Response
  | EN_Crash Binding
  | EN_Done bytes
  | EN_Policy Binding Check

definition entry_bytes :: "Entry \<Rightarrow> bytes" where
  "entry_bytes e = (case e of
     EN_Request b operation \<Rightarrow> 0 # codec_bytes (binding_bytes b) @ codec_bytes (operation_bytes operation)
   | EN_Response b response \<Rightarrow> 1 # codec_bytes (binding_bytes b) @ codec_bytes (response_bytes response)
   | EN_Crash b \<Rightarrow> 2 # codec_bytes (binding_bytes b)
   | EN_Done outcome \<Rightarrow> 3 # codec_bytes outcome
   | EN_Policy b check \<Rightarrow> 4 # codec_bytes (binding_bytes b) @ codec_bytes (check_bytes check))"

record Link =
  lk_entry :: Entry
  lk_previous :: hash32
  lk_digest :: hash32

record Transcript =
  tr_manifest :: Manifest
  tr_links :: "Link list"

datatype ChainError = CHE_Link nat

definition link_digest :: "hasher \<Rightarrow> hash32 \<Rightarrow> Entry \<Rightarrow> hash32" where
  "link_digest H previous e = h_hash H (codec_hash previous @ entry_bytes e)"

definition transcript_new :: "Manifest \<Rightarrow> Transcript" where
  "transcript_new manifest = \<lparr>tr_manifest = manifest, tr_links = []\<rparr>"

definition transcript_tip :: "hasher \<Rightarrow> Transcript \<Rightarrow> hash32" where
  "transcript_tip H t = (if tr_links t = [] then manifest_digest H (tr_manifest t) else lk_digest (last (tr_links t)))"

definition transcript_append :: "hasher \<Rightarrow> Transcript \<Rightarrow> Entry \<Rightarrow> Transcript" where
  "transcript_append H t e =
     (let previous = transcript_tip H t
      in t\<lparr>tr_links := tr_links t @ [\<lparr>lk_entry = e, lk_previous = previous, lk_digest = link_digest H previous e\<rparr>]\<rparr>)"

text \<open>The loop of \<^verbatim>\<open>verify\<close>, from the digest the next link has to name.\<close>

fun verify_links :: "hasher \<Rightarrow> hash32 \<Rightarrow> nat \<Rightarrow> Link list \<Rightarrow> ChainError + unit" where
  "verify_links H previous index [] = Ok ()"
| "verify_links H previous index (link # links) =
     (if lk_previous link \<noteq> previous \<or> lk_digest link \<noteq> link_digest H previous (lk_entry link) then Err (CHE_Link index)
      else verify_links H (lk_digest link) (index + 1) links)"

definition transcript_verify :: "hasher \<Rightarrow> Transcript \<Rightarrow> ChainError + unit" where
  "transcript_verify H t = verify_links H (manifest_digest H (tr_manifest t)) 0 (tr_links t)"

datatype Ended = ED_Done bytes | ED_Crashed

datatype ReplayError =
    RPE_Chain ChainError
  | RPE_Manifest
  | RPE_Missing nat
  | RPE_Mismatch nat
  | RPE_Extra nat
  | RPE_Fatal Fatal

text \<open>The three lookups of a round: the outcome, the request and the verdicts have to be the recorded ones.\<close>

definition replay_done :: "Link list \<Rightarrow> nat \<Rightarrow> bytes \<Rightarrow> ReplayError + Ended" where
  "replay_done links at outcome =
     (case slice_get links at of
       None \<Rightarrow> Err (RPE_Missing at)
     | Some link \<Rightarrow>
         if lk_entry link \<noteq> EN_Done outcome then Err (RPE_Mismatch at)
         else if at + 1 < length links then Err (RPE_Extra (at + 1))
         else Ok (ED_Done outcome))"

definition replay_expect :: "Link list \<Rightarrow> nat \<Rightarrow> Entry \<Rightarrow> ReplayError + nat" where
  "replay_expect links at e =
     (case slice_get links at of
       None \<Rightarrow> Err (RPE_Missing at)
     | Some link \<Rightarrow> if lk_entry link \<noteq> e then Err (RPE_Mismatch at) else Ok (at + 1))"

definition replay_answer ::
    "('k, 't) Program \<Rightarrow> Link list \<Rightarrow> nat \<Rightarrow> Binding \<Rightarrow> Check \<Rightarrow> ('k, 't) Driver \<Rightarrow> ReplayError + ('k, 't) Driver option" where
  "replay_answer P links at b check driver =
     (case slice_get links at of
       None \<Rightarrow> Err (RPE_Missing at)
     | Some link \<Rightarrow>
         (case lk_entry link of
           EN_Response recorded response \<Rightarrow>
             if recorded \<noteq> b then Err (RPE_Mismatch at)
             else if (case check_rejection check of Some code \<Rightarrow> response \<noteq> R_Send (S_Refused code) | None \<Rightarrow> False)
             then Err (RPE_Mismatch at)
             else (case driver_reply P driver \<lparr>ry_binding = b, ry_response = response\<rparr> of
                 (Inl _, _) \<Rightarrow> Err (RPE_Mismatch at)
               | (Inr _, driver) \<Rightarrow> Ok (Some driver))
         | EN_Crash recorded \<Rightarrow>
             if recorded \<noteq> b then Err (RPE_Mismatch at)
             else if check_rejection check \<noteq> None then Err (RPE_Mismatch at)
             else if at + 1 < length links then Err (RPE_Extra (at + 1))
             else Ok None
         | _ \<Rightarrow> Err (RPE_Mismatch at)))"

lemma replay_expect_next: "replay_expect links at e = Inr n \<Longrightarrow> n = at + 1 \<and> at < length links"
  by (auto simp: replay_expect_def slice_get_def split: if_splits)

function replay_loop ::
    "('k, 't) Program \<Rightarrow> ('t Outcome \<Rightarrow> bytes) \<Rightarrow> Link list \<Rightarrow> nat \<Rightarrow> Monitor list \<Rightarrow> ('k, 't) Driver \<Rightarrow> ReplayError + Ended" where
  "replay_loop P done_bytes links at monitors driver =
     (case driver_failure driver of
       Some fatal \<Rightarrow> Err (RPE_Fatal fatal)
     | None \<Rightarrow>
     (case driver_outcome driver of
       Some outcome \<Rightarrow> replay_done links at (done_bytes outcome)
     | None \<Rightarrow>
     (case driver_request driver of
       None \<Rightarrow> Err (RPE_Mismatch at)
     | Some (b, operation) \<Rightarrow>
         rbind (replay_expect links at (EN_Request b operation)) (\<lambda>at'.
         let (next_monitors, check) = policy_admit monitors operation in
         rbind (if monitors = [] then Ok at' else replay_expect links at' (EN_Policy b check)) (\<lambda>at''.
         rbind (replay_answer P links at'' b check driver) (\<lambda>answer.
         case answer of
           None \<Rightarrow> Ok ED_Crashed
         | Some driver' \<Rightarrow> replay_loop P done_bytes links (at'' + 1) next_monitors driver'))))))"
  by pat_completeness auto

termination replay_loop
  by (relation "measure (\<lambda>(P, done_bytes, links, at, monitors, driver). length links - at)")
    (auto dest!: replay_expect_next split: if_splits)

declare replay_loop.simps [simp del]

definition record_replay ::
    "hasher \<Rightarrow> (string \<Rightarrow> bytes) \<Rightarrow> ('k, 't) Program \<Rightarrow> Transcript \<Rightarrow> bytes \<Rightarrow> u64 \<Rightarrow> ('k, 't) Step \<Rightarrow>
      ('t Outcome \<Rightarrow> bytes) \<Rightarrow> ReplayError + Ended" where
  "record_replay H file P t start epoch first done_bytes =
     rbind (map_err RPE_Chain (transcript_verify H t)) (\<lambda>_.
     let manifest = tr_manifest t in
     if \<not> provenance_complete manifest \<or> mf_registry manifest \<noteq> registry_identity H REGISTRY
        \<or> mf_program manifest \<noteq> program_source H file \<or> mf_start manifest \<noteq> start
        \<or> length (filter (\<lambda>name. name = ''policy'') (mf_stack manifest)) \<noteq> length (mf_policies manifest)
     then Err RPE_Manifest
     else rbind (map_err RPE_Fatal (driver_start P REGISTRY epoch first)) (\<lambda>driver.
       replay_loop P done_bytes (tr_links t) 0 (mf_policies manifest) driver))"

end
