(* ===== verification/Zeno_Handlers.thy ===== *)
theory Zeno_Handlers
  imports Zeno_Transcript
begin

text \<open>
  \<^verbatim>\<open>zeno-fcis-shell/src/effects/handler.rs\<close> and \<^verbatim>\<open>durable.rs\<close>: terminals, the fault handler, the stack of
  layers, and the relay that writes its reservations ahead; with the schedule of choices of
  \<^verbatim>\<open>simulation.rs\<close> that the fault handler consumes.

  A terminal is a record of functions over its own state; a handler takes the state and returns it.
  The store of checkpoints is a record of functions in the same way.
\<close>

section \<open>Schedules (simulation.rs)\<close>

record Script =
  sp_choices :: bytes
  sp_at :: nat
  sp_fault_free :: bool
  sp_needed :: "nat option"
  sp_malformed :: bool

definition script_new :: "bytes \<Rightarrow> Script" where
  "script_new choices = \<lparr>sp_choices = choices, sp_at = 0, sp_fault_free = False, sp_needed = None, sp_malformed = False\<rparr>"

definition script_fault_free :: Script where
  "script_fault_free = \<lparr>sp_choices = [], sp_at = 0, sp_fault_free = True, sp_needed = None, sp_malformed = False\<rparr>"

definition script_choose :: "Script \<Rightarrow> nat \<Rightarrow> nat option \<times> Script" where
  "script_choose s options =
     (if options = 1 \<or> sp_fault_free s then (Some 0, s)
      else case slice_get (sp_choices s) (sp_at s) of
        Some choice \<Rightarrow>
          if unat choice < options then (Some (unat choice), s\<lparr>sp_at := sp_at s + 1\<rparr>)
          else (None, s\<lparr>sp_malformed := True\<rparr>)
      | None \<Rightarrow> (None, s\<lparr>sp_needed := Some options\<rparr>))"

definition script_made :: "Script \<Rightarrow> bytes" where
  "script_made s = take (sp_at s) (sp_choices s)"

definition fault_choice :: "nat \<Rightarrow> Fault" where
  "fault_choice choice = (if choice = 0 then F_Busy else if choice = 1 then F_Full else F_Io)"

section \<open>Handlers (handler.rs)\<close>

datatype Handled = H_Answer Response | H_Crash | H_Suspend

datatype Invocation = IV_NotInvoked | IV_MayHaveInvoked

record Handling =
  hd_outcome :: Handled
  hd_invocation :: Invocation

record 's Terminal =
  tm_ports :: "Port list"
  tm_handle :: "'s \<Rightarrow> Binding \<Rightarrow> Operation \<Rightarrow> Handling \<times> 's"
  tm_crash :: "'s \<Rightarrow> Binding \<Rightarrow> 's"

text \<open>The trait's default method: a handler without evidence may have invoked.\<close>

definition default_handle_with_invocation ::
    "('s \<Rightarrow> Binding \<Rightarrow> Operation \<Rightarrow> Handled \<times> 's) \<Rightarrow> 's \<Rightarrow> Binding \<Rightarrow> Operation \<Rightarrow> Handling \<times> 's" where
  "default_handle_with_invocation handle s b operation =
     (let (outcome, s) = handle s b operation in (\<lparr>hd_outcome = outcome, hd_invocation = IV_MayHaveInvoked\<rparr>, s))"

subsection \<open>The fault handler\<close>

record 's FaultState =
  fs_inner :: 's
  fs_script :: Script
  fs_forwarded :: "Handled option"

definition fault_forward ::
    "'s Terminal \<Rightarrow> 's FaultState \<Rightarrow> Binding \<Rightarrow> Operation \<Rightarrow> Invocation \<Rightarrow> Handled \<times> Invocation \<times> 's FaultState" where
  "fault_forward T s b operation invocation =
     (let (report, inner) = tm_handle T (fs_inner s) b operation;
          invocation = (if hd_invocation report = IV_MayHaveInvoked then IV_MayHaveInvoked else invocation)
      in (hd_outcome report, invocation, s\<lparr>fs_inner := inner, fs_forwarded := Some (hd_outcome report)\<rparr>))"

definition fault_crash :: "'s Terminal \<Rightarrow> 's FaultState \<Rightarrow> Binding \<Rightarrow> Handled \<times> 's FaultState" where
  "fault_crash T s b = (H_Crash, s\<lparr>fs_inner := tm_crash T (fs_inner s) b\<rparr>)"

definition fault_options :: "Port \<Rightarrow> nat" where
  "fault_options port = (case port of
     P_Commit \<Rightarrow> 8 | P_Acknowledge \<Rightarrow> 8 | P_Send \<Rightarrow> 7
   | P_ReadState \<Rightarrow> 5 | P_ReadHistory \<Rightarrow> 5 | P_ReadOutbox \<Rightarrow> 5 | P_Reopen \<Rightarrow> 5
   | P_Clock \<Rightarrow> 4 | P_Random \<Rightarrow> 4 | P_Wait \<Rightarrow> 5)"

text \<open>The branch of the ports that write or send.\<close>

definition fault_write ::
    "'s Terminal \<Rightarrow> 's FaultState \<Rightarrow> Binding \<Rightarrow> Operation \<Rightarrow> Invocation \<Rightarrow> nat \<Rightarrow> Handled \<times> Invocation \<times> 's FaultState" where
  "fault_write T s b operation invocation choice =
     (let port = operation_port operation in
      if choice = 0 then fault_forward T s b operation invocation
      else if choice = 1 then (H_Answer (response_not_applied port F_Busy), invocation, s)
      else if choice = 2 then (H_Answer (response_unknown port), invocation, s)
      else if choice = 3 then
        (let (outcome, invocation, s) = fault_forward T s b operation invocation
         in case outcome of H_Answer _ \<Rightarrow> (H_Answer (response_unknown port), invocation, s) | other \<Rightarrow> (other, invocation, s))
      else if choice = 4 then (let (outcome, s) = fault_crash T s b in (outcome, invocation, s))
      else if choice = 5 then
        (let (outcome, invocation, s) = fault_forward T s b operation invocation
         in case outcome of H_Answer _ \<Rightarrow> (let (outcome, s) = fault_crash T s b in (outcome, invocation, s))
           | other \<Rightarrow> (other, invocation, s))
      else if choice = 6 \<and> port = P_Send then
        (let (_, invocation, s) = fault_forward T s b operation invocation in fault_forward T s b operation invocation)
      else if choice = 6 then (H_Answer (response_not_applied port F_Full), invocation, s)
      else (H_Answer (response_not_applied port F_Io), invocation, s))"

definition fault_handle_request ::
    "'s Terminal \<Rightarrow> 's FaultState \<Rightarrow> Binding \<Rightarrow> Operation \<Rightarrow> Invocation \<Rightarrow> Handled \<times> Invocation \<times> 's FaultState" where
  "fault_handle_request T s b operation invocation =
     (let s = s\<lparr>fs_forwarded := None\<rparr>; port = operation_port operation;
          (choice, script) = script_choose (fs_script s) (fault_options port);
          s = s\<lparr>fs_script := script\<rparr>
      in case choice of
        None \<Rightarrow> (H_Suspend, invocation, s)
      | Some choice \<Rightarrow>
          if port \<in> {P_Clock, P_Random, P_Wait} then
            (if choice = 0 then fault_forward T s b operation invocation
             else if port = P_Wait \<and> choice = 1 then (H_Answer (R_Wait (Err W_Interrupted)), invocation, s)
             else let offset = (if port = P_Wait then choice - 2 else choice - 1)
               in (H_Answer (response_not_applied port (fault_choice offset)), invocation, s))
          else if port \<in> {P_ReadState, P_ReadHistory, P_ReadOutbox, P_Reopen} then
            (if choice = 0 then fault_forward T s b operation invocation
             else if choice = 1 then (H_Answer (response_not_applied port F_Busy), invocation, s)
             else if choice = 2 then (let (outcome, s) = fault_crash T s b in (outcome, invocation, s))
             else if choice = 3 then (H_Answer (response_not_applied port F_Full), invocation, s)
             else (H_Answer (response_not_applied port F_Io), invocation, s))
          else fault_write T s b operation invocation choice)"

definition fault_handle_with_invocation :: "'s Terminal \<Rightarrow> 's FaultState \<Rightarrow> Binding \<Rightarrow> Operation \<Rightarrow> Handling \<times> 's FaultState" where
  "fault_handle_with_invocation T s b operation =
     (let (outcome, invocation, s) = fault_handle_request T s b operation IV_NotInvoked
      in (\<lparr>hd_outcome = outcome, hd_invocation = invocation\<rparr>, s))"

text \<open>\<^verbatim>\<open>crash\<close> of the fault handler as a terminal is the trait's default, which does nothing.\<close>

definition fault_terminal :: "'s Terminal \<Rightarrow> 's FaultState Terminal" where
  "fault_terminal T = \<lparr>tm_ports = tm_ports T, tm_handle = fault_handle_with_invocation T, tm_crash = (\<lambda>s b. s)\<rparr>"

subsection \<open>The stack\<close>

datatype Layer = LY_Identity | LY_Record Transcript | LY_Policy Monitor

fun layer_name :: "Layer \<Rightarrow> string" where
  "layer_name LY_Identity = ''identity''"
| "layer_name (LY_Record _) = ''record''"
| "layer_name (LY_Policy _) = ''policy''"

datatype Unbound = Uncovered Port

fun bind_ports :: "Port list \<Rightarrow> Port list \<Rightarrow> Unbound + unit" where
  "bind_ports covered [] = Ok ()"
| "bind_ports covered (port # requested) = (if port \<notin> set covered then Err (Uncovered port) else bind_ports covered requested)"

type_synonym Stack = "Layer list"

fun stack_monitors :: "Stack \<Rightarrow> Monitor list" where
  "stack_monitors [] = []"
| "stack_monitors (LY_Policy monitor # layers) = monitor # stack_monitors layers"
| "stack_monitors (_ # layers) = stack_monitors layers"

fun stack_install :: "Monitor list \<Rightarrow> Stack \<Rightarrow> Stack" where
  "stack_install values [] = []"
| "stack_install (v # values) (LY_Policy monitor # layers) = LY_Policy v # stack_install values layers"
| "stack_install [] (LY_Policy monitor # layers) = LY_Policy monitor # stack_install [] layers"
| "stack_install values (layer # layers) = layer # stack_install values layers"

text \<open>Both loops over the record layers change each transcript on its own, so their order does not matter.\<close>

fun map_transcript :: "(Transcript \<Rightarrow> Transcript) \<Rightarrow> Layer \<Rightarrow> Layer" where
  "map_transcript f (LY_Record t) = LY_Record (f t)"
| "map_transcript f layer = layer"

definition stack_bind_recording :: "Monitor list \<Rightarrow> Stack \<Rightarrow> Stack" where
  "stack_bind_recording monitors layers =
     map (map_transcript (\<lambda>t. if tr_links t = [] then t\<lparr>tr_manifest := (tr_manifest t)\<lparr>mf_policies := monitors\<rparr>\<rparr> else t)) layers"

definition handled_entry :: "Binding \<Rightarrow> Handled \<Rightarrow> Entry option" where
  "handled_entry b handled = (case handled of
     H_Answer response \<Rightarrow> Some (EN_Response b response) | H_Crash \<Rightarrow> Some (EN_Crash b) | H_Suspend \<Rightarrow> None)"

definition stack_append :: "hasher \<Rightarrow> Binding \<Rightarrow> Operation \<Rightarrow> Check \<Rightarrow> Entry \<Rightarrow> Transcript \<Rightarrow> Transcript" where
  "stack_append H b operation check e t =
     (let t = transcript_append H t (EN_Request b operation);
          t = (if check \<noteq> [] then transcript_append H t (EN_Policy b check) else t)
      in transcript_append H t e)"

definition stack_handle :: "hasher \<Rightarrow> 's Terminal \<Rightarrow> Stack \<Rightarrow> 's \<Rightarrow> Binding \<Rightarrow> Operation \<Rightarrow> Handled \<times> Stack \<times> 's" where
  "stack_handle H T layers s b operation =
     (let previous = stack_monitors layers;
          layers = stack_bind_recording previous layers;
          (next_monitors, check) = policy_admit previous operation;
          layers = stack_install next_monitors layers;
          (handled, invocation, s) = (case check_rejection check of
              Some code \<Rightarrow> (H_Answer (R_Send (S_Refused code)), IV_MayHaveInvoked, s)
            | None \<Rightarrow> (let (report, s) = tm_handle T s b operation in (hd_outcome report, hd_invocation report, s)));
          layers = (if handled = H_Suspend \<and> invocation = IV_NotInvoked then stack_install previous layers else layers);
          layers = (case handled_entry b handled of
              None \<Rightarrow> layers
            | Some e \<Rightarrow> map (map_transcript (stack_append H b operation check e)) layers)
      in (handled, layers, s))"

definition stack_done :: "hasher \<Rightarrow> Stack \<Rightarrow> bytes \<Rightarrow> Stack" where
  "stack_done H layers outcome =
     map (map_transcript (\<lambda>t. transcript_append H t (EN_Done outcome))) (stack_bind_recording (stack_monitors layers) layers)"

fun stack_transcripts :: "Stack \<Rightarrow> Transcript list" where
  "stack_transcripts [] = []"
| "stack_transcripts (LY_Record t # layers) = t # stack_transcripts layers"
| "stack_transcripts (_ # layers) = stack_transcripts layers"

definition stack_policies :: "Stack \<Rightarrow> Stack" where
  "stack_policies layers = filter (\<lambda>layer. case layer of LY_Policy _ \<Rightarrow> True | _ \<Rightarrow> False) layers"

definition stack_policy_bytes :: "Stack \<Rightarrow> bytes" where
  "stack_policy_bytes layers =
     concat (map (\<lambda>m. codec_hash (mo_identity m) @ codec_bytes (policy_state_bytes (mo_state m))) (stack_monitors layers))"

end
