(* ===== verification/Zeno_Durable.thy ===== *)
theory Zeno_Durable
  imports Zeno_Handlers
begin

text \<open>
  \<^verbatim>\<open>zeno-fcis-shell/src/effects/durable.rs\<close>: checkpoints of the reservations, their restoration, and the
  relay that commits a reservation before it forwards a send.

  The checkpoint store is a record of functions over its own state; reading is over the input that is
  left, and every early return is an error.
\<close>

section \<open>Checkpoints\<close>

definition DURABLE_MAX_BYTES :: nat where
  "DURABLE_MAX_BYTES = 1048576"

definition DURABLE_MAGIC :: bytes where
  "DURABLE_MAGIC = ascii_bytes ''ZFEFD001''"

datatype DurableError =
  DRE_Storage | DRE_Missing | DRE_Corrupt | DRE_Binding | DRE_Capacity | DRE_Conflict | DRE_Stopped

record 'm StateStore =
  ss_load :: "'m \<Rightarrow> (DurableError + bytes) \<times> 'm"
  ss_commit :: "'m \<Rightarrow> bytes \<Rightarrow> bytes \<Rightarrow> (DurableError + unit) \<times> 'm"

definition durable_source :: "hasher \<Rightarrow> (string \<Rightarrow> bytes) \<Rightarrow> hash32" where
  "durable_source H file = source_digest H [(''durable.rs'', file ''durable.rs''),
     (''policy-source'', be_bytes 32 (policy_source H file))]"

definition checkpoint_body :: "hasher \<Rightarrow> (string \<Rightarrow> bytes) \<Rightarrow> hash32 \<Rightarrow> Monitor list \<Rightarrow> hash32 option \<Rightarrow> bytes" where
  "checkpoint_body H file scope monitors release =
     DURABLE_MAGIC @ codec_hash (durable_source H file) @ codec_hash scope
     @ (case release of None \<Rightarrow> [0] | Some key \<Rightarrow> 1 # codec_hash key)
     @ monitors_bytes monitors"

definition checkpoint :: "hasher \<Rightarrow> (string \<Rightarrow> bytes) \<Rightarrow> hash32 \<Rightarrow> Monitor list \<Rightarrow> hash32 option \<Rightarrow> DurableError + bytes" where
  "checkpoint H file scope monitors release =
     (let body = checkpoint_body H file scope monitors release; out = body @ codec_hash (h_hash H body)
      in if length out > DURABLE_MAX_BYTES then Err DRE_Capacity else Ok out)"

definition durable_take :: "bytes \<Rightarrow> nat \<Rightarrow> DurableError + bytes \<times> bytes" where
  "durable_take bs n = (if n \<le> length bs then Ok (take n bs, drop n bs) else Err DRE_Corrupt)"

text \<open>Eight bytes always make a number, and a \<^verbatim>\<open>usize\<close> has 64 bits.\<close>

definition durable_number :: "bytes \<Rightarrow> DurableError + nat \<times> bytes" where
  "durable_number bs = rbind (durable_take bs 8) (\<lambda>(raw, bs). Ok (unat (be_word raw :: u64), bs))"

definition durable_hash :: "bytes \<Rightarrow> DurableError + hash32 \<times> bytes" where
  "durable_hash bs = rbind (durable_take bs 32) (\<lambda>(raw, bs). Ok (be_word raw, bs))"

definition key_operation :: "hash32 \<Rightarrow> hash32 \<Rightarrow> Operation" where
  "key_operation scope i =
     Op_Send \<lparr>st_identity = scope, st_handle = 0\<rparr>
       \<lparr>dl_id = i, dl_version = 0, dl_lane = 0, dl_ordinal = 0, dl_destination = [], dl_payload = [], dl_payload_sha256 = 0\<rparr>"

definition is_guard :: "Policy \<Rightarrow> bool" where
  "is_guard policy \<longleftrightarrow> (case policy of PL_AtMostOne _ \<Rightarrow> True | _ \<Rightarrow> False)"

text \<open>The keys of one monitor: each is admitted again, and the last one has to be the released one.
  The state before the last key is returned beside the state after it.\<close>

fun restore_keys ::
    "hash32 \<Rightarrow> Policy \<Rightarrow> hash32 option \<Rightarrow> nat \<Rightarrow> PolicyState \<Rightarrow> PolicyState \<Rightarrow> bytes \<Rightarrow> DurableError + PolicyState \<times> PolicyState" where
  "restore_keys scope policy release 0 preceding state keys = Ok (preceding, state)"
| "restore_keys scope policy release (Suc n) preceding state keys =
     rbind (durable_hash keys) (\<lambda>(store, keys).
     rbind (durable_hash keys) (\<lambda>(key, keys).
     if store \<noteq> scope then Err DRE_Binding
     else let (next_state, verdict) = policy_step policy state (key_operation store key) None in
     if verdict \<noteq> VD_Allow then Err DRE_Corrupt
     else if n = 0 \<and> release \<noteq> None \<and> release \<noteq> Some key then Err DRE_Corrupt
     else restore_keys scope policy release n state next_state keys))"

definition restore_monitor ::
    "hasher \<Rightarrow> (string \<Rightarrow> bytes) \<Rightarrow> hash32 \<Rightarrow> hash32 option \<Rightarrow> Policy \<Rightarrow> bytes \<Rightarrow> DurableError + Monitor \<times> bytes" where
  "restore_monitor H file scope release policy input =
     (let monitor = monitor_new H file policy in
      rbind (durable_hash input) (\<lambda>(identity, input).
      if identity \<noteq> mo_identity monitor then Err DRE_Binding
      else rbind (durable_number input) (\<lambda>(size, input).
      rbind (durable_take input size) (\<lambda>(state, input).
      rbind (durable_number state) (\<lambda>(n, keys).
      if n * 64 > usize_max \<or> n * 64 \<noteq> length keys then Err DRE_Corrupt
      else if \<not> is_guard policy \<and> n \<noteq> 0 \<or> is_guard policy \<and> release \<noteq> None \<and> n = 0 then Err DRE_Corrupt
      else rbind (restore_keys scope policy release n [] [] keys) (\<lambda>(preceding, reserved).
      if policy_state_bytes reserved \<noteq> state then Err DRE_Corrupt
      else Ok (monitor\<lparr>mo_state := (if is_guard policy \<and> release \<noteq> None then preceding else reserved)\<rparr>, input)))))))"

fun restore_monitors ::
    "hasher \<Rightarrow> (string \<Rightarrow> bytes) \<Rightarrow> hash32 \<Rightarrow> hash32 option \<Rightarrow> Policy list \<Rightarrow> bytes \<Rightarrow> DurableError + Monitor list" where
  "restore_monitors H file scope release [] input = (if input \<noteq> [] then Err DRE_Corrupt else Ok [])"
| "restore_monitors H file scope release (policy # policies) input =
     rbind (restore_monitor H file scope release policy input) (\<lambda>(monitor, input).
     rbind (restore_monitors H file scope release policies input) (\<lambda>monitors. Ok (monitor # monitors)))"

definition restore_release :: "bytes \<Rightarrow> DurableError + hash32 option \<times> bytes" where
  "restore_release input =
     rbind (durable_take input 1) (\<lambda>(tag, input).
     if tag = [0] then Ok (None, input)
     else if tag = [1] then rbind (durable_hash input) (\<lambda>(key, input). Ok (Some key, input))
     else Err DRE_Corrupt)"

definition restore :: "hasher \<Rightarrow> (string \<Rightarrow> bytes) \<Rightarrow> hash32 \<Rightarrow> Policy list \<Rightarrow> bytes \<Rightarrow> DurableError + Monitor list" where
  "restore H file scope policies bs =
     (if length bs > DURABLE_MAX_BYTES \<or> length policies > 64 then Err DRE_Capacity
      else if \<not> list_ex is_guard policies then Err DRE_Binding
      else if length bs < 32 then Err DRE_Corrupt
      else
      let body = take (length bs - 32) bs; checksum = drop (length bs - 32) bs in
      if be_bytes 32 (h_hash H body) \<noteq> checksum then Err DRE_Corrupt
      else rbind (durable_take body (length DURABLE_MAGIC)) (\<lambda>(magic, input).
      if magic \<noteq> DURABLE_MAGIC then Err DRE_Binding
      else rbind (durable_hash input) (\<lambda>(src, input).
      if src \<noteq> durable_source H file then Err DRE_Binding
      else rbind (durable_hash input) (\<lambda>(scope', input).
      if scope' \<noteq> scope then Err DRE_Binding
      else rbind (restore_release input) (\<lambda>(release, input).
      rbind (durable_number input) (\<lambda>(n, input).
      if n \<noteq> length policies then Err DRE_Binding
      else restore_monitors H file scope release policies input))))))"

definition durable_initial :: "hasher \<Rightarrow> (string \<Rightarrow> bytes) \<Rightarrow> hash32 \<Rightarrow> Policy list \<Rightarrow> DurableError + bytes" where
  "durable_initial H file scope policies =
     rbind (checkpoint H file scope (map (monitor_new H file) policies) None) (\<lambda>bs.
     rbind (restore H file scope policies bs) (\<lambda>_. Ok bs))"

section \<open>The relay\<close>

record 'm Relay =
  rl_store :: 'm
  rl_scope :: hash32
  rl_monitors :: "Monitor list"
  rl_stored :: bytes
  rl_transcript :: Transcript
  rl_stopped :: bool

definition relay_open ::
    "hasher \<Rightarrow> (string \<Rightarrow> bytes) \<Rightarrow> 'm StateStore \<Rightarrow> 'm \<Rightarrow> hash32 \<Rightarrow> Policy list \<Rightarrow> Manifest \<Rightarrow> DurableError + 'm Relay" where
  "relay_open H file S store scope policies manifest =
     (let (loaded, store) = ss_load S store in
      rbind loaded (\<lambda>stored.
      rbind (restore H file scope policies stored) (\<lambda>monitors.
      if \<not> provenance_complete manifest \<or> list_ex (\<lambda>name. name = ''policy'' \<or> name = ''durable'') (mf_stack manifest)
      then Err DRE_Binding
      else
      let manifest = manifest\<lparr>
          mf_configuration := DURABLE_MAGIC @ codec_bytes (mf_configuration manifest) @ codec_bytes stored,
          mf_policies := monitors,
          mf_stack := replicate (length monitors) ''policy'' @ mf_stack manifest @ [''durable''],
          mf_implementations := mf_implementations manifest @ [\<lparr>im_name = ''durable'', im_source = durable_source H file\<rparr>]\<rparr>
      in Ok \<lparr>rl_store = store, rl_scope = scope, rl_monitors = monitors, rl_stored = stored,
          rl_transcript = transcript_new manifest, rl_stopped = False\<rparr>)))"

text \<open>\<^verbatim>\<open>checkpoint\<close> and \<^verbatim>\<open>store.commit\<close>: the new checkpoint is kept only if both succeed.\<close>

definition relay_commit ::
    "hasher \<Rightarrow> (string \<Rightarrow> bytes) \<Rightarrow> 'm StateStore \<Rightarrow> 'm Relay \<Rightarrow> Monitor list \<Rightarrow> hash32 option \<Rightarrow> (DurableError + unit) \<times> 'm Relay" where
  "relay_commit H file S r monitors release =
     (case checkpoint H file (rl_scope r) monitors release of
       Inl e \<Rightarrow> (Err e, r)
     | Inr bs \<Rightarrow>
         (let (result, store) = ss_commit S (rl_store r) (rl_stored r) bs in
          case result of
            Inl e \<Rightarrow> (Err e, r\<lparr>rl_store := store\<rparr>)
          | Inr _ \<Rightarrow> (Ok (), r\<lparr>rl_store := store, rl_stored := bs\<rparr>)))"

definition relay_append :: "hasher \<Rightarrow> Binding \<Rightarrow> Operation \<Rightarrow> Check \<Rightarrow> Handled \<Rightarrow> 'm Relay \<Rightarrow> 'm Relay" where
  "relay_append H b operation check handled r =
     (case handled_entry b handled of
       None \<Rightarrow> r
     | Some e \<Rightarrow> r\<lparr>rl_transcript := transcript_append H (transcript_append H (transcript_append H (rl_transcript r)
         (EN_Request b operation)) (EN_Policy b check)) e\<rparr>)"

text \<open>After the terminal: a suspension that certainly invoked nothing releases the reservation.\<close>

definition relay_settle ::
    "hasher \<Rightarrow> (string \<Rightarrow> bytes) \<Rightarrow> 'm StateStore \<Rightarrow> 'm Relay \<Rightarrow> Monitor list \<Rightarrow> Operation \<Rightarrow> Handling \<Rightarrow>
      (DurableError + unit) \<times> 'm Relay" where
  "relay_settle H file S r previous operation report =
     (if hd_outcome report = H_Suspend \<and> hd_invocation report = IV_NotInvoked then
        (let (result, r) = (case operation of
             Op_Send _ delivery \<Rightarrow> relay_commit H file S r (rl_monitors r) (Some (dl_id delivery))
           | _ \<Rightarrow> (Ok (), r))
         in case result of Inl e \<Rightarrow> (Err e, r) | Inr _ \<Rightarrow> (Ok (), r\<lparr>rl_monitors := previous\<rparr>))
      else (Ok (), r))"

definition relay_handle ::
    "hasher \<Rightarrow> (string \<Rightarrow> bytes) \<Rightarrow> 'm StateStore \<Rightarrow> 's Terminal \<Rightarrow> 'm Relay \<Rightarrow> 's \<Rightarrow> Binding \<Rightarrow> Operation \<Rightarrow>
      (DurableError + Handled) \<times> 'm Relay \<times> 's" where
  "relay_handle H file S T r s b operation =
     (if rl_stopped r then (Err DRE_Stopped, r, s)
      else if binding_of (bd_id b) operation \<noteq> b
        \<or> (case operation_store operation of Some store \<Rightarrow> st_identity store \<noteq> rl_scope r | None \<Rightarrow> False)
      then (Err DRE_Binding, r, s)
      else
      let previous = rl_monitors r; (next_monitors, check) = policy_admit previous operation in
      case check_rejection check of
        Some code \<Rightarrow>
          (let handled = H_Answer (R_Send (S_Refused code)) in (Ok handled, relay_append H b operation check handled r, s))
      | None \<Rightarrow>
          (let r = r\<lparr>rl_stopped := True\<rparr>;
               (reserved, r) = (case operation of
                   Op_Send _ _ \<Rightarrow> relay_commit H file S r next_monitors None
                 | _ \<Rightarrow> (Ok (), r))
           in case reserved of
             Inl e \<Rightarrow> (Err e, r, s)
           | Inr _ \<Rightarrow>
               (let r = r\<lparr>rl_monitors := next_monitors\<rparr>; (report, s) = tm_handle T s b operation;
                    (settled, r) = relay_settle H file S r previous operation report
                in case settled of
                  Inl e \<Rightarrow> (Err e, r, s)
                | Inr _ \<Rightarrow>
                    (Ok (hd_outcome report),
                     relay_append H b operation check (hd_outcome report) (r\<lparr>rl_stopped := (hd_outcome report = H_Crash)\<rparr>), s))))"

definition relay_done :: "hasher \<Rightarrow> 'm Relay \<Rightarrow> bytes \<Rightarrow> 'm Relay" where
  "relay_done H r outcome = r\<lparr>rl_transcript := transcript_append H (rl_transcript r) (EN_Done outcome)\<rparr>"

section \<open>Replay of a durable run\<close>

definition durable_validate ::
    "hasher \<Rightarrow> (string \<Rightarrow> bytes) \<Rightarrow> Transcript \<Rightarrow> hash32 \<Rightarrow> Policy list \<Rightarrow> DurableError + unit" where
  "durable_validate H file t scope policies =
     (let manifest = tr_manifest t in
      rbind (durable_take (mf_configuration manifest) (length DURABLE_MAGIC)) (\<lambda>(magic, input).
      if magic \<noteq> DURABLE_MAGIC then Err DRE_Binding
      else rbind (durable_number input) (\<lambda>(original_size, input).
      rbind (durable_take input original_size) (\<lambda>(_, input).
      rbind (durable_number input) (\<lambda>(size, input).
      rbind (durable_take input size) (\<lambda>(stored, input).
      if input \<noteq> [] then Err DRE_Binding
      else rbind (restore H file scope policies stored) (\<lambda>monitors.
      if monitors \<noteq> mf_policies manifest
         \<or> length (filter (\<lambda>name. name = ''durable'') (mf_stack manifest)) \<noteq> 1
         \<or> \<not> list_ex (\<lambda>i. im_name i = ''durable'' \<and> im_source i = durable_source H file) (mf_implementations manifest)
      then Err DRE_Binding else Ok ())))))))"

definition durable_replay ::
    "hasher \<Rightarrow> (string \<Rightarrow> bytes) \<Rightarrow> ('k, 't) Program \<Rightarrow> Transcript \<Rightarrow> hash32 \<Rightarrow> Policy list \<Rightarrow> bytes \<Rightarrow> u64 \<Rightarrow> ('k, 't) Step \<Rightarrow>
      ('t Outcome \<Rightarrow> bytes) \<Rightarrow> ReplayError + Ended" where
  "durable_replay H file P t scope policies start epoch first done_bytes =
     rbind (map_err (\<lambda>_. RPE_Manifest) (durable_validate H file t scope policies)) (\<lambda>_.
     record_replay H file P t start epoch first done_bytes)"

end
