(* ===== verification/Zeno_Policy_Laws.thy ===== *)
theory Zeno_Policy_Laws
  imports Zeno_Durable
begin

text \<open>
  Laws of the policies and of the stack of layers (\<^verbatim>\<open>policy.rs\<close>, \<^verbatim>\<open>policy_record.rs\<close>, \<^verbatim>\<open>handler.rs\<close>).

  A log keeps every request that reached a terminal with the terminal's report.  The locale
  \<open>reservation\<close> is the discipline that both the stack and the durable relay follow: a key is reserved
  before the request that carries it is forwarded, and a reserved key is never forwarded again.
\<close>

section \<open>Admission\<close>

text \<open>The key of an external effect that a request carries.\<close>

definition send_key :: "Operation \<Rightarrow> EffectKey option" where
  "send_key operation = (case operation of Op_Send store delivery \<Rightarrow> Some (st_identity store, dl_id delivery) | _ \<Rightarrow> None)"

definition monitor_allows :: "Operation \<Rightarrow> Monitor \<Rightarrow> bool" where
  "monitor_allows operation m \<longleftrightarrow>
     (case operation of
       Op_Send store delivery \<Rightarrow>
         (case mo_policy m of
           PL_AtMostOne capacity \<Rightarrow>
             (st_identity store, dl_id delivery) \<notin> set (mo_state m) \<and> length (mo_state m) < unat capacity
         | PL_Allowlist recipients \<Rightarrow> dl_destination delivery \<in> set recipients)
     | _ \<Rightarrow> True)"

definition monitor_reserve :: "Operation \<Rightarrow> Monitor \<Rightarrow> Monitor" where
  "monitor_reserve operation m =
     (case (mo_policy m, send_key operation) of
       (PL_AtMostOne _, Some key) \<Rightarrow> m\<lparr>mo_state := mo_state m @ [key]\<rparr>
     | _ \<Rightarrow> m)"

lemma monitor_reserve_keeps [simp]:
  "mo_policy (monitor_reserve operation m) = mo_policy m" "mo_identity (monitor_reserve operation m) = mo_identity m"
  by (simp_all add: monitor_reserve_def split: Policy.split option.split)

lemma policy_step_exact:
  "policy_step (mo_policy m) (mo_state m) operation None =
     (s, v) \<longleftrightarrow> (if monitor_allows operation m then v = VD_Allow \<and> s = mo_state (monitor_reserve operation m)
       else (\<exists>code. v = VD_Reject code) \<and> s = mo_state m \<and> policy_step (mo_policy m) (mo_state m) operation None = (s, v))"
  by (cases operation; cases "mo_policy m")
    (auto simp: policy_step_def policy_decide_def monitor_allows_def monitor_reserve_def send_key_def Let_def split: if_splits)

lemma check_rejection_append [simp]:
  "check_rejection (xs @ ys) = (case check_rejection xs of None \<Rightarrow> check_rejection ys | Some code \<Rightarrow> Some code)"
  by (induction xs) (auto split: Verdict.split)

lemma admit_monitors_exact:
  "check_rejection check = None \<Longrightarrow> admit_monitors original operation asked check ms = (ms', check') \<Longrightarrow>
     (check_rejection check' = None \<longleftrightarrow> list_all (monitor_allows operation) ms)
     \<and> ms' = (if list_all (monitor_allows operation) ms then asked @ map (monitor_reserve operation) ms else original)"
proof (induction ms arbitrary: asked check)
  case (Cons m ms)
  obtain s v where s: "policy_step (mo_policy m) (mo_state m) operation None = (s, v)" by fastforce
  show ?case
  proof (cases "monitor_allows operation m")
    case True
    with s policy_step_exact [of m operation s v] have v: "v = VD_Allow" "s = mo_state (monitor_reserve operation m)" by auto
    have r: "m\<lparr>mo_state := s\<rparr> = monitor_reserve operation m"
      by (simp add: v(2) monitor_reserve_def split: Policy.split option.split)
    let ?d = "\<lparr>pdc_identity = mo_identity m, pdc_before = policy_state_bytes (mo_state m),
      pdc_proposed = policy_state_bytes s, pdc_verdict = VD_Allow\<rparr>"
    from Cons.prems(2) s v(1) r
    have 1: "admit_monitors original operation (asked @ [monitor_reserve operation m]) (check @ [?d]) ms = (ms', check')"
      by simp
    have 2: "check_rejection (check @ [?d]) = None" using Cons.prems(1) by simp
    from Cons.IH [OF 2 1] True show ?thesis by simp
  next
    case False
    with s policy_step_exact [of m operation s v] obtain code where "v = VD_Reject code" by auto
    with Cons.prems s False show ?thesis by auto
  qed
qed auto

text \<open>A request is admitted exactly if every monitor allows it; then every monitor has reserved its key,
  and otherwise none has.\<close>

lemma policy_admit_exact:
  assumes "policy_admit ms operation = (ms', check)"
  shows "check_rejection check = None \<longleftrightarrow> list_all (monitor_allows operation) ms"
    and "ms' = (if list_all (monitor_allows operation) ms then map (monitor_reserve operation) ms else ms)"
  using admit_monitors_exact [of "[]" ms operation "[]" ms ms' check] assms by (simp_all add: policy_admit_def)

section \<open>The reservation discipline\<close>

fun run_events :: "('st \<Rightarrow> 'ev \<Rightarrow> 'st) \<Rightarrow> 'st \<Rightarrow> 'ev list \<Rightarrow> 'st" where
  "run_events step s [] = s"
| "run_events step s (e # es) = run_events step (step s e) es"

locale reservation =
  fixes step :: "'st \<Rightarrow> 'ev \<Rightarrow> 'st"
    and good :: "'st \<Rightarrow> bool"
    and reserved :: "'st \<Rightarrow> 'k set"
    and invoked :: "'st \<Rightarrow> 'k list"
  assumes step_good: "good s \<Longrightarrow> good (step s e)"
    and step_keeps: "good s \<Longrightarrow> reserved s \<subseteq> reserved (step s e)"
    and step_invokes: "good s \<Longrightarrow> invoked (step s e) = invoked s
      \<or> (\<exists>key. key \<notin> reserved s \<and> key \<in> reserved (step s e) \<and> invoked (step s e) = invoked s @ [key])"
begin

lemma run_at_most_once:
  assumes "good s"
  shows "good (run_events step s es) \<and> reserved s \<subseteq> reserved (run_events step s es)
    \<and> (\<exists>keys. invoked (run_events step s es) = invoked s @ keys \<and> distinct keys \<and> set keys \<inter> reserved s = {}
         \<and> set keys \<subseteq> reserved (run_events step s es))"
  using assms
proof (induction es arbitrary: s)
  case (Cons e es)
  let ?s = "step s e"
  note IH = Cons.IH [OF step_good [OF Cons.prems, of e]]
  then obtain keys where keys: "invoked (run_events step ?s es) = invoked ?s @ keys" "distinct keys"
    "set keys \<inter> reserved ?s = {}" "set keys \<subseteq> reserved (run_events step ?s es)" by blast
  from step_invokes [OF Cons.prems, of e] obtain new where
    new: "invoked ?s = invoked s @ new" "distinct new" "set new \<inter> reserved s = {}" "set new \<subseteq> reserved ?s"
  proof
    assume "\<exists>key. key \<notin> reserved s \<and> key \<in> reserved ?s \<and> invoked ?s = invoked s @ [key]"
    then obtain key where "key \<notin> reserved s" "key \<in> reserved ?s" "invoked ?s = invoked s @ [key]" by blast
    then show ?thesis by (intro that [of "[key]"]) auto
  qed (use that [of "[]"] in simp)
  from IH keys new step_keeps [OF Cons.prems, of e] show ?case by (auto intro!: exI [of _ "new @ keys"])
qed simp

end

section \<open>The stack\<close>

text \<open>A terminal that keeps the log of the requests that reach it.\<close>

type_synonym TerminalLog = "(Operation \<times> Handling) list"

definition logged_terminal :: "'s Terminal \<Rightarrow> ('s \<times> TerminalLog) Terminal" where
  "logged_terminal T =
     \<lparr>tm_ports = tm_ports T,
      tm_handle = (\<lambda>(s, log) b operation. let (report, s) = tm_handle T s b operation in (report, (s, log @ [(operation, report)]))),
      tm_crash = (\<lambda>(s, log) b. (tm_crash T s b, log))\<rparr>"

definition may_have_invoked :: "Handling \<Rightarrow> bool" where
  "may_have_invoked report \<longleftrightarrow> \<not> (hd_outcome report = H_Suspend \<and> hd_invocation report = IV_NotInvoked)"

text \<open>The keys of the sends that may have reached an effect, in order.\<close>

definition invoked_keys :: "TerminalLog \<Rightarrow> EffectKey list" where
  "invoked_keys log = concat (map (\<lambda>(operation, report). case send_key operation of
     Some key \<Rightarrow> if may_have_invoked report then [key] else [] | None \<Rightarrow> []) log)"

lemma invoked_keys_simps [simp]:
  "invoked_keys [] = []"
  "invoked_keys (log @ log') = invoked_keys log @ invoked_keys log'"
  "invoked_keys [(operation, report)] = (case send_key operation of
     Some key \<Rightarrow> if may_have_invoked report then [key] else [] | None \<Rightarrow> [])"
  by (simp_all add: invoked_keys_def)

lemma stack_monitors_transcripts [simp]: "stack_monitors (map (map_transcript f) layers) = stack_monitors layers"
proof (induction layers)
  case (Cons layer layers)
  then show ?case by (cases layer) auto
qed simp

lemma stack_monitors_bound [simp]: "stack_monitors (stack_bind_recording ms layers) = stack_monitors layers"
  by (simp add: stack_bind_recording_def)

lemma stack_monitors_install:
  "length ms = length (stack_monitors layers) \<Longrightarrow> stack_monitors (stack_install ms layers) = ms"
proof (induction ms layers rule: stack_install.induct)
qed auto

definition stack_event :: "hasher \<Rightarrow> 's Terminal \<Rightarrow> Stack \<times> 's \<Rightarrow> Binding \<times> Operation \<Rightarrow> Stack \<times> 's" where
  "stack_event H T = (\<lambda>(layers, s) (b, operation). snd (stack_handle H T layers s b operation))"

text \<open>What one request does to the monitors and to the log.\<close>

lemma stack_event_exact:
  assumes "stack_event H (logged_terminal T) (layers, s, log) (b, operation) = (layers', s', log')"
  shows "if list_all (monitor_allows operation) (stack_monitors layers)
    then (\<exists>report. tm_handle T s b operation = (report, s') \<and> log' = log @ [(operation, report)]
      \<and> stack_monitors layers' = (if may_have_invoked report then map (monitor_reserve operation) (stack_monitors layers)
          else stack_monitors layers))
    else s' = s \<and> log' = log \<and> stack_monitors layers' = stack_monitors layers"
proof -
  obtain ms check where a: "policy_admit (stack_monitors layers) operation = (ms, check)" by fastforce
  obtain report s1 where t: "tm_handle T s b operation = (report, s1)" by fastforce
  note e = policy_admit_exact [OF a]
  have len: "length ms = length (stack_monitors layers)" by (simp add: e(2))
  show ?thesis
    using assms a t e len
    by (auto simp: stack_event_def stack_handle_def Let_def logged_terminal_def may_have_invoked_def
        stack_monitors_install split: option.splits if_splits)
qed


text \<open>The keys that the guards of a stack have reserved.\<close>

definition reserved_keys :: "Monitor list \<Rightarrow> EffectKey set" where
  "reserved_keys ms = (\<Union>m \<in> {m \<in> set ms. is_guard (mo_policy m)}. set (mo_state m))"

lemma monitor_reserve_guard:
  "is_guard (mo_policy m) \<Longrightarrow> set (mo_state (monitor_reserve operation m)) = set (mo_state m) \<union> set_option (send_key operation)"
  by (auto simp: monitor_reserve_def is_guard_def split: Policy.splits option.splits)

lemma monitor_reserve_no_send: "send_key operation = None \<Longrightarrow> monitor_reserve operation m = m"
  by (simp add: monitor_reserve_def split: Policy.split)

lemma reserved_keys_reserve:
  "list_ex (is_guard \<circ> mo_policy) ms \<Longrightarrow>
     reserved_keys (map (monitor_reserve operation) ms) = reserved_keys ms \<union> set_option (send_key operation)"
  by (auto simp: reserved_keys_def list_ex_iff monitor_reserve_guard)

lemma allowed_key_fresh:
  "list_all (monitor_allows operation) ms \<Longrightarrow> send_key operation = Some key \<Longrightarrow> key \<notin> reserved_keys ms"
  by (fastforce simp: reserved_keys_def list_all_iff monitor_allows_def send_key_def is_guard_def split: Operation.splits Policy.splits)

definition stack_guarded :: "Stack \<times> 's \<Rightarrow> bool" where
  "stack_guarded = (\<lambda>(layers, _). list_ex (is_guard \<circ> mo_policy) (stack_monitors layers))"

lemma guarded_reserve: "list_ex (is_guard \<circ> mo_policy) (map (monitor_reserve operation) ms) = list_ex (is_guard \<circ> mo_policy) ms"
  by (simp add: list_ex_iff)

interpretation stack: reservation "stack_event H (logged_terminal T)" stack_guarded
  "\<lambda>(layers, _). reserved_keys (stack_monitors layers)" "\<lambda>(_, _, log). invoked_keys log" for H T
proof (unfold_locales, goal_cases)
  case (1 st e)
  obtain layers s log b operation layers' s' log' where st: "st = (layers, s, log)" "e = (b, operation)"
    "stack_event H (logged_terminal T) (layers, s, log) (b, operation) = (layers', s', log')"
    by (metis prod_cases3 surj_pair)
  from stack_event_exact [OF st(3)] 1 show ?case
    by (auto simp: st stack_guarded_def guarded_reserve split: if_splits)
next
  case (2 st e)
  obtain layers s log b operation layers' s' log' where st: "st = (layers, s, log)" "e = (b, operation)"
    "stack_event H (logged_terminal T) (layers, s, log) (b, operation) = (layers', s', log')"
    by (metis prod_cases3 surj_pair)
  from stack_event_exact [OF st(3)] 2 show ?case
    by (auto simp: st stack_guarded_def reserved_keys_reserve split: if_splits)
next
  case (3 st e)
  obtain layers s log b operation layers' s' log' where st: "st = (layers, s, log)" "e = (b, operation)"
    "stack_event H (logged_terminal T) (layers, s, log) (b, operation) = (layers', s', log')"
    by (metis prod_cases3 surj_pair)
  show ?case
  proof (cases "list_all (monitor_allows operation) (stack_monitors layers) \<and> send_key operation \<noteq> None")
    case True
    then obtain i j where key: "send_key operation = Some (i, j)" by fast
    with True allowed_key_fresh have "(i, j) \<notin> reserved_keys (stack_monitors layers)" by blast
    moreover have "reserved_keys (map (monitor_reserve operation) (stack_monitors layers))
        = reserved_keys (stack_monitors layers) \<union> {(i, j)}"
      using reserved_keys_reserve [of "stack_monitors layers" operation] 3 key by (simp add: st stack_guarded_def)
    ultimately show ?thesis using stack_event_exact [OF st(3)] True key by (auto simp: st split: if_splits)
  next
    case False
    then consider "\<not> list_all (monitor_allows operation) (stack_monitors layers)" | "send_key operation = None" by blast
    then show ?thesis using stack_event_exact [OF st(3)] by cases (auto simp: st split: if_splits)
  qed
qed

text \<open>Requests that no monitor vetoes are the only ones that reach the terminal.\<close>

lemma stack_event_log:
  assumes "stack_event H (logged_terminal T) (layers, s, log) (b, operation) = (layers', s', log')"
  shows "map mo_policy (stack_monitors layers') = map mo_policy (stack_monitors layers)
    \<and> (log' = log \<and> s' = s \<or> (\<exists>report. log' = log @ [(operation, report)] \<and> list_all (monitor_allows operation) (stack_monitors layers)))"
  using stack_event_exact [OF assms] by (auto split: if_splits)

definition destination_allowed :: "Policy list \<Rightarrow> Operation \<Rightarrow> bool" where
  "destination_allowed policies operation \<longleftrightarrow>
     (\<forall>store delivery recipients. operation = Op_Send store delivery \<and> PL_Allowlist recipients \<in> set policies
        \<longrightarrow> dl_destination delivery \<in> set recipients)"

lemma monitors_allow_destination:
  "list_all (monitor_allows operation) ms \<Longrightarrow> destination_allowed (map mo_policy ms) operation"
  by (auto simp: destination_allowed_def list_all_iff monitor_allows_def split: Policy.splits)

lemma stack_run_log:
  assumes "run_events (stack_event H (logged_terminal T)) (layers, s, log) es = (layers', s', log')"
    and "list_all (destination_allowed (map mo_policy (stack_monitors layers)) \<circ> fst) log"
  shows "list_all (destination_allowed (map mo_policy (stack_monitors layers)) \<circ> fst) log'"
  using assms
proof (induction es arbitrary: layers s log)
  case (Cons e es)
  obtain b operation layers1 s1 log1 where e: "e = (b, operation)"
    "stack_event H (logged_terminal T) (layers, s, log) (b, operation) = (layers1, s1, log1)"
    by (metis prod_cases3 surj_pair)
  note one = stack_event_log [OF e(2)]
  have "list_all (destination_allowed (map mo_policy (stack_monitors layers1)) \<circ> fst) log1"
    using one Cons.prems(2) monitors_allow_destination [of operation "stack_monitors layers"] by (auto simp: o_def)
  from Cons.IH [OF _ this] one Cons.prems(1) e show ?case by auto
qed simp

section \<open>Properties\<close>

text \<open>C12: a stack that holds an at-most-one policy forwards each effect key, the identity of the store and of the
  delivery, at most once to the terminal, and none that was reserved before, whatever requests it is given and
  whatever the terminal answers, crashes included; only a suspension with evidence that nothing was invoked does not count.
  A send to a destination outside an allowlist of the stack never reaches the terminal.\<close>

theorem at_most_one_send:
  assumes "list_ex (is_guard \<circ> mo_policy) (stack_monitors layers)"
    and "run_events (stack_event H (logged_terminal T)) (layers, s, []) requests = (layers', s', log)"
  shows "distinct (invoked_keys log) \<and> set (invoked_keys log) \<inter> reserved_keys (stack_monitors layers) = {}
    \<and> set (invoked_keys log) \<subseteq> reserved_keys (stack_monitors layers')
    \<and> list_all (destination_allowed (map mo_policy (stack_monitors layers)) \<circ> fst) log"
  using stack.run_at_most_once [of "(layers, s, [])" H T requests] stack_run_log [OF assms(2)] assms
  by (auto simp: stack_guarded_def)


text \<open>A constant hash is a hasher; concrete runs are computed with it.\<close>

definition flat_hasher :: hasher where
  "flat_hasher = \<lparr>algorithm_id = [], h_hash = (\<lambda>_. 1), h_hash_parts = (\<lambda>_. 1)\<rparr>"

definition no_file :: "string \<Rightarrow> bytes" where
  "no_file name = []"

definition sample_manifest :: Manifest where
  "sample_manifest = \<lparr>mf_registry = 0, mf_program = 0, mf_stack = [], mf_schedule = [], mf_initial = 0, mf_start = [],
     mf_implementations = [], mf_configuration = [], mf_seed = 0, mf_policies = []\<rparr>"

definition sample_send :: "bytes \<Rightarrow> Operation" where
  "sample_send destination = Op_Send \<lparr>st_identity = 7, st_handle = 1\<rparr>
     \<lparr>dl_id = 5, dl_version = 1, dl_lane = 1, dl_ordinal = 0, dl_destination = destination, dl_payload = [], dl_payload_sha256 = 0\<rparr>"

definition losing_terminal :: "nat Terminal" where
  "losing_terminal = \<lparr>tm_ports = [P_Send],
     tm_handle = (\<lambda>n b operation. (\<lparr>hd_outcome = H_Answer (R_Send (S_Unknown F_Io)), hd_invocation = IV_MayHaveInvoked\<rparr>, n + 1)),
     tm_crash = (\<lambda>n b. n)\<rparr>"

theorem at_most_one_send_witness:
  "let layers = [LY_Policy \<lparr>mo_policy = PL_AtMostOne 4, mo_state = [], mo_identity = 1\<rparr>,
       LY_Policy \<lparr>mo_policy = PL_Allowlist [[1]], mo_state = [], mo_identity = 2\<rparr>];
     (layers', s', log) = run_events (stack_event flat_hasher (logged_terminal losing_terminal)) (layers, 0, [])
       (map (\<lambda>destination. (binding_of (opid_first 1) (sample_send destination), sample_send destination)) [[2], [1], [1]])
   in invoked_keys log = [(7, 5)] \<and> s' = 1 \<and> distinct (invoked_keys log)"
proof -
  let ?layers = "[LY_Policy \<lparr>mo_policy = PL_AtMostOne 4, mo_state = [], mo_identity = 1\<rparr>,
       LY_Policy \<lparr>mo_policy = PL_Allowlist [[1]], mo_state = [], mo_identity = 2\<rparr>]"
  let ?requests = "map (\<lambda>destination. (binding_of (opid_first 1) (sample_send destination), sample_send destination)) [[2], [1], [1]]"
  have "run_events (stack_event flat_hasher (logged_terminal losing_terminal)) (?layers, 0, []) ?requests
    = ([LY_Policy \<lparr>mo_policy = PL_AtMostOne 4, mo_state = [(7, 5)], mo_identity = 1\<rparr>,
       LY_Policy \<lparr>mo_policy = PL_Allowlist [[1]], mo_state = [], mo_identity = 2\<rparr>], 1,
       [(sample_send [1], \<lparr>hd_outcome = H_Answer (R_Send (S_Unknown F_Io)), hd_invocation = IV_MayHaveInvoked\<rparr>)])" (is "?run = (?layers', 1, ?log)")
    by (simp add: stack_event_def stack_handle_def Let_def stack_bind_recording_def policy_admit_def policy_step_def policy_decide_def
        sample_send_def logged_terminal_def losing_terminal_def handled_entry_def)
  moreover have "distinct (invoked_keys ?log)"
    using at_most_one_send [of ?layers flat_hasher losing_terminal 0 ?requests ?layers' 1 ?log] calculation by (simp add: is_guard_def)
  ultimately show ?thesis by (simp add: sample_send_def send_key_def may_have_invoked_def)
qed

end
