(* ===== verification/Zeno_Programs_Laws.thy ===== *)
theory Zeno_Programs_Laws
  imports Zeno_Programs
begin

text \<open>
  The laws of the effect registry, of the driver and of its two programs.

  \<open>driven\<close> is the set of runs: any sequence of replies offered to the driver, refused or admitted, with
  the requests that were answered and their responses.  The locale \<open>effect_program\<close> is what a program
  promises the driver, interpreted on both programs; from it follow that the driver never stops
  them and a bound on their runs.  The trace of a delivery run then shows what its outcome means.
\<close>

section \<open>The shipped registry\<close>

lemmas kind_consts = K_ENVELOPE_def K_VERSION_def K_ANY_def FIELDS_STORE_def FIELDS_PUBLICATION_def FIELDS_BOUNDED_def
  FIELDS_MODE_def FIELDS_COMMIT_def FIELDS_SNAPSHOT_def FIELDS_STATUS_def FIELDS_RECEIPT_def FIELDS_ENTRY_def
  FIELDS_HISTORY_def FIELDS_DELIVERY_def FIELDS_SEND_def FIELDS_REPORT_def FIELDS_ACKNOWLEDGE_def FIELDS_TICK_def
  FIELDS_PURPOSE_def FIELDS_RANDOM_def FIELDS_WAIT_def I64_MAX_def REGISTRY_MAX_BYTES_def REGISTRY_MAX_ITEMS_def
  REGISTRY_MAX_DEPTH_def

lemmas footprint_consts = FP_READ_def FP_WRITE_def FP_SEND_ONLY_def FP_OPEN_def FP_TIME_def FP_DRAW_def resources_and_def
  resources_within_def RES_NONE_def RES_DURABLE_def RES_VOLATILE_def RES_TRANSPORT_def RES_CLOCK_def RES_JITTER_def RES_KNOWN_def

lemma law_known: "list_ex (\<lambda>l. law_id l = i) (rg_laws REGISTRY) \<longleftrightarrow> i \<in> {1, 2, 3, 4, 5, 6, 7, 8, 9}"
  by (auto simp: REGISTRY_def LAWS_def)

definition signature_passes :: "Signature \<Rightarrow> bool" where
  "signature_passes s \<longleftrightarrow> check_signature REGISTRY s = Inr ()"

lemma signatures_pass: "list_all signature_passes SIGNATURES"
  unfolding SIGNATURES_def list.pred_inject
  by (intro conjI TrueI; simp add: signature_passes_def check_signature_def Let_def check_kind.simps field_name_ok_def ascii_bytes_def
      kind_consts footprint_consts capability_allows_def law_known v2_mapped_def)

lemma check_ports_passing:
  "map sg_port ss = ports \<Longrightarrow> list_all signature_passes ss \<Longrightarrow> check_ports REGISTRY ports ss = Inr ()"
  by (induction ports arbitrary: ss) (auto simp: signature_passes_def)

lemma laws_used: "list_all (\<lambda>i. list_ex (\<lambda>s. i \<in> set (sg_laws s)) SIGNATURES) [1, 2, 3, 4, 5, 6, 7, 8, 9]"
  by (simp add: SIGNATURES_def)

lemma registry_shipped: "registry_check REGISTRY = Inr ()"
proof -
  have "map sg_port SIGNATURES = Port_ALL" by (simp add: SIGNATURES_def Port_ALL_def)
  from check_ports_passing [OF this signatures_pass] have "check_ports REGISTRY Port_ALL (rg_signatures REGISTRY) = Inr ()"
    by (subst (2) REGISTRY_def) simp
  moreover have "check_law_order REGISTRY None LAWS = Inr ()"
    using laws_used by (simp add: LAWS_def) (simp add: REGISTRY_def word_le_nat_alt)
  ultimately show ?thesis by (simp add: registry_check_def) (simp add: REGISTRY_def)
qed

definition port_arguments :: "Port \<Rightarrow> (string \<times> Kind) list" where
  "port_arguments p = (case p of
      P_Commit \<Rightarrow> FIELDS_COMMIT | P_Send \<Rightarrow> FIELDS_SEND | P_Acknowledge \<Rightarrow> FIELDS_ACKNOWLEDGE
    | P_Clock \<Rightarrow> [] | P_Random \<Rightarrow> FIELDS_RANDOM | P_Wait \<Rightarrow> FIELDS_WAIT | _ \<Rightarrow> FIELDS_STORE)"

definition port_payload :: "Port \<Rightarrow> Kind" where
  "port_payload p = (case p of
      P_ReadState \<Rightarrow> K_Record FIELDS_SNAPSHOT | P_Reopen \<Rightarrow> K_Record FIELDS_SNAPSHOT
    | P_Commit \<Rightarrow> K_Record FIELDS_RECEIPT | P_ReadHistory \<Rightarrow> K_Record FIELDS_HISTORY
    | P_ReadOutbox \<Rightarrow> K_List (K_Record FIELDS_DELIVERY) REGISTRY_MAX_ITEMS
    | P_Send \<Rightarrow> K_Record FIELDS_REPORT | P_Acknowledge \<Rightarrow> K_Unit
    | P_Clock \<Rightarrow> K_Record FIELDS_TICK | P_Wait \<Rightarrow> K_Record FIELDS_TICK | P_Random \<Rightarrow> K_Int 0 (2 ^ 64 - 2))"

definition port_capability :: "Port \<Rightarrow> Capability" where
  "port_capability p = (case p of
      P_Commit \<Rightarrow> Cap_WriteStore | P_Send \<Rightarrow> Cap_Transport | P_Acknowledge \<Rightarrow> Cap_Relay | P_Reopen \<Rightarrow> Cap_OpenStore
    | P_Clock \<Rightarrow> Cap_Clock | P_Wait \<Rightarrow> Cap_Clock | P_Random \<Rightarrow> Cap_Jitter | _ \<Rightarrow> Cap_ReadStore)"

lemma signature_shipped:
  "\<exists>s. signature REGISTRY p = Some s \<and> sg_port s = p \<and> sg_arguments s = K_Record (port_arguments p)
     \<and> answer_payload (sg_answer s) = port_payload p \<and> sg_capability s = port_capability p"
proof -
  have sig: "signature REGISTRY q = find (\<lambda>s. sg_port s = q) SIGNATURES" for q by (simp add: signature_def REGISTRY_def)
  show ?thesis
    unfolding sig SIGNATURES_def
    by (cases p) (simp_all add: port_arguments_def port_payload_def port_capability_def)
qed

lemma length_within_iff: "length_within n cap \<longleftrightarrow> n \<le> unat cap"
proof -
  have "unat cap \<le> u64_max" using unsigned_less [of cap, where ?'a = nat] by simp
  then show ?thesis by (auto simp: length_within_def try_from_def)
qed

lemma conforms_items_Ok: "conforms_items item vs name = Inr () \<longleftrightarrow> (\<forall>v\<in>set vs. conforms item v name = Inr ())"
  by (induction vs) auto

lemma conforms_Ok [simp]:
  "conforms K_Unit V_Unit name = Inr ()"
  "conforms K_Store (V_Store st) name = Inr ()"
  "conforms K_Hash (V_Hash h) name = Inr ()"
  "conforms (K_Bytes cap) (V_Bytes bs) name = Inr () \<longleftrightarrow> length bs \<le> unat cap"
  "conforms (K_Int mn mx) (V_Int n) name = Inr () \<longleftrightarrow> mn \<le> n \<and> n \<le> mx"
  "conforms (K_Record fs) (V_Record vs) name = Inr () \<longleftrightarrow> length fs = length vs \<and> conforms_fields fs vs = Inr ()"
  "conforms (K_Choice fs) (V_Choice i v) name = Inr () \<longleftrightarrow> i < length fs \<and> conforms (snd (fs ! i)) v (fst (fs ! i)) = Inr ()"
  "conforms (K_List item cap) (V_List vs) name = Inr () \<longleftrightarrow>
     length vs \<le> unat cap \<and> (\<forall>v\<in>set vs. conforms item v name = Inr ())"
  by (simp_all add: conforms.simps length_within_iff conforms_items_Ok)

definition envelope_ok :: "bytes \<Rightarrow> bool" where
  "envelope_ok bs \<longleftrightarrow> length bs \<le> 2 ^ 20"

definition publication_ok :: "PublicationData \<Rightarrow> bool" where
  "publication_ok p \<longleftrightarrow> envelope_ok (pd_prestate p) \<and> envelope_ok (pd_command p) \<and> envelope_ok (pd_context p)
     \<and> envelope_ok (pd_identity p) \<and> envelope_ok (pd_subject p)"

definition mode_ok :: "CommitMode \<Rightarrow> bool" where
  "mode_ok m \<longleftrightarrow> (case m of CM_Unversioned \<Rightarrow> True | CM_At v \<Rightarrow> v \<le> I64_MAX | CM_BoundedAt v cap \<Rightarrow> v \<le> I64_MAX)"

definition delivery_ok :: "Delivery \<Rightarrow> bool" where
  "delivery_ok d \<longleftrightarrow> 1 \<le> dl_version d \<and> dl_version d \<le> I64_MAX \<and> dl_lane d \<le> 1 \<and> envelope_ok (dl_destination d)
     \<and> envelope_ok (dl_payload d)"

definition operation_ok :: "Operation \<Rightarrow> bool" where
  "operation_ok operation \<longleftrightarrow> (case operation of
      Op_Commit _ _ p m \<Rightarrow> publication_ok p \<and> mode_ok m
    | Op_Send _ d \<Rightarrow> delivery_ok d
    | Op_Random _ bound \<Rightarrow> bound \<noteq> 0
    | _ \<Rightarrow> True)"

lemma envelope_conforms [simp]: "conforms K_ENVELOPE (V_Bytes bs) name = Inr () \<longleftrightarrow> envelope_ok bs"
  by (simp add: K_ENVELOPE_def REGISTRY_MAX_BYTES_def envelope_ok_def)

lemma version_conforms [simp]: "conforms K_VERSION (V_Int n) name = Inr () \<longleftrightarrow> n \<le> I64_MAX"
  by (simp add: K_VERSION_def)

lemma le_u64_max [simp]: "(n :: u64) \<le> 18446744073709551615"
  using unsigned_less [of n, where ?'a = nat] by (simp add: word_le_nat_alt)

lemma any_conforms [simp]: "conforms K_ANY (V_Int n) name = Inr ()"
  by (simp add: K_ANY_def)

lemma publication_conforms [simp]:
  "conforms (K_Record FIELDS_PUBLICATION) (publication_value p) name = Inr () \<longleftrightarrow> publication_ok p"
  by (simp add: FIELDS_PUBLICATION_def publication_value_def publication_ok_def)

lemma mode_conforms [simp]: "conforms (K_Choice FIELDS_MODE) (mode_value m) name = Inr () \<longleftrightarrow> mode_ok m"
  by (cases m) (simp_all add: FIELDS_MODE_def mode_value_def mode_ok_def FIELDS_BOUNDED_def numeral_2_eq_2)

lemma ucast_le_u64: "(ucast (w :: 32 word) :: u64) \<le> 2 ^ 32 - 1"
  using unsigned_less [of w, where ?'a = nat] by (simp add: word_le_nat_alt unsigned_ucast_eq take_bit_nat_eq_self)

lemma lane_le: "(ucast (l :: u8) :: u64) \<le> 1 \<longleftrightarrow> l \<le> 1"
proof -
  have "take_bit 64 (unat l) = unat l" using unsigned_less [of l, where ?'a = nat] by (simp add: take_bit_nat_eq_self)
  then show ?thesis by (simp add: word_le_nat_alt unsigned_ucast_eq)
qed

lemma delivery_conforms [simp]:
  "conforms (K_Record FIELDS_DELIVERY) (delivery_value d) name = Inr () \<longleftrightarrow> delivery_ok d"
  using ucast_le_u64 [of "dl_ordinal d"]
  by (simp add: FIELDS_DELIVERY_def delivery_value_def delivery_ok_def lane_le)

lemma one_le_word: "1 \<le> (n :: u64) \<longleftrightarrow> n \<noteq> 0"
  by (simp add: word_le_nat_alt Suc_le_eq unat_gt_0)

lemma operation_conforms:
  "conforms (K_Record (port_arguments (operation_port operation))) (operation_value operation) name = Inr ()
     \<longleftrightarrow> operation_ok operation"
  by (cases operation)
    (simp_all add: operation_port_def port_arguments_def operation_value_def operation_ok_def FIELDS_STORE_def
      FIELDS_COMMIT_def FIELDS_SEND_def FIELDS_ACKNOWLEDGE_def FIELDS_RANDOM_def FIELDS_PURPOSE_def FIELDS_WAIT_def
      FIELDS_TICK_def tick_value_def one_le_word split: Purpose.splits)

section \<open>The driver\<close>

text \<open>What a response has to satisfy besides its binding: it answers the port, and a payload fits its schema.\<close>

definition response_fits :: "Registry \<Rightarrow> Operation \<Rightarrow> Response \<Rightarrow> bool" where
  "response_fits registry operation response \<longleftrightarrow> response_port response = operation_port operation
     \<and> (\<forall>v. response_value response = Some v \<longrightarrow>
          (\<exists>s. signature registry (operation_port operation) = Some s
             \<and> conforms (answer_payload (sg_answer s)) v ''result'' = Inr ()))"

lemma check_store_Ok: "check_store g e = Inr u \<longleftrightarrow> g = e"
  by (cases g; cases e) (auto simp: check_store_def)

lemma check_reply_Ok:
  assumes "b = binding_of i operation" "op_epoch i = epoch" "answered \<noteq> Some i"
  shows "check_reply registry epoch answered b reply = Inr u \<longleftrightarrow>
    ry_binding reply = b \<and> response_fits registry operation (ry_response reply)"
proof -
  have split: "ry_binding reply = b \<longleftrightarrow> bd_id (ry_binding reply) = i \<and> bd_port (ry_binding reply) = operation_port operation
      \<and> bd_store (ry_binding reply) = operation_store operation \<and> bd_subject (ry_binding reply) = operation_subject operation"
    by (cases "ry_binding reply") (auto simp: assms(1) binding_of_def)
  have i: "bd_id (ry_binding reply) = i \<longleftrightarrow> op_epoch (bd_id (ry_binding reply)) = epoch
      \<and> op_ordinal (bd_id (ry_binding reply)) = op_ordinal i"
    using assms(2) by (cases "bd_id (ry_binding reply)"; cases i) auto
  show ?thesis
    unfolding split
  proof (cases "bd_id (ry_binding reply) = i")
    case False
    then show "check_reply registry epoch answered b reply = Inr u \<longleftrightarrow> (bd_id (ry_binding reply) = i \<and>
      bd_port (ry_binding reply) = operation_port operation \<and> bd_store (ry_binding reply) = operation_store operation \<and>
      bd_subject (ry_binding reply) = operation_subject operation) \<and> response_fits registry operation (ry_response reply)"
      using i assms(1,2) by (auto simp: check_reply_def Let_def binding_of_def)
  next
    case True
    then show "check_reply registry epoch answered b reply = Inr u \<longleftrightarrow> (bd_id (ry_binding reply) = i \<and>
      bd_port (ry_binding reply) = operation_port operation \<and> bd_store (ry_binding reply) = operation_store operation \<and>
      bd_subject (ry_binding reply) = operation_subject operation) \<and> response_fits registry operation (ry_response reply)"
      using assms by (auto simp: check_reply_def Let_def binding_of_def check_store_Ok response_fits_def split: option.splits)
  qed
qed

text \<open>The runs of a program under the driver, with the requests that were answered and their responses.\<close>

inductive driven :: "('k, 't) Program \<Rightarrow> Registry \<Rightarrow> u64 \<Rightarrow> ('k, 't) Step \<Rightarrow> (Operation \<times> Response) list \<Rightarrow> ('k, 't) Driver \<Rightarrow> bool"
  for P registry epoch first where
  driven_start: "driver_start P registry epoch first = Inr d \<Longrightarrow> driven P registry epoch first [] d"
| driven_refused: "driven P registry epoch first trace d \<Longrightarrow> driver_reply P d reply = (Inl refusal, d') \<Longrightarrow>
    driven P registry epoch first trace d'"
| driven_admitted: "driven P registry epoch first trace d \<Longrightarrow> dr_state d = DS_Waiting binding operation continuation \<Longrightarrow>
    driver_reply P d reply = (Inr (), d') \<Longrightarrow>
    driven P registry epoch first (trace @ [(operation, ry_response reply)]) d'"

text \<open>The driver's own invariant: it waits for the request whose ordinal is the number of answered requests.\<close>

definition driver_inv :: "('k, 't) Program \<Rightarrow> Registry \<Rightarrow> u64 \<Rightarrow> (Operation \<times> Response) list \<Rightarrow> ('k, 't) Driver \<Rightarrow> bool" where
  "driver_inv P registry epoch trace d \<longleftrightarrow> dr_registry d = registry \<and> dr_epoch d = epoch
     \<and> (\<forall>i. dr_answered d = Some i \<longrightarrow> op_epoch i = epoch \<and> Suc (unat (op_ordinal i)) = length trace)
     \<and> (\<forall>b operation k. dr_state d = DS_Waiting b operation k \<longrightarrow>
          (\<exists>i. b = binding_of i operation \<and> op_epoch i = epoch \<and> unat (op_ordinal i) = length trace)
          \<and> operation_port operation \<in> set (pg_ports P))"

lemma opid_next_Some: "opid_next i = Some n \<longleftrightarrow> op_epoch n = op_epoch i \<and> unat (op_ordinal n) = Suc (unat (op_ordinal i))"
proof -
  have "unat (op_ordinal i) + 1 \<le> u64_max \<Longrightarrow> unat (op_ordinal i + 1) = Suc (unat (op_ordinal i))"
    by (simp add: unat_word_ariths)
  moreover have "unat (op_ordinal n) \<le> u64_max" using unsigned_less [of "op_ordinal n", where ?'a = nat] by simp
  ultimately show ?thesis
    by (cases i; cases n) (auto simp: opid_next_def checked_add64_def word_unat_eq_iff)
qed

lemma driver_admit_waiting:
  "driver_admit P registry expected step = Inr (DS_Waiting b operation k) \<longleftrightarrow>
    step = St_Request expected operation k \<and> b = binding_of expected operation \<and> operation_port operation \<in> set (pg_ports P)
    \<and> (\<exists>s. signature registry (operation_port operation) = Some s
         \<and> conforms (sg_arguments s) (operation_value operation) ''arguments'' = Inr ())"
  by (cases step) (auto simp: driver_admit_def Let_def split: option.splits)

lemma driver_admit_done: "driver_admit P registry expected step = Inr (DS_Done outcome) \<longleftrightarrow> step = St_Done outcome"
  by (cases step) (auto simp: driver_admit_def Let_def split: option.splits)

lemma driver_admit_not_failed: "driver_admit P registry expected step \<noteq> Inr (DS_Failed f)"
  by (cases step) (auto simp: driver_admit_def Let_def split: option.splits)

lemma after_resume_waiting:
  "after_resume P registry i step = DS_Waiting b operation k \<longleftrightarrow>
    (\<exists>n. opid_next i = Some n \<and> driver_admit P registry n step = Inr (DS_Waiting b operation k))"
  by (auto simp: after_resume_def split: option.splits sum.splits Step.splits)

lemma driver_reply_waiting:
  assumes "dr_state d = DS_Waiting b operation k"
  shows "driver_reply P d reply = (case check_reply (dr_registry d) (dr_epoch d) (dr_answered d) b reply of
      Inl refusal \<Rightarrow> (Inl refusal, d)
    | Inr _ \<Rightarrow> (Inr (), d\<lparr>dr_answered := Some (bd_id b),
        dr_state := after_resume P (dr_registry d) (bd_id b) (pg_resume P k (ry_response reply))\<rparr>))"
  using assms by (simp add: driver_reply_def)

lemma driver_refused_unchanged: "driver_reply P d reply = (Inl refusal, d') \<Longrightarrow> d' = d"
  by (auto simp: driver_reply_def split: DriverState.splits sum.splits)

lemma driven_inv: "driven P registry epoch first trace d \<Longrightarrow> driver_inv P registry epoch trace d"
proof (induction rule: driven.induct)
  case (driven_start d)
  then show ?case
    by (auto simp: driver_start_def driver_inv_def driver_admit_waiting opid_first_def)
next
  case (driven_refused trace d reply refusal d')
  then show ?case using driver_refused_unchanged [of P d reply refusal d'] by simp
next
  case (driven_admitted trace d b operation k reply d')
  from driven_admitted.IH driven_admitted.hyps(2) obtain i where i: "b = binding_of i operation" "op_epoch i = epoch" "unat (op_ordinal i) = length trace"
    and reg: "dr_registry d = registry" "dr_epoch d = epoch"
    by (auto simp: driver_inv_def)
  from driven_admitted.hyps(2,3) have d': "d' = d\<lparr>dr_answered := Some (bd_id b),
      dr_state := after_resume P registry (bd_id b) (pg_resume P k (ry_response reply))\<rparr>"
    by (auto simp: driver_reply_waiting reg split: sum.splits)
  have "bd_id b = i" by (simp add: i(1) binding_of_def)
  then show ?case using i reg
    by (auto simp: d' driver_inv_def after_resume_waiting driver_admit_waiting opid_next_Some)
qed

lemma driven_admission:
  assumes "driven P registry epoch first trace d" "dr_state d = DS_Waiting b operation k"
  shows "fst (driver_reply P d reply) = Inr () \<longleftrightarrow> ry_binding reply = b \<and> response_fits registry operation (ry_response reply)"
proof -
  from driven_inv [OF assms(1)] assms(2) obtain i where
    i: "b = binding_of i operation" "op_epoch i = epoch" "unat (op_ordinal i) = length trace" and
    d: "dr_registry d = registry" "dr_epoch d = epoch"
    by (auto simp: driver_inv_def)
  have "dr_answered d \<noteq> Some i" using driven_inv [OF assms(1)] i(3) by (auto simp: driver_inv_def)
  from check_reply_Ok [OF i(1,2) this, of registry reply] d show ?thesis
    by (auto simp: driver_reply_waiting [OF assms(2)] split: sum.splits)
qed

section \<open>Programs that keep to the protocol\<close>

text \<open>What a program promises the driver: every continuation it can have requests a listed port with
  conforming arguments under the next ordinal, and its rank falls with every answer.\<close>

locale effect_program =
  fixes P :: "('k, 't) Program" and inv :: "'k \<Rightarrow> OpId \<Rightarrow> Operation \<Rightarrow> bool" and rank :: "'k \<Rightarrow> nat"
  assumes capable: "check_capabilities P REGISTRY [] (pg_ports P) = Inr ()"
    and inv_request: "inv k i operation \<Longrightarrow> operation_port operation \<in> set (pg_ports P) \<and> operation_ok operation"
    and inv_resume: "inv k i operation \<Longrightarrow> response_fits REGISTRY operation response \<Longrightarrow>
      pg_resume P k response = St_Request i' operation' k' \<Longrightarrow>
      opid_next i = Some i' \<and> inv k' i' operation' \<and> rank k' < rank k"
begin

definition starts :: "u64 \<Rightarrow> ('k, 't) Step \<Rightarrow> bool" where
  "starts epoch first \<longleftrightarrow> (\<exists>operation k. first = St_Request (opid_first epoch) operation k \<and> inv k (opid_first epoch) operation)"

lemma admits: "inv k i operation \<Longrightarrow>
  driver_admit P REGISTRY i (St_Request i operation k) = Inr (DS_Waiting (binding_of i operation) operation k)"
  using inv_request [of k i operation] signature_shipped [of "operation_port operation"] operation_conforms [of operation "''arguments''"]
  by (auto simp: driver_admit_def Let_def)

lemma start_waits:
  assumes "starts epoch first"
  obtains operation k where "first = St_Request (opid_first epoch) operation k" "inv k (opid_first epoch) operation"
    "driver_start P REGISTRY epoch first = Inr \<lparr>dr_registry = REGISTRY, dr_epoch = epoch, dr_answered = None,
       dr_state = DS_Waiting (binding_of (opid_first epoch) operation) operation k\<rparr>"
  using assms admits by (auto simp: starts_def driver_start_def registry_shipped capable)

lemma resume_waits:
  assumes "inv k i operation" "response_fits REGISTRY operation response"
  shows "(\<exists>outcome. pg_resume P k response = St_Done outcome \<and>
            after_resume P REGISTRY i (pg_resume P k response) = DS_Done outcome)
       \<or> (\<exists>i' operation' k'. pg_resume P k response = St_Request i' operation' k' \<and> inv k' i' operation' \<and> rank k' < rank k
            \<and> after_resume P REGISTRY i (pg_resume P k response) = DS_Waiting (binding_of i' operation') operation' k')"
proof (cases "pg_resume P k response")
  case (St_Done outcome)
  then show ?thesis by (auto simp: after_resume_def driver_admit_def split: option.splits)
next
  case (St_Request i' operation' k')
  with inv_resume [OF assms] admits show ?thesis by (fastforce simp: after_resume_def)
qed

text \<open>A run with the requests and answers so far is at a step of the program itself.\<close>

inductive steps :: "('k, 't) Step \<Rightarrow> (Operation \<times> Response) list \<Rightarrow> ('k, 't) Step \<Rightarrow> bool" for first where
  steps_nil: "steps first [] first"
| steps_snoc: "steps first trace (St_Request i operation k) \<Longrightarrow> response_fits REGISTRY operation response \<Longrightarrow>
    steps first (trace @ [(operation, response)]) (pg_resume P k response)"

definition rank_of :: "('k, 't) Step \<Rightarrow> nat" where
  "rank_of step = (case step of St_Done _ \<Rightarrow> 0 | St_Request _ _ k \<Rightarrow> Suc (rank k))"

lemma steps_inv:
  assumes "steps first trace step" "starts epoch first"
  shows "(\<forall>i operation k. step = St_Request i operation k \<longrightarrow> inv k i operation) \<and> length trace + rank_of step \<le> rank_of first"
  using assms
proof (induction rule: steps.induct)
  case steps_nil
  then show ?case by (auto simp: starts_def)
next
  case (steps_snoc trace i operation k response)
  then have "inv k i operation" "length trace + Suc (rank k) \<le> rank_of first" by (auto simp: rank_of_def)
  with resume_waits [OF _ steps_snoc.hyps(2)] show ?case by (fastforce simp: rank_of_def)
qed

lemma driven_steps:
  assumes "driven P REGISTRY epoch first trace d" "starts epoch first"
  shows "\<exists>step. steps first trace step \<and>
    (case dr_state d of
       DS_Done outcome \<Rightarrow> step = St_Done outcome
     | DS_Waiting b operation k \<Rightarrow> (\<exists>i. step = St_Request i operation k \<and> b = binding_of i operation)
     | DS_Failed _ \<Rightarrow> False)"
  using assms
proof (induction rule: driven.induct)
  case (driven_start d)
  from start_waits [OF driven_start(2)] obtain operation k where
    w: "first = St_Request (opid_first epoch) operation k"
       "dr_state d = DS_Waiting (binding_of (opid_first epoch) operation) operation k"
    using driven_start(1) by (metis Driver.select_convs(4) sum.inject(2))
  have "steps first [] (St_Request (opid_first epoch) operation k)" using steps_nil [of first] by (simp add: w(1))
  then show ?case using w(2) by auto
next
  case (driven_refused trace d reply refusal d')
  then show ?case using driver_refused_unchanged [of P d reply refusal d'] by simp
next
  case (driven_admitted trace d b operation k reply d')
  then obtain i where i: "steps first trace (St_Request i operation k)" "b = binding_of i operation" by auto
  have fits: "response_fits REGISTRY operation (ry_response reply)"
    using driven_admission [OF driven_admitted.hyps(1,2), of reply] driven_admitted.hyps(3) by simp
  have reg: "dr_registry d = REGISTRY" using driven_inv [OF driven_admitted.hyps(1)] by (simp add: driver_inv_def)
  have "dr_state d' = after_resume P REGISTRY i (pg_resume P k (ry_response reply))"
    using driven_admitted.hyps(3) i(2) by (auto simp: driver_reply_waiting [OF driven_admitted.hyps(2)] reg binding_of_def split: sum.splits)
  moreover have "inv k i operation" using steps_inv [OF i(1) driven_admitted.prems] by simp
  ultimately show ?case using resume_waits [OF _ fits] steps_snoc [OF i(1) fits] by fastforce
qed

text \<open>The driver never stops such a program, and it answers at most as many requests as the first rank allows.\<close>

lemma never_fails:
  assumes "driven P REGISTRY epoch first trace d" "starts epoch first"
  shows "driver_failure d = None" and "length trace \<le> rank_of first"
    and "length trace = rank_of first \<Longrightarrow> \<exists>outcome. driver_outcome d = Some outcome"
proof -
  from driven_steps [OF assms] obtain step where s: "steps first trace step"
    "case dr_state d of DS_Done outcome \<Rightarrow> step = St_Done outcome
       | DS_Waiting b operation k \<Rightarrow> (\<exists>i. step = St_Request i operation k \<and> b = binding_of i operation)
       | DS_Failed _ \<Rightarrow> False" by blast
  from steps_inv [OF s(1) assms(2)] have l: "length trace + rank_of step \<le> rank_of first" by simp
  then show "length trace \<le> rank_of first" by simp
  from s(2) show "driver_failure d = None" by (cases "dr_state d") (simp_all add: driver_failure_def)
  from s(2) l show "length trace = rank_of first \<Longrightarrow> \<exists>outcome. driver_outcome d = Some outcome"
    by (cases "dr_state d") (auto simp: driver_outcome_def rank_of_def)
qed

end

text \<open>A program whose requests are paid for by what the answers hand over.\<close>

locale metered_program = effect_program +
  fixes cost :: "'a \<Rightarrow> nat" and credit :: "Response \<Rightarrow> nat"
  assumes cost_resume: "inv k i operation \<Longrightarrow> response_fits REGISTRY operation response \<Longrightarrow>
      pg_resume P k response = St_Request i' operation' k' \<Longrightarrow> cost k' < cost k + credit response"
begin

definition cost_of :: "('a, 'b) Step \<Rightarrow> nat" where
  "cost_of step = (case step of St_Done _ \<Rightarrow> 0 | St_Request _ _ k \<Rightarrow> Suc (cost k))"

lemma steps_cost:
  assumes "steps first trace step" "starts epoch first"
  shows "length trace + cost_of step \<le> cost_of first + sum_list (map (credit \<circ> snd) trace)"
  using assms
proof (induction rule: steps.induct)
  case (steps_snoc trace i operation k response)
  have "inv k i operation" using steps_inv [OF steps_snoc.hyps(1) steps_snoc.prems] by simp
  from cost_resume [OF this steps_snoc.hyps(2)] steps_snoc.IH [OF steps_snoc.prems]
  show ?case by (cases "pg_resume P k response") (auto simp: cost_of_def dest: less_imp_Suc_add)
qed simp

lemma driven_cost:
  assumes "driven P REGISTRY epoch first trace d" "starts epoch first"
  shows "length trace \<le> cost_of first + sum_list (map (credit \<circ> snd) trace)"
    and "length trace = cost_of first + sum_list (map (credit \<circ> snd) trace) \<Longrightarrow> \<exists>outcome. driver_outcome d = Some outcome"
proof -
  from driven_steps [OF assms] obtain step where s: "steps first trace step"
    "case dr_state d of DS_Done outcome \<Rightarrow> step = St_Done outcome
       | DS_Waiting b operation k \<Rightarrow> (\<exists>i. step = St_Request i operation k \<and> b = binding_of i operation)
       | DS_Failed _ \<Rightarrow> False" by blast
  note l = steps_cost [OF s(1) assms(2)]
  then show "length trace \<le> cost_of first + sum_list (map (credit \<circ> snd) trace)" by simp
  from s(2) l show "length trace = cost_of first + sum_list (map (credit \<circ> snd) trace) \<Longrightarrow> \<exists>outcome. driver_outcome d = Some outcome"
    by (cases "dr_state d") (auto simp: driver_outcome_def cost_of_def)
qed

end

subsection \<open>Commit with recovery\<close>

definition commit_phase_operation :: "CommitContinuation \<Rightarrow> Operation" where
  "commit_phase_operation k = (case cc_phase k of
      CP_Commit \<Rightarrow> commit_operation (cc_invocation k) (cc_mode k)
    | CP_Reopen \<Rightarrow> Op_Reopen (ci_store (cc_invocation k))
    | CP_History \<Rightarrow> Op_ReadHistory (ci_store (cc_invocation k)))"

definition invocation_ok :: "CommitInvocation \<Rightarrow> bool" where
  "invocation_ok invocation \<longleftrightarrow> publication_ok (ci_publication invocation) \<and> mode_ok (ci_mode invocation)"

definition commit_inv :: "CommitContinuation \<Rightarrow> OpId \<Rightarrow> Operation \<Rightarrow> bool" where
  "commit_inv k i operation \<longleftrightarrow> cc_id k = i \<and> operation = commit_phase_operation k \<and> invocation_ok (cc_invocation k) \<and> mode_ok (cc_mode k)"

definition commit_rank :: "CommitContinuation \<Rightarrow> nat" where
  "commit_rank k = 3 * unat (cc_retries k) + (case cc_phase k of CP_Commit \<Rightarrow> 0 | CP_History \<Rightarrow> 1 | CP_Reopen \<Rightarrow> 2)"

lemma ask_commit_phase_request:
  "ask_commit_phase k phase = St_Request i operation k' \<longleftrightarrow> opid_next (cc_id k) = Some i
     \<and> k' = k\<lparr>cc_phase := phase, cc_id := i\<rparr> \<and> operation = commit_phase_operation k'"
  by (auto simp: ask_commit_phase_def Let_def commit_phase_operation_def split: option.splits CommitPhase.splits)

lemma unresolved_done [simp]: "unresolved k fault \<noteq> St_Request i operation k'"
  by (simp add: unresolved_def split: option.splits)

lemma mode_ok_Unversioned [simp]: "mode_ok CM_Unversioned"
  by (simp add: mode_ok_def)

lemma retries_fall: "w \<noteq> 0 \<Longrightarrow> Suc (unat (w - 1 :: u8)) = unat w"
  using unat_gt_0 [of w] by (simp add: unat_minus_one)

lemma resume_commit_request:
  assumes "commit_inv k i operation" "commit_resume k response = St_Request i' operation' k'"
  shows "opid_next i = Some i' \<and> commit_inv k' i' operation' \<and> commit_rank k' < commit_rank k"
proof -
  from assms(1) have k: "cc_id k = i" "invocation_ok (cc_invocation k)" "mode_ok (cc_mode k)" by (auto simp: commit_inv_def)
  from assms(2) have "\<exists>c phase. ask_commit_phase c phase = St_Request i' operation' k' \<and> cc_id c = i
      \<and> cc_invocation c = cc_invocation k \<and> mode_ok (cc_mode c)
      \<and> 3 * unat (cc_retries c) + (case phase of CP_Commit \<Rightarrow> 0 | CP_History \<Rightarrow> 1 | CP_Reopen \<Rightarrow> 2) < commit_rank k"
  proof (cases "cc_phase k")
    case CP_Commit
    show ?thesis
    proof (cases "\<exists>outcome. response = R_Commit outcome")
      case True
      then obtain outcome where r: "response = R_Commit outcome" by blast
      show ?thesis
      proof (cases "cc_retries k = 0")
        case False
        then show ?thesis using assms(2) k retries_fall [OF False] CP_Commit
          by (cases outcome) (fastforce simp: r commit_resume_def committed_def spend_def ask_commit_def commit_rank_def Let_def)+
      qed (use assms(2) CP_Commit in \<open>auto simp: r commit_resume_def committed_def split: Outcome.splits option.splits\<close>)
    qed (use assms(2) CP_Commit in \<open>auto simp: commit_resume_def split: Response.splits\<close>)
  next
    case CP_Reopen
    then show ?thesis using assms(2) k retries_fall [of "cc_retries k"]
      by (cases "cc_retries k = 0")
        (fastforce simp: commit_resume_def retry_commit_phase_def spend_def commit_rank_def split: Response.splits Outcome.splits)+
  next
    case CP_History
    show ?thesis
    proof (cases "\<exists>history. response = R_ReadHistory (O_Ok history)")
      case True
      then obtain history where "response = R_ReadHistory (O_Ok history)" by blast
      moreover define m where "m = (if history_contains history (cc_invocation k) then CM_Unversioned else ci_mode (cc_invocation k))"
      ultimately have "ask_commit_phase (k\<lparr>cc_mode := m\<rparr>) CP_Commit = St_Request i' operation' k'"
        using assms(2) CP_History by (simp add: commit_resume_def ask_commit_def)
      moreover have "m = CM_Unversioned \<or> m = ci_mode (cc_invocation k)" by (simp add: m_def)
      ultimately
      show ?thesis
        by (intro exI [of _ "k\<lparr>cc_mode := m\<rparr>"] exI [of _ CP_Commit]) (use k CP_History in \<open>auto simp: commit_rank_def invocation_ok_def\<close>)
    next
      case False
      then show ?thesis using assms(2) CP_History k retries_fall [of "cc_retries k"]
        by (cases "cc_retries k = 0")
          (fastforce simp: commit_resume_def retry_commit_phase_def spend_def commit_rank_def split: Response.splits Outcome.splits)+
    qed
  qed
  then show ?thesis using k by (auto simp: ask_commit_phase_request commit_inv_def commit_rank_def)
qed

lemma port_payload_capability: "signature REGISTRY p = Some s \<Longrightarrow> answer_payload (sg_answer s) = port_payload p \<and> sg_capability s = port_capability p"
  using signature_shipped [of p] by auto

lemma capability_declared:
  "(case signature REGISTRY p of Some s \<Rightarrow> sg_capability s \<in> C | None \<Rightarrow> False) \<longleftrightarrow> port_capability p \<in> C"
  using signature_shipped [of p] by auto

interpretation commit: effect_program CommitProgram commit_inv commit_rank
proof
  show "check_capabilities CommitProgram REGISTRY [] (pg_ports CommitProgram) = Inr ()"
    by (simp add: CommitProgram_def capability_declared port_capability_def)
next
  fix k i operation
  assume "commit_inv k i operation"
  then show "operation_port operation \<in> set (pg_ports CommitProgram) \<and> operation_ok operation"
    by (auto simp: commit_inv_def commit_phase_operation_def commit_operation_def CommitProgram_def operation_port_def operation_ok_def
        invocation_ok_def split: CommitPhase.splits)
next
  fix k i operation response i' operation' k'
  assume "commit_inv k i operation" "pg_resume CommitProgram k response = St_Request i' operation' k'"
  then show "opid_next i = Some i' \<and> commit_inv k' i' operation' \<and> commit_rank k' < commit_rank k"
    using resume_commit_request by (simp add: CommitProgram_def)
qed

lemma commit_starts:
  assumes "invocation_ok invocation"
  shows "commit.starts (ci_epoch invocation) (commit_start invocation policy)"
    and "commit.starts (ci_epoch invocation) (commit_recover invocation policy)"
    and "commit.rank_of (commit_start invocation policy) = 3 * unat (cpol_retries policy) + 1"
    and "commit.rank_of (commit_recover invocation policy) = 3 * unat (cpol_retries policy) + 3"
  using assms
  by (auto simp: commit.starts_def commit_start_def commit_recover_def Let_def commit_inv_def commit_phase_operation_def
      invocation_ok_def commit.rank_of_def commit_rank_def)

subsection \<open>Outbox delivery\<close>

lemma skip_blocked_ge: "current \<le> skip_blocked pending blocked current"
proof (induction pending blocked current rule: skip_blocked.induct)
  case (1 pending blocked current)
  then show ?case by (subst skip_blocked.simps) (auto dest: Suc_leD)
qed

lemma skip_blocked_skips:
  "j \<in> {current..<skip_blocked pending blocked current} \<Longrightarrow> j < length pending \<and> dl_destination (pending ! j) \<in> blocked"
proof (induction pending blocked current rule: skip_blocked.induct)
  case (1 pending blocked current)
  then show ?case
    by (cases "j = current"; subst (asm) (2) skip_blocked.simps) (auto split: if_splits simp: Suc_le_eq)
qed

lemma skip_blocked_stops: "skip_blocked pending blocked current < length pending \<Longrightarrow>
  dl_destination (pending ! skip_blocked pending blocked current) \<notin> blocked"
proof (induction pending blocked current rule: skip_blocked.induct)
  case (1 pending blocked current)
  then show ?case by (metis skip_blocked.simps)
qed

lemma skip_blocked_none [simp]: "skip_blocked pending {} current = current"
  by (subst skip_blocked.simps) simp

lemma slice_get_Some: "slice_get xs i = Some x \<longleftrightarrow> i < length xs \<and> x = xs ! i"
  by (auto simp: slice_get_def)

lemma slice_get_None: "slice_get xs i = None \<longleftrightarrow> length xs \<le> i"
  by (auto simp: slice_get_def)

lemma delivery_done_request [simp]: "delivery_done k outcome \<noteq> St_Request i operation k'"
  by (simp add: delivery_done_def)

lemma ask_request:
  "ask k phase operation = St_Request i operation' k' \<longleftrightarrow>
     opid_next (dc_id k) = Some i \<and> operation' = operation \<and> k' = k\<lparr>dc_phase := phase, dc_id := i\<rparr>"
  by (auto simp: ask_def split: option.splits)

lemma send_request:
  "send k = St_Request i operation k' \<longleftrightarrow>
     (let n = skip_blocked (dc_pending k) (dc_blocked k) (dc_current k) in
      n < length (dc_pending k) \<and> opid_next (dc_id k) = Some i
      \<and> operation = Op_Send (di_store (dc_invocation k)) (dc_pending k ! n)
      \<and> k' = k\<lparr>dc_current := n, dc_phase := DP_Send, dc_id := i\<rparr>)"
  by (auto simp: send_def Let_def ask_request slice_get_def)

definition delivery_phase_operation :: "DeliveryContinuation \<Rightarrow> Operation" where
  "delivery_phase_operation k =
     (let store = di_store (dc_invocation k); delivery = dc_pending k ! dc_current k in
      case dc_phase k of
        DP_Read \<Rightarrow> Op_ReadOutbox store
      | DP_Send \<Rightarrow> Op_Send store delivery
      | DP_Acknowledge \<Rightarrow> Op_Acknowledge store (dl_id delivery) (dl_payload_sha256 delivery)
      | DP_Clock \<Rightarrow> Op_Clock
      | DP_Jitter \<Rightarrow> Op_Random RetryJitter (dp_jitter (dc_policy k))
      | DP_Wait \<Rightarrow> Op_Wait (dc_tick k))"

definition delivery_inv :: "DeliveryContinuation \<Rightarrow> OpId \<Rightarrow> Operation \<Rightarrow> bool" where
  "delivery_inv k i operation \<longleftrightarrow> dc_id k = i \<and> operation = delivery_phase_operation k \<and> dp_jitter (dc_policy k) \<noteq> 0
     \<and> length (dc_pending k) \<le> 2 ^ 20 \<and> list_all delivery_ok (dc_pending k)
     \<and> (dc_phase k \<noteq> DP_Read \<longrightarrow> dc_current k < length (dc_pending k))"

text \<open>The answers left: two for each record, four more for each retry.\<close>

definition delivery_rank :: "DeliveryContinuation \<Rightarrow> nat" where
  "delivery_rank k =
     (let later = 2 * (length (dc_pending k) - dc_current k) in
      4 * unat (dc_retries k) + (case dc_phase k of
        DP_Read \<Rightarrow> 2 ^ 21 | DP_Send \<Rightarrow> later - 1 | DP_Acknowledge \<Rightarrow> later - 2
      | DP_Clock \<Rightarrow> later + 2 | DP_Jitter \<Rightarrow> later + 1 | DP_Wait \<Rightarrow> later))"

lemma send_inv:
  assumes "send k = St_Request i' operation' k'" "dc_id k = i" "dp_jitter (dc_policy k) \<noteq> 0"
    "length (dc_pending k) \<le> 2 ^ 20" "list_all delivery_ok (dc_pending k)"
  shows "opid_next i = Some i' \<and> delivery_inv k' i' operation'
    \<and> delivery_rank k' < 4 * unat (dc_retries k) + 2 * (length (dc_pending k) - dc_current k)"
  using assms skip_blocked_ge [of "dc_current k" "dc_pending k" "dc_blocked k"]
  by (auto simp: send_request Let_def delivery_inv_def delivery_phase_operation_def delivery_rank_def)

lemma failed_destination_inv:
  assumes "failed_destination k failed = St_Request i' operation' k'" "dc_id k = i" "dp_jitter (dc_policy k) \<noteq> 0"
    "length (dc_pending k) \<le> 2 ^ 20" "list_all delivery_ok (dc_pending k)" "dc_current k < length (dc_pending k)"
  shows "opid_next i = Some i' \<and> delivery_inv k' i' operation'
    \<and> delivery_rank k' + 2 < 4 * unat (dc_retries k) + 2 * (length (dc_pending k) - dc_current k)"
proof -
  from assms(1) obtain c where c: "send c = St_Request i' operation' k'" "dc_id c = dc_id k" "dc_policy c = dc_policy k"
      "dc_pending c = dc_pending k" "dc_current c = Suc (dc_current k)" "dc_retries c = dc_retries k"
    by (auto simp: failed_destination_def split: if_splits option.splits)
  with send_inv [OF c(1), of i] assms show ?thesis by auto
qed

lemma outbox_fits:
  assumes "response_fits REGISTRY operation (R_ReadOutbox (O_Ok pending))"
  shows "length pending \<le> 2 ^ 20 \<and> list_all delivery_ok pending"
proof -
  obtain s where s: "signature REGISTRY P_ReadOutbox = Some s" "answer_payload (sg_answer s) = port_payload P_ReadOutbox"
    using signature_shipped [of P_ReadOutbox] by blast
  have "operation_port operation = P_ReadOutbox" using assms by (simp add: response_fits_def response_port_def)
  then show ?thesis using assms s
    by (auto simp: response_fits_def response_value_def port_payload_def list_all_iff REGISTRY_MAX_ITEMS_def)
qed

lemma resume_read_request:
  assumes "delivery_inv k i operation" "dc_phase k = DP_Read" "read_pending k outcome = St_Request i' operation' k'"
    "response_fits REGISTRY operation (R_ReadOutbox outcome)"
  shows "opid_next i = Some i' \<and> delivery_inv k' i' operation' \<and> delivery_rank k' < delivery_rank k"
proof (cases "\<exists>pending. outcome = O_Ok pending")
  case True
  then obtain pending where p: "outcome = O_Ok pending" by blast
  with outbox_fits assms(4) have f: "length pending \<le> 2 ^ 20" "list_all delivery_ok pending" by auto
  from assms(3) have "send (k\<lparr>dc_pending := pending, dc_current := 0\<rparr>) = St_Request i' operation' k'"
    by (auto simp: p read_pending_def split: if_splits)
  from send_inv [OF this, of i] f assms(1,2) show ?thesis by (auto simp: delivery_inv_def delivery_rank_def)
next
  case False
  then have r: "dc_retries k \<noteq> 0" and a: "ask (k\<lparr>dc_retries := dc_retries k - 1\<rparr>) DP_Read
      (Op_ReadOutbox (di_store (dc_invocation k))) = St_Request i' operation' k'"
    using assms(3) by (auto simp: read_pending_def split: Outcome.splits if_splits)
  from a retries_fall [OF r] assms(1,2) show ?thesis
    by (auto simp: ask_request delivery_inv_def delivery_phase_operation_def delivery_rank_def)
qed

lemma resume_send_request:
  assumes "delivery_inv k i operation" "dc_phase k = DP_Send" "sent_one k sent = St_Request i' operation' k'"
  shows "opid_next i = Some i' \<and> delivery_inv k' i' operation' \<and> delivery_rank k' < delivery_rank k"
proof -
  from assms(1,2) have k: "dc_id k = i" "dp_jitter (dc_policy k) \<noteq> 0" "length (dc_pending k) \<le> 2 ^ 20"
      "list_all delivery_ok (dc_pending k)" "dc_current k < length (dc_pending k)"
    by (simp_all add: delivery_inv_def)
  define c where "c = (case sent of S_Sent _ \<Rightarrow> k\<lparr>dc_may_have_sent := True\<rparr> | S_Unknown _ \<Rightarrow> k\<lparr>dc_may_have_sent := True\<rparr> | _ \<Rightarrow> k)"
  have c: "dc_id c = i" "dc_policy c = dc_policy k" "dc_pending c = dc_pending k" "dc_current c = dc_current k"
      "dc_retries c = dc_retries k" "dc_invocation c = dc_invocation k"
    using k(1) by (simp_all add: c_def split: Sent.splits)
  let ?d = "dc_pending k ! dc_current k"
  from assms(3) k(5) consider
      "ask c DP_Acknowledge (Op_Acknowledge (di_store (dc_invocation c)) (dl_id ?d) (dl_payload_sha256 ?d)) = St_Request i' operation' k'"
    | outcome where "failed_destination c outcome = St_Request i' operation' k'"
    | "dc_retries c \<noteq> 0" "back_off c = St_Request i' operation' k'"
    unfolding sent_one_def c_def [symmetric] Let_def slice_get_def c(3,4)
    by (auto split: Sent.splits if_splits)
  then show ?thesis
  proof cases
    case 1
    then show ?thesis using k c assms(2)
      by (auto simp: ask_request delivery_inv_def delivery_phase_operation_def delivery_rank_def Let_def)
  next
    case 2
    from failed_destination_inv [OF 2 c(1)] k c assms(2) show ?thesis by (auto simp: delivery_rank_def)
  next
    case 3
    from 3(2) retries_fall [OF 3(1)] k c assms(2) show ?thesis
      by (auto simp: back_off_def ask_request delivery_inv_def delivery_phase_operation_def delivery_rank_def)
  qed
qed

lemma resume_acknowledge_request:
  assumes "delivery_inv k i operation" "dc_phase k = DP_Acknowledge" "acknowledged k outcome = St_Request i' operation' k'"
  shows "opid_next i = Some i' \<and> delivery_inv k' i' operation' \<and> delivery_rank k' < delivery_rank k"
proof -
  from assms(1,2) have k: "dc_id k = i" "dp_jitter (dc_policy k) \<noteq> 0" "length (dc_pending k) \<le> 2 ^ 20"
      "list_all delivery_ok (dc_pending k)" "dc_current k < length (dc_pending k)"
    by (simp_all add: delivery_inv_def)
  let ?d = "dc_pending k ! dc_current k"
  from assms(3) k(5) consider
      n where "send (k\<lparr>dc_acknowledged := n, dc_current := dc_current k + 1\<rparr>) = St_Request i' operation' k'"
    | failed where "failed_destination k failed = St_Request i' operation' k'"
    | "dc_retries k \<noteq> 0" "ask (k\<lparr>dc_retries := dc_retries k - 1\<rparr>) DP_Acknowledge
        (Op_Acknowledge (di_store (dc_invocation k)) (dl_id ?d) (dl_payload_sha256 ?d)) = St_Request i' operation' k'"
    by (auto simp: acknowledged_def settle_current_def retry_acknowledge_def slice_get_def split: Outcome.splits option.splits if_splits)
  then show ?thesis
  proof cases
    case 1
    from send_inv [OF 1, of i] k assms(2) show ?thesis by (auto simp: delivery_rank_def)
  next
    case 2
    from failed_destination_inv [OF 2 k(1)] k assms(2) show ?thesis by (auto simp: delivery_rank_def)
  next
    case 3
    from 3(2) retries_fall [OF 3(1)] k assms(2) show ?thesis
      by (auto simp: ask_request delivery_inv_def delivery_phase_operation_def delivery_rank_def Let_def)
  qed
qed

lemma resume_delivery_request:
  assumes "delivery_inv k i operation" "response_fits REGISTRY operation response" "delivery_resume k response = St_Request i' operation' k'"
  shows "opid_next i = Some i' \<and> delivery_inv k' i' operation' \<and> delivery_rank k' < delivery_rank k"
proof (cases "dc_phase k")
  case DP_Read
  then show ?thesis using resume_read_request [OF assms(1) DP_Read] assms(2,3)
    by (auto simp: delivery_resume_def split: Response.splits)
next
  case DP_Send
  then show ?thesis using resume_send_request [OF assms(1) DP_Send] assms(3)
    by (auto simp: delivery_resume_def split: Response.splits)
next
  case DP_Acknowledge
  then show ?thesis using resume_acknowledge_request [OF assms(1) DP_Acknowledge] assms(3)
    by (auto simp: delivery_resume_def split: Response.splits)
next
  case DP_Clock
  then show ?thesis using assms(1,3)
    by (auto simp: delivery_resume_def clock_read_def ask_request delivery_inv_def delivery_phase_operation_def delivery_rank_def
        split: Response.splits sum.splits if_splits)
next
  case DP_Jitter
  then show ?thesis using assms(1,3)
    by (auto simp: delivery_resume_def jitter_drawn_def ask_request delivery_inv_def delivery_phase_operation_def delivery_rank_def Let_def
        split: Response.splits sum.splits if_splits option.splits)
next
  case DP_Wait
  then have "send k = St_Request i' operation' k'" using assms(3)
    by (auto simp: delivery_resume_def woke_up_def split: Response.splits sum.splits WaitError.splits if_splits)
  from send_inv [OF this, of i] assms(1) DP_Wait show ?thesis by (auto simp: delivery_inv_def delivery_rank_def)
qed

interpretation delivery: effect_program DeliveryProgram delivery_inv delivery_rank
proof
  show "check_capabilities DeliveryProgram REGISTRY [] (pg_ports DeliveryProgram) = Inr ()"
    by (simp add: DeliveryProgram_def capability_declared port_capability_def)
next
  fix k i operation
  assume "delivery_inv k i operation"
  then show "operation_port operation \<in> set (pg_ports DeliveryProgram) \<and> operation_ok operation"
    by (auto simp: delivery_inv_def delivery_phase_operation_def Let_def DeliveryProgram_def operation_port_def operation_ok_def
        list_all_length split: DeliveryPhase.splits)
next
  fix k i operation response i' operation' k'
  assume "delivery_inv k i operation" "response_fits REGISTRY operation response"
    "pg_resume DeliveryProgram k response = St_Request i' operation' k'"
  then show "opid_next i = Some i' \<and> delivery_inv k' i' operation' \<and> delivery_rank k' < delivery_rank k"
    using resume_delivery_request by (simp add: DeliveryProgram_def)
qed

lemma delivery_starts:
  assumes "dp_jitter policy \<noteq> 0"
  shows "delivery.starts (di_epoch invocation) (start_with_isolation invocation policy isolate)"
    and "delivery.rank_of (start_with_isolation invocation policy isolate) = 4 * unat (dp_retries policy) + 2 ^ 21 + 1"
  using assms
  by (auto simp: delivery.starts_def start_with_isolation_def Let_def delivery_inv_def delivery_phase_operation_def
      delivery.rank_of_def delivery_rank_def)

text \<open>The records that the answers so far have handed over.\<close>

definition handed_over :: "Response \<Rightarrow> Delivery list" where
  "handed_over response = (case response of R_ReadOutbox (O_Ok pending) \<Rightarrow> pending | _ \<Rightarrow> [])"

definition pending_read :: "(Operation \<times> Response) list \<Rightarrow> Delivery list" where
  "pending_read trace = concat (map (handed_over \<circ> snd) trace)"

text \<open>As the rank, but a read pays for its records.\<close>

definition delivery_cost :: "DeliveryContinuation \<Rightarrow> nat" where
  "delivery_cost k = (if dc_phase k = DP_Read then 4 * unat (dc_retries k) else delivery_rank k)"

lemma cost_le_rank: "delivery_cost k \<le> delivery_rank k"
  by (simp add: delivery_cost_def delivery_rank_def)

lemma read_request_cases:
  assumes "read_pending k outcome = St_Request i operation k'"
  obtains (records) pending where "outcome = O_Ok pending" "send (k\<lparr>dc_pending := pending, dc_current := 0\<rparr>) = St_Request i operation k'"
  | (again) "\<And>pending. outcome \<noteq> O_Ok pending" "dc_retries k \<noteq> 0"
      "ask (k\<lparr>dc_retries := dc_retries k - 1\<rparr>) DP_Read (Op_ReadOutbox (di_store (dc_invocation k))) = St_Request i operation k'"
  using assms by (cases outcome) (auto simp: read_pending_def split: if_splits)

lemma read_cost:
  assumes "delivery_inv k i operation" "dc_phase k = DP_Read" "response_fits REGISTRY operation response"
    and "delivery_resume k response = St_Request i' operation' k'"
  shows "delivery_cost k' < delivery_cost k + 2 * length (handed_over response)"
proof -
  from assms(2,4) obtain outcome where o: "response = R_ReadOutbox outcome" "read_pending k outcome = St_Request i' operation' k'"
    by (auto simp: delivery_resume_def split: Response.splits)
  from o(2) show ?thesis
  proof (cases rule: read_request_cases)
    case (records pending)
    with outbox_fits assms(3) o(1) have "length pending \<le> 2 ^ 20" "list_all delivery_ok pending" by auto
    with send_inv [OF records(2), of i] assms(1,2) have "delivery_rank k' < 4 * unat (dc_retries k) + 2 * length pending"
      by (simp add: delivery_inv_def)
    with cost_le_rank [of k'] show ?thesis by (simp add: o(1) records(1) handed_over_def delivery_cost_def assms(2))
  next
    case again
    with retries_fall [OF again(2)] show ?thesis by (auto simp: ask_request delivery_cost_def assms(2))
  qed
qed

interpretation delivery_meter: metered_program DeliveryProgram delivery_inv delivery_rank delivery_cost "\<lambda>response. 2 * length (handed_over response)"
proof
  fix k i operation response i' operation' k'
  assume a: "delivery_inv k i operation" "response_fits REGISTRY operation response"
    "pg_resume DeliveryProgram k response = St_Request i' operation' k'"
  from a(3) have r: "delivery_resume k response = St_Request i' operation' k'" by (simp add: DeliveryProgram_def)
  show "delivery_cost k' < delivery_cost k + 2 * length (handed_over response)"
  proof (cases "dc_phase k = DP_Read")
    case True
    then show ?thesis by (rule read_cost [OF a(1) _ a(2) r])
  next
    case False
    with delivery.inv_resume [OF a] cost_le_rank [of k'] show ?thesis by (simp add: delivery_cost_def)
  qed
qed

text \<open>The outbox is read successfully once.\<close>

lemma resume_keeps_pending:
  assumes "dc_phase k \<noteq> DP_Read" "delivery_resume k response = St_Request i operation k'"
  shows "dc_phase k' \<noteq> DP_Read \<and> dc_pending k' = dc_pending k"
  using assms
  by (auto simp: delivery_resume_def sent_one_def acknowledged_def clock_read_def jitter_drawn_def woke_up_def back_off_def settle_current_def
      retry_acknowledge_def failed_destination_def ask_request send_request Let_def
      split: DeliveryPhase.splits Response.splits Sent.splits Outcome.splits sum.splits option.splits if_splits WaitError.splits)

lemma handed_over_port: "handed_over response \<noteq> [] \<Longrightarrow> response_port response = P_ReadOutbox"
  by (auto simp: handed_over_def response_port_def split: Response.splits Outcome.splits)

lemma pending_read_once:
  assumes "delivery.steps (start_with_isolation invocation policy isolate) trace step" "dp_jitter policy \<noteq> 0"
  shows "length (pending_read trace) \<le> 2 ^ 20
    \<and> (\<forall>i operation k. step = St_Request i operation k \<longrightarrow> pending_read trace = (if dc_phase k = DP_Read then [] else dc_pending k))"
  using assms(1)
proof (induction rule: delivery.steps.induct)
  case steps_nil
  then show ?case by (simp add: pending_read_def start_with_isolation_def Let_def)
next
  case (steps_snoc trace i operation k response)
  from delivery.steps_inv [OF steps_snoc.hyps(1) delivery_starts(1) [OF assms(2)]] have k: "delivery_inv k i operation" by simp
  have resume: "pg_resume DeliveryProgram k response = delivery_resume k response" by (simp add: DeliveryProgram_def)
  show ?case
  proof (cases "dc_phase k = DP_Read")
    case True
    with steps_snoc.IH have t: "pending_read (trace @ [(operation, response)]) = handed_over response" by (simp add: pending_read_def)
    have "length (handed_over response) \<le> 2 ^ 20"
      using outbox_fits [of operation "handed_over response"] steps_snoc.hyps(2)
      by (auto simp: handed_over_def split: Response.splits Outcome.splits)
    moreover have "handed_over response = (if dc_phase k' = DP_Read then [] else dc_pending k')"
      if "delivery_resume k response = St_Request i' operation' k'" for i' operation' k'
    proof -
      from True that obtain outcome where o: "response = R_ReadOutbox outcome" "read_pending k outcome = St_Request i' operation' k'"
        by (auto simp: delivery_resume_def split: Response.splits)
      from o(2) show ?thesis
        by (cases rule: read_request_cases) (auto simp: o(1) handed_over_def send_request ask_request Let_def split: Outcome.splits)
    qed
    ultimately show ?thesis by (simp add: t resume)
  next
    case False
    have "operation_port operation \<noteq> P_ReadOutbox"
      using k False by (auto simp: delivery_inv_def delivery_phase_operation_def Let_def operation_port_def split: DeliveryPhase.splits)
    then have "handed_over response = []" using handed_over_port [of response] steps_snoc.hyps(2) unfolding response_fits_def by metis
    with steps_snoc.IH False resume_keeps_pending [OF False] show ?thesis by (auto simp: pending_read_def resume)
  qed
qed

lemma delivery_run_cost:
  assumes "dp_jitter policy \<noteq> 0"
    and "driven DeliveryProgram REGISTRY (di_epoch invocation) (start_with_isolation invocation policy isolate) trace d"
  shows "length trace \<le> 4 * unat (dp_retries policy) + 2 * length (pending_read trace) + 1"
    and "length trace = 4 * unat (dp_retries policy) + 2 * length (pending_read trace) + 1 \<Longrightarrow> driver_outcome d \<noteq> None"
    and "length (pending_read trace) \<le> 2 ^ 20"
proof -
  note starts = delivery_starts(1) [OF assms(1)]
  have c: "delivery_meter.cost_of (start_with_isolation invocation policy isolate) = 4 * unat (dp_retries policy) + 1"
    by (simp add: start_with_isolation_def Let_def delivery_meter.cost_of_def delivery_cost_def)
  have s: "sum_list (map ((\<lambda>response. 2 * length (handed_over response)) \<circ> snd) trace) = 2 * length (pending_read trace)"
    by (simp add: pending_read_def length_concat comp_def sum_list_const_mult)
  from delivery_meter.driven_cost [OF assms(2) starts, unfolded c s]
  show "length trace \<le> 4 * unat (dp_retries policy) + 2 * length (pending_read trace) + 1"
    "length trace = 4 * unat (dp_retries policy) + 2 * length (pending_read trace) + 1 \<Longrightarrow> driver_outcome d \<noteq> None" by auto
  from delivery.driven_steps [OF assms(2) starts] pending_read_once [OF _ assms(1)]
  show "length (pending_read trace) \<le> 2 ^ 20" by blast
qed

subsection \<open>What a delivery run has done\<close>

definition settles :: "Response \<Rightarrow> bool" where
  "settles response \<longleftrightarrow> response = R_Acknowledge (O_Ok ()) \<or> response = R_Acknowledge (O_Refused C_AlreadyAcknowledged)"

definition may_reach :: "Response \<Rightarrow> bool" where
  "may_reach response \<longleftrightarrow> (\<exists>report. response = R_Send (S_Sent report)) \<or> (\<exists>fault. response = R_Send (S_Unknown fault))"

definition reported :: "(Operation \<times> Response) list \<Rightarrow> Store \<Rightarrow> hash32 \<Rightarrow> hash32 \<Rightarrow> bool" where
  "reported trace store i payload \<longleftrightarrow> (\<exists>d. dl_id d = i \<and> dl_payload_sha256 d = payload
     \<and> (Op_Send store d, R_Send (S_Sent \<lparr>rep_delivery_id = i, rep_payload_sha256 = payload\<rparr>)) \<in> set trace)"

text \<open>Every acknowledgement that was requested follows a matching report.\<close>

definition acks_reported :: "(Operation \<times> Response) list \<Rightarrow> bool" where
  "acks_reported trace \<longleftrightarrow> (\<forall>n store i payload response. n < length trace \<longrightarrow>
     trace ! n = (Op_Acknowledge store i payload, response) \<longrightarrow> reported (take n trace) store i payload)"

definition settled_records :: "(Operation \<times> Response) list \<Rightarrow> Store \<Rightarrow> Delivery list \<Rightarrow> bool" where
  "settled_records trace store ds \<longleftrightarrow> (\<forall>d\<in>set ds. \<exists>response. settles response
     \<and> (Op_Acknowledge store (dl_id d) (dl_payload_sha256 d), response) \<in> set trace)"

text \<open>What holds of the saved values whatever the phase, once the records are read.\<close>

definition delivery_facts :: "DeliveryInvocation \<Rightarrow> (Operation \<times> Response) list \<Rightarrow> DeliveryContinuation \<Rightarrow> bool" where
  "delivery_facts invocation trace k \<longleftrightarrow>
     dc_invocation k = invocation
     \<and> (dc_may_have_sent k \<longleftrightarrow> list_ex (may_reach \<circ> snd) trace)
     \<and> (dc_failed k = None \<longrightarrow> dc_blocked k = {} \<and> unat (dc_acknowledged k) = dc_current k
          \<and> settled_records trace (di_store invocation) (take (dc_current k) (dc_pending k)))
     \<and> (\<forall>n. dc_failed k \<noteq> Some (O_Ok n)) \<and> acks_reported trace"

definition records_read :: "DeliveryInvocation \<Rightarrow> (Operation \<times> Response) list \<Rightarrow> DeliveryContinuation \<Rightarrow> bool" where
  "records_read invocation trace k \<longleftrightarrow>
     (Op_ReadOutbox (di_store invocation), R_ReadOutbox (O_Ok (dc_pending k))) \<in> set trace"

definition delivery_trace_inv :: "DeliveryInvocation \<Rightarrow> (Operation \<times> Response) list \<Rightarrow> DeliveryContinuation \<Rightarrow> bool" where
  "delivery_trace_inv invocation trace k \<longleftrightarrow> delivery_facts invocation trace k
     \<and> (if dc_phase k = DP_Read then dc_failed k = None \<and> dc_current k = 0 \<and> dc_pending k = []
        else records_read invocation trace k \<and> dc_current k < length (dc_pending k))
     \<and> (dc_phase k = DP_Acknowledge \<longrightarrow> reported trace (di_store invocation)
          (dl_id (dc_pending k ! dc_current k)) (dl_payload_sha256 (dc_pending k ! dc_current k)))"

definition outcome_honest :: "DeliveryInvocation \<Rightarrow> (Operation \<times> Response) list \<Rightarrow> u64 Outcome \<Rightarrow> bool" where
  "outcome_honest invocation trace outcome \<longleftrightarrow> (case outcome of
       O_Ok n \<Rightarrow> \<exists>pending. (Op_ReadOutbox (di_store invocation), R_ReadOutbox (O_Ok pending)) \<in> set trace
          \<and> unat n = length pending \<and> settled_records trace (di_store invocation) pending
     | O_Unknown _ \<Rightarrow> True
     | _ \<Rightarrow> \<not> list_ex (may_reach \<circ> snd) trace)"

definition delivery_step_ok :: "DeliveryInvocation \<Rightarrow> (Operation \<times> Response) list \<Rightarrow> DeliveryStep \<Rightarrow> bool" where
  "delivery_step_ok invocation trace step \<longleftrightarrow> acks_reported trace \<and> (case step of
       St_Done outcome \<Rightarrow> outcome_honest invocation trace outcome
     | St_Request i operation k \<Rightarrow> delivery_trace_inv invocation trace k)"

lemma done_ok:
  assumes "delivery_facts invocation trace k" "\<And>n. outcome \<noteq> O_Ok n"
  shows "delivery_step_ok invocation trace (delivery_done k outcome)"
  using assms by (cases outcome) (auto simp: delivery_step_ok_def delivery_done_def outcome_honest_def delivery_facts_def)

lemma ask_ok:
  assumes "delivery_facts invocation trace k" "\<And>i. delivery_trace_inv invocation trace (k\<lparr>dc_phase := phase, dc_id := i\<rparr>)"
  shows "delivery_step_ok invocation trace (ask k phase operation)"
  using assms done_ok [OF assms(1), of "O_Refused C_Range"]
  by (auto simp: ask_def delivery_step_ok_def delivery_facts_def split: option.splits)

lemma send_ok:
  assumes "delivery_facts invocation trace k" "records_read invocation trace k" "dc_current k \<le> length (dc_pending k)"
  shows "delivery_step_ok invocation trace (send k)"
proof -
  define n where "n = skip_blocked (dc_pending k) (dc_blocked k) (dc_current k)"
  let ?k = "k\<lparr>dc_current := n\<rparr>"
  have f: "delivery_facts invocation trace ?k" using assms(1) by (auto simp: delivery_facts_def n_def)
  show ?thesis
  proof (cases "n < length (dc_pending k)")
    case True
    then have "send k = ask ?k DP_Send (Op_Send (di_store (dc_invocation k)) (dc_pending k ! n))"
      by (simp add: send_def n_def [symmetric] slice_get_def)
    moreover have "delivery_trace_inv invocation trace (?k\<lparr>dc_phase := DP_Send, dc_id := i\<rparr>)" for i
      using f assms(2) True by (simp add: delivery_trace_inv_def delivery_facts_def records_read_def)
    ultimately show ?thesis using ask_ok [OF f] by simp
  next
    case False
    then have d: "send k = delivery_done ?k (case dc_failed k of Some failed \<Rightarrow> failed | None \<Rightarrow> O_Ok (dc_acknowledged k))"
      by (auto simp: send_def Let_def n_def [symmetric] slice_get_def split: option.splits)
    show ?thesis
    proof (cases "dc_failed k")
      case None
      with assms False have "dc_current k = length (dc_pending k)" by (auto simp: n_def delivery_facts_def)
      with None assms show ?thesis
        by (auto simp: d delivery_step_ok_def delivery_done_def outcome_honest_def delivery_facts_def records_read_def)
    next
      case (Some failed)
      with done_ok [OF f, of failed] assms(1) show ?thesis by (simp add: d delivery_facts_def)
    qed
  qed
qed

lemma reported_snoc: "reported trace store i payload \<Longrightarrow> reported (trace @ [x]) store i payload"
  by (auto simp: reported_def)

lemma acks_reported_snoc:
  "acks_reported (trace @ [(operation, response)]) \<longleftrightarrow> acks_reported trace
     \<and> (\<forall>store i payload. operation = Op_Acknowledge store i payload \<longrightarrow> reported trace store i payload)"
  by (auto simp: acks_reported_def nth_append less_Suc_eq)

lemma settled_snoc: "settled_records trace store ds \<Longrightarrow> settled_records (trace @ [x]) store ds"
  by (fastforce simp: settled_records_def)

lemma facts_snoc:
  assumes "delivery_facts invocation trace k" "\<not> may_reach response"
    "\<And>store i payload. operation = Op_Acknowledge store i payload \<Longrightarrow> reported trace store i payload"
  shows "delivery_facts invocation (trace @ [(operation, response)]) k"
  using assms settled_snoc by (auto simp: delivery_facts_def acks_reported_snoc)

lemma facts_reach:
  assumes "delivery_facts invocation trace k" "may_reach response" "operation = Op_Send store d"
  shows "delivery_facts invocation (trace @ [(operation, response)]) (k\<lparr>dc_may_have_sent := True\<rparr>)"
  using assms settled_snoc by (auto simp: delivery_facts_def acks_reported_snoc)

lemma records_read_snoc: "records_read invocation trace k \<Longrightarrow> records_read invocation (trace @ [x]) k"
  by (simp add: records_read_def)

lemma failed_destination_ok:
  assumes "delivery_facts invocation trace k" "records_read invocation trace k" "dc_current k < length (dc_pending k)"
    "\<And>n. failed \<noteq> O_Ok n"
  shows "delivery_step_ok invocation trace (failed_destination k failed)"
proof (cases "dc_isolate_destinations k")
  case True
  let ?k = "k\<lparr>dc_blocked := insert (dl_destination (dc_pending k ! dc_current k)) (dc_blocked k),
      dc_failed := (if dc_failed k = None then Some failed else dc_failed k), dc_current := dc_current k + 1\<rparr>"
  have "delivery_facts invocation trace ?k" using assms(1,4) by (auto simp: delivery_facts_def)
  from send_ok [OF this] assms(2,3) True show ?thesis
    by (simp add: failed_destination_def slice_get_def records_read_def)
qed (use done_ok [OF assms(1,4)] in \<open>simp add: failed_destination_def\<close>)

lemma read_pending_ok:
  assumes "delivery_trace_inv invocation trace k" "dc_phase k = DP_Read"
    "operation = Op_ReadOutbox (di_store invocation)" "response = R_ReadOutbox outcome"
  shows "delivery_step_ok invocation (trace @ [(operation, response)]) (read_pending k outcome)"
proof -
  let ?t = "trace @ [(operation, response)]"
  have facts: "delivery_facts invocation ?t k"
    using assms facts_snoc [of invocation trace k response operation] by (auto simp: delivery_trace_inv_def may_reach_def)
  have r: "dc_failed k = None" "dc_current k = 0" "dc_pending k = []" "dc_invocation k = invocation"
    using assms(1,2) by (auto simp: delivery_trace_inv_def delivery_facts_def)
  have again: "delivery_step_ok invocation ?t (ask (k\<lparr>dc_retries := n\<rparr>) DP_Read operation)" for n
    using facts r by (intro ask_ok) (auto simp: delivery_trace_inv_def delivery_facts_def)
  have sends: "delivery_step_ok invocation ?t (send (k\<lparr>dc_pending := pending, dc_current := 0\<rparr>))" if "outcome = O_Ok pending" for pending
    using facts r that assms(3,4) by (intro send_ok) (auto simp: delivery_facts_def records_read_def settled_records_def)
  show ?thesis using again sends done_ok [OF facts] r(4) assms(3)
    by (cases outcome) (auto simp: read_pending_def)
qed

lemma sent_one_ok:
  assumes "delivery_trace_inv invocation trace k" "dc_phase k = DP_Send"
    "operation = Op_Send (di_store invocation) (dc_pending k ! dc_current k)" "response = R_Send sent"
  shows "delivery_step_ok invocation (trace @ [(operation, response)]) (sent_one k sent)"
proof -
  let ?t = "trace @ [(operation, response)]" and ?d = "dc_pending k ! dc_current k"
  define c where "c = (case sent of S_Sent _ \<Rightarrow> k\<lparr>dc_may_have_sent := True\<rparr> | S_Unknown _ \<Rightarrow> k\<lparr>dc_may_have_sent := True\<rparr> | _ \<Rightarrow> k)"
  have c: "dc_pending c = dc_pending k" "dc_current c = dc_current k" "dc_invocation c = dc_invocation k" "dc_failed c = dc_failed k"
    by (simp_all add: c_def split: Sent.splits)
  from assms(1,2) have k: "delivery_facts invocation trace k" "records_read invocation trace k" "dc_current k < length (dc_pending k)"
      "dc_invocation k = invocation" by (auto simp: delivery_trace_inv_def delivery_facts_def)
  have facts: "delivery_facts invocation ?t c"
    using facts_snoc [OF k(1), of response operation] facts_reach [OF k(1) _ assms(3), of response] assms(3,4)
    by (cases sent) (auto simp: c_def may_reach_def)
  have read: "records_read invocation ?t c" using k(2) by (simp add: records_read_def c)
  have waits: "delivery_step_ok invocation ?t (back_off c)"
    unfolding back_off_def using facts read k(3) c
    by (intro ask_ok) (auto simp: delivery_trace_inv_def delivery_facts_def records_read_def)
  have failed: "delivery_step_ok invocation ?t (failed_destination c outcome)" if "\<And>n. outcome \<noteq> O_Ok n" for outcome
    using failed_destination_ok [OF facts read _ that] k(3) c by simp
  have ack: "delivery_step_ok invocation ?t (ask c DP_Acknowledge next_operation)"
    if "sent = S_Sent report" "rep_delivery_id report = dl_id ?d" "rep_payload_sha256 report = dl_payload_sha256 ?d" for report next_operation
  proof (intro ask_ok)
    have "report = \<lparr>rep_delivery_id = dl_id ?d, rep_payload_sha256 = dl_payload_sha256 ?d\<rparr>" using that(2,3) by (cases report) simp
    then have "reported ?t (di_store invocation) (dl_id ?d) (dl_payload_sha256 ?d)" using that(1) assms(3,4) by (auto simp: reported_def)
    then show "delivery_trace_inv invocation ?t (c\<lparr>dc_phase := DP_Acknowledge, dc_id := i\<rparr>)" for i
      using facts read k(3) c by (auto simp: delivery_trace_inv_def delivery_facts_def records_read_def)
  qed (rule facts)
  show ?thesis
    unfolding sent_one_def c_def [symmetric] Let_def c slice_get_def
    using waits failed ack done_ok [OF facts, of "O_Refused C_Protocol"] k(3,4) by (cases sent) auto
qed

lemma acknowledged_ok:
  assumes "delivery_trace_inv invocation trace k" "dc_phase k = DP_Acknowledge" "response = R_Acknowledge outcome"
    "operation = Op_Acknowledge (di_store invocation) (dl_id (dc_pending k ! dc_current k)) (dl_payload_sha256 (dc_pending k ! dc_current k))"
  shows "delivery_step_ok invocation (trace @ [(operation, response)]) (acknowledged k outcome)"
proof -
  let ?t = "trace @ [(operation, response)]" and ?d = "dc_pending k ! dc_current k"
  from assms(1,2) have k: "delivery_facts invocation trace k" "records_read invocation trace k" "dc_current k < length (dc_pending k)"
      "dc_invocation k = invocation" and rep: "reported trace (di_store invocation) (dl_id ?d) (dl_payload_sha256 ?d)"
    by (auto simp: delivery_trace_inv_def delivery_facts_def)
  have facts: "delivery_facts invocation ?t k"
    using facts_snoc [OF k(1), of response operation] rep assms(3,4) by (auto simp: may_reach_def)
  have read: "records_read invocation ?t k" using k(2) by (rule records_read_snoc)
  have failed: "delivery_step_ok invocation ?t (failed_destination k outcome)" if "\<And>n. outcome \<noteq> O_Ok n" for outcome
    using failed_destination_ok [OF facts read k(3) that] .
  have again: "delivery_step_ok invocation ?t (ask (k\<lparr>dc_retries := n\<rparr>) DP_Acknowledge operation)" for n
    using facts read k(3) reported_snoc [OF rep]
    by (intro ask_ok) (auto simp: delivery_trace_inv_def delivery_facts_def records_read_def)
  have settled: "delivery_step_ok invocation ?t (settle_current k)" if s: "settles response"
  proof (cases "checked_add64 (dc_acknowledged k) 1")
    case (Some n)
    let ?k = "k\<lparr>dc_acknowledged := n, dc_current := dc_current k + 1\<rparr>"
    have "unat n = Suc (unat (dc_acknowledged k))"
      using Some by (auto simp: checked_add64_def unat_word_ariths split: if_splits)
    moreover have "settled_records ?t (di_store invocation) [?d]" using s assms(4) by (auto simp: settled_records_def)
    ultimately have "delivery_facts invocation ?t ?k"
      using facts k(3) by (auto simp: delivery_facts_def take_Suc_conv_app_nth settled_records_def)
    from send_ok [OF this] read k(3) Some show ?thesis by (simp add: settle_current_def records_read_def)
  qed (use done_ok [OF facts, of "O_Refused C_Range"] in \<open>simp add: settle_current_def\<close>)
  show ?thesis
    using settled failed again assms(3,4) k(3,4)
    by (cases outcome) (auto simp: acknowledged_def settles_def retry_acknowledge_def slice_get_def)
qed

lemma delivery_resume_ok:
  assumes "delivery_trace_inv invocation trace k" "operation = delivery_phase_operation k"
    "response_port response = operation_port operation"
  shows "delivery_step_ok invocation (trace @ [(operation, response)]) (delivery_resume k response)"
proof (cases "dc_phase k \<in> {DP_Read, DP_Send, DP_Acknowledge}")
  case True
  have i: "dc_invocation k = invocation" using assms(1) by (simp add: delivery_trace_inv_def delivery_facts_def)
  show ?thesis using True assms i read_pending_ok [OF assms(1)] sent_one_ok [OF assms(1)] acknowledged_ok [OF assms(1)]
    by (auto simp: delivery_phase_operation_def Let_def operation_port_def response_port_def delivery_resume_def split: Response.splits)
next
  case False
  let ?t = "trace @ [(operation, response)]"
  from False assms have k: "delivery_facts invocation trace k" "records_read invocation trace k" "dc_current k < length (dc_pending k)"
      "\<not> may_reach response" "\<And>store i payload. operation \<noteq> Op_Acknowledge store i payload"
    by (cases "dc_phase k"; auto simp: delivery_trace_inv_def delivery_phase_operation_def may_reach_def response_port_def operation_port_def)+
  have facts: "delivery_facts invocation ?t k" using facts_snoc [OF k(1,4)] k(5) by blast
  have read: "records_read invocation ?t k" using k(2) by (rule records_read_snoc)
  have asks: "delivery_step_ok invocation ?t (ask (k\<lparr>dc_tick := tick\<rparr>) phase next_operation)"
    if "phase = DP_Jitter \<or> phase = DP_Wait" for tick phase next_operation
    using facts read k(3) that by (intro ask_ok) (auto simp: delivery_trace_inv_def delivery_facts_def records_read_def)
  show ?thesis
    using False asks done_ok [OF facts] send_ok [OF facts read] k(3)
    by (auto simp: delivery_resume_def clock_read_def jitter_drawn_def woke_up_def Let_def
        split: DeliveryPhase.splits Response.splits sum.splits option.splits WaitError.splits)
qed

lemma delivery_steps_ok:
  assumes "delivery.steps (start_with_isolation invocation policy isolate) trace step" "dp_jitter policy \<noteq> 0"
  shows "delivery_step_ok invocation trace step"
  using assms
proof (induction rule: delivery.steps.induct)
  case steps_nil
  then show ?case
    by (simp add: delivery_step_ok_def start_with_isolation_def Let_def delivery_trace_inv_def delivery_facts_def settled_records_def
        acks_reported_def)
next
  case (steps_snoc trace i operation k response)
  then have "delivery_trace_inv invocation trace k" by (simp add: delivery_step_ok_def)
  moreover have "operation = delivery_phase_operation k"
    using delivery.steps_inv [OF steps_snoc.hyps(1) delivery_starts(1) [OF steps_snoc.prems]] by (simp add: delivery_inv_def)
  moreover have "response_port response = operation_port operation" using steps_snoc.hyps(2) by (simp add: response_fits_def)
  ultimately show ?case using delivery_resume_ok by (simp add: DeliveryProgram_def)
qed

section \<open>Properties\<close>

text \<open>C23: the shipped registry passes its own check, and the arguments of a request conform to the signature of its
  port exactly if its envelopes are within 1 MiB, its versions and its lane in range and a draw's bound is not zero.\<close>

theorem requests_conform_exactly:
  "registry_check REGISTRY = Ok () \<and>
   (\<exists>s. signature REGISTRY (operation_port operation) = Some s \<and>
     (conforms (sg_arguments s) (operation_value operation) name = Ok () \<longleftrightarrow> operation_ok operation))"
  using registry_shipped signature_shipped [of "operation_port operation"] operation_conforms [of operation name] by auto

text \<open>C20: whatever the program and however many replies were offered, the driver admits a reply exactly if it
  carries the binding of the outstanding request, whose ordinal is the number of requests answered so far, answers its
  port, and its payload fits the schema; a refused reply leaves the driver as it was, and after the end none is admitted.\<close>

theorem driver_admits_exactly:
  assumes "driven P registry epoch first trace d"
  shows "(fst (driver_reply P d reply) = Ok () \<longleftrightarrow>
      (\<exists>i operation k. dr_state d = DS_Waiting (binding_of i operation) operation k
         \<and> i = \<lparr>op_epoch = epoch, op_ordinal = of_nat (length trace)\<rparr> \<and> ry_binding reply = binding_of i operation
         \<and> response_fits registry operation (ry_response reply)))
    \<and> (fst (driver_reply P d reply) \<noteq> Ok () \<longrightarrow> snd (driver_reply P d reply) = d)"
proof -
  have "fst (driver_reply P d reply) = Ok () \<longleftrightarrow> (\<exists>i operation k. dr_state d = DS_Waiting (binding_of i operation) operation k
         \<and> i = \<lparr>op_epoch = epoch, op_ordinal = of_nat (length trace)\<rparr> \<and> ry_binding reply = binding_of i operation
         \<and> response_fits registry operation (ry_response reply))"
  proof (cases "dr_state d")
    case (DS_Waiting b operation k)
    from driven_inv [OF assms] DS_Waiting obtain i where
      i: "b = binding_of i operation" "op_epoch i = epoch" "unat (op_ordinal i) = length trace"
      by (auto simp: driver_inv_def)
    have "i = \<lparr>op_epoch = epoch, op_ordinal = of_nat (length trace)\<rparr>"
      using i(2) by (cases i) (simp add: i(3) [symmetric])
    with driven_admission [OF assms DS_Waiting, of reply] i(1) DS_Waiting show ?thesis by auto
  qed (simp_all add: driver_reply_def)
  moreover have "snd (driver_reply P d reply) = d" if "fst (driver_reply P d reply) \<noteq> Ok ()"
    using that driver_refused_unchanged [of P d reply _ "snd (driver_reply P d reply)"]
    by (cases "driver_reply P d reply"; cases "fst (driver_reply P d reply)") auto
  ultimately show ?thesis by blast
qed

definition sample_store :: Store where
  "sample_store = \<lparr>st_identity = 7, st_handle = 1\<rparr>"

definition sample_delivery :: DeliveryStep where
  "sample_delivery = start_with_isolation \<lparr>di_epoch = 3, di_store = sample_store\<rparr> \<lparr>dp_retries = 1, dp_backoff = 1, dp_jitter = 2\<rparr> False"

definition sample_commit :: CommitInvocation where
  "sample_commit = \<lparr>ci_epoch = 3, ci_store = sample_store, ci_key = 9,
     ci_publication = \<lparr>pd_prestate = [0], pd_command = [1], pd_context = [1], pd_identity = [], pd_subject = []\<rparr>,
     ci_mode = CM_At 0\<rparr>"

lemma sample_commit_ok: "invocation_ok sample_commit"
  by (simp add: invocation_ok_def sample_commit_def publication_ok_def envelope_ok_def mode_ok_def)

lemma sample_delivery_started:
  "\<exists>d k. driver_start DeliveryProgram REGISTRY 3 sample_delivery = Inr d \<and> driven DeliveryProgram REGISTRY 3 sample_delivery [] d
    \<and> dr_state d = DS_Waiting (binding_of (opid_first 3) (Op_ReadOutbox sample_store)) (Op_ReadOutbox sample_store) k"
proof -
  have s: "delivery.starts 3 sample_delivery"
    using delivery_starts(1) [of "\<lparr>dp_retries = 1, dp_backoff = 1, dp_jitter = 2\<rparr>" "\<lparr>di_epoch = 3, di_store = sample_store\<rparr>" False]
    by (simp add: sample_delivery_def)
  from delivery.start_waits [OF s] obtain operation k where
    w: "sample_delivery = St_Request (opid_first 3) operation k"
      "driver_start DeliveryProgram REGISTRY 3 sample_delivery = Inr \<lparr>dr_registry = REGISTRY, dr_epoch = 3, dr_answered = None,
        dr_state = DS_Waiting (binding_of (opid_first 3) operation) operation k\<rparr>" by blast
  from w(1) have "operation = Op_ReadOutbox sample_store" by (simp add: sample_delivery_def start_with_isolation_def Let_def)
  with w(2) driven_start [OF w(2)] show ?thesis by auto
qed

lemma sample_response_fits: "response_fits REGISTRY (Op_ReadOutbox sample_store) (R_ReadOutbox (O_Ok []))"
  using signature_shipped [of P_ReadOutbox]
  by (auto simp: response_fits_def response_port_def operation_port_def response_value_def port_payload_def)

theorem driver_admits_exactly_witness:
  "\<exists>d. driver_start DeliveryProgram REGISTRY 3 sample_delivery = Ok d \<and>
     fst (driver_reply DeliveryProgram d \<lparr>ry_binding = binding_of (opid_first 3) (Op_ReadOutbox sample_store),
       ry_response = R_ReadOutbox (O_Ok [])\<rparr>) = Ok ()"
proof -
  obtain d k where start: "driver_start DeliveryProgram REGISTRY 3 sample_delivery = Ok d" and
    d: "driven DeliveryProgram REGISTRY 3 sample_delivery [] d" "dr_state d = DS_Waiting (binding_of (opid_first 3) (Op_ReadOutbox sample_store)) (Op_ReadOutbox sample_store) k"
    using sample_delivery_started by blast
  from driver_admits_exactly [OF d(1)] d(2) sample_response_fits
  have "fst (driver_reply DeliveryProgram d \<lparr>ry_binding = binding_of (opid_first 3) (Op_ReadOutbox sample_store),
       ry_response = R_ReadOutbox (O_Ok [])\<rparr>) = Ok ()"
    by (auto simp: opid_first_def)
  then show ?thesis using start by blast
qed

text \<open>C21: for an invocation whose publication and mode are within the registry's bounds (envelopes of at most 1 MiB, versions of
  at most \<open>i64::MAX\<close>), the commit program under the driver is never stopped by it, and its run ends: started afresh it has at
  most one request answered and three more for each retry, recovering at most three and three more for each retry, and
  when they are used up there is an outcome.\<close>

theorem commit_program_ends:
  assumes "invocation_ok invocation"
    and "first = commit_start invocation policy \<and> attempts = 1 \<or> first = commit_recover invocation policy \<and> attempts = 3"
    and "driven CommitProgram REGISTRY (ci_epoch invocation) first trace d"
  shows "driver_failure d = None \<and> length trace \<le> 3 * unat (cpol_retries policy) + attempts
    \<and> (length trace = 3 * unat (cpol_retries policy) + attempts \<longrightarrow> driver_outcome d \<noteq> None)
    \<and> (driver_request d = None \<longleftrightarrow> driver_outcome d \<noteq> None)"
proof -
  have s: "commit.starts (ci_epoch invocation) first" and r: "commit.rank_of first = 3 * unat (cpol_retries policy) + attempts"
    using assms(2) commit_starts [OF assms(1), of policy] by auto
  note ends = commit.never_fails [OF assms(3) s, unfolded r]
  moreover have "driver_request d = None \<longleftrightarrow> driver_outcome d \<noteq> None"
    using ends(1) by (simp add: driver_request_def driver_outcome_def driver_failure_def split: DriverState.splits)
  ultimately show ?thesis by blast
qed

theorem commit_program_ends_witness:
  "\<exists>d. driver_start CommitProgram REGISTRY 3 (commit_start sample_commit \<lparr>cpol_retries = 2\<rparr>) = Ok d
     \<and> driver_failure d = None \<and> driver_request d \<noteq> None"
proof -
  let ?first = "commit_start sample_commit \<lparr>cpol_retries = 2\<rparr>"
  have e: "ci_epoch sample_commit = 3" by (simp add: sample_commit_def)
  have s: "commit.starts 3 ?first" using commit_starts(1) [OF sample_commit_ok] by (simp add: e)
  obtain operation k where d: "driver_start CommitProgram REGISTRY 3 ?first = Ok \<lparr>dr_registry = REGISTRY, dr_epoch = 3,
      dr_answered = None, dr_state = DS_Waiting (binding_of (opid_first 3) operation) operation k\<rparr>" (is "_ = Ok ?d")
    by (rule commit.start_waits [OF s]) blast
  have r: "driven CommitProgram REGISTRY (ci_epoch sample_commit) ?first [] ?d" unfolding e by (rule driven_start [OF d])
  from commit_program_ends [OF sample_commit_ok disjI1 [OF conjI [OF refl refl]] r] d show ?thesis
    by (auto simp: driver_request_def)
qed

text \<open>C22: when the policy's range of jitter is not empty, a delivery run under the driver is never stopped by it and
  ends: besides one request to read the outbox, two are answered for each record that has been read and four for each retry, and
  when they are used up there is an outcome; at most \<open>2 ^ 20\<close> records are read.\<close>

theorem delivery_program_ends:
  assumes "dp_jitter policy \<noteq> 0"
    and "driven DeliveryProgram REGISTRY (di_epoch invocation) (start_with_isolation invocation policy isolate) trace d"
  shows "driver_failure d = None \<and> length trace \<le> 4 * unat (dp_retries policy) + 2 * length (pending_read trace) + 1
    \<and> (length trace = 4 * unat (dp_retries policy) + 2 * length (pending_read trace) + 1 \<longrightarrow> driver_outcome d \<noteq> None)
    \<and> length (pending_read trace) \<le> 2 ^ 20
    \<and> (driver_request d = None \<longleftrightarrow> driver_outcome d \<noteq> None)"
proof -
  have "driver_failure d = None" by (rule delivery.never_fails(1) [OF assms(2) delivery_starts(1) [OF assms(1)]])
  moreover from this have "driver_request d = None \<longleftrightarrow> driver_outcome d \<noteq> None"
    by (simp add: driver_request_def driver_outcome_def driver_failure_def split: DriverState.splits)
  ultimately show ?thesis using delivery_run_cost [OF assms] by blast
qed

theorem delivery_program_ends_witness:
  "\<exists>d. driver_start DeliveryProgram REGISTRY 3 sample_delivery = Ok d \<and> driver_failure d = None \<and> driver_outcome d = None"
proof -
  obtain d k where start: "driver_start DeliveryProgram REGISTRY 3 sample_delivery = Ok d" and
    d: "driven DeliveryProgram REGISTRY 3 sample_delivery [] d" and
    w: "dr_state d = DS_Waiting (binding_of (opid_first 3) (Op_ReadOutbox sample_store)) (Op_ReadOutbox sample_store) k"
    using sample_delivery_started by blast
  from delivery_program_ends [of "\<lparr>dp_retries = 1, dp_backoff = 1, dp_jitter = 2\<rparr>" "\<lparr>di_epoch = 3, di_store = sample_store\<rparr>" False "[]" d]
    d w have "driver_failure d = None" "driver_outcome d = None"
    by (simp_all add: sample_delivery_def driver_request_def)
  with start show ?thesis by blast
qed

text \<open>C19: in every delivery run, with destinations isolated or not, an acknowledgement is requested only after the
  transport reported the same record and payload as sent; success means that every pending record that was read has been
  settled, one by one, and counts them; and a refusal or non-execution is reported only if no send may have reached the
  transport.\<close>

theorem delivery_outcome_honest:
  assumes "dp_jitter policy \<noteq> 0"
    and "driven DeliveryProgram REGISTRY (di_epoch invocation) (start_with_isolation invocation policy isolate) trace d"
  shows "acks_reported trace \<and> (\<forall>outcome. driver_outcome d = Some outcome \<longrightarrow> outcome_honest invocation trace outcome)"
proof -
  from delivery.driven_steps [OF assms(2) delivery_starts(1) [OF assms(1)]] obtain step where
    s: "delivery.steps (start_with_isolation invocation policy isolate) trace step"
      "case dr_state d of DS_Done outcome \<Rightarrow> step = St_Done outcome
       | DS_Waiting b operation k \<Rightarrow> (\<exists>i. step = St_Request i operation k \<and> b = binding_of i operation)
       | DS_Failed _ \<Rightarrow> False" by blast
  from delivery_steps_ok [OF s(1) assms(1)] s(2) show ?thesis
    by (auto simp: delivery_step_ok_def driver_outcome_def split: DriverState.splits)
qed

theorem delivery_outcome_honest_witness:
  "\<exists>d d'. driver_start DeliveryProgram REGISTRY 3 sample_delivery = Ok d
     \<and> driver_reply DeliveryProgram d \<lparr>ry_binding = binding_of (opid_first 3) (Op_ReadOutbox sample_store),
         ry_response = R_ReadOutbox (O_Ok [])\<rparr> = (Ok (), d')
     \<and> driver_outcome d' = Some (O_Ok 0)
     \<and> outcome_honest \<lparr>di_epoch = 3, di_store = sample_store\<rparr> [(Op_ReadOutbox sample_store, R_ReadOutbox (O_Ok []))] (O_Ok 0)"
proof -
  let ?reply = "\<lparr>ry_binding = binding_of (opid_first 3) (Op_ReadOutbox sample_store), ry_response = R_ReadOutbox (O_Ok [])\<rparr>"
  obtain d k where start: "driver_start DeliveryProgram REGISTRY 3 sample_delivery = Ok d" and
    d: "driven DeliveryProgram REGISTRY 3 sample_delivery [] d" and
    w: "dr_state d = DS_Waiting (binding_of (opid_first 3) (Op_ReadOutbox sample_store)) (Op_ReadOutbox sample_store) k"
    using sample_delivery_started by blast
  from start have k: "dc_phase k = DP_Read" "dc_failed k = None" "dc_acknowledged k = 0" "dc_may_have_sent k = False" "dc_blocked k = {}"
    using w by (auto simp: driver_start_def driver_admit_waiting sample_delivery_def start_with_isolation_def Let_def)
  define d' where "d' = snd (driver_reply DeliveryProgram d ?reply)"
  have r: "driver_reply DeliveryProgram d ?reply = (Ok (), d')"
    using driven_admission [OF d w, of ?reply] sample_response_fits by (simp add: d'_def prod_eq_iff)
  then have "dr_state d' = after_resume DeliveryProgram (dr_registry d) (opid_first 3) (delivery_resume k (R_ReadOutbox (O_Ok [])))"
    by (auto simp: driver_reply_waiting [OF w] binding_of_def DeliveryProgram_def split: sum.splits)
  moreover have "delivery_resume k (R_ReadOutbox (O_Ok [])) = St_Done (O_Ok 0)"
    using k by (simp add: delivery_resume_def read_pending_def send_def Let_def slice_get_def delivery_done_def skip_blocked.simps)
  ultimately have o: "driver_outcome d' = Some (O_Ok 0)"
    by (simp add: driver_outcome_def after_resume_def driver_admit_def split: option.splits)
  have "driven DeliveryProgram REGISTRY 3 sample_delivery ([] @ [(Op_ReadOutbox sample_store, ry_response ?reply)]) d'"
    by (rule driven_admitted [OF d w r])
  with delivery_outcome_honest [of "\<lparr>dp_retries = 1, dp_backoff = 1, dp_jitter = 2\<rparr>" "\<lparr>di_epoch = 3, di_store = sample_store\<rparr>" False _ d'] o start r
  show ?thesis by (auto simp: sample_delivery_def)
qed

end
