(* ===== verification/Zeno_Simulation.thy ===== *)
theory Zeno_Simulation
  imports Zeno_Handlers
begin

text \<open>
  \<^verbatim>\<open>zeno-fcis-shell/src/effects/simulation.rs\<close>: the simulated world whose every fault is an explicit
  choice of a schedule, and the handler over it.

  The world's two handles are a list of two; a handle number is checked before it indexes it.  Indexing
  a receipt list that is too short panics in the source; the model has that as a decision of its own,
  and the invariant of the store excludes it.  Ticks and sums of choices are below 2^64 in every
  profile that \<open>profile_well_formed\<close> admits.
\<close>

section \<open>Profiles\<close>

record Profile =
  pr_retries :: u8
  pr_queue :: nat
  pr_ticks :: u64
  pr_jitter :: u64
  pr_backoff :: u64

definition profile_frozen :: "u8 \<Rightarrow> Profile" where
  "profile_frozen retries = \<lparr>pr_retries = retries, pr_queue = 2, pr_ticks = 3, pr_jitter = 2, pr_backoff = 1\<rparr>"

definition profile_bytes :: "Profile \<Rightarrow> bytes" where
  "profile_bytes p = pr_retries p # be_bytes 8 (of_nat (pr_queue p) :: u64) @ be_bytes 8 (pr_ticks p)
     @ be_bytes 8 (pr_jitter p) @ be_bytes 8 (pr_backoff p)"

definition profile_well_formed :: "Profile \<Rightarrow> bool" where
  "profile_well_formed p \<longleftrightarrow> pr_retries p \<le> 2 \<and> 1 \<le> pr_queue p \<and> pr_queue p \<le> 2 \<and> pr_ticks p \<le> 3
     \<and> pr_jitter p \<le> 2 \<and> pr_backoff p \<le> pr_ticks p"

section \<open>The world\<close>

definition SIM_IDENTITY :: bytes where
  "SIM_IDENTITY = ascii_bytes ''simulated-authority''"

definition SIM_STORE :: hash32 where
  "SIM_STORE = be_word (replicate 32 0x5A)"

definition SIM_HANDLES :: nat where
  "SIM_HANDLES = 2"

definition SIM_STORE_PORTS :: "Port list" where
  "SIM_STORE_PORTS = [P_ReadState, P_Commit, P_ReadHistory, P_ReadOutbox, P_Acknowledge, P_Reopen]"

definition sim_store :: "u32 \<Rightarrow> Store" where
  "sim_store handle = \<lparr>st_identity = SIM_STORE, st_handle = handle\<rparr>"

definition sim_sha256 :: "hasher \<Rightarrow> bytes list \<Rightarrow> hash32" where
  "sim_sha256 H parts = h_hash H (concat (map codec_bytes parts))"

definition sim_subject :: "hasher \<Rightarrow> bytes \<Rightarrow> bytes \<Rightarrow> bytes \<Rightarrow> bytes" where
  "sim_subject H prestate command context = be_bytes 32 (sim_sha256 H [SIM_IDENTITY, prestate, command, context])"

definition sim_publication :: "hasher \<Rightarrow> bytes \<Rightarrow> u8 \<Rightarrow> PublicationData" where
  "sim_publication H prestate body =
     \<lparr>pd_prestate = prestate, pd_command = [body], pd_context = [1], pd_identity = SIM_IDENTITY,
      pd_subject = sim_subject H prestate [body] [1]\<rparr>"

definition sim_delivery :: "hasher \<Rightarrow> u64 \<Rightarrow> hash32 \<Rightarrow> bytes \<Rightarrow> u32 \<Rightarrow> Delivery" where
  "sim_delivery H version chain state ordinal =
     (let payload = [case state of [] \<Rightarrow> 0 | x # _ \<Rightarrow> x, ucast ordinal] in
      \<lparr>dl_id = sim_sha256 H [ascii_bytes ''delivery'', be_bytes 32 chain, be_bytes 4 ordinal], dl_version = version,
       dl_lane = 1, dl_ordinal = ordinal, dl_destination = ascii_bytes ''receiver'', dl_payload = payload,
       dl_payload_sha256 = h_hash H payload\<rparr>)"

definition sim_deliveries :: "hasher \<Rightarrow> u64 \<Rightarrow> hash32 \<Rightarrow> bytes \<Rightarrow> Delivery list" where
  "sim_deliveries H version chain state = [sim_delivery H version chain state 0, sim_delivery H version chain state 1]"

record Durable =
  du_state :: bytes
  du_chain :: hash32
  du_commits :: "HistoryEntry list"
  du_receipts :: "hash32 list"
  du_replays :: "hash32 list"
  du_outbox :: "(Delivery \<times> bool) list"

definition durable_genesis :: "hasher \<Rightarrow> Durable" where
  "durable_genesis H = \<lparr>du_state = [0], du_chain = sim_sha256 H [ascii_bytes ''genesis'', SIM_IDENTITY], du_commits = [],
     du_receipts = [], du_replays = [], du_outbox = []\<rparr>"

definition durable_version :: "Durable \<Rightarrow> u64" where
  "durable_version d = of_nat (length (du_commits d))"

definition durable_snapshot :: "hasher \<Rightarrow> Durable \<Rightarrow> Snapshot" where
  "durable_snapshot H d = \<lparr>sn_version = durable_version d, sn_identity = SIM_IDENTITY, sn_state = du_state d,
     sn_root = h_hash H (du_state d), sn_chain = du_chain d\<rparr>"

definition durable_history :: "hasher \<Rightarrow> Durable \<Rightarrow> AuditedHistory" where
  "durable_history H d = \<lparr>ah_head = durable_snapshot H d, ah_commits = du_commits d\<rparr>"

definition durable_pending :: "Durable \<Rightarrow> Delivery list" where
  "durable_pending d = map fst (filter (\<lambda>(delivery, acknowledged). \<not> acknowledged) (du_outbox d))"

record World =
  wo_durable :: Durable
  wo_handles :: "u64 option list"
  wo_queue :: "Delivery list"
  wo_dedup :: "hash32 list"
  wo_effects :: "hash32 list"
  wo_sent :: "hash32 list"
  wo_tick :: u64
  wo_late :: "(Binding \<times> Response) list"

definition world_new :: "Durable \<Rightarrow> World" where
  "world_new d = \<lparr>wo_durable = d, wo_handles = replicate SIM_HANDLES (Some (durable_version d)), wo_queue = [], wo_dedup = [],
     wo_effects = [], wo_sent = [], wo_tick = 0, wo_late = []\<rparr>"

definition delivery_bytes :: "Delivery \<Rightarrow> bytes" where
  "delivery_bytes d = codec_hash (dl_id d) @ be_bytes 8 (dl_version d) @ [dl_lane d] @ be_bytes 4 (dl_ordinal d)
     @ codec_bytes (dl_destination d) @ codec_bytes (dl_payload d) @ codec_hash (dl_payload_sha256 d)"

definition world_digest :: "hasher \<Rightarrow> World \<Rightarrow> hash32" where
  "world_digest H w =
     (let d = wo_durable w in
      h_hash H (codec_bytes (du_state d) @ codec_hash (du_chain d)
        @ concat (map (\<lambda>e. let p = he_publication e in codec_hash (he_key e) @ be_bytes 8 (he_version e)
            @ concat (map codec_bytes [pd_prestate p, pd_command p, pd_context p, pd_identity p, pd_subject p])) (du_commits d))
        @ concat (map codec_hash (du_receipts d @ du_replays d))
        @ concat (map (\<lambda>(delivery, acknowledged). delivery_bytes delivery @ [if acknowledged then 1 else 0]) (du_outbox d))
        @ concat (map (\<lambda>cached. be_bytes 8 (case cached of None \<Rightarrow> - 1 :: u64 | Some version \<Rightarrow> version)) (wo_handles w))
        @ concat (map delivery_bytes (wo_queue w))
        @ concat (map codec_hash (wo_dedup w @ wo_effects w @ wo_sent w))
        @ be_bytes 8 (wo_tick w)
        @ concat (map (\<lambda>(b, response). codec_bytes (binding_bytes b) @ codec_bytes (response_bytes response)) (wo_late w))))"

section \<open>Commits\<close>

datatype CommitDecision = CD_Refuse Code | CD_Replay CommitReceipt | CD_Apply Durable CommitReceipt | CD_Panic

definition mode_conflicts :: "CommitMode \<Rightarrow> u64 \<Rightarrow> bool" where
  "mode_conflicts mode version \<longleftrightarrow>
     (case mode of CM_At expected \<Rightarrow> expected \<noteq> version | CM_BoundedAt expected _ \<Rightarrow> expected \<noteq> version | CM_Unversioned \<Rightarrow> False)"

definition apply_commit :: "hasher \<Rightarrow> Durable \<Rightarrow> hash32 \<Rightarrow> PublicationData \<Rightarrow> u8 \<Rightarrow> CommitDecision" where
  "apply_commit H durable key data n =
     (let chain = sim_sha256 H [be_bytes 32 (du_chain durable), pd_subject data]; version = durable_version durable + 1;
          after = \<lparr>du_state = [n], du_chain = chain,
            du_commits = du_commits durable @ [\<lparr>he_key = key, he_version = version, he_publication = data\<rparr>],
            du_receipts = du_receipts durable @ [chain], du_replays = du_replays durable @ [key],
            du_outbox = du_outbox durable @ map (\<lambda>d. (d, False)) (sim_deliveries H version chain [n])\<rparr>
      in CD_Apply after \<lparr>crc_version = version, crc_chain = chain, crc_status = Committed\<rparr>)"

definition decide_commit :: "hasher \<Rightarrow> Durable \<Rightarrow> hash32 \<Rightarrow> PublicationData \<Rightarrow> CommitMode \<Rightarrow> CommitDecision" where
  "decide_commit H durable key data mode =
     (if mode_conflicts mode (durable_version durable) then CD_Refuse C_Concurrent
      else case position (\<lambda>replay. replay = key) (du_replays durable) of
        Some index \<Rightarrow>
          (case slice_get (du_commits durable) index of
            None \<Rightarrow> CD_Refuse C_History
          | Some e \<Rightarrow>
              if he_publication e \<noteq> data then CD_Refuse C_Replay
              else case slice_get (du_receipts durable) index of
                None \<Rightarrow> CD_Panic
              | Some chain \<Rightarrow> CD_Replay \<lparr>crc_version = he_version e, crc_chain = chain, crc_status = IdempotentReplay\<rparr>)
      | None \<Rightarrow>
          if pd_identity data \<noteq> SIM_IDENTITY
            \<or> pd_subject data \<noteq> sim_subject H (pd_prestate data) (pd_command data) (pd_context data)
          then CD_Refuse C_Identity
          else if pd_prestate data \<noteq> du_state durable then CD_Refuse C_PreState
          else if (case mode of CM_BoundedAt _ cap \<Rightarrow>
              length (pd_prestate data) + length (pd_command data) + length (pd_context data) > unat cap | _ \<Rightarrow> False)
          then CD_Refuse C_Capacity
          else (case (du_state durable, pd_command data) of
              (n # _, body # _) \<Rightarrow>
                if unat n + unat body \<le> 255 then apply_commit H durable key data (n + body) else CD_Refuse C_Range
            | _ \<Rightarrow> CD_Refuse C_Range))"

section \<open>The handler\<close>

record Simulation =
  si_world :: World
  si_profile :: Profile
  si_ports :: "Port list"
  si_script :: Script

datatype Simulated = SM_Handled Handled | SM_Panic

definition sim_choose :: "Simulation \<Rightarrow> nat \<Rightarrow> nat option \<times> Simulation" where
  "sim_choose s options = (let (choice, script) = script_choose (si_script s) options in (choice, s\<lparr>si_script := script\<rparr>))"

definition set_handle :: "Simulation \<Rightarrow> nat \<Rightarrow> u64 option \<Rightarrow> Simulation" where
  "set_handle s handle v = s\<lparr>si_world := (si_world s)\<lparr>wo_handles := (wo_handles (si_world s))[handle := v]\<rparr>\<rparr>"

definition set_durable :: "Simulation \<Rightarrow> Durable \<Rightarrow> Simulation" where
  "set_durable s d = s\<lparr>si_world := (si_world s)\<lparr>wo_durable := d\<rparr>\<rparr>"

definition push_late :: "Simulation \<Rightarrow> Binding \<Rightarrow> Response \<Rightarrow> Simulation" where
  "push_late s b response = s\<lparr>si_world := (si_world s)\<lparr>wo_late := wo_late (si_world s) @ [(b, response)]\<rparr>\<rparr>"

definition sim_crash :: "Simulation \<Rightarrow> nat \<Rightarrow> Handled \<times> Simulation" where
  "sim_crash s handle = (H_Crash, set_handle s handle None)"

definition sim_read :: "Simulation \<Rightarrow> nat \<Rightarrow> Port \<Rightarrow> Response \<Rightarrow> Handled \<times> Simulation" where
  "sim_read s handle port answer =
     (let (choice, s) = sim_choose s 5 in
      case choice of
        None \<Rightarrow> (H_Suspend, s)
      | Some n \<Rightarrow>
          if n = 0 then (H_Answer answer, set_handle s handle (Some (durable_version (wo_durable (si_world s)))))
          else if n = 1 then (H_Answer (response_not_applied port F_Busy), s)
          else if n = 2 then sim_crash s handle
          else if n = 3 then (H_Answer (response_not_applied port F_Full), s)
          else (H_Answer (response_not_applied port F_Io), s))"

definition sim_write :: "Simulation \<Rightarrow> Binding \<Rightarrow> nat \<Rightarrow> Durable \<Rightarrow> Response \<Rightarrow> Handled \<times> Simulation" where
  "sim_write s b handle after answer =
     (let port = bd_port b; (choice, s) = sim_choose s 8 in
      case choice of
        None \<Rightarrow> (H_Suspend, s)
      | Some n \<Rightarrow>
          if n = 0 then (H_Answer answer, set_handle (set_durable s after) handle (Some (durable_version after)))
          else if n = 1 then (H_Answer (response_not_applied port F_Busy), s)
          else if n = 2 then (H_Answer (response_unknown port), s)
          else if n = 3 then (H_Answer (response_unknown port), push_late (set_durable s after) b answer)
          else if n = 4 then sim_crash s handle
          else if n = 5 then sim_crash (set_durable s after) handle
          else if n = 6 then (H_Answer (response_not_applied port F_Full), s)
          else (H_Answer (response_not_applied port F_Io), s))"

definition sim_carry :: "Simulation \<Rightarrow> Delivery \<Rightarrow> Simulation" where
  "sim_carry s delivery =
     (let w = si_world s in
      s\<lparr>si_world := w\<lparr>wo_queue := wo_queue w @ [delivery],
        wo_sent := (if dl_id delivery \<in> set (wo_sent w) then wo_sent w else wo_sent w @ [dl_id delivery])\<rparr>\<rparr>)"

definition sim_send :: "Simulation \<Rightarrow> Binding \<Rightarrow> nat \<Rightarrow> Delivery \<Rightarrow> Handled \<times> Simulation" where
  "sim_send s b handle delivery =
     (let room = pr_queue (si_profile s) - length (wo_queue (si_world s));
          report = R_Send (S_Sent \<lparr>rep_delivery_id = dl_id delivery, rep_payload_sha256 = dl_payload_sha256 delivery\<rparr>);
          not_sent = R_Send (S_NotSent C_Delivery); lost = R_Send (S_Unknown F_Io) in
      if room = 0 then
        (let (choice, s) = sim_choose s 2 in
         case choice of None \<Rightarrow> (H_Suspend, s) | Some n \<Rightarrow> if n = 0 then (H_Answer not_sent, s) else sim_crash s handle)
      else
        (let (choice, s) = sim_choose s (if room \<ge> 2 then 7 else 6) in
         case choice of
           None \<Rightarrow> (H_Suspend, s)
         | Some n \<Rightarrow>
             if n = 0 then (H_Answer report, sim_carry s delivery)
             else if n = 1 then (H_Answer not_sent, s)
             else if n = 2 then (H_Answer lost, s)
             else if n = 3 then (H_Answer lost, push_late (sim_carry s delivery) b report)
             else if n = 4 then sim_crash s handle
             else if n = 5 then sim_crash (sim_carry s delivery) handle
             else (H_Answer report, sim_carry (sim_carry s delivery) delivery)))"

definition sim_acknowledge :: "Simulation \<Rightarrow> Binding \<Rightarrow> nat \<Rightarrow> hash32 \<Rightarrow> hash32 \<Rightarrow> Handled \<times> Simulation" where
  "sim_acknowledge s b handle i payload =
     (let durable = wo_durable (si_world s) in
      case position (\<lambda>(delivery, _). dl_id delivery = i) (du_outbox durable) of
        None \<Rightarrow> sim_read s handle P_Acknowledge (R_Acknowledge (O_Refused C_UnknownDelivery))
      | Some index \<Rightarrow>
          (let (delivery, acknowledged) = du_outbox durable ! index in
           if dl_payload_sha256 delivery \<noteq> payload
           then sim_read s handle P_Acknowledge (R_Acknowledge (O_Refused C_PayloadMismatch))
           else if acknowledged then sim_read s handle P_Acknowledge (R_Acknowledge (O_Refused C_AlreadyAcknowledged))
           else sim_write s b handle (durable\<lparr>du_outbox := (du_outbox durable)[index := (delivery, True)]\<rparr>)
             (R_Acknowledge (O_Ok ()))))"

definition sim_receive :: "Simulation \<Rightarrow> nat \<Rightarrow> Simulation" where
  "sim_receive s index =
     (let w = si_world s in
      if index \<ge> length (wo_queue w) then s
      else let delivery = wo_queue w ! index; w = w\<lparr>wo_queue := take index (wo_queue w) @ drop (index + 1) (wo_queue w)\<rparr> in
      if dl_id delivery \<in> set (wo_dedup w) then s\<lparr>si_world := w\<rparr>
      else s\<lparr>si_world := w\<lparr>wo_dedup := wo_dedup w @ [dl_id delivery], wo_effects := wo_effects w @ [dl_id delivery]\<rparr>\<rparr>)"

definition sim_handle_index :: "Store \<Rightarrow> nat option" where
  "sim_handle_index store =
     (if st_identity store = SIM_STORE \<and> 1 \<le> st_handle store \<and> st_handle store \<le> 2 then Some (unat (st_handle store) - 1) else None)"

definition sim_terminal_crash :: "Simulation \<Rightarrow> Binding \<Rightarrow> Simulation" where
  "sim_terminal_crash s b =
     (case bd_store b of
       None \<Rightarrow> s
     | Some store \<Rightarrow> (case sim_handle_index store of Some handle \<Rightarrow> set_handle s handle None | None \<Rightarrow> s))"

definition tick_choices :: "u64 \<Rightarrow> u64 \<Rightarrow> nat" where
  "tick_choices first final = min u64_max ((unat final - unat first) + 1)"

definition sim_clock :: "Simulation \<Rightarrow> Binding \<Rightarrow> Handled \<times> Simulation" where
  "sim_clock s b =
     (let first = wo_tick (si_world s); successful = tick_choices first (pr_ticks (si_profile s));
          (choice, s) = sim_choose s (successful + 3) in
      case choice of
        None \<Rightarrow> (H_Suspend, s)
      | Some offset \<Rightarrow>
          if offset < successful then
            (let tick = first + of_nat offset in
             (H_Answer (R_Clock (Ok \<lparr>et_epoch = op_epoch (bd_id b), et_tick = tick\<rparr>)), s\<lparr>si_world := (si_world s)\<lparr>wo_tick := tick\<rparr>\<rparr>))
          else (H_Answer (R_Clock (Err (fault_choice (offset - successful)))), s))"

definition sim_random :: "Simulation \<Rightarrow> u64 \<Rightarrow> Handled \<times> Simulation" where
  "sim_random s bound =
     (let options = min (unat bound) 256; (choice, s) = sim_choose s (options + 3) in
      case choice of
        None \<Rightarrow> (H_Suspend, s)
      | Some draw \<Rightarrow>
          if draw < options then (H_Answer (R_Random (Ok (of_nat draw))), s)
          else (H_Answer (R_Random (Err (fault_choice (draw - options)))), s))"

definition sim_wait :: "Simulation \<Rightarrow> Binding \<Rightarrow> EpochTick \<Rightarrow> Handled \<times> Simulation" where
  "sim_wait s b deadline =
     (let first = max (et_tick deadline) (wo_tick (si_world s)); ticks = pr_ticks (si_profile s);
          wakes = (if et_epoch deadline = op_epoch (bd_id b) \<and> first \<le> ticks then tick_choices first ticks else 0);
          (choice, s) = sim_choose s (wakes + 4) in
      case choice of
        None \<Rightarrow> (H_Suspend, s)
      | Some offset \<Rightarrow>
          if offset < wakes then
            (let tick = first + of_nat offset in
             (H_Answer (R_Wait (Ok \<lparr>et_epoch = op_epoch (bd_id b), et_tick = tick\<rparr>)), s\<lparr>si_world := (si_world s)\<lparr>wo_tick := tick\<rparr>\<rparr>))
          else if offset = wakes then (H_Answer (R_Wait (Err W_Interrupted)), s)
          else (H_Answer (R_Wait (Err (W_Failed (fault_choice (offset - wakes - 1))))), s))"

definition sim_commit :: "hasher \<Rightarrow> Simulation \<Rightarrow> Binding \<Rightarrow> nat \<Rightarrow> hash32 \<Rightarrow> PublicationData \<Rightarrow> CommitMode \<Rightarrow> Simulated \<times> Simulation" where
  "sim_commit H s b handle key data mode =
     (case decide_commit H (wo_durable (si_world s)) key data mode of
       CD_Refuse code \<Rightarrow> apfst SM_Handled (sim_read s handle P_Commit (R_Commit (O_Refused code)))
     | CD_Replay receipt \<Rightarrow> apfst SM_Handled (sim_read s handle P_Commit (R_Commit (O_Ok receipt)))
     | CD_Apply after receipt \<Rightarrow> apfst SM_Handled (sim_write s b handle after (R_Commit (O_Ok receipt)))
     | CD_Panic \<Rightarrow> (SM_Panic, s))"

definition sim_handle :: "hasher \<Rightarrow> Simulation \<Rightarrow> Binding \<Rightarrow> Operation \<Rightarrow> Simulated \<times> Simulation" where
  "sim_handle H s b operation =
     (let port = operation_port operation; refused = (SM_Handled (H_Answer (response_refused port C_Identity)), s);
          durable = wo_durable (si_world s) in
      if port \<notin> set (si_ports s) then refused
      else case operation_store operation of
        Some store \<Rightarrow>
          (case sim_handle_index store of
            None \<Rightarrow> refused
          | Some handle \<Rightarrow>
              (case operation of
                Op_ReadState _ \<Rightarrow> apfst SM_Handled (sim_read s handle port (R_ReadState (O_Ok (durable_snapshot H durable))))
              | Op_ReadHistory _ \<Rightarrow> apfst SM_Handled (sim_read s handle port (R_ReadHistory (O_Ok (durable_history H durable))))
              | Op_ReadOutbox _ \<Rightarrow> apfst SM_Handled (sim_read s handle port (R_ReadOutbox (O_Ok (durable_pending durable))))
              | Op_Reopen _ \<Rightarrow> apfst SM_Handled (sim_read s handle port (R_Reopen (O_Ok (durable_snapshot H durable))))
              | Op_Commit _ key data mode \<Rightarrow> sim_commit H s b handle key data mode
              | Op_Send _ delivery \<Rightarrow> apfst SM_Handled (sim_send s b handle delivery)
              | Op_Acknowledge _ i payload \<Rightarrow> apfst SM_Handled (sim_acknowledge s b handle i payload)
              | _ \<Rightarrow> refused))
      | None \<Rightarrow>
          (case operation of
            Op_Clock \<Rightarrow> apfst SM_Handled (sim_clock s b)
          | Op_Random _ bound \<Rightarrow> apfst SM_Handled (sim_random s bound)
          | Op_Wait deadline \<Rightarrow> apfst SM_Handled (sim_wait s b deadline)
          | _ \<Rightarrow> refused))"

text \<open>\<^verbatim>\<open>handle_with_invocation\<close>: a direct suspension precedes every change.\<close>

definition sim_invocation :: "Handled \<Rightarrow> Handling" where
  "sim_invocation outcome = \<lparr>hd_outcome = outcome,
     hd_invocation = (if outcome = H_Suspend then IV_NotInvoked else IV_MayHaveInvoked)\<rparr>"

definition sim_handle_with_invocation :: "hasher \<Rightarrow> Simulation \<Rightarrow> Binding \<Rightarrow> Operation \<Rightarrow> Handling \<times> Simulation" where
  "sim_handle_with_invocation H s b operation =
     (case sim_handle H s b operation of
       (SM_Handled outcome, s) \<Rightarrow> (sim_invocation outcome, s)
     | (SM_Panic, s) \<Rightarrow> (sim_invocation H_Crash, s))"

text \<open>A panic ends the process, as a crash does.\<close>

definition simulation_terminal :: "hasher \<Rightarrow> Port list \<Rightarrow> Simulation Terminal" where
  "simulation_terminal H ports =
     \<lparr>tm_ports = ports, tm_handle = sim_handle_with_invocation H, tm_crash = sim_terminal_crash\<rparr>"

end
