(* ===== verification/Zeno_Commit_Laws.thy ===== *)
theory Zeno_Commit_Laws
  imports Zeno_Policy_Laws Zeno_Programs_Laws Zeno_Simulation
begin

text \<open>
  Laws of the commit program over a store (\<^verbatim>\<open>program.rs\<close>, \<^verbatim>\<open>simulation.rs\<close>).  The locale \<open>commit_store\<close> is
  what the program relies on: a history of entries that only commits extend, answers about commits that are
  true of it, and a history read that is exact.  The simulated handler keeps it.
\<close>

section \<open>The contract of a store\<close>

definition contains_entry :: "HistoryEntry list \<Rightarrow> hash32 \<Rightarrow> PublicationData \<Rightarrow> bool" where
  "contains_entry es key data \<longleftrightarrow> list_ex (\<lambda>e. he_key e = key \<and> he_publication e = data) es"

lemma contains_entry_simps [simp]:
  "contains_entry [] key data = False"
  "contains_entry (es @ es') key data \<longleftrightarrow> contains_entry es key data \<or> contains_entry es' key data"
  "contains_entry (e # es) key data \<longleftrightarrow> he_key e = key \<and> he_publication e = data \<or> contains_entry es key data"
  by (simp_all add: contains_entry_def)

abbreviation recorded :: "HistoryEntry list \<Rightarrow> CommitInvocation \<Rightarrow> bool" where
  "recorded es invocation \<equiv> contains_entry es (ci_key invocation) (ci_publication invocation)"

lemma history_contains_recorded: "history_contains found invocation \<longleftrightarrow> recorded (ah_commits found) invocation"
  by (simp add: history_contains_def contains_entry_def)

definition commits_key :: "hash32 \<Rightarrow> Operation \<Rightarrow> bool" where
  "commits_key key operation \<longleftrightarrow> (\<exists>store data mode. operation = Op_Commit store key data mode)"

locale commit_store =
  fixes T :: "'s Terminal" and good :: "'s \<Rightarrow> bool" and entries :: "'s \<Rightarrow> HistoryEntry list" and served :: "Store \<Rightarrow> bool"
  assumes handle_keeps: "good s \<Longrightarrow> tm_handle T s b operation = (report, s') \<Longrightarrow> good s' \<and>
      (entries s' = entries s \<or> (\<exists>store key data mode e. operation = Op_Commit store key data mode \<and> served store
         \<and> entries s' = entries s @ [e] \<and> he_key e = key \<and> he_publication e = data))"
    and crash_keeps: "good s \<Longrightarrow> good (tm_crash T s b) \<and> entries (tm_crash T s b) = entries s"
    and suspend_keeps: "good s \<Longrightarrow> tm_handle T s b operation = (report, s') \<Longrightarrow> hd_outcome report = H_Suspend \<Longrightarrow> entries s' = entries s"
    and commit_answers: "good s \<Longrightarrow> operation = Op_Commit store key data mode \<Longrightarrow>
      tm_handle T s (binding_of i operation) operation = (report, s') \<Longrightarrow> hd_outcome report = H_Answer (R_Commit outcome) \<Longrightarrow>
      (case outcome of
         O_Ok _ \<Rightarrow> contains_entry (entries s') key data
       | O_Refused _ \<Rightarrow> entries s' = entries s \<and> \<not> (mode = CM_Unversioned \<and> served store \<and> contains_entry (entries s) key data)
       | O_NotApplied _ \<Rightarrow> entries s' = entries s
       | O_Unknown _ \<Rightarrow> True)"
    and history_answers: "good s \<Longrightarrow> operation = Op_ReadHistory store \<Longrightarrow>
      tm_handle T s (binding_of i operation) operation = (report, s') \<Longrightarrow> hd_outcome report = H_Answer (R_ReadHistory (O_Ok found)) \<Longrightarrow>
      served store \<and> ah_commits found = entries s"

text \<open>A run of the program against a terminal that others use as well; they do not commit under its key.\<close>

inductive commit_run :: "'s Terminal \<Rightarrow> hash32 \<Rightarrow> 's \<Rightarrow> (CommitContinuation, CommitReceipt) Driver \<Rightarrow> 's \<Rightarrow> (CommitContinuation, CommitReceipt) Driver \<Rightarrow> bool"
  for T key s d where
  cr_start: "commit_run T key s d s d"
| cr_answer: "commit_run T key s d s1 d1 \<Longrightarrow> driver_request d1 = Some (b, operation) \<Longrightarrow> tm_handle T s1 b operation = (report, s2) \<Longrightarrow>
    hd_outcome report = H_Answer response \<Longrightarrow> driver_reply CommitProgram d1 \<lparr>ry_binding = b, ry_response = response\<rparr> = (Ok (), d2) \<Longrightarrow>
    commit_run T key s d s2 d2"
| cr_suspend: "commit_run T key s d s1 d1 \<Longrightarrow> driver_request d1 = Some (b, operation) \<Longrightarrow> tm_handle T s1 b operation = (report, s2) \<Longrightarrow>
    hd_outcome report = H_Suspend \<Longrightarrow> commit_run T key s d s2 d1"
| cr_other: "commit_run T key s d s1 d1 \<Longrightarrow> \<not> commits_key key operation \<Longrightarrow> tm_handle T s1 b operation = (report, s2) \<Longrightarrow>
    commit_run T key s d s2 d1"
| cr_crash: "commit_run T key s d s1 d1 \<Longrightarrow> commit_run T key s d (tm_crash T s1 b) d1"

section \<open>What the program knows\<close>

text \<open>While an entry of this run may be in the history, the program remembers the uncertainty, and asks again only without
  a version.  The flag tells whether the entry was there before the run.\<close>

definition aware :: "(Store \<Rightarrow> bool) \<Rightarrow> bool \<Rightarrow> HistoryEntry list \<Rightarrow> CommitContinuation \<Rightarrow> bool" where
  "aware served before es k \<longleftrightarrow> (recorded es (cc_invocation k) \<and> \<not> before \<longrightarrow>
     cc_unknown k \<noteq> None \<and> (cc_phase k = CP_Commit \<longrightarrow> cc_mode k = CM_Unversioned \<and> served (ci_store (cc_invocation k))))"

definition outcome_true :: "bool \<Rightarrow> HistoryEntry list \<Rightarrow> CommitInvocation \<Rightarrow> 'a Outcome \<Rightarrow> bool" where
  "outcome_true before es invocation outcome \<longleftrightarrow>
     (case outcome of O_Ok _ \<Rightarrow> recorded es invocation | O_Unknown _ \<Rightarrow> True | _ \<Rightarrow> recorded es invocation \<longrightarrow> before)"

definition step_true :: "(Store \<Rightarrow> bool) \<Rightarrow> bool \<Rightarrow> HistoryEntry list \<Rightarrow> CommitInvocation \<Rightarrow> CommitStep \<Rightarrow> bool" where
  "step_true served before es invocation step \<longleftrightarrow>
     (case step of St_Done outcome \<Rightarrow> outcome_true before es invocation outcome
      | St_Request i operation k \<Rightarrow> aware served before es k \<and> cc_invocation k = invocation)"

lemma ask_true:
  assumes "cc_invocation k = invocation" "recorded es invocation \<and> \<not> before \<Longrightarrow> cc_unknown k \<noteq> None"
    and "recorded es invocation \<and> \<not> before \<Longrightarrow> phase = CP_Commit \<Longrightarrow> cc_mode k = CM_Unversioned \<and> served (ci_store invocation)"
  shows "step_true served before es invocation (ask_commit_phase k phase)"
  using assms by (cases before) (auto simp: ask_commit_phase_def Let_def step_true_def aware_def outcome_true_def split: option.splits)

lemma unresolved_true [simp]: "step_true served before es invocation (unresolved k fault)"
  by (simp add: unresolved_def step_true_def outcome_true_def split: option.split)

lemma retry_true:
  assumes "cc_invocation k = invocation" "recorded es invocation \<and> \<not> before \<Longrightarrow> cc_unknown k \<noteq> None" "phase \<noteq> CP_Commit"
  shows "step_true served before es invocation (retry_commit_phase k phase fault)"
  using assms by (auto simp: retry_commit_phase_def spend_def intro!: ask_true)

text \<open>The entries before and after the answer, and what the contract says about them, give the next step.\<close>

lemma committed_true:
  assumes "aware served before es k" "cc_phase k = CP_Commit" "cc_invocation k = invocation"
    and "case outcome of
         O_Ok _ \<Rightarrow> recorded es' invocation
       | O_Refused _ \<Rightarrow> es' = es \<and> \<not> (cc_mode k = CM_Unversioned \<and> served (ci_store invocation) \<and> recorded es invocation)
       | O_NotApplied _ \<Rightarrow> es' = es
       | O_Unknown _ \<Rightarrow> True"
  shows "step_true served before es' invocation (committed k outcome)"
proof (cases outcome)
  case (O_Ok receipt)
  with assms(4) show ?thesis by (simp add: committed_def step_true_def outcome_true_def)
next
  case (O_Refused code)
  with assms show ?thesis by (auto simp: committed_def step_true_def outcome_true_def aware_def)
next
  case (O_NotApplied fault)
  show ?thesis
  proof (cases "cc_retries k = 0")
    case True
    with O_NotApplied assms show ?thesis
      by (auto simp: committed_def aware_def step_true_def outcome_true_def split: option.split)
  next
    case False
    with O_NotApplied have "committed k outcome = ask_commit_phase (spend k\<lparr>cc_mode := cc_mode k\<rparr>) CP_Commit"
      by (simp add: committed_def ask_commit_def)
    moreover have "step_true served before es' invocation (ask_commit_phase (spend k\<lparr>cc_mode := cc_mode k\<rparr>) CP_Commit)"
      by (rule ask_true) (use O_NotApplied assms in \<open>auto simp: spend_def aware_def\<close>)
    ultimately show ?thesis by simp
  qed
next
  case (O_Unknown fault)
  with assms(3) show ?thesis by (auto simp: committed_def Let_def spend_def intro!: ask_true)
qed

lemma resume_reopen_true:
  assumes "aware served before es k" "cc_phase k = CP_Reopen" "cc_invocation k = invocation"
  shows "step_true served before es invocation (commit_resume k response)"
  using assms by (auto simp: commit_resume_def aware_def split: Response.splits Outcome.splits intro!: ask_true retry_true)

lemma resume_history_true:
  assumes "aware served before es k" "cc_phase k = CP_History" "cc_invocation k = invocation"
    and "\<And>found. response = R_ReadHistory (O_Ok found) \<Longrightarrow> served (ci_store invocation) \<and> ah_commits found = es"
  shows "step_true served before es invocation (commit_resume k response)"
  using assms
  by (auto simp: commit_resume_def aware_def ask_commit_def history_contains_recorded split: Response.splits Outcome.splits
      intro!: ask_true retry_true)


lemma starts_true:
  "step_true served (recorded es invocation) es invocation (commit_start invocation policy)"
  "step_true served False es invocation (commit_recover invocation policy)"
  by (simp_all add: commit_start_def commit_recover_def Let_def step_true_def aware_def)

text \<open>The driver of a run, with what its step knows.\<close>

definition run_true :: "(Store \<Rightarrow> bool) \<Rightarrow> bool \<Rightarrow> HistoryEntry list \<Rightarrow> CommitInvocation \<Rightarrow> (CommitContinuation, CommitReceipt) Driver \<Rightarrow> bool" where
  "run_true served before es invocation d \<longleftrightarrow> dr_registry d = REGISTRY \<and>
     (case dr_state d of
       DS_Waiting b operation k \<Rightarrow> (\<exists>i. b = binding_of i operation \<and> commit_inv k i operation) \<and> aware served before es k \<and> cc_invocation k = invocation
     | DS_Done outcome \<Rightarrow> outcome_true before es invocation outcome
     | DS_Failed _ \<Rightarrow> False)"

lemma run_true_mono:
  "run_true served before es invocation d \<Longrightarrow> (recorded es' invocation \<longleftrightarrow> recorded es invocation) \<Longrightarrow> run_true served before es' invocation d"
  by (auto simp: run_true_def aware_def outcome_true_def split: DriverState.splits Outcome.splits)

lemma run_true_reply:
  assumes "run_true served before es invocation d" "dr_state d = DS_Waiting b operation k"
    and "driver_reply CommitProgram d \<lparr>ry_binding = b, ry_response = response\<rparr> = (Ok (), d')"
    and "dr_answered d \<noteq> Some (bd_id b)" "op_epoch (bd_id b) = dr_epoch d"
    and "step_true served before es' invocation (commit_resume k response)"
  shows "run_true served before es' invocation d'"
proof -
  from assms(1,2) obtain i where i: "b = binding_of i operation" "commit_inv k i operation" and reg: "dr_registry d = REGISTRY"
    by (auto simp: run_true_def)
  have id: "bd_id b = i" by (simp add: i(1) binding_of_def)
  from assms(3) have d': "d' = d\<lparr>dr_answered := Some i, dr_state := after_resume CommitProgram REGISTRY i (commit_resume k response)\<rparr>"
    and c: "check_reply REGISTRY (dr_epoch d) (dr_answered d) b \<lparr>ry_binding = b, ry_response = response\<rparr> = Inr ()"
    by (auto simp: driver_reply_waiting [OF assms(2)] reg id CommitProgram_def split: sum.splits)
  have fits: "response_fits REGISTRY operation response"
    using c check_reply_Ok [OF i(1), of "dr_epoch d" "dr_answered d" REGISTRY "\<lparr>ry_binding = b, ry_response = response\<rparr>"] assms(4,5) id by simp
  have resume: "pg_resume CommitProgram = commit_resume" by (simp add: CommitProgram_def)
  from commit.resume_waits [OF i(2) fits] assms(6) reg show ?thesis
    by (auto simp: d' run_true_def resume step_true_def)
qed

context commit_store begin

lemma others_keep:
  assumes "good s" "tm_handle T s b operation = (report, s')" "\<not> commits_key key operation"
  shows "contains_entry (entries s') key data \<longleftrightarrow> contains_entry (entries s) key data"
  using handle_keeps [OF assms(1,2)] assms(3) by (auto simp: commits_key_def)

lemma run_outcome:
  assumes "commit_run T (ci_key invocation) s d s' d'"
    and "good s" "driven CommitProgram REGISTRY epoch first [] d" "run_true served before (entries s) invocation d"
  shows "good s' \<and> run_true served before (entries s') invocation d' \<and> (\<exists>trace. driven CommitProgram REGISTRY epoch first trace d')"
  using assms
proof (induction rule: commit_run.induct)
  case (cr_answer s1 d1 b operation report s2 response d2)
  then obtain trace where IH: "good s1" "run_true served before (entries s1) invocation d1" "driven CommitProgram REGISTRY epoch first trace d1"
    by blast
  from cr_answer.hyps(2) obtain k where w: "dr_state d1 = DS_Waiting b operation k" by (auto simp: driver_request_def split: DriverState.splits)
  from IH(2) w obtain i where i: "b = binding_of i operation" "commit_inv k i operation" "aware served before (entries s1) k" "cc_invocation k = invocation"
    by (auto simp: run_true_def)
  note inv = driven_inv [OF IH(3)]
  from inv w i(1) have a: "dr_answered d1 \<noteq> Some (bd_id b)" "op_epoch (bd_id b) = dr_epoch d1"
    by (auto simp: driver_inv_def binding_of_def)
  have op: "operation = commit_phase_operation k" using i(2) by (simp add: commit_inv_def)
  have keep: "good s2" using handle_keeps [OF IH(1) cr_answer.hyps(3)] by blast
  note report = cr_answer.hyps(3) [unfolded i(1)]
  have "step_true served before (entries s2) invocation (commit_resume k response)"
  proof (cases "cc_phase k")
    case CP_Commit
    then have c: "operation = Op_Commit (ci_store invocation) (ci_key invocation) (ci_publication invocation) (cc_mode k)"
      by (simp add: op commit_phase_operation_def commit_operation_def i(4))
    show ?thesis
    proof (cases "\<exists>outcome. response = R_Commit outcome")
      case True
      then obtain outcome where o: "response = R_Commit outcome" by blast
      note truth = commit_answers [OF IH(1) c report cr_answer.hyps(4) [unfolded o]]
      have "step_true served before (entries s2) invocation (committed k outcome)"
        by (rule committed_true [OF i(3) CP_Commit i(4)]) (use truth in \<open>auto split: Outcome.splits\<close>)
      then show ?thesis by (simp add: o commit_resume_def CP_Commit)
    qed (use CP_Commit in \<open>auto simp: commit_resume_def split: Response.splits\<close>)
  next
    case CP_Reopen
    then have "operation = Op_Reopen (ci_store invocation)" by (simp add: op commit_phase_operation_def i(4))
    with handle_keeps [OF IH(1) cr_answer.hyps(3)] have "entries s2 = entries s1" by auto
    with resume_reopen_true [OF i(3) CP_Reopen i(4)] show ?thesis by simp
  next
    case CP_History
    then have h: "operation = Op_ReadHistory (ci_store invocation)" by (simp add: op commit_phase_operation_def i(4))
    with handle_keeps [OF IH(1) cr_answer.hyps(3)] have "entries s2 = entries s1" by auto
    moreover have "served (ci_store invocation) \<and> ah_commits found = entries s1" if "response = R_ReadHistory (O_Ok found)" for found
      using history_answers [OF IH(1) h report cr_answer.hyps(4) [unfolded that]] .
    ultimately show ?thesis using resume_history_true [OF i(3) CP_History i(4)] by simp
  qed
  from run_true_reply [OF IH(2) w cr_answer.hyps(5) a this] keep driven_admitted [OF IH(3) w cr_answer.hyps(5)] show ?case by blast
next
  case (cr_suspend s1 d1 b operation report s2)
  then show ?case using handle_keeps [of s1 b operation report s2] suspend_keeps [of s1 b operation report s2] by auto
next
  case (cr_other s1 d1 operation b report s2)
  then show ?case using handle_keeps [of s1 b operation report s2] others_keep [of s1 b operation report s2 "ci_key invocation"]
      run_true_mono by blast
next
  case (cr_crash s1 d1 b)
  then show ?case using crash_keeps [of s1 b] by auto
qed blast

end

section \<open>The simulated store\<close>

definition sim_entries :: "Simulation \<Rightarrow> HistoryEntry list" where
  "sim_entries s = du_commits (wo_durable (si_world s))"

text \<open>The three tables of commits agree, no key is used twice, and the terminal covers commits.\<close>

definition tables_agree :: "Durable \<Rightarrow> bool" where
  "tables_agree d \<longleftrightarrow> du_replays d = map he_key (du_commits d) \<and> distinct (du_replays d)
     \<and> length (du_receipts d) = length (du_commits d)"

definition sim_good :: "Simulation \<Rightarrow> bool" where
  "sim_good s \<longleftrightarrow> tables_agree (wo_durable (si_world s)) \<and> P_Commit \<in> set (si_ports s)"

definition sim_served :: "Store \<Rightarrow> bool" where
  "sim_served store \<longleftrightarrow> sim_handle_index store \<noteq> None"

text \<open>What the parts of the handler can change.\<close>

lemma sim_choose_keeps: "sim_choose s n = (choice, s') \<Longrightarrow> si_world s' = si_world s \<and> si_ports s' = si_ports s"
  by (auto simp: sim_choose_def split: prod.splits)

lemma sim_updates [simp]:
  "wo_durable (si_world (set_handle s handle v)) = wo_durable (si_world s)" "si_ports (set_handle s handle v) = si_ports s"
  "wo_durable (si_world (set_durable s d)) = d" "si_ports (set_durable s d) = si_ports s"
  "wo_durable (si_world (push_late s b response)) = wo_durable (si_world s)" "si_ports (push_late s b response) = si_ports s"
  "wo_durable (si_world (sim_carry s delivery)) = wo_durable (si_world s)" "si_ports (sim_carry s delivery) = si_ports s"
  by (simp_all add: set_handle_def set_durable_def push_late_def sim_carry_def Let_def)

lemma sim_read_keeps:
  "sim_read s handle port answer = (handled, s') \<Longrightarrow> wo_durable (si_world s') = wo_durable (si_world s) \<and> si_ports s' = si_ports s
     \<and> (handled = H_Answer answer \<or> handled \<in> {H_Suspend, H_Crash} \<or> (\<exists>fault. handled = H_Answer (response_not_applied port fault)))"
  by (auto simp: sim_read_def sim_crash_def Let_def dest!: sim_choose_keeps split: prod.splits option.splits if_splits)

text \<open>A write either takes effect or not; it is not claimed to have failed when it has.\<close>

lemma sim_write_keeps:
  "sim_write s b handle after answer = (handled, s') \<Longrightarrow> si_ports s' = si_ports s
     \<and> (wo_durable (si_world s') = wo_durable (si_world s) \<and> (handled \<in> {H_Suspend, H_Crash, H_Answer (response_unknown (bd_port b))}
           \<or> (\<exists>fault. handled = H_Answer (response_not_applied (bd_port b) fault)))
        \<or> wo_durable (si_world s') = after \<and> handled \<in> {H_Answer answer, H_Crash, H_Answer (response_unknown (bd_port b))})"
  by (auto simp: sim_write_def sim_crash_def Let_def dest!: sim_choose_keeps split: prod.splits option.splits if_splits)

lemma sim_send_keeps:
  "sim_send s b handle delivery = (handled, s') \<Longrightarrow> wo_durable (si_world s') = wo_durable (si_world s) \<and> si_ports s' = si_ports s"
  by (auto simp: sim_send_def sim_crash_def Let_def dest!: sim_choose_keeps split: prod.splits option.splits if_splits)

lemma sim_time_keeps:
  "sim_clock s b = (handled, s') \<Longrightarrow> wo_durable (si_world s') = wo_durable (si_world s) \<and> si_ports s' = si_ports s"
  "sim_random s bound = (handled, s') \<Longrightarrow> wo_durable (si_world s') = wo_durable (si_world s) \<and> si_ports s' = si_ports s"
  "sim_wait s b deadline = (handled, s') \<Longrightarrow> wo_durable (si_world s') = wo_durable (si_world s) \<and> si_ports s' = si_ports s"
  by (auto simp: sim_clock_def sim_random_def sim_wait_def Let_def dest!: sim_choose_keeps split: prod.splits option.splits if_splits)

text \<open>An acknowledgement changes the outbox alone.\<close>

lemma sim_acknowledge_keeps:
  "sim_acknowledge s b handle i payload = (handled, s') \<Longrightarrow> si_ports s' = si_ports s
     \<and> du_commits (wo_durable (si_world s')) = du_commits (wo_durable (si_world s))
     \<and> du_receipts (wo_durable (si_world s')) = du_receipts (wo_durable (si_world s))
     \<and> du_replays (wo_durable (si_world s')) = du_replays (wo_durable (si_world s))"
  by (auto simp: sim_acknowledge_def Let_def dest!: sim_read_keeps sim_write_keeps split: prod.splits option.splits if_splits)

text \<open>The decision about a commit.\<close>

lemma decide_commit_exact:
  assumes "tables_agree d"
  shows "case decide_commit H d key data mode of
      CD_Refuse code \<Rightarrow> \<not> (mode = CM_Unversioned \<and> contains_entry (du_commits d) key data)
    | CD_Replay receipt \<Rightarrow> contains_entry (du_commits d) key data
    | CD_Apply after receipt \<Rightarrow> tables_agree after
        \<and> (\<exists>e. du_commits after = du_commits d @ [e] \<and> he_key e = key \<and> he_publication e = data)
    | CD_Panic \<Rightarrow> False"
proof (cases "position (\<lambda>replay. replay = key) (du_replays d)")
  case None
  then have fresh: "key \<notin> set (du_replays d)" by (auto simp: position_None)
  with assms have absent: "\<not> contains_entry (du_commits d) key data" by (auto simp: tables_agree_def contains_entry_def list_ex_iff)
  have parts: "Q (decide_commit H d key data mode)" if "\<And>code. Q (CD_Refuse code)" "\<And>n. Q (apply_commit H d key data n)" for Q
    using that by (simp add: decide_commit_def None split: list.split)
  show ?thesis
    by (rule parts) (use assms fresh absent in \<open>auto simp: apply_commit_def Let_def tables_agree_def\<close>)
next
  case (Some index)
  with assms have i: "index < length (du_commits d)" "he_key (du_commits d ! index) = key" "index < length (du_receipts d)"
    by (auto simp: position_Some tables_agree_def)
  have "he_publication (du_commits d ! index) = data" if contained: "contains_entry (du_commits d) key data"
  proof -
    from contained obtain j where j: "j < length (du_commits d)" "he_key (du_commits d ! j) = key" "he_publication (du_commits d ! j) = data"
      by (auto simp: contains_entry_def list_ex_length)
    from assms have "distinct (map he_key (du_commits d))" unfolding tables_agree_def by metis
    with i j have "j = index" by (metis length_map nth_eq_iff_index_eq nth_map)
    with j show ?thesis by simp
  qed
  moreover have "contains_entry (du_commits d) key data" if "he_publication (du_commits d ! index) = data"
    using i that by (auto simp: contains_entry_def list_ex_length)
  moreover have "decide_commit H d key data mode = (if mode_conflicts mode (durable_version d) then CD_Refuse C_Concurrent
      else if he_publication (du_commits d ! index) \<noteq> data then CD_Refuse C_Replay
      else CD_Replay \<lparr>crc_version = he_version (du_commits d ! index), crc_chain = du_receipts d ! index, crc_status = IdempotentReplay\<rparr>)"
    using i Some by (simp add: decide_commit_def slice_get_def)
  moreover have "mode_conflicts mode (durable_version d) \<Longrightarrow> mode \<noteq> CM_Unversioned" by (auto simp: mode_conflicts_def)
  ultimately show ?thesis
    by (cases "mode_conflicts mode (durable_version d)"; cases "he_publication (du_commits d ! index) = data") auto
qed

lemma sim_commit_keeps:
  assumes "sim_commit H s b handle key data mode = (r, s')" "tables_agree (wo_durable (si_world s))"
  obtains (unchanged) handled where "r = SM_Handled handled" "wo_durable (si_world s') = wo_durable (si_world s)" "si_ports s' = si_ports s"
      "handled \<in> {H_Suspend, H_Crash, H_Answer (response_unknown (bd_port b))}
        \<or> (\<exists>fault. handled = H_Answer (response_not_applied (bd_port b) fault) \<or> handled = H_Answer (response_not_applied P_Commit fault))
        \<or> (\<exists>receipt. handled = H_Answer (R_Commit (O_Ok receipt)) \<and> contains_entry (sim_entries s) key data)
        \<or> (\<exists>code. handled = H_Answer (R_Commit (O_Refused code)) \<and> \<not> (mode = CM_Unversioned \<and> contains_entry (sim_entries s) key data))"
  | (applied) handled e where "r = SM_Handled handled" "tables_agree (wo_durable (si_world s'))" "si_ports s' = si_ports s"
      "sim_entries s' = sim_entries s @ [e]" "he_key e = key" "he_publication e = data"
      "handled \<in> {H_Crash, H_Answer (response_unknown (bd_port b))} \<or> (\<exists>receipt. handled = H_Answer (R_Commit (O_Ok receipt)))"
proof (cases "decide_commit H (wo_durable (si_world s)) key data mode")
  case (CD_Refuse code)
  with decide_commit_exact [OF assms(2), where H = H and key = key and data = data and mode = mode]
  have c: "\<not> (mode = CM_Unversioned \<and> contains_entry (sim_entries s) key data)" by (simp add: sim_entries_def)
  from CD_Refuse assms(1) obtain handled where "r = SM_Handled handled" "sim_read s handle P_Commit (R_Commit (O_Refused code)) = (handled, s')"
    by (auto simp: sim_commit_def apfst_def map_prod_def split: prod.splits)
  with c sim_read_keeps [OF this(2)] show ?thesis by (intro unchanged) auto
next
  case (CD_Replay receipt)
  with decide_commit_exact [OF assms(2), where H = H and key = key and data = data and mode = mode] have c: "contains_entry (sim_entries s) key data" by (simp add: sim_entries_def)
  from CD_Replay assms(1) obtain handled where "r = SM_Handled handled" "sim_read s handle P_Commit (R_Commit (O_Ok receipt)) = (handled, s')"
    by (auto simp: sim_commit_def apfst_def map_prod_def split: prod.splits)
  with c sim_read_keeps [OF this(2)] show ?thesis by (intro unchanged) auto
next
  case (CD_Apply after receipt)
  with decide_commit_exact [OF assms(2), where H = H and key = key and data = data and mode = mode] obtain e where
    c: "tables_agree after" "du_commits after = du_commits (wo_durable (si_world s)) @ [e]" "he_key e = key" "he_publication e = data" by auto
  from CD_Apply assms(1) obtain handled where h: "r = SM_Handled handled" "sim_write s b handle after (R_Commit (O_Ok receipt)) = (handled, s')"
    by (auto simp: sim_commit_def apfst_def map_prod_def split: prod.splits)
  from sim_write_keeps [OF h(2)] show ?thesis
  proof (elim conjE disjE)
    assume "si_ports s' = si_ports s" "wo_durable (si_world s') = after"
      "handled \<in> {H_Answer (R_Commit (O_Ok receipt)), H_Crash, H_Answer (response_unknown (bd_port b))}"
    with c h show ?thesis by (intro applied [of handled e]) (auto simp: sim_entries_def)
  qed (use h in \<open>auto intro: unchanged\<close>)
next
  case CD_Panic
  with decide_commit_exact [OF assms(2), where H = H and key = key and data = data and mode = mode] show ?thesis by simp
qed

text \<open>Every other request leaves the history as it is.\<close>

lemma tables_agree_same:
  "du_commits d' = du_commits d \<Longrightarrow> du_receipts d' = du_receipts d \<Longrightarrow> du_replays d' = du_replays d \<Longrightarrow> tables_agree d' = tables_agree d"
  by (simp add: tables_agree_def)

definition same_history :: "Simulation \<Rightarrow> Simulation \<Rightarrow> bool" where
  "same_history s s' \<longleftrightarrow> si_ports s' = si_ports s \<and> sim_entries s' = sim_entries s
     \<and> tables_agree (wo_durable (si_world s')) = tables_agree (wo_durable (si_world s))"

lemma same_history_refl [simp]: "same_history s s"
  by (simp add: same_history_def)

lemma same_history_parts:
  "sim_read s handle port answer = (handled, s') \<Longrightarrow> same_history s s'"
  "sim_send s b handle delivery = (handled, s') \<Longrightarrow> same_history s s'"
  "sim_clock s b = (handled, s') \<Longrightarrow> same_history s s'"
  "sim_random s bound = (handled, s') \<Longrightarrow> same_history s s'"
  "sim_wait s b deadline = (handled, s') \<Longrightarrow> same_history s s'"
  "sim_acknowledge s b handle i payload = (handled, s') \<Longrightarrow> same_history s s'"
  by (auto dest!: sim_read_keeps sim_send_keeps sim_time_keeps sim_acknowledge_keeps simp: same_history_def sim_entries_def tables_agree_def)

lemma apfst_handled: "apfst SM_Handled x = (r, s') \<longleftrightarrow> (\<exists>handled. x = (handled, s') \<and> r = SM_Handled handled)"
  by (cases x) auto

lemma sim_other_keeps:
  assumes "sim_handle H s b operation = (r, s')" "\<not> (\<exists>store key data mode. operation = Op_Commit store key data mode)"
  shows "same_history s s'"
proof (cases "operation_port operation \<in> set (si_ports s)")
  case True
  show ?thesis
  proof (cases operation)
    case (Op_Commit store key data mode)
    with assms(2) show ?thesis by blast
  qed (use assms(1) True in \<open>auto simp: sim_handle_def Let_def apfst_handled operation_store_def intro: same_history_parts split: option.splits\<close>)
qed (use assms(1) in \<open>simp add: sim_handle_def Let_def\<close>)

lemma sim_handle_commit:
  assumes "sim_handle H s b (Op_Commit store key data mode) = (r, s')"
  obtains (unserved) "\<not> (P_Commit \<in> set (si_ports s) \<and> sim_served store)" "s' = s" "r = SM_Handled (H_Answer (R_Commit (O_Refused C_Identity)))"
  | (served) handle where "sim_served store" "sim_commit H s b handle key data mode = (r, s')"
  using assms by (auto simp: sim_handle_def Let_def sim_served_def operation_port_def operation_store_def response_refused_def
      split: if_splits option.splits)

text \<open>The terminal is the handler, with a panic as a crash.\<close>

lemma sim_terminal_handle:
  assumes "tm_handle (simulation_terminal H ports) s b operation = (report, s')"
  obtains r where "sim_handle H s b operation = (r, s')" "hd_outcome report = (case r of SM_Handled handled \<Rightarrow> handled | SM_Panic \<Rightarrow> H_Crash)"
  using assms
  by (auto simp: simulation_terminal_def sim_handle_with_invocation_def sim_invocation_def split: prod.splits Simulated.splits)

lemma not_applied_forms [simp]:
  "response_not_applied P_Commit fault = R_Commit (O_NotApplied fault)" "response_unknown P_Commit = R_Commit (O_Unknown F_Io)"
  "response_not_applied P_ReadHistory fault = R_ReadHistory (O_NotApplied fault)"
  by (simp_all add: response_not_applied_def response_unknown_def)

interpretation simulated: commit_store "simulation_terminal H ports" sim_good sim_entries sim_served for H ports
proof (unfold_locales, goal_cases)
  case (1 s b operation report s')
  from sim_terminal_handle [OF 1(2)] obtain r where r: "sim_handle H s b operation = (r, s')" .
  show ?case
  proof (cases "\<exists>store key data mode. operation = Op_Commit store key data mode")
    case True
    then obtain store key data mode where c: "operation = Op_Commit store key data mode" by blast
    from r [unfolded c] show ?thesis
    proof (cases rule: sim_handle_commit)
      case (served handle)
      from 1(1) have "tables_agree (wo_durable (si_world s))" by (simp add: sim_good_def)
      from served(2) this show ?thesis
      proof (cases rule: sim_commit_keeps)
        case (unchanged handled)
        with 1(1) show ?thesis by (simp add: sim_good_def sim_entries_def)
      next
        case (applied handled e)
        with 1(1) served(1) c show ?thesis by (auto simp: sim_good_def)
      qed
    qed (use 1(1) in simp)
  next
    case False
    with sim_other_keeps [OF r False] 1(1) show ?thesis by (simp add: sim_good_def same_history_def)
  qed
next
  case (2 s b)
  then show ?case
    by (auto simp: simulation_terminal_def sim_terminal_crash_def sim_good_def sim_entries_def split: option.split)
next
  case (3 s b operation report s')
  from sim_terminal_handle [OF 3(2)] 3(3) obtain r where r: "sim_handle H s b operation = (r, s')"
    "(case r of SM_Handled handled \<Rightarrow> handled | SM_Panic \<Rightarrow> H_Crash) = H_Suspend" by metis
  show ?case
  proof (cases "\<exists>store key data mode. operation = Op_Commit store key data mode")
    case True
    then obtain store key data mode where c: "operation = Op_Commit store key data mode" by blast
    from r(1) [unfolded c] show ?thesis
    proof (cases rule: sim_handle_commit)
      case (served handle)
      from 3(1) have "tables_agree (wo_durable (si_world s))" by (simp add: sim_good_def)
      from served(2) this show ?thesis
      proof (cases rule: sim_commit_keeps)
        case (applied handled e)
        with r(2) show ?thesis by auto
      qed (simp add: sim_entries_def)
    qed simp
  next
    case False
    with sim_other_keeps [OF r(1) False] show ?thesis by (simp add: same_history_def)
  qed
next
  case (4 s operation store key data mode i report s' outcome)
  have port: "bd_port (binding_of i operation) = P_Commit" by (simp add: 4(2) binding_of_def operation_port_def)
  from sim_terminal_handle [OF 4(3)] 4(4) obtain handled where r: "sim_handle H s (binding_of i operation) operation = (SM_Handled handled, s')"
    "handled = H_Answer (R_Commit outcome)" by (metis Handled.distinct(1) Simulated.case Simulated.exhaust)
  from r(1) [unfolded 4(2)] show ?case
  proof (cases rule: sim_handle_commit)
    case unserved
    with r(2) 4(1) show ?thesis by (auto simp: sim_good_def)
  next
    case (served handle)
    from 4(1) have "tables_agree (wo_durable (si_world s))" by (simp add: sim_good_def)
    from served(2) this show ?thesis
    proof (cases rule: sim_commit_keeps)
      case (unchanged h)
      with r(2) port 4(2) show ?thesis by (auto simp: sim_entries_def)
    next
      case (applied h e)
      with r(2) port 4(2) show ?thesis by auto
    qed
  qed
next
  case (5 s operation store i report s' found)
  from sim_terminal_handle [OF 5(3)] 5(4) obtain handled where r: "sim_handle H s (binding_of i operation) operation = (SM_Handled handled, s')"
    "handled = H_Answer (R_ReadHistory (O_Ok found))" by (metis Handled.distinct(1) Simulated.case Simulated.exhaust)
  then show ?case
    by (auto simp: 5(2) sim_handle_def Let_def operation_port_def operation_store_def response_refused_def sim_served_def sim_entries_def
        durable_history_def apfst_def map_prod_def dest!: sim_read_keeps split: prod.splits if_splits option.splits)
qed

section \<open>Properties\<close>

lemma run_outcome_true:
  assumes "sim_good s" "invocation_ok invocation" "driver_start CommitProgram REGISTRY (ci_epoch invocation) first = Inr d"
    and "first = commit_start invocation policy \<and> before = recorded (sim_entries s) invocation
      \<or> first = commit_recover invocation policy \<and> \<not> before"
    and "commit_run (simulation_terminal H ports) (ci_key invocation) s d s' d'" "driver_outcome d' = Some outcome"
  shows "outcome_true before (sim_entries s') invocation outcome"
proof -
  from assms(4) commit_starts [OF assms(2), of policy] have starts: "commit.starts (ci_epoch invocation) first" by auto
  obtain operation k where w: "first = St_Request (opid_first (ci_epoch invocation)) operation k" "commit_inv k (opid_first (ci_epoch invocation)) operation"
    "d = \<lparr>dr_registry = REGISTRY, dr_epoch = ci_epoch invocation, dr_answered = None,
       dr_state = DS_Waiting (binding_of (opid_first (ci_epoch invocation)) operation) operation k\<rparr>"
    using commit.start_waits [OF starts] assms(3) by (metis sum.inject(2))
  have "step_true sim_served before (sim_entries s) invocation first"
    using assms(4) starts_true [of sim_served "sim_entries s" invocation policy] by auto
  with w have "run_true sim_served before (sim_entries s) invocation d" by (auto simp: step_true_def run_true_def)
  from simulated.run_outcome [OF assms(5,1) driven_start [OF assms(3)] this]
  have "run_true sim_served before (sim_entries s') invocation d'" by blast
  with assms(6) show ?thesis by (simp add: run_true_def driver_outcome_def split: DriverState.splits)
qed

text \<open>C10: what the commit program reports is true of the simulated store, whatever schedule of faults the store follows, with lost answers
  and retries, and whatever else is asked of it meanwhile other than commits under the same key: after a success
  the entry is in the history; after a refusal or a report that nothing was applied it is there only if it was before the run, and a recovery
  never reports so of an entry that is there.\<close>

theorem commit_outcome_honest:
  assumes "sim_good s" "invocation_ok invocation" "driver_start CommitProgram REGISTRY (ci_epoch invocation) first = Ok d"
    and "first = commit_start invocation policy \<or> first = commit_recover invocation policy"
    and "commit_run (simulation_terminal H ports) (ci_key invocation) s d s' d'" "driver_outcome d' = Some outcome"
  shows "case outcome of
      O_Ok receipt \<Rightarrow> recorded (sim_entries s') invocation
    | O_Unknown fault \<Rightarrow> True
    | _ \<Rightarrow> recorded (sim_entries s') invocation \<longrightarrow> first = commit_start invocation policy \<and> recorded (sim_entries s) invocation"
proof -
  have "outcome_true (first = commit_start invocation policy \<and> recorded (sim_entries s) invocation) (sim_entries s') invocation outcome"
    by (rule run_outcome_true [OF assms(1-3) _ assms(5,6), of policy])
      (use assms(4) in \<open>auto simp: commit_start_def commit_recover_def Let_def commit_operation_def\<close>)
  then show ?thesis by (simp add: outcome_true_def split: Outcome.splits)
qed

definition sample_simulation :: Simulation where
  "sample_simulation = \<lparr>si_world = world_new (durable_genesis flat_hasher), si_profile = profile_frozen 2, si_ports = SIM_STORE_PORTS,
     si_script = script_new []\<rparr>"

lemma sim_store_not_7: "7 \<noteq> SIM_STORE"
  by code_simp

theorem commit_outcome_honest_witness:
  "\<exists>d d'. driver_start CommitProgram REGISTRY 3 (commit_start sample_commit \<lparr>cpol_retries = 2\<rparr>) = Ok d
     \<and> commit_run (simulation_terminal flat_hasher SIM_STORE_PORTS) 9 sample_simulation d sample_simulation d'
     \<and> driver_outcome d' = Some (O_Refused C_Identity) \<and> \<not> recorded (sim_entries sample_simulation) sample_commit"
proof -
  let ?T = "simulation_terminal flat_hasher SIM_STORE_PORTS" and ?first = "commit_start sample_commit \<lparr>cpol_retries = 2\<rparr>"
  let ?response = "R_Commit (O_Refused C_Identity)"
  have good: "sim_good sample_simulation"
    by (simp add: sim_good_def sample_simulation_def SIM_STORE_PORTS_def world_new_def durable_genesis_def tables_agree_def)
  have starts: "commit.starts 3 ?first" using commit_starts(1) [OF sample_commit_ok] by (simp add: sample_commit_def)
  obtain operation k where w: "?first = St_Request (opid_first 3) operation k"
      "driver_start CommitProgram REGISTRY 3 ?first = Inr \<lparr>dr_registry = REGISTRY, dr_epoch = 3, dr_answered = None,
        dr_state = DS_Waiting (binding_of (opid_first 3) operation) operation k\<rparr>" (is "_ = Inr ?d")
    by (rule commit.start_waits [OF starts]) blast
  have op: "operation = commit_operation sample_commit (CM_At 0)" and phase: "cc_phase k = CP_Commit"
    using w(1) by (auto simp: commit_start_def Let_def sample_commit_def)
  obtain report s' where h: "tm_handle ?T sample_simulation (binding_of (opid_first 3) operation) operation = (report, s')" by fastforce
  have unserved: "\<not> sim_served sample_store"
    by (simp add: sim_served_def sim_handle_index_def sample_store_def sim_store_not_7)
  obtain q where q: "sim_handle flat_hasher sample_simulation (binding_of (opid_first 3) operation) operation = (q, s')"
      "hd_outcome report = (case q of SM_Handled handled \<Rightarrow> handled | SM_Panic \<Rightarrow> H_Crash)"
    by (rule sim_terminal_handle [OF h])
  have store: "operation = Op_Commit sample_store 9 (ci_publication sample_commit) (CM_At 0)"
    by (simp add: op commit_operation_def sample_commit_def)
  from q(1) [unfolded store] have "s' = sample_simulation \<and> q = SM_Handled (H_Answer ?response)"
    by (cases rule: sim_handle_commit) (use unserved in auto)
  with q(2) have r: "hd_outcome report = H_Answer ?response" "s' = sample_simulation" by simp_all
  have "fst (driver_reply CommitProgram ?d \<lparr>ry_binding = binding_of (opid_first 3) operation, ry_response = ?response\<rparr>) = Inr ()"
    using driven_admission [OF driven_start [OF w(2)]]
    by (simp add: response_fits_def response_port_def op commit_operation_def operation_port_def response_value_def)
  then obtain d' where d': "driver_reply CommitProgram ?d \<lparr>ry_binding = binding_of (opid_first 3) operation, ry_response = ?response\<rparr> = (Ok (), d')"
    by (metis prod.collapse)
  then have out: "driver_outcome d' = Some (O_Refused C_Identity)"
    by (auto simp: driver_reply_def CommitProgram_def commit_resume_def phase committed_def after_resume_def driver_admit_def
        driver_outcome_def opid_next_def split: sum.splits option.splits)
  have run: "commit_run ?T 9 sample_simulation ?d sample_simulation d'"
    by (rule cr_answer [OF cr_start _ h r(1) d', unfolded r(2)]) (simp add: driver_request_def)
  have e: "ci_epoch sample_commit = 3" "ci_key sample_commit = 9" by (simp_all add: sample_commit_def)
  have w2: "driver_start CommitProgram REGISTRY (ci_epoch sample_commit) ?first = Inr ?d" using w(2) by (simp add: e)
  have run2: "commit_run ?T (ci_key sample_commit) sample_simulation ?d sample_simulation d'" using run by (simp add: e)
  have "recorded (sim_entries sample_simulation) sample_commit \<longrightarrow> recorded (sim_entries sample_simulation) sample_commit"
    using commit_outcome_honest [OF good sample_commit_ok w2 disjI1 [OF refl] run2 out] by simp
  moreover have "\<not> recorded (sim_entries sample_simulation) sample_commit"
    by (simp add: sample_simulation_def sim_entries_def world_new_def durable_genesis_def)
  ultimately show ?thesis using w(2) run out by blast
qed

end
