(* ===== verification/Zeno_Owner.thy ===== *)
theory Zeno_Owner
  imports Zeno_Durable
begin

text \<open>
  \<^verbatim>\<open>zeno-fcis-shell-sqlite/src/effects\<close>: the store of reservations in one SQLite row (\<^verbatim>\<open>durable.rs\<close>), its
  envelope, and the trusted dispatcher that lets workers send only the intents granted to them
  (\<^verbatim>\<open>owner.rs\<close>).

  What SQLite does with the two statements is a record of functions over a connection.  The production
  terminal is a parameter: a terminal with its store and the lookup of a pending intent.  The address
  that brands a handle is a number, and the size of a retained grant is a parameter.
\<close>

section \<open>Reservations in SQLite (durable.rs)\<close>

record 'c RowTable =
  rt_query :: "'c \<Rightarrow> nat \<Rightarrow> (unit + bytes option) \<times> 'c"
  rt_update :: "'c \<Rightarrow> bytes \<Rightarrow> bytes \<Rightarrow> (unit + nat) \<times> 'c"

definition sqlite_load :: "'c RowTable \<Rightarrow> 'c \<Rightarrow> (DurableError + bytes) \<times> 'c" where
  "sqlite_load D c =
     (let (result, c) = rt_query D c DURABLE_MAX_BYTES
      in (case result of Inl _ \<Rightarrow> Err DRE_Storage | Inr found \<Rightarrow> ok_or found DRE_Missing, c))"

definition sqlite_commit :: "'c RowTable \<Rightarrow> 'c \<Rightarrow> bytes \<Rightarrow> bytes \<Rightarrow> (DurableError + unit) \<times> 'c" where
  "sqlite_commit D c expected new =
     (if length new > DURABLE_MAX_BYTES then (Err DRE_Capacity, c)
      else let (result, c) = rt_update D c new expected in
      case result of
        Inl _ \<Rightarrow> (Err DRE_Storage, c)
      | Inr changed \<Rightarrow> (if changed \<noteq> 1 then Err DRE_Conflict else Ok (), c))"

definition SqliteStateStore :: "'c RowTable \<Rightarrow> 'c StateStore" where
  "SqliteStateStore D = \<lparr>ss_load = sqlite_load D, ss_commit = sqlite_commit D\<rparr>"

section \<open>The envelope (owner.rs)\<close>

definition OWNER_HEADER :: bytes where
  "OWNER_HEADER = ascii_bytes ''ZFEFO001''"

definition owner_envelope :: "hash32 \<Rightarrow> bytes \<Rightarrow> bytes option" where
  "owner_envelope namespace bs =
     (if length bs > DURABLE_MAX_BYTES - length OWNER_HEADER - 32 then None
      else Some (OWNER_HEADER @ be_bytes 32 namespace @ bs))"

definition strip_prefix :: "bytes \<Rightarrow> bytes \<Rightarrow> bytes option" where
  "strip_prefix lead bs = (if take (length lead) bs = lead then Some (drop (length lead) bs) else None)"

definition reservations_load :: "'m StateStore \<Rightarrow> hash32 \<Rightarrow> 'm \<Rightarrow> (DurableError + bytes) \<times> 'm" where
  "reservations_load S namespace m =
     (let (loaded, m) = ss_load S m in
      (rbind loaded (\<lambda>bs.
       rbind (ok_or (owner_envelope namespace []) DRE_Capacity) (\<lambda>lead.
       ok_or (strip_prefix lead bs) DRE_Binding)), m))"

definition reservations_commit :: "'m StateStore \<Rightarrow> hash32 \<Rightarrow> 'm \<Rightarrow> bytes \<Rightarrow> bytes \<Rightarrow> (DurableError + unit) \<times> 'm" where
  "reservations_commit S namespace m expected new =
     (case owner_envelope namespace expected of
       None \<Rightarrow> (Err DRE_Capacity, m)
     | Some expected \<Rightarrow>
         (case owner_envelope namespace new of
           None \<Rightarrow> (Err DRE_Capacity, m)
         | Some new \<Rightarrow> ss_commit S m expected new))"

definition Reservations :: "'m StateStore \<Rightarrow> hash32 \<Rightarrow> 'm StateStore" where
  "Reservations S namespace = \<lparr>ss_load = reservations_load S namespace, ss_commit = reservations_commit S namespace\<rparr>"

section \<open>The dispatcher (owner.rs)\<close>

record Limits =
  lm_grants :: nat
  lm_intent_bytes :: nat
  lm_dispatches :: u64

record Configuration =
  cf_deployment :: hash32
  cf_tenant :: hash32
  cf_epoch :: u64
  cf_limits :: Limits

datatype OwnerRefusal = OWR_Owner | OWR_Tenant | OWR_Principal | OWR_Grant | OWR_Intent | OWR_Pending | OWR_Content

text \<open>Errors of the audited store: the two that mean that the intent is not pending, and the others.\<close>

datatype 'e IntentError = IE_UnknownDelivery | IE_AlreadyAcknowledged | IE_Other 'e

datatype 'e OwnerError =
    OE_Refused OwnerRefusal
  | OE_Store "'e IntentError"
  | OE_Reservation DurableError
  | OE_Capacity
  | OE_Provenance
  | OE_Stopped
  | OE_Reply

record IntentHandle =
  ih_owner :: nat
  ih_grant :: u64
  ih_principal :: hash32
  ih_intent :: hash32

record Grant =
  gr_id :: u64
  gr_principal :: hash32
  gr_delivery :: Delivery
  gr_bytes :: nat

record ('s, 'e) IntentTerminal =
  it_terminal :: "'s Terminal"
  it_store :: Store
  it_pending :: "'s \<Rightarrow> hash32 \<Rightarrow> ('e IntentError + Delivery) \<times> 's"
  it_manifest :: "'s \<Rightarrow> Manifest option"

record ('m, 's) Dispatcher =
  ow_terminal :: 's
  ow_relay :: "'m Relay"
  ow_configuration :: Configuration
  ow_brand :: nat
  ow_grants :: "Grant list"
  ow_retained :: nat
  ow_next_grant :: u64
  ow_attempts :: u64
  ow_stopped :: bool

definition OWNER_REFUSALS :: "OwnerRefusal list" where
  "OWNER_REFUSALS = [OWR_Owner, OWR_Tenant, OWR_Principal, OWR_Grant, OWR_Intent, OWR_Pending, OWR_Content]"

fun admit_facts :: "(bool \<times> OwnerRefusal) list \<Rightarrow> 'e OwnerError + unit" where
  "admit_facts [] = Ok ()"
| "admit_facts ((holds, refusal) # facts) = (if \<not> holds then Err (OE_Refused refusal) else admit_facts facts)"

definition owner_admit :: "bool list \<Rightarrow> 'e OwnerError + unit" where
  "owner_admit facts = admit_facts (zip facts OWNER_REFUSALS)"

definition pending_error :: "'e IntentError \<Rightarrow> 'e OwnerError" where
  "pending_error e = (case e of IE_UnknownDelivery \<Rightarrow> OE_Refused OWR_Pending | IE_AlreadyAcknowledged \<Rightarrow> OE_Refused OWR_Pending
     | IE_Other other \<Rightarrow> OE_Store (IE_Other other))"

definition owner_source :: "hasher \<Rightarrow> (string \<Rightarrow> bytes) \<Rightarrow> hash32" where
  "owner_source H file = source_digest H [(''intent-owner.rs'', file ''owner.rs'')]"

definition owner_namespace :: "hasher \<Rightarrow> (string \<Rightarrow> bytes) \<Rightarrow> Configuration \<Rightarrow> hash32 \<Rightarrow> hash32" where
  "owner_namespace H file configuration store = source_digest H
     [(''owner'', be_bytes 32 (owner_source H file)), (''deployment'', be_bytes 32 (cf_deployment configuration)),
      (''tenant'', be_bytes 32 (cf_tenant configuration)), (''store'', be_bytes 32 store)]"

definition owner_manifest :: "hasher \<Rightarrow> (string \<Rightarrow> bytes) \<Rightarrow> Configuration \<Rightarrow> hash32 \<Rightarrow> Manifest \<Rightarrow> Manifest" where
  "owner_manifest H file configuration namespace manifest =
     manifest\<lparr>mf_program := owner_source H file, mf_stack := mf_stack manifest @ [''intent-owner''],
       mf_implementations := mf_implementations manifest @ [\<lparr>im_name = ''intent-owner'', im_source = owner_source H file\<rparr>],
       mf_configuration := mf_configuration manifest @ be_bytes 32 namespace @ be_bytes 8 (cf_epoch configuration)
         @ be_bytes 8 (of_nat (lm_grants (cf_limits configuration)) :: u64)
         @ be_bytes 8 (of_nat (lm_intent_bytes (cf_limits configuration)) :: u64)
         @ be_bytes 8 (lm_dispatches (cf_limits configuration))\<rparr>"

text \<open>\<^verbatim>\<open>bind\<close> on an opened terminal and an opened, locked file of reservations.\<close>

definition owner_bind ::
    "hasher \<Rightarrow> (string \<Rightarrow> bytes) \<Rightarrow> 'm StateStore \<Rightarrow> ('s, 'e) IntentTerminal \<Rightarrow> nat \<Rightarrow> 's \<Rightarrow> 'm \<Rightarrow> Configuration \<Rightarrow> Policy list \<Rightarrow>
      'e OwnerError + ('m, 's) Dispatcher" where
  "owner_bind H file S I brand terminal store configuration policies =
     rbind (ok_or (it_manifest I terminal) OE_Provenance) (\<lambda>manifest.
     let identity = st_identity (it_store I); namespace = owner_namespace H file configuration identity;
         manifest = owner_manifest H file configuration namespace manifest in
     rbind (map_err OE_Reservation (relay_open H file (Reservations S namespace) store identity policies manifest)) (\<lambda>relay.
     Ok \<lparr>ow_terminal = terminal, ow_relay = relay, ow_configuration = configuration, ow_brand = brand, ow_grants = [],
       ow_retained = 0, ow_next_grant = 0, ow_attempts = 0, ow_stopped = False\<rparr>))"

text \<open>The bytes a grant retains; sums are checked.\<close>

definition grant_size :: "nat \<Rightarrow> Delivery \<Rightarrow> nat option" where
  "grant_size size_of_grant delivery =
     Option.bind (checked_add usize_max (length (dl_destination delivery)) (length (dl_payload delivery)))
       (\<lambda>n. checked_add usize_max n size_of_grant)"

definition owner_grant ::
    "('s, 'e) IntentTerminal \<Rightarrow> nat \<Rightarrow> ('m, 's) Dispatcher \<Rightarrow> hash32 \<Rightarrow> hash32 \<Rightarrow> ('e OwnerError + IntentHandle) \<times> ('m, 's) Dispatcher" where
  "owner_grant I size_of_grant w worker intent =
     (if ow_stopped w then (Err OE_Stopped, w)
      else if length (ow_grants w) \<ge> lm_grants (cf_limits (ow_configuration w)) then (Err OE_Capacity, w)
      else case checked_add64 (ow_next_grant w) 1 of
        None \<Rightarrow> (Err OE_Capacity, w)
      | Some i \<Rightarrow>
          (let (found, terminal) = it_pending I (ow_terminal w) intent; w = w\<lparr>ow_terminal := terminal\<rparr> in
           case found of
             Inl e \<Rightarrow> (Err (pending_error e), w)
           | Inr delivery \<Rightarrow>
               (case Option.bind (grant_size size_of_grant delivery) (\<lambda>n. map_option (Pair n) (checked_add usize_max (ow_retained w) n)) of
                 None \<Rightarrow> (Err OE_Capacity, w)
               | Some (n, retained) \<Rightarrow>
                   if retained > lm_intent_bytes (cf_limits (ow_configuration w)) then (Err OE_Capacity, w)
                   else (Ok \<lparr>ih_owner = ow_brand w, ih_grant = i, ih_principal = worker, ih_intent = intent\<rparr>,
                     w\<lparr>ow_grants := ow_grants w @ [\<lparr>gr_id = i, gr_principal = worker, gr_delivery = delivery, gr_bytes = n\<rparr>],
                       ow_retained := retained, ow_next_grant := i\<rparr>))))"

text \<open>\<^verbatim>\<open>Vec::swap_remove\<close>: the last element takes the place of the removed one.\<close>

definition swap_remove :: "nat \<Rightarrow> 'a list \<Rightarrow> 'a list" where
  "swap_remove i xs = butlast (xs[i := last xs])"

definition owner_revoke :: "('m, 's) Dispatcher \<Rightarrow> IntentHandle \<Rightarrow> ('e OwnerError + bool) \<times> ('m, 's) Dispatcher" where
  "owner_revoke w handle =
     (if ow_brand w \<noteq> ih_owner handle then (Err (OE_Refused OWR_Owner), w)
      else case position (\<lambda>g. gr_id g = ih_grant handle) (ow_grants w) of
        None \<Rightarrow> (Ok False, w)
      | Some index \<Rightarrow>
          (Ok True, w\<lparr>ow_retained := ow_retained w - gr_bytes (ow_grants w ! index), ow_grants := swap_remove index (ow_grants w)\<rparr>))"

text \<open>What the dispatcher itself compares before any lookup.\<close>

definition dispatch_facts :: "('m, 's) Dispatcher \<Rightarrow> hash32 \<Rightarrow> hash32 \<Rightarrow> IntentHandle \<Rightarrow> Grant option \<Rightarrow> bool list" where
  "dispatch_facts w tenant worker handle grant =
     [ow_brand w = ih_owner handle, tenant = cf_tenant (ow_configuration w), worker = ih_principal handle, grant \<noteq> None,
      (case grant of Some g \<Rightarrow> dl_id (gr_delivery g) = ih_intent handle \<and> gr_principal g = ih_principal handle | None \<Rightarrow> False),
      True, True]"

text \<open>The answer of the relay, after the attempt has been recorded and the owner stopped.\<close>

definition dispatch_answer :: "Delivery \<Rightarrow> DurableError + Handled \<Rightarrow> ('m, 's) Dispatcher \<Rightarrow> ('e OwnerError + Sent) \<times> ('m, 's) Dispatcher" where
  "dispatch_answer granted result w =
     (case result of
       Inl e \<Rightarrow> (Err (OE_Reservation e), w)
     | Inr (H_Answer (R_Send sent)) \<Rightarrow>
         (if (case sent of S_Sent report \<Rightarrow>
               rep_delivery_id report \<noteq> dl_id granted \<or> rep_payload_sha256 report \<noteq> dl_payload_sha256 granted | _ \<Rightarrow> False)
          then (Err OE_Reply, w) else (Ok sent, w\<lparr>ow_stopped := False\<rparr>))
     | Inr _ \<Rightarrow> (Err OE_Stopped, w))"

definition owner_dispatch ::
    "hasher \<Rightarrow> (string \<Rightarrow> bytes) \<Rightarrow> 'm StateStore \<Rightarrow> ('s, 'e) IntentTerminal \<Rightarrow> ('m, 's) Dispatcher \<Rightarrow> hash32 \<Rightarrow> hash32 \<Rightarrow> IntentHandle \<Rightarrow>
      ('e OwnerError + Sent) \<times> ('m, 's) Dispatcher" where
  "owner_dispatch H file S I w tenant worker handle =
     (let grant = find (\<lambda>g. gr_id g = ih_grant handle) (ow_grants w); facts = dispatch_facts w tenant worker handle grant in
      case owner_admit facts of
        Inl e \<Rightarrow> (Err e, w)
      | Inr _ \<Rightarrow>
      if ow_stopped w then (Err OE_Stopped, w)
      else case grant of
        None \<Rightarrow> (Err (OE_Refused OWR_Grant), w)
      | Some g \<Rightarrow>
      (let (found, terminal) = it_pending I (ow_terminal w) (ih_intent handle); w = w\<lparr>ow_terminal := terminal\<rparr> in
       case found of
         Inl e \<Rightarrow> (Err (pending_error e), w)
       | Inr retained \<Rightarrow>
       (case owner_admit (facts[6 := (retained = gr_delivery g)]) of
         Inl e \<Rightarrow> (Err e, w)
       | Inr _ \<Rightarrow>
       if ow_attempts w \<ge> lm_dispatches (cf_limits (ow_configuration w)) then (Err OE_Capacity, w)
       else
         let operation = Op_Send (it_store I) retained;
             b = binding_of \<lparr>op_epoch = cf_epoch (ow_configuration w), op_ordinal = ow_attempts w\<rparr> operation;
             w = w\<lparr>ow_attempts := ow_attempts w + 1, ow_stopped := True\<rparr>;
             (result, relay, terminal) = relay_handle H file S (it_terminal I) (ow_relay w) (ow_terminal w) b operation
         in dispatch_answer (gr_delivery g) result (w\<lparr>ow_relay := relay, ow_terminal := terminal\<rparr>))))"

end
