(* ===== verification/Zeno_Durable_Laws.thy ===== *)
theory Zeno_Durable_Laws
  imports Zeno_Policy_Laws
begin

text \<open>
  Laws of the durable relay (\<^verbatim>\<open>zeno-fcis-shell/src/effects/durable.rs\<close>).

  The reader of checkpoints is characterised exactly.  \<open>atomic_cell\<close> is the contract of the store of
  checkpoints; over it, relays opened one after the other or beside each other keep the discipline
  \<open>reservation\<close>: each call either leaves the log alone, or reserves a fresh key durably before the
  terminal sees it.
\<close>

section \<open>Reading a checkpoint\<close>

lemma durable_take_iff: "durable_take bs n = Inr (x, ys) \<longleftrightarrow> bs = x @ ys \<and> length x = n"
  by (auto simp: durable_take_def append_eq_conv_conj)

lemma durable_hash_iff: "durable_hash bs = Inr (h, ys) \<longleftrightarrow> bs = codec_hash h @ ys"
proof
  assume "durable_hash bs = Inr (h, ys)"
  then obtain x where x: "bs = x @ ys" "length x = 32" "h = be_word x"
    by (auto simp: durable_hash_def durable_take_iff)
  with be_bytes_be_word [of x, where 'a = 256] show "bs = codec_hash h @ ys" by (simp add: codec_hash_def)
next
  assume "bs = codec_hash h @ ys"
  then show "durable_hash bs = Inr (h, ys)" by (simp add: durable_hash_def durable_take_def codec_hash_def)
qed

lemma durable_number_iff:
  "durable_number bs = Inr (n, ys) \<longleftrightarrow> n \<le> u64_max \<and> bs = be_bytes 8 (of_nat n :: u64) @ ys"
proof
  assume "durable_number bs = Inr (n, ys)"
  then obtain x where x: "bs = x @ ys" "length x = 8" "n = unat (be_word x :: u64)"
    by (auto simp: durable_number_def durable_take_iff)
  have "be_bytes 8 (of_nat n :: u64) = x" using be_bytes_be_word [of x, where 'a = 64] x by simp
  moreover have "n \<le> u64_max" using x(3) unsigned_less [of "be_word x :: u64", where 'a = nat] by simp
  ultimately show "n \<le> u64_max \<and> bs = be_bytes 8 (of_nat n :: u64) @ ys" using x(1) by simp
next
  assume "n \<le> u64_max \<and> bs = be_bytes 8 (of_nat n :: u64) @ ys"
  moreover then have "unat (of_nat n :: u64) = n" by (simp add: unat_of_nat take_bit_nat_eq_self)
  ultimately show "durable_number bs = Inr (n, ys)" by (simp add: durable_number_def durable_take_def)
qed

lemmas durable_reads = durable_take_iff durable_hash_iff durable_number_iff

definition key_bytes :: "EffectKey list \<Rightarrow> bytes" where
  "key_bytes keys = concat (map (\<lambda>(store, delivery). codec_hash store @ codec_hash delivery) keys)"

lemma key_bytes_simps [simp]:
  "key_bytes [] = []" "key_bytes ((store, delivery) # keys) = codec_hash store @ codec_hash delivery @ key_bytes keys"
  by (simp_all add: key_bytes_def)

lemma length_codec_hash [simp]: "length (codec_hash h) = 32"
  by (simp add: codec_hash_def)

lemma length_key_bytes [simp]: "length (key_bytes keys) = 64 * length keys"
proof (induction keys)
  case (Cons key keys)
  then show ?case by (cases key) simp
qed simp

lemma policy_state_bytes_keys: "policy_state_bytes keys = be_bytes 8 (of_nat (length keys) :: u64) @ key_bytes keys"
  by (simp add: policy_state_bytes_def key_bytes_def)

text \<open>The reservations that a lifetime with this scope can hold.\<close>

definition state_ok :: "hash32 \<Rightarrow> Policy \<Rightarrow> PolicyState \<Rightarrow> bool" where
  "state_ok scope policy state \<longleftrightarrow>
     (case policy of
       PL_AtMostOne capacity \<Rightarrow> distinct state \<and> list_all (\<lambda>key. fst key = scope) state \<and> length state \<le> unat capacity
     | PL_Allowlist _ \<Rightarrow> state = [])"

lemma key_step:
  "policy_step (PL_AtMostOne capacity) state (key_operation store key) None =
     (if (store, key) \<in> set state then (state, VD_Reject C_PolicyDuplicate)
      else if length state \<ge> unat capacity then (state, VD_Reject C_PolicyCapacity)
      else (state @ [(store, key)], VD_Allow))"
  by (simp add: policy_step_def key_operation_def policy_decide_def)

lemma restore_keys_iff:
  "restore_keys scope (PL_AtMostOne capacity) release n preceding state bs = Inr (p, r) \<longleftrightarrow>
     (\<exists>keys ys. length keys = n \<and> bs = key_bytes keys @ ys \<and> list_all (\<lambda>key. fst key = scope) keys \<and> distinct keys
        \<and> set keys \<inter> set state = {} \<and> (keys \<noteq> [] \<longrightarrow> length state + length keys \<le> unat capacity)
        \<and> (keys \<noteq> [] \<and> release \<noteq> None \<longrightarrow> release = Some (snd (last keys)))
        \<and> r = state @ keys \<and> p = (if keys = [] then preceding else state @ butlast keys))"
proof (induction n arbitrary: preceding state bs)
  case 0
  then show ?case by auto
next
  case (Suc n)
  show ?case (is "?L \<longleftrightarrow> (\<exists>keys ys. ?R keys ys)")
  proof
    assume ?L
    then obtain key ys where k: "bs = codec_hash scope @ codec_hash key @ ys" "(scope, key) \<notin> set state"
        "length state < unat capacity" "n = 0 \<and> release \<noteq> None \<longrightarrow> release = Some key"
        "restore_keys scope (PL_AtMostOne capacity) release n state (state @ [(scope, key)]) ys = Inr (p, r)"
      by (auto simp: durable_reads key_step Let_def split: if_splits)
    from Suc.IH [THEN iffD1, OF k(5)] obtain keys zs where "length keys = n" "ys = key_bytes keys @ zs"
        "list_all (\<lambda>key. fst key = scope) keys" "distinct keys" "set keys \<inter> set (state @ [(scope, key)]) = {}"
        "keys \<noteq> [] \<longrightarrow> length (state @ [(scope, key)]) + length keys \<le> unat capacity"
        "keys \<noteq> [] \<and> release \<noteq> None \<longrightarrow> release = Some (snd (last keys))"
        "r = (state @ [(scope, key)]) @ keys" "p = (if keys = [] then state else (state @ [(scope, key)]) @ butlast keys)" by blast
    with k have "?R ((scope, key) # keys) zs" by (auto simp: Suc_le_eq)
    then show "\<exists>keys ys. ?R keys ys" by blast
  next
    assume "\<exists>keys ys. ?R keys ys"
    then obtain keys ys where R: "?R keys ys" by blast
    then obtain key keys' where keys: "keys = (scope, key) # keys'" by (cases keys) auto
    have "restore_keys scope (PL_AtMostOne capacity) release n state (state @ [(scope, key)]) (key_bytes keys' @ ys) = Inr (p, r)"
      unfolding Suc.IH using R keys by (intro exI [of _ keys'] exI [of _ ys]) auto
    with R keys show ?L by (auto simp: durable_reads key_step Let_def)
  qed
qed


definition written_bytes :: "Monitor \<Rightarrow> bytes" where
  "written_bytes m = codec_hash (mo_identity m) @ codec_bytes (policy_state_bytes (mo_state m))"

text \<open>A monitor of this policy and scope, and the condition on the last key under a release.\<close>

definition monitor_of :: "hasher \<Rightarrow> (string \<Rightarrow> bytes) \<Rightarrow> hash32 \<Rightarrow> Policy \<Rightarrow> Monitor \<Rightarrow> bool" where
  "monitor_of H file scope policy m \<longleftrightarrow>
     mo_policy m = policy \<and> mo_identity m = policy_identity H file policy \<and> state_ok scope policy (mo_state m)"

definition releasable :: "hash32 option \<Rightarrow> Monitor \<Rightarrow> bool" where
  "releasable release m \<longleftrightarrow>
     (is_guard (mo_policy m) \<and> release \<noteq> None \<longrightarrow> mo_state m \<noteq> [] \<and> release = Some (snd (last (mo_state m))))"

definition released :: "hash32 option \<Rightarrow> Monitor \<Rightarrow> Monitor" where
  "released release m =
     (if is_guard (mo_policy m) \<and> release \<noteq> None then m\<lparr>mo_state := butlast (mo_state m)\<rparr> else m)"

lemma monitor_of_simps:
  "monitor_of H file scope policy m \<Longrightarrow> mo_policy m = policy"
  "monitor_of H file scope policy m \<Longrightarrow> mo_identity m = policy_identity H file policy"
  by (simp_all add: monitor_of_def)

lemma monitor_of_new: "monitor_of H file scope policy m \<Longrightarrow> (monitor_new H file policy)\<lparr>mo_state := state\<rparr> = m\<lparr>mo_state := state\<rparr>"
  by (cases m) (simp add: monitor_of_def monitor_new_def)

lemma restore_monitor_iff:
  "restore_monitor H file scope release policy input = Inr (m, input') \<longleftrightarrow>
     (\<exists>w. monitor_of H file scope policy w \<and> releasable release w \<and> 8 + 64 * length (mo_state w) \<le> u64_max
        \<and> input = written_bytes w @ input' \<and> m = released release w)" (is "?L \<longleftrightarrow> (\<exists>w. ?R w)")
proof (cases policy)
  case (PL_AtMostOne capacity)
  show ?thesis
  proof
    assume ?L
    then obtain size state n keys p r where
        i: "size \<le> u64_max" "length state = size" "input = codec_hash (policy_identity H file policy) @ be_bytes 8 (of_nat size :: u64) @ state @ input'"
        "state = be_bytes 8 (of_nat n :: u64) @ keys" "n * 64 = length keys" "release \<noteq> None \<longrightarrow> n \<noteq> 0"
        "restore_keys scope policy release n [] [] keys = Inr (p, r)" "policy_state_bytes r = state"
        "m = (monitor_new H file policy)\<lparr>mo_state := (if release \<noteq> None then p else r)\<rparr>"
      by (auto simp: restore_monitor_def Let_def durable_reads monitor_new_def is_guard_def PL_AtMostOne split: if_splits)
    let ?w = "(monitor_new H file policy)\<lparr>mo_state := r\<rparr>"
    from i(7) [unfolded PL_AtMostOne restore_keys_iff] i(5,6) have
      "length r = n" "list_all (\<lambda>key. fst key = scope) r" "distinct r" "r \<noteq> [] \<longrightarrow> length r \<le> unat capacity"
      "r \<noteq> [] \<and> release \<noteq> None \<longrightarrow> release = Some (snd (last r))" "p = butlast r" by auto
    with i have "?R ?w"
      by (auto simp: monitor_of_def releasable_def released_def written_bytes_def codec_bytes_def monitor_new_def state_ok_def is_guard_def
          PL_AtMostOne policy_state_bytes_keys)
    then show "\<exists>w. ?R w" by blast
  next
    assume "\<exists>w. ?R w"
    then obtain w where R: "?R w" by blast
    have k: "restore_keys scope policy release (length (mo_state w)) [] [] (key_bytes (mo_state w)) = Inr (butlast (mo_state w), mo_state w)"
      unfolding PL_AtMostOne restore_keys_iff using R
      by (intro exI [of _ "mo_state w"] exI [of _ "[]"])
        (auto simp: monitor_of_def state_ok_def PL_AtMostOne releasable_def is_guard_def monitor_new_def)
    have "durable_take (policy_state_bytes (mo_state w) @ input') (8 + 64 * length (mo_state w)) = Inr (policy_state_bytes (mo_state w), input')"
      by (simp add: durable_take_iff policy_state_bytes_keys)
    moreover have "durable_number (policy_state_bytes (mo_state w)) = Inr (length (mo_state w), key_bytes (mo_state w))"
      using R by (simp add: durable_number_iff policy_state_bytes_keys)
    moreover have "durable_number (codec_bytes (policy_state_bytes (mo_state w)) @ input')
        = Inr (8 + 64 * length (mo_state w), policy_state_bytes (mo_state w) @ input')"
      using R by (simp add: durable_number_iff codec_bytes_def policy_state_bytes_keys)
    moreover have "durable_hash input = Inr (policy_identity H file policy, codec_bytes (policy_state_bytes (mo_state w)) @ input')"
      using R monitor_of_simps(2) by (auto simp: durable_hash_iff written_bytes_def)
    ultimately show ?L using R k monitor_of_simps(1)
      by (auto simp: restore_monitor_def Let_def is_guard_def PL_AtMostOne releasable_def released_def monitor_of_new)
        (simp_all add: monitor_new_def)
  qed
next
  case (PL_Allowlist recipients)
  show ?thesis
  proof
    assume ?L
    then have "?R ((monitor_new H file policy)\<lparr>mo_state := []\<rparr>)"
      by (auto simp: restore_monitor_def Let_def durable_reads monitor_new_def is_guard_def PL_Allowlist monitor_of_def releasable_def
          released_def written_bytes_def codec_bytes_def state_ok_def policy_state_bytes_keys split: if_splits)
    then show "\<exists>w. ?R w" by blast
  next
    assume "\<exists>w. ?R w"
    then obtain w where R: "?R w" by blast
    then have s: "mo_state w = []" by (simp add: monitor_of_def state_ok_def PL_Allowlist)
    have "durable_hash input = Inr (policy_identity H file policy, codec_bytes (policy_state_bytes []) @ input')"
      using R monitor_of_simps(2) s by (auto simp: durable_hash_iff written_bytes_def)
    moreover have "durable_number (codec_bytes (policy_state_bytes []) @ input') = Inr (8, policy_state_bytes [] @ input')"
      by (simp add: durable_number_iff codec_bytes_def policy_state_bytes_keys)
    moreover have "durable_take (policy_state_bytes [] @ input') 8 = Inr (policy_state_bytes [], input')"
      by (simp add: durable_take_iff policy_state_bytes_keys)
    moreover have "durable_number (policy_state_bytes []) = Inr (0, [])"
      by (simp add: durable_number_iff policy_state_bytes_keys)
    ultimately show ?L using R s monitor_of_simps(1)
      by (auto simp: restore_monitor_def Let_def is_guard_def PL_Allowlist released_def monitor_of_new)
        (simp_all add: monitor_new_def)
  qed
qed


text \<open>What may have been written: monitors in the order of the policies, ready for the release.\<close>

definition writable :: "hasher \<Rightarrow> (string \<Rightarrow> bytes) \<Rightarrow> hash32 \<Rightarrow> hash32 option \<Rightarrow> Policy list \<Rightarrow> Monitor list \<Rightarrow> bool" where
  "writable H file scope release policies ws \<longleftrightarrow>
     list_all2 (\<lambda>policy w. monitor_of H file scope policy w \<and> releasable release w) policies ws"

lemma restore_monitors_iff:
  "restore_monitors H file scope release policies input = Inr ms \<longleftrightarrow>
     (\<exists>ws. writable H file scope release policies ws \<and> list_all (\<lambda>w. 8 + 64 * length (mo_state w) \<le> u64_max) ws
        \<and> input = concat (map written_bytes ws) \<and> ms = map (released release) ws)"
proof (induction policies arbitrary: input ms)
  case Nil
  then show ?case by (auto simp: writable_def)
next
  case (Cons policy policies)
  show ?case (is "?L \<longleftrightarrow> (\<exists>ws. ?R ws)")
  proof
    assume ?L
    then obtain m input' ms' where m: "restore_monitor H file scope release policy input = Inr (m, input')"
      "restore_monitors H file scope release policies input' = Inr ms'" "ms = m # ms'" by auto
    from m(1) [unfolded restore_monitor_iff] m(2) [unfolded Cons.IH] obtain w ws where
      w: "monitor_of H file scope policy w \<and> releasable release w \<and> 8 + 64 * length (mo_state w) \<le> u64_max
        \<and> input = written_bytes w @ input' \<and> m = released release w" and
      ws: "writable H file scope release policies ws \<and> list_all (\<lambda>w. 8 + 64 * length (mo_state w) \<le> u64_max) ws
        \<and> input' = concat (map written_bytes ws) \<and> ms' = map (released release) ws" by blast
    with m(3) have "?R (w # ws)" by (simp add: writable_def)
    then show "\<exists>ws. ?R ws" by blast
  next
    assume "\<exists>ws. ?R ws"
    then obtain w ws where R: "?R (w # ws)" by (auto simp: writable_def list_all2_Cons1)
    then have "restore_monitor H file scope release policy input = Inr (released release w, concat (map written_bytes ws))"
      unfolding restore_monitor_iff by (intro exI [of _ w]) (simp add: writable_def)
    moreover have "restore_monitors H file scope release policies (concat (map written_bytes ws)) = Inr (map (released release) ws)"
      unfolding Cons.IH using R by (intro exI [of _ ws]) (simp add: writable_def)
    ultimately show ?L using R by simp
  qed
qed

lemma restore_release_iff:
  "restore_release input = Inr (release, input') \<longleftrightarrow>
     input = (case release of None \<Rightarrow> [0] | Some key \<Rightarrow> 1 # codec_hash key) @ input'"
proof
  assume "restore_release input = Inr (release, input')"
  then obtain tag bs where t: "input = tag @ bs" "length tag = 1"
    "tag = [0] \<and> release = None \<and> input' = bs \<or> tag = [1] \<and> (\<exists>key. release = Some key \<and> bs = codec_hash key @ input')"
    by (auto simp: restore_release_def durable_reads split: if_splits)
  then show "input = (case release of None \<Rightarrow> [0] | Some key \<Rightarrow> 1 # codec_hash key) @ input'" by auto
next
  assume i: "input = (case release of None \<Rightarrow> [0] | Some key \<Rightarrow> 1 # codec_hash key) @ input'"
  show "restore_release input = Inr (release, input')"
  proof (cases release)
    case None
    with i have "durable_take input 1 = Inr ([0], input')" by (simp add: durable_take_iff)
    with None show ?thesis by (simp add: restore_release_def)
  next
    case (Some key)
    with i have "durable_take input 1 = Inr ([1], codec_hash key @ input')" by (simp add: durable_take_iff)
    moreover have "durable_hash (codec_hash key @ input') = Inr (key, input')" by (simp add: durable_hash_iff)
    ultimately show ?thesis using Some by (simp add: restore_release_def)
  qed
qed

lemma checkpoint_body_parts:
  "checkpoint_body H file scope ws release = DURABLE_MAGIC @ codec_hash (durable_source H file) @ codec_hash scope
     @ (case release of None \<Rightarrow> [0] | Some key \<Rightarrow> 1 # codec_hash key)
     @ be_bytes 8 (of_nat (length ws) :: u64) @ concat (map written_bytes ws)"
  by (simp add: checkpoint_body_def monitors_bytes_def written_bytes_def [abs_def])

lemma written_length_concat:
  "w \<in> set ws \<Longrightarrow> 8 + 64 * length (mo_state w) \<le> length (concat (map written_bytes ws))"
proof -
  assume w: "w \<in> set ws"
  have "length (written_bytes w) \<in> set (map length (map written_bytes ws))" using w by auto
  then have "length (written_bytes w) \<le> length (concat (map written_bytes ws))"
    unfolding length_concat by (rule member_le_sum_list) simp
  then show ?thesis by (simp add: written_bytes_def codec_bytes_def policy_state_bytes_keys)
qed

lemma restore_body_iff:
  assumes "length body + 32 \<le> DURABLE_MAX_BYTES" "length policies \<le> 64" "list_ex is_guard policies"
  shows "restore H file scope policies (body @ codec_hash (h_hash H body)) = Inr ms \<longleftrightarrow>
    (\<exists>release ws. writable H file scope release policies ws \<and> body = checkpoint_body H file scope ws release
       \<and> ms = map (released release) ws)" (is "?L \<longleftrightarrow> (\<exists>release ws. ?R release ws)")
proof
  assume ?L
  then obtain release input where
    i: "body = DURABLE_MAGIC @ codec_hash (durable_source H file) @ codec_hash scope
        @ (case release of None \<Rightarrow> [0] | Some key \<Rightarrow> 1 # codec_hash key) @ be_bytes 8 (of_nat (length policies) :: u64) @ input"
      "restore_monitors H file scope release policies input = Inr ms"
    using assms by (auto simp: restore_def Let_def durable_reads restore_release_iff codec_hash_def [of "h_hash H body"] split: if_splits)
  then obtain ws where ws: "writable H file scope release policies ws" "input = concat (map written_bytes ws)" "ms = map (released release) ws"
    unfolding restore_monitors_iff by blast
  have "length ws = length policies" using ws(1) by (auto simp: writable_def dest: list_all2_lengthD)
  with i ws have "?R release ws" by (simp add: checkpoint_body_parts)
  then show "\<exists>release ws. ?R release ws" by blast
next
  assume "\<exists>release ws. ?R release ws"
  then obtain release ws where R: "?R release ws" by blast
  let ?input = "concat (map written_bytes ws)"
  have len: "length ws = length policies" using R by (auto simp: writable_def dest: list_all2_lengthD)
  have b: "body = DURABLE_MAGIC @ codec_hash (durable_source H file) @ codec_hash scope
        @ (case release of None \<Rightarrow> [0] | Some key \<Rightarrow> 1 # codec_hash key) @ be_bytes 8 (of_nat (length policies) :: u64) @ ?input"
    using R len by (simp add: checkpoint_body_parts)
  have "8 + 64 * length (mo_state w) \<le> u64_max" if "w \<in> set ws" for w
    using written_length_concat [OF that] assms(1) b by (simp add: DURABLE_MAX_BYTES_def)
  then have "restore_monitors H file scope release policies ?input = Inr ms"
    unfolding restore_monitors_iff using R by (intro exI [of _ ws]) (simp add: list_all_iff)
  moreover have "durable_take body (length DURABLE_MAGIC) = Inr (DURABLE_MAGIC, drop (length DURABLE_MAGIC) body)"
    by (simp add: durable_take_iff b)
  moreover have "durable_hash (drop (length DURABLE_MAGIC) body) = Inr (durable_source H file, drop (length DURABLE_MAGIC + 32) body)"
    by (simp add: durable_hash_iff b)
  moreover have "durable_hash (drop (length DURABLE_MAGIC + 32) body) = Inr (scope, drop (length DURABLE_MAGIC + 64) body)"
    by (simp add: durable_hash_iff b)
  moreover have "restore_release (drop (length DURABLE_MAGIC + 64) body) = Inr (release, be_bytes 8 (of_nat (length policies) :: u64) @ ?input)"
    by (simp add: restore_release_iff b)
  moreover have "durable_number (be_bytes 8 (of_nat (length policies) :: u64) @ ?input) = Inr (length policies, ?input)"
    using assms(2) by (simp add: durable_number_iff)
  ultimately show ?L using assms
    by (simp add: restore_def Let_def codec_hash_def [of "h_hash H body"])
qed

lemma restore_iff:
  "restore H file scope policies bs = Ok ms \<longleftrightarrow>
     length policies \<le> 64 \<and> list_ex is_guard policies
     \<and> (\<exists>release ws. writable H file scope release policies ws \<and> checkpoint H file scope ws release = Ok bs
          \<and> ms = map (released release) ws)" (is "?L \<longleftrightarrow> ?R")
proof
  assume L: ?L
  then have a: "length bs \<le> DURABLE_MAX_BYTES" "length policies \<le> 64" "list_ex is_guard policies" "32 \<le> length bs"
    and h: "be_bytes 32 (h_hash H (take (length bs - 32) bs)) = drop (length bs - 32) bs"
    by (auto simp: restore_def Let_def split: if_splits)
  define body where "body = take (length bs - 32) bs"
  have bs: "bs = body @ codec_hash (h_hash H body)" using h by (simp add: body_def codec_hash_def)
  moreover have len: "length body + 32 \<le> DURABLE_MAX_BYTES" using a bs by (metis length_append length_codec_hash)
  moreover note restore_body_iff [OF len a(2,3)]
  ultimately obtain release ws where "writable H file scope release policies ws" "body = checkpoint_body H file scope ws release"
    "ms = map (released release) ws" using L by auto
  moreover have "checkpoint H file scope ws release = Ok bs"
    using calculation(2) bs len by (simp add: checkpoint_def Let_def)
  ultimately show ?R using a by blast
next
  assume ?R
  then obtain release ws where r: "length policies \<le> 64" "list_ex is_guard policies" "writable H file scope release policies ws"
    "checkpoint H file scope ws release = Ok bs" "ms = map (released release) ws" by blast
  let ?body = "checkpoint_body H file scope ws release"
  have "bs = ?body @ codec_hash (h_hash H ?body)" "length ?body + 32 \<le> DURABLE_MAX_BYTES"
    using r(4) by (auto simp: checkpoint_def Let_def split: if_splits)
  with restore_body_iff [of ?body policies] r show ?L by blast
qed


section \<open>The relay\<close>

lemma released_none [simp]: "released None m = m" by (simp add: released_def)

lemma writable_none: "writable H file scope None policies ws \<longleftrightarrow> list_all2 (monitor_of H file scope) policies ws"
  by (simp add: writable_def releasable_def)

lemma state_ok_butlast: "state_ok scope policy state \<Longrightarrow> state_ok scope policy (butlast state)"
  by (auto simp: state_ok_def list_all_iff distinct_butlast dest: in_set_butlastD split: Policy.splits)

text \<open>What is restored is a lifetime of this scope and these policies.\<close>

lemma restored_monitors:
  assumes "restore H file scope policies bs = Inr ms"
  shows "list_all2 (monitor_of H file scope) policies ms" "length policies \<le> 64" "list_ex is_guard policies"
proof -
  from assms [unfolded restore_iff] obtain release ws where
    r: "length policies \<le> 64" "list_ex is_guard policies" "writable H file scope release policies ws" "ms = map (released release) ws" by blast
  from r(3) show "list_all2 (monitor_of H file scope) policies ms" unfolding r(4) writable_def list.rel_map
    by (rule list_all2_mono) (auto simp: released_def monitor_of_def state_ok_butlast)
  show "length policies \<le> 64" "list_ex is_guard policies" using r by blast+
qed

lemma restore_checkpoint:
  assumes "list_all2 (monitor_of H file scope) policies ms" "length policies \<le> 64" "list_ex is_guard policies"
    and "checkpoint H file scope ms None = Inr bs"
  shows "restore H file scope policies bs = Inr ms"
  unfolding restore_iff
  using assms by (intro conjI exI [of _ None] exI [of _ ms]) (simp_all add: writable_none map_idI)

lemma guard_present:
  "list_all2 (monitor_of H file scope) policies ms \<Longrightarrow> list_ex is_guard policies \<Longrightarrow> list_ex (is_guard \<circ> mo_policy) ms"
  by (induction rule: list_all2_induct) (auto simp: monitor_of_def)

lemma monitor_of_reserve:
  assumes "monitor_of H file scope policy m" "monitor_allows operation m"
    and "\<And>key. send_key operation = Some key \<Longrightarrow> fst key = scope"
  shows "monitor_of H file scope policy (monitor_reserve operation m)"
proof (cases policy)
  case (PL_AtMostOne capacity)
  with assms show ?thesis
    by (cases operation) (auto simp: monitor_of_def monitor_reserve_def monitor_allows_def state_ok_def send_key_def)
next
  case PL_Allowlist
  with assms(1) show ?thesis by (simp add: monitor_of_def monitor_reserve_def)
qed

lemma monitors_reserve:
  assumes "list_all2 (monitor_of H file scope) policies ms" "list_all (monitor_allows operation) ms"
    and "\<And>key. send_key operation = Some key \<Longrightarrow> fst key = scope"
  shows "list_all2 (monitor_of H file scope) policies (map (monitor_reserve operation) ms)"
  using assms by (auto simp: list_all2_conv_all_nth list_all_length intro!: monitor_of_reserve)

text \<open>Releasing the key of a send undoes its reservation.\<close>

lemma released_reserve:
  assumes "monitor_of H file scope policy m" "send_key operation = Some key"
  shows "releasable (Some (snd key)) (monitor_reserve operation m) \<and> released (Some (snd key)) (monitor_reserve operation m) = m"
  using assms by (cases policy) (auto simp: releasable_def released_def monitor_reserve_def monitor_of_def is_guard_def)

lemma restore_release_checkpoint:
  assumes "list_all2 (monitor_of H file scope) policies ms" "length policies \<le> 64" "list_ex is_guard policies"
    and "list_all (monitor_allows operation) ms" "send_key operation = Some key" "fst key = scope"
    and "checkpoint H file scope (map (monitor_reserve operation) ms) (Some (snd key)) = Inr bs"
  shows "restore H file scope policies bs = Inr ms"
  unfolding restore_iff
proof (intro conjI exI [of _ "Some (snd key)"] exI [of _ "map (monitor_reserve operation) ms"])
  have m: "list_all2 (monitor_of H file scope) policies (map (monitor_reserve operation) ms)"
    using monitors_reserve [OF assms(1,4)] assms(5,6) by simp
  have r: "releasable (Some (snd key)) (monitor_reserve operation m) \<and> released (Some (snd key)) (monitor_reserve operation m) = m"
    if "m \<in> set ms" for m
    using that assms(1) released_reserve [OF _ assms(5)] by (auto simp: list_all2_conv_all_nth in_set_conv_nth)
  show "writable H file scope (Some (snd key)) policies (map (monitor_reserve operation) ms)"
    using m r by (auto simp: writable_def list_all2_conv_all_nth)
  show "ms = map (released (Some (snd key))) (map (monitor_reserve operation) ms)" using r by (simp add: map_idI)
qed (use assms in simp_all)


subsection \<open>The contract of the store of checkpoints\<close>

text \<open>What the trait promises: a load changes nothing and returns the current checkpoint; a successful commit has
  replaced exactly the expected bytes; a failed one has either replaced them or done nothing.\<close>

locale atomic_cell =
  fixes S :: "'m StateStore" and cell :: "'m \<Rightarrow> bytes option"
  assumes load_cell: "ss_load S m = (loaded, m') \<Longrightarrow> cell m' = cell m \<and> (\<forall>bs. loaded = Inr bs \<longrightarrow> cell m = Some bs)"
    and commit_cell: "ss_commit S m old new = (Inr u, m') \<Longrightarrow> cell m = Some old \<and> cell m' = Some new"
    and commit_failed: "ss_commit S m old new = (Inl e, m') \<Longrightarrow> cell m' = cell m \<or> cell m = Some old \<and> cell m' = Some new"

subsection \<open>A system of relays over one store\<close>

text \<open>Relays are opened over the store, as after a restart or beside each other, and each call finds the
  store as the last one left it.  A relay that is not called again has crashed.\<close>

record ('m, 's) RelaySystem =
  sy_store :: 'm
  sy_relays :: "'m Relay list"
  sy_terminal :: "'s \<times> TerminalLog"

datatype RelayEvent = RV_Open Manifest | RV_Handle nat Binding Operation

definition relay_event ::
    "hasher \<Rightarrow> (string \<Rightarrow> bytes) \<Rightarrow> 'm StateStore \<Rightarrow> 's Terminal \<Rightarrow> hash32 \<Rightarrow> Policy list \<Rightarrow> ('m, 's) RelaySystem \<Rightarrow> RelayEvent \<Rightarrow>
      ('m, 's) RelaySystem" where
  "relay_event H file S T scope policies sys event =
     (case event of
       RV_Open manifest \<Rightarrow>
         (case relay_open H file S (sy_store sys) scope policies manifest of
           Inl _ \<Rightarrow> sys\<lparr>sy_store := snd (ss_load S (sy_store sys))\<rparr>
         | Inr r \<Rightarrow> sys\<lparr>sy_store := rl_store r, sy_relays := sy_relays sys @ [r]\<rparr>)
     | RV_Handle i b operation \<Rightarrow>
         (case slice_get (sy_relays sys) i of
           None \<Rightarrow> sys
         | Some r \<Rightarrow>
             (let (result, r, t) = relay_handle H file S (logged_terminal T) (r\<lparr>rl_store := sy_store sys\<rparr>) (sy_terminal sys) b operation
              in sys\<lparr>sy_store := rl_store r, sy_relays := (sy_relays sys)[i := r], sy_terminal := t\<rparr>)))"

text \<open>The keys that restoring a checkpoint would find reserved.\<close>

definition durable_keys :: "hasher \<Rightarrow> (string \<Rightarrow> bytes) \<Rightarrow> hash32 \<Rightarrow> Policy list \<Rightarrow> bytes option \<Rightarrow> EffectKey set" where
  "durable_keys H file scope policies stored =
     (case stored of None \<Rightarrow> {} | Some bs \<Rightarrow> (case restore H file scope policies bs of Inl _ \<Rightarrow> {} | Inr ms \<Rightarrow> reserved_keys ms))"

definition relay_ok :: "hasher \<Rightarrow> (string \<Rightarrow> bytes) \<Rightarrow> hash32 \<Rightarrow> Policy list \<Rightarrow> 'm Relay \<Rightarrow> bool" where
  "relay_ok H file scope policies r \<longleftrightarrow>
     rl_scope r = scope \<and> (\<not> rl_stopped r \<longrightarrow> restore H file scope policies (rl_stored r) = Inr (rl_monitors r))"

definition restorable :: "hasher \<Rightarrow> (string \<Rightarrow> bytes) \<Rightarrow> hash32 \<Rightarrow> Policy list \<Rightarrow> bytes option \<Rightarrow> bool" where
  "restorable H file scope policies stored \<longleftrightarrow> (\<exists>bs ms. stored = Some bs \<and> restore H file scope policies bs = Inr ms)"

definition system_ok :: "hasher \<Rightarrow> (string \<Rightarrow> bytes) \<Rightarrow> hash32 \<Rightarrow> Policy list \<Rightarrow> ('m \<Rightarrow> bytes option) \<Rightarrow> ('m, 's) RelaySystem \<Rightarrow> bool" where
  "system_ok H file scope policies cell sys \<longleftrightarrow>
     restorable H file scope policies (cell (sy_store sys)) \<and> list_all (relay_ok H file scope policies) (sy_relays sys)"

text \<open>The outcome of one call: what it did to the cell, to its relay and to the log.\<close>

definition call_ok ::
    "hasher \<Rightarrow> (string \<Rightarrow> bytes) \<Rightarrow> hash32 \<Rightarrow> Policy list \<Rightarrow> bytes option \<Rightarrow> TerminalLog \<Rightarrow> 'm Relay \<Rightarrow> bytes option \<Rightarrow> TerminalLog \<Rightarrow> bool" where
  "call_ok H file scope policies before log r after log' \<longleftrightarrow>
     relay_ok H file scope policies r \<and> restorable H file scope policies after
     \<and> durable_keys H file scope policies before \<subseteq> durable_keys H file scope policies after
     \<and> (invoked_keys log' = invoked_keys log
        \<or> (\<exists>key. key \<notin> durable_keys H file scope policies before \<and> key \<in> durable_keys H file scope policies after
             \<and> invoked_keys log' = invoked_keys log @ [key]))"


lemma relay_append_simps [simp]:
  "rl_store (relay_append H b operation check handled r) = rl_store r"
  "rl_scope (relay_append H b operation check handled r) = rl_scope r"
  "rl_monitors (relay_append H b operation check handled r) = rl_monitors r"
  "rl_stored (relay_append H b operation check handled r) = rl_stored r"
  "rl_stopped (relay_append H b operation check handled r) = rl_stopped r"
  by (simp_all add: relay_append_def split: option.split)

lemma relay_ok_append [simp]: "relay_ok H file scope policies (relay_append H b operation check handled r) = relay_ok H file scope policies r"
  by (simp add: relay_ok_def)

lemma durable_keys_restored: "restore H file scope policies bs = Inr ms \<Longrightarrow> durable_keys H file scope policies (Some bs) = reserved_keys ms"
  by (simp add: durable_keys_def)

lemma relay_stopped_ok: "rl_stopped r \<Longrightarrow> rl_scope r = scope \<Longrightarrow> relay_ok H file scope policies r"
  by (simp add: relay_ok_def)

text \<open>After the guards of the call: a reservation that is written ahead, the terminal, and the settlement.\<close>

definition relay_forward ::
    "hasher \<Rightarrow> (string \<Rightarrow> bytes) \<Rightarrow> 'm StateStore \<Rightarrow> 's Terminal \<Rightarrow> Monitor list \<Rightarrow> Check \<Rightarrow> 'm Relay \<Rightarrow> 's \<Rightarrow> Binding \<Rightarrow> Operation \<Rightarrow>
      (DurableError + Handled) \<times> 'm Relay \<times> 's" where
  "relay_forward H file S T next_monitors check r s b operation =
     (let previous = rl_monitors r; r = r\<lparr>rl_stopped := True\<rparr>;
          (reserved, r) = (case operation of Op_Send _ _ \<Rightarrow> relay_commit H file S r next_monitors None | _ \<Rightarrow> (Ok (), r))
      in case reserved of
        Inl e \<Rightarrow> (Err e, r, s)
      | Inr _ \<Rightarrow>
          (let r = r\<lparr>rl_monitors := next_monitors\<rparr>; (report, s) = tm_handle T s b operation;
               (settled, r) = relay_settle H file S r previous operation report
           in case settled of
             Inl e \<Rightarrow> (Err e, r, s)
           | Inr _ \<Rightarrow>
               (Ok (hd_outcome report),
                relay_append H b operation check (hd_outcome report) (r\<lparr>rl_stopped := (hd_outcome report = H_Crash)\<rparr>), s)))"

lemma relay_handle_cases:
  assumes "relay_handle H file S T r s b operation = (result, r', s')"
  obtains (refused) handled check where "s' = s" "r' = r \<or> r' = relay_append H b operation check handled r"
  | (forwarded) next_monitors check where "\<not> rl_stopped r" "binding_of (bd_id b) operation = b"
      "\<And>store. operation_store operation = Some store \<Longrightarrow> st_identity store = rl_scope r"
      "policy_admit (rl_monitors r) operation = (next_monitors, check)" "check_rejection check = None"
      "relay_forward H file S T next_monitors check r s b operation = (result, r', s')"
proof (cases "rl_stopped r \<or> binding_of (bd_id b) operation \<noteq> b
    \<or> (case operation_store operation of Some store \<Rightarrow> st_identity store \<noteq> rl_scope r | None \<Rightarrow> False)")
  case True
  with assms have "s' = s" "r' = r" by (auto simp: relay_handle_def split: if_splits)
  then show ?thesis using refused by blast
next
  case False
  obtain ms check where a: "policy_admit (rl_monitors r) operation = (ms, check)" by fastforce
  show ?thesis
  proof (cases "check_rejection check")
    case None
    with False a assms show ?thesis
      by (intro forwarded [of ms check]) (auto simp: relay_handle_def relay_forward_def Let_def split: if_splits)
  next
    case (Some code)
    with False a assms have "s' = s" "r' = relay_append H b operation check (H_Answer (R_Send (S_Refused code))) r"
      by (auto simp: relay_handle_def Let_def split: if_splits)
    then show ?thesis using refused by blast
  qed
qed

context atomic_cell
begin

lemma commit_cases:
  assumes "relay_commit H file S r ms release = (result, r')"
  obtains (failed) e m' where "result = Inl e" "r' = r\<lparr>rl_store := m'\<rparr>"
      "cell m' = cell (rl_store r) \<or> (\<exists>bs. checkpoint H file (rl_scope r) ms release = Inr bs \<and> cell (rl_store r) = Some (rl_stored r) \<and> cell m' = Some bs)"
  | (written) bs m' where "result = Inr ()" "r' = r\<lparr>rl_store := m', rl_stored := bs\<rparr>"
      "checkpoint H file (rl_scope r) ms release = Inr bs" "cell (rl_store r) = Some (rl_stored r)" "cell m' = Some bs"
proof (cases "checkpoint H file (rl_scope r) ms release")
  case (Inl e)
  with assms show ?thesis by (intro failed [of e "rl_store r"]) (auto simp: relay_commit_def)
next
  case (Inr bs)
  obtain res m' where c: "ss_commit S (rl_store r) (rl_stored r) bs = (res, m')" by fastforce
  show ?thesis
  proof (cases res)
    case (Inl e)
    with c commit_failed [of "rl_store r" "rl_stored r" bs e m'] assms Inr show ?thesis
      by (intro failed [of e m']) (auto simp: relay_commit_def)
  next
    case (Inr u)
    with c commit_cell [of "rl_store r" "rl_stored r" bs u m'] assms \<open>checkpoint H file (rl_scope r) ms release = Inr bs\<close> show ?thesis
      by (intro written [of bs m']) (auto simp: relay_commit_def)
  qed
qed

lemma forward_ok:
  assumes r: "relay_ok H file scope policies r" "\<not> rl_stopped r" and before: "restorable H file scope policies (cell (rl_store r))"
    and store: "\<And>store. operation_store operation = Some store \<Longrightarrow> st_identity store = rl_scope r"
    and admit: "policy_admit (rl_monitors r) operation = (ms', check)" "check_rejection check = None"
    and fwd: "relay_forward H file S (logged_terminal T) ms' check r (s, log) b operation = (result, r', s', log')"
  shows "call_ok H file scope policies (cell (rl_store r)) log r' (cell (rl_store r')) log'"
proof -
  let ?ms = "rl_monitors r"
  from r have rs: "rl_scope r = scope" "restore H file scope policies (rl_stored r) = Inr ?ms" by (auto simp: relay_ok_def)
  note ms = restored_monitors [OF rs(2)]
  have allowed: "list_all (monitor_allows operation) ?ms" and ms': "ms' = map (monitor_reserve operation) ?ms"
    using policy_admit_exact [OF admit(1)] admit(2) by auto
  obtain report s1 where t: "tm_handle T s b operation = (report, s1)" by fastforce
  show ?thesis
  proof (cases "send_key operation")
    case None
    then have "ms' = ?ms" by (simp add: ms' monitor_reserve_no_send map_idI)
    moreover have "\<nexists>store delivery. operation = Op_Send store delivery" using None by (auto simp: send_key_def)
    ultimately show ?thesis using fwd t rs before None
      by (cases operation) (auto simp: relay_forward_def Let_def relay_settle_def logged_terminal_def call_ok_def relay_ok_def split: if_splits)
  next
    case (Some key)
    then obtain st d where op: "operation = Op_Send st d" "key = (scope, dl_id d)"
      using store rs by (auto simp: send_key_def operation_store_def split: Operation.splits)
    have scope: "\<And>key. send_key operation = Some key \<Longrightarrow> fst key = scope" using Some op by simp
    note reserve = monitors_reserve [OF ms(1) allowed scope]
    have fresh: "key \<notin> reserved_keys ?ms" using allowed_key_fresh [OF allowed Some] .
    have guard: "list_ex (is_guard \<circ> mo_policy) ?ms"
      using guard_present [OF ms(1,3)] .
    have keys': "reserved_keys ms' = insert key (reserved_keys ?ms)"
      using reserved_keys_reserve [OF guard, of operation] Some by (simp add: ms')
    have res_none: "restore H file scope policies bs = Inr ms'" if "checkpoint H file scope ms' None = Inr bs" for bs
      using restore_checkpoint [OF reserve ms(2,3)] that ms' by simp
    have res_some: "restore H file scope policies bs = Inr ?ms" if "checkpoint H file scope ms' (Some (dl_id d)) = Inr bs" for bs
      using restore_release_checkpoint [OF ms allowed Some, of bs] that op ms' by simp
    let ?r = "r\<lparr>rl_stopped := True\<rparr>"
    obtain reserved r1 where c: "relay_commit H file S ?r ms' None = (reserved, r1)" by fastforce
    then show ?thesis
    proof (cases rule: commit_cases)
      case (failed e m')
      with fwd op c have f: "r' = ?r\<lparr>rl_store := m'\<rparr>" "log' = log" by (auto simp: relay_forward_def Let_def)
      from failed(3) show ?thesis
      proof
        assume "cell m' = cell (rl_store ?r)"
        with f before rs show ?thesis by (simp add: call_ok_def relay_ok_def)
      next
        assume "\<exists>bs. checkpoint H file (rl_scope ?r) ms' None = Inr bs \<and> cell (rl_store ?r) = Some (rl_stored ?r) \<and> cell m' = Some bs"
        then obtain bs where bs: "checkpoint H file scope ms' None = Inr bs" "cell (rl_store r) = Some (rl_stored r)" "cell m' = Some bs"
          using rs by auto
        with f rs durable_keys_restored [OF res_none [OF bs(1)]] durable_keys_restored [OF rs(2)] keys' show ?thesis
          by (auto simp: call_ok_def relay_ok_def restorable_def res_none)
      qed
    next
      case (written bs m1)
      then have bs: "checkpoint H file scope ms' None = Inr bs" "cell (rl_store r) = Some (rl_stored r)" using rs by auto
      note k = durable_keys_restored [OF res_none [OF bs(1)]] durable_keys_restored [OF rs(2)]
      let ?r2 = "r1\<lparr>rl_monitors := ms'\<rparr>"
      show ?thesis
      proof (cases "may_have_invoked report")
        case True
        with fwd op c written t have "r' = relay_append H b operation check (hd_outcome report) (?r2\<lparr>rl_stopped := (hd_outcome report = H_Crash)\<rparr>)"
          "log' = log @ [(operation, report)]"
          by (auto simp: relay_forward_def Let_def relay_settle_def logged_terminal_def may_have_invoked_def)
        with written bs k keys' fresh True Some rs show ?thesis
          by (cases key) (auto simp: call_ok_def relay_ok_def restorable_def res_none)
      next
        case False
        obtain rel r3 where c3: "relay_commit H file S ?r2 ms' (Some (dl_id d)) = (rel, r3)" by fastforce
        have f: "log' = log @ [(operation, report)]" "r' = (case rel of Inl e \<Rightarrow> r3
            | Inr _ \<Rightarrow> relay_append H b operation check (hd_outcome report) (r3\<lparr>rl_monitors := ?ms, rl_stopped := (hd_outcome report = H_Crash)\<rparr>))"
          using fwd op c written t False c3
          by (auto simp: relay_forward_def Let_def relay_settle_def logged_terminal_def may_have_invoked_def split: sum.splits)
        from c3 show ?thesis
        proof (cases rule: commit_cases)
          case (failed e m')
          then have "cell m' = Some bs \<or> (\<exists>bs'. checkpoint H file scope ms' (Some (dl_id d)) = Inr bs' \<and> cell m' = Some bs')"
            using written rs by auto
          then have "\<exists>z ms. cell m' = Some z \<and> restore H file scope policies z = Inr ms \<and> reserved_keys ?ms \<subseteq> reserved_keys ms"
            using res_none [OF bs(1)] res_some keys' by blast
          with f failed written bs k False Some rs show ?thesis
            by (auto simp: call_ok_def relay_ok_def restorable_def durable_keys_restored)
        next
          case (written bs' m')
          with \<open>r1 = _\<close> rs have bs': "checkpoint H file scope ms' (Some (dl_id d)) = Inr bs'" by auto
          with f written \<open>r1 = _\<close> bs k False Some rs show ?thesis
            by (auto simp: call_ok_def relay_ok_def restorable_def res_some durable_keys_restored [OF res_some [OF bs']])
        qed
      qed
    qed
  qed
qed

lemma handle_ok:
  assumes "relay_ok H file scope policies r" "restorable H file scope policies (cell (rl_store r))"
    and "relay_handle H file S (logged_terminal T) r (s, log) b operation = (result, r', s', log')"
  shows "call_ok H file scope policies (cell (rl_store r)) log r' (cell (rl_store r')) log'"
  using assms(3)
proof (cases rule: relay_handle_cases)
  case refused
  with assms(1,2) show ?thesis by (auto simp: call_ok_def)
next
  case (forwarded ms check)
  show ?thesis by (rule forward_ok [OF assms(1) forwarded(1) assms(2) forwarded(3) forwarded(4-6)])
qed

lemma open_ok:
  assumes "relay_open H file S m scope policies manifest = Inr r"
  shows "relay_ok H file scope policies r" "cell (rl_store r) = cell m" "cell m = Some (rl_stored r)" "\<not> rl_stopped r"
  using assms load_cell [of m "fst (ss_load S m)" "snd (ss_load S m)"]
  by (auto simp: relay_open_def relay_ok_def Let_def prod.case_eq_if split: if_splits)

end


text \<open>Relays over one store keep the reservation discipline, restarts and failed writes included.\<close>

lemma relay_event_ok:
  assumes "atomic_cell S cell" and ok: "system_ok H file scope policies cell sys"
  shows "let sys' = relay_event H file S T scope policies sys event; before = cell (sy_store sys); after = cell (sy_store sys');
      log = snd (sy_terminal sys); log' = snd (sy_terminal sys') in
    system_ok H file scope policies cell sys'
    \<and> durable_keys H file scope policies before \<subseteq> durable_keys H file scope policies after
    \<and> (invoked_keys log' = invoked_keys log
       \<or> (\<exists>key. key \<notin> durable_keys H file scope policies before \<and> key \<in> durable_keys H file scope policies after
            \<and> invoked_keys log' = invoked_keys log @ [key]))"
proof (cases event)
  case (RV_Open manifest)
  show ?thesis
  proof (cases "relay_open H file S (sy_store sys) scope policies manifest")
    case (Inl e)
    with RV_Open ok atomic_cell.load_cell [OF assms(1) surjective_pairing, of "sy_store sys"] show ?thesis
      by (simp add: relay_event_def system_ok_def Let_def)
  next
    case (Inr r)
    with RV_Open ok atomic_cell.open_ok [OF assms(1) Inr] show ?thesis
      by (simp add: relay_event_def system_ok_def Let_def)
  qed
next
  case (RV_Handle i b operation)
  show ?thesis
  proof (cases "i < length (sy_relays sys)")
    case False
    with RV_Handle ok show ?thesis by (simp add: relay_event_def slice_get_def)
  next
    case True
    let ?r = "(sy_relays sys ! i)\<lparr>rl_store := sy_store sys\<rparr>"
    obtain s log where t: "sy_terminal sys = (s, log)" by fastforce
    obtain result r' s' log' where c: "relay_handle H file S (logged_terminal T) ?r (s, log) b operation = (result, r', s', log')"
      by (metis prod_cases4)
    have "relay_ok H file scope policies ?r" "restorable H file scope policies (cell (rl_store ?r))"
      using ok True by (auto simp: system_ok_def relay_ok_def list_all_length)
    from atomic_cell.handle_ok [OF assms(1) this c] have k: "call_ok H file scope policies (cell (sy_store sys)) log r' (cell (rl_store r')) log'" by simp
    have "relay_event H file S T scope policies sys event =
        sys\<lparr>sy_store := rl_store r', sy_relays := (sy_relays sys)[i := r'], sy_terminal := (s', log')\<rparr>"
      using True t c by (simp add: relay_event_def RV_Handle slice_get_def)
    with k ok True t show ?thesis
      by (auto simp: system_ok_def call_ok_def Let_def list_all_length nth_list_update)
  qed
qed

sublocale atomic_cell \<subseteq> relays: reservation "relay_event H src S T scope policies" "system_ok H src scope policies cell"
  "\<lambda>sys. durable_keys H src scope policies (cell (sy_store sys))" "\<lambda>sys. invoked_keys (snd (sy_terminal sys))"
  for H src T scope policies
proof (unfold_locales, goal_cases)
  case (1 sys event)
  from relay_event_ok [OF atomic_cell_axioms 1] show ?case by (simp add: Let_def)
next
  case (2 sys event)
  from relay_event_ok [OF atomic_cell_axioms 2] show ?case by (simp add: Let_def)
next
  case (3 sys event)
  from relay_event_ok [OF atomic_cell_axioms 3] show ?case unfolding Let_def by blast
qed

context atomic_cell
begin

lemma relays_at_most_once:
  assumes "cell (sy_store sys) = Some bs" "restore H file scope policies bs = Inr ms" "sy_relays sys = []"
    and "run_events (relay_event H file S T scope policies) sys events = sys'"
  shows "\<exists>keys bs' ms'. invoked_keys (snd (sy_terminal sys')) = invoked_keys (snd (sy_terminal sys)) @ keys \<and> distinct keys
    \<and> set keys \<inter> reserved_keys ms = {} \<and> cell (sy_store sys') = Some bs' \<and> restore H file scope policies bs' = Inr ms'
    \<and> set keys \<union> reserved_keys ms \<subseteq> reserved_keys ms'"
proof -
  have "system_ok H file scope policies cell sys" using assms(1-3) by (simp add: system_ok_def restorable_def)
  from relays.run_at_most_once [OF this, of T events] obtain keys where
    r: "system_ok H file scope policies cell sys'" and
    k: "invoked_keys (snd (sy_terminal sys')) = invoked_keys (snd (sy_terminal sys)) @ keys" "distinct keys"
      "set keys \<inter> durable_keys H file scope policies (cell (sy_store sys)) = {}"
      "set keys \<subseteq> durable_keys H file scope policies (cell (sy_store sys'))"
      "durable_keys H file scope policies (cell (sy_store sys)) \<subseteq> durable_keys H file scope policies (cell (sy_store sys'))"
    unfolding assms(4) by blast
  from r obtain bs' ms' where "cell (sy_store sys') = Some bs'" "restore H file scope policies bs' = Inr ms'"
    by (auto simp: system_ok_def restorable_def)
  with k assms(1,2) show ?thesis by (auto simp: durable_keys_restored)
qed

end

section \<open>Properties\<close>

text \<open>C14: a restored checkpoint is exactly a written one: restoring succeeds on the bytes that writing the monitors of
  the expected policies and scope produces, within the size limit, and on no others, and gives back those monitors; after a
  release, without the last reservation of each guard.\<close>

theorem restore_accepts_exactly_checkpoints:
  "restore H file scope policies bs = Ok ms \<longleftrightarrow>
     length policies \<le> 64 \<and> list_ex is_guard policies
     \<and> (\<exists>release ws. writable H file scope release policies ws \<and> checkpoint H file scope ws release = Ok bs
          \<and> ms = map (released release) ws)"
  by (rule restore_iff)

end
