(* ===== verification/Zeno_Receipt_Laws.thy ===== *)
theory Zeno_Receipt_Laws
  imports Zeno_Receipt Zeno_Plan_Laws
begin

text \<open>
  Receipts and bundles: the strict decoders accept exactly the canonical encodings, sealing binds
  every part of a bundle, and validation accepts exactly what sealing builds.
\<close>

section \<open>Reading\<close>

lemma receipt_put_blob_eq [simp]: "receipt_put_blob = put_blob"
  by (simp add: fun_eq_iff receipt_put_blob_def put_blob_def put_length_def rbind_assoc)

interpretation receipt_cursor: byte_cursor receipt_take
  unfolding receipt_take_def by (rule cursor_take_byte_cursor)

lemma receipt_take_blob_eq: "receipt_take_blob = cursor_blob receipt_take"
proof
  fix c
  have "unat n \<le> u64_max" for n :: u32 using unsigned_less [of n, where ?'a = nat] by simp
  then show "receipt_take_blob c = cursor_blob receipt_take c"
    by (simp add: receipt_take_blob_def cursor_blob_def receipt_take_u32_def try_from_def)
qed

lemma receipt_take_reads:
  assumes "cursor_wf c"
  shows "receipt_take_u8 c = Inr (x, c') \<longleftrightarrow> reads c [x] c' \<and> cursor_wf c'"
    "receipt_take_hash32 c = Inr (h, c') \<longleftrightarrow> reads c (be_bytes 32 h) c' \<and> cursor_wf c'"
    "receipt_take_blob c = Inr (bs, c') \<longleftrightarrow> reads c (blob_bytes bs) c' \<and> cursor_wf c' \<and> length bs \<le> u32_max"
proof -
  show "receipt_take_u8 c = Inr (x, c') \<longleftrightarrow> reads c [x] c' \<and> cursor_wf c'"
    using readsD(3) by (auto simp: receipt_take_u8_def receipt_cursor.take_reads [OF assms] length_Suc_conv)
  show "receipt_take_hash32 c = Inr (h, c') \<longleftrightarrow> reads c (be_bytes 32 h) c' \<and> cursor_wf c'"
    using receipt_cursor.word_reads [OF assms, where 'a = 256] readsD(3) by (auto simp: receipt_take_hash32_def)
  show "receipt_take_blob c = Inr (bs, c') \<longleftrightarrow> reads c (blob_bytes bs) c' \<and> cursor_wf c' \<and> length bs \<le> u32_max"
    using receipt_cursor.blob_reads [OF assms] readsD(3) by (auto simp: receipt_take_blob_eq)
qed

definition bindings_bytes :: "CandidateBindings \<Rightarrow> bytes" where
  "bindings_bytes b = encode_bindings b []"

lemma encode_bindings_eq: "encode_bindings b out = out @ bindings_bytes b"
  by (simp add: encode_bindings_def bindings_bytes_def)

lemma take_bindings_reads:
  assumes "cursor_wf c"
  shows "take_bindings c = Inr (b, c') \<longleftrightarrow> reads c (bindings_bytes b) c' \<and> cursor_wf c'"
proof -
  have "take_bindings c = Inr (b, c') \<longleftrightarrow>
     (\<exists>c1 c2 c3 c4 c5. reads c (be_bytes 32 (cb_profile_hash b)) c1 \<and> reads c1 (be_bytes 32 (cb_command_hash b)) c2
       \<and> reads c2 (be_bytes 32 (cb_context_hash b)) c3 \<and> reads c3 (be_bytes 32 (cb_precedence_hash b)) c4
       \<and> reads c4 (be_bytes 32 (cb_algorithm_hash b)) c5 \<and> reads c5 (be_bytes 32 (cb_budget_hash b)) c')"
    using assms by (cases b) (auto simp: take_bindings_def receipt_take_reads cong: conj_cong; blast dest: readsD(3))
  also have "\<dots> \<longleftrightarrow> reads c (bindings_bytes b) c' \<and> cursor_wf c'"
    unfolding bindings_bytes_def encode_bindings_def append_Nil reads_append using readsD(3) by blast
  finally show ?thesis .
qed

lemma ensure_consumed_Ok: "ensure_consumed c = Inr u \<longleftrightarrow> cursor_remaining c = 0"
  by (simp add: ensure_consumed_def)

lemma ensure_canonical_Ok: "ensure_canonical bs r = Inr u \<longleftrightarrow> r = Inr bs"
  by (cases r) (auto simp: ensure_canonical_def)

lemma receipt_enforce_limit_Ok:
  assumes "limit \<le> u64_max"
  shows "receipt_enforce_input_limit bs limit = Inr u \<longleftrightarrow> length bs \<le> limit"
    "enforce_component_limit part bs limit = Inr u \<longleftrightarrow> length bs \<le> limit"
  using assms by (auto simp: receipt_enforce_input_limit_def enforce_component_limit_def split: if_splits)

lemma decode_decision_Ok: "decode_decision tag = Inr k \<longleftrightarrow> tag = decision_tag k"
  by (cases k) (auto simp: decode_decision_def)

lemma decode_reason_Ok: "decode_reason bs = Inr r \<longleftrightarrow> r = bs \<and> is_ascii bs"
  using is_ascii_utf8_valid by (auto simp: decode_reason_def)

section \<open>Candidate bodies\<close>

fun reason_valid :: "DecisionKind \<Rightarrow> bytes option \<Rightarrow> bool" where
  "reason_valid Accept reason \<longleftrightarrow> reason = None"
| "reason_valid Reject reason \<longleftrightarrow> False"
| "reason_valid CommittedFailure reason \<longleftrightarrow>
     (\<exists>r. reason = Some r \<and> is_ascii r \<and> length r \<le> MAX_REASON_CODE_BYTES)"

lemma ascii_text_try_from_Ok:
  "ascii_text_try_from n bs = Inr r \<longleftrightarrow> r = bs \<and> is_ascii bs \<and> length bs \<le> n"
  by (auto simp: ascii_text_try_from_def Let_def split: if_splits)

lemma validate_decision_reason_Ok:
  "validate_decision_reason kind reason = Inr rc \<longleftrightarrow> rc = reason \<and> reason_valid kind reason"
  by (cases "(kind, reason)" rule: validate_decision_reason.cases) (auto simp: ascii_text_try_from_Ok)

definition reason_bytes :: "bytes option \<Rightarrow> bytes" where
  "reason_bytes reason = (case reason of None \<Rightarrow> [0] | Some r \<Rightarrow> 1 # blob_bytes r)"

definition body_bytes :: "CandidateBody \<Rightarrow> bytes" where
  "body_bytes b = decision_tag (body_decision_kind b) # reason_bytes (body_reason_code b)
     @ bindings_bytes (body_bindings b) @ be_bytes 32 (body_pre_root b) @ be_bytes 32 (body_post_root b)
     @ be_bytes 32 (body_patch_hash b) @ be_bytes 32 (body_commit_plan_hash b)
     @ be_bytes 32 (body_outbox_plan_hash b)"

lemma body_bytes_cons:
  "body_bytes b = [decision_tag (body_decision_kind b)] @ reason_bytes (body_reason_code b)
     @ bindings_bytes (body_bindings b) @ be_bytes 32 (body_pre_root b) @ be_bytes 32 (body_post_root b)
     @ be_bytes 32 (body_patch_hash b) @ be_bytes 32 (body_commit_plan_hash b)
     @ be_bytes 32 (body_outbox_plan_hash b)"
  by (simp add: body_bytes_def)

definition body_valid :: "CandidateBody \<Rightarrow> bool" where
  "body_valid b \<longleftrightarrow> reason_valid (body_decision_kind b) (body_reason_code b)"

lemma reason_valid_short:
  "reason_valid kind reason \<Longrightarrow> reason = Some r \<Longrightarrow> is_ascii r \<and> length r \<le> 96"
  by (cases kind) (auto simp: MAX_REASON_CODE_BYTES_def)

lemma body_canonical_bytes_Ok:
  "body_canonical_bytes b = Inr bs \<longleftrightarrow>
     (\<forall>r\<in>set_option (body_reason_code b). length r \<le> u32_max) \<and> bs = body_bytes b"
  by (auto simp: body_canonical_bytes_def body_encode_to_def Let_def put_blob_Ok encode_bindings_eq body_bytes_def
      reason_bytes_def split: option.splits)


lemma take_reason_reads:
  assumes "cursor_wf c"
  shows "take_reason c = Inr (reason, c') \<longleftrightarrow> reads c (reason_bytes reason) c' \<and> cursor_wf c'
      \<and> (\<forall>r\<in>set_option reason. is_ascii r \<and> length r \<le> u32_max)"
proof (cases reason)
  case None
  then show ?thesis using assms
    by (auto simp: take_reason_def receipt_take_reads reason_bytes_def split: if_splits cong: conj_cong)
next
  case (Some r)
  have "(\<exists>c1. reads c [1] c1 \<and> cursor_wf c1 \<and> reads c1 (blob_bytes r) c') \<longleftrightarrow> reads c (1 # blob_bytes r) c'"
    using reads_append [of c "[1]" "blob_bytes r" c'] readsD(3) by auto
  then show ?thesis using assms Some readsD(3)
    by (auto simp: take_reason_def receipt_take_reads reason_bytes_def decode_reason_Ok split: if_splits cong: conj_cong)
qed

lemma decode_candidate_body_iff:
  assumes "length bs \<le> usize_max"
  shows "decode_candidate_body bs = Inr b \<longleftrightarrow> bs = body_bytes b \<and> body_valid b"
proof
  assume "decode_candidate_body bs = Inr b"
  then have "body_canonical_bytes b = Inr bs" "body_valid b"
    by (auto simp: decode_candidate_body_def Let_def validate_decision_reason_Ok body_valid_def ensure_canonical_Ok)
  then show "bs = body_bytes b \<and> body_valid b" by (simp add: body_canonical_bytes_Ok)
next
  assume b: "bs = body_bytes b \<and> body_valid b"
  then have short: "\<forall>r\<in>set_option (body_reason_code b). is_ascii r \<and> length r \<le> u32_max"
    using reason_valid_short by (fastforce simp: body_valid_def)
  have wf: "cursor_wf (cursor_new bs)" using assms by simp
  from b assms obtain c1 c2 c3 c4 c5 c6 c7 c8 where r: "reads (cursor_new bs) [decision_tag (body_decision_kind b)] c1"
      "reads c1 (reason_bytes (body_reason_code b)) c2" "reads c2 (bindings_bytes (body_bindings b)) c3"
      "reads c3 (be_bytes 32 (body_pre_root b)) c4" "reads c4 (be_bytes 32 (body_post_root b)) c5"
      "reads c5 (be_bytes 32 (body_patch_hash b)) c6" "reads c6 (be_bytes 32 (body_commit_plan_hash b)) c7"
      "reads c7 (be_bytes 32 (body_outbox_plan_hash b)) c8" "cursor_remaining c8 = 0"
    using reads_consumed [of bs "body_bytes b"] unfolding body_bytes_cons reads_append by blast
  have c: "cursor_wf c1" "cursor_wf c2" "cursor_wf c3" "cursor_wf c4" "cursor_wf c5" "cursor_wf c6" "cursor_wf c7"
      "cursor_wf c8"
    using r readsD(3) by blast+
  have takes: "receipt_take_u8 (cursor_new bs) = Inr (decision_tag (body_decision_kind b), c1)"
      "take_reason c1 = Inr (body_reason_code b, c2)" "take_bindings c2 = Inr (body_bindings b, c3)"
      "receipt_take_hash32 c3 = Inr (body_pre_root b, c4)" "receipt_take_hash32 c4 = Inr (body_post_root b, c5)"
      "receipt_take_hash32 c5 = Inr (body_patch_hash b, c6)" "receipt_take_hash32 c6 = Inr (body_commit_plan_hash b, c7)"
      "receipt_take_hash32 c7 = Inr (body_outbox_plan_hash b, c8)"
    using r c wf short by (simp_all add: receipt_take_reads take_reason_reads take_bindings_reads)
  have checks: "decode_decision (decision_tag (body_decision_kind b)) = Inr (body_decision_kind b)"
      "validate_decision_reason (body_decision_kind b) (body_reason_code b) = Inr (body_reason_code b)"
      "ensure_consumed c8 = Inr ()" "ensure_canonical bs (body_canonical_bytes b) = Inr ()"
    using b short r(9) by (simp_all add: decode_decision_Ok validate_decision_reason_Ok body_valid_def
        ensure_consumed_Ok ensure_canonical_Ok body_canonical_bytes_Ok)
  have eta: "\<lparr>body_decision_kind = body_decision_kind b, body_reason_code = body_reason_code b,
      body_bindings = body_bindings b, body_pre_root = body_pre_root b, body_post_root = body_post_root b,
      body_patch_hash = body_patch_hash b, body_commit_plan_hash = body_commit_plan_hash b,
      body_outbox_plan_hash = body_outbox_plan_hash b\<rparr> = b" by simp
  show "decode_candidate_body bs = Inr b"
    by (simp add: decode_candidate_body_def takes checks Let_def eta)
qed


section \<open>Receipts\<close>

definition receipt_limits_in_range :: "ReceiptDecodeLimits \<Rightarrow> bool" where
  "receipt_limits_in_range L \<longleftrightarrow> rl_max_input_bytes L \<le> u64_max \<and> rl_max_body_bytes L \<le> u64_max"

definition receipt_valid :: "hasher \<Rightarrow> ReceiptDecodeLimits \<Rightarrow> Receipt \<Rightarrow> bool" where
  "receipt_valid H L r \<longleftrightarrow> body_valid (rc_body r) \<and> length (body_bytes (rc_body r)) \<le> rl_max_body_bytes L
     \<and> hash_component H CANDIDATE (body_canonical_bytes (rc_body r)) = Inr (rc_candidate_id r)"

lemma receipt_canonical_bytes_Ok:
  assumes "body_valid (rc_body r)"
  shows "receipt_canonical_bytes r = Inr bs \<longleftrightarrow> length (body_bytes (rc_body r)) \<le> u32_max
    \<and> bs = be_bytes 32 (rc_candidate_id r) @ blob_bytes (body_bytes (rc_body r))"
proof -
  have "\<forall>x\<in>set_option (body_reason_code (rc_body r)). length x \<le> u32_max"
    using assms reason_valid_short by (fastforce simp: body_valid_def)
  then show ?thesis
    by (auto simp: receipt_canonical_bytes_def receipt_encode_to_def Let_def body_canonical_bytes_Ok put_blob_Ok)
qed

lemma decode_receipt_iff:
  assumes L: "receipt_limits_in_range L"
  shows "decode_receipt H bs L = Inr r \<longleftrightarrow>
    receipt_valid H L r \<and> receipt_canonical_bytes r = Inr bs \<and> length bs \<le> rl_max_input_bytes L"
proof -
  note limits = L [unfolded receipt_limits_in_range_def]
  have wf: "length bs \<le> rl_max_input_bytes L \<Longrightarrow> cursor_wf (cursor_new bs)" using limits by simp
  have short: "x \<in> set_option (body_reason_code b) \<Longrightarrow> body_valid b \<Longrightarrow> length x \<le> u32_max" for b x
    using reason_valid_short by (fastforce simp: body_valid_def)
  show ?thesis
  proof
    assume "decode_receipt H bs L = Inr r"
    then show "receipt_valid H L r \<and> receipt_canonical_bytes r = Inr bs \<and> length bs \<le> rl_max_input_bytes L"
      using wf limits by (auto simp: decode_receipt_def Let_def receipt_enforce_limit_Ok receipt_take_reads
          decode_candidate_body_iff ensure_canonical_Ok receipt_valid_def if_Err_Ok cong: conj_cong)
  next
    assume r: "receipt_valid H L r \<and> receipt_canonical_bytes r = Inr bs \<and> length bs \<le> rl_max_input_bytes L"
    then have body: "body_valid (rc_body r)" and bs: "length (body_bytes (rc_body r)) \<le> u32_max"
        "bs = be_bytes 32 (rc_candidate_id r) @ blob_bytes (body_bytes (rc_body r))"
      by (auto simp: receipt_valid_def receipt_canonical_bytes_Ok)
    from bs r limits obtain c1 c2 where c: "reads (cursor_new bs) (be_bytes 32 (rc_candidate_id r)) c1"
        "reads c1 (blob_bytes (body_bytes (rc_body r))) c2" "cursor_remaining c2 = 0"
      using reads_consumed [of bs bs] unfolding reads_append by (auto simp: reads_append)
    have takes: "receipt_take_hash32 (cursor_new bs) = Inr (rc_candidate_id r, c1)"
        "receipt_take_blob c1 = Inr (body_bytes (rc_body r), c2)"
      using wf r c bs(1) readsD(3) [OF c(1)] readsD(3) [OF c(2)] by (auto simp: receipt_take_reads)
    have "decode_candidate_body (body_bytes (rc_body r)) = Inr (rc_body r)"
      using bs(1) body by (simp add: decode_candidate_body_iff)
    moreover have eta: "\<lparr>rc_candidate_id = rc_candidate_id r, rc_body = rc_body r\<rparr> = r" by simp
    ultimately show "decode_receipt H bs L = Inr r" using takes r c(3) limits
      by (simp add: decode_receipt_def receipt_enforce_limit_Ok ensure_consumed_Ok Let_def receipt_valid_def
          ensure_canonical_Ok eta)
  qed
qed

definition reject_receipt_valid :: "RejectReceipt \<Rightarrow> bool" where
  "reject_receipt_valid r \<longleftrightarrow> is_ascii (rr_reason_code r) \<and> length (rr_reason_code r) \<le> MAX_REASON_CODE_BYTES"

lemma reject_receipt_canonical_bytes_Ok:
  "reject_receipt_canonical_bytes r = Inr bs \<longleftrightarrow> length (rr_reason_code r) \<le> u32_max
    \<and> bs = bindings_bytes (rr_bindings r) @ be_bytes 32 (rr_pre_root r) @ blob_bytes (rr_reason_code r)"
  by (auto simp: reject_receipt_canonical_bytes_def reject_receipt_encode_to_def put_blob_Ok encode_bindings_eq)

lemma reject_receipt_new_Ok:
  "reject_receipt_new b h reason = Inr r \<longleftrightarrow> reject_receipt_valid r
     \<and> r = \<lparr>rr_bindings = b, rr_pre_root = h, rr_reason_code = reason\<rparr>"
  by (auto simp: reject_receipt_new_def ascii_text_try_from_Ok reject_receipt_valid_def)

lemma decode_reject_receipt_iff:
  assumes L: "receipt_limits_in_range L"
  shows "decode_reject_receipt bs L = Inr r \<longleftrightarrow> reject_receipt_valid r
    \<and> reject_receipt_canonical_bytes r = Inr bs \<and> length bs \<le> rl_max_input_bytes L"
proof
  assume "decode_reject_receipt bs L = Inr r"
  then show "reject_receipt_valid r \<and> reject_receipt_canonical_bytes r = Inr bs \<and> length bs \<le> rl_max_input_bytes L"
    using L by (auto simp: decode_reject_receipt_def receipt_enforce_limit_Ok receipt_limits_in_range_def
        reject_receipt_new_Ok ensure_canonical_Ok)
next
  assume r: "reject_receipt_valid r \<and> reject_receipt_canonical_bytes r = Inr bs \<and> length bs \<le> rl_max_input_bytes L"
  then have len: "length bs \<le> usize_max" using L by (simp add: receipt_limits_in_range_def)
  from r len obtain c1 c2 c3 where c: "reads (cursor_new bs) (bindings_bytes (rr_bindings r)) c1"
      "reads c1 (be_bytes 32 (rr_pre_root r)) c2" "reads c2 (blob_bytes (rr_reason_code r)) c3" "cursor_remaining c3 = 0"
    using reads_consumed [of bs bs] by (auto simp: reject_receipt_canonical_bytes_Ok reads_append)
  have takes: "take_bindings (cursor_new bs) = Inr (rr_bindings r, c1)"
      "receipt_take_hash32 c1 = Inr (rr_pre_root r, c2)" "receipt_take_blob c2 = Inr (rr_reason_code r, c3)"
    using len r c readsD(3) [OF c(1)] readsD(3) [OF c(2)] readsD(3) [OF c(3)]
    by (auto simp: take_bindings_reads receipt_take_reads reject_receipt_canonical_bytes_Ok)
  have "decode_reason (rr_reason_code r) = Inr (rr_reason_code r)"
      "reject_receipt_new (rr_bindings r) (rr_pre_root r) (rr_reason_code r) = Inr r"
    using r by (simp_all add: decode_reason_Ok reject_receipt_valid_def reject_receipt_new_Ok)
  with takes r c(4) L show "decode_reject_receipt bs L = Inr r"
    by (simp add: decode_reject_receipt_def receipt_enforce_limit_Ok receipt_limits_in_range_def
        ensure_consumed_Ok ensure_canonical_Ok)
qed

section \<open>Sealing\<close>

text \<open>What a sealed bundle says of its parts.\<close>

definition bundle_binds :: "hasher \<Rightarrow> Value \<Rightarrow> Domain \<Rightarrow> CommitBundle \<Rightarrow> AppliedPatch \<Rightarrow> bool" where
  "bundle_binds H v d b a \<longleftrightarrow> body_valid (cbn_body b) \<and> patch_apply H (cbn_patch b) v d = Inr a
     \<and> body_pre_root (cbn_body b) = cp_expected_pre_root (cbn_patch b)
     \<and> body_post_root (cbn_body b) = ap_post_root a
     \<and> hash_component H PATCH (patch_canonical_bytes (cbn_patch b)) = Inr (body_patch_hash (cbn_body b))
     \<and> hash_component H COMMIT_PLAN (commit_plan_canonical_bytes (cbn_commit_plan b)) = Inr (body_commit_plan_hash (cbn_body b))
     \<and> hash_component H OUTBOX_PLAN (outbox_plan_canonical_bytes (cbn_outbox_plan b)) = Inr (body_outbox_plan_hash (cbn_body b))
     \<and> hash_component H CANDIDATE (body_canonical_bytes (cbn_body b)) = Inr (cbn_candidate_id b)
     \<and> cbn_receipt b = \<lparr>rc_candidate_id = cbn_candidate_id b, rc_body = cbn_body b\<rparr>"

lemma seal_Ok:
  "seal H v d kind reason bindings p cp op = Inr b \<longleftrightarrow> (\<exists>a. bundle_binds H v d b a)
     \<and> body_decision_kind (cbn_body b) = kind \<and> body_reason_code (cbn_body b) = reason
     \<and> body_bindings (cbn_body b) = bindings \<and> cbn_patch b = p \<and> cbn_commit_plan b = cp \<and> cbn_outbox_plan b = op"
proof
  assume "seal H v d kind reason bindings p cp op = Inr b"
  then show "(\<exists>a. bundle_binds H v d b a)
     \<and> body_decision_kind (cbn_body b) = kind \<and> body_reason_code (cbn_body b) = reason
     \<and> body_bindings (cbn_body b) = bindings \<and> cbn_patch b = p \<and> cbn_commit_plan b = cp \<and> cbn_outbox_plan b = op"
    by (auto simp: seal_def validate_decision_reason_Ok Let_def bundle_binds_def body_valid_def)
next
  assume b: "(\<exists>a. bundle_binds H v d b a)
     \<and> body_decision_kind (cbn_body b) = kind \<and> body_reason_code (cbn_body b) = reason
     \<and> body_bindings (cbn_body b) = bindings \<and> cbn_patch b = p \<and> cbn_commit_plan b = cp \<and> cbn_outbox_plan b = op"
  then obtain a where a: "bundle_binds H v d b a" by blast
  let ?body = "cbn_body b"
  from a have eta: "\<lparr>body_decision_kind = body_decision_kind ?body, body_reason_code = body_reason_code ?body,
      body_bindings = body_bindings ?body, body_pre_root = cp_expected_pre_root (cbn_patch b),
      body_post_root = ap_post_root a, body_patch_hash = body_patch_hash ?body,
      body_commit_plan_hash = body_commit_plan_hash ?body, body_outbox_plan_hash = body_outbox_plan_hash ?body\<rparr> = ?body"
    by (simp add: bundle_binds_def)
  from a have etab: "\<lparr>cbn_candidate_id = cbn_candidate_id b, cbn_body = ?body, cbn_patch = cbn_patch b,
      cbn_commit_plan = cbn_commit_plan b, cbn_outbox_plan = cbn_outbox_plan b,
      cbn_receipt = \<lparr>rc_candidate_id = cbn_candidate_id b, rc_body = ?body\<rparr>\<rparr> = b"
    by (cases b) (simp add: bundle_binds_def)
  have v: "validate_decision_reason (body_decision_kind ?body) (body_reason_code ?body) = Inr (body_reason_code ?body)"
    using a by (simp add: validate_decision_reason_Ok bundle_binds_def body_valid_def)
  have "seal H v d (body_decision_kind ?body) (body_reason_code ?body) (body_bindings ?body) (cbn_patch b)
      (cbn_commit_plan b) (cbn_outbox_plan b) = Inr b"
    unfolding seal_def v using a [unfolded bundle_binds_def]
    by (simp only: rbind_simps map_err_simps Let_def eta etab)
  with b show "seal H v d kind reason bindings p cp op = Inr b" by simp
qed

lemma validate_and_apply_Ok: "validate_and_apply H b v d = Inr a \<longleftrightarrow> bundle_binds H v d b a"
proof -
  have "bundle_binds H v d b a \<Longrightarrow> seal H v d (body_decision_kind (cbn_body b)) (body_reason_code (cbn_body b))
      (body_bindings (cbn_body b)) (cbn_patch b) (cbn_commit_plan b) (cbn_outbox_plan b) = Inr b"
    by (auto simp: seal_Ok)
  moreover have "bundle_binds H v d b a' \<Longrightarrow> patch_apply H (cbn_patch b) v d = Inr a \<Longrightarrow> bundle_binds H v d b a" for a'
    by (auto simp: bundle_binds_def)
  ultimately show ?thesis
    by (auto simp: validate_and_apply_def if_Err_Ok seal_Ok bundle_binds_def)
qed


lemma bundle_canonical_bytes_Ok:
  assumes "body_valid (cbn_body b)"
  shows "bundle_canonical_bytes b = Inr bs \<longleftrightarrow> (\<exists>pb cb ob rb. patch_canonical_bytes (cbn_patch b) = Inr pb
     \<and> commit_plan_canonical_bytes (cbn_commit_plan b) = Inr cb \<and> outbox_plan_canonical_bytes (cbn_outbox_plan b) = Inr ob
     \<and> receipt_canonical_bytes (cbn_receipt b) = Inr rb
     \<and> (\<forall>x\<in>{body_bytes (cbn_body b), pb, cb, ob, rb}. length x \<le> u32_max)
     \<and> bs = be_bytes 32 (cbn_candidate_id b) @ blob_bytes (body_bytes (cbn_body b)) @ blob_bytes pb @ blob_bytes cb
         @ blob_bytes ob @ blob_bytes rb)"
proof -
  have "\<forall>r\<in>set_option (body_reason_code (cbn_body b)). length r \<le> u32_max"
    using assms reason_valid_short by (fastforce simp: body_valid_def)
  then show ?thesis
    by (auto simp: bundle_canonical_bytes_def bundle_encode_to_def Let_def body_canonical_bytes_Ok put_blob_Ok)
qed

definition bundle_sized :: "BundleDecodeLimits \<Rightarrow> CommitBundle \<Rightarrow> bool" where
  "bundle_sized L b \<longleftrightarrow> (\<exists>pb cb ob rb. patch_canonical_bytes (cbn_patch b) = Inr pb
     \<and> commit_plan_canonical_bytes (cbn_commit_plan b) = Inr cb \<and> outbox_plan_canonical_bytes (cbn_outbox_plan b) = Inr ob
     \<and> receipt_canonical_bytes (cbn_receipt b) = Inr rb
     \<and> length (body_bytes (cbn_body b)) \<le> rl_max_body_bytes (bl_receipt L) \<and> length pb \<le> pl_max_input_bytes (bl_patch L)
     \<and> length cb \<le> pnl_max_input_bytes (bl_commit_plan L) \<and> length ob \<le> pnl_max_input_bytes (bl_outbox_plan L)
     \<and> length rb \<le> rl_max_input_bytes (bl_receipt L))"

definition bundle_limits_in_range :: "BundleDecodeLimits \<Rightarrow> bool" where
  "bundle_limits_in_range L \<longleftrightarrow> bl_max_input_bytes L \<le> u64_max \<and> receipt_limits_in_range (bl_receipt L)
     \<and> patch_limits_in_range (bl_patch L) \<and> plan_limits_in_range (bl_commit_plan L)
     \<and> plan_limits_in_range (bl_outbox_plan L)"

definition bundle_valid :: "hasher \<Rightarrow> Value \<Rightarrow> Domain \<Rightarrow> BundleDecodeLimits \<Rightarrow> CommitBundle \<Rightarrow> bool" where
  "bundle_valid H v d L b \<longleftrightarrow> (\<exists>a. bundle_binds H v d b a) \<and> patch_valid (cbn_patch b)
     \<and> ops_within (bl_patch L) (cp_operations (cbn_patch b))
     \<and> commit_plan_valid (bl_commit_plan L) (cbn_commit_plan b)
     \<and> outbox_plan_valid (bl_outbox_plan L) (cbn_outbox_plan b)"

lemma decode_commit_bundle_complete:
  assumes L: "bundle_limits_in_range L" and valid: "bundle_valid H v d L b" "bundle_sized L b"
    and bs: "bundle_canonical_bytes b = Inr bs" and len: "length bs \<le> bl_max_input_bytes L"
  shows "decode_commit_bundle H bs v d L = Inr b"
proof -
  note lim = L [unfolded bundle_limits_in_range_def]
  from valid(1) obtain a where binds: "bundle_binds H v d b a" by (auto simp: bundle_valid_def)
  let ?body = "cbn_body b"
  have body: "body_valid ?body" and rc: "cbn_receipt b = \<lparr>rc_candidate_id = cbn_candidate_id b, rc_body = ?body\<rparr>"
    and cid: "hash_component H CANDIDATE (body_canonical_bytes ?body) = Inr (cbn_candidate_id b)"
    using binds by (simp_all add: bundle_binds_def)
  from bs [unfolded bundle_canonical_bytes_Ok [OF body]] obtain pb cb ob rb where
    e: "patch_canonical_bytes (cbn_patch b) = Inr pb" "commit_plan_canonical_bytes (cbn_commit_plan b) = Inr cb"
      "outbox_plan_canonical_bytes (cbn_outbox_plan b) = Inr ob" "receipt_canonical_bytes (cbn_receipt b) = Inr rb"
    and u32: "\<forall>x\<in>{body_bytes ?body, pb, cb, ob, rb}. length x \<le> u32_max"
    and bytes: "bs = be_bytes 32 (cbn_candidate_id b) @ blob_bytes (body_bytes ?body) @ blob_bytes pb @ blob_bytes cb
         @ blob_bytes ob @ blob_bytes rb" by blast
  have sz: "length (body_bytes ?body) \<le> rl_max_body_bytes (bl_receipt L)" "length pb \<le> pl_max_input_bytes (bl_patch L)"
     "length cb \<le> pnl_max_input_bytes (bl_commit_plan L)" "length ob \<le> pnl_max_input_bytes (bl_outbox_plan L)"
     "length rb \<le> rl_max_input_bytes (bl_receipt L)"
    using valid(2) e by (auto simp: bundle_sized_def)
  have u64: "length bs \<le> u64_max" using len lim by simp
  then obtain c1 c2 c3 c4 c5 c6 where r: "reads (cursor_new bs) (be_bytes 32 (cbn_candidate_id b)) c1"
      "reads c1 (blob_bytes (body_bytes ?body)) c2" "reads c2 (blob_bytes pb) c3" "reads c3 (blob_bytes cb) c4"
      "reads c4 (blob_bytes ob) c5" "reads c5 (blob_bytes rb) c6" "cursor_remaining c6 = 0"
    using reads_consumed [of bs bs] unfolding bytes reads_append by auto
  have wf: "cursor_wf (cursor_new bs)" "cursor_wf c1" "cursor_wf c2" "cursor_wf c3" "cursor_wf c4" "cursor_wf c5" "cursor_wf c6"
    using u64 r readsD(3) by auto
  have takes: "receipt_take_hash32 (cursor_new bs) = Inr (cbn_candidate_id b, c1)"
     "receipt_take_blob c1 = Inr (body_bytes ?body, c2)" "receipt_take_blob c2 = Inr (pb, c3)"
     "receipt_take_blob c3 = Inr (cb, c4)" "receipt_take_blob c4 = Inr (ob, c5)" "receipt_take_blob c5 = Inr (rb, c6)"
    using r wf u32 by (simp_all add: receipt_take_reads)
  have limits: "receipt_enforce_input_limit bs (bl_max_input_bytes L) = Inr ()"
    "enforce_component_limit RC_CandidateBody (body_bytes ?body) (rl_max_body_bytes (bl_receipt L)) = Inr ()"
    "enforce_component_limit RC_Receipt rb (rl_max_input_bytes (bl_receipt L)) = Inr ()"
    using len sz lim by (simp_all add: receipt_enforce_limit_Ok receipt_limits_in_range_def)
  have "decode_candidate_body (body_bytes ?body) = Inr ?body"
    using u32 body by (subst decode_candidate_body_iff) simp_all
  moreover have "decode_canonical_patch pb (bl_patch L) = Inr (cbn_patch b)"
    using valid e sz lim by (simp add: decode_canonical_patch_iff bundle_valid_def)
  moreover have "decode_commit_plan cb (bl_commit_plan L) = Inr (cbn_commit_plan b)"
    "decode_outbox_plan ob (bl_outbox_plan L) = Inr (cbn_outbox_plan b)"
    using valid e sz lim by (simp_all add: decode_commit_plan_iff decode_outbox_plan_iff bundle_valid_def)
  moreover have "decode_receipt H rb (bl_receipt L) = Inr (cbn_receipt b)"
    using lim e sz body cid by (simp add: decode_receipt_iff receipt_valid_def rc)
  moreover have "seal H v d (body_decision_kind ?body) (body_reason_code ?body) (body_bindings ?body) (cbn_patch b)
      (cbn_commit_plan b) (cbn_outbox_plan b) = Inr b" using binds by (auto simp: seal_Ok)
  moreover have "ensure_consumed c6 = Inr ()" "ensure_canonical bs (bundle_canonical_bytes b) = Inr ()"
    using r(7) bs by (simp_all add: ensure_consumed_Ok ensure_canonical_Ok)
  ultimately show ?thesis unfolding decode_commit_bundle_def using takes limits
    by (simp only: rbind_simps map_err_simps prod.case simp_thms if_False)
qed

lemma decode_commit_bundle_sound:
  assumes L: "bundle_limits_in_range L" and dec: "decode_commit_bundle H bs v d L = Inr b"
  shows "bundle_valid H v d L b \<and> bundle_sized L b \<and> bundle_canonical_bytes b = Inr bs
    \<and> length bs \<le> bl_max_input_bytes L"
proof -
  note lim = L [unfolded bundle_limits_in_range_def receipt_limits_in_range_def]
  from dec have "\<exists>eb ep ec eo er (body :: CandidateBody) p cp op.
      receipt_enforce_input_limit bs (bl_max_input_bytes L) = Inr ()
      \<and> enforce_component_limit RC_CandidateBody eb (rl_max_body_bytes (bl_receipt L)) = Inr ()
      \<and> decode_candidate_body eb = Inr body
      \<and> decode_canonical_patch ep (bl_patch L) = Inr p
      \<and> decode_commit_plan ec (bl_commit_plan L) = Inr cp \<and> decode_outbox_plan eo (bl_outbox_plan L) = Inr op
      \<and> decode_receipt H er (bl_receipt L) = Inr (cbn_receipt b) \<and> cbn_body b = body
      \<and> seal H v d (body_decision_kind body) (body_reason_code body) (body_bindings body) p cp op = Inr b
      \<and> ensure_canonical bs (bundle_canonical_bytes b) = Inr ()"
    by (clarsimp simp: decode_commit_bundle_def if_Err_Ok) blast
  then obtain eb ep ec eo er and body :: CandidateBody and p cp op where
    lens: "receipt_enforce_input_limit bs (bl_max_input_bytes L) = Inr ()"
      "enforce_component_limit RC_CandidateBody eb (rl_max_body_bytes (bl_receipt L)) = Inr ()"
    and parts: "decode_candidate_body eb = Inr body" "decode_canonical_patch ep (bl_patch L) = Inr p"
      "decode_commit_plan ec (bl_commit_plan L) = Inr cp" "decode_outbox_plan eo (bl_outbox_plan L) = Inr op"
      "decode_receipt H er (bl_receipt L) = Inr (cbn_receipt b)"
    and sealed: "cbn_body b = body"
      "seal H v d (body_decision_kind body) (body_reason_code body) (body_bindings body) p cp op = Inr b"
    and canon: "ensure_canonical bs (bundle_canonical_bytes b) = Inr ()"
    by blast
  have "length bs \<le> bl_max_input_bytes L" "length eb \<le> rl_max_body_bytes (bl_receipt L)"
    using lens lim by (simp_all add: receipt_enforce_limit_Ok)
  moreover from this have "eb = body_bytes body" using parts(1) lim by (simp add: decode_candidate_body_iff)
  moreover have "\<exists>a. bundle_binds H v d b a" "cbn_patch b = p" "cbn_commit_plan b = cp" "cbn_outbox_plan b = op"
    using sealed by (simp_all add: seal_Ok)
  moreover have "patch_valid p" "ops_within (bl_patch L) (cp_operations p)" "patch_canonical_bytes p = Inr ep"
      "length ep \<le> pl_max_input_bytes (bl_patch L)"
    using parts(2) lim by (simp_all add: decode_canonical_patch_iff)
  moreover have "commit_plan_valid (bl_commit_plan L) cp" "commit_plan_canonical_bytes cp = Inr ec"
      "length ec \<le> pnl_max_input_bytes (bl_commit_plan L)" "outbox_plan_valid (bl_outbox_plan L) op"
      "outbox_plan_canonical_bytes op = Inr eo" "length eo \<le> pnl_max_input_bytes (bl_outbox_plan L)"
    using parts(3,4) lim by (simp_all add: decode_commit_plan_iff decode_outbox_plan_iff)
  moreover have "receipt_canonical_bytes (cbn_receipt b) = Inr er" "length er \<le> rl_max_input_bytes (bl_receipt L)"
    using parts(5) lim by (simp_all add: decode_receipt_iff receipt_limits_in_range_def)
  ultimately show ?thesis
    using canon sealed(1) by (simp add: bundle_valid_def bundle_sized_def ensure_canonical_Ok)
qed

lemma decode_commit_bundle_iff:
  assumes "bundle_limits_in_range L"
  shows "decode_commit_bundle H bs v d L = Inr b \<longleftrightarrow> bundle_valid H v d L b \<and> bundle_sized L b
    \<and> bundle_canonical_bytes b = Inr bs \<and> length bs \<le> bl_max_input_bytes L"
  using decode_commit_bundle_sound [OF assms] decode_commit_bundle_complete [OF assms] by blast

section \<open>What the identity of a candidate binds\<close>

text \<open>The parts of a bundle are well-formed by construction: their fields are private, the patch
  comes from \<^verbatim>\<open>CanonicalPatch::try_new\<close> and the plans from their constructors, over valid values.\<close>

definition bundle_built :: "CommitBundle \<Rightarrow> bool" where
  "bundle_built b \<longleftrightarrow> patch_valid (cbn_patch b)
     \<and> sorted_wrt (<) (map eff_ordinal (plan_effects (cbn_commit_plan b)))
     \<and> (\<forall>e\<in>set (plan_effects (cbn_commit_plan b)). repr_valid (eff_payload e))
     \<and> sorted_wrt (<) (map ob_ordinal (plan_entries (cbn_outbox_plan b)))
     \<and> (\<forall>e\<in>set (plan_entries (cbn_outbox_plan b)). entry_valid_values e)"

text \<open>A decoded bundle is built.\<close>

lemma bundle_valid_built:
  assumes "bundle_valid H v d L b" shows "bundle_built b"
proof -
  have c: "plan_values_within (bl_commit_plan L) (map eff_payload (plan_effects (cbn_commit_plan b)))"
    and o: "plan_values_within (bl_outbox_plan L) (concat (map entry_values (plan_entries (cbn_outbox_plan b))))"
    using assms by (simp_all add: bundle_valid_def commit_plan_valid_def outbox_plan_valid_def)
  have "repr_valid (eff_payload e)" if "e \<in> set (plan_effects (cbn_commit_plan b))" for e
    using plan_values_valid [OF c, of "eff_payload e"] that by simp
  moreover have "entry_valid_values e" if "e \<in> set (plan_entries (cbn_outbox_plan b))" for e
    using plan_values_valid [OF o] that by (auto simp: entry_valid_values_def entry_values_def)
  ultimately show ?thesis
    using assms by (simp add: bundle_built_def bundle_valid_def commit_plan_valid_def outbox_plan_valid_def)
qed

definition hash_collision :: "hasher \<Rightarrow> Domain \<Rightarrow> bytes \<Rightarrow> bytes \<Rightarrow> bool" where
  "hash_collision H D bs bs' \<longleftrightarrow> (\<exists>x x'. domain_preimage D bs = Inr x \<and> domain_preimage D bs' = Inr x'
     \<and> x \<noteq> x' \<and> h_hash H x = h_hash H x')"

lemma hash_component_collision:
  assumes "commitment_hasher H" and "hash_component H D (Inr bs) = Inr h" "hash_component H D (Inr bs') = Inr h"
  shows "bs = bs' \<or> hash_collision H D bs bs'"
proof -
  from assms obtain x x' where x: "domain_preimage D bs = Inr x" "domain_preimage D bs' = Inr x'" "h_hash H x = h_hash H x'"
    by (auto simp: hash_component_def commitment_hasher.commitment_preimage)
  show ?thesis
  proof (cases "x = x'")
    case True
    with x preimage_inject [of D bs x D bs'] show ?thesis by simp
  next
    case False
    with x show ?thesis by (auto simp: hash_collision_def)
  qed
qed

lemma hash_component_encoded: "hash_component H D r = Inr h \<Longrightarrow> \<exists>bs. r = Inr bs"
  by (auto simp: hash_component_def)

lemma effect_bytes_inject:
  assumes "repr_valid (eff_payload e)" "repr_valid (eff_payload e')"
    and "is_ok (effect_canonical_bytes e)" "is_ok (effect_canonical_bytes e')" and "effect_bytes e = effect_bytes e'"
  shows "e = e'"
proof -
  have a: "default_admitted (eff_payload e)" "length (enc (eff_payload e)) \<le> u32_max"
      "default_admitted (eff_payload e')" "length (enc (eff_payload e')) \<le> u32_max"
    using assms(1-4) by (auto simp: is_ok_iff effect_canonical_bytes_Ok)
  from assms(5) have h: "eff_ordinal e = eff_ordinal e'" "eff_operation e = eff_operation e'"
      "eff_authority e = eff_authority e'" "eff_subject e = eff_subject e'"
    and "blob_bytes (enc (eff_payload e)) = blob_bytes (enc (eff_payload e'))"
    by (simp_all add: effect_bytes_def be_bytes_inject)
  with blob_bytes_inject [OF a(2,4), of "[]" "[]"] enc_inject [OF assms(1,2) a(1,2)] a(3)
  have "eff_payload e = eff_payload e'" by simp
  with h show ?thesis by (auto intro: Effect.equality)
qed

lemma commit_plan_bytes_inject:
  assumes "\<forall>e\<in>set (plan_effects p). repr_valid (eff_payload e)" "\<forall>e\<in>set (plan_effects q). repr_valid (eff_payload e)"
    and "commit_plan_canonical_bytes p = Inr bs" "commit_plan_canonical_bytes q = Inr bs"
  shows "p = q"
proof -
  note p = commit_plan_canonical_bytes_Ok [OF assms(1), THEN iffD1, OF assms(3)]
  note q = commit_plan_canonical_bytes_Ok [OF assms(2), THEN iffD1, OF assms(4)]
  from p q have "map effect_bytes (plan_effects p) = map effect_bytes (plan_effects q)"
    by (intro framed_bytes_inject) auto
  moreover have "is_ok (effect_canonical_bytes e)" if "e \<in> set (plan_effects p) \<union> set (plan_effects q)" for e
    using that p q assms(1,2) by (auto simp: is_ok_iff effect_canonical_bytes_Ok)
  ultimately have "plan_effects p = plan_effects q"
    using assms(1,2) by (intro map_eq_on [of effect_bytes] effect_bytes_inject) simp_all
  then show ?thesis by (auto intro: CommitPlan.equality)
qed

lemma outbox_plan_bytes_inject:
  assumes "\<forall>e\<in>set (plan_entries p). entry_valid_values e" "\<forall>e\<in>set (plan_entries q). entry_valid_values e"
    and "outbox_plan_canonical_bytes p = Inr bs" "outbox_plan_canonical_bytes q = Inr bs"
  shows "p = q"
proof -
  note p = outbox_plan_canonical_bytes_Ok [OF assms(1) [unfolded entry_valid_values_def], THEN iffD1, OF assms(3)]
  note q = outbox_plan_canonical_bytes_Ok [OF assms(2) [unfolded entry_valid_values_def], THEN iffD1, OF assms(4)]
  from p q have "map outbox_entry_bytes (plan_entries p) = map outbox_entry_bytes (plan_entries q)"
    by (intro framed_bytes_inject) auto
  moreover have "is_ok (outbox_entry_canonical_bytes e)" if "e \<in> set (plan_entries p) \<union> set (plan_entries q)" for e
    using that p q assms(1,2) by (auto simp: is_ok_iff outbox_entry_canonical_bytes_Ok entry_valid_values_def)
  ultimately have "plan_entries p = plan_entries q"
    using assms(1,2) by (intro map_eq_on [of outbox_entry_bytes] outbox_entry_bytes_inject) simp_all
  then show ?thesis by (auto intro: OutboxPlan.equality)
qed

lemma body_bytes_inject:
  assumes "body_valid b" "body_valid b'" "body_bytes b = body_bytes b'" shows "b = b'"
proof -
  have "length r \<le> 96" if "body_reason_code b = Some r" for r
    using reason_valid_short [OF _ that] assms(1) by (simp add: body_valid_def)
  then have "length (body_bytes b) \<le> usize_max"
    by (fastforce simp: body_bytes_def reason_bytes_def bindings_bytes_def encode_bindings_def split: option.splits)
  from decode_candidate_body_iff [OF this] assms show ?thesis by (metis sum.inject(2))
qed

lemma bundle_binds_encoded:
  assumes "bundle_binds H v d b a"
  shows "\<exists>pb. patch_canonical_bytes (cbn_patch b) = Inr pb" "\<exists>cb. commit_plan_canonical_bytes (cbn_commit_plan b) = Inr cb"
    "\<exists>ob. outbox_plan_canonical_bytes (cbn_outbox_plan b) = Inr ob"
  using assms hash_component_encoded unfolding bundle_binds_def by blast+

text \<open>Two bundles with one identity are one bundle, or a pair of the byte strings that were hashed
  for them collides.\<close>

lemma candidate_identity:
  assumes H: "commitment_hasher H" and built: "bundle_built b" "bundle_built b'"
    and binds: "bundle_binds H v d b a" "bundle_binds H v' d' b' a'" and id: "cbn_candidate_id b = cbn_candidate_id b'"
  shows "b = b' \<or> hash_collision H CANDIDATE (body_bytes (cbn_body b)) (body_bytes (cbn_body b'))
    \<or> hash_collision H PATCH (patch_bytes (cbn_patch b)) (patch_bytes (cbn_patch b'))
    \<or> hash_collision H COMMIT_PLAN (framed_bytes effect_bytes (plan_effects (cbn_commit_plan b)))
        (framed_bytes effect_bytes (plan_effects (cbn_commit_plan b')))
    \<or> hash_collision H OUTBOX_PLAN (framed_bytes outbox_entry_bytes (plan_entries (cbn_outbox_plan b)))
        (framed_bytes outbox_entry_bytes (plan_entries (cbn_outbox_plan b')))"
    (is "_ \<or> ?c1 \<or> ?c2 \<or> ?c3 \<or> ?c4")
proof (rule ccontr)
  assume no: "\<not> (b = b' \<or> ?c1 \<or> ?c2 \<or> ?c3 \<or> ?c4)"
  note B = binds [unfolded bundle_binds_def] and W = built [unfolded bundle_built_def]
  have body_enc: "body_canonical_bytes (cbn_body x) = Inr (body_bytes (cbn_body x))" if "body_valid (cbn_body x)" for x
    using that reason_valid_short by (fastforce simp: body_canonical_bytes_Ok body_valid_def)
  have "hash_component H CANDIDATE (Inr (body_bytes (cbn_body b))) = Inr (cbn_candidate_id b')"
    "hash_component H CANDIDATE (Inr (body_bytes (cbn_body b'))) = Inr (cbn_candidate_id b')"
    using B id body_enc [of b] body_enc [of b'] by simp_all
  from hash_component_collision [OF H this] no have "body_bytes (cbn_body b) = body_bytes (cbn_body b')" by blast
  then have body: "cbn_body b = cbn_body b'" using B by (intro body_bytes_inject) simp_all
  obtain pb pb' cb cb' ob ob' where enc: "patch_canonical_bytes (cbn_patch b) = Inr pb"
      "patch_canonical_bytes (cbn_patch b') = Inr pb'" "commit_plan_canonical_bytes (cbn_commit_plan b) = Inr cb"
      "commit_plan_canonical_bytes (cbn_commit_plan b') = Inr cb'" "outbox_plan_canonical_bytes (cbn_outbox_plan b) = Inr ob"
      "outbox_plan_canonical_bytes (cbn_outbox_plan b') = Inr ob'"
    using bundle_binds_encoded [OF binds(1)] bundle_binds_encoded [OF binds(2)] by auto
  have bytes: "pb = patch_bytes (cbn_patch b)" "pb' = patch_bytes (cbn_patch b')"
      "cb = framed_bytes effect_bytes (plan_effects (cbn_commit_plan b))"
      "cb' = framed_bytes effect_bytes (plan_effects (cbn_commit_plan b'))"
      "ob = framed_bytes outbox_entry_bytes (plan_entries (cbn_outbox_plan b))"
      "ob' = framed_bytes outbox_entry_bytes (plan_entries (cbn_outbox_plan b'))"
    using enc W patch_canonical_bytes_Ok [OF _ enc(1)] patch_canonical_bytes_Ok [OF _ enc(2)]
    by (simp_all add: patch_valid_def commit_plan_canonical_bytes_Ok outbox_plan_canonical_bytes_Ok entry_valid_values_def)
  have "hash_component H PATCH (Inr pb) = Inr (body_patch_hash (cbn_body b'))"
    "hash_component H PATCH (Inr pb') = Inr (body_patch_hash (cbn_body b'))"
    and "hash_component H COMMIT_PLAN (Inr cb) = Inr (body_commit_plan_hash (cbn_body b'))"
    "hash_component H COMMIT_PLAN (Inr cb') = Inr (body_commit_plan_hash (cbn_body b'))"
    and "hash_component H OUTBOX_PLAN (Inr ob) = Inr (body_outbox_plan_hash (cbn_body b'))"
    "hash_component H OUTBOX_PLAN (Inr ob') = Inr (body_outbox_plan_hash (cbn_body b'))"
    using B enc body by simp_all
  from hash_component_collision [OF H this(1,2)] hash_component_collision [OF H this(3,4)]
    hash_component_collision [OF H this(5,6)] no
  have "pb = pb'" "cb = cb'" "ob = ob'" unfolding bytes by blast+
  then have "cbn_patch b = cbn_patch b'" "cbn_commit_plan b = cbn_commit_plan b'" "cbn_outbox_plan b = cbn_outbox_plan b'"
    using enc W patch_bytes_inject commit_plan_bytes_inject outbox_plan_bytes_inject by blast+
  with body id B have "b = b'" by (auto intro: CommitBundle.equality)
  with no show False by simp
qed

section \<open>A concrete bundle\<close>

text \<open>A family of bundles over the one-flag state: an accepted decision with an empty patch, an empty
  commit plan and one outbox entry.  They differ in the hash of their context only.\<close>

definition sample_body :: "hash32 \<Rightarrow> CandidateBody" where
  "sample_body h = \<lparr>body_decision_kind = Accept, body_reason_code = None,
     body_bindings = \<lparr>cb_profile_hash = 0, cb_command_hash = 0, cb_context_hash = h, cb_precedence_hash = 0,
       cb_algorithm_hash = 0, cb_budget_hash = 0\<rparr>,
     body_pre_root = 0, body_post_root = 0, body_patch_hash = 0, body_commit_plan_hash = 0, body_outbox_plan_hash = 0\<rparr>"

definition sample_bundle :: "hash32 \<Rightarrow> CommitBundle" where
  "sample_bundle h = \<lparr>cbn_candidate_id = 0, cbn_body = sample_body h, cbn_patch = empty_patch,
     cbn_commit_plan = commit_plan_empty, cbn_outbox_plan = \<lparr>plan_entries = [sample_entry]\<rparr>,
     cbn_receipt = \<lparr>rc_candidate_id = 0, rc_body = sample_body h\<rparr>\<rparr>"

lemma sample_component:
  "length (domain_name D) \<le> u16_max \<Longrightarrow> length bs \<le> u64_max \<Longrightarrow> hash_component sample_hasher D (Ok bs) = Ok 0"
  using sample_commitment [of D bs] by (simp add: hash_component_def)

lemma sample_parts:
  "patch_canonical_bytes empty_patch = Ok empty_patch_bytes"
  "commit_plan_canonical_bytes commit_plan_empty = Ok [0, 0, 0, 0]"
  "outbox_plan_canonical_bytes \<lparr>plan_entries = [sample_entry]\<rparr> = Ok (framed_bytes outbox_entry_bytes [sample_entry])"
  "body_canonical_bytes (sample_body h) = Ok (body_bytes (sample_body h))" "body_valid (sample_body h)"
  "length (body_bytes (sample_body h)) = 354"
  "length (framed_bytes outbox_entry_bytes [sample_entry]) = 26"
proof -
  show "commit_plan_canonical_bytes commit_plan_empty = Ok [0, 0, 0, 0]"
    by (simp add: commit_plan_canonical_bytes_def commit_plan_encode_to_def commit_plan_empty_def put_length_Ok be_bytes_numeral)
  show "outbox_plan_canonical_bytes \<lparr>plan_entries = [sample_entry]\<rparr> = Ok (framed_bytes outbox_entry_bytes [sample_entry])"
    using sample_admitted by (subst outbox_plan_canonical_bytes_Ok) (simp_all add: sample_entry_def outbox_entry_bytes_def)
  show "body_canonical_bytes (sample_body h) = Ok (body_bytes (sample_body h))" "body_valid (sample_body h)"
    by (simp_all add: body_canonical_bytes_Ok sample_body_def body_valid_def)
qed (simp_all add: empty_patch_valid sample_body_def body_bytes_def reason_bytes_def bindings_bytes_def encode_bindings_def
    framed_bytes_def outbox_entry_bytes_def sample_entry_def)

lemma sample_binds:
  "bundle_binds sample_hasher sample_state VALUE (sample_bundle h) \<lparr>ap_state = sample_state, ap_post_root = 0\<rparr>"
proof -
  have "patch_apply sample_hasher empty_patch sample_state VALUE = Ok \<lparr>ap_state = sample_state, ap_post_root = 0\<rparr>"
    using sample_hashes(1) by (simp add: patch_apply_def empty_patch_def)
  moreover have "length (domain_name PATCH) \<le> u16_max" "length (domain_name COMMIT_PLAN) \<le> u16_max"
      "length (domain_name OUTBOX_PLAN) \<le> u16_max" "length (domain_name CANDIDATE) \<le> u16_max"
    by (simp_all add: PATCH_def COMMIT_PLAN_def OUTBOX_PLAN_def CANDIDATE_def registered_def ascii_bytes_def)
  ultimately show ?thesis using sample_parts
    by (simp add: bundle_binds_def sample_bundle_def sample_component empty_patch_bytes_def)
      (simp add: sample_body_def empty_patch_def)
qed

lemma sample_built: "bundle_built (sample_bundle h)"
  by (simp add: bundle_built_def sample_bundle_def empty_patch_valid commit_plan_empty_def entry_valid_values_def sample_entry_def)

lemma sample_seal:
  "seal sample_hasher sample_state VALUE Accept None (body_bindings (sample_body h)) empty_patch commit_plan_empty
     \<lparr>plan_entries = [sample_entry]\<rparr> = Ok (sample_bundle h)"
  using sample_binds [of h] by (subst seal_Ok) (auto simp: sample_bundle_def sample_body_def)

lemma default_bundle_limits_in_range: "bundle_limits_in_range default_bundle_decode_limits"
  by (simp add: bundle_limits_in_range_def default_bundle_decode_limits_def default_patch_limits_in_range
      default_plan_limits_in_range receipt_limits_in_range_def default_receipt_decode_limits_def)

section \<open>Properties\<close>

text \<open>C8: the bundle decoder accepts a byte string exactly when it is the canonical encoding of a
  bundle that sealing builds over the given state, from a valid patch and valid plans, with every
  part within its limits; it then returns that bundle.\<close>

theorem bundle_decoder_accepts_exactly:
  assumes "bundle_limits_in_range limits"
  shows "decode_commit_bundle H bs state domain limits = Ok b \<longleftrightarrow> bundle_valid H state domain limits b
    \<and> bundle_sized limits b \<and> bundle_canonical_bytes b = Ok bs \<and> length bs \<le> bl_max_input_bytes limits"
  using assms by (rule decode_commit_bundle_iff)

lemma sample_bundle_bytes:
  "\<exists>bs. bundle_canonical_bytes (sample_bundle h) = Ok bs \<and> length bs = 866 \<and> bundle_sized default_bundle_decode_limits (sample_bundle h)"
proof -
  have r: "receipt_canonical_bytes (cbn_receipt (sample_bundle h)) =
      Ok (be_bytes 32 (0 :: hash32) @ blob_bytes (body_bytes (sample_body h)))"
    using sample_parts by (subst receipt_canonical_bytes_Ok) (simp_all add: sample_bundle_def)
  show ?thesis
    using r sample_parts 
    by (subst bundle_canonical_bytes_Ok)
      (simp_all add: sample_bundle_def empty_patch_bytes_def bundle_sized_def default_bundle_decode_limits_def
        default_receipt_decode_limits_def default_patch_decode_limits_def default_plan_decode_limits_def DEFAULT_MAX_INPUT_BYTES_def)
qed

lemma sample_valid: "bundle_valid sample_hasher sample_state VALUE default_bundle_decode_limits (sample_bundle h)"
proof -
  have "value_admitted default_decode_limits VUnit" "value_admitted default_decode_limits (VBool True)"
    by (simp_all add: value_admitted_def value_valid_def default_decode_limits_def is_ok_iff
        validate_limits_Ok [OF default_value_limits_in_range] default_limit_simps DEFAULT_MAX_INPUT_BYTES_def)
  then show ?thesis using sample_binds [of h]
    by (auto simp: bundle_valid_def sample_bundle_def empty_patch_valid commit_plan_valid_def outbox_plan_valid_def
        commit_plan_empty_def plan_values_within_def entry_values_def sample_entry_def default_bundle_decode_limits_def
        default_plan_decode_limits_def empty_patch_def [THEN arg_cong [where f = cp_operations]])
qed

theorem bundle_decoder_accepts_exactly_witness:
  "\<exists>bs. bundle_canonical_bytes (sample_bundle 1) = Ok bs
     \<and> decode_commit_bundle sample_hasher bs sample_state VALUE default_bundle_decode_limits = Ok (sample_bundle 1)"
proof -
  from sample_bundle_bytes [of 1] obtain bs where bs: "bundle_canonical_bytes (sample_bundle 1) = Ok bs" "length bs = 866"
      "bundle_sized default_bundle_decode_limits (sample_bundle 1)" by blast
  moreover have "length bs \<le> bl_max_input_bytes default_bundle_decode_limits"
    by (simp add: bs(2) default_bundle_decode_limits_def)
  ultimately show ?thesis
    using bundle_decoder_accepts_exactly [OF default_bundle_limits_in_range, of sample_hasher bs sample_state VALUE "sample_bundle 1"]
      sample_valid [of 1] by blast
qed

text \<open>What sealing builds validates against the same state.  The receipt and the body name the
  roots of the state before and after the patch, and validation returns exactly that patched state.\<close>

theorem sealed_bundle_validates:
  assumes "seal H state domain kind reason bindings p commit_plan outbox_plan = Ok b"
  shows "\<exists>a. validate_and_apply H b state domain = Ok a \<and> patch_apply H p state domain = Ok a
    \<and> hash_value H domain state = Ok (body_pre_root (cbn_body b))
    \<and> hash_value H domain (ap_state a) = Ok (body_post_root (cbn_body b))
    \<and> cbn_receipt b = \<lparr>rc_candidate_id = cbn_candidate_id b, rc_body = cbn_body b\<rparr>
    \<and> reason_valid kind reason"
proof -
  from assms obtain a where "bundle_binds H state domain b a" "cbn_patch b = p"
      "body_decision_kind (cbn_body b) = kind" "body_reason_code (cbn_body b) = reason" by (auto simp: seal_Ok)
  then show ?thesis
    by (auto simp: validate_and_apply_Ok bundle_binds_def body_valid_def patch_apply_Ok intro!: exI [of _ a])
qed

theorem sealed_bundle_validates_witness:
  "\<exists>a. validate_and_apply sample_hasher (sample_bundle 1) sample_state VALUE = Ok a
     \<and> hash_value sample_hasher VALUE (ap_state a) = Ok 0"
  using sealed_bundle_validates [OF sample_seal [of 1]] by (auto simp: sample_bundle_def sample_body_def)

text \<open>A bundle passes validation against a state exactly when sealing some parts over that state
  builds it, so tampering with any field is refused.\<close>

theorem validation_accepts_exactly_sealed:
  "(\<exists>a. validate_and_apply H b state domain = Ok a) \<longleftrightarrow>
   (\<exists>kind reason bindings p commit_plan outbox_plan.
      seal H state domain kind reason bindings p commit_plan outbox_plan = Ok b)"
  by (auto simp: validate_and_apply_Ok seal_Ok)

text \<open>C11: two sealed bundles with the same candidate identity are the same bundle, whatever states
  they were sealed over, or two of the byte strings hashed for them collide.\<close>

theorem candidate_id_binds:
  assumes "commitment_hasher H" and "bundle_built b" and "bundle_built b'"
    and "validate_and_apply H b state domain = Ok a" and "validate_and_apply H b' state' domain' = Ok a'"
    and "cbn_candidate_id b = cbn_candidate_id b'"
  shows "b = b' \<or> hash_collision H CANDIDATE (body_bytes (cbn_body b)) (body_bytes (cbn_body b'))
    \<or> hash_collision H PATCH (patch_bytes (cbn_patch b)) (patch_bytes (cbn_patch b'))
    \<or> hash_collision H COMMIT_PLAN (framed_bytes effect_bytes (plan_effects (cbn_commit_plan b)))
        (framed_bytes effect_bytes (plan_effects (cbn_commit_plan b')))
    \<or> hash_collision H OUTBOX_PLAN (framed_bytes outbox_entry_bytes (plan_entries (cbn_outbox_plan b)))
        (framed_bytes outbox_entry_bytes (plan_entries (cbn_outbox_plan b')))"
  using assms by (intro candidate_identity) (simp_all add: validate_and_apply_Ok)

theorem candidate_id_binds_witness:
  "hash_collision sample_hasher CANDIDATE (body_bytes (sample_body 0)) (body_bytes (sample_body 1))"
proof -
  have v: "validate_and_apply sample_hasher (sample_bundle h) sample_state VALUE = Ok \<lparr>ap_state = sample_state, ap_post_root = 0\<rparr>" for h
    using sample_binds by (simp add: validate_and_apply_Ok)
  have "\<not> hash_collision H D bs bs" for H D bs by (simp add: hash_collision_def)
  then show ?thesis
    using candidate_id_binds [OF _ sample_built sample_built v [of 0] v [of 1]] default_hasher.commitment_hasher_axioms
    by (simp add: sample_hasher_def) (simp add: sample_bundle_def sample_body_def)
qed

text \<open>The receipt decoders accept exactly the canonical encodings within the limits, and a
  receipt's identity must be the hash of its body.\<close>

theorem receipt_decoders_accept_exactly:
  assumes "receipt_limits_in_range limits"
  shows "(decode_receipt H bs limits = Ok r \<longleftrightarrow> receipt_valid H limits r \<and> receipt_canonical_bytes r = Ok bs
      \<and> length bs \<le> rl_max_input_bytes limits)
    \<and> (decode_reject_receipt bs limits = Ok q \<longleftrightarrow> reject_receipt_valid q \<and> reject_receipt_canonical_bytes q = Ok bs
      \<and> length bs \<le> rl_max_input_bytes limits)"
  using decode_receipt_iff [OF assms] decode_reject_receipt_iff [OF assms] by simp

theorem receipt_decoders_accept_exactly_witness:
  "decode_receipt sample_hasher (be_bytes 32 (0 :: hash32) @ blob_bytes (body_bytes (sample_body 1)))
     default_receipt_decode_limits = Ok \<lparr>rc_candidate_id = 0, rc_body = sample_body 1\<rparr>"
proof -
  let ?r = "\<lparr>rc_candidate_id = 0, rc_body = sample_body 1\<rparr>"
  have L: "receipt_limits_in_range default_receipt_decode_limits"
    by (simp add: receipt_limits_in_range_def default_receipt_decode_limits_def)
  have "receipt_canonical_bytes ?r = Ok (be_bytes 32 (0 :: hash32) @ blob_bytes (body_bytes (sample_body 1)))"
    using sample_parts by (subst receipt_canonical_bytes_Ok) simp_all
  moreover have "receipt_valid sample_hasher default_receipt_decode_limits ?r"
    using sample_parts sample_binds [of 1]
    by (simp add: receipt_valid_def bundle_binds_def sample_bundle_def default_receipt_decode_limits_def)
  ultimately show ?thesis
    using receipt_decoders_accept_exactly [OF L, where r = ?r] sample_parts by (simp add: default_receipt_decode_limits_def)
qed

end
