(* ===== verification/Zeno_Shell_Laws.thy ===== *)
theory Zeno_Shell_Laws
  imports Zeno_Shell Zeno_Receipt_Laws
begin

text \<open>
  Laws of the reference shell: the invariant of its tables, what a commit and an acknowledgement do
  to them, runs of a client, the abstract shell over finite maps that the tables implement, and
  delivery to an idempotent destination.
\<close>

section \<open>The tables\<close>

interpretation replay_index: ordered_index rp_replay_id "binary_search_by_key rp_replay_id"
  by (rule binary_search_by_key_index)

interpretation table_index: ordered_index fst "binary_search_by_key fst"
  by (rule binary_search_by_key_index)

interpretation outbox_index: ordered_index outbox_key "binary_search_by_key outbox_key"
  by (rule binary_search_by_key_index)

text \<open>The record that a commit makes of an outbox entry.\<close>

definition outbox_record :: "hasher \<Rightarrow> CandidateId \<Rightarrow> OutboxEntry \<Rightarrow> ShellError + OutboxRecord" where
  "outbox_record H c e =
     rbind (map_err SHE_Encode (delivery_id H e c)) (\<lambda>delivery.
     rbind (hash_outbox_entry H e) (\<lambda>entry_hash.
       Ok \<lparr>or_candidate_id = c, or_ordinal = ob_ordinal e, or_delivery_id = delivery,
           or_entry_hash = entry_hash, or_entry = e, or_acknowledged = False\<rparr>))"

lemma outbox_record_Ok:
  "outbox_record H c e = Inr r \<longleftrightarrow> delivery_id H e c = Inr (or_delivery_id r)
     \<and> hash_outbox_entry H e = Inr (or_entry_hash r) \<and> or_candidate_id r = c \<and> or_ordinal r = ob_ordinal e
     \<and> or_entry r = e \<and> \<not> or_acknowledged r"
  by (cases r) (auto simp: outbox_record_def)

lemma insert_outbox_entry_eq:
  "insert_outbox_entry H c e outbox = rbind (outbox_record H c e) (\<lambda>r.
     case binary_search_by_key outbox_key (outbox_key r) outbox of
       Inr _ \<Rightarrow> Err SHE_DuplicateOutboxRecord
     | Inl i \<Rightarrow> Ok (vec_insert i r outbox))"
  by (simp add: insert_outbox_entry_def outbox_record_def rbind_assoc Let_def)

lemma insert_outbox_new:
  assumes "sorted_wrt (<) (map outbox_key outbox)" and "outbox_key r \<notin> outbox_key ` set outbox"
  shows "\<exists>i. binary_search_by_key outbox_key (outbox_key r) outbox = Inl i
    \<and> sorted_wrt (<) (map outbox_key (vec_insert i r outbox)) \<and> set (vec_insert i r outbox) = insert r (set outbox)"
proof -
  obtain i where i: "binary_search_by_key outbox_key (outbox_key r) outbox = Inl i"
    using outbox_index.search_absent [OF assms] by blast
  then show ?thesis using outbox_index.insert_sorted [OF assms(1) i] by simp
qed

lemma insert_outbox_entries:
  assumes "sorted_wrt (<) (map outbox_key outbox)" and "distinct (map ob_ordinal es)"
    and "\<forall>e\<in>set es. (c, ob_ordinal e) \<notin> outbox_key ` set outbox"
  shows "case map_res (outbox_record H c) es of
      Inl err \<Rightarrow> fold_res (insert_outbox_entry H c) es outbox = Inl err
    | Inr rs \<Rightarrow> \<exists>outbox'. fold_res (insert_outbox_entry H c) es outbox = Inr outbox'
        \<and> sorted_wrt (<) (map outbox_key outbox') \<and> set outbox' = set rs \<union> set outbox"
  using assms
proof (induction es arbitrary: outbox)
  case (Cons e es)
  show ?case
  proof (cases "outbox_record H c e")
    case (Inr r)
    then have key: "outbox_key r = (c, ob_ordinal e)" by (simp add: outbox_record_Ok outbox_key_def)
    with Cons.prems(3) have "outbox_key r \<notin> outbox_key ` set outbox" by simp
    from insert_outbox_new [OF Cons.prems(1) this] obtain i where
      i: "binary_search_by_key outbox_key (outbox_key r) outbox = Inl i"
        "sorted_wrt (<) (map outbox_key (vec_insert i r outbox))" "set (vec_insert i r outbox) = insert r (set outbox)"
      by blast
    from Cons.prems have "\<forall>e\<in>set es. (c, ob_ordinal e) \<notin> outbox_key ` set (vec_insert i r outbox)"
      using key i(3) by (auto simp: image_iff)
    with Cons.IH [OF i(2)] Cons.prems(2) Inr i show ?thesis
      by (auto simp: insert_outbox_entry_eq split: sum.splits)
  qed (simp add: insert_outbox_entry_eq)
qed simp


section \<open>The invariant\<close>

text \<open>The outbox holds one record for every entry of every committed bundle, and no other.\<close>

definition outbox_matches :: "hasher \<Rightarrow> (CandidateId \<times> CommitBundle) list \<Rightarrow> OutboxRecord list \<Rightarrow> bool" where
  "outbox_matches H bundles outbox \<longleftrightarrow>
     (\<forall>r\<in>set outbox. \<exists>b. (or_candidate_id r, b) \<in> set bundles \<and> or_entry r \<in> set (plan_entries (cbn_outbox_plan b))
        \<and> outbox_record H (or_candidate_id r) (or_entry r) = Inr (r\<lparr>or_acknowledged := False\<rparr>))
     \<and> (\<forall>(c, b)\<in>set bundles. \<forall>e\<in>set (plan_entries (cbn_outbox_plan b)).
          \<exists>r\<in>set outbox. or_candidate_id r = c \<and> or_entry r = e)"

lemma outbox_candidate:
  assumes "outbox_matches H bundles outbox" and "r \<in> set outbox"
  shows "or_candidate_id r \<in> fst ` set bundles"
proof -
  from assms obtain b where "(or_candidate_id r, b) \<in> set bundles" unfolding outbox_matches_def by blast
  then show ?thesis by (metis fst_conv image_eqI)
qed

definition shell_inv :: "hasher \<Rightarrow> Domain \<Rightarrow> ShellState \<Rightarrow> bool" where
  "shell_inv H d s \<longleftrightarrow>
     hash_value H d (sh_state s) = Inr (sh_root s) \<and> repr_valid (sh_state s)
     \<and> sorted_wrt (<) (map rp_replay_id (sh_replay s)) \<and> sorted_wrt (<) (map fst (sh_bundles s))
     \<and> sorted_wrt (<) (map outbox_key (sh_outbox s))
     \<and> sh_receipts s = map (\<lambda>(c, b). (c, cbn_receipt b)) (sh_bundles s)
     \<and> (\<forall>(c, b)\<in>set (sh_bundles s). cbn_candidate_id b = c \<and> bundle_built b)
     \<and> (\<forall>r\<in>set (sh_replay s). rp_candidate_id r \<in> fst ` set (sh_bundles s))
     \<and> outbox_matches H (sh_bundles s) (sh_outbox s)"

lemma shell_new_inv: "shell_new H v d = Inr s \<Longrightarrow> repr_valid v \<Longrightarrow> shell_inv H d s"
  by (auto simp: shell_new_def shell_inv_def outbox_matches_def)

lemma patch_valid_apply:
  assumes "patch_valid p" and "repr_valid v" and "patch_apply H p v d = Inr a"
  shows "repr_valid (ap_state a)"
  using patch_apply_laws(1) [OF assms(2) _ patch_try_new_disjoint assms(3)] assms(1)
  by (auto simp: patch_valid_def)

text \<open>The receipts are searched at the same positions as the bundles.\<close>

lemma receipts_search:
  assumes "sorted_wrt (<) (map fst bundles)"
  shows "binary_search_by_key fst c (map (\<lambda>(c, b). (c, f b)) bundles) = binary_search_by_key fst c bundles"
  by (rule ordered_search_unique [OF table_index.ordered_index_axioms table_index.ordered_index_axioms])
    (use assms in \<open>simp_all add: comp_def case_prod_unfold\<close>)

text \<open>The outcome of a commit of a fresh replay identity: what it checked and what it stores.\<close>

lemma apply_committed:
  assumes inv: "shell_inv H d s" and built: "bundle_built b"
    and res: "apply_reference_bundle H s d rid b = Inr r" and st: "cr_status r = Committed"
  obtains a rs i j where "bundle_binds H (sh_state s) d b a"
    "sh_root s = body_pre_root (cbn_body b)" "rid \<notin> rp_replay_id ` set (sh_replay s)"
    "cbn_candidate_id b \<notin> fst ` set (sh_bundles s)"
    "map_res (outbox_record H (cbn_candidate_id b)) (plan_entries (cbn_outbox_plan b)) = Inr rs"
    "binary_search_by_key rp_replay_id rid (sh_replay s) = Inl i"
    "binary_search_by_key fst (cbn_candidate_id b) (sh_bundles s) = Inl j"
    "sorted_wrt (<) (map outbox_key (sh_outbox (cr_state r)))"
    "set (sh_outbox (cr_state r)) = set rs \<union> set (sh_outbox s)"
    "cr_state r = \<lparr>sh_state = ap_state a, sh_root = ap_post_root a,
       sh_replay = vec_insert i \<lparr>rp_replay_id = rid, rp_candidate_id = cbn_candidate_id b\<rparr> (sh_replay s),
       sh_receipts = vec_insert j (cbn_candidate_id b, cbn_receipt b) (sh_receipts s),
       sh_bundles = vec_insert j (cbn_candidate_id b, b) (sh_bundles s),
       sh_outbox = sh_outbox (cr_state r)\<rparr>"
proof -
  let ?c = "cbn_candidate_id b"
  from inv have srt: "sorted_wrt (<) (map rp_replay_id (sh_replay s))" "sorted_wrt (<) (map fst (sh_bundles s))"
      "sorted_wrt (<) (map outbox_key (sh_outbox s))"
    and rc: "sh_receipts s = map (\<lambda>(c, b). (c, cbn_receipt b)) (sh_bundles s)"
    by (simp_all add: shell_inv_def)
  from res st obtain i a j outbox where
    i: "binary_search_by_key rp_replay_id rid (sh_replay s) = Inl i"
    and root: "sh_root s = body_pre_root (cbn_body b)"
    and a: "validate_and_apply H b (sh_state s) d = Inr a"
    and j: "binary_search_by_key fst ?c (sh_bundles s) = Inl j"
    and ob: "fold_res (insert_outbox_entry H ?c) (plan_entries (cbn_outbox_plan b)) (sh_outbox s) = Inr outbox"
    and r: "cr_state r = \<lparr>sh_state = ap_state a, sh_root = ap_post_root a,
       sh_replay = vec_insert i \<lparr>rp_replay_id = rid, rp_candidate_id = cbn_candidate_id b\<rparr> (sh_replay s),
       sh_receipts = vec_insert j (cbn_candidate_id b, cbn_receipt b) (sh_receipts s),
       sh_bundles = vec_insert j (cbn_candidate_id b, b) (sh_bundles s), sh_outbox = outbox\<rparr>"
  proof (cases "binary_search_by_key fst ?c (sh_bundles s)"; cases "binary_search_by_key rp_replay_id rid (sh_replay s)")
    fix j i assume "binary_search_by_key fst ?c (sh_bundles s) = Inl j"
      "binary_search_by_key rp_replay_id rid (sh_replay s) = Inl i"
    with res that show thesis
      by (auto simp: apply_reference_bundle_def rc receipts_search [OF srt(2)] if_Err_Ok)
  qed (use res st in \<open>auto simp: apply_reference_bundle_def Let_def if_Err_Ok split: sum.splits if_splits\<close>)
  have new: "?c \<notin> fst ` set (sh_bundles s)" by (rule table_index.missing_notin [OF srt(2) j])
  have "\<forall>e\<in>set (plan_entries (cbn_outbox_plan b)). (?c, ob_ordinal e) \<notin> outbox_key ` set (sh_outbox s)"
    using inv new outbox_candidate [of H "sh_bundles s" "sh_outbox s"] by (auto simp: shell_inv_def outbox_key_def)
  moreover have "distinct (map ob_ordinal (plan_entries (cbn_outbox_plan b)))"
    using built by (simp add: bundle_built_def strict_sorted_iff)
  ultimately obtain rs where rs: "map_res (outbox_record H ?c) (plan_entries (cbn_outbox_plan b)) = Inr rs"
      "sorted_wrt (<) (map outbox_key outbox)" "set outbox = set rs \<union> set (sh_outbox s)"
    using insert_outbox_entries [OF srt(3), of "plan_entries (cbn_outbox_plan b)" ?c H] ob by (auto split: sum.splits)
  show thesis
    using that [OF _ root replay_index.missing_notin [OF srt(1) i] new rs(1) i j] a rs(2,3) r
    by (simp add: validate_and_apply_Ok)
qed


lemma outbox_matches_commit:
  assumes "outbox_matches H bundles outbox" and "map_res (outbox_record H c) (plan_entries (cbn_outbox_plan b)) = Inr rs"
    and "set outbox' = set rs \<union> set outbox" and "set bundles' = insert (c, b) (set bundles)"
  shows "outbox_matches H bundles' outbox'"
proof -
  have old: "\<exists>b'. (or_candidate_id r, b') \<in> set bundles' \<and> or_entry r \<in> set (plan_entries (cbn_outbox_plan b'))
      \<and> outbox_record H (or_candidate_id r) (or_entry r) = Inr (r\<lparr>or_acknowledged := False\<rparr>)" if "r \<in> set outbox" for r
    using assms(1,4) that unfolding outbox_matches_def by blast
  have new: "(or_candidate_id r, b) \<in> set bundles' \<and> or_entry r \<in> set (plan_entries (cbn_outbox_plan b))
      \<and> outbox_record H (or_candidate_id r) (or_entry r) = Inr (r\<lparr>or_acknowledged := False\<rparr>)" if "r \<in> set rs" for r
  proof -
    from that obtain e where e: "e \<in> set (plan_entries (cbn_outbox_plan b))" "outbox_record H c e = Inr r"
      using map_res_mem [OF assms(2)] by blast
    then have "or_candidate_id r = c" "or_entry r = e" "r\<lparr>or_acknowledged := False\<rparr> = r"
      by (auto simp: outbox_record_Ok)
    with e assms(4) show ?thesis by simp
  qed
  have from_entry: "\<exists>r\<in>set rs. or_candidate_id r = c \<and> or_entry r = e" if "e \<in> set (plan_entries (cbn_outbox_plan b))" for e
    using map_res_all [OF assms(2) that] map_res_mem [OF assms(2)] that by (auto simp: outbox_record_Ok)
  have kept: "\<exists>r\<in>set outbox. or_candidate_id r = c' \<and> or_entry r = e"
    if "(c', b') \<in> set bundles" "e \<in> set (plan_entries (cbn_outbox_plan b'))" for c' b' e
    using assms(1) that unfolding outbox_matches_def by blast
  have "\<exists>r\<in>set outbox'. or_candidate_id r = c' \<and> or_entry r = e"
    if "(c', b') \<in> set bundles'" "e \<in> set (plan_entries (cbn_outbox_plan b'))" for c' b' e
  proof (cases "(c', b') \<in> set bundles")
    case True
    then show ?thesis using kept [OF _ that(2)] assms(3) by blast
  next
    case False
    with that(1) assms(4) have "c' = c" "b' = b" by simp_all
    with that(2) from_entry assms(3) show ?thesis by blast
  qed
  moreover have "\<exists>b'. (or_candidate_id r, b') \<in> set bundles' \<and> or_entry r \<in> set (plan_entries (cbn_outbox_plan b'))
      \<and> outbox_record H (or_candidate_id r) (or_entry r) = Inr (r\<lparr>or_acknowledged := False\<rparr>)" if "r \<in> set outbox'" for r
    using that old new assms(3) by blast
  ultimately show ?thesis unfolding outbox_matches_def by blast
qed

text \<open>A replay succeeds exactly when the identity was used for this candidate and the stored bundle
  is equal; it leaves the state as it is.\<close>

lemma apply_replayed:
  assumes "rid \<in> rp_replay_id ` set (sh_replay s) \<or> cr_status r = IdempotentReplay"
    and "sorted_wrt (<) (map rp_replay_id (sh_replay s))" and "sorted_wrt (<) (map fst (sh_bundles s))"
  shows "apply_reference_bundle H s d rid b = Inr r \<longleftrightarrow> r = \<lparr>cr_state = s, cr_status = IdempotentReplay\<rparr>
     \<and> \<lparr>rp_replay_id = rid, rp_candidate_id = cbn_candidate_id b\<rparr> \<in> set (sh_replay s)
     \<and> (cbn_candidate_id b, b) \<in> set (sh_bundles s)"
proof (cases "binary_search_by_key rp_replay_id rid (sh_replay s)")
  case (Inl i)
  then have no: "rid \<notin> rp_replay_id ` set (sh_replay s)" by (rule replay_index.missing_notin [OF assms(2)])
  with assms(1) have "cr_status r = IdempotentReplay" by simp
  with no Inl show ?thesis
    by (cases "binary_search_by_key fst (cbn_candidate_id b) (sh_bundles s)";
        cases "binary_search_by_key fst (cbn_candidate_id b) (sh_receipts s)")
      (auto simp: apply_reference_bundle_def if_Err_Ok image_iff)
next
  case (Inr i)
  note f = replay_index.search_found [OF assms(2) Inr]
  let ?e = "sh_replay s ! i"
  have e: "\<lparr>rp_replay_id = rid, rp_candidate_id = c\<rparr> \<in> set (sh_replay s) \<longleftrightarrow> rp_candidate_id ?e = c" for c
    using replay_index.found_mem [OF assms(2) Inr, of "\<lparr>rp_replay_id = rid, rp_candidate_id = c\<rparr>"] f
    by (cases ?e) auto
  show ?thesis
  proof (cases "binary_search_by_key fst (cbn_candidate_id b) (sh_bundles s)")
    case (Inl k)
    then have "cbn_candidate_id b \<notin> fst ` set (sh_bundles s)" by (rule table_index.missing_notin [OF assms(3)])
    then show ?thesis using Inl Inr e by (auto simp: apply_reference_bundle_def if_Err_Ok image_iff Let_def)
  next
    case k: (Inr k)
    have "(cbn_candidate_id b, b) \<in> set (sh_bundles s) \<longleftrightarrow> snd (sh_bundles s ! k) = b"
      using table_index.found_mem [OF assms(3) k, of "(cbn_candidate_id b, b)"] table_index.search_found [OF assms(3) k]
      by (cases "sh_bundles s ! k") auto
    then show ?thesis using k Inr e by (auto simp: apply_reference_bundle_def if_Err_Ok image_iff Let_def)
  qed
qed

lemma apply_reference_bundle_inv:
  assumes inv: "shell_inv H d s" and built: "bundle_built b"
    and res: "apply_reference_bundle H s d rid b = Inr r"
  shows "shell_inv H d (cr_state r)"
proof (cases "cr_status r")
  case Committed
  from apply_committed [OF inv built res Committed] obtain a rs i j where
    binds: "bundle_binds H (sh_state s) d b a" and new: "cbn_candidate_id b \<notin> fst ` set (sh_bundles s)"
    and rs: "map_res (outbox_record H (cbn_candidate_id b)) (plan_entries (cbn_outbox_plan b)) = Inr rs"
    and i: "binary_search_by_key rp_replay_id rid (sh_replay s) = Inl i"
    and j: "binary_search_by_key fst (cbn_candidate_id b) (sh_bundles s) = Inl j"
    and ob: "sorted_wrt (<) (map outbox_key (sh_outbox (cr_state r)))"
      "set (sh_outbox (cr_state r)) = set rs \<union> set (sh_outbox s)"
    and st: "cr_state r = \<lparr>sh_state = ap_state a, sh_root = ap_post_root a,
       sh_replay = vec_insert i \<lparr>rp_replay_id = rid, rp_candidate_id = cbn_candidate_id b\<rparr> (sh_replay s),
       sh_receipts = vec_insert j (cbn_candidate_id b, cbn_receipt b) (sh_receipts s),
       sh_bundles = vec_insert j (cbn_candidate_id b, b) (sh_bundles s),
       sh_outbox = sh_outbox (cr_state r)\<rparr>" .
  have fields: "sh_state (cr_state r) = ap_state a" "sh_root (cr_state r) = ap_post_root a"
      "sh_replay (cr_state r) = vec_insert i \<lparr>rp_replay_id = rid, rp_candidate_id = cbn_candidate_id b\<rparr> (sh_replay s)"
      "sh_receipts (cr_state r) = vec_insert j (cbn_candidate_id b, cbn_receipt b) (sh_receipts s)"
      "sh_bundles (cr_state r) = vec_insert j (cbn_candidate_id b, b) (sh_bundles s)"
    using arg_cong [OF st, of sh_state] arg_cong [OF st, of sh_root] arg_cong [OF st, of sh_replay]
      arg_cong [OF st, of sh_receipts] arg_cong [OF st, of sh_bundles] by simp_all
  note I = inv [unfolded shell_inv_def]
  have "hash_value H d (ap_state a) = Inr (ap_post_root a)" "repr_valid (ap_state a)"
    using binds I built patch_valid_apply by (auto simp: bundle_binds_def patch_apply_Ok bundle_built_def)
  moreover have "sorted_wrt (<) (map rp_replay_id (sh_replay (cr_state r)))"
    using replay_index.insert_sorted [of "sh_replay s" "\<lparr>rp_replay_id = rid, rp_candidate_id = cbn_candidate_id b\<rparr>" i] I i
    by (simp add: fields)
  moreover have "sorted_wrt (<) (map fst (sh_bundles (cr_state r)))"
    using table_index.insert_sorted [of "sh_bundles s" "(cbn_candidate_id b, b)" j] I j by (simp add: fields)
  moreover have "outbox_matches H (sh_bundles (cr_state r)) (sh_outbox (cr_state r))"
    using I by (intro outbox_matches_commit [OF _ rs ob(2)]) (simp_all add: fields)
  ultimately show ?thesis using I ob(1) built unfolding shell_inv_def
    by (auto simp: fields map_vec_insert)
next
  case IdempotentReplay
  then have "cr_state r = s"
    using res inv apply_replayed [of rid s r H d b] by (simp add: shell_inv_def)
  with inv show ?thesis by simp
qed


section \<open>Acknowledgement\<close>

text \<open>A successful acknowledgement marks the first record of the delivery, which carries the observed
  hash, and changes nothing else.\<close>

lemma acknowledge_Ok:
  "acknowledge s dl h = Inr s' \<longleftrightarrow>
     (\<exists>i. position (\<lambda>r. or_delivery_id r = dl) (sh_outbox s) = Some i \<and> or_entry_hash (sh_outbox s ! i) = h
        \<and> s' = s\<lparr>sh_outbox := (sh_outbox s)[i := (sh_outbox s ! i)\<lparr>or_acknowledged := True\<rparr>]\<rparr>)"
proof (cases "position (\<lambda>r. or_delivery_id r = dl) (sh_outbox s)")
  case (Some i)
  have "s\<lparr>sh_outbox := (sh_outbox s)[i := (sh_outbox s ! i)\<lparr>or_acknowledged := True\<rparr>]\<rparr> = s"
    if "or_acknowledged (sh_outbox s ! i)"
  proof -
    from that have "(sh_outbox s ! i)\<lparr>or_acknowledged := True\<rparr> = sh_outbox s ! i" by simp
    then show ?thesis by (simp only: list_update_id) simp
  qed
  with Some show ?thesis by (auto simp: acknowledge_def Let_def)
qed (simp add: acknowledge_def)

lemma acknowledge_outbox_matches:
  assumes "outbox_matches H bundles outbox" and "i < length outbox"
  shows "outbox_matches H bundles (outbox[i := (outbox ! i)\<lparr>or_acknowledged := True\<rparr>])"
proof -
  let ?clear = "\<lambda>r. r\<lparr>or_acknowledged := False\<rparr>"
  have "outbox_matches H bundles ob \<longleftrightarrow>
      (\<forall>r\<in>set (map ?clear ob). \<exists>b. (or_candidate_id r, b) \<in> set bundles
         \<and> or_entry r \<in> set (plan_entries (cbn_outbox_plan b)) \<and> outbox_record H (or_candidate_id r) (or_entry r) = Inr r)
      \<and> (\<forall>(c, b)\<in>set bundles. \<forall>e\<in>set (plan_entries (cbn_outbox_plan b)).
          \<exists>r\<in>set (map ?clear ob). or_candidate_id r = c \<and> or_entry r = e)" for ob
    by (simp add: outbox_matches_def)
  note matches = this
  have "map ?clear (outbox[i := (outbox ! i)\<lparr>or_acknowledged := True\<rparr>]) = map ?clear outbox"
    using assms(2) by (simp add: map_update list_update_same_conv)
  then show ?thesis using assms(1) unfolding matches by (simp only:)
qed

lemma acknowledge_inv:
  assumes "shell_inv H d s" and "acknowledge s dl h = Inr s'"
  shows "shell_inv H d s'"
proof -
  from assms(2) obtain i where i: "i < length (sh_outbox s)"
    and s': "s' = s\<lparr>sh_outbox := (sh_outbox s)[i := (sh_outbox s ! i)\<lparr>or_acknowledged := True\<rparr>]\<rparr>"
    by (auto simp: acknowledge_Ok position_Some)
  have "map outbox_key ((sh_outbox s)[i := (sh_outbox s ! i)\<lparr>or_acknowledged := True\<rparr>]) = map outbox_key (sh_outbox s)"
    using i by (simp add: map_update outbox_key_def list_update_same_conv)
  then show ?thesis using assms(1) acknowledge_outbox_matches [OF _ i] by (simp add: shell_inv_def s')
qed

section \<open>Runs of the shell\<close>

text \<open>What a client does with a shell: commit a bundle under a replay identity, or acknowledge a
  delivery; an attempt that fails leaves the shell as it is.\<close>

datatype ShellEvent = Commit hash32 CommitBundle CommitStatus | Acknowledge hash32 hash32

inductive shell_run :: "hasher \<Rightarrow> Domain \<Rightarrow> ShellState \<Rightarrow> ShellEvent list \<Rightarrow> ShellState \<Rightarrow> bool"
    for H d where
  run_refl: "shell_run H d s [] s"
| run_commit: "shell_run H d s es t \<Longrightarrow> bundle_built b \<Longrightarrow> apply_reference_bundle H t d rid b = Inr r \<Longrightarrow>
    shell_run H d s (es @ [Commit rid b (cr_status r)]) (cr_state r)"
| run_acknowledge: "shell_run H d s es t \<Longrightarrow> acknowledge t dl h = Inr u \<Longrightarrow>
    shell_run H d s (es @ [Acknowledge dl h]) u"

inductive_cases shell_run_snocE: "shell_run H d s (es @ [e]) t"

lemma shell_run_inv: "shell_run H d s es t \<Longrightarrow> shell_inv H d s \<Longrightarrow> shell_inv H d t"
  by (induction rule: shell_run.induct) (auto intro: apply_reference_bundle_inv acknowledge_inv)

text \<open>What was committed stays: replay identities, candidates and their bundles.\<close>

lemma shell_run_keeps:
  assumes "shell_run H d s es t" and "shell_inv H d s"
  shows "set (sh_replay s) \<subseteq> set (sh_replay t) \<and> set (sh_bundles s) \<subseteq> set (sh_bundles t)"
  using assms
proof (induction rule: shell_run.induct)
  case (run_commit s es t b rid r)
  then have inv: "shell_inv H d t" by (auto intro: shell_run_inv)
  show ?case
  proof (cases "cr_status r")
    case Committed
    from apply_committed [OF inv run_commit(2,3) Committed] obtain i j x y ob where
      "cr_state r = \<lparr>sh_state = x, sh_root = y,
       sh_replay = vec_insert i \<lparr>rp_replay_id = rid, rp_candidate_id = cbn_candidate_id b\<rparr> (sh_replay t),
       sh_receipts = vec_insert j (cbn_candidate_id b, cbn_receipt b) (sh_receipts t),
       sh_bundles = vec_insert j (cbn_candidate_id b, b) (sh_bundles t), sh_outbox = ob\<rparr>" by metis
    then show ?thesis using run_commit by auto
  next
    case IdempotentReplay
    then show ?thesis using run_commit inv apply_replayed [of rid t r H d b] by (auto simp: shell_inv_def)
  qed
qed (auto simp: acknowledge_Ok)

section \<open>The abstract shell\<close>

text \<open>The contract of the shell over finite maps, without tables, positions or searches.\<close>

record AbstractShell =
  as_state :: Value
  as_root :: hash32
  as_replay :: "hash32 \<rightharpoonup> CandidateId"
  as_bundles :: "CandidateId \<rightharpoonup> CommitBundle"
  as_outbox :: "CandidateId \<times> u32 \<rightharpoonup> OutboxRecord"

definition abs_shell :: "ShellState \<Rightarrow> AbstractShell" where
  "abs_shell s = \<lparr>as_state = sh_state s, as_root = sh_root s,
     as_replay = (\<lambda>k. map_option rp_candidate_id (index_lookup (binary_search_by_key rp_replay_id) k (sh_replay s))),
     as_bundles = (\<lambda>k. map_option snd (index_lookup (binary_search_by_key fst) k (sh_bundles s))),
     as_outbox = (\<lambda>k. index_lookup (binary_search_by_key outbox_key) k (sh_outbox s))\<rparr>"

definition abs_commit ::
    "hasher \<Rightarrow> Domain \<Rightarrow> AbstractShell \<Rightarrow> hash32 \<Rightarrow> CommitBundle \<Rightarrow> ShellError + AbstractShell \<times> CommitStatus" where
  "abs_commit H d A rid b =
     (let c = cbn_candidate_id b; pre = body_pre_root (cbn_body b) in
      case as_replay A rid of
        Some c' \<Rightarrow>
          if c' \<noteq> c then Err (SHE_ReplayConflict rid c' c)
          else if as_bundles A c \<noteq> Some b then Err SHE_IdempotentBundleMismatch
          else Ok (A, IdempotentReplay)
      | None \<Rightarrow>
          if as_root A \<noteq> pre then Err (SHE_RootConflict pre (as_root A))
          else
          rbind (map_err SHE_Bundle (validate_and_apply H b (as_state A) d)) (\<lambda>a.
          if as_bundles A c \<noteq> None then Err SHE_CandidateAlreadyCommitted
          else
          rbind (map_res (outbox_record H c) (plan_entries (cbn_outbox_plan b))) (\<lambda>rs.
          Ok (\<lparr>as_state = ap_state a, as_root = ap_post_root a, as_replay = (as_replay A)(rid \<mapsto> c),
               as_bundles = (as_bundles A)(c \<mapsto> b),
               as_outbox = as_outbox A ++ map_of (map (\<lambda>r. (outbox_key r, r)) rs)\<rparr>, Committed))))"

text \<open>The outbox of the new state, read as a map.\<close>

lemma outbox_lookup_union:
  assumes "sorted_wrt (<) (map outbox_key ob)" and "sorted_wrt (<) (map outbox_key ob')"
    and "set ob' = set rs \<union> set ob" and "distinct (map outbox_key rs)"
    and "outbox_key ` set rs \<inter> outbox_key ` set ob = {}"
  shows "(\<lambda>k. index_lookup (binary_search_by_key outbox_key) k ob') =
    (\<lambda>k. index_lookup (binary_search_by_key outbox_key) k ob) ++ map_of (map (\<lambda>r. (outbox_key r, r)) rs)"
proof
  fix k
  let ?m = "map_of (map (\<lambda>r. (outbox_key r, r)) rs)"
  have m: "?m k = Some r \<longleftrightarrow> r \<in> set rs \<and> outbox_key r = k" for r
    using assms(4) by (subst map_of_eq_Some_iff) (auto simp: comp_def)
  show "index_lookup (binary_search_by_key outbox_key) k ob' =
    ((\<lambda>k. index_lookup (binary_search_by_key outbox_key) k ob) ++ ?m) k"
  proof (rule option_eq_by_Some)
    fix r
    have "?m k = None" if "r \<in> set ob" "outbox_key r = k"
      using that assms(5) by (auto simp: map_of_eq_None_iff image_iff)
    then show "index_lookup (binary_search_by_key outbox_key) k ob' = Some r \<longleftrightarrow>
      ((\<lambda>k. index_lookup (binary_search_by_key outbox_key) k ob) ++ ?m) k = Some r"
      unfolding map_add_Some_iff m outbox_index.lookup_iff [OF assms(2)] outbox_index.lookup_iff [OF assms(1)] assms(3)
      by (cases "r \<in> set ob"; cases "outbox_key r = k") simp_all
  qed
qed

lemma map_res_outbox_keys:
  "map_res (outbox_record H c) es = Inr rs \<Longrightarrow> map outbox_key rs = map (\<lambda>e. (c, ob_ordinal e)) es"
  by (induction es arbitrary: rs) (auto simp: outbox_record_Ok outbox_key_def)

lemma apply_reference_bundle_refines:
  assumes inv: "shell_inv H d s" and built: "bundle_built b"
  shows "map_sum id (\<lambda>r. (abs_shell (cr_state r), cr_status r)) (apply_reference_bundle H s d rid b)
    = abs_commit H d (abs_shell s) rid b"
proof -
  let ?c = "cbn_candidate_id b" and ?es = "plan_entries (cbn_outbox_plan b)"
  from inv have srt: "sorted_wrt (<) (map rp_replay_id (sh_replay s))" "sorted_wrt (<) (map fst (sh_bundles s))"
      "sorted_wrt (<) (map outbox_key (sh_outbox s))"
    and rc: "sh_receipts s = map (\<lambda>(c, b). (c, cbn_receipt b)) (sh_bundles s)"
    by (simp_all add: shell_inv_def)
  show ?thesis
  proof (cases "binary_search_by_key rp_replay_id rid (sh_replay s)")
    case i: (Inr i)
    let ?c' = "rp_candidate_id (sh_replay s ! i)"
    have "?c' \<in> fst ` set (sh_bundles s)"
      using inv replay_index.search_found [OF srt(1) i] by (auto simp: shell_inv_def)
    then obtain j where j: "binary_search_by_key fst ?c' (sh_bundles s) = Inr j"
      using table_index.missing_notin [OF srt(2), of ?c'] by (cases "binary_search_by_key fst ?c' (sh_bundles s)") auto
    have "as_replay (abs_shell s) rid = Some ?c'" "as_bundles (abs_shell s) ?c' = Some (snd (sh_bundles s ! j))"
      by (simp_all add: abs_shell_def index_lookup_def i j)
    with i j show ?thesis by (auto simp: apply_reference_bundle_def abs_commit_def Let_def)
  next
    case i: (Inl i)
    show ?thesis
    proof (cases "binary_search_by_key fst ?c (sh_bundles s)")
      case (Inr j)
      with i show ?thesis
        by (cases "validate_and_apply H b (sh_state s) d")
          (simp_all add: apply_reference_bundle_def abs_commit_def abs_shell_def index_lookup_def Let_def)
    next
      case j: (Inl j)
      have new: "?c \<notin> fst ` set (sh_bundles s)" by (rule table_index.missing_notin [OF srt(2) j])
      then have fresh: "\<forall>e\<in>set ?es. (?c, ob_ordinal e) \<notin> outbox_key ` set (sh_outbox s)"
        using inv outbox_candidate [of H "sh_bundles s" "sh_outbox s"] by (auto simp: shell_inv_def outbox_key_def)
      have dist: "distinct (map ob_ordinal ?es)"
        using built by (simp add: bundle_built_def strict_sorted_iff)
      note ins = insert_outbox_entries [OF srt(3) dist fresh, of H]
      show ?thesis
      proof (cases "map_res (outbox_record H ?c) ?es")
        case (Inl err)
        with ins i j show ?thesis
          by (cases "validate_and_apply H b (sh_state s) d")
            (simp_all add: apply_reference_bundle_def abs_commit_def abs_shell_def index_lookup_def Let_def
              rc receipts_search [OF srt(2)])
      next
        case rs: (Inr rs)
        with ins obtain ob where ob: "fold_res (insert_outbox_entry H ?c) ?es (sh_outbox s) = Inr ob"
            "sorted_wrt (<) (map outbox_key ob)" "set ob = set rs \<union> set (sh_outbox s)" by auto
        note keys = map_res_outbox_keys [OF rs]
        have "distinct (map outbox_key rs)" unfolding keys using dist
          by (metis (mono_tags, lifting) distinct_map inj_on_def prod.inject)
        moreover have "outbox_key ` set rs \<inter> outbox_key ` set (sh_outbox s) = {}"
          using fresh arg_cong [OF keys, of set] by auto
        ultimately have lookup: "(\<lambda>k. index_lookup (binary_search_by_key outbox_key) k ob) =
            (\<lambda>k. index_lookup (binary_search_by_key outbox_key) k (sh_outbox s)) ++ map_of (map (\<lambda>r. (outbox_key r, r)) rs)"
          by (rule outbox_lookup_union [OF srt(3) ob(2,3)])
        have replay: "(\<lambda>k. map_option rp_candidate_id (index_lookup (binary_search_by_key rp_replay_id) k
            (vec_insert i \<lparr>rp_replay_id = rid, rp_candidate_id = ?c\<rparr> (sh_replay s))))
          = (\<lambda>k. map_option rp_candidate_id (index_lookup (binary_search_by_key rp_replay_id) k (sh_replay s)))(rid \<mapsto> ?c)"
          using replay_index.lookup_insert [OF srt(1), of "\<lparr>rp_replay_id = rid, rp_candidate_id = ?c\<rparr>" i] i by auto
        have table: "(\<lambda>k. map_option snd (index_lookup (binary_search_by_key fst) k (vec_insert j (?c, b) (sh_bundles s))))
          = (\<lambda>k. map_option snd (index_lookup (binary_search_by_key fst) k (sh_bundles s)))(?c \<mapsto> b)"
          using table_index.lookup_insert [OF srt(2), of "(?c, b)" j] j by auto
        from i j rs ob(1) show ?thesis
          by (cases "validate_and_apply H b (sh_state s) d")
            (simp_all add: apply_reference_bundle_def abs_commit_def abs_shell_def Let_def
              rc receipts_search [OF srt(2)] lookup replay table, simp_all add: index_lookup_def)
      qed
    qed
  qed
qed

section \<open>Relaying the outbox\<close>

text \<open>What a client does with the outbox: hand the next pending record to a destination and
  acknowledge what the destination observed.\<close>

definition relay_next ::
    "('d \<Rightarrow> hash32 \<Rightarrow> hash32 \<Rightarrow> OutboxEntry \<Rightarrow> 'e + hash32 \<times> 'd) \<Rightarrow> 'd \<Rightarrow> ShellState \<Rightarrow> ('e + ShellError) + 'd \<times> ShellState" where
  "relay_next deliver_to dest s =
     (case next_pending s of
        None \<Rightarrow> Inr (dest, s)
      | Some r \<Rightarrow> rbind (map_err Inl (deliver_to dest (or_delivery_id r) (or_entry_hash r) (or_entry r))) (\<lambda>(h, dest).
          rbind (map_err Inr (acknowledge s (or_delivery_id r) h)) (\<lambda>s. Inr (dest, s))))"

fun relay_times ::
    "nat \<Rightarrow> ('d \<Rightarrow> hash32 \<Rightarrow> hash32 \<Rightarrow> OutboxEntry \<Rightarrow> 'e + hash32 \<times> 'd) \<Rightarrow> 'd \<Rightarrow> ShellState \<Rightarrow> ('e + ShellError) + 'd \<times> ShellState" where
  "relay_times 0 deliver_to dest s = Inr (dest, s)"
| "relay_times (Suc n) deliver_to dest s = rbind (relay_next deliver_to dest s) (\<lambda>(dest, s). relay_times n deliver_to dest s)"

definition pending :: "ShellState \<Rightarrow> OutboxRecord list" where
  "pending s = filter (\<lambda>r. \<not> or_acknowledged r) (sh_outbox s)"

lemma find_prefix: "\<forall>x\<in>set xs. \<not> P x \<Longrightarrow> P r \<Longrightarrow> find P (xs @ r # ys) = Some r"
  by (induction xs) auto

lemma position_prefix: "\<forall>x\<in>set xs. \<not> P x \<Longrightarrow> P r \<Longrightarrow> position P (xs @ r # ys) = Some (length xs)"
  by (induction xs) auto

lemma split_distinct_other:
  assumes "distinct (map f (xs @ r # ys))" and "x \<in> set xs \<union> set ys" shows "f x \<noteq> f r"
  using assms by (metis Un_iff distinct_append distinct.simps(2) disjoint_iff image_eqI list.set_map list.simps(9)
      list.set_intros(1) map_append)

text \<open>The contract of \<^verbatim>\<open>IdempotentDestination\<close>: it delivers once by identity, repeats are accepted
  without effect, and an identity is never bound to a second content.\<close>

locale idempotent_destination =
  fixes deliver_to :: "'d \<Rightarrow> hash32 \<Rightarrow> hash32 \<Rightarrow> OutboxEntry \<Rightarrow> 'e + hash32 \<times> 'd"
    and delivered :: "'d \<Rightarrow> hash32 \<rightharpoonup> hash32"
  assumes deliver_new: "delivered dest k = None \<Longrightarrow>
      \<exists>dest'. deliver_to dest k h e = Inr (h, dest') \<and> delivered dest' = (delivered dest)(k \<mapsto> h)"
    and deliver_again: "delivered dest k = Some h \<Longrightarrow> deliver_to dest k h e = Inr (h, dest)"
    and deliver_other: "delivered dest k = Some h' \<Longrightarrow> h' \<noteq> h \<Longrightarrow> \<exists>err. deliver_to dest k h e = Inl err"
begin

text \<open>A destination agrees with an outbox when it has bound none of its identities to other content.\<close>

definition agrees :: "'d \<Rightarrow> OutboxRecord list \<Rightarrow> bool" where
  "agrees dest outbox \<longleftrightarrow> (\<forall>r\<in>set outbox. \<forall>h. delivered dest (or_delivery_id r) = Some h \<longrightarrow> h = or_entry_hash r)"

lemma deliver_agreeing:
  assumes "delivered dest k = None \<or> delivered dest k = Some h"
  shows "\<exists>dest'. deliver_to dest k h e = Inr (h, dest') \<and> delivered dest' = (delivered dest)(k \<mapsto> h)"
  using assms deliver_new [of dest k h e] deliver_again [of dest k h e] map_upd_triv [of "delivered dest" k h] by auto

lemma deliver_binds_once:
  assumes "deliver_to dest k h e = Inr (h', dest')"
  shows "h' = h \<and> delivered dest' = (delivered dest)(k \<mapsto> h)"
proof (cases "delivered dest k = None \<or> delivered dest k = Some h")
  case True
  from deliver_agreeing [OF this, of e] assms show ?thesis by auto
next
  case False
  with deliver_other [of dest k _ h e] assms show ?thesis by auto
qed

lemma relay_step:
  assumes first: "sh_outbox s = xs @ r # ys" "\<forall>x\<in>set xs. or_acknowledged x" "\<not> or_acknowledged r"
    and dist: "distinct (map or_delivery_id (sh_outbox s))" and agree: "agrees dest (sh_outbox s)"
  shows "\<exists>dest'. relay_next deliver_to dest s = Inr (dest', s\<lparr>sh_outbox := xs @ r\<lparr>or_acknowledged := True\<rparr> # ys\<rparr>)
    \<and> delivered dest' = (delivered dest)(or_delivery_id r \<mapsto> or_entry_hash r)"
proof -
  from agree have "delivered dest (or_delivery_id r) = None \<or> delivered dest (or_delivery_id r) = Some (or_entry_hash r)"
    unfolding agrees_def first(1) by (cases "delivered dest (or_delivery_id r)") auto
  from deliver_agreeing [OF this] obtain dest' where
    d: "deliver_to dest (or_delivery_id r) (or_entry_hash r) (or_entry r) = Inr (or_entry_hash r, dest')"
      "delivered dest' = (delivered dest)(or_delivery_id r \<mapsto> or_entry_hash r)" by blast
  have "next_pending s = Some r"
    using first by (auto simp: next_pending_def find_prefix)
  moreover have "position (\<lambda>x. or_delivery_id x = or_delivery_id r) (sh_outbox s) = Some (length xs)"
    unfolding first(1) using split_distinct_other [OF dist [unfolded first(1)]]
    by (intro position_prefix) auto
  then have "acknowledge s (or_delivery_id r) (or_entry_hash r) = Inr (s\<lparr>sh_outbox := xs @ r\<lparr>or_acknowledged := True\<rparr> # ys\<rparr>)"
    by (auto simp: acknowledge_Ok first(1))
  ultimately show ?thesis using d by (simp add: relay_next_def)
qed

text \<open>As many steps as there are pending records drain the outbox, even when some of them had been
  delivered before without being acknowledged.\<close>

lemma relay_drains:
  assumes "distinct (map or_delivery_id (sh_outbox s))" and "agrees dest (sh_outbox s)"
  shows "\<exists>dest'. relay_times (length (pending s)) deliver_to dest s =
      Inr (dest', s\<lparr>sh_outbox := map (\<lambda>r. r\<lparr>or_acknowledged := True\<rparr>) (sh_outbox s)\<rparr>)
    \<and> delivered dest' = delivered dest ++ map_of (map (\<lambda>r. (or_delivery_id r, or_entry_hash r)) (pending s))"
  using assms
proof (induction "length (pending s)" arbitrary: s dest)
  case 0
  then have "map (\<lambda>r. r\<lparr>or_acknowledged := True\<rparr>) (sh_outbox s) = sh_outbox s"
    by (auto simp: pending_def filter_empty_conv intro: map_idI)
  with 0(1) show ?case by (auto simp: pending_def)
next
  case (Suc n)
  then have "pending s \<noteq> []" by auto
  then have "\<exists>r\<in>set (sh_outbox s). \<not> or_acknowledged r" by (auto simp: pending_def filter_empty_conv)
  from split_list_first_prop [OF this] obtain xs r ys where first: "sh_outbox s = xs @ r # ys" "\<not> or_acknowledged r"
      "\<forall>x\<in>set xs. or_acknowledged x" by blast
  let ?s = "s\<lparr>sh_outbox := xs @ r\<lparr>or_acknowledged := True\<rparr> # ys\<rparr>"
  from relay_step [OF first(1,3,2) Suc.prems] obtain d1 where d1: "relay_next deliver_to dest s = Inr (d1, ?s)"
      "delivered d1 = (delivered dest)(or_delivery_id r \<mapsto> or_entry_hash r)" by blast
  have p: "pending s = r # pending ?s" using first by (simp add: pending_def filter_empty_conv)
  have "agrees d1 (sh_outbox ?s)"
    using Suc.prems(2) d1(2) split_distinct_other [OF Suc.prems(1) [unfolded first(1)]] unfolding first(1)
    by (auto simp: agrees_def)
  moreover have "distinct (map or_delivery_id (sh_outbox ?s))" using Suc.prems(1) first(1) by simp
  moreover have "n = length (pending ?s)" using Suc.hyps(2) p by simp
  ultimately obtain d2 where d2: "relay_times n deliver_to d1 ?s =
      Inr (d2, ?s\<lparr>sh_outbox := map (\<lambda>r. r\<lparr>or_acknowledged := True\<rparr>) (sh_outbox ?s)\<rparr>)"
      "delivered d2 = delivered d1 ++ map_of (map (\<lambda>r. (or_delivery_id r, or_entry_hash r)) (pending ?s))"
    using Suc.hyps(1) [of ?s d1] by auto
  have "or_delivery_id r \<notin> or_delivery_id ` set (pending ?s)"
    using Suc.prems(1) first by (auto simp: pending_def)
  then have "delivered d2 = delivered dest ++ map_of (map (\<lambda>r. (or_delivery_id r, or_entry_hash r)) (pending s))"
    unfolding d2(2) d1(2) p by (auto simp: map_add_upd_left dom_map_of_conv_image_fst image_image)
  moreover have "relay_times (length (pending s)) deliver_to dest s =
      Inr (d2, s\<lparr>sh_outbox := map (\<lambda>r. r\<lparr>or_acknowledged := True\<rparr>) (sh_outbox s)\<rparr>)"
    using d1(1) d2(1) first(1) unfolding Suc.hyps(2) [symmetric] by simp
  ultimately show ?case by blast
qed

end

interpretation memory_destination: idempotent_destination deliver md_delivered
  by unfold_locales (auto simp: deliver_def)

lemma sorted_key_unique:
  assumes "sorted_wrt (<) (map key xs)" and "x \<in> set xs" "y \<in> set xs" and "key x = (key y :: 'k :: linorder)"
  shows "x = y"
  using assms by (simp add: strict_sorted_iff distinct_map inj_on_def)

section \<open>History\<close>

text \<open>The bundles that a run committed, with their replay identities, in order.\<close>

fun committed :: "ShellEvent list \<Rightarrow> (hash32 \<times> CommitBundle) list" where
  "committed [] = []"
| "committed (Commit rid b Committed # es) = (rid, b) # committed es"
| "committed (Commit _ _ IdempotentReplay # es) = committed es"
| "committed (Acknowledge _ _ # es) = committed es"

lemma committed_append [simp]: "committed (es @ es') = committed es @ committed es'"
  by (induction es rule: committed.induct) simp_all

text \<open>Every committed bundle starts at the root where the one before it ended.\<close>

fun root_chain :: "hash32 \<Rightarrow> CommitBundle list \<Rightarrow> hash32 \<Rightarrow> bool" where
  "root_chain h [] h' \<longleftrightarrow> h' = h"
| "root_chain h (b # bs) h' \<longleftrightarrow> body_pre_root (cbn_body b) = h \<and> root_chain (body_post_root (cbn_body b)) bs h'"

lemma root_chain_snoc:
  "root_chain h (bs @ [b]) h' \<longleftrightarrow> root_chain h bs (body_pre_root (cbn_body b)) \<and> body_post_root (cbn_body b) = h'"
  by (induction bs arbitrary: h) auto

definition history :: "ShellState \<Rightarrow> (hash32 \<times> CommitBundle) list \<Rightarrow> ShellState \<Rightarrow> bool" where
  "history s cs t \<longleftrightarrow> distinct (map fst cs) \<and> distinct (map (\<lambda>(_, b). cbn_candidate_id b) cs)
     \<and> set (sh_replay t) = (\<lambda>(rid, b). \<lparr>rp_replay_id = rid, rp_candidate_id = cbn_candidate_id b\<rparr>) ` set cs
     \<and> set (sh_bundles t) = (\<lambda>(_, b). (cbn_candidate_id b, b)) ` set cs
     \<and> root_chain (sh_root s) (map snd cs) (sh_root t)"

lemma history_commit:
  assumes inv: "shell_inv H d t" and built: "bundle_built b" and hist: "history s cs t"
    and res: "apply_reference_bundle H t d rid b = Inr r" and st: "cr_status r = Committed"
  shows "history s (cs @ [(rid, b)]) (cr_state r)"
proof -
  from apply_committed [OF inv built res st] obtain a i j ob where
    binds: "bundle_binds H (sh_state t) d b a" and root: "sh_root t = body_pre_root (cbn_body b)"
    and new: "rid \<notin> rp_replay_id ` set (sh_replay t)" "cbn_candidate_id b \<notin> fst ` set (sh_bundles t)"
    and r: "cr_state r = \<lparr>sh_state = ap_state a, sh_root = ap_post_root a,
       sh_replay = vec_insert i \<lparr>rp_replay_id = rid, rp_candidate_id = cbn_candidate_id b\<rparr> (sh_replay t),
       sh_receipts = vec_insert j (cbn_candidate_id b, cbn_receipt b) (sh_receipts t),
       sh_bundles = vec_insert j (cbn_candidate_id b, b) (sh_bundles t), sh_outbox = ob\<rparr>" by metis
  have "rid \<notin> fst ` set cs" "cbn_candidate_id b \<notin> (\<lambda>(_, b). cbn_candidate_id b) ` set cs"
    using new hist by (auto simp: history_def image_image case_prod_beta)
  moreover have "body_post_root (cbn_body b) = ap_post_root a" using binds by (simp add: bundle_binds_def)
  ultimately show ?thesis using hist root unfolding history_def r by (auto simp: root_chain_snoc)
qed

lemma run_history:
  assumes "shell_run H d s es t" and "shell_inv H d s" and "history s [] s"
  shows "history s (committed es) t"
  using assms
proof (induction rule: shell_run.induct)
  case (run_commit s es t b rid r)
  have inv: "shell_inv H d t" using run_commit shell_run_inv by blast
  have hist: "history s (committed es) t" using run_commit by blast
  show ?case
  proof (cases "cr_status r")
    case Committed
    with history_commit [OF inv run_commit(2) hist run_commit(3)] show ?thesis by simp
  next
    case IdempotentReplay
    with run_commit inv apply_replayed [of rid t r H d b] hist show ?thesis by (simp add: shell_inv_def)
  qed
next
  case (run_acknowledge s es t dl h u)
  then show ?case by (auto simp: acknowledge_Ok history_def)
qed simp

lemma shell_new_history: "shell_new H v d = Inr s \<Longrightarrow> history s [] s"
  by (auto simp: shell_new_def history_def)

lemma acknowledge_distinct:
  assumes dist: "distinct (map or_delivery_id (sh_outbox s))"
  shows "acknowledge s dl h = Inr s' \<longleftrightarrow>
      (\<exists>r\<in>set (sh_outbox s). or_delivery_id r = dl \<and> or_entry_hash r = h)
      \<and> s' = s\<lparr>sh_outbox := map (\<lambda>r. if or_delivery_id r = dl then r\<lparr>or_acknowledged := True\<rparr> else r) (sh_outbox s)\<rparr>"
proof (cases "\<exists>r\<in>set (sh_outbox s). or_delivery_id r = dl")
  case False
  then have "position (\<lambda>r. or_delivery_id r = dl) (sh_outbox s) = None" by (simp add: position_None)
  with False show ?thesis by (auto simp: acknowledge_def)
next
  case True
  then obtain r where "r \<in> set (sh_outbox s)" and dl: "dl = or_delivery_id r" by blast
  then obtain xs ys where ob: "sh_outbox s = xs @ r # ys" by (meson split_list)
  note other = split_distinct_other [OF dist [unfolded ob]]
  have "position (\<lambda>r. or_delivery_id r = dl) (sh_outbox s) = Some (length xs)"
    unfolding ob dl using other by (intro position_prefix) auto
  moreover have "map (\<lambda>r. if or_delivery_id r = dl then r\<lparr>or_acknowledged := True\<rparr> else r) zs = zs"
    if "set zs \<subseteq> set xs \<union> set ys" for zs
    using that other by (intro map_idI) (auto simp: dl)
  then have "map (\<lambda>r. if or_delivery_id r = dl then r\<lparr>or_acknowledged := True\<rparr> else r) (sh_outbox s)
      = xs @ r\<lparr>or_acknowledged := True\<rparr> # ys" by (simp add: ob dl)
  moreover have "(\<exists>x\<in>set (sh_outbox s). or_delivery_id x = dl \<and> or_entry_hash x = h) \<longleftrightarrow> or_entry_hash r = h"
    using other by (auto simp: ob dl)
  ultimately show ?thesis by (simp add: acknowledge_Ok ob)
qed

section \<open>Errors\<close>

lemma abs_replay:
  assumes "sorted_wrt (<) (map rp_replay_id (sh_replay s))"
  shows "as_replay (abs_shell s) rid = Some c \<longleftrightarrow> \<lparr>rp_replay_id = rid, rp_candidate_id = c\<rparr> \<in> set (sh_replay s)"
proof -
  have "as_replay (abs_shell s) rid = Some c \<longleftrightarrow> (\<exists>r\<in>set (sh_replay s). rp_replay_id r = rid \<and> rp_candidate_id r = c)"
    using replay_index.lookup_iff [OF assms, of rid] by (auto simp: abs_shell_def)
  also have "\<dots> \<longleftrightarrow> \<lparr>rp_replay_id = rid, rp_candidate_id = c\<rparr> \<in> set (sh_replay s)"
    by (metis (full_types) ReplayRecord.cases ReplayRecord.select_convs(1,2))
  finally show ?thesis .
qed

lemma abs_bundles:
  assumes "sorted_wrt (<) (map fst (sh_bundles s))"
  shows "as_bundles (abs_shell s) c = Some b \<longleftrightarrow> (c, b) \<in> set (sh_bundles s)"
  using table_index.lookup_iff [OF assms, of c] by (auto simp: abs_shell_def)

lemma outbox_records_Err:
  "map_res (outbox_record H c) es = Inl e \<Longrightarrow> \<exists>x. e = SHE_Encode x"
  by (induction es) (auto simp: outbox_record_def hash_outbox_entry_def rbind_eq_Err map_err_eq_Err)

section \<open>A concrete run\<close>

definition sample_shell :: ShellState where
  "sample_shell = \<lparr>sh_state = sample_state, sh_root = 0, sh_replay = [], sh_receipts = [], sh_bundles = [], sh_outbox = []\<rparr>"

definition sample_record :: OutboxRecord where
  "sample_record = \<lparr>or_candidate_id = 0, or_ordinal = 7, or_delivery_id = 0, or_entry_hash = 0,
     or_entry = sample_entry, or_acknowledged = False\<rparr>"

definition sample_shell_committed :: ShellState where
  "sample_shell_committed = \<lparr>sh_state = sample_state, sh_root = 0,
     sh_replay = [\<lparr>rp_replay_id = 5, rp_candidate_id = 0\<rparr>], sh_receipts = [(0, cbn_receipt (sample_bundle 0))],
     sh_bundles = [(0, sample_bundle 0)], sh_outbox = [sample_record]\<rparr>"

lemma sample_new: "shell_new sample_hasher sample_state VALUE = Ok sample_shell"
  by (simp add: shell_new_def sample_hashes sample_shell_def)

lemma sample_inv: "shell_inv sample_hasher VALUE sample_shell"
  using shell_new_inv [OF sample_new] sample_state_valid by blast

lemma sample_search: "binary_search_by_key f k [] = Inl 0"
  by (simp add: binary_search_by_key_def binary_search_by_def)

lemma sample_commit: "apply_reference_bundle sample_hasher sample_shell VALUE 5 (sample_bundle 0) =
    Ok \<lparr>cr_state = sample_shell_committed, cr_status = Committed\<rparr>"
proof -
  have "outbox_entry_canonical_bytes sample_entry = Ok (outbox_entry_bytes sample_entry)"
    using sample_admitted by (subst outbox_entry_canonical_bytes_Ok) (simp_all add: sample_entry_def)
  moreover have "commitment sample_hasher OUTBOX_ENTRY (outbox_entry_bytes sample_entry) = Ok 0"
    by (rule sample_commitment)
      (simp_all add: OUTBOX_ENTRY_def registered_def ascii_bytes_def outbox_entry_bytes_def sample_entry_def)
  ultimately have "hash_outbox_entry sample_hasher sample_entry = Ok 0" by (simp add: hash_outbox_entry_def)
  then have "fold_res (insert_outbox_entry sample_hasher 0) [sample_entry] [] = Ok [sample_record]"
    using sample_entry_delivery
    by (simp add: insert_outbox_entry_def sample_search vec_insert_def sample_record_def sample_entry_def Let_def)
  moreover have "validate_and_apply sample_hasher (sample_bundle 0) sample_state VALUE = Ok \<lparr>ap_state = sample_state, ap_post_root = 0\<rparr>"
    using sample_binds by (simp add: validate_and_apply_Ok)
  ultimately show ?thesis
    by (simp add: apply_reference_bundle_def sample_shell_def sample_search vec_insert_def sample_shell_committed_def
        sample_bundle_def sample_body_def)
qed

lemma sample_run: "shell_run sample_hasher VALUE sample_shell [Commit 5 (sample_bundle 0) Committed] sample_shell_committed"
  using run_commit [OF run_refl [of sample_hasher VALUE sample_shell] sample_built sample_commit] by simp

section \<open>Properties\<close>

text \<open>C2: in every state that commits and acknowledgements reach from a new shell, the root is the
  hash of the state, every table is in strict key order, receipts and bundles name the same
  candidates, every replay identity names a committed bundle, and the outbox holds exactly one
  record for every entry of every committed bundle, under its delivery identity.\<close>

theorem reachable_shell_invariant:
  assumes "shell_new H state domain = Ok s" and "repr_valid state" and "shell_run H domain s es t"
  shows "shell_inv H domain t"
  using assms shell_new_inv shell_run_inv by blast

theorem reachable_shell_invariant_witness:
  "shell_inv sample_hasher VALUE sample_shell_committed"
  by (rule reachable_shell_invariant [OF sample_new sample_state_valid sample_run])

text \<open>C3: the commit on sorted tables implements the commit of the abstract shell on finite maps,
  error for error: it never fails for a reason that the abstract shell does not know.\<close>

theorem commit_refines_abstract_shell:
  assumes "shell_inv H domain s" and "bundle_built b"
  shows "map_sum id (\<lambda>r. (abs_shell (cr_state r), cr_status r)) (apply_reference_bundle H s domain rid b)
    = abs_commit H domain (abs_shell s) rid b"
  using assms by (rule apply_reference_bundle_refines)

theorem commit_refines_abstract_shell_witness:
  "abs_commit sample_hasher VALUE (abs_shell sample_shell) 5 (sample_bundle 0) = Ok (abs_shell sample_shell_committed, Committed)"
  using commit_refines_abstract_shell [OF sample_inv sample_built, of 5 0] sample_commit by simp

text \<open>C5: along every run each replay identity and each candidate is committed at most once, the
  tables hold exactly what was committed, and the committed bundles form one chain of roots from
  the initial root to the current one.\<close>

theorem commits_form_linear_history:
  assumes "shell_new H state domain = Ok s" and "repr_valid state" and "shell_run H domain s es t"
  shows "distinct (map fst (committed es)) \<and> distinct (map (\<lambda>(_, b). cbn_candidate_id b) (committed es))
    \<and> set (sh_bundles t) = (\<lambda>(_, b). (cbn_candidate_id b, b)) ` set (committed es)
    \<and> set (sh_replay t) = (\<lambda>(rid, b). \<lparr>rp_replay_id = rid, rp_candidate_id = cbn_candidate_id b\<rparr>) ` set (committed es)
    \<and> root_chain (sh_root s) (map snd (committed es)) (sh_root t)"
  using run_history [OF assms(3) shell_new_inv [OF assms(1,2)] shell_new_history [OF assms(1)]]
  by (simp add: history_def)

theorem commits_form_linear_history_witness:
  "set (sh_bundles sample_shell_committed) = {(0, sample_bundle 0)} \<and> root_chain 0 [sample_bundle 0] 0"
  using commits_form_linear_history [OF sample_new sample_state_valid sample_run]
  by (simp add: sample_bundle_def sample_shell_def sample_shell_committed_def)

text \<open>C15: once a bundle was committed under a replay identity, submitting it again under that
  identity succeeds in every later state and changes nothing, and submitting any other bundle
  under it fails.\<close>

theorem replay_is_idempotent:
  assumes "shell_new H state domain = Ok s" and "repr_valid state" and "shell_run H domain s es t"
    and "(rid, b) \<in> set (committed es)"
  shows "apply_reference_bundle H t domain rid b = Ok \<lparr>cr_state = t, cr_status = IdempotentReplay\<rparr>
    \<and> (b' \<noteq> b \<longrightarrow> \<not> is_ok (apply_reference_bundle H t domain rid b'))"
proof -
  have inv: "shell_inv H domain t" using assms shell_new_inv shell_run_inv by blast
  have hist: "history s (committed es) t"
    by (rule run_history [OF assms(3) shell_new_inv [OF assms(1,2)] shell_new_history [OF assms(1)]])
  have mem: "\<lparr>rp_replay_id = rid, rp_candidate_id = cbn_candidate_id b\<rparr> \<in> set (sh_replay t)"
      "(cbn_candidate_id b, b) \<in> set (sh_bundles t)"
    using hist assms(4) unfolding history_def by force+
  then have used: "rid \<in> rp_replay_id ` set (sh_replay t)" by force
  have srt: "sorted_wrt (<) (map rp_replay_id (sh_replay t))" "sorted_wrt (<) (map fst (sh_bundles t))"
    using inv by (simp_all add: shell_inv_def)
  note iff = apply_replayed [OF disjI1 [OF used] srt, of H domain]
  have "b' = b" if "apply_reference_bundle H t domain rid b' = Ok r" for r
  proof -
    from that have m: "\<lparr>rp_replay_id = rid, rp_candidate_id = cbn_candidate_id b'\<rparr> \<in> set (sh_replay t)"
        "(cbn_candidate_id b', b') \<in> set (sh_bundles t)" by (simp_all add: iff)
    have "cbn_candidate_id b' = cbn_candidate_id b"
      using sorted_key_unique [OF srt(1) mem(1) m(1)] by simp
    then show ?thesis using sorted_key_unique [OF srt(2) mem(2) m(2)] by simp
  qed
  then show ?thesis using mem by (auto simp: iff is_ok_iff)
qed

theorem replay_is_idempotent_witness:
  "apply_reference_bundle sample_hasher sample_shell_committed VALUE 5 (sample_bundle 0)
     = Ok \<lparr>cr_state = sample_shell_committed, cr_status = IdempotentReplay\<rparr>
   \<and> \<not> is_ok (apply_reference_bundle sample_hasher sample_shell_committed VALUE 5 (sample_bundle 1))"
  using replay_is_idempotent [OF sample_new sample_state_valid sample_run, of 5 "sample_bundle 0" "sample_bundle 1"]
  by (simp add: sample_bundle_def sample_body_def)

text \<open>C36: a commit that fails in a state with the invariant fails for one of the declared reasons:
  under a used replay identity, another candidate or other content; under a fresh one, a root that
  moved, a bundle that does not validate, a candidate already committed or an outbox entry that
  does not encode.  So the duplicate-record and corrupt-state errors never occur.  The root conflict is reported
  exactly when the identity is fresh and the root moved, the content mismatch exactly when the
  identity names this candidate but the stored bundle differs.\<close>

theorem commit_errors_exact:
  assumes "shell_inv H domain s" and "bundle_built b" and "apply_reference_bundle H s domain rid b = Err e"
  shows "(if rid \<in> rp_replay_id ` set (sh_replay s)
       then (\<exists>c. e = SHE_ReplayConflict rid c (cbn_candidate_id b) \<and> c \<noteq> cbn_candidate_id b) \<or> e = SHE_IdempotentBundleMismatch
       else e = SHE_RootConflict (body_pre_root (cbn_body b)) (sh_root s) \<or> (\<exists>x. e = SHE_Bundle x)
         \<or> e = SHE_CandidateAlreadyCommitted \<or> (\<exists>x. e = SHE_Encode x))
    \<and> (e = SHE_RootConflict (body_pre_root (cbn_body b)) (sh_root s) \<longleftrightarrow>
         rid \<notin> rp_replay_id ` set (sh_replay s) \<and> sh_root s \<noteq> body_pre_root (cbn_body b))
    \<and> (e = SHE_IdempotentBundleMismatch \<longleftrightarrow>
         \<lparr>rp_replay_id = rid, rp_candidate_id = cbn_candidate_id b\<rparr> \<in> set (sh_replay s)
         \<and> (cbn_candidate_id b, b) \<notin> set (sh_bundles s))"
proof -
  let ?c = "cbn_candidate_id b" and ?A = "abs_shell s"
  have srt: "sorted_wrt (<) (map rp_replay_id (sh_replay s))" "sorted_wrt (<) (map fst (sh_bundles s))"
    using assms(1) by (simp_all add: shell_inv_def)
  have replay: "as_replay ?A rid = Some c \<longleftrightarrow> \<lparr>rp_replay_id = rid, rp_candidate_id = c\<rparr> \<in> set (sh_replay s)" for c
    by (rule abs_replay [OF srt(1)])
  have bundles: "as_bundles ?A c = Some x \<longleftrightarrow> (c, x) \<in> set (sh_bundles s)" for c x
    by (rule abs_bundles [OF srt(2)])
  have err: "abs_commit H domain ?A rid b = Err e"
    using apply_reference_bundle_refines [OF assms(1,2), of rid] assms(3) by simp
  show ?thesis
  proof (cases "as_replay ?A rid")
    case None
    then have "rid \<notin> rp_replay_id ` set (sh_replay s)"
      using replay_index.lookup_None_iff [OF srt(1), of rid] by (simp add: abs_shell_def)
    moreover have "\<lparr>rp_replay_id = rid, rp_candidate_id = ?c\<rparr> \<notin> set (sh_replay s)"
      using None replay [of ?c] by simp
    moreover have "sh_root s \<noteq> body_pre_root (cbn_body b) \<and> e = SHE_RootConflict (body_pre_root (cbn_body b)) (sh_root s)
        \<or> sh_root s = body_pre_root (cbn_body b)
          \<and> ((\<exists>x. e = SHE_Bundle x) \<or> e = SHE_CandidateAlreadyCommitted \<or> (\<exists>x. e = SHE_Encode x))"
      using err None outbox_records_Err
      by (auto simp: abs_commit_def Let_def abs_shell_def rbind_eq_Err map_err_eq_Err split: if_splits)
    ultimately show ?thesis by auto
  next
    case (Some c)
    then have "rid \<in> rp_replay_id ` set (sh_replay s)" using replay by force
    moreover have "\<lparr>rp_replay_id = rid, rp_candidate_id = ?c\<rparr> \<in> set (sh_replay s) \<longleftrightarrow> c = ?c"
      using Some replay [of ?c] by simp
    ultimately show ?thesis using err Some bundles [of ?c b]
      by (auto simp: abs_commit_def Let_def split: if_splits)
  qed
qed

theorem commit_errors_exact_witness:
  "apply_reference_bundle sample_hasher sample_shell_committed VALUE 5 (sample_bundle 1) = Err SHE_IdempotentBundleMismatch"
proof -
  have inv: "shell_inv sample_hasher VALUE sample_shell_committed"
    using shell_run_inv [OF sample_run sample_inv] .
  have "sample_bundle 0 \<noteq> sample_bundle 1" by (simp add: sample_bundle_def sample_body_def)
  moreover have "cbn_candidate_id (sample_bundle 1) = 0" by (simp add: sample_bundle_def)
  ultimately have "\<not> is_ok (apply_reference_bundle sample_hasher sample_shell_committed VALUE 5 (sample_bundle 1))"
    using apply_replayed [of 5 sample_shell_committed _ sample_hasher VALUE "sample_bundle 1"] inv
    by (auto simp: is_ok_iff shell_inv_def sample_shell_committed_def)
  then obtain e where e: "apply_reference_bundle sample_hasher sample_shell_committed VALUE 5 (sample_bundle 1) = Err e"
    by (cases "apply_reference_bundle sample_hasher sample_shell_committed VALUE 5 (sample_bundle 1)") (auto simp: is_ok_iff)
  from commit_errors_exact [OF inv sample_built e] \<open>sample_bundle 0 \<noteq> sample_bundle 1\<close> \<open>cbn_candidate_id _ = 0\<close>
  show ?thesis unfolding e by (simp add: sample_shell_committed_def)
qed

text \<open>Under pairwise different delivery identities an acknowledgement succeeds exactly when some
  record has the delivery identity and the observed hash; it marks that record and nothing else,
  and repeating it changes nothing.\<close>

theorem acknowledge_exact:
  assumes "distinct (map or_delivery_id (sh_outbox s))"
  shows "(acknowledge s dl h = Ok s' \<longleftrightarrow>
      (\<exists>r\<in>set (sh_outbox s). or_delivery_id r = dl \<and> or_entry_hash r = h)
      \<and> s' = s\<lparr>sh_outbox := map (\<lambda>r. if or_delivery_id r = dl then r\<lparr>or_acknowledged := True\<rparr> else r) (sh_outbox s)\<rparr>)
    \<and> (acknowledge s dl h = Err (SHE_UnknownDelivery dl) \<longleftrightarrow> dl \<notin> or_delivery_id ` set (sh_outbox s))
    \<and> (acknowledge s dl h = Ok s' \<longrightarrow> acknowledge s' dl h = Ok s')"
proof -
  have exact: "acknowledge s dl h = Ok s' \<longleftrightarrow>
      (\<exists>r\<in>set (sh_outbox s). or_delivery_id r = dl \<and> or_entry_hash r = h)
      \<and> s' = s\<lparr>sh_outbox := map (\<lambda>r. if or_delivery_id r = dl then r\<lparr>or_acknowledged := True\<rparr> else r) (sh_outbox s)\<rparr>"
    if "distinct (map or_delivery_id (sh_outbox s))" for s s'
    by (rule acknowledge_distinct [OF that])
  have "acknowledge s dl h = Err (SHE_UnknownDelivery dl) \<longleftrightarrow> dl \<notin> or_delivery_id ` set (sh_outbox s)"
  proof -
    have "position (\<lambda>r. or_delivery_id r = dl) (sh_outbox s) = None \<longleftrightarrow> dl \<notin> or_delivery_id ` set (sh_outbox s)"
      by (auto simp: position_None)
    then show ?thesis
      by (cases "position (\<lambda>r. or_delivery_id r = dl) (sh_outbox s)") (auto simp: acknowledge_def Let_def)
  qed
  moreover have "acknowledge s' dl h = Ok s'" if "acknowledge s dl h = Ok s'"
  proof -
    let ?f = "\<lambda>r. if or_delivery_id r = dl then r\<lparr>or_acknowledged := True\<rparr> else r"
    from that exact [OF assms] obtain r where r: "r \<in> set (sh_outbox s)" "or_delivery_id r = dl" "or_entry_hash r = h"
      and s': "s' = s\<lparr>sh_outbox := map ?f (sh_outbox s)\<rparr>" by blast
    have "map or_delivery_id (sh_outbox s') = map or_delivery_id (sh_outbox s)" by (simp add: s')
    then have "distinct (map or_delivery_id (sh_outbox s'))" using assms by simp
    moreover have "r\<lparr>or_acknowledged := True\<rparr> \<in> set (sh_outbox s')" using r by (force simp: s')
    moreover have "s'\<lparr>sh_outbox := map ?f (sh_outbox s')\<rparr> = s'" by (simp add: s' comp_def if_distrib cong: if_cong)
    ultimately show ?thesis using exact [of s' s'] r by force
  qed
  ultimately show ?thesis using exact [OF assms] by blast
qed

theorem acknowledge_exact_witness:
  "acknowledge sample_shell_committed 0 0 =
     Ok (sample_shell_committed\<lparr>sh_outbox := [sample_record\<lparr>or_acknowledged := True\<rparr>]\<rparr>)
   \<and> acknowledge sample_shell_committed 1 0 = Err (SHE_UnknownDelivery 1)"
proof -
  have d: "distinct (map or_delivery_id (sh_outbox sample_shell_committed))" by (simp add: sample_shell_committed_def)
  show ?thesis using acknowledge_exact [OF d, of 0 0] acknowledge_exact [OF d, of 1 0]
    by (simp add: sample_shell_committed_def sample_record_def)
qed

text \<open>C32: when delivery identities are pairwise different and the destination has bound none of them
  to other content, handing the next pending record to the in-memory destination and acknowledging
  what it observed, as often as there are pending records, empties the outbox: every record is then
  acknowledged and delivered with its own hash, whether or not it had been delivered before.\<close>

theorem relay_drains_outbox:
  assumes "distinct (map or_delivery_id (sh_outbox s))"
    and "\<forall>r\<in>set (sh_outbox s). md_delivered dest (or_delivery_id r) = None
      \<or> md_delivered dest (or_delivery_id r) = Some (or_entry_hash r)"
  shows "\<exists>dest' s'. relay_times (length (pending s)) deliver dest s = Ok (dest', s') \<and> next_pending s' = None
    \<and> s' = s\<lparr>sh_outbox := map (\<lambda>r. r\<lparr>or_acknowledged := True\<rparr>) (sh_outbox s)\<rparr>
    \<and> (\<forall>r\<in>set (pending s). md_delivered dest' (or_delivery_id r) = Some (or_entry_hash r))
    \<and> md_delivered dest \<subseteq>\<^sub>m md_delivered dest'"
proof -
  have "memory_destination.agrees dest (sh_outbox s)"
    using assms(2) by (auto simp: memory_destination.agrees_def)
  from memory_destination.relay_drains [OF assms(1) this] obtain dest' where
    d: "relay_times (length (pending s)) deliver dest s =
        Ok (dest', s\<lparr>sh_outbox := map (\<lambda>r. r\<lparr>or_acknowledged := True\<rparr>) (sh_outbox s)\<rparr>)"
      "md_delivered dest' = md_delivered dest ++ map_of (map (\<lambda>r. (or_delivery_id r, or_entry_hash r)) (pending s))" by blast
  let ?m = "map_of (map (\<lambda>r. (or_delivery_id r, or_entry_hash r)) (pending s))"
  have "distinct (map or_delivery_id (pending s))"
    using assms(1) by (simp add: pending_def distinct_map_filter)
  then have m: "?m k = Some h \<longleftrightarrow> (\<exists>r\<in>set (pending s). or_delivery_id r = k \<and> or_entry_hash r = h)" for k h
    by (subst map_of_eq_Some_iff) (auto simp: comp_def image_iff)
  have "md_delivered dest' (or_delivery_id r) = Some (or_entry_hash r)" if "r \<in> set (pending s)" for r
    using that m [of "or_delivery_id r" "or_entry_hash r"] unfolding d(2) by (auto simp: map_add_Some_iff)
  moreover have "md_delivered dest \<subseteq>\<^sub>m md_delivered dest'"
    unfolding map_le_def
  proof
    fix k assume "k \<in> dom (md_delivered dest)"
    then obtain h where h: "md_delivered dest k = Some h" by blast
    have "?m k = Some h' \<Longrightarrow> h' = h" for h'
      using m [of k h'] h assms(2) by (auto simp: pending_def)
    then show "md_delivered dest k = md_delivered dest' k"
      unfolding d(2) using h by (cases "?m k") (auto simp: map_add_def)
  qed
  ultimately show ?thesis using d(1) by (auto simp: next_pending_def find_None_iff)
qed

theorem relay_drains_outbox_witness:
  "\<exists>dest s'. relay_times 1 deliver memory_destination_new sample_shell_committed = Ok (dest, s')
     \<and> next_pending s' = None \<and> md_delivered dest 0 = Some 0"
  using relay_drains_outbox [of sample_shell_committed memory_destination_new]
  by (auto simp: sample_shell_committed_def sample_record_def memory_destination_new_def pending_def)

text \<open>The in-memory destination binds a delivery identity to the first hash it sees: it returns
  that hash, repeats are accepted without effect, other content is refused, and the number of
  deliveries grows only when the identity was new.\<close>

theorem memory_destination_binds_once:
  assumes "finite (dom (md_delivered dest))" and "deliver dest k h e = Ok (observed, dest')"
  shows "observed = h \<and> md_delivered dest' = (md_delivered dest)(k \<mapsto> h) \<and> deliver dest' k h e = Ok (h, dest')
    \<and> (\<forall>h'. h' \<noteq> h \<longrightarrow> deliver dest' k h' e = Err DeliveryCollision)
    \<and> delivered_count dest' = delivered_count dest + (if md_delivered dest k = None then 1 else 0)"
proof -
  have b: "observed = h" "md_delivered dest' = (md_delivered dest)(k \<mapsto> h)"
    using memory_destination.deliver_binds_once [OF assms(2)] by simp_all
  moreover have "card (insert k (dom (md_delivered dest))) = card (dom (md_delivered dest)) + (if md_delivered dest k = None then 1 else 0)"
    using assms(1) by (simp add: card_insert_if domIff)
  ultimately show ?thesis by (simp add: deliver_def delivered_count_def)
qed

theorem memory_destination_binds_once_witness:
  "\<exists>dest. deliver memory_destination_new 3 4 sample_entry = Ok (4, dest) \<and> delivered_count dest = 1"
  using memory_destination_binds_once [of memory_destination_new 3 4 sample_entry 4 "\<lparr>md_delivered = [3 \<mapsto> 4]\<rparr>"]
  by (simp add: deliver_def memory_destination_new_def delivered_count_def)

end
