(* ===== verification/Zeno_Owner_Laws.thy ===== *)
theory Zeno_Owner_Laws
  imports Zeno_Owner Zeno_Durable_Laws Zeno_Shell_Laws
begin

text \<open>
  Laws of the reservations in SQLite and of the dispatcher (\<^verbatim>\<open>zeno-fcis-shell-sqlite/src/effects\<close>).

  \<open>row_table\<close> is what is assumed of the two SQL statements; the store of reservations and its envelope
  keep the contract \<open>atomic_cell\<close> over it, and the dispatcher keeps the discipline \<open>reservation\<close>.
\<close>

section \<open>The store of reservations\<close>

text \<open>The query returns the stored row and changes nothing; the update reports one changed row exactly if it
  replaced the expected bytes, and if it fails it has replaced them or done nothing.\<close>

locale row_table =
  fixes D :: "'c RowTable" and row :: "'c \<Rightarrow> bytes option"
  assumes query: "rt_query D c n = (result, c') \<Longrightarrow> row c' = row c \<and> (\<forall>bs. result = Inr (Some bs) \<longrightarrow> row c = Some bs)"
    and update: "rt_update D c new expected = (Inr changed, c') \<Longrightarrow>
      (if changed = 1 then row c = Some expected \<and> row c' = Some new else row c' = row c)"
    and update_failed: "rt_update D c new expected = (Inl u, c') \<Longrightarrow> row c' = row c \<or> row c = Some expected \<and> row c' = Some new"

sublocale row_table \<subseteq> sqlite: atomic_cell "SqliteStateStore D" row
proof (unfold_locales, goal_cases)
  case (1 m loaded m')
  then obtain result where "rt_query D m DURABLE_MAX_BYTES = (result, m')"
    "loaded = (case result of Inl _ \<Rightarrow> Err DRE_Storage | Inr found \<Rightarrow> ok_or found DRE_Missing)"
    by (auto simp: SqliteStateStore_def sqlite_load_def split: prod.splits)
  with query show ?case by (auto split: sum.splits)
next
  case (2 m old new u m')
  with update [of m new old] show ?case
    by (auto simp: SqliteStateStore_def sqlite_commit_def split: if_splits prod.splits sum.splits)
next
  case (3 m old new e m')
  then show ?case using update [of m new old] update_failed [of m new old]
    by (auto simp: SqliteStateStore_def sqlite_commit_def split: if_splits prod.splits sum.splits; fastforce)
qed

text \<open>What the owner of a namespace sees of the row.\<close>

definition owner_cell :: "hash32 \<Rightarrow> ('m \<Rightarrow> bytes option) \<Rightarrow> 'm \<Rightarrow> bytes option" where
  "owner_cell namespace cell m = Option.bind (cell m) (strip_prefix (OWNER_HEADER @ be_bytes 32 namespace))"

lemma owner_envelope_eq: "owner_envelope namespace bs = Some out \<Longrightarrow> out = (OWNER_HEADER @ be_bytes 32 namespace) @ bs"
  by (simp add: owner_envelope_def split: if_splits)

lemma owner_cell_envelope: "cell m = Some (OWNER_HEADER @ be_bytes 32 namespace @ bs) \<Longrightarrow> owner_cell namespace cell m = Some bs"
  by (simp add: owner_cell_def strip_prefix_def)

context atomic_cell
begin

text \<open>The envelope of a namespace keeps the contract.\<close>

lemma reservations_cell: "atomic_cell (Reservations S namespace) (owner_cell namespace cell)"
proof (unfold_locales, goal_cases)
  case (1 m loaded m')
  obtain l m1 where l: "ss_load S m = (l, m1)" by fastforce
  from load_cell [OF l] 1 l show ?case
    by (auto simp: Reservations_def reservations_load_def owner_cell_def dest!: owner_envelope_eq)
next
  case (2 m old new u m')
  then obtain e1 e2 where e: "owner_envelope namespace old = Some e1" "owner_envelope namespace new = Some e2"
    "ss_commit S m e1 e2 = (Inr u, m')"
    by (auto simp: Reservations_def reservations_commit_def split: option.splits)
  from commit_cell [OF e(3)] owner_envelope_eq [OF e(1)] owner_envelope_eq [OF e(2)] show ?case
    by (simp add: owner_cell_envelope)
next
  case (3 m old new e m')
  show ?case
  proof (cases "owner_envelope namespace old = None \<or> owner_envelope namespace new = None")
    case True
    with 3 show ?thesis by (auto simp: Reservations_def reservations_commit_def split: option.splits)
  next
    case False
    with 3 obtain e1 e2 where e: "owner_envelope namespace old = Some e1" "owner_envelope namespace new = Some e2"
      "ss_commit S m e1 e2 = (Inl e, m')"
      by (auto simp: Reservations_def reservations_commit_def split: option.splits)
    have "cell m' = cell m \<Longrightarrow> owner_cell namespace cell m' = owner_cell namespace cell m" by (simp add: owner_cell_def)
    with commit_failed [OF e(3)] owner_envelope_eq [OF e(1)] owner_envelope_eq [OF e(2)] show ?thesis
      by (auto simp: owner_cell_envelope)
  qed
qed

end

sublocale row_table \<subseteq> envelope: atomic_cell "Reservations (SqliteStateStore D) namespace" "owner_cell namespace row" for namespace
  by (rule sqlite.reservations_cell)

text \<open>The statements on a table that holds at most the one row.\<close>

definition one_row :: "bytes option RowTable" where
  "one_row = \<lparr>rt_query = (\<lambda>c n. (Inr (case c of Some bs \<Rightarrow> if length bs \<le> n then Some bs else None | None \<Rightarrow> None), c)),
     rt_update = (\<lambda>c new expected. if c = Some expected then (Inr 1, Some new) else (Inr 0, c))\<rparr>"

interpretation one_row: row_table one_row "\<lambda>c. c"
  by unfold_locales (auto simp: one_row_def split: option.splits if_splits)

section \<open>The dispatcher\<close>

subsection \<open>Its own tables\<close>

definition owner_inv :: "('m, 's) Dispatcher \<Rightarrow> bool" where
  "owner_inv w \<longleftrightarrow>
     distinct (map gr_id (ow_grants w)) \<and> list_all (\<lambda>g. 0 < gr_id g \<and> gr_id g \<le> ow_next_grant w) (ow_grants w)
     \<and> ow_retained w = sum_list (map gr_bytes (ow_grants w))
     \<and> ow_retained w \<le> lm_intent_bytes (cf_limits (ow_configuration w))
     \<and> length (ow_grants w) \<le> lm_grants (cf_limits (ow_configuration w))
     \<and> ow_attempts w \<le> lm_dispatches (cf_limits (ow_configuration w))"

lemma mset_swap_remove: "i < length xs \<Longrightarrow> mset xs = add_mset (xs ! i) (mset (swap_remove i xs))"
proof -
  assume i: "i < length xs"
  then have ne: "xs \<noteq> []" by auto
  have "mset (xs[i := last xs]) = add_mset (last xs) (mset xs - {#xs ! i#})" using i by (simp add: mset_update)
  moreover have "mset (xs[i := last xs]) = add_mset (last xs) (mset (swap_remove i xs))"
  proof -
    have "last (xs[i := last xs]) = last xs" using ne by (cases "i = length xs - 1") (auto simp: last_conv_nth)
    moreover have "xs[i := last xs] \<noteq> []" using ne by simp
    ultimately have "xs[i := last xs] = swap_remove i xs @ [last xs]"
      unfolding swap_remove_def using append_butlast_last_id [of "xs[i := last xs]"] by metis
    then show ?thesis by simp
  qed
  ultimately have "mset (swap_remove i xs) = mset xs - {#xs ! i#}" by simp
  then show ?thesis using i by (metis insert_DiffM nth_mem_mset)
qed

lemma swap_remove_tables:
  assumes "i < length gs"
  shows "distinct (map f gs) \<Longrightarrow> distinct (map f (swap_remove i gs))"
    and "list_all P gs \<Longrightarrow> list_all P (swap_remove i gs)"
    and "sum_list (map (h :: _ \<Rightarrow> nat) gs) = h (gs ! i) + sum_list (map h (swap_remove i gs))"
    and "length gs = Suc (length (swap_remove i gs))"
proof -
  have m: "mset gs = mset (gs ! i # swap_remove i gs)" using mset_swap_remove [OF assms] by simp
  then have "mset (map f gs) = mset (map f (gs ! i # swap_remove i gs))" by (simp only: mset_map)
  then have "distinct (map f gs) = distinct (map f (gs ! i # swap_remove i gs))" by (rule mset_eq_imp_distinct_iff)
  then show "distinct (map f gs) \<Longrightarrow> distinct (map f (swap_remove i gs))" by simp
  have "set gs = set (gs ! i # swap_remove i gs)" using m by (rule mset_eq_setD)
  then show "list_all P gs \<Longrightarrow> list_all P (swap_remove i gs)" by (auto simp: list_all_iff)
  have "sum_list (map h gs) = sum_list (map h (gs ! i # swap_remove i gs))"
    using m by (metis mset_map sum_mset_sum_list)
  then show "sum_list (map h gs) = h (gs ! i) + sum_list (map h (swap_remove i gs))" by simp
  show "length gs = Suc (length (swap_remove i gs))" using m by (metis length_Cons size_mset)
qed


lemma grant_keeps:
  assumes "owner_inv w" "owner_grant I size_of_grant w worker intent = (result, w')"
  shows "owner_inv w' \<and> ow_configuration w' = ow_configuration w \<and> ow_relay w' = ow_relay w \<and> ow_brand w' = ow_brand w
    \<and> (\<exists>t. ow_terminal w' = snd (it_pending I t intent) \<and> t = ow_terminal w \<or> ow_terminal w' = ow_terminal w)"
proof -
  obtain found terminal where p: "it_pending I (ow_terminal w) intent = (found, terminal)" by fastforce
  have fresh: "gr_id g < j" if "checked_add64 (ow_next_grant w) 1 = Some j" "g \<in> set (ow_grants w)" for g j
  proof -
    from that(1) have "unat (ow_next_grant w) + 1 \<le> u64_max" "j = ow_next_grant w + 1" by (auto simp: checked_add64_def split: if_splits)
    then have "ow_next_grant w < j" by (simp add: word_less_nat_alt unat_word_ariths)
    moreover have "gr_id g \<le> ow_next_grant w" using assms(1) that(2) by (auto simp: owner_inv_def list_all_iff)
    ultimately show ?thesis by (rule le_less_trans [rotated])
  qed
  show ?thesis
  proof (cases "\<exists>handle. result = Ok handle")
    case False
    with assms p show ?thesis
      by (auto simp: owner_grant_def Let_def owner_inv_def split: if_splits option.splits sum.splits)
  next
    case True
    with assms(2) p obtain i delivery n retained where g: "checked_add64 (ow_next_grant w) 1 = Some i" "found = Ok delivery"
      "grant_size size_of_grant delivery = Some n" "checked_add usize_max (ow_retained w) n = Some retained"
      "retained \<le> lm_intent_bytes (cf_limits (ow_configuration w))" "length (ow_grants w) < lm_grants (cf_limits (ow_configuration w))"
      "w' = w\<lparr>ow_terminal := terminal, ow_grants := ow_grants w @ [\<lparr>gr_id = i, gr_principal = worker, gr_delivery = delivery, gr_bytes = n\<rparr>],
         ow_retained := retained, ow_next_grant := i\<rparr>"
      by (auto simp: owner_grant_def Let_def not_le not_less split: if_splits option.splits sum.splits Option.bind_splits)
    have "0 < i"
      using g(1) by (auto simp: checked_add64_def word_less_nat_alt unat_word_ariths split: if_splits)
    with g assms(1) fresh [OF g(1)] p show ?thesis
      by (fastforce simp: owner_inv_def list_all_iff Suc_le_eq less_imp_le)
  qed
qed

lemma revoke_keeps:
  assumes "owner_inv w" "owner_revoke w handle = (result, w')"
  shows "owner_inv w' \<and> ow_configuration w' = ow_configuration w \<and> ow_relay w' = ow_relay w \<and> ow_brand w' = ow_brand w
    \<and> ow_terminal w' = ow_terminal w"
proof (cases "ow_brand w = ih_owner handle")
  case False
  with assms show ?thesis by (simp add: owner_revoke_def)
next
  case True
  show ?thesis
  proof (cases "position (\<lambda>g. gr_id g = ih_grant handle) (ow_grants w)")
    case None
    with assms True show ?thesis by (simp add: owner_revoke_def)
  next
    case (Some i)
    then have i: "i < length (ow_grants w)" by (simp add: position_Some)
    note t = swap_remove_tables [OF i]
    have w': "w' = w\<lparr>ow_retained := ow_retained w - gr_bytes (ow_grants w ! i), ow_grants := swap_remove i (ow_grants w)\<rparr>"
      using assms(2) True Some by (simp add: owner_revoke_def)
    with t(1) [of gr_id] t(2) t(3) [of gr_bytes] t(4) assms(1) show ?thesis by (auto simp: owner_inv_def)
  qed
qed

text \<open>The two admissions of a dispatch.\<close>

lemma admit_facts_iff: "admit_facts facts = Ok () \<longleftrightarrow> list_all fst facts"
  by (induction facts rule: admit_facts.induct) auto

lemma admit_facts_first:
  "admit_facts facts = (case find (\<lambda>f. \<not> fst f) facts of None \<Rightarrow> Ok () | Some f \<Rightarrow> Err (OE_Refused (snd f)))"
  by (induction facts rule: admit_facts.induct) auto

lemma owner_admit_dispatch:
  "owner_admit (dispatch_facts w tenant worker handle grant) = Ok () \<longleftrightarrow>
     ow_brand w = ih_owner handle \<and> tenant = cf_tenant (ow_configuration w) \<and> worker = ih_principal handle
     \<and> (\<exists>g. grant = Some g \<and> dl_id (gr_delivery g) = ih_intent handle \<and> gr_principal g = ih_principal handle)"
  by (auto simp: owner_admit_def dispatch_facts_def OWNER_REFUSALS_def admit_facts_iff split: option.splits)

lemma owner_admit_observed:
  "owner_admit ((dispatch_facts w tenant worker handle grant)[6 := retained_same]) = (Ok () :: 'e OwnerError + unit) \<longleftrightarrow>
     owner_admit (dispatch_facts w tenant worker handle grant) = (Ok () :: 'e OwnerError + unit) \<and> retained_same"
  by (auto simp: owner_admit_def dispatch_facts_def OWNER_REFUSALS_def admit_facts_iff eval_nat_numeral split: option.splits)

text \<open>A dispatch is refused, and then at most the terminal's lookup has run, or the relay is called once, on
  exactly the granted intent.\<close>

definition dispatch_operation :: "('s, 'e) IntentTerminal \<Rightarrow> Grant \<Rightarrow> Operation" where
  "dispatch_operation I g = Op_Send (it_store I) (gr_delivery g)"

definition dispatch_granted ::
    "('s, 'e) IntentTerminal \<Rightarrow> ('m, 's) Dispatcher \<Rightarrow> hash32 \<Rightarrow> hash32 \<Rightarrow> IntentHandle \<Rightarrow> Grant \<Rightarrow> bool" where
  "dispatch_granted I w tenant worker handle g \<longleftrightarrow>
     \<not> ow_stopped w \<and> g \<in> set (ow_grants w) \<and> gr_id g = ih_grant handle \<and> ih_owner handle = ow_brand w
     \<and> tenant = cf_tenant (ow_configuration w) \<and> gr_principal g = worker \<and> ih_principal handle = worker
     \<and> dl_id (gr_delivery g) = ih_intent handle
     \<and> fst (it_pending I (ow_terminal w) (ih_intent handle)) = Ok (gr_delivery g)
     \<and> ow_attempts w < lm_dispatches (cf_limits (ow_configuration w))"

lemma dispatch_cases:
  fixes I :: "('s, 'e) IntentTerminal"
  assumes "owner_dispatch H file S I w tenant worker handle = (result, w')"
  obtains (refused) "\<exists>e. result = Err e"
      "w' = w \<or> w' = w\<lparr>ow_terminal := snd (it_pending I (ow_terminal w) (ih_intent handle))\<rparr>"
  | (relayed) g b outcome relay terminal where "dispatch_granted I w tenant worker handle g"
      "relay_handle H file S (it_terminal I) (ow_relay w) (snd (it_pending I (ow_terminal w) (ih_intent handle))) b (dispatch_operation I g)
        = (outcome, relay, terminal)"
      "b = binding_of \<lparr>op_epoch = cf_epoch (ow_configuration w), op_ordinal = ow_attempts w\<rparr> (dispatch_operation I g)"
      "\<exists>stopped. w' = w\<lparr>ow_attempts := ow_attempts w + 1, ow_stopped := stopped, ow_relay := relay, ow_terminal := terminal\<rparr>"
proof -
  let ?grant = "find (\<lambda>g. gr_id g = ih_grant handle) (ow_grants w)"
  let ?facts = "dispatch_facts w tenant worker handle ?grant"
  obtain found terminal where p: "it_pending I (ow_terminal w) (ih_intent handle) = (found, terminal)" by fastforce
  show thesis
  proof (cases "owner_admit ?facts = (Ok () :: 'e OwnerError + unit) \<and> \<not> ow_stopped w \<and> (\<exists>g. ?grant = Some g \<and> found = Ok (gr_delivery g))
      \<and> ow_attempts w < lm_dispatches (cf_limits (ow_configuration w))")
    case True
    then obtain g where g: "?grant = Some g" "found = Ok (gr_delivery g)" by blast
    let ?op = "dispatch_operation I g"
    let ?b = "binding_of \<lparr>op_epoch = cf_epoch (ow_configuration w), op_ordinal = ow_attempts w\<rparr> ?op"
    obtain outcome relay t where r: "relay_handle H file S (it_terminal I) (ow_relay w) terminal ?b ?op = (outcome, relay, t)"
      by (metis prod_cases3)
    have granted: "dispatch_granted I w tenant worker handle g"
    proof -
      have "owner_admit (dispatch_facts w tenant worker handle (Some g)) = (Ok () :: 'e OwnerError + unit)" using True g by simp
      note this [unfolded owner_admit_dispatch]
      moreover have "g \<in> set (ow_grants w)" "gr_id g = ih_grant handle" using g(1) by (auto simp: find_Some_iff)
      ultimately show ?thesis using True g(2) p by (auto simp: dispatch_granted_def)
    qed
    have obs: "owner_admit (?facts[6 := True]) = (Ok () :: 'e OwnerError + unit)" using True by (simp add: owner_admit_observed)
    have ans: "(result, w') = dispatch_answer (gr_delivery g) outcome
        (w\<lparr>ow_attempts := ow_attempts w + 1, ow_stopped := True, ow_relay := relay, ow_terminal := t\<rparr>)"
    proof -
      have "\<not> lm_dispatches (cf_limits (ow_configuration w)) \<le> ow_attempts w" "\<not> ow_stopped w"
        "owner_admit (dispatch_facts w tenant worker handle (Some g)) = (Ok () :: 'e OwnerError + unit)"
        using True g by auto
      then show ?thesis
        using assms [symmetric] g p r obs by (simp add: owner_dispatch_def Let_def dispatch_operation_def)
    qed
    show thesis
    proof (rule relayed [OF granted _ refl])
      show "relay_handle H file S (it_terminal I) (ow_relay w) (snd (it_pending I (ow_terminal w) (ih_intent handle))) ?b ?op
        = (outcome, relay, t)" using r p by simp
      show "\<exists>stopped. w' = w\<lparr>ow_attempts := ow_attempts w + 1, ow_stopped := stopped, ow_relay := relay, ow_terminal := t\<rparr>"
        using ans by (cases w) (auto simp: dispatch_answer_def split: sum.splits Handled.splits Response.splits if_splits)
    qed
  next
    case False
    show thesis
    proof (rule refused)
      show "\<exists>e. result = Err e" using assms False p
        by (auto simp: owner_dispatch_def Let_def owner_admit_observed not_le split: sum.splits option.splits if_splits)
      show "w' = w \<or> w' = w\<lparr>ow_terminal := snd (it_pending I (ow_terminal w) (ih_intent handle))\<rparr>" using assms False p
        by (auto simp: owner_dispatch_def Let_def owner_admit_observed not_le split: sum.splits option.splits if_splits)
    qed
  qed
qed

lemma owner_admit_facts:
  "owner_admit (dispatch_facts w tenant worker handle grant) = (Ok () :: 'e OwnerError + unit) \<longleftrightarrow> list_all id (dispatch_facts w tenant worker handle grant)"
  by (auto simp: owner_admit_def dispatch_facts_def OWNER_REFUSALS_def admit_facts_iff)

lemma content_refused:
  assumes "list_all id (dispatch_facts w tenant worker handle grant)"
  shows "owner_admit ((dispatch_facts w tenant worker handle grant)[6 := False]) = Err (OE_Refused OWR_Content)"
  using assms by (auto simp: owner_admit_def dispatch_facts_def OWNER_REFUSALS_def eval_nat_numeral)

text \<open>What a dispatch answers when its own comparisons hold.\<close>

lemma dispatch_lookup:
  fixes I :: "('s, 'e) IntentTerminal"
  assumes "owner_dispatch H file S I w tenant worker handle = (result, w')"
    and grant: "find (\<lambda>g. gr_id g = ih_grant handle) (ow_grants w) = Some g"
    and facts: "list_all id (dispatch_facts w tenant worker handle (Some g))"
    and found: "it_pending I (ow_terminal w) (ih_intent handle) = (found, t)"
  shows "if ow_stopped w then result = Err OE_Stopped \<and> w' = w
    else case found of
        Inl e \<Rightarrow> result = Err (pending_error e) \<and> w' = w\<lparr>ow_terminal := t\<rparr>
      | Inr delivery \<Rightarrow>
          (delivery \<noteq> gr_delivery g \<longrightarrow> result = Err (OE_Refused OWR_Content) \<and> w' = w\<lparr>ow_terminal := t\<rparr>)
          \<and> (delivery = gr_delivery g \<and> lm_dispatches (cf_limits (ow_configuration w)) \<le> ow_attempts w \<longrightarrow>
               result = Err OE_Capacity \<and> w' = w\<lparr>ow_terminal := t\<rparr>)"
proof -
  have a: "owner_admit (dispatch_facts w tenant worker handle (Some g)) = (Ok () :: 'e OwnerError + unit)"
    using facts by (simp add: owner_admit_facts)
  then have b: "owner_admit ((dispatch_facts w tenant worker handle (Some g))[6 := True]) = (Ok () :: 'e OwnerError + unit)"
    by (simp add: owner_admit_observed)
  have c: "owner_admit ((dispatch_facts w tenant worker handle (Some g))[6 := False]) = (Err (OE_Refused OWR_Content) :: 'e OwnerError + unit)"
    by (rule content_refused [OF facts])
  show ?thesis using assms(1) [symmetric] a b c
    by (auto simp: owner_dispatch_def Let_def grant found split: sum.splits)
qed

subsection \<open>Runs of a dispatcher\<close>

text \<open>The parameter terminal with a log of the requests that reach it.\<close>

definition logged_intents :: "('s, 'e) IntentTerminal \<Rightarrow> ('s \<times> TerminalLog, 'e) IntentTerminal" where
  "logged_intents I =
     \<lparr>it_terminal = logged_terminal (it_terminal I), it_store = it_store I,
      it_pending = (\<lambda>(s, log) intent. let (found, s) = it_pending I s intent in (found, (s, log))),
      it_manifest = (\<lambda>(s, log). it_manifest I s)\<rparr>"

text \<open>Administration grants and revokes, workers dispatch, and a restart opens a new dispatcher, without
  grants and under another brand, over the file and the terminal that are left.\<close>

datatype OwnerEvent = OV_Grant hash32 hash32 | OV_Revoke IntentHandle | OV_Dispatch hash32 hash32 IntentHandle | OV_Restart nat

definition owner_event ::
    "hasher \<Rightarrow> (string \<Rightarrow> bytes) \<Rightarrow> 'm StateStore \<Rightarrow> ('s, 'e) IntentTerminal \<Rightarrow> nat \<Rightarrow> Configuration \<Rightarrow> Policy list \<Rightarrow>
      ('m, 's) Dispatcher \<Rightarrow> OwnerEvent \<Rightarrow> ('m, 's) Dispatcher" where
  "owner_event H file S I size_of_grant configuration policies w event =
     (case event of
       OV_Grant worker intent \<Rightarrow> snd (owner_grant I size_of_grant w worker intent)
     | OV_Revoke handle \<Rightarrow> snd (owner_revoke w handle :: ('e OwnerError + bool) \<times> ('m, 's) Dispatcher)
     | OV_Dispatch tenant worker handle \<Rightarrow>
         snd (owner_dispatch H file (Reservations S (owner_namespace H file configuration (st_identity (it_store I)))) I w tenant worker handle)
     | OV_Restart brand \<Rightarrow>
         (case owner_bind H file S I brand (ow_terminal w) (rl_store (ow_relay w)) configuration policies of
           Inl _ \<Rightarrow> w
         | Inr w \<Rightarrow> w))"

text \<open>The keys that the file has reserved.\<close>

definition owner_keys ::
    "hasher \<Rightarrow> (string \<Rightarrow> bytes) \<Rightarrow> ('s, 'e) IntentTerminal \<Rightarrow> Configuration \<Rightarrow> Policy list \<Rightarrow> ('m \<Rightarrow> bytes option) \<Rightarrow> 'm \<Rightarrow> EffectKey set" where
  "owner_keys H file I configuration policies cell m =
     durable_keys H file (st_identity (it_store I)) policies
       (owner_cell (owner_namespace H file configuration (st_identity (it_store I))) cell m)"

definition owner_ok ::
    "hasher \<Rightarrow> (string \<Rightarrow> bytes) \<Rightarrow> ('s, 'e) IntentTerminal \<Rightarrow> Configuration \<Rightarrow> Policy list \<Rightarrow> ('m \<Rightarrow> bytes option) \<Rightarrow> ('m, 't) Dispatcher \<Rightarrow> bool" where
  "owner_ok H file I configuration policies cell w \<longleftrightarrow>
     relay_ok H file (st_identity (it_store I)) policies (ow_relay w)
     \<and> restorable H file (st_identity (it_store I)) policies
         (owner_cell (owner_namespace H file configuration (st_identity (it_store I))) cell (rl_store (ow_relay w)))"

text \<open>The part of the log that belongs to the terminal stays when only the terminal's lookup runs.\<close>

lemma logged_intents_simps [simp]:
  "it_store (logged_intents I) = it_store I"
  "it_terminal (logged_intents I) = logged_terminal (it_terminal I)"
  "snd (snd (it_pending (logged_intents I) t intent)) = snd t"
  by (simp_all add: logged_intents_def prod.case_eq_if Let_def)

context atomic_cell
begin

lemma dispatch_call:
  assumes "relay_ok H file scope policies (ow_relay w)" "restorable H file scope policies (cell (rl_store (ow_relay w)))"
    and "owner_dispatch H file S (logged_intents I) w tenant worker handle = (result, w')"
  shows "call_ok H file scope policies (cell (rl_store (ow_relay w))) (snd (ow_terminal w)) (ow_relay w')
    (cell (rl_store (ow_relay w'))) (snd (ow_terminal w'))"
  using assms(3)
proof (cases rule: dispatch_cases)
  case refused
  with assms(1,2) show ?thesis by (auto simp: call_ok_def)
next
  case (relayed g b outcome relay terminal)
  obtain s where s: "snd (it_pending (logged_intents I) (ow_terminal w) (ih_intent handle)) = (s, snd (ow_terminal w))"
    by (metis logged_intents_simps(3) prod.collapse)
  obtain s' log' where t: "terminal = (s', log')" by fastforce
  from relayed(2) s t have "relay_handle H file S (logged_terminal (it_terminal I)) (ow_relay w) (s, snd (ow_terminal w)) b
      (dispatch_operation (logged_intents I) g) = (outcome, relay, s', log')" by simp
  from handle_ok [OF assms(1,2) this] relayed(4) t show ?thesis by auto
qed

end

lemma owner_event_ok:
  fixes I :: "('s, 'e) IntentTerminal"
  assumes "atomic_cell (Reservations S (owner_namespace H file configuration (st_identity (it_store I))))
      (owner_cell (owner_namespace H file configuration (st_identity (it_store I))) cell)"
    and ok: "owner_ok H file I configuration policies cell w"
  shows "let w' = owner_event H file S (logged_intents I) n configuration policies w event;
      before = owner_keys H file I configuration policies cell (rl_store (ow_relay w));
      after = owner_keys H file I configuration policies cell (rl_store (ow_relay w'));
      log = snd (ow_terminal w); log' = snd (ow_terminal w') in
    owner_ok H file I configuration policies cell w' \<and> before \<subseteq> after
    \<and> (invoked_keys log' = invoked_keys log
       \<or> (\<exists>key. key \<notin> before \<and> key \<in> after \<and> invoked_keys log' = invoked_keys log @ [key]))"
proof (cases event)
  case (OV_Grant worker intent)
  obtain result w' where g: "owner_grant (logged_intents I) n w worker intent = (result, w')" by fastforce
  then have "ow_relay w' = ow_relay w" "snd (ow_terminal w') = snd (ow_terminal w)"
    by (auto simp: owner_grant_def Let_def prod.case_eq_if split: if_splits option.splits sum.splits)
  with ok g show ?thesis by (simp add: OV_Grant owner_event_def owner_ok_def)
next
  case (OV_Revoke handle)
  obtain result w' where r: "(owner_revoke w handle :: ('e OwnerError + bool) \<times> _) = (result, w')" by fastforce
  then have "ow_relay w' = ow_relay w" "ow_terminal w' = ow_terminal w"
    by (auto simp: owner_revoke_def split: if_splits option.splits)
  with ok r show ?thesis by (simp add: OV_Revoke owner_event_def owner_ok_def)
next
  case (OV_Dispatch tenant worker handle)
  let ?S = "Reservations S (owner_namespace H file configuration (st_identity (it_store I)))"
  obtain result w' where d: "owner_dispatch H file ?S (logged_intents I) w tenant worker handle = (result, w')" by fastforce
  from atomic_cell.dispatch_call [OF assms(1) _ _ d] ok d show ?thesis
    by (auto simp: OV_Dispatch owner_event_def owner_ok_def owner_keys_def call_ok_def Let_def)
next
  case (OV_Restart brand)
  show ?thesis
  proof (cases "owner_bind H file S (logged_intents I) brand (ow_terminal w) (rl_store (ow_relay w)) configuration policies")
    case (Inl e)
    with ok show ?thesis by (simp add: OV_Restart owner_event_def)
  next
    case (Inr w')
    then obtain manifest where m: "relay_open H file (Reservations S (owner_namespace H file configuration (st_identity (it_store I))))
        (rl_store (ow_relay w)) (st_identity (it_store I)) policies manifest = Inr (ow_relay w')" "ow_terminal w' = ow_terminal w"
      by (auto simp: owner_bind_def Let_def)
    from atomic_cell.open_ok [OF assms(1) m(1)] ok m(2) Inr show ?thesis
      by (simp add: OV_Restart owner_event_def owner_ok_def owner_keys_def)
  qed
qed

sublocale row_table \<subseteq> owner: reservation "owner_event H src (SqliteStateStore D) (logged_intents I) n configuration policies"
  "owner_ok H src I configuration policies row"
  "\<lambda>w. owner_keys H src I configuration policies row (rl_store (ow_relay w))" "\<lambda>w. invoked_keys (snd (ow_terminal w))"
  for H src I n configuration policies
proof (unfold_locales, goal_cases)
  case (1 w event)
  from owner_event_ok [OF envelope.atomic_cell_axioms 1] show ?case by (simp add: Let_def)
next
  case (2 w event)
  from owner_event_ok [OF envelope.atomic_cell_axioms 2] show ?case by (simp add: Let_def)
next
  case (3 w event)
  from owner_event_ok [OF envelope.atomic_cell_axioms 3] show ?case unfolding Let_def by blast
qed


context row_table
begin

lemma envelope_cell: "atomic_cell (Reservations (SqliteStateStore D) namespace) (owner_cell namespace row)"
  by (rule envelope.atomic_cell_axioms)

lemma owner_at_most_once:
  assumes "owner_ok H file I configuration policies row w"
  shows "\<exists>keys. invoked_keys (snd (ow_terminal (run_events (owner_event H file (SqliteStateStore D) (logged_intents I) n configuration policies) w es)))
      = invoked_keys (snd (ow_terminal w)) @ keys \<and> distinct keys
    \<and> set keys \<inter> owner_keys H file I configuration policies row (rl_store (ow_relay w)) = {}
    \<and> set keys \<subseteq> owner_keys H file I configuration policies row
        (rl_store (ow_relay (run_events (owner_event H file (SqliteStateStore D) (logged_intents I) n configuration policies) w es)))"
  using owner.run_at_most_once [OF assms, of n es] by blast

end

lemma dispatch_keeps:
  assumes "owner_inv w" "owner_dispatch H file S I w tenant worker handle = (result, w')"
  shows "owner_inv w' \<and> ow_configuration w' = ow_configuration w"
  using assms(2)
proof (cases rule: dispatch_cases)
  case refused
  with assms(1) show ?thesis by (auto simp: owner_inv_def)
next
  case (relayed g b outcome relay terminal)
  then have "ow_attempts w < lm_dispatches (cf_limits (ow_configuration w))" by (simp add: dispatch_granted_def)
  then have "ow_attempts w + 1 \<le> lm_dispatches (cf_limits (ow_configuration w))" by (rule inc_le)
  with relayed(4) assms(1) show ?thesis by (auto simp: owner_inv_def)
qed

lemma owner_bound:
  assumes "owner_bind H file S I brand terminal store configuration policies = Ok w"
  shows "owner_inv w \<and> ow_configuration w = configuration \<and> ow_terminal w = terminal"
  using assms by (auto simp: owner_bind_def Let_def owner_inv_def)

lemma owner_event_inv:
  fixes I :: "('s, 'e) IntentTerminal"
  assumes "owner_inv w" "ow_configuration w = configuration"
  shows "owner_inv (owner_event H file S I n configuration policies w event)
    \<and> ow_configuration (owner_event H file S I n configuration policies w event) = configuration"
proof (cases event)
  case (OV_Grant worker intent)
  with assms grant_keeps [OF assms(1) surjective_pairing, of I n worker intent] show ?thesis by (simp add: owner_event_def)
next
  case (OV_Revoke handle)
  obtain result w' where r: "(owner_revoke w handle :: ('e OwnerError + bool) \<times> _) = (result, w')" by fastforce
  with revoke_keeps [OF assms(1) r] assms OV_Revoke show ?thesis by (simp add: owner_event_def)
next
  case (OV_Dispatch tenant worker handle)
  with assms dispatch_keeps [OF assms(1) surjective_pairing] show ?thesis by (simp add: owner_event_def)
next
  case (OV_Restart brand)
  with assms show ?thesis by (auto simp: owner_event_def split: sum.splits dest!: owner_bound)
qed

lemma owner_run_inv:
  assumes "owner_inv w" "ow_configuration w = configuration"
  shows "owner_inv (run_events (owner_event H file S I n configuration policies) w events)
    \<and> ow_configuration (run_events (owner_event H file S I n configuration policies) w events) = configuration"
  using assms by (induction events arbitrary: w) (auto simp: owner_event_inv)

text \<open>The handles that a run hands out, and the brands under which it restarts.\<close>

fun owner_issued ::
    "hasher \<Rightarrow> (string \<Rightarrow> bytes) \<Rightarrow> 'm StateStore \<Rightarrow> ('s, 'e) IntentTerminal \<Rightarrow> nat \<Rightarrow> Configuration \<Rightarrow> Policy list \<Rightarrow>
      ('m, 's) Dispatcher \<Rightarrow> OwnerEvent list \<Rightarrow> IntentHandle list" where
  "owner_issued H file S I n configuration policies w [] = []"
| "owner_issued H file S I n configuration policies w (event # events) =
     (case event of
        OV_Grant worker intent \<Rightarrow> (case fst (owner_grant I n w worker intent) of Inr handle \<Rightarrow> [handle] | Inl _ \<Rightarrow> [])
      | _ \<Rightarrow> [])
     @ owner_issued H file S I n configuration policies (owner_event H file S I n configuration policies w event) events"

definition restart_brands :: "OwnerEvent list \<Rightarrow> nat list" where
  "restart_brands events = concat (map (\<lambda>event. case event of OV_Restart brand \<Rightarrow> [brand] | _ \<Rightarrow> []) events)"

text \<open>Within one lifetime the numbers rise.\<close>

definition numbered_after :: "IntentHandle \<Rightarrow> IntentHandle \<Rightarrow> bool" where
  "numbered_after h h' \<longleftrightarrow> ih_owner h = ih_owner h' \<longrightarrow> ih_grant h < ih_grant h'"

lemma grant_issues:
  assumes "owner_grant I n w worker intent = (result, w')"
  shows "ow_brand w' = ow_brand w
    \<and> (case result of
         Inl _ \<Rightarrow> ow_next_grant w' = ow_next_grant w
       | Inr handle \<Rightarrow> ih_owner handle = ow_brand w \<and> ih_grant handle = ow_next_grant w' \<and> ow_next_grant w < ow_next_grant w')"
  using assms
  by (auto simp: owner_grant_def Let_def prod.case_eq_if checked_add64_def word_less_nat_alt unat_word_ariths
      split: if_splits option.splits sum.splits Option.bind_splits)

lemma owner_event_numbers:
  fixes I :: "('s, 'e) IntentTerminal"
  assumes "w' = owner_event H file S I n configuration policies w event" "\<And>worker intent. event \<noteq> OV_Grant worker intent"
  shows "(ow_brand w' = ow_brand w \<and> ow_next_grant w' = ow_next_grant w) \<or> event = OV_Restart (ow_brand w')"
proof (cases event)
  case (OV_Dispatch tenant worker handle)
  obtain result v where d: "owner_dispatch H file (Reservations S (owner_namespace H file configuration (st_identity (it_store I)))) I w tenant worker handle
      = (result, v)" by fastforce
  then have "w' = v" using assms(1) OV_Dispatch by (simp add: owner_event_def)
  with d show ?thesis by (cases rule: dispatch_cases) auto
next
  case (OV_Revoke handle)
  then show ?thesis using assms(1) by (auto simp: owner_event_def owner_revoke_def split: option.splits)
next
  case (OV_Restart brand)
  then show ?thesis using assms(1) by (auto simp: owner_event_def owner_bind_def Let_def split: sum.splits)
qed (use assms(2) in auto)

lemma issued_numbers:
  fixes I :: "('s, 'e) IntentTerminal"
  assumes "distinct (ow_brand w # restart_brands events)"
  shows "sorted_wrt numbered_after (owner_issued H file S I n configuration policies w events)
    \<and> (\<forall>h\<in>set (owner_issued H file S I n configuration policies w events).
         ih_owner h \<in> insert (ow_brand w) (set (restart_brands events)) \<and> (ih_owner h = ow_brand w \<longrightarrow> ow_next_grant w < ih_grant h))"
  using assms
proof (induction events arbitrary: w)
  case (Cons event events)
  let ?w = "owner_event H file S I n configuration policies w event"
  show ?case
  proof (cases "\<exists>worker intent. event = OV_Grant worker intent")
    case True
    then obtain worker intent where e: "event = OV_Grant worker intent" by blast
    obtain result w' where g: "owner_grant I n w worker intent = (result, w')" by fastforce
    have "?w = w'" by (simp add: e owner_event_def g)
    with Cons.IH [of w'] Cons.prems grant_issues [OF g] show ?thesis
      by (auto simp: e g restart_brands_def numbered_after_def split: sum.splits dest: order.strict_trans)
  next
    case False
    then have none: "owner_issued H file S I n configuration policies w (event # events) = owner_issued H file S I n configuration policies ?w events"
      by (auto split: OwnerEvent.split)
    consider "ow_brand ?w = ow_brand w" "ow_next_grant ?w = ow_next_grant w" | "event = OV_Restart (ow_brand ?w)"
      using owner_event_numbers [OF refl, of event] False by blast
    then show ?thesis
    proof cases
      case 1
      have "distinct (ow_brand ?w # restart_brands events)" "set (restart_brands events) \<subseteq> set (restart_brands (event # events))"
        using Cons.prems by (auto simp: 1 restart_brands_def)
      with Cons.IH [of ?w] show ?thesis unfolding none 1 by blast
    next
      case 2
      have b: "restart_brands (event # events) = ow_brand ?w # restart_brands events" by (subst 2) (simp add: restart_brands_def)
      with Cons.IH [of ?w] Cons.prems show ?thesis unfolding none b by auto
    qed
  qed
qed simp

lemma relay_commit_terminal: "relay_forward H file S (logged_terminal T) ms check r (s, log) b operation = (result, r', s', log') \<Longrightarrow>
    log' = log \<or> (\<exists>report. log' = log @ [(operation, report)])"
  by (auto simp: relay_forward_def Let_def logged_terminal_def prod.case_eq_if split: sum.splits)

lemma relay_handle_log:
  assumes "relay_handle H file S (logged_terminal T) r (s, log) b operation = (result, r', s', log')"
  shows "log' = log \<or> (\<exists>report. log' = log @ [(operation, report)])"
  using assms by (cases rule: relay_handle_cases) (auto dest: relay_commit_terminal)

lemma owner_bind_ok:
  assumes "row_table D row" "owner_bind H file (SqliteStateStore D) (logged_intents I) brand t store configuration policies = Ok w"
  shows "owner_ok H file I configuration policies row w"
    and "owner_keys H file I configuration policies row (rl_store (ow_relay w)) = owner_keys H file I configuration policies row store"
proof -
  let ?namespace = "owner_namespace H file configuration (st_identity (it_store I))"
  note cell = row_table.envelope_cell [OF assms(1), of ?namespace]
  from assms(2) obtain manifest where "relay_open H file (Reservations (SqliteStateStore D) ?namespace) store (st_identity (it_store I)) policies manifest
      = Inr (ow_relay w)" by (auto simp: owner_bind_def Let_def)
  note r = atomic_cell.open_ok [OF cell this]
  from r(1,4) have "restore H file (st_identity (it_store I)) policies (rl_stored (ow_relay w)) = Inr (rl_monitors (ow_relay w))"
    by (simp add: relay_ok_def)
  with r show "owner_ok H file I configuration policies row w" by (auto simp: owner_ok_def restorable_def)
  show "owner_keys H file I configuration policies row (rl_store (ow_relay w)) = owner_keys H file I configuration policies row store"
    using r(2) by (simp add: owner_keys_def)
qed

lemma owner_run:
  assumes "row_table D row"
    and "owner_bind H file (SqliteStateStore D) (logged_intents I) brand (s, []) store configuration policies = Ok w"
    and "run_events (owner_event H file (SqliteStateStore D) (logged_intents I) n configuration policies) w events = w'"
  shows "distinct (invoked_keys (snd (ow_terminal w')))
    \<and> set (invoked_keys (snd (ow_terminal w'))) \<inter> owner_keys H file I configuration policies row store = {}
    \<and> set (invoked_keys (snd (ow_terminal w'))) \<subseteq> owner_keys H file I configuration policies row (rl_store (ow_relay w'))"
  using row_table.owner_at_most_once [OF assms(1) owner_bind_ok(1) [OF assms(1,2)], of n events] owner_bind_ok(2) [OF assms(1,2)]
    owner_bound [OF assms(2)] assms(3) by auto

section \<open>Properties\<close>

text \<open>C7: relays over one store of checkpoints that keeps the trait's contract, opened again after crashes or
  beside each other, in any order of calls, with stores that fail before or after they wrote and terminals that do anything,
  let each delivery of the store reach an effect at most once, never one that was reserved at the start; and
  whatever has been sent is reserved in the bytes that the next restart will restore.\<close>

theorem durable_at_most_once:
  assumes "atomic_cell S cell"
    and "cell store = Some bs" "restore H file scope policies bs = Ok ms"
    and "run_events (relay_event H file S T scope policies) \<lparr>sy_store = store, sy_relays = [], sy_terminal = (s, [])\<rparr> events = sys"
  shows "distinct (invoked_keys (snd (sy_terminal sys)))
    \<and> set (invoked_keys (snd (sy_terminal sys))) \<inter> reserved_keys ms = {}
    \<and> (\<exists>bs' ms'. cell (sy_store sys) = Some bs' \<and> restore H file scope policies bs' = Ok ms'
         \<and> set (invoked_keys (snd (sy_terminal sys))) \<union> reserved_keys ms \<subseteq> reserved_keys ms')"
  using atomic_cell.relays_at_most_once [OF assms(1) _ assms(3) _ assms(4)] assms(2) by auto

text \<open>C6: the trusted dispatcher over its SQLite file, through every sequence of grants, revocations, dispatches of
  any worker with any handle, and restarts, lets each intent of its store reach the transport at most once, and none that
  the file had reserved before.\<close>

theorem intents_sent_once:
  assumes "row_table D row"
    and "owner_bind H file (SqliteStateStore D) (logged_intents I) brand (s, []) store configuration policies = Ok w"
    and "run_events (owner_event H file (SqliteStateStore D) (logged_intents I) n configuration policies) w events = w'"
  shows "distinct (invoked_keys (snd (ow_terminal w')))
    \<and> set (invoked_keys (snd (ow_terminal w'))) \<inter> owner_keys H file I configuration policies row store = {}
    \<and> set (invoked_keys (snd (ow_terminal w'))) \<subseteq> owner_keys H file I configuration policies row (rl_store (ow_relay w'))"
  using owner_run [OF assms] by blast

text \<open>C13: a request reaches the terminal in a dispatch only as the send of exactly the intent of a grant that the
  dispatcher holds for this worker, under this handle's brand, number and intent, in its own tenant, still pending with the same
  content, while it is not stopped and has attempts left.  If a comparison fails that needs no lookup, the first
  failing one in the order of the list is reported and nothing happens; if they hold, a stopped dispatcher says so,
  and otherwise an intent that is not pending, another content, or attempts used up are reported in this order, and only the lookup
  has run.\<close>

theorem dispatch_authorized:
  fixes I :: "('s, 'e) IntentTerminal"
  assumes "owner_dispatch H file S (logged_intents I) w tenant worker handle = (result, w')"
  shows "(snd (ow_terminal w') \<noteq> snd (ow_terminal w) \<longrightarrow>
      (\<exists>g report. dispatch_granted (logged_intents I) w tenant worker handle g \<and> ow_attempts w' = ow_attempts w + 1
         \<and> snd (ow_terminal w') = snd (ow_terminal w) @ [(dispatch_operation I g, report)]))
    \<and> (\<forall>refusal. find (\<lambda>(holds, _). \<not> holds)
          (zip (dispatch_facts w tenant worker handle (find (\<lambda>g. gr_id g = ih_grant handle) (ow_grants w))) OWNER_REFUSALS) = Some (False, refusal)
        \<longrightarrow> result = Err (OE_Refused refusal) \<and> w' = w)
    \<and> (\<forall>g found t. find (\<lambda>g. gr_id g = ih_grant handle) (ow_grants w) = Some g
        \<and> list_all id (dispatch_facts w tenant worker handle (Some g))
        \<and> it_pending (logged_intents I) (ow_terminal w) (ih_intent handle) = (found, t) \<longrightarrow>
        (if ow_stopped w then result = Err OE_Stopped \<and> w' = w
         else case found of
             Inl e \<Rightarrow> result = Err (pending_error e) \<and> w' = w\<lparr>ow_terminal := t\<rparr>
           | Inr delivery \<Rightarrow>
               (delivery \<noteq> gr_delivery g \<longrightarrow> result = Err (OE_Refused OWR_Content) \<and> w' = w\<lparr>ow_terminal := t\<rparr>)
               \<and> (delivery = gr_delivery g \<and> lm_dispatches (cf_limits (ow_configuration w)) \<le> ow_attempts w \<longrightarrow>
                    result = Err OE_Capacity \<and> w' = w\<lparr>ow_terminal := t\<rparr>)))"
proof (intro conjI allI impI, goal_cases)
  case 1
  then have changed: "snd (ow_terminal w') \<noteq> snd (ow_terminal w)" .
  from assms show "\<exists>g report. dispatch_granted (logged_intents I) w tenant worker handle g \<and> ow_attempts w' = ow_attempts w + 1
         \<and> snd (ow_terminal w') = snd (ow_terminal w) @ [(dispatch_operation I g, report)]"
  proof (cases rule: dispatch_cases)
    case refused
    with changed show ?thesis by auto
  next
    case (relayed g b outcome relay terminal)
    obtain t s' log' where t: "snd (it_pending (logged_intents I) (ow_terminal w) (ih_intent handle)) = (t, snd (ow_terminal w))"
      "terminal = (s', log')" by (metis logged_intents_simps(3) prod.collapse)
    have op: "dispatch_operation (logged_intents I) g = dispatch_operation I g" by (simp add: dispatch_operation_def)
    from relay_handle_log relayed(2) t op have "log' = snd (ow_terminal w) \<or> (\<exists>report. log' = snd (ow_terminal w) @ [(dispatch_operation I g, report)])"
      by (metis logged_intents_simps(2))
    with relayed t changed show ?thesis by auto
  qed
next
  case (2 refusal)
  then have "owner_admit (dispatch_facts w tenant worker handle (find (\<lambda>g. gr_id g = ih_grant handle) (ow_grants w)))
      = (Err (OE_Refused refusal) :: 'e OwnerError + unit)"
    by (simp add: owner_admit_def admit_facts_first case_prod_unfold)
  then show ?case using assms by (auto simp: owner_dispatch_def Let_def)
next
  case (3 refusal)
  then have "owner_admit (dispatch_facts w tenant worker handle (find (\<lambda>g. gr_id g = ih_grant handle) (ow_grants w)))
      = (Err (OE_Refused refusal) :: 'e OwnerError + unit)"
    by (simp add: owner_admit_def admit_facts_first case_prod_unfold)
  then show ?case using assms by (auto simp: owner_dispatch_def Let_def)
next
  case (4 g found t)
  then show ?case by (elim conjE) (rule dispatch_lookup [OF assms])
qed

text \<open>C25: through every sequence of grants, revocations, dispatches and restarts, the numbers of the grants a dispatcher
  holds are distinct, the bytes they retain are counted exactly, and grants, bytes and attempts stay within the configured limits.
  When no two lifetimes have the same brand (the brand is the address of an \<^verbatim>\<open>Arc\<close> that every handle keeps alive), the numbers of
  the handles issued under one brand strictly increase, so that no handle that was ever issued, revoked or from before a
  restart, is issued again.\<close>

theorem dispatcher_tables_kept:
  assumes "owner_bind H file S I brand terminal store configuration policies = Ok w"
    and "run_events (owner_event H file S I n configuration policies) w events = w'"
  shows "owner_inv w' \<and> ow_configuration w' = configuration
    \<and> (distinct (brand # restart_brands events) \<longrightarrow>
         sorted_wrt numbered_after (owner_issued H file S I n configuration policies w events))"
proof -
  have "owner_inv w" "ow_configuration w = configuration" using owner_bound [OF assms(1)] by auto
  from owner_run_inv [OF this] assms(2) have "owner_inv w' \<and> ow_configuration w' = configuration" by blast
  moreover have "ow_brand w = brand" using assms(1) by (auto simp: owner_bind_def Let_def)
  ultimately show ?thesis using issued_numbers by blast
qed

text \<open>A concrete lifetime: one guard with room for two keys, an empty file name space.\<close>

definition sample_policies :: "Policy list" where
  "sample_policies = [PL_AtMostOne 2]"

lemma sample_checkpoint:
  obtains bs where "restore H file scope sample_policies bs = Ok (map (monitor_new H file) sample_policies)" "length bs = 161"
proof -
  let ?ms = "map (monitor_new H file) sample_policies"
  have len: "length (checkpoint_body H file scope ?ms None) = 129"
    by (simp add: checkpoint_body_parts sample_policies_def written_bytes_def codec_bytes_def policy_state_bytes_keys DURABLE_MAGIC_def
        monitor_new_def ascii_bytes_def)
  let ?bs = "checkpoint_body H file scope ?ms None @ codec_hash (h_hash H (checkpoint_body H file scope ?ms None))"
  have c: "checkpoint H file scope ?ms None = Ok ?bs" using len by (simp add: checkpoint_def Let_def DURABLE_MAX_BYTES_def)
  have m: "list_all2 (monitor_of H file scope) sample_policies ?ms"
    by (simp add: sample_policies_def monitor_of_def monitor_new_def state_ok_def)
  from restore_checkpoint [OF m _ _ c] have "restore H file scope sample_policies ?bs = Ok ?ms"
    by (simp add: sample_policies_def is_guard_def)
  moreover have "length ?bs = 161" using len by simp
  ultimately show thesis by (rule that)
qed

theorem durable_at_most_once_witness:
  "\<exists>bs. restore flat_hasher no_file 7 sample_policies bs = Ok (map (monitor_new flat_hasher no_file) sample_policies)
    \<and> (let request = RV_Handle 0 (binding_of (opid_first 1) (sample_send [1])) (sample_send [1]);
          sys = run_events (relay_event flat_hasher no_file (SqliteStateStore one_row) losing_terminal 7 sample_policies)
            \<lparr>sy_store = Some bs, sy_relays = [], sy_terminal = (0, [])\<rparr> [RV_Open sample_manifest, request, RV_Open sample_manifest, request]
       in distinct (invoked_keys (snd (sy_terminal sys))))"
proof -
  obtain bs where bs: "restore flat_hasher no_file 7 sample_policies bs = Ok (map (monitor_new flat_hasher no_file) sample_policies)"
    using sample_checkpoint .
  show ?thesis unfolding Let_def
    by (intro exI [of _ bs] conjI bs durable_at_most_once [OF one_row.sqlite.atomic_cell_axioms refl bs refl, THEN conjunct1])
qed

definition sample_intents :: "(nat, unit) IntentTerminal" where
  "sample_intents = \<lparr>it_terminal = losing_terminal, it_store = \<lparr>st_identity = 7, st_handle = 1\<rparr>,
     it_pending = (\<lambda>n intent. (case sample_send [1] of Op_Send store delivery \<Rightarrow> Ok delivery | _ \<Rightarrow> Err IE_UnknownDelivery, n)),
     it_manifest = (\<lambda>n. Some sample_manifest)\<rparr>"

definition sample_configuration :: Configuration where
  "sample_configuration = \<lparr>cf_deployment = 1, cf_tenant = 2, cf_epoch = 1,
     cf_limits = \<lparr>lm_grants = 4, lm_intent_bytes = 4096, lm_dispatches = 8\<rparr>\<rparr>"

lemma sample_bound:
  obtains bs w where "owner_bind flat_hasher no_file (SqliteStateStore one_row) (logged_intents sample_intents) 1 (0, []) (Some bs)
    sample_configuration sample_policies = Ok w" "ow_brand w = 1" "ow_grants w = []"
proof -
  let ?namespace = "owner_namespace flat_hasher no_file sample_configuration 7"
  obtain bs where bs: "restore flat_hasher no_file 7 sample_policies bs = Ok (map (monitor_new flat_hasher no_file) sample_policies)"
    "length bs = 161" by (rule sample_checkpoint)
  let ?row = "OWNER_HEADER @ be_bytes 32 ?namespace @ bs"
  have h: "length OWNER_HEADER = 8" by (simp add: OWNER_HEADER_def ascii_bytes_def)
  have load: "ss_load (Reservations (SqliteStateStore one_row) ?namespace) (Some ?row) = (Ok bs, Some ?row)"
    using bs(2) h by (simp add: Reservations_def reservations_load_def SqliteStateStore_def sqlite_load_def one_row_def
        DURABLE_MAX_BYTES_def owner_envelope_def strip_prefix_def)
  have p: "provenance_complete (owner_manifest flat_hasher no_file sample_configuration ?namespace sample_manifest)"
    by (simp add: provenance_complete_def owner_manifest_def sample_manifest_def owner_source_def source_digest_def flat_hasher_def)
  have "\<exists>r. relay_open flat_hasher no_file (Reservations (SqliteStateStore one_row) ?namespace) (Some ?row) 7 sample_policies
      (owner_manifest flat_hasher no_file sample_configuration ?namespace sample_manifest) = Ok r"
    using load bs(1) p by (simp add: relay_open_def Let_def owner_manifest_def sample_manifest_def)
  then obtain r where "relay_open flat_hasher no_file (Reservations (SqliteStateStore one_row) ?namespace) (Some ?row) 7 sample_policies
      (owner_manifest flat_hasher no_file sample_configuration ?namespace sample_manifest) = Ok r" by blast
  then show thesis
    by (intro that [of ?row]) (auto simp: owner_bind_def Let_def logged_intents_def sample_intents_def)
qed

definition sample_events :: "OwnerEvent list" where
  "sample_events =
     (let handle = \<lparr>ih_owner = 1, ih_grant = 1, ih_principal = 3, ih_intent = 5\<rparr> in
      [OV_Grant 3 5, OV_Dispatch 2 3 handle, OV_Dispatch 2 3 handle, OV_Restart 2, OV_Grant 3 5,
       OV_Dispatch 2 3 (handle\<lparr>ih_owner := 2\<rparr>), OV_Revoke handle])"

theorem intents_sent_once_witness:
  "\<exists>bs w. owner_bind flat_hasher no_file (SqliteStateStore one_row) (logged_intents sample_intents) 1 (0, []) (Some bs)
      sample_configuration sample_policies = Ok w
    \<and> (let w' = run_events (owner_event flat_hasher no_file (SqliteStateStore one_row) (logged_intents sample_intents) 64
          sample_configuration sample_policies) w sample_events
       in distinct (invoked_keys (snd (ow_terminal w'))))"
proof -
  obtain bs w where w: "owner_bind flat_hasher no_file (SqliteStateStore one_row) (logged_intents sample_intents) 1 (0, []) (Some bs)
    sample_configuration sample_policies = Ok w" by (rule sample_bound)
  show ?thesis unfolding Let_def
    by (intro exI [of _ bs] exI [of _ w] conjI w intents_sent_once [OF one_row.row_table_axioms w refl, THEN conjunct1])
qed

theorem dispatch_authorized_witness:
  "\<exists>w. owner_dispatch flat_hasher no_file (SqliteStateStore one_row) (logged_intents sample_intents) w 9 3
      \<lparr>ih_owner = 1, ih_grant = 1, ih_principal = 3, ih_intent = 5\<rparr> = (Err (OE_Refused OWR_Tenant), w)"
proof -
  obtain bs w where w: "owner_bind flat_hasher no_file (SqliteStateStore one_row) (logged_intents sample_intents) 1 (0, []) (Some bs)
    sample_configuration sample_policies = Ok w" "ow_brand w = 1" "ow_grants w = []" by (rule sample_bound)
  let ?handle = "\<lparr>ih_owner = 1, ih_grant = 1, ih_principal = 3, ih_intent = 5\<rparr>"
  have "ow_configuration w = sample_configuration" using owner_bound [OF w(1)] by simp
  then have "find (\<lambda>(holds, _). \<not> holds)
          (zip (dispatch_facts w 9 3 ?handle (find (\<lambda>g. gr_id g = ih_grant ?handle) (ow_grants w))) OWNER_REFUSALS) = Some (False, OWR_Tenant)"
    using w(2,3) by (simp add: dispatch_facts_def OWNER_REFUSALS_def sample_configuration_def)
  with dispatch_authorized [OF surjective_pairing, of flat_hasher no_file "SqliteStateStore one_row" sample_intents w 9 3 ?handle]
  have "fst (owner_dispatch flat_hasher no_file (SqliteStateStore one_row) (logged_intents sample_intents) w 9 3 ?handle) = Err (OE_Refused OWR_Tenant)
    \<and> snd (owner_dispatch flat_hasher no_file (SqliteStateStore one_row) (logged_intents sample_intents) w 9 3 ?handle) = w" by blast
  then show ?thesis by (intro exI [of _ w]) (simp add: prod_eq_iff)
qed

theorem dispatcher_tables_kept_witness:
  "\<exists>bs w. owner_bind flat_hasher no_file (SqliteStateStore one_row) (logged_intents sample_intents) 1 (0, []) (Some bs)
      sample_configuration sample_policies = Ok w
    \<and> owner_inv (run_events (owner_event flat_hasher no_file (SqliteStateStore one_row) (logged_intents sample_intents) 64
        sample_configuration sample_policies) w sample_events)
    \<and> sorted_wrt numbered_after (owner_issued flat_hasher no_file (SqliteStateStore one_row) (logged_intents sample_intents) 64
        sample_configuration sample_policies w sample_events)"
proof -
  obtain bs w where w: "owner_bind flat_hasher no_file (SqliteStateStore one_row) (logged_intents sample_intents) 1 (0, []) (Some bs)
    sample_configuration sample_policies = Ok w" by (rule sample_bound)
  have "distinct (1 # restart_brands sample_events)" by (simp add: sample_events_def restart_brands_def Let_def)
  with dispatcher_tables_kept [OF w refl, of 64 sample_events] show ?thesis by (intro exI [of _ bs] exI [of _ w] conjI w) blast+
qed

end
