(* ===== verification/Zeno_Schema.thy ===== *)
theory Zeno_Schema
  imports Zeno_Plan
begin

text \<open>
  \<^verbatim>\<open>zeno-fcis-schema\<close>: closed, acyclic schemas with stable type, field and variant identifiers, their
  canonical encoding and hash, the validation of values against a type, and envelopes that bind a
  validated value to the hash of its schema.

  Identifiers, wire lengths and integer bounds are words of their width; the limits are natural
  numbers.  A signed bound is read by \<open>sint\<close>.  A name is its bytes.  The traversal marks are natural
  numbers.  \<open>SCE_Panic\<close> is not a variant of the source: it stands for the panic of an index out of bounds.
\<close>

section \<open>Identifiers\<close>

type_synonym TypeId = u32
type_synonym FieldId = u16
type_synonym VariantId = u16
type_synonym SchemaName = bytes

datatype SchemaError =
    SCE_InvalidName
  | SCE_EmptySchema
  | SCE_LimitExceeded
  | SCE_DuplicateTypeId TypeId
  | SCE_DuplicateTypeName
  | SCE_DuplicateFieldId FieldId
  | SCE_DuplicateFieldName
  | SCE_DuplicateVariantId VariantId
  | SCE_DuplicateVariantName
  | SCE_InvalidRange
  | SCE_UnknownRootType TypeId
  | SCE_UnknownTypeReference TypeId
  | SCE_RecursiveTypeCycle TypeId
  | SCE_Encoding
  | SCE_Panic

definition SCHEMA_NAME_MAX_BYTES :: nat where
  "SCHEMA_NAME_MAX_BYTES = 96"

definition is_ascii_alphabetic :: "u8 \<Rightarrow> bool" where
  "is_ascii_alphabetic b \<longleftrightarrow> 65 \<le> b \<and> b \<le> 90 \<or> 97 \<le> b \<and> b \<le> 122"

definition is_ascii_alphanumeric :: "u8 \<Rightarrow> bool" where
  "is_ascii_alphanumeric b \<longleftrightarrow> is_ascii_alphabetic b \<or> 48 \<le> b \<and> b \<le> 57"

definition schema_name_try_new :: "bytes \<Rightarrow> SchemaError + SchemaName" where
  "schema_name_try_new bs =
     (if bs = [] \<or> length bs > SCHEMA_NAME_MAX_BYTES then Err SCE_InvalidName
      else if \<not> (is_ascii_alphabetic (hd bs) \<or> hd bs = 95) then Err SCE_InvalidName
      else if list_ex (\<lambda>b. \<not> (is_ascii_alphanumeric b \<or> b = 95)) bs then Err SCE_InvalidName
      else Ok bs)"

section \<open>Definitions of types\<close>

record SchemaLimits =
  scl_max_types :: nat
  scl_max_fields :: nat
  scl_max_variants :: nat
  scl_max_tuple_items :: nat

definition default_schema_limits :: SchemaLimits where
  "default_schema_limits = \<lparr>scl_max_types = 4096, scl_max_fields = 1024, scl_max_variants = 1024, scl_max_tuple_items = 1024\<rparr>"

record FieldDef =
  fd_id :: FieldId
  fd_name :: SchemaName
  fd_type_id :: TypeId

definition field_def_try_new :: "FieldId \<Rightarrow> bytes \<Rightarrow> TypeId \<Rightarrow> SchemaError + FieldDef" where
  "field_def_try_new i name type_id =
     rbind (schema_name_try_new name) (\<lambda>name. Ok \<lparr>fd_id = i, fd_name = name, fd_type_id = type_id\<rparr>)"

record EnumVariantDef =
  ev_id :: VariantId
  ev_name :: SchemaName

definition enum_variant_def_try_new :: "VariantId \<Rightarrow> bytes \<Rightarrow> SchemaError + EnumVariantDef" where
  "enum_variant_def_try_new i name =
     rbind (schema_name_try_new name) (\<lambda>name. Ok \<lparr>ev_id = i, ev_name = name\<rparr>)"

record SumVariantDef =
  sv_id :: VariantId
  sv_name :: SchemaName
  sv_payload :: "TypeId option"

definition sum_variant_def_try_new :: "VariantId \<Rightarrow> bytes \<Rightarrow> TypeId option \<Rightarrow> SchemaError + SumVariantDef" where
  "sum_variant_def_try_new i name payload =
     rbind (schema_name_try_new name) (\<lambda>name. Ok \<lparr>sv_id = i, sv_name = name, sv_payload = payload\<rparr>)"

datatype TypeKind =
    TK_Unit
  | TK_Bool
  | TK_U128 u128 u128
  | TK_I128 i128 i128
  | TK_Bytes u32 u32
  | TK_Text u32 u32
  | TK_Enum "EnumVariantDef list"
  | TK_Tuple "TypeId list"
  | TK_Record "FieldDef list"
  | TK_Sum "SumVariantDef list"
  | TK_Vector TypeId u32 u32
  | TK_Map TypeId TypeId u32 u32

text \<open>The scan of neighbours for equal identifiers, and the scan of each name against the earlier ones.\<close>

fun unique_fields :: "FieldDef list \<Rightarrow> SchemaError + unit" where
  "unique_fields (x # y # xs) =
     (if fd_id x = fd_id y then Err (SCE_DuplicateFieldId (fd_id x)) else unique_fields (y # xs))"
| "unique_fields _ = Ok ()"

fun unique_enum_variants :: "EnumVariantDef list \<Rightarrow> SchemaError + unit" where
  "unique_enum_variants (x # y # xs) =
     (if ev_id x = ev_id y then Err (SCE_DuplicateVariantId (ev_id x)) else unique_enum_variants (y # xs))"
| "unique_enum_variants _ = Ok ()"

fun unique_sum_variants :: "SumVariantDef list \<Rightarrow> SchemaError + unit" where
  "unique_sum_variants (x # y # xs) =
     (if sv_id x = sv_id y then Err (SCE_DuplicateVariantId (sv_id x)) else unique_sum_variants (y # xs))"
| "unique_sum_variants _ = Ok ()"

definition unique_names :: "('a \<Rightarrow> SchemaName) \<Rightarrow> SchemaError \<Rightarrow> 'a list \<Rightarrow> SchemaError + unit" where
  "unique_names name duplicate xs =
     each_res (\<lambda>(index, item). guard_res (list_ex (\<lambda>prior. name prior = name item) (take index xs)) duplicate)
       (enumerate 0 xs)"

definition normalize_fields :: "FieldDef list \<Rightarrow> SchemaLimits \<Rightarrow> SchemaError + FieldDef list" where
  "normalize_fields flds limits =
     (if length flds > scl_max_fields limits then Err SCE_LimitExceeded
      else
      let flds = sort_key fd_id flds in
      rbind (unique_fields flds) (\<lambda>_.
      rbind (unique_names fd_name SCE_DuplicateFieldName flds) (\<lambda>_. Ok flds)))"

definition normalize_enum_variants :: "EnumVariantDef list \<Rightarrow> SchemaLimits \<Rightarrow> SchemaError + EnumVariantDef list" where
  "normalize_enum_variants variants limits =
     (if length variants > scl_max_variants limits then Err SCE_LimitExceeded
      else
      let variants = sort_key ev_id variants in
      rbind (unique_enum_variants variants) (\<lambda>_.
      rbind (unique_names ev_name SCE_DuplicateVariantName variants) (\<lambda>_. Ok variants)))"

definition normalize_sum_variants :: "SumVariantDef list \<Rightarrow> SchemaLimits \<Rightarrow> SchemaError + SumVariantDef list" where
  "normalize_sum_variants variants limits =
     (if length variants > scl_max_variants limits then Err SCE_LimitExceeded
      else
      let variants = sort_key sv_id variants in
      rbind (unique_sum_variants variants) (\<lambda>_.
      rbind (unique_names sv_name SCE_DuplicateVariantName variants) (\<lambda>_. Ok variants)))"

definition normalize_kind :: "TypeKind \<Rightarrow> SchemaLimits \<Rightarrow> SchemaError + TypeKind" where
  "normalize_kind kind limits =
     (case kind of
        TK_U128 mn mx \<Rightarrow> if mn > mx then Err SCE_InvalidRange else Ok kind
      | TK_I128 mn mx \<Rightarrow> if sint mn > sint mx then Err SCE_InvalidRange else Ok kind
      | TK_Bytes min_len max_len \<Rightarrow> if min_len > max_len then Err SCE_InvalidRange else Ok kind
      | TK_Text min_len max_len \<Rightarrow> if min_len > max_len then Err SCE_InvalidRange else Ok kind
      | TK_Vector _ min_len max_len \<Rightarrow> if min_len > max_len then Err SCE_InvalidRange else Ok kind
      | TK_Map _ _ min_len max_len \<Rightarrow> if min_len > max_len then Err SCE_InvalidRange else Ok kind
      | TK_Enum variants \<Rightarrow> rbind (normalize_enum_variants variants limits) (\<lambda>variants. Ok (TK_Enum variants))
      | TK_Sum variants \<Rightarrow> rbind (normalize_sum_variants variants limits) (\<lambda>variants. Ok (TK_Sum variants))
      | TK_Record flds \<Rightarrow> rbind (normalize_fields flds limits) (\<lambda>flds. Ok (TK_Record flds))
      | TK_Tuple items \<Rightarrow> if length items > scl_max_tuple_items limits then Err SCE_LimitExceeded else Ok kind
      | _ \<Rightarrow> Ok kind)"

definition references :: "TypeKind \<Rightarrow> TypeId list" where
  "references kind =
     (case kind of
        TK_Tuple items \<Rightarrow> items
      | TK_Record flds \<Rightarrow> map fd_type_id flds
      | TK_Sum variants \<Rightarrow> List.map_filter sv_payload variants
      | TK_Vector element _ _ \<Rightarrow> [element]
      | TK_Map key val _ _ \<Rightarrow> [key, val]
      | _ \<Rightarrow> [])"

record TypeDef =
  td_id :: TypeId
  td_name :: SchemaName
  td_kind :: TypeKind

definition type_def_try_new :: "TypeId \<Rightarrow> bytes \<Rightarrow> TypeKind \<Rightarrow> SchemaLimits \<Rightarrow> SchemaError + TypeDef" where
  "type_def_try_new i name kind limits =
     rbind (schema_name_try_new name) (\<lambda>name.
     rbind (normalize_kind kind limits) (\<lambda>kind. Ok \<lparr>td_id = i, td_name = name, td_kind = kind\<rparr>))"

section \<open>Schemas\<close>

record SchemaMetrics =
  scm_types :: nat
  scm_fields :: nat
  scm_variants :: nat

record Schema =
  sc_profile :: SchemaName
  sc_version :: u16
  sc_root_type :: TypeId
  sc_types :: "TypeDef list"
  sc_metrics :: SchemaMetrics

definition saturating_add :: "nat \<Rightarrow> nat \<Rightarrow> nat \<Rightarrow> nat" where
  "saturating_add bound a b = min bound (a + b)"

definition count_members :: "TypeDef \<Rightarrow> nat \<times> nat \<Rightarrow> nat \<times> nat" where
  "count_members item = (\<lambda>(flds, variants).
     case td_kind item of
       TK_Record items \<Rightarrow> (saturating_add usize_max flds (length items), variants)
     | TK_Enum items \<Rightarrow> (flds, saturating_add usize_max variants (length items))
     | TK_Sum items \<Rightarrow> (flds, saturating_add usize_max variants (length items))
     | _ \<Rightarrow> (flds, variants))"

definition compute_metrics :: "TypeDef list \<Rightarrow> SchemaError + SchemaMetrics" where
  "compute_metrics types =
     (let (flds, variants) = fold count_members types (0, 0) in
      rbind (ok_or (try_from u32_max (length types)) SCE_LimitExceeded) (\<lambda>types.
      rbind (ok_or (try_from u32_max flds) SCE_LimitExceeded) (\<lambda>flds.
      rbind (ok_or (try_from u32_max variants) SCE_LimitExceeded) (\<lambda>variants.
        Ok \<lparr>scm_types = types, scm_fields = flds, scm_variants = variants\<rparr>))))"

definition type_by_id :: "Schema \<Rightarrow> TypeId \<Rightarrow> TypeDef option" where
  "type_by_id schema i =
     (case binary_search_by_key td_id i (sc_types schema) of
        Inl _ \<Rightarrow> None | Inr index \<Rightarrow> Some (sc_types schema ! index))"

text \<open>The traversal marks a type 1 while its references are visited and 2 afterwards.  It ends because
  every call that does not return at once marks one more type.\<close>

definition unvisited :: "nat list \<Rightarrow> nat" where
  "unvisited states = length (filter (\<lambda>s. s \<noteq> 1 \<and> s \<noteq> 2) states)"

lemma unvisited_update:
  "i < length states \<Longrightarrow> states ! i \<noteq> 1 \<Longrightarrow> states ! i \<noteq> 2 \<Longrightarrow> unvisited (states[i := 1]) < unvisited states"
proof (induction states arbitrary: i)
  case (Cons s states)
  then show ?case by (cases i) (auto simp: unvisited_def)
qed simp

lemma unvisited_mark: "unvisited (states[i := 2]) \<le> unvisited states"
  by (induction states arbitrary: i) (auto simp: unvisited_def le_SucI split: nat.splits)

function visit_type :: "TypeDef list \<Rightarrow> nat \<Rightarrow> nat list \<Rightarrow> SchemaError + nat list"
  and visit_references :: "TypeDef list \<Rightarrow> TypeId list \<Rightarrow> nat list \<Rightarrow> SchemaError + nat list" where
  "visit_type types index states =
     (if index \<ge> length states \<or> index \<ge> length types then Err SCE_Panic
      else if states ! index = 1 then Err (SCE_RecursiveTypeCycle (td_id (types ! index)))
      else if states ! index = 2 then Ok states
      else rbind (visit_references types (references (td_kind (types ! index))) (states[index := 1]))
        (\<lambda>states. Ok (states[index := 2])))"
| "visit_references types [] states = Ok states"
| "visit_references types (reference # rs) states =
     rbind (map_err (\<lambda>_. SCE_UnknownTypeReference reference) (binary_search_by_key td_id reference types)) (\<lambda>child.
     rbind (visit_type types child states) (visit_references types rs))"
  by pat_completeness auto
termination visit_type
proof -
  let ?m = "case_sum (\<lambda>(types, index, states). (unvisited states, 0)) (\<lambda>(types, rs, states). (unvisited states, Suc (length rs)))"
  let ?R = "inv_image (less_than <*lex*> less_than) ?m"
  have dec: "visit_type_visit_references_dom (Inl (types, index, states)) \<Longrightarrow>
      \<forall>states'. visit_type types index states = Inr states' \<longrightarrow> unvisited states' \<le> unvisited states"
    and "visit_type_visit_references_dom (Inr (types, rs, states)) \<Longrightarrow>
      \<forall>states'. visit_references types rs states = Inr states' \<longrightarrow> unvisited states' \<le> unvisited states"
    for types index states rs
  proof (induction types index states and types rs states rule: visit_type_visit_references.pinduct)
    case (1 types index states)
    show ?case
    proof (intro allI impI)
      fix states' assume r: "visit_type types index states = Inr states'"
      consider "states' = states" | t where "index < length states" "index < length types" "states ! index \<noteq> 1" "states ! index \<noteq> 2"
          "visit_references types (references (td_kind (types ! index))) (states[index := 1]) = Inr t" "states' = t[index := 2]"
        using r by (auto simp: visit_type.psimps [OF 1(1)] not_le split: if_splits)
      then show "unvisited states' \<le> unvisited states"
      proof cases
        case 2
        then have "unvisited t \<le> unvisited (states[index := 1])" using 1(2) by simp
        then show ?thesis using 2 unvisited_mark [of t index] unvisited_update [of index states] by simp
      qed simp
    qed
  next
    case (2 types states)
    then show ?case by (simp add: visit_references.psimps)
  next
    case (3 types r rs states)
    show ?case
    proof (intro allI impI)
      fix states' assume "visit_references types (r # rs) states = Inr states'"
      then obtain child t where c: "binary_search_by_key td_id r types = Inr child" "visit_type types child states = Inr t"
        "visit_references types rs t = Inr states'" by (auto simp: visit_references.psimps(2) [OF 3(1)])
      then have "unvisited t \<le> unvisited states" "unvisited states' \<le> unvisited t" using 3(2,3) by simp_all
      then show "unvisited states' \<le> unvisited states" by simp
    qed
  qed
  show ?thesis
    by (relation ?R) (auto simp: unvisited_update [unfolded One_nat_def] not_le dest: dec)
qed

declare visit_type.simps [simp del]

definition validate_closed_and_acyclic :: "TypeDef list \<Rightarrow> SchemaError + unit" where
  "validate_closed_and_acyclic types =
     rbind (fold_res (visit_type types) [0..<length types] (replicate (length types) 0)) (\<lambda>_. Ok ())"

fun unique_types :: "TypeDef list \<Rightarrow> SchemaError + unit" where
  "unique_types (x # y # xs) =
     (if td_id x = td_id y then Err (SCE_DuplicateTypeId (td_id x)) else unique_types (y # xs))"
| "unique_types _ = Ok ()"

definition schema_try_new ::
    "bytes \<Rightarrow> u16 \<Rightarrow> TypeId \<Rightarrow> TypeDef list \<Rightarrow> SchemaLimits \<Rightarrow> SchemaError + Schema" where
  "schema_try_new profile version root_type types limits =
     (if types = [] then Err SCE_EmptySchema
      else if length types > scl_max_types limits then Err SCE_LimitExceeded
      else
      let types = sort_key td_id types in
      rbind (unique_types types) (\<lambda>_.
      rbind (unique_names td_name SCE_DuplicateTypeName types) (\<lambda>_.
      rbind (compute_metrics types) (\<lambda>metrics.
      rbind (schema_name_try_new profile) (\<lambda>profile.
      let schema = \<lparr>sc_profile = profile, sc_version = version, sc_root_type = root_type,
                    sc_types = types, sc_metrics = metrics\<rparr> in
      if type_by_id schema root_type = None then Err (SCE_UnknownRootType root_type)
      else rbind (validate_closed_and_acyclic types) (\<lambda>_. Ok schema))))))"

section \<open>Encoding\<close>

definition SCHEMA_MAGIC :: bytes where
  "SCHEMA_MAGIC = ascii_bytes ''ZFCISSCHEMA1'' @ [0]"

definition KIND_UNIT :: u8 where "KIND_UNIT = 0"
definition KIND_BOOL :: u8 where "KIND_BOOL = 1"
definition KIND_U128 :: u8 where "KIND_U128 = 2"
definition KIND_I128 :: u8 where "KIND_I128 = 3"
definition KIND_BYTES :: u8 where "KIND_BYTES = 4"
definition KIND_TEXT :: u8 where "KIND_TEXT = 5"
definition KIND_ENUM :: u8 where "KIND_ENUM = 6"
definition KIND_TUPLE :: u8 where "KIND_TUPLE = 7"
definition KIND_RECORD :: u8 where "KIND_RECORD = 8"
definition KIND_SUM :: u8 where "KIND_SUM = 9"
definition KIND_VECTOR :: u8 where "KIND_VECTOR = 10"
definition KIND_MAP :: u8 where "KIND_MAP = 11"

definition schema_put_text :: "bytes \<Rightarrow> bytes \<Rightarrow> EncodeError + bytes" where
  "schema_put_text output txt =
     rbind (ok_or (try_from u16_max (length txt)) EE_LengthOverflow) (\<lambda>n.
       Ok (output @ be_bytes 2 (of_nat n :: u16) @ txt))"

definition schema_put_length :: "bytes \<Rightarrow> nat \<Rightarrow> EncodeError + bytes" where
  "schema_put_length output n =
     rbind (ok_or (try_from u32_max n) EE_LengthOverflow) (\<lambda>n. Ok (output @ be_bytes 4 (of_nat n :: u32)))"

definition encode_field :: "FieldDef \<Rightarrow> bytes \<Rightarrow> EncodeError + bytes" where
  "encode_field fld output =
     rbind (schema_put_text (output @ be_bytes 2 (fd_id fld)) (fd_name fld)) (\<lambda>output.
       Ok (output @ be_bytes 4 (fd_type_id fld)))"

definition encode_enum_variant :: "EnumVariantDef \<Rightarrow> bytes \<Rightarrow> EncodeError + bytes" where
  "encode_enum_variant variant output = schema_put_text (output @ be_bytes 2 (ev_id variant)) (ev_name variant)"

definition encode_sum_variant :: "SumVariantDef \<Rightarrow> bytes \<Rightarrow> EncodeError + bytes" where
  "encode_sum_variant variant output =
     rbind (schema_put_text (output @ be_bytes 2 (sv_id variant)) (sv_name variant)) (\<lambda>output.
       case sv_payload variant of
         None \<Rightarrow> Ok (output @ [0])
       | Some payload \<Rightarrow> Ok (output @ [1] @ be_bytes 4 payload))"

definition encode_kind :: "TypeKind \<Rightarrow> bytes \<Rightarrow> EncodeError + bytes" where
  "encode_kind kind output =
     (case kind of
        TK_Unit \<Rightarrow> Ok (output @ [KIND_UNIT])
      | TK_Bool \<Rightarrow> Ok (output @ [KIND_BOOL])
      | TK_U128 mn mx \<Rightarrow> Ok (output @ [KIND_U128] @ be_bytes 16 mn @ be_bytes 16 mx)
      | TK_I128 mn mx \<Rightarrow> Ok (output @ [KIND_I128] @ be_bytes 16 mn @ be_bytes 16 mx)
      | TK_Bytes min_len max_len \<Rightarrow> Ok (output @ [KIND_BYTES] @ be_bytes 4 min_len @ be_bytes 4 max_len)
      | TK_Text min_len max_len \<Rightarrow> Ok (output @ [KIND_TEXT] @ be_bytes 4 min_len @ be_bytes 4 max_len)
      | TK_Enum variants \<Rightarrow>
          rbind (schema_put_length (output @ [KIND_ENUM]) (length variants)) (fold_res encode_enum_variant variants)
      | TK_Tuple items \<Rightarrow>
          rbind (schema_put_length (output @ [KIND_TUPLE]) (length items))
            (fold_res (\<lambda>child output. Ok (output @ be_bytes 4 child)) items)
      | TK_Record flds \<Rightarrow>
          rbind (schema_put_length (output @ [KIND_RECORD]) (length flds)) (fold_res encode_field flds)
      | TK_Sum variants \<Rightarrow>
          rbind (schema_put_length (output @ [KIND_SUM]) (length variants)) (fold_res encode_sum_variant variants)
      | TK_Vector element min_len max_len \<Rightarrow>
          Ok (output @ [KIND_VECTOR] @ be_bytes 4 element @ be_bytes 4 min_len @ be_bytes 4 max_len)
      | TK_Map key val min_len max_len \<Rightarrow>
          Ok (output @ [KIND_MAP] @ be_bytes 4 key @ be_bytes 4 val @ be_bytes 4 min_len @ be_bytes 4 max_len))"

definition encode_type :: "TypeDef \<Rightarrow> bytes \<Rightarrow> EncodeError + bytes" where
  "encode_type item output =
     rbind (schema_put_text (output @ be_bytes 4 (td_id item)) (td_name item)) (encode_kind (td_kind item))"

definition schema_encode_to :: "Schema \<Rightarrow> bytes \<Rightarrow> EncodeError + bytes" where
  "schema_encode_to schema output =
     rbind (schema_put_text (output @ SCHEMA_MAGIC) (sc_profile schema)) (\<lambda>output.
     rbind (schema_put_length (output @ be_bytes 2 (sc_version schema) @ be_bytes 4 (sc_root_type schema))
              (length (sc_types schema)))
       (fold_res encode_type (sc_types schema)))"

definition schema_canonical_bytes :: "Schema \<Rightarrow> EncodeError + bytes" where
  "schema_canonical_bytes schema = schema_encode_to schema []"

definition schema_hash :: "hasher \<Rightarrow> Schema \<Rightarrow> SchemaError + hash32" where
  "schema_hash H schema =
     rbind (map_err (\<lambda>_. SCE_Encoding) (schema_canonical_bytes schema)) (\<lambda>bs.
     map_err (\<lambda>_. SCE_Encoding) (commitment H SCHEMA bs))"

section \<open>Validation\<close>

datatype ValueValidationError =
    VVE_UnknownType TypeId
  | VVE_TypeMismatch
  | VVE_IntegerRange
  | VVE_Length
  | VVE_TypeIdentity
  | VVE_UnknownVariant VariantId
  | VVE_UnexpectedPayload
  | VVE_MissingPayload
  | VVE_RecordShape
  | VVE_BudgetExceeded

record ValidationLimits =
  vl_max_depth :: nat
  vl_max_nodes :: nat

definition default_validation_limits :: ValidationLimits where
  "default_validation_limits = \<lparr>vl_max_depth = 128, vl_max_nodes = 1000000\<rparr>"

record ValidationReport =
  vr_nodes :: nat
  vr_maximum_depth :: nat

record ValidationState =
  vs_limits :: ValidationLimits
  vs_nodes :: nat
  vs_maximum_depth :: nat

definition vs_enter :: "nat \<Rightarrow> ValidationState \<Rightarrow> ValueValidationError + ValidationState" where
  "vs_enter depth state =
     (if depth > vl_max_depth (vs_limits state) then Err VVE_BudgetExceeded
      else
      rbind (ok_or (checked_add u64_max (vs_nodes state) 1) VVE_BudgetExceeded) (\<lambda>nodes.
      if nodes > vl_max_nodes (vs_limits state) then Err VVE_BudgetExceeded
      else Ok (state\<lparr>vs_nodes := nodes, vs_maximum_depth := max (vs_maximum_depth state) depth\<rparr>)))"

definition validate_length :: "nat \<Rightarrow> u32 \<Rightarrow> u32 \<Rightarrow> ValueValidationError + unit" where
  "validate_length n minimum maximum =
     rbind (ok_or (try_from u32_max n) VVE_Length) (\<lambda>n.
     if unat minimum \<le> n \<and> n \<le> unat maximum then Ok () else Err VVE_Length)"

definition find_enum_variant :: "EnumVariantDef list \<Rightarrow> VariantId \<Rightarrow> EnumVariantDef option" where
  "find_enum_variant variants i =
     (case binary_search_by_key ev_id i variants of Inl _ \<Rightarrow> None | Inr index \<Rightarrow> Some (variants ! index))"

definition find_sum_variant :: "SumVariantDef list \<Rightarrow> VariantId \<Rightarrow> SumVariantDef option" where
  "find_sum_variant variants i =
     (case binary_search_by_key sv_id i variants of Inl _ \<Rightarrow> None | Inr index \<Rightarrow> Some (variants ! index))"

definition validation_next_depth :: "nat \<Rightarrow> ValueValidationError + nat" where
  "validation_next_depth depth = ok_or (checked_add u16_max depth 1) VVE_BudgetExceeded"

text \<open>The start of \<^verbatim>\<open>validate_node\<close>: charge the node and look its type up.\<close>

definition enter_type :: "Schema \<Rightarrow> TypeId \<Rightarrow> nat \<Rightarrow> ValidationState \<Rightarrow> ValueValidationError + TypeDef \<times> ValidationState" where
  "enter_type schema type_id depth state =
     rbind (vs_enter depth state) (\<lambda>state.
     rbind (ok_or (type_by_id schema type_id) (VVE_UnknownType type_id)) (\<lambda>d. Ok (d, state)))"

text \<open>The arms of the match of \<^verbatim>\<open>validate_node\<close>: what a scalar has to satisfy, and what the type of a
  container of the given size says about its children.  Every other pair is the last arm.\<close>

definition validate_scalar :: "TypeDef \<Rightarrow> Value \<Rightarrow> ValueValidationError + unit" where
  "validate_scalar d v =
     (case (td_kind d, v) of
        (TK_Unit, VUnit) \<Rightarrow> Ok ()
      | (TK_Bool, VBool _) \<Rightarrow> Ok ()
      | (TK_U128 mn mx, VU128 i) \<Rightarrow> if mn \<le> i \<and> i \<le> mx then Ok () else Err VVE_IntegerRange
      | (TK_I128 mn mx, VI128 i) \<Rightarrow>
          if sint mn \<le> sint i \<and> sint i \<le> sint mx then Ok () else Err VVE_IntegerRange
      | (TK_Bytes min_len max_len, VBytes bs) \<Rightarrow> validate_length (length bs) min_len max_len
      | (TK_Text min_len max_len, VText bs) \<Rightarrow> validate_length (length bs) min_len max_len
      | (TK_Enum variants, VEnum type_id variant) \<Rightarrow>
          if type_id \<noteq> td_id d then Err VVE_TypeIdentity
          else rbind (ok_or (find_enum_variant variants variant) (VVE_UnknownVariant variant)) (\<lambda>_. Ok ())
      | _ \<Rightarrow> Err VVE_TypeMismatch)"

definition tuple_arm :: "TypeDef \<Rightarrow> nat \<Rightarrow> ValueValidationError + TypeId list" where
  "tuple_arm d n =
     (case td_kind d of
        TK_Tuple types \<Rightarrow> if length types \<noteq> n then Err VVE_Length else Ok types
      | _ \<Rightarrow> Err VVE_TypeMismatch)"

definition record_arm :: "TypeDef \<Rightarrow> nat \<Rightarrow> ValueValidationError + FieldDef list" where
  "record_arm d n =
     (case td_kind d of
        TK_Record definitions \<Rightarrow> if length definitions \<noteq> n then Err VVE_RecordShape else Ok definitions
      | _ \<Rightarrow> Err VVE_TypeMismatch)"

definition sum_arm :: "TypeDef \<Rightarrow> u32 \<Rightarrow> u16 \<Rightarrow> ValueValidationError + SumVariantDef" where
  "sum_arm d type_id variant =
     (case td_kind d of
        TK_Sum variants \<Rightarrow>
          if type_id \<noteq> td_id d then Err VVE_TypeIdentity
          else ok_or (find_sum_variant variants variant) (VVE_UnknownVariant variant)
      | _ \<Rightarrow> Err VVE_TypeMismatch)"

definition vector_arm :: "TypeDef \<Rightarrow> nat \<Rightarrow> ValueValidationError + TypeId" where
  "vector_arm d n =
     (case td_kind d of
        TK_Vector element min_len max_len \<Rightarrow> rbind (validate_length n min_len max_len) (\<lambda>_. Ok element)
      | _ \<Rightarrow> Err VVE_TypeMismatch)"

definition map_arm :: "TypeDef \<Rightarrow> nat \<Rightarrow> ValueValidationError + TypeId \<times> TypeId" where
  "map_arm d n =
     (case td_kind d of
        TK_Map key val min_len max_len \<Rightarrow> rbind (validate_length n min_len max_len) (\<lambda>_. Ok (key, val))
      | _ \<Rightarrow> Err VVE_TypeMismatch)"

definition validate_leaf :: "Schema \<Rightarrow> TypeId \<Rightarrow> Value \<Rightarrow> nat \<Rightarrow> ValidationState \<Rightarrow> ValueValidationError + ValidationState" where
  "validate_leaf schema t v depth state =
     rbind (enter_type schema t depth state) (\<lambda>(d, state). rbind (validate_scalar d v) (\<lambda>_. Ok state))"

function validate_node :: "Schema \<Rightarrow> TypeId \<Rightarrow> Value \<Rightarrow> nat \<Rightarrow> ValidationState \<Rightarrow> ValueValidationError + ValidationState"
  and validate_tuple :: "Schema \<Rightarrow> TypeId list \<Rightarrow> Value list \<Rightarrow> nat \<Rightarrow> ValidationState \<Rightarrow> ValueValidationError + ValidationState"
  and validate_record :: "Schema \<Rightarrow> FieldDef list \<Rightarrow> Field list \<Rightarrow> nat \<Rightarrow> ValidationState \<Rightarrow> ValueValidationError + ValidationState"
  and validate_vector :: "Schema \<Rightarrow> TypeId \<Rightarrow> Value list \<Rightarrow> nat \<Rightarrow> ValidationState \<Rightarrow> ValueValidationError + ValidationState"
  and validate_map :: "Schema \<Rightarrow> TypeId \<Rightarrow> TypeId \<Rightarrow> MapEntry list \<Rightarrow> nat \<Rightarrow> ValidationState \<Rightarrow> ValueValidationError + ValidationState"
where
  "validate_node schema t VUnit depth state = validate_leaf schema t VUnit depth state"
| "validate_node schema t (VBool b) depth state = validate_leaf schema t (VBool b) depth state"
| "validate_node schema t (VU128 i) depth state = validate_leaf schema t (VU128 i) depth state"
| "validate_node schema t (VI128 i) depth state = validate_leaf schema t (VI128 i) depth state"
| "validate_node schema t (VBytes bs) depth state = validate_leaf schema t (VBytes bs) depth state"
| "validate_node schema t (VText bs) depth state = validate_leaf schema t (VText bs) depth state"
| "validate_node schema t (VEnum i n) depth state = validate_leaf schema t (VEnum i n) depth state"
| "validate_node schema t (VTuple items) depth state =
     rbind (enter_type schema t depth state) (\<lambda>(d, state).
     rbind (tuple_arm d (length items)) (\<lambda>types.
     rbind (validation_next_depth depth) (\<lambda>depth. validate_tuple schema types items depth state)))"
| "validate_node schema t (VRecord flds) depth state =
     rbind (enter_type schema t depth state) (\<lambda>(d, state).
     rbind (record_arm d (length flds)) (\<lambda>definitions.
     rbind (validation_next_depth depth) (\<lambda>depth. validate_record schema definitions flds depth state)))"
| "validate_node schema t (VSum type_id variant payload) depth state =
     rbind (enter_type schema t depth state) (\<lambda>(d, state).
     rbind (sum_arm d type_id variant) (\<lambda>def.
       case payload of
         None \<Rightarrow> (case sv_payload def of None \<Rightarrow> Ok state | Some _ \<Rightarrow> Err VVE_MissingPayload)
       | Some child \<Rightarrow>
           (case sv_payload def of
              None \<Rightarrow> Err VVE_UnexpectedPayload
            | Some child_type \<Rightarrow> rbind (validation_next_depth depth) (\<lambda>depth.
                validate_node schema child_type child depth state))))"
| "validate_node schema t (VVector items) depth state =
     rbind (enter_type schema t depth state) (\<lambda>(d, state).
     rbind (vector_arm d (length items)) (\<lambda>element.
     rbind (validation_next_depth depth) (\<lambda>depth. validate_vector schema element items depth state)))"
| "validate_node schema t (VMap entries) depth state =
     rbind (enter_type schema t depth state) (\<lambda>(d, state).
     rbind (map_arm d (length entries)) (\<lambda>(key, val).
     rbind (validation_next_depth depth) (\<lambda>depth. validate_map schema key val entries depth state)))"
| "validate_tuple schema (t # ts) (v # vs) depth state =
     rbind (validate_node schema t v depth state) (\<lambda>state. validate_tuple schema ts vs depth state)"
| "validate_tuple schema [] vs depth state = Ok state"
| "validate_tuple schema (t # ts) [] depth state = Ok state"
| "validate_record schema (d # ds) (MkField i v # fs) depth state =
     (if fd_id d \<noteq> i then Err VVE_RecordShape
      else rbind (validate_node schema (fd_type_id d) v depth state) (\<lambda>state. validate_record schema ds fs depth state))"
| "validate_record schema [] fs depth state = Ok state"
| "validate_record schema (d # ds) [] depth state = Ok state"
| "validate_vector schema t (v # vs) depth state =
     rbind (validate_node schema t v depth state) (\<lambda>state. validate_vector schema t vs depth state)"
| "validate_vector schema t [] depth state = Ok state"
| "validate_map schema kt vt (MkMapEntry ek k v # es) depth state =
     rbind (validate_node schema kt k depth state) (\<lambda>state.
     rbind (validate_node schema vt v depth state) (\<lambda>state. validate_map schema kt vt es depth state))"
| "validate_map schema kt vt [] depth state = Ok state"
  by pat_completeness auto
termination validate_node
  by size_change

definition schema_validate_value :: "Schema \<Rightarrow> TypeId \<Rightarrow> Value \<Rightarrow> ValidationLimits \<Rightarrow> ValueValidationError + ValidationReport" where
  "schema_validate_value schema type_id v limits =
     rbind (validate_node schema type_id v 0 \<lparr>vs_limits = limits, vs_nodes = 0, vs_maximum_depth = 0\<rparr>) (\<lambda>state.
       Ok \<lparr>vr_nodes = vs_nodes state, vr_maximum_depth = vs_maximum_depth state\<rparr>)"

definition validate_root :: "Schema \<Rightarrow> Value \<Rightarrow> ValidationLimits \<Rightarrow> ValueValidationError + ValidationReport" where
  "validate_root schema v limits = schema_validate_value schema (sc_root_type schema) v limits"

section \<open>Envelopes\<close>

datatype SchemaEnvelopeError =
    SEE_SchemaValidation ValueValidationError
  | SEE_ValueAdmission ValueError
  | SEE_SchemaCommitment SchemaError
  | SEE_EnvelopeAdmission EncodeError

record SchemaAdmittedEnvelope =
  sae_envelope :: AdmittedEnvelope
  sae_validation :: ValidationReport

record SchemaAdmittedTypeEnvelope =
  ste_envelope :: AdmittedEnvelope
  ste_validation :: ValidationReport

definition admit_type ::
    "hasher \<Rightarrow> Schema \<Rightarrow> TypeId \<Rightarrow> Value \<Rightarrow> ValidationLimits \<Rightarrow> SchemaEnvelopeError + AdmittedEnvelope \<times> ValidationReport" where
  "admit_type H schema type_id v limits =
     rbind (map_err SEE_SchemaValidation (schema_validate_value schema type_id v limits)) (\<lambda>validation.
     rbind (map_err SEE_ValueAdmission (admit v)) (\<lambda>v.
     rbind (map_err SEE_SchemaCommitment (schema_hash H schema)) (\<lambda>h.
     rbind (map_err SEE_EnvelopeAdmission (admitted_envelope_try_new type_id h v)) (\<lambda>envelope.
       Ok (envelope, validation)))))"

definition schema_envelope_try_new ::
    "hasher \<Rightarrow> Schema \<Rightarrow> Value \<Rightarrow> ValidationLimits \<Rightarrow> SchemaEnvelopeError + SchemaAdmittedEnvelope" where
  "schema_envelope_try_new H schema v limits =
     rbind (admit_type H schema (sc_root_type schema) v limits) (\<lambda>(envelope, validation).
       Ok \<lparr>sae_envelope = envelope, sae_validation = validation\<rparr>)"

definition schema_envelope_encode_to :: "SchemaAdmittedEnvelope \<Rightarrow> bytes \<Rightarrow> EncodeError + bytes" where
  "schema_envelope_encode_to e output = admitted_envelope_encode_to (sae_envelope e) output"

definition schema_envelope_canonical_bytes :: "SchemaAdmittedEnvelope \<Rightarrow> EncodeError + bytes" where
  "schema_envelope_canonical_bytes e = schema_envelope_encode_to e []"

definition type_envelope_try_new ::
    "hasher \<Rightarrow> Schema \<Rightarrow> TypeId \<Rightarrow> Value \<Rightarrow> ValidationLimits \<Rightarrow> SchemaEnvelopeError + SchemaAdmittedTypeEnvelope" where
  "type_envelope_try_new H schema type_id v limits =
     rbind (admit_type H schema type_id v limits) (\<lambda>(envelope, validation).
       Ok \<lparr>ste_envelope = envelope, ste_validation = validation\<rparr>)"

definition type_envelope_encode_to :: "SchemaAdmittedTypeEnvelope \<Rightarrow> bytes \<Rightarrow> EncodeError + bytes" where
  "type_envelope_encode_to e output = admitted_envelope_encode_to (ste_envelope e) output"

definition type_envelope_canonical_bytes :: "SchemaAdmittedTypeEnvelope \<Rightarrow> EncodeError + bytes" where
  "type_envelope_canonical_bytes e = type_envelope_encode_to e []"

end
