(* ===== verification/Zeno_Schema_Laws.thy ===== *)
theory Zeno_Schema_Laws
  imports Zeno_Schema Zeno_Receipt_Laws
begin

text \<open>
  Laws of schemas: the traversal decides whether the references of a table of types are closed and
  acyclic; construction accepts exactly the well-formed tables; validation accepts exactly the values
  of a type, within the budget; the encoding is injective; an envelope binds a validated value.
\<close>

section \<open>References between types\<close>

definition refers :: "TypeDef list \<Rightarrow> (TypeId \<times> TypeId) set" where
  "refers types = {(td_id d, r) | d r. d \<in> set types \<and> r \<in> set (references (td_kind d))}"

definition closed_types :: "TypeDef list \<Rightarrow> bool" where
  "closed_types types \<longleftrightarrow> (\<forall>(a, b) \<in> refers types. b \<in> td_id ` set types)"

interpretation type_index: ordered_index td_id "binary_search_by_key td_id"
  by (rule binary_search_by_key_index)

definition marked :: "nat \<Rightarrow> TypeDef list \<Rightarrow> nat list \<Rightarrow> TypeId set" where
  "marked m types states = {td_id (types ! i) | i. i < length states \<and> states ! i = m}"

locale type_table =
  fixes types :: "TypeDef list"
  assumes sorted_ids: "sorted_wrt (<) (map td_id types)"
begin

lemma id_inj: "i < length types \<Longrightarrow> j < length types \<Longrightarrow> td_id (types ! i) = td_id (types ! j) \<longleftrightarrow> i = j"
  using sorted_wrt_less_nth_inj [OF sorted_ids, of i j] by auto

lemma refers_nth: "i < length types \<Longrightarrow> (td_id (types ! i), r) \<in> refers types \<longleftrightarrow> r \<in> set (references (td_kind (types ! i)))"
  using id_inj by (auto simp: refers_def in_set_conv_nth)

lemma marked_update:
  assumes "length states = length types" "i < length types"
  shows "marked m types (states[i := k]) =
    (if k = m then insert (td_id (types ! i)) (marked m types states) else marked m types states - {td_id (types ! i)})"
  using assms id_inj by (auto simp: marked_def nth_list_update)

lemma marked_iff: "length states = length types \<Longrightarrow> i < length types \<Longrightarrow> td_id (types ! i) \<in> marked m types states \<longleftrightarrow> states ! i = m"
  using id_inj by (auto simp: marked_def)

definition visit_inv :: "nat list \<Rightarrow> bool" where
  "visit_inv states \<longleftrightarrow> length states = length types
     \<and> (\<forall>a\<in>marked 2 types states. \<forall>b. (a, b) \<in> refers types \<longrightarrow> b \<in> marked 2 types states)
     \<and> acyclic (Restr (refers types) (marked 2 types states))"

definition visit_post :: "nat list \<Rightarrow> nat list \<Rightarrow> bool" where
  "visit_post states states' \<longleftrightarrow> visit_inv states' \<and> marked 1 types states' = marked 1 types states
     \<and> marked 2 types states \<subseteq> marked 2 types states'"

lemma visit_post_trans: "visit_post s t \<Longrightarrow> visit_post t u \<Longrightarrow> visit_post s u"
  by (auto simp: visit_post_def)

lemma acyclic_add_source:
  assumes "acyclic (Restr R F)" and "\<forall>a\<in>F. \<forall>b. (a, b) \<in> R \<longrightarrow> b \<in> F" and "x \<notin> F" and "\<forall>b. (x, b) \<in> R \<longrightarrow> b \<in> F"
  shows "acyclic (Restr R (insert x F))"
proof -
  have into: "(a, b) \<in> (Restr R (insert x F))\<^sup>+ \<Longrightarrow> b \<in> F" for a b
    by (induction rule: trancl.induct) (use assms(2,4) in auto)
  have stay: "(a, b) \<in> (Restr R (insert x F))\<^sup>+ \<Longrightarrow> a \<in> F \<Longrightarrow> (a, b) \<in> (Restr R F)\<^sup>+" for a b
  proof (induction rule: trancl.induct)
    case (r_into_trancl a b)
    then show ?case using assms(2,3) by auto
  next
    case (trancl_into_trancl a b c)
    then have "b \<in> F" using into by blast
    then have "(b, c) \<in> Restr R F" using trancl_into_trancl(2) assms(2) by auto
    then show ?case using trancl_into_trancl by (meson trancl.trancl_into_trancl)
  qed
  show ?thesis using stay into assms(1) unfolding acyclic_def by blast
qed

lemma visit_finish:
  assumes "visit_inv t" "i < length types" "t ! i = 1" "\<forall>b. (td_id (types ! i), b) \<in> refers types \<longrightarrow> b \<in> marked 2 types t"
  shows "visit_inv (t[i := 2])"
proof -
  have len: "length t = length types" using assms(1) by (simp add: visit_inv_def)
  have "td_id (types ! i) \<notin> marked 2 types t" using marked_iff [OF len assms(2)] assms(3) by simp
  with acyclic_add_source [of "refers types" "marked 2 types t" "td_id (types ! i)"] assms(1,4)
  show ?thesis by (auto simp: visit_inv_def marked_update [OF len assms(2)])
qed

lemma visit_start:
  assumes "visit_inv states" "i < length types" "states ! i \<noteq> 2"
  shows "visit_inv (states[i := 1])"
proof -
  have len: "length states = length types" using assms(1) by (simp add: visit_inv_def)
  then have "marked 2 types (states[i := 1]) = marked 2 types states"
    using marked_iff [OF len assms(2), of 2] assms(3) by (auto simp: marked_update [OF len assms(2)])
  then show ?thesis using assms(1) by (simp add: visit_inv_def)
qed

lemma visit_Ok:
  "ts = types \<Longrightarrow> visit_inv states \<Longrightarrow> visit_type ts index states = Inr states' \<Longrightarrow>
     visit_post states states' \<and> td_id (types ! index) \<in> marked 2 types states'"
  "ts = types \<Longrightarrow> visit_inv states \<Longrightarrow> visit_references ts rs states = Inr states' \<Longrightarrow>
     visit_post states states' \<and> set rs \<subseteq> marked 2 types states'"
proof (induction ts index states and ts rs states arbitrary: states' and states' rule: visit_type_visit_references.induct)
  case (1 ts index states)
  note [simp] = \<open>ts = types\<close>
  have len: "length states = length types" using 1(3) by (simp add: visit_inv_def)
  from 1(4) len have i: "index < length types" and "states ! index \<noteq> 1"
    by (auto simp: visit_type.simps [of types] split: if_splits)
  show ?case
  proof (cases "states ! index = 2")
    case True
    then have "states' = states" using 1(4) i len by (simp add: visit_type.simps [of types])
    then show ?thesis using 1(3) marked_iff [OF len i] True by (simp add: visit_post_def)
  next
    case False
    then obtain t where t: "visit_references types (references (td_kind (types ! index))) (states[index := 1]) = Inr t"
      "states' = t[index := 2]"
      using 1(4) i len \<open>states ! index \<noteq> 1\<close> by (auto simp: visit_type.simps [of types])
    have post: "visit_post (states[index := 1]) t" "set (references (td_kind (types ! index))) \<subseteq> marked 2 types t"
      using 1(1) [OF _ _ _ _ visit_start [OF 1(3) i False] , of t] t(1) len i \<open>states ! index \<noteq> 1\<close> False by auto
    have lt: "length t = length types" using post(1) by (simp add: visit_post_def visit_inv_def)
    have "td_id (types ! index) \<in> marked 1 types t"
      using post(1) by (simp add: visit_post_def marked_update [OF len i])
    then have "t ! index = 1" using marked_iff [OF lt i] by simp
    then have inv: "visit_inv states'" unfolding t(2)
      using post i by (intro visit_finish) (auto simp: visit_post_def refers_nth)
    moreover have "marked 1 types states' = marked 1 types states"
      using post(1) marked_iff [OF len i, of 1] \<open>states ! index \<noteq> 1\<close> unfolding t(2)
      by (auto simp: visit_post_def marked_update [OF lt i] marked_update [OF len i])
    moreover have "marked 2 types states \<subseteq> marked 2 types states'"
      using post(1) unfolding t(2) by (auto simp: visit_post_def marked_update [OF lt i] marked_update [OF len i])
    moreover have "td_id (types ! index) \<in> marked 2 types states'" unfolding t(2) by (simp add: marked_update [OF lt i])
    ultimately show ?thesis by (simp add: visit_post_def)
  qed
next
  case (2 ts states)
  then show ?case by (simp add: visit_post_def)
next
  case (3 ts r rs states)
  then obtain child t where c: "binary_search_by_key td_id r types = Inr child" "visit_type types child states = Inr t"
    "visit_references types rs t = Inr states'" by auto
  have "td_id (types ! child) = r" using type_index.search_found [OF sorted_ids c(1)] by simp
  with 3(1) [OF _ 3(3,4)] c 3(3) have p: "visit_post states t" "r \<in> marked 2 types t" by auto
  then have "visit_post t states' \<and> set rs \<subseteq> marked 2 types states'"
    using 3(2) [OF _ _ 3(3)] c 3(3) by (auto simp: visit_post_def)
  then show ?case using p visit_post_trans by (auto simp: visit_post_def)
qed

definition visit_error :: "SchemaError \<Rightarrow> bool" where
  "visit_error e \<longleftrightarrow> (\<exists>k. e = SCE_RecursiveTypeCycle k \<and> (k, k) \<in> (refers types)\<^sup>+)
     \<or> (\<exists>a r. e = SCE_UnknownTypeReference r \<and> (a, r) \<in> refers types \<and> r \<notin> td_id ` set types)"

lemma visit_Err:
  "ts = types \<Longrightarrow> visit_inv states \<Longrightarrow> index < length types \<Longrightarrow>
     \<forall>a\<in>marked 1 types states. (a, td_id (types ! index)) \<in> (refers types)\<^sup>+ \<Longrightarrow>
     visit_type ts index states = Inl e \<Longrightarrow> visit_error e"
  "ts = types \<Longrightarrow> visit_inv states \<Longrightarrow> set rs \<subseteq> Range (refers types) \<Longrightarrow>
     \<forall>a\<in>marked 1 types states. \<forall>r\<in>set rs. (a, r) \<in> (refers types)\<^sup>+ \<Longrightarrow>
     visit_references ts rs states = Inl e \<Longrightarrow> visit_error e"
proof (induction ts index states and ts rs states rule: visit_type_visit_references.induct)
  case (1 ts index states)
  note [simp] = \<open>ts = types\<close>
  have len: "length states = length types" using 1(3) by (simp add: visit_inv_def)
  show ?case
  proof (cases "states ! index = 1")
    case True
    then have "e = SCE_RecursiveTypeCycle (td_id (types ! index))" using 1(6) 1(4) len by (simp add: visit_type.simps [of types])
    moreover have "td_id (types ! index) \<in> marked 1 types states" using marked_iff [OF len 1(4)] True by simp
    ultimately show ?thesis using 1(5) by (auto simp: visit_error_def)
  next
    case False
    then have n2: "states ! index \<noteq> 2" using 1(6) 1(4) len by (auto simp: visit_type.simps [of types])
    have r: "visit_references types (references (td_kind (types ! index))) (states[index := 1]) = Inl e"
      using 1(6) 1(4) len False n2 by (auto simp: visit_type.simps [of types] rbind_eq_Err)
    have "\<forall>a\<in>marked 1 types (states[index := 1]). \<forall>r\<in>set (references (td_kind (types ! index))). (a, r) \<in> (refers types)\<^sup>+"
      using 1(5) refers_nth [OF 1(4)] by (auto simp: marked_update [OF len 1(4)] intro: trancl_into_trancl)
    moreover have "set (references (td_kind (types ! index))) \<subseteq> Range (refers types)"
      using refers_nth [OF 1(4)] by blast
    ultimately show ?thesis using 1(1) [OF _ _ _ _ visit_start [OF 1(3,4) n2]] r False n2 len 1(4) by simp
  qed
next
  case (2 ts states)
  then show ?case by simp
next
  case (3 ts r rs states)
  note [simp] = \<open>ts = types\<close>
  show ?case
  proof (cases "binary_search_by_key td_id r types")
    case (Inl i)
    then have "e = SCE_UnknownTypeReference r" using 3(7) by simp
    then show ?thesis using type_index.missing_notin [OF sorted_ids Inl] 3(5) by (auto simp: visit_error_def)
  next
    case (Inr child)
    then have c: "child < length types" "td_id (types ! child) = r" using type_index.search_found [OF sorted_ids Inr] by simp_all
    show ?thesis
    proof (cases "visit_type types child states")
      case (Inl e')
      then have "visit_type types child states = Inl e" using 3(7) Inr by simp
      then show ?thesis using 3(1) [OF _ 3(3,4)] Inr c 3(6) by simp
    next
      case t: (Inr t)
      then have "visit_post states t" using visit_Ok(1) [OF refl 3(4)] by blast
      then have "visit_inv t" "marked 1 types t = marked 1 types states" by (auto simp: visit_post_def)
      then show ?thesis using 3(2) [OF _ _ 3(3)] Inr t 3(5,6,7) by simp
    qed
  qed
qed

lemma visit_all:
  assumes "visit_inv states" "marked 1 types states = {}" "set is \<subseteq> {..<length types}"
  shows "case fold_res (visit_type types) is states of
      Inl e \<Rightarrow> visit_error e
    | Inr states' \<Rightarrow> visit_inv states' \<and> marked 1 types states' = {} \<and> marked 2 types states \<subseteq> marked 2 types states'
        \<and> (\<forall>i\<in>set is. td_id (types ! i) \<in> marked 2 types states')"
  using assms
proof (induction "is" arbitrary: states)
  case (Cons i "is")
  show ?case
  proof (cases "visit_type types i states")
    case (Inl e)
    then have "visit_error e" using Cons.prems by (intro visit_Err(1) [OF refl Cons.prems(1) _ _ Inl]) auto
    then show ?thesis using Inl by simp
  next
    case (Inr t)
    then have p: "visit_post states t" "td_id (types ! i) \<in> marked 2 types t"
      using visit_Ok(1) [OF refl Cons.prems(1)] by blast+
    then have "visit_inv t" "marked 1 types t = {}" "marked 2 types states \<subseteq> marked 2 types t"
      using Cons.prems(2) by (auto simp: visit_post_def)
    with Cons.IH [of t] Cons.prems(3) p(2) Inr show ?thesis by (auto split: sum.splits)
  qed
qed simp

lemma validate_closed_and_acyclic_cases:
  "(validate_closed_and_acyclic types = Inr () \<and> closed_types types \<and> acyclic (refers types))
   \<or> (\<exists>e. validate_closed_and_acyclic types = Inl e \<and> visit_error e)"
proof -
  let ?s = "replicate (length types) 0"
  have m: "marked k types ?s = {}" if "k \<noteq> 0" for k using that by (auto simp: marked_def)
  have "visit_inv ?s" by (simp add: visit_inv_def m acyclic_def)
  moreover have "set [0..<length types] \<subseteq> {..<length types}" by auto
  ultimately have all: "case fold_res (visit_type types) [0..<length types] ?s of
      Inl e \<Rightarrow> visit_error e
    | Inr t \<Rightarrow> visit_inv t \<and> (\<forall>i<length types. td_id (types ! i) \<in> marked 2 types t)"
    using visit_all [OF _ m, of "[0..<length types]"] by (auto split: sum.splits)
  show ?thesis
  proof (cases "fold_res (visit_type types) [0..<length types] ?s")
    case (Inl e)
    then have "visit_error e" using all by auto
    then show ?thesis using Inl by (simp add: validate_closed_and_acyclic_def)
  next
    case (Inr t)
    then have t: "visit_inv t" "\<forall>i<length types. td_id (types ! i) \<in> marked 2 types t" using all by auto
    then have "marked 2 types t = td_id ` set types"
      by (auto simp: visit_inv_def marked_def in_set_conv_nth) force
    then have ids: "\<forall>a\<in>td_id ` set types. \<forall>b. (a, b) \<in> refers types \<longrightarrow> b \<in> td_id ` set types"
      "acyclic (Restr (refers types) (td_id ` set types))" using t(1) by (simp_all add: visit_inv_def)
    have "a \<in> td_id ` set types" if "(a, b) \<in> refers types" for a b using that by (auto simp: refers_def)
    then have "refers types \<subseteq> td_id ` set types \<times> td_id ` set types"
      using ids(1) by (intro subrelI SigmaI) blast+
    then have "closed_types types" "Restr (refers types) (td_id ` set types) = refers types"
      unfolding closed_types_def by blast+
    then show ?thesis using Inr ids(2) by (simp add: validate_closed_and_acyclic_def)
  qed
qed

lemma visit_error_bad: "visit_error e \<Longrightarrow> \<not> (closed_types types \<and> acyclic (refers types))"
  by (fastforce simp: visit_error_def closed_types_def acyclic_def)

lemma validate_closed_and_acyclic_Ok:
  "validate_closed_and_acyclic types = Inr u \<longleftrightarrow> closed_types types \<and> acyclic (refers types)"
  using validate_closed_and_acyclic_cases visit_error_bad by auto

lemma validate_closed_and_acyclic_Err:
  "validate_closed_and_acyclic types = Inl e \<Longrightarrow> visit_error e"
  using validate_closed_and_acyclic_cases by auto

end

section \<open>Construction of schemas\<close>

interpretation type_ids: unique_ordinals td_id unique_types SCE_DuplicateTypeId
  by unfold_locales simp_all

interpretation field_ids: unique_ordinals fd_id unique_fields SCE_DuplicateFieldId
  by unfold_locales simp_all

interpretation enum_variant_ids: unique_ordinals ev_id unique_enum_variants SCE_DuplicateVariantId
  by unfold_locales simp_all

interpretation sum_variant_ids: unique_ordinals sv_id unique_sum_variants SCE_DuplicateVariantId
  by unfold_locales simp_all

lemma enumerate_map: "enumerate 0 xs = map (\<lambda>i. (i, xs ! i)) [0..<length xs]"
  by (rule nth_equalityI) (auto simp: nth_enumerate_eq)

lemma list_ex_take: "i < length xs \<Longrightarrow> list_ex P (take i xs) \<longleftrightarrow> (\<exists>j<i. P (xs ! j))"
  by (auto simp: list_ex_length)

lemma unique_names_Ok: "unique_names name e xs = Inr u \<longleftrightarrow> distinct (map name xs)"
proof -
  have "unique_names name e xs = Inr u \<longleftrightarrow> (\<forall>i<length xs. \<forall>j<i. name (xs ! j) \<noteq> name (xs ! i))"
    unfolding unique_names_def each_res_eq_Ok enumerate_map
    by (auto simp: list_ex_take)
  also have "\<dots> \<longleftrightarrow> distinct (map name xs)"
    by (auto simp: distinct_conv_nth) (metis less_trans linorder_neqE_nat)
  finally show ?thesis .
qed

lemma each_res_Err: "each_res f xs = Inl e \<Longrightarrow> \<exists>x\<in>set xs. f x = Inl e"
  by (induction xs) (auto simp: rbind_eq_Err)

lemma unique_names_Err: "unique_names name e xs = Inl e' \<Longrightarrow> e' = e"
  unfolding unique_names_def by (auto simp: guard_res_def split: if_splits dest!: each_res_Err)

definition field_total :: "TypeDef list \<Rightarrow> nat" where
  "field_total types = (\<Sum>d\<leftarrow>types. case td_kind d of TK_Record items \<Rightarrow> length items | _ \<Rightarrow> 0)"

definition variant_total :: "TypeDef list \<Rightarrow> nat" where
  "variant_total types =
     (\<Sum>d\<leftarrow>types. case td_kind d of TK_Enum items \<Rightarrow> length items | TK_Sum items \<Rightarrow> length items | _ \<Rightarrow> 0)"

lemma count_members_fold:
  "a \<le> usize_max \<Longrightarrow> b \<le> usize_max \<Longrightarrow>
   fold count_members types (a, b) = (min usize_max (a + field_total types), min usize_max (b + variant_total types))"
proof (induction types arbitrary: a b)
  case (Cons d types)
  have "count_members d (a, b) = (min usize_max (a + field_total [d]), min usize_max (b + variant_total [d]))"
    using Cons.prems by (auto simp: count_members_def saturating_add_def field_total_def variant_total_def split: TypeKind.splits)
  then have "fold count_members (d # types) (a, b) =
      (min usize_max (min usize_max (a + field_total [d]) + field_total types),
       min usize_max (min usize_max (b + variant_total [d]) + variant_total types))"
    using Cons.IH by simp
  moreover have "min m (min m x + y) = min m (x + y)" for m x y :: nat by simp
  ultimately show ?case by (simp only: field_total_def variant_total_def list.map sum_list.Cons sum_list.Nil add_0_right add.assoc)
qed (simp add: field_total_def variant_total_def min_absorb2)

definition schema_metrics :: "TypeDef list \<Rightarrow> SchemaMetrics" where
  "schema_metrics types = \<lparr>scm_types = length types, scm_fields = field_total types, scm_variants = variant_total types\<rparr>"

definition metrics_fit :: "TypeDef list \<Rightarrow> bool" where
  "metrics_fit types \<longleftrightarrow> length types \<le> u32_max \<and> field_total types \<le> u32_max \<and> variant_total types \<le> u32_max"

lemma compute_metrics_Ok:
  "compute_metrics types = Inr m \<longleftrightarrow> metrics_fit types \<and> m = schema_metrics types"
  by (auto simp: compute_metrics_def count_members_fold metrics_fit_def schema_metrics_def min_def)

lemma compute_metrics_Err: "compute_metrics types = Inl e \<Longrightarrow> e = SCE_LimitExceeded"
  by (auto simp: compute_metrics_def rbind_eq_Err ok_or_def split: prod.splits option.splits)

lemma schema_name_Ok: "schema_name_try_new bs = Inr n \<Longrightarrow> n = bs \<and> bs \<noteq> [] \<and> length bs \<le> 96"
  by (auto simp: schema_name_try_new_def SCHEMA_NAME_MAX_BYTES_def split: if_splits)

lemma schema_name_Ok_iff: "schema_name_try_new bs = Inr n \<longleftrightarrow> is_ok (schema_name_try_new bs) \<and> n = bs"
  by (auto simp: schema_name_try_new_def)

lemma refers_perm: "set ts = set ts' \<Longrightarrow> refers ts = refers ts'"
  by (simp add: refers_def)

text \<open>The table that construction goes on with once its check for duplicates has passed.\<close>

definition checked_types :: "TypeDef list \<Rightarrow> TypeDef list" where
  "checked_types types = (case unique_types (sort_key td_id types) of Inr _ \<Rightarrow> sort_key td_id types | Inl _ \<Rightarrow> [])"

lemma checked_types_eq: "distinct (map td_id types) \<Longrightarrow> checked_types types = sort_key td_id types"
  using type_ids.check_sort [of types] by (simp add: checked_types_def)

interpretation checked: type_table "checked_types types" for types
proof unfold_locales
  show "sorted_wrt (<) (map td_id (checked_types types))"
  proof (cases "distinct (map td_id types)")
    case True
    then show ?thesis using type_ids.sorted_strict by (simp add: checked_types_eq)
  next
    case False
    then show ?thesis using type_ids.check_sort_duplicate [OF False] by (auto simp: checked_types_def)
  qed
qed

lemma type_by_id_Some:
  assumes "sorted_wrt (<) (map td_id (sc_types schema))"
  shows "type_by_id schema i = Some d \<longleftrightarrow> d \<in> set (sc_types schema) \<and> td_id d = i"
  using type_index.lookup_iff [OF assms, of i d] by (simp add: type_by_id_def index_lookup_def)

lemma type_by_id_None:
  assumes "sorted_wrt (<) (map td_id (sc_types schema))"
  shows "type_by_id schema i = None \<longleftrightarrow> i \<notin> td_id ` set (sc_types schema)"
  using type_index.lookup_None_iff [OF assms, of i] by (simp add: type_by_id_def index_lookup_def)

lemma sums_perm: "mset ts = mset ts' \<Longrightarrow> field_total ts = field_total ts' \<and> variant_total ts = variant_total ts'"
  unfolding field_total_def variant_total_def sum_mset_sum_list [symmetric] mset_map by simp

definition schema_ok :: "TypeId \<Rightarrow> TypeDef list \<Rightarrow> SchemaLimits \<Rightarrow> bool" where
  "schema_ok root types limits \<longleftrightarrow> length types \<le> scl_max_types limits
     \<and> distinct (map td_id types) \<and> distinct (map td_name types) \<and> metrics_fit types
     \<and> root \<in> td_id ` set types \<and> closed_types types \<and> acyclic (refers types)"

lemma schema_try_new_Ok:
  "schema_try_new profile version root types limits = Inr schema \<longleftrightarrow>
     is_ok (schema_name_try_new profile) \<and> schema_ok root types limits
     \<and> schema = \<lparr>sc_profile = profile, sc_version = version, sc_root_type = root,
                  sc_types = sort_key td_id types, sc_metrics = schema_metrics types\<rparr>"
proof -
  let ?ts = "sort_key td_id types"
  have set: "set ?ts = set types" by simp
  have perm: "refers ?ts = refers types" "closed_types ?ts \<longleftrightarrow> closed_types types" "schema_metrics ?ts = schema_metrics types"
    "metrics_fit ?ts \<longleftrightarrow> metrics_fit types" "distinct (map td_name ?ts) \<longleftrightarrow> distinct (map td_name types)"
    using sums_perm [of ?ts types] refers_perm [OF set]
    by (simp_all add: closed_types_def schema_metrics_def metrics_fit_def distinct_map)
  have root: "type_by_id \<lparr>sc_profile = p, sc_version = v, sc_root_type = r, sc_types = ?ts, sc_metrics = m\<rparr> root = None
      \<longleftrightarrow> root \<notin> td_id ` set types" if "distinct (map td_id types)" for p v r m
    using type_ids.sorted_strict [OF that] by (subst type_by_id_None) simp_all
  have ne: "types \<noteq> []" if "root \<in> td_id ` set types" using that by auto
  show ?thesis
  proof (cases "distinct (map td_id types)")
    case True
    show ?thesis
      unfolding schema_try_new_def Let_def if_Err_Ok rbind_eq_Ok type_ids.check_sort unique_names_Ok compute_metrics_Ok perm
        root [OF True] checked.validate_closed_and_acyclic_Ok [of types, unfolded checked_types_eq [OF True]] schema_ok_def
        schema_name_Ok_iff [of profile]
      using ne by (auto simp: not_less type_ids.check_sort)
  next
    case False
    then show ?thesis
      unfolding schema_try_new_def Let_def if_Err_Ok rbind_eq_Ok type_ids.check_sort schema_ok_def by (simp add: type_ids.check_sort)
  qed
qed

section \<open>Typing\<close>

interpretation enum_index: ordered_index ev_id "binary_search_by_key ev_id"
  by (rule binary_search_by_key_index)

interpretation sum_index: ordered_index sv_id "binary_search_by_key sv_id"
  by (rule binary_search_by_key_index)

definition length_in :: "nat \<Rightarrow> u32 \<Rightarrow> u32 \<Rightarrow> bool" where
  "length_in n mn mx \<longleftrightarrow> unat mn \<le> n \<and> n \<le> unat mx"

text \<open>What it means for a value to have a type of a schema, independently of search and traversal order.\<close>

inductive has_type :: "Schema \<Rightarrow> TypeId \<Rightarrow> Value \<Rightarrow> bool" for schema where
  T_Unit: "d \<in> set (sc_types schema) \<Longrightarrow> td_kind d = TK_Unit \<Longrightarrow> has_type schema (td_id d) VUnit"
| T_Bool: "d \<in> set (sc_types schema) \<Longrightarrow> td_kind d = TK_Bool \<Longrightarrow> has_type schema (td_id d) (VBool b)"
| T_U128: "d \<in> set (sc_types schema) \<Longrightarrow> td_kind d = TK_U128 mn mx \<Longrightarrow> mn \<le> i \<Longrightarrow> i \<le> mx \<Longrightarrow>
    has_type schema (td_id d) (VU128 i)"
| T_I128: "d \<in> set (sc_types schema) \<Longrightarrow> td_kind d = TK_I128 mn mx \<Longrightarrow> sint mn \<le> sint i \<Longrightarrow> sint i \<le> sint mx \<Longrightarrow>
    has_type schema (td_id d) (VI128 i)"
| T_Bytes: "d \<in> set (sc_types schema) \<Longrightarrow> td_kind d = TK_Bytes mn mx \<Longrightarrow> length_in (length bs) mn mx \<Longrightarrow>
    has_type schema (td_id d) (VBytes bs)"
| T_Text: "d \<in> set (sc_types schema) \<Longrightarrow> td_kind d = TK_Text mn mx \<Longrightarrow> length_in (length bs) mn mx \<Longrightarrow>
    has_type schema (td_id d) (VText bs)"
| T_Enum: "d \<in> set (sc_types schema) \<Longrightarrow> td_kind d = TK_Enum vs \<Longrightarrow> n \<in> ev_id ` set vs \<Longrightarrow>
    has_type schema (td_id d) (VEnum (td_id d) n)"
| T_Tuple: "d \<in> set (sc_types schema) \<Longrightarrow> td_kind d = TK_Tuple ts \<Longrightarrow> list_all2 (has_type schema) ts xs \<Longrightarrow>
    has_type schema (td_id d) (VTuple xs)"
| T_Record: "d \<in> set (sc_types schema) \<Longrightarrow> td_kind d = TK_Record ds \<Longrightarrow>
    list_all2 (\<lambda>d f. fd_id d = field_id f \<and> has_type schema (fd_type_id d) (field_value f)) ds fs \<Longrightarrow>
    has_type schema (td_id d) (VRecord fs)"
| T_Sum_unit: "d \<in> set (sc_types schema) \<Longrightarrow> td_kind d = TK_Sum vs \<Longrightarrow> s \<in> set vs \<Longrightarrow> sv_payload s = None \<Longrightarrow>
    has_type schema (td_id d) (VSum (td_id d) (sv_id s) None)"
| T_Sum: "d \<in> set (sc_types schema) \<Longrightarrow> td_kind d = TK_Sum vs \<Longrightarrow> s \<in> set vs \<Longrightarrow> sv_payload s = Some t \<Longrightarrow>
    has_type schema t v \<Longrightarrow> has_type schema (td_id d) (VSum (td_id d) (sv_id s) (Some v))"
| T_Vector: "d \<in> set (sc_types schema) \<Longrightarrow> td_kind d = TK_Vector t mn mx \<Longrightarrow> length_in (length xs) mn mx \<Longrightarrow>
    \<forall>x\<in>set xs. has_type schema t x \<Longrightarrow> has_type schema (td_id d) (VVector xs)"
| T_Map: "d \<in> set (sc_types schema) \<Longrightarrow> td_kind d = TK_Map kt vt mn mx \<Longrightarrow> length_in (length es) mn mx \<Longrightarrow>
    \<forall>e\<in>set es. has_type schema kt (entry_key e) \<and> has_type schema vt (entry_value e) \<Longrightarrow>
    has_type schema (td_id d) (VMap es)"

inductive_simps has_type_simps:
  "has_type schema t VUnit" "has_type schema t (VBool b)" "has_type schema t (VU128 i)" "has_type schema t (VI128 i)"
  "has_type schema t (VBytes bs)" "has_type schema t (VText bs)" "has_type schema t (VEnum a n)"
  "has_type schema t (VTuple xs)" "has_type schema t (VRecord fs)" "has_type schema t (VSum a n None)"
  "has_type schema t (VSum a n (Some v))" "has_type schema t (VVector xs)" "has_type schema t (VMap es)"

fun kind_sorted :: "TypeKind \<Rightarrow> bool" where
  "kind_sorted (TK_Enum vs) \<longleftrightarrow> sorted_wrt (<) (map ev_id vs)"
| "kind_sorted (TK_Sum vs) \<longleftrightarrow> sorted_wrt (<) (map sv_id vs)"
| "kind_sorted (TK_Record fs) \<longleftrightarrow> sorted_wrt (<) (map fd_id fs)"
| "kind_sorted _ \<longleftrightarrow> True"

definition schema_sorted :: "Schema \<Rightarrow> bool" where
  "schema_sorted schema \<longleftrightarrow> sorted_wrt (<) (map td_id (sc_types schema)) \<and> (\<forall>d\<in>set (sc_types schema). kind_sorted (td_kind d))"

lemma find_enum_variant_iff:
  "sorted_wrt (<) (map ev_id vs) \<Longrightarrow> (\<exists>x. find_enum_variant vs n = Some x) \<longleftrightarrow> n \<in> ev_id ` set vs"
  using enum_index.lookup_iff [of vs n] by (auto simp: find_enum_variant_def index_lookup_def)

lemma find_sum_variant_iff:
  "sorted_wrt (<) (map sv_id vs) \<Longrightarrow> find_sum_variant vs n = Some x \<longleftrightarrow> x \<in> set vs \<and> sv_id x = n"
  using sum_index.lookup_iff [of vs n x] by (simp add: find_sum_variant_def index_lookup_def)

lemma validate_length_Ok: "validate_length n mn mx = Inr u \<longleftrightarrow> length_in n mn mx"
proof -
  have "unat mx \<le> u32_max" using unsigned_less [of mx, where 'a = nat] by simp
  then show ?thesis by (auto simp: validate_length_def length_in_def)
qed

section \<open>Budget of a validation\<close>

definition limits_ok :: "ValidationLimits \<Rightarrow> bool" where
  "limits_ok limits \<longleftrightarrow> vl_max_depth limits < u16_max \<and> vl_max_nodes limits \<le> u64_max"

definition vstep :: "nat \<Rightarrow> nat \<Rightarrow> nat \<Rightarrow> ValidationState \<Rightarrow> ValidationState \<Rightarrow> bool" where
  "vstep p h n st st' \<longleftrightarrow> p + h \<le> vl_max_depth (vs_limits st) \<and> vs_nodes st + n \<le> vl_max_nodes (vs_limits st)
     \<and> st' = st\<lparr>vs_nodes := vs_nodes st + n, vs_maximum_depth := max (vs_maximum_depth st) (p + h)\<rparr>"

definition entered :: "nat \<Rightarrow> ValidationState \<Rightarrow> bool" where
  "entered p st \<longleftrightarrow> limits_ok (vs_limits st) \<and> p \<le> vs_maximum_depth st \<and> p \<le> vl_max_depth (vs_limits st)
     \<and> vs_nodes st \<le> vl_max_nodes (vs_limits st)"

lemma vs_enter_Ok: "limits_ok (vs_limits st) \<Longrightarrow> vs_enter p st = Inr st' \<longleftrightarrow> vstep p 0 1 st st'"
  by (auto simp: vs_enter_def vstep_def limits_ok_def if_Err_Ok)

lemma vstep_limits: "vstep p h n st st' \<Longrightarrow> vs_limits st' = vs_limits st"
  by (auto simp: vstep_def)

lemma vstep_entered: "vstep p h n st st' \<Longrightarrow> limits_ok (vs_limits st) \<Longrightarrow> entered p st'"
  by (auto simp: vstep_def entered_def)

lemma vstep_keeps_entered: "entered p st \<Longrightarrow> vstep (Suc p) h n st st' \<Longrightarrow> entered p st'"
  by (auto simp: vstep_def entered_def)

lemma vstep_children: "vstep p 0 1 st st1 \<and> vstep p h n st1 st2 \<longleftrightarrow> vstep p 0 1 st st1 \<and> vstep p h (Suc n) st st2"
  by (auto simp: vstep_def max_def)

lemma vstep_Cons: "(\<exists>st1. vstep (Suc p) h n st st1 \<and> vstep p h' n' st1 st2) \<longleftrightarrow> vstep p (max (Suc h) h') (n + n') st st2"
  by (auto simp: vstep_def max_def)

lemma vstep_Nil: "entered p st \<Longrightarrow> vstep p 0 0 st st' \<longleftrightarrow> st = st'"
  by (auto simp: vstep_def entered_def max_def)

lemma vstep_first: "vstep p h (Suc n) st st2 \<Longrightarrow> \<exists>st1. vstep p 0 1 st st1 \<and> vstep p h n st1 st2"
  by (auto simp: vstep_def max_def)

lemma enter_type_Ok:
  assumes "limits_ok (vs_limits st)" and "schema_sorted schema"
  shows "enter_type schema t p st = Inr (d, st1) \<longleftrightarrow> vstep p 0 1 st st1 \<and> d \<in> set (sc_types schema) \<and> td_id d = t"
  using assms type_by_id_Some [of schema t d] by (auto simp: enter_type_def vs_enter_Ok schema_sorted_def)

lemma validation_next_depth_Ok:
  "entered p st \<Longrightarrow> validation_next_depth p = Inr q \<longleftrightarrow> q = Suc p"
  by (auto simp: validation_next_depth_def entered_def limits_ok_def)


lemma type_unique:
  "schema_sorted schema \<Longrightarrow> d \<in> set (sc_types schema) \<Longrightarrow> td_id d = td_id d' \<Longrightarrow> d' \<in> set (sc_types schema) \<Longrightarrow> d' = d"
  by (auto simp: schema_sorted_def strict_sorted_iff distinct_map inj_on_def)

lemma type_unique_ex:
  assumes "schema_sorted schema" "d \<in> set (sc_types schema)"
  shows "(\<exists>d'. td_id d = td_id d' \<and> d' \<in> set (sc_types schema) \<and> P d') \<longleftrightarrow> P d"
    and "(\<exists>d'. td_id d = td_id d' \<and> a = td_id d' \<and> d' \<in> set (sc_types schema) \<and> P d') \<longleftrightarrow> a = td_id d \<and> P d"
  using type_unique [OF assms] assms(2) by auto

lemma has_type_at:
  assumes "schema_sorted schema" "d \<in> set (sc_types schema)"
  shows "has_type schema (td_id d) VUnit \<longleftrightarrow> td_kind d = TK_Unit"
    "has_type schema (td_id d) (VBool b) \<longleftrightarrow> td_kind d = TK_Bool"
    "has_type schema (td_id d) (VU128 i) \<longleftrightarrow> (\<exists>mn mx. td_kind d = TK_U128 mn mx \<and> mn \<le> i \<and> i \<le> mx)"
    "has_type schema (td_id d) (VI128 i) \<longleftrightarrow> (\<exists>mn mx. td_kind d = TK_I128 mn mx \<and> sint mn \<le> sint i \<and> sint i \<le> sint mx)"
    "has_type schema (td_id d) (VBytes bs) \<longleftrightarrow> (\<exists>mn mx. td_kind d = TK_Bytes mn mx \<and> length_in (length bs) mn mx)"
    "has_type schema (td_id d) (VText bs) \<longleftrightarrow> (\<exists>mn mx. td_kind d = TK_Text mn mx \<and> length_in (length bs) mn mx)"
    "has_type schema (td_id d) (VEnum a n) \<longleftrightarrow> (\<exists>vs. td_kind d = TK_Enum vs \<and> a = td_id d \<and> n \<in> ev_id ` set vs)"
    "has_type schema (td_id d) (VTuple xs) \<longleftrightarrow> (\<exists>ts. td_kind d = TK_Tuple ts \<and> list_all2 (has_type schema) ts xs)"
    "has_type schema (td_id d) (VRecord fs) \<longleftrightarrow> (\<exists>ds. td_kind d = TK_Record ds \<and>
       list_all2 (\<lambda>d f. fd_id d = field_id f \<and> has_type schema (fd_type_id d) (field_value f)) ds fs)"
    "has_type schema (td_id d) (VVector xs) \<longleftrightarrow> (\<exists>t mn mx. td_kind d = TK_Vector t mn mx \<and> length_in (length xs) mn mx
       \<and> (\<forall>x\<in>set xs. has_type schema t x))"
    "has_type schema (td_id d) (VMap es) \<longleftrightarrow> (\<exists>kt vt mn mx. td_kind d = TK_Map kt vt mn mx \<and> length_in (length es) mn mx
       \<and> (\<forall>e\<in>set es. has_type schema kt (entry_key e) \<and> has_type schema vt (entry_value e)))"
  unfolding has_type_simps type_unique_ex [OF assms] by blast+

lemma has_type_at_sum:
  assumes "schema_sorted schema" "d \<in> set (sc_types schema)"
  shows "has_type schema (td_id d) (VSum a n q) \<longleftrightarrow> (\<exists>vs s. td_kind d = TK_Sum vs \<and> a = td_id d \<and> s \<in> set vs \<and> sv_id s = n \<and>
       (case q of None \<Rightarrow> sv_payload s = None | Some v \<Rightarrow> (\<exists>t. sv_payload s = Some t \<and> has_type schema t v)))"
  using type_unique [OF assms] assms(2) unfolding has_type_simps by (cases q) (simp_all add: has_type_simps, blast+)

lemmas has_type_at_all = has_type_at has_type_at_sum
lemma has_type_known: "has_type schema t v \<Longrightarrow> \<exists>d. d \<in> set (sc_types schema) \<and> td_id d = t"
  by (cases rule: has_type.cases) blast+

lemma validate_scalar_Ok:
  assumes "schema_sorted schema" "d \<in> set (sc_types schema)"
    and "v = VUnit \<or> v = VBool b \<or> v = VU128 i \<or> v = VI128 j \<or> v = VBytes bs \<or> v = VText bs \<or> v = VEnum a n"
  shows "validate_scalar d v = Inr u \<longleftrightarrow> has_type schema (td_id d) v"
  using assms(3)
proof (elim disjE)
  assume v: "v = VEnum a n"
  have "kind_sorted (td_kind d)" using assms(1,2) by (simp add: schema_sorted_def)
  then show ?thesis unfolding v has_type_at [OF assms(1,2)] validate_scalar_def using find_enum_variant_iff
    by (cases "td_kind d") (auto simp: if_Err_Ok)
qed (simp only: has_type_at [OF assms(1,2)] validate_scalar_def, cases "td_kind d", simp_all add: validate_length_Ok)+

lemma validate_leaf_Ok:
  assumes "schema_sorted schema" "limits_ok (vs_limits st)"
    and "v = VUnit \<or> v = VBool b \<or> v = VU128 i \<or> v = VI128 j \<or> v = VBytes bs \<or> v = VText bs \<or> v = VEnum a n"
  shows "validate_leaf schema t v p st = Inr st' \<longleftrightarrow> has_type schema t v \<and> vstep p 0 1 st st'"
proof -
  have "validate_leaf schema t v p st = Inr st' \<longleftrightarrow>
      (\<exists>d. vstep p 0 1 st st' \<and> d \<in> set (sc_types schema) \<and> td_id d = t \<and> has_type schema t v)"
    using validate_scalar_Ok [OF assms(1) _ assms(3)] by (auto simp: validate_leaf_def enter_type_Ok [OF assms(2,1)])
  then show ?thesis using has_type_known [of schema t v] by auto
qed

lemma container_Ok:
  assumes "schema_sorted schema" "limits_ok (vs_limits st)"
    and "\<And>d st1. enter_type schema t p st = Inr (d, st1) \<Longrightarrow> entered p st1 \<Longrightarrow> d \<in> set (sc_types schema) \<Longrightarrow> td_id d = t \<Longrightarrow>
      body (d, st1) = Inr st' \<longleftrightarrow> has_type schema t v \<and> vstep p h n st1 st'"
  shows "rbind (enter_type schema t p st) body = Inr st' \<longleftrightarrow> has_type schema t v \<and> vstep p h (Suc n) st st'"
proof
  assume "rbind (enter_type schema t p st) body = Inr st'"
  then obtain d st1 where d: "vstep p 0 1 st st1" "d \<in> set (sc_types schema)" "td_id d = t" "body (d, st1) = Inr st'"
    by (auto simp: enter_type_Ok [OF assms(2,1)])
  then have "enter_type schema t p st = Inr (d, st1)" by (simp add: enter_type_Ok [OF assms(2,1)])
  with assms(3) [OF this vstep_entered [OF d(1) assms(2)] d(2,3)] d(1,4) vstep_children [of p st st1 h n st']
  show "has_type schema t v \<and> vstep p h (Suc n) st st'" by blast
next
  assume r: "has_type schema t v \<and> vstep p h (Suc n) st st'"
  then obtain d st1 where d: "d \<in> set (sc_types schema)" "td_id d = t" "vstep p 0 1 st st1" "vstep p h n st1 st'"
    using has_type_known vstep_first by metis
  then have "enter_type schema t p st = Inr (d, st1)" by (simp add: enter_type_Ok [OF assms(2,1)])
  with assms(3) [OF this vstep_entered [OF d(3) assms(2)] d(1,2)] r d(4)
  show "rbind (enter_type schema t p st) body = Inr st'" by simp
qed

lemma cons_Ok:
  assumes "entered r st"
    and "\<And>st1. limits_ok (vs_limits st) \<Longrightarrow> first = Inr st1 \<longleftrightarrow> A \<and> vstep (Suc r) h n st st1"
    and "\<And>st1. first = Inr st1 \<Longrightarrow> entered r st1 \<Longrightarrow> others st1 = Inr st' \<longleftrightarrow> B \<and> vstep r h' n' st1 st'"
  shows "rbind first others = Inr st' \<longleftrightarrow> (A \<and> B) \<and> vstep r (max (Suc h) h') (n + n') st st'"
proof -
  have "limits_ok (vs_limits st)" using assms(1) by (simp add: entered_def)
  with assms(2,3) vstep_keeps_entered [OF assms(1)]
  have "rbind first others = Inr st' \<longleftrightarrow> A \<and> B \<and> (\<exists>st1. vstep (Suc r) h n st st1 \<and> vstep r h' n' st1 st')" by auto
  then show ?thesis by (simp add: vstep_Cons)
qed

lemma tuple_arm_Ok: "tuple_arm d n = Inr ts \<longleftrightarrow> td_kind d = TK_Tuple ts \<and> length ts = n"
  by (auto simp: tuple_arm_def split: TypeKind.splits if_splits)

lemma record_arm_Ok: "record_arm d n = Inr ds \<longleftrightarrow> td_kind d = TK_Record ds \<and> length ds = n"
  by (auto simp: record_arm_def split: TypeKind.splits if_splits)

lemma vector_arm_Ok: "vector_arm d n = Inr t \<longleftrightarrow> (\<exists>mn mx. td_kind d = TK_Vector t mn mx \<and> length_in n mn mx)"
  by (auto simp: vector_arm_def validate_length_Ok split: TypeKind.splits)

lemma map_arm_Ok: "map_arm d n = Inr (kt, vt) \<longleftrightarrow> (\<exists>mn mx. td_kind d = TK_Map kt vt mn mx \<and> length_in n mn mx)"
  by (auto simp: map_arm_def validate_length_Ok split: TypeKind.splits)

lemma case_payload_Ok:
  "(case q of None \<Rightarrow> Inr a | Some _ \<Rightarrow> Inl e) = Inr b \<longleftrightarrow> q = None \<and> a = b"
  "(case q of None \<Rightarrow> Inl e | Some x \<Rightarrow> f x) = Inr b \<longleftrightarrow> (\<exists>x. q = Some x \<and> f x = Inr b)"
  by (cases q; simp)+

lemma sum_arm_Ok:
  assumes "schema_sorted schema" "d \<in> set (sc_types schema)"
  shows "sum_arm d a n = Inr s \<longleftrightarrow> (\<exists>vs. td_kind d = TK_Sum vs \<and> a = td_id d \<and> s \<in> set vs \<and> sv_id s = n)"
proof -
  have "kind_sorted (td_kind d)" using assms by (simp add: schema_sorted_def)
  then show ?thesis using find_sum_variant_iff by (cases "td_kind d") (auto simp: sum_arm_def if_Err_Ok)
qed

lemma validate_Ok:
  "schema_sorted schema \<Longrightarrow> limits_ok (vs_limits st) \<Longrightarrow>
     validate_node schema t v p st = Inr st' \<longleftrightarrow> has_type schema t v \<and> vstep p (vheight v) (vnodes v) st st'"
  "schema_sorted schema \<Longrightarrow> entered r st \<Longrightarrow> p = Suc r \<Longrightarrow> length ts = length vs \<Longrightarrow>
     validate_tuple schema ts vs p st = Inr st' \<longleftrightarrow>
       list_all2 (has_type schema) ts vs \<and> vstep r (vheight_items vs) (vnodes_items vs) st st'"
  "schema_sorted schema \<Longrightarrow> entered r st \<Longrightarrow> p = Suc r \<Longrightarrow> length ds = length fs \<Longrightarrow>
     validate_record schema ds fs p st = Inr st' \<longleftrightarrow>
       list_all2 (\<lambda>d f. fd_id d = field_id f \<and> has_type schema (fd_type_id d) (field_value f)) ds fs
       \<and> vstep r (vheight_fields fs) (vnodes_fields fs) st st'"
  "schema_sorted schema \<Longrightarrow> entered r st \<Longrightarrow> p = Suc r \<Longrightarrow>
     validate_vector schema t vs p st = Inr st' \<longleftrightarrow>
       (\<forall>x\<in>set vs. has_type schema t x) \<and> vstep r (vheight_items vs) (vnodes_items vs) st st'"
  "schema_sorted schema \<Longrightarrow> entered r st \<Longrightarrow> p = Suc r \<Longrightarrow>
     validate_map schema kt vt es p st = Inr st' \<longleftrightarrow>
       (\<forall>e\<in>set es. has_type schema kt (entry_key e) \<and> has_type schema vt (entry_value e))
       \<and> vstep r (vheight_entries es) (vnodes_entries es) st st'"
proof (induction schema t v p st and schema ts vs p st and schema ds fs p st and schema t vs p st and schema kt vt es p st
    arbitrary: st' and st' r and st' r and st' r and st' r
    rule: validate_node_validate_tuple_validate_record_validate_vector_validate_map.induct)
  case (8 schema t items p st)
  have "validate_node schema t (VTuple items) p st = Inr st'
    \<longleftrightarrow> has_type schema t (VTuple items) \<and> vstep p (vheight_items items) (Suc (vnodes_items items)) st st'"
    unfolding validate_node.simps
  proof (rule container_Ok [OF 8(2,3)], goal_cases)
    case (1 d st1)
    then show ?case using 8(1) [OF 1(1) refl _ _ 8(2) 1(2)] has_type_at(8) [OF 8(2) 1(3), of items]
        list_all2_lengthD [of "has_type schema" _ items]
      by (auto simp: tuple_arm_Ok validation_next_depth_Ok [OF 1(2)])
  qed
  then show ?case by simp
next
  case (9 schema t flds p st)
  have "validate_node schema t (VRecord flds) p st = Inr st'
    \<longleftrightarrow> has_type schema t (VRecord flds) \<and> vstep p (vheight_fields flds) (Suc (vnodes_fields flds)) st st'"
    unfolding validate_node.simps
  proof (rule container_Ok [OF 9(2,3)], goal_cases)
    case (1 d st1)
    let ?P = "\<lambda>d f. fd_id d = field_id f \<and> has_type schema (fd_type_id d) (field_value f)"
    have ih: "validate_record schema ds flds (Suc p) st1 = Inr st' \<longleftrightarrow>
        list_all2 ?P ds flds \<and> vstep p (vheight_fields flds) (vnodes_fields flds) st1 st'"
      if "td_kind d = TK_Record ds" "length ds = length flds" for ds
      using 9(1) [OF 1(1) refl _ _ 9(2) 1(2), of ds "Suc p"] that
      by (simp add: record_arm_Ok validation_next_depth_Ok [OF 1(2)])
    have "has_type schema t (VRecord flds) \<longleftrightarrow> (\<exists>ds. td_kind d = TK_Record ds \<and> length ds = length flds \<and> list_all2 ?P ds flds)"
      using has_type_at(9) [OF 9(2) 1(3), of flds] 1(4) list_all2_lengthD [of ?P _ flds] by auto
    with ih show ?case by (auto simp: record_arm_Ok validation_next_depth_Ok [OF 1(2)])
  qed
  then show ?case by simp
next
  case (10 schema t a n q p st)
  show ?case
  proof (cases q)
    case None
    have "validate_node schema t (VSum a n None) p st = Inr st'
      \<longleftrightarrow> has_type schema t (VSum a n None) \<and> vstep p 0 (Suc 0) st st'"
      unfolding validate_node.simps
    proof (rule container_Ok [OF 10(2,3)], goal_cases)
      case (1 d st1)
      then show ?case using has_type_at_sum [OF 10(2) 1(3), of a n None]
        by (auto simp: sum_arm_Ok [OF 10(2) 1(3)] vstep_Nil [OF 1(2)] case_payload_Ok)
    qed
    then show ?thesis using None by simp
  next
    case (Some v)
    have "validate_node schema t (VSum a n (Some v)) p st = Inr st'
      \<longleftrightarrow> has_type schema t (VSum a n (Some v)) \<and> vstep p (Suc (vheight v)) (Suc (vnodes v)) st st'"
      unfolding validate_node.simps
    proof (rule container_Ok [OF 10(2,3)], goal_cases)
      case (1 d st1)
      have lim: "limits_ok (vs_limits st1)" using 1(2) by (simp add: entered_def)
      have step: "vstep (Suc p) (vheight v) (vnodes v) st1 st' \<longleftrightarrow> vstep p (Suc (vheight v)) (vnodes v) st1 st'"
        by (simp add: vstep_def)
      show ?case using 1 10(1) [OF 1(1) refl _ Some _ _ 10(2) lim] has_type_at_sum [OF 10(2) 1(3), of a n "Some v"]
        by (auto simp: sum_arm_Ok [OF 10(2) 1(3)] validation_next_depth_Ok [OF 1(2)] step case_payload_Ok)
    qed
    then show ?thesis using Some by simp
  qed
next
  case (11 schema t items p st)
  have "validate_node schema t (VVector items) p st = Inr st'
    \<longleftrightarrow> has_type schema t (VVector items) \<and> vstep p (vheight_items items) (Suc (vnodes_items items)) st st'"
    unfolding validate_node.simps
  proof (rule container_Ok [OF 11(2,3)], goal_cases)
    case (1 d st1)
    then show ?case using 11(1) [OF 1(1) refl _ _ 11(2) 1(2)] has_type_at(10) [OF 11(2) 1(3), of items]
      by (auto simp: vector_arm_Ok validation_next_depth_Ok [OF 1(2)])
  qed
  then show ?case by simp
next
  case (12 schema t entries p st)
  have "validate_node schema t (VMap entries) p st = Inr st'
    \<longleftrightarrow> has_type schema t (VMap entries) \<and> vstep p (vheight_entries entries) (Suc (vnodes_entries entries)) st st'"
    unfolding validate_node.simps
  proof (rule container_Ok [OF 12(2,3)], goal_cases)
    case (1 d st1)
    then show ?case using 12(1) [OF 1(1) refl _ refl _ 12(2) 1(2)] has_type_at(11) [OF 12(2) 1(3), of entries]
      by (auto simp: map_arm_Ok validation_next_depth_Ok [OF 1(2)])
  qed
  then show ?case by simp
next
  case (13 schema t ts v vs p st)
  then show ?case
    using cons_Ok [OF 13(4), of "validate_node schema t v p st" "has_type schema t v" "vheight v" "vnodes v"
        "\<lambda>st. validate_tuple schema ts vs p st" st' "list_all2 (has_type schema) ts vs" "vheight_items vs" "vnodes_items vs"] by simp
next
  case (14 schema vs p st)
  then show ?case by (simp add: vstep_Nil)
next
  case (16 schema d ds i v fs p st)
  show ?case
  proof (cases "fd_id d = i")
    case True
    then show ?thesis
      using 16 cons_Ok [OF 16(4), of "validate_node schema (fd_type_id d) v p st" "has_type schema (fd_type_id d) v" "vheight v" "vnodes v"
          "\<lambda>st. validate_record schema ds fs p st" st'
          "list_all2 (\<lambda>d f. fd_id d = field_id f \<and> has_type schema (fd_type_id d) (field_value f)) ds fs"
          "vheight_fields fs" "vnodes_fields fs"] by simp
  qed simp
next
  case (17 schema fs p st)
  then show ?case by (simp add: vstep_Nil)
next
  case (19 schema t v vs p st)
  then show ?case
    using cons_Ok [OF 19(4), of "validate_node schema t v p st" "has_type schema t v" "vheight v" "vnodes v"
        "\<lambda>st. validate_vector schema t vs p st" st' "\<forall>x\<in>set vs. has_type schema t x" "vheight_items vs" "vnodes_items vs"] by simp
next
  case (20 schema t p st)
  then show ?case by (simp add: vstep_Nil)
next
  case (21 schema kt vt ek k v es p st)
  have inner: "rbind (validate_node schema vt v p st1) (\<lambda>st. validate_map schema kt vt es p st) = Inr st'
      \<longleftrightarrow> (has_type schema vt v \<and> (\<forall>e\<in>set es. has_type schema kt (entry_key e) \<and> has_type schema vt (entry_value e)))
        \<and> vstep r (max (Suc (vheight v)) (vheight_entries es)) (vnodes v + vnodes_entries es) st1 st'"
    if "validate_node schema kt k p st = Inr st1" "entered r st1" for st1
    using that 21(2,3,4,6) by (intro cons_Ok) simp_all
  show ?case
    using 21(1,4,6) inner cons_Ok [OF 21(5), of "validate_node schema kt k p st" "has_type schema kt k" "vheight k" "vnodes k"
        "\<lambda>st1. rbind (validate_node schema vt v p st1) (\<lambda>st. validate_map schema kt vt es p st)" st'
        "has_type schema vt v \<and> (\<forall>e\<in>set es. has_type schema kt (entry_key e) \<and> has_type schema vt (entry_value e))"
        "max (Suc (vheight v)) (vheight_entries es)" "vnodes v + vnodes_entries es"]
    by (simp add: add.assoc flip: max_Suc_Suc max.assoc)
next
  case (22 schema kt vt p st)
  then show ?case by (simp add: vstep_Nil)
qed (simp_all add: validate_leaf_Ok)

section \<open>Depth of typed values\<close>

lemma items_height: "xs \<noteq> [] \<Longrightarrow> \<exists>x\<in>set xs. vheight_items xs = Suc (vheight x)"
proof (induction xs)
  case (Cons x xs)
  then show ?case by (cases "xs = []") (auto simp: max_def)
qed simp

lemma fields_height: "fs \<noteq> [] \<Longrightarrow> \<exists>f\<in>set fs. vheight_fields fs = Suc (vheight (field_value f))"
proof (induction fs)
  case (Cons f fs)
  then show ?case by (cases f; cases "fs = []") (auto simp: max_def)
qed simp

lemma entries_height:
  "es \<noteq> [] \<Longrightarrow> \<exists>e\<in>set es. vheight_entries es = Suc (vheight (entry_key e)) \<or> vheight_entries es = Suc (vheight (entry_value e))"
proof (induction es)
  case (Cons e es)
  then show ?case by (cases e; cases "es = []") (auto simp: max_def)
qed simp

definition type_chain :: "Schema \<Rightarrow> TypeId \<Rightarrow> TypeId list \<Rightarrow> bool" where
  "type_chain schema t p \<longleftrightarrow> p \<noteq> [] \<and> hd p = t \<and> successively (\<lambda>a b. (a, b) \<in> refers (sc_types schema)) p
     \<and> set p \<subseteq> td_id ` set (sc_types schema)"

lemma type_chain_single: "d \<in> set (sc_types schema) \<Longrightarrow> type_chain schema (td_id d) [td_id d]"
  by (simp add: type_chain_def)

lemma type_chain_Cons:
  assumes "d \<in> set (sc_types schema)" "r \<in> set (references (td_kind d))" "type_chain schema r p"
  shows "type_chain schema (td_id d) (td_id d # p)"
  using assms by (cases p) (auto simp: type_chain_def refers_def)

lemma list_all2_right: "list_all2 P xs ys \<Longrightarrow> y \<in> set ys \<Longrightarrow> \<exists>x\<in>set xs. P x y"
  by (induction rule: list_all2_induct) auto

lemma has_type_chain:
  "has_type schema t v \<Longrightarrow> \<exists>p. type_chain schema t p \<and> length p = Suc (vheight v)"
proof (induction rule: has_type.induct)
  case (T_Tuple d ts xs)
  show ?case
  proof (cases "xs = []")
    case False
    then obtain x where x: "x \<in> set xs" "vheight_items xs = Suc (vheight x)" using items_height by blast
    then obtain r where "r \<in> set ts" "\<exists>p. type_chain schema r p \<and> length p = Suc (vheight x)"
      using list_all2_right [OF T_Tuple(3)] by blast
    then show ?thesis using type_chain_Cons [OF T_Tuple(1), of r] T_Tuple(2) x(2) by (fastforce simp: references_def)
  qed (use T_Tuple type_chain_single in force)
next
  case (T_Record d ds fs)
  show ?case
  proof (cases "fs = []")
    case False
    then obtain f where f: "f \<in> set fs" "vheight_fields fs = Suc (vheight (field_value f))" using fields_height by blast
    then obtain fd where "fd \<in> set ds" "\<exists>p. type_chain schema (fd_type_id fd) p \<and> length p = Suc (vheight (field_value f))"
      using list_all2_right [OF T_Record(3)] by blast
    then show ?thesis using type_chain_Cons [OF T_Record(1), of "fd_type_id fd"] T_Record(2) f(2)
      by (fastforce simp: references_def)
  qed (use T_Record type_chain_single in force)
next
  case (T_Sum d vs s t v)
  then have "t \<in> set (references (td_kind d))"
    by (auto simp: references_def List.map_filter_def image_iff intro!: bexI [of _ s])
  then show ?case using T_Sum type_chain_Cons [of d schema t] by fastforce
next
  case (T_Vector d t mn mx xs)
  show ?case
  proof (cases "xs = []")
    case False
    then obtain x where x: "x \<in> set xs" "vheight_items xs = Suc (vheight x)" using items_height by blast
    then show ?thesis using type_chain_Cons [OF T_Vector(1), of t] T_Vector(2,4) by (fastforce simp: references_def)
  qed (use T_Vector type_chain_single in force)
next
  case (T_Map d kt vt mn mx es)
  show ?case
  proof (cases "es = []")
    case False
    then obtain e where "e \<in> set es"
      "vheight_entries es = Suc (vheight (entry_key e)) \<or> vheight_entries es = Suc (vheight (entry_value e))"
      using entries_height by blast
    then show ?thesis using type_chain_Cons [OF T_Map(1), of kt] type_chain_Cons [OF T_Map(1), of vt] T_Map(2,4)
      by (fastforce simp: references_def)
  qed (use T_Map type_chain_single in force)
qed (use type_chain_single in force)+

lemma successively_trancl:
  "successively (\<lambda>a b. (a, b) \<in> R) (a # p) \<Longrightarrow> b \<in> set p \<Longrightarrow> (a, b) \<in> R\<^sup>+"
proof (induction p arbitrary: a)
  case (Cons c p)
  then show ?case by (auto intro: trancl_into_trancl2)
qed simp

lemma successively_acyclic_distinct:
  "acyclic R \<Longrightarrow> successively (\<lambda>a b. (a, b) \<in> R) p \<Longrightarrow> distinct p"
proof (induction p)
  case (Cons a p)
  then have "a \<notin> set p" using successively_trancl [of R a p a] by (auto simp: acyclic_def)
  then show ?case using Cons by (cases p) auto
qed simp

lemma typed_height:
  assumes "acyclic (refers (sc_types schema))" and "has_type schema t v"
  shows "vheight v < length (sc_types schema)"
proof -
  obtain p where p: "type_chain schema t p" "length p = Suc (vheight v)" using has_type_chain [OF assms(2)] by blast
  then have "distinct p" using successively_acyclic_distinct [OF assms(1)] by (simp add: type_chain_def)
  then have "length p = card (set p)" by (simp add: distinct_card)
  also have "\<dots> \<le> card (td_id ` set (sc_types schema))" using p(1) by (intro card_mono) (auto simp: type_chain_def)
  also have "\<dots> \<le> length (sc_types schema)" using card_image_le [of "set (sc_types schema)" td_id] card_length le_trans by blast
  finally show ?thesis using p(2) by simp
qed

section \<open>Built schemas\<close>

definition type_built :: "TypeDef \<Rightarrow> bool" where
  "type_built d \<longleftrightarrow> (\<exists>i name kind limits. type_def_try_new i name kind limits = Inr d)"

definition schema_built :: "Schema \<Rightarrow> bool" where
  "schema_built schema \<longleftrightarrow> (\<exists>profile version root types limits.
     schema_try_new profile version root types limits = Inr schema \<and> (\<forall>d\<in>set types. type_built d))"

lemma normalize_kind_sorted: "normalize_kind kind limits = Inr kind' \<Longrightarrow> kind_sorted kind'"
proof -
  have "sorted_wrt (<) (map fd_id fs')" if "normalize_fields fs limits = Inr fs'" for fs fs'
    using that by (auto simp: normalize_fields_def Let_def if_Err_Ok field_ids.check_sort intro: field_ids.sorted_strict)
  moreover have "sorted_wrt (<) (map ev_id vs')" if "normalize_enum_variants vs limits = Inr vs'" for vs vs'
    using that by (auto simp: normalize_enum_variants_def Let_def if_Err_Ok enum_variant_ids.check_sort
        intro: enum_variant_ids.sorted_strict)
  moreover have "sorted_wrt (<) (map sv_id vs')" if "normalize_sum_variants vs limits = Inr vs'" for vs vs'
    using that by (auto simp: normalize_sum_variants_def Let_def if_Err_Ok sum_variant_ids.check_sort
        intro: sum_variant_ids.sorted_strict)
  ultimately show "normalize_kind kind limits = Inr kind' \<Longrightarrow> ?thesis"
    by (auto simp: normalize_kind_def split: TypeKind.splits if_splits)
qed

lemma schema_built_facts:
  assumes "schema_built schema"
  shows "schema_sorted schema" "closed_types (sc_types schema)" "acyclic (refers (sc_types schema))"
    "sc_root_type schema \<in> td_id ` set (sc_types schema)" "sc_metrics schema = schema_metrics (sc_types schema)"
proof -
  obtain profile version root types limits where
    s: "schema_try_new profile version root types limits = Inr schema" "\<forall>d\<in>set types. type_built d"
    using assms by (auto simp: schema_built_def)
  then have ok: "schema_ok root types limits" and eq: "schema = \<lparr>sc_profile = profile, sc_version = version, sc_root_type = root,
      sc_types = sort_key td_id types, sc_metrics = schema_metrics types\<rparr>" by (simp_all add: schema_try_new_Ok)
  have "kind_sorted (td_kind d)" if "d \<in> set types" for d
    using s(2) that normalize_kind_sorted by (fastforce simp: type_built_def type_def_try_new_def)
  then show "schema_sorted schema"
    using ok type_ids.sorted_strict [of types] by (simp add: schema_sorted_def eq schema_ok_def)
  show "closed_types (sc_types schema)" "acyclic (refers (sc_types schema))" "sc_root_type schema \<in> td_id ` set (sc_types schema)"
    using ok refers_perm [of "sort_key td_id types" types] by (simp_all add: eq schema_ok_def closed_types_def)
  show "sc_metrics schema = schema_metrics (sc_types schema)"
    using sums_perm [of "sort_key td_id types" types] by (simp add: eq schema_metrics_def)
qed

lemma validate_value_iff:
  assumes "schema_built schema" "limits_ok limits"
  shows "schema_validate_value schema t v limits = Inr report \<longleftrightarrow> has_type schema t v
    \<and> vheight v \<le> vl_max_depth limits \<and> vnodes v \<le> vl_max_nodes limits
    \<and> report = \<lparr>vr_nodes = vnodes v, vr_maximum_depth = vheight v\<rparr>"
  using validate_Ok(1) [OF schema_built_facts(1) [OF assms(1)], of "\<lparr>vs_limits = limits, vs_nodes = 0, vs_maximum_depth = 0\<rparr>" t v 0] assms(2)
  by (auto simp: schema_validate_value_def vstep_def)

section \<open>Encoding\<close>

text \<open>A code whose words can be read off the front of a byte string.\<close>

locale prefix_code =
  fixes code :: "'a \<Rightarrow> bytes" and fits16 :: "'a \<Rightarrow> bool"
  assumes code_inject: "fits16 x \<Longrightarrow> fits16 y \<Longrightarrow> code x @ r = code y @ s \<Longrightarrow> x = y \<and> r = s"
begin

lemma items_inject:
  "length xs = length ys \<Longrightarrow> list_all fits16 xs \<Longrightarrow> list_all fits16 ys \<Longrightarrow>
   concat (map code xs) @ r = concat (map code ys) @ s \<Longrightarrow> xs = ys \<and> r = s"
proof (induction xs ys rule: list_induct2)
  case (Cons x xs y ys)
  then have "x = y \<and> concat (map code xs) @ r = concat (map code ys) @ s"
    using code_inject [of x y "concat (map code xs) @ r" "concat (map code ys) @ s"] by simp
  then show ?case using Cons by simp
qed simp

definition counted :: "'a list \<Rightarrow> bytes" where
  "counted xs = be_bytes 4 (of_nat (length xs) :: u32) @ concat (map code xs)"

definition counted_fits :: "'a list \<Rightarrow> bool" where
  "counted_fits xs \<longleftrightarrow> length xs \<le> u32_max \<and> list_all fits16 xs"

lemma counted_inject:
  assumes "counted_fits xs" "counted_fits ys" "counted xs @ r = counted ys @ s"
  shows "xs = ys \<and> r = s"
proof -
  have "be_bytes 4 (of_nat (length xs) :: u32) = be_bytes 4 (of_nat (length ys) :: u32)"
    and c: "concat (map code xs) @ r = concat (map code ys) @ s"
    using assms(3) by (simp_all add: counted_def)
  then have "length xs = length ys"
    using assms(1,2) be_bytes_inject [where 'a = 32, of 4] of_nat_u32_inject [of "length xs" "length ys"]
    by (simp add: counted_fits_def)
  from items_inject [OF this _ _ c] show ?thesis using assms(1,2) unfolding counted_fits_def by blast
qed

lemma encode_items:
  assumes "\<And>x out r. encode x out = Inr r \<longleftrightarrow> fits16 x \<and> r = out @ code x"
  shows "fold_res encode xs out = Inr r \<longleftrightarrow> list_all fits16 xs \<and> r = out @ concat (map code xs)"
  by (induction xs arbitrary: out) (auto simp: assms)

lemma encode_counted:
  assumes "\<And>x out r. encode x out = Inr r \<longleftrightarrow> fits16 x \<and> r = out @ code x"
  shows "rbind (schema_put_length out (length xs)) (fold_res encode xs) = Inr r \<longleftrightarrow> counted_fits xs \<and> r = out @ counted xs"
  using encode_items [of encode, OF assms] by (auto simp: schema_put_length_def counted_def counted_fits_def)

end

definition name_bytes :: "bytes \<Rightarrow> bytes" where
  "name_bytes n = be_bytes 2 (of_nat (length n) :: u16) @ n"

lemma of_nat_u16_inject: "m \<le> u16_max \<Longrightarrow> n \<le> u16_max \<Longrightarrow> (of_nat m :: u16) = of_nat n \<longleftrightarrow> m = n"
  by (simp add: word_unat_eq_iff unat_of_nat)

lemma name_inject:
  "length n \<le> u16_max \<Longrightarrow> length m \<le> u16_max \<Longrightarrow> name_bytes n @ r = name_bytes m @ s \<Longrightarrow> n = m \<and> r = s"
  by (auto simp: name_bytes_def be_bytes_inject of_nat_u16_inject)

lemma schema_put_text_Ok: "schema_put_text out n = Inr r \<longleftrightarrow> length n \<le> u16_max \<and> r = out @ name_bytes n"
  by (auto simp: schema_put_text_def name_bytes_def)

definition field_code :: "FieldDef \<Rightarrow> bytes" where
  "field_code f = be_bytes 2 (fd_id f) @ name_bytes (fd_name f) @ be_bytes 4 (fd_type_id f)"

definition enum_code :: "EnumVariantDef \<Rightarrow> bytes" where
  "enum_code v = be_bytes 2 (ev_id v) @ name_bytes (ev_name v)"

definition sum_code :: "SumVariantDef \<Rightarrow> bytes" where
  "sum_code v = be_bytes 2 (sv_id v) @ name_bytes (sv_name v)
     @ (case sv_payload v of None \<Rightarrow> [0] | Some t \<Rightarrow> [1] @ be_bytes 4 t)"

definition id_code :: "TypeId \<Rightarrow> bytes" where
  "id_code t = be_bytes 4 t"

interpretation fields: prefix_code field_code "\<lambda>f. length (fd_name f) \<le> u16_max"
proof
  fix x y r s
  assume l: "length (fd_name x) \<le> u16_max" "length (fd_name y) \<le> u16_max" and e: "field_code x @ r = field_code y @ s"
  then have "fd_id x = fd_id y" and n: "name_bytes (fd_name x) @ be_bytes 4 (fd_type_id x) @ r = name_bytes (fd_name y) @ be_bytes 4 (fd_type_id y) @ s"
    by (auto simp: field_code_def be_bytes_inject)
  with name_inject [OF l n] show "x = y \<and> r = s" by (cases x; cases y) (auto simp: be_bytes_inject)
qed

interpretation enum_variants: prefix_code enum_code "\<lambda>v. length (ev_name v) \<le> u16_max"
proof
  fix x y r s
  assume l: "length (ev_name x) \<le> u16_max" "length (ev_name y) \<le> u16_max" and e: "enum_code x @ r = enum_code y @ s"
  then have "ev_id x = ev_id y" and n: "name_bytes (ev_name x) @ r = name_bytes (ev_name y) @ s"
    by (auto simp: enum_code_def be_bytes_inject)
  with name_inject [OF l n] show "x = y \<and> r = s" by (cases x; cases y) auto
qed

interpretation sum_variants: prefix_code sum_code "\<lambda>v. length (sv_name v) \<le> u16_max"
proof
  fix x y r s
  assume l: "length (sv_name x) \<le> u16_max" "length (sv_name y) \<le> u16_max" and e: "sum_code x @ r = sum_code y @ s"
  let ?p = "\<lambda>v. case sv_payload v of None \<Rightarrow> [0] | Some t \<Rightarrow> [1] @ be_bytes 4 t"
  from e have i: "sv_id x = sv_id y" and n: "name_bytes (sv_name x) @ ?p x @ r = name_bytes (sv_name y) @ ?p y @ s"
    by (auto simp: sum_code_def be_bytes_inject)
  from name_inject [OF l n] have "sv_name x = sv_name y" "?p x @ r = ?p y @ s" by auto
  with i show "x = y \<and> r = s" by (cases x; cases y) (auto simp: be_bytes_inject split: option.splits)
qed

interpretation type_refs: prefix_code id_code "\<lambda>_. True"
  by unfold_locales (auto simp: id_code_def be_bytes_inject)

definition kind_code :: "TypeKind \<Rightarrow> bytes" where
  "kind_code kind =
     (case kind of
        TK_Unit \<Rightarrow> [0]
      | TK_Bool \<Rightarrow> [1]
      | TK_U128 mn mx \<Rightarrow> 2 # be_bytes 16 mn @ be_bytes 16 mx
      | TK_I128 mn mx \<Rightarrow> 3 # be_bytes 16 mn @ be_bytes 16 mx
      | TK_Bytes mn mx \<Rightarrow> 4 # be_bytes 4 mn @ be_bytes 4 mx
      | TK_Text mn mx \<Rightarrow> 5 # be_bytes 4 mn @ be_bytes 4 mx
      | TK_Enum vs \<Rightarrow> 6 # enum_variants.counted vs
      | TK_Tuple ts \<Rightarrow> 7 # type_refs.counted ts
      | TK_Record fs \<Rightarrow> 8 # fields.counted fs
      | TK_Sum vs \<Rightarrow> 9 # sum_variants.counted vs
      | TK_Vector t mn mx \<Rightarrow> 10 # be_bytes 4 t @ be_bytes 4 mn @ be_bytes 4 mx
      | TK_Map kt vt mn mx \<Rightarrow> 11 # be_bytes 4 kt @ be_bytes 4 vt @ be_bytes 4 mn @ be_bytes 4 mx)"

definition kind_fits :: "TypeKind \<Rightarrow> bool" where
  "kind_fits kind =
     (case kind of
        TK_Enum vs \<Rightarrow> enum_variants.counted_fits vs
      | TK_Tuple ts \<Rightarrow> type_refs.counted_fits ts
      | TK_Record fs \<Rightarrow> fields.counted_fits fs
      | TK_Sum vs \<Rightarrow> sum_variants.counted_fits vs
      | _ \<Rightarrow> True)"

lemmas kind_tags = KIND_UNIT_def KIND_BOOL_def KIND_U128_def KIND_I128_def KIND_BYTES_def KIND_TEXT_def KIND_ENUM_def
  KIND_TUPLE_def KIND_RECORD_def KIND_SUM_def KIND_VECTOR_def KIND_MAP_def

lemma encode_member_Ok:
  "encode_field f out = Inr r \<longleftrightarrow> length (fd_name f) \<le> u16_max \<and> r = out @ field_code f"
  "encode_enum_variant v out = Inr r \<longleftrightarrow> length (ev_name v) \<le> u16_max \<and> r = out @ enum_code v"
  "encode_sum_variant w out = Inr r \<longleftrightarrow> length (sv_name w) \<le> u16_max \<and> r = out @ sum_code w"
  "Inr (out @ be_bytes 4 t) = (Inr r :: EncodeError + bytes) \<longleftrightarrow> True \<and> r = out @ id_code t"
  by (auto simp: encode_field_def encode_enum_variant_def encode_sum_variant_def schema_put_text_Ok field_code_def enum_code_def
      sum_code_def id_code_def split: option.splits)

lemma encode_kind_Ok: "encode_kind kind out = Inr r \<longleftrightarrow> kind_fits kind \<and> r = out @ kind_code kind"
proof (cases kind)
  case (TK_Enum vs)
  then show ?thesis using enum_variants.encode_counted [of encode_enum_variant, OF encode_member_Ok(2)]
    by (simp add: encode_kind_def kind_code_def kind_fits_def kind_tags del: rbind_eq_Ok)
next
  case (TK_Tuple ts)
  then show ?thesis using type_refs.encode_counted [of "\<lambda>child output. Ok (output @ be_bytes 4 child)", OF encode_member_Ok(4)]
    by (simp add: encode_kind_def kind_code_def kind_fits_def kind_tags del: rbind_eq_Ok)
next
  case (TK_Record fs)
  then show ?thesis using fields.encode_counted [of encode_field, OF encode_member_Ok(1)]
    by (simp add: encode_kind_def kind_code_def kind_fits_def kind_tags del: rbind_eq_Ok)
next
  case (TK_Sum vs)
  then show ?thesis using sum_variants.encode_counted [of encode_sum_variant, OF encode_member_Ok(3)]
    by (simp add: encode_kind_def kind_code_def kind_fits_def kind_tags del: rbind_eq_Ok)
qed (auto simp: encode_kind_def kind_code_def kind_fits_def kind_tags)

interpretation kinds: prefix_code kind_code kind_fits
proof
  fix x y r s
  assume f: "kind_fits x" "kind_fits y" and e: "kind_code x @ r = kind_code y @ s"
  show "x = y \<and> r = s"
  proof (cases x)
    case (TK_Enum vs)
    with e obtain ws where y: "y = TK_Enum ws" by (cases y) (simp_all add: kind_code_def)
    with TK_Enum e f enum_variants.counted_inject [of vs ws r s] show ?thesis by (simp add: kind_code_def kind_fits_def)
  next
    case (TK_Tuple ts)
    with e obtain us where y: "y = TK_Tuple us" by (cases y) (simp_all add: kind_code_def)
    with TK_Tuple e f type_refs.counted_inject [of ts us r s] show ?thesis by (simp add: kind_code_def kind_fits_def)
  next
    case (TK_Record fs)
    with e obtain gs where y: "y = TK_Record gs" by (cases y) (simp_all add: kind_code_def)
    with TK_Record e f fields.counted_inject [of fs gs r s] show ?thesis by (simp add: kind_code_def kind_fits_def)
  next
    case (TK_Sum vs)
    with e obtain ws where y: "y = TK_Sum ws" by (cases y) (simp_all add: kind_code_def)
    with TK_Sum e f sum_variants.counted_inject [of vs ws r s] show ?thesis by (simp add: kind_code_def kind_fits_def)
  qed (use e in \<open>cases y; simp add: kind_code_def be_bytes_inject\<close>)+
qed

definition type_code :: "TypeDef \<Rightarrow> bytes" where
  "type_code d = be_bytes 4 (td_id d) @ name_bytes (td_name d) @ kind_code (td_kind d)"

definition type_fits :: "TypeDef \<Rightarrow> bool" where
  "type_fits d \<longleftrightarrow> length (td_name d) \<le> u16_max \<and> kind_fits (td_kind d)"

interpretation type_defs: prefix_code type_code type_fits
proof
  fix x y r s
  assume f: "type_fits x" "type_fits y" and e: "type_code x @ r = type_code y @ s"
  then have i: "td_id x = td_id y" and n: "name_bytes (td_name x) @ kind_code (td_kind x) @ r = name_bytes (td_name y) @ kind_code (td_kind y) @ s"
    by (auto simp: type_code_def be_bytes_inject)
  from name_inject [OF _ _ n] f have "td_name x = td_name y" "kind_code (td_kind x) @ r = kind_code (td_kind y) @ s"
    by (simp_all add: type_fits_def)
  with i f kinds.code_inject [of "td_kind x" "td_kind y" r s] show "x = y \<and> r = s" by (cases x; cases y) (simp add: type_fits_def)
qed

lemma encode_type_Ok: "encode_type d out = Inr r \<longleftrightarrow> type_fits d \<and> r = out @ type_code d"
  by (auto simp: encode_type_def schema_put_text_Ok encode_kind_Ok type_fits_def type_code_def)

definition schema_code :: "Schema \<Rightarrow> bytes" where
  "schema_code s = SCHEMA_MAGIC @ name_bytes (sc_profile s) @ be_bytes 2 (sc_version s) @ be_bytes 4 (sc_root_type s)
     @ type_defs.counted (sc_types s)"

lemma schema_canonical_bytes_Ok:
  "schema_canonical_bytes s = Inr bs \<longleftrightarrow>
     length (sc_profile s) \<le> u16_max \<and> type_defs.counted_fits (sc_types s) \<and> bs = schema_code s"
  unfolding schema_canonical_bytes_def schema_encode_to_def rbind_eq_Ok [of "schema_put_text _ _"] schema_put_text_Ok
    type_defs.encode_counted [of encode_type, OF encode_type_Ok]
  by (auto simp: schema_code_def)

lemma schema_bytes_inject:
  assumes "schema_built s" "schema_built s'" "schema_canonical_bytes s = Inr bs" "schema_canonical_bytes s' = Inr bs"
  shows "s = s'"
proof -
  have f: "length (sc_profile s) \<le> u16_max" "length (sc_profile s') \<le> u16_max"
      "type_defs.counted_fits (sc_types s)" "type_defs.counted_fits (sc_types s')" and e: "schema_code s = schema_code s'"
    using assms(3,4) by (auto simp: schema_canonical_bytes_Ok)
  let ?r = "\<lambda>s. be_bytes 2 (sc_version s) @ be_bytes 4 (sc_root_type s) @ type_defs.counted (sc_types s)"
  have "name_bytes (sc_profile s) @ ?r s = name_bytes (sc_profile s') @ ?r s'" using e by (simp add: schema_code_def)
  from name_inject [OF f(1,2) this]
  have "sc_profile s = sc_profile s'" "sc_version s = sc_version s'" "sc_root_type s = sc_root_type s'"
    and "type_defs.counted (sc_types s) = type_defs.counted (sc_types s')" by (simp_all add: be_bytes_inject)
  moreover from this(4) have "sc_types s = sc_types s'" using type_defs.counted_inject [OF f(3,4), of "[]" "[]"] by simp
  moreover from this have "sc_metrics s = sc_metrics s'" using schema_built_facts(5) assms(1,2) by simp
  ultimately show ?thesis by (cases s; cases s') simp
qed

lemma schema_hash_collision:
  assumes "commitment_hasher H" "schema_built s" "schema_built s'" "schema_hash H s = Inr h" "schema_hash H s' = Inr h"
  shows "s = s' \<or> hash_collision H SCHEMA (schema_code s) (schema_code s')"
proof -
  have b: "schema_canonical_bytes s = Inr (schema_code s)" "schema_canonical_bytes s' = Inr (schema_code s')"
    using assms(4,5) by (auto simp: schema_hash_def schema_canonical_bytes_Ok)
  then have "hash_component H SCHEMA (Inr (schema_code s)) = Inr h" "hash_component H SCHEMA (Inr (schema_code s')) = Inr h"
    using assms(4,5) by (auto simp: schema_hash_def hash_component_def)
  from hash_component_collision [OF assms(1) this] b schema_bytes_inject [OF assms(2,3)] show ?thesis by auto
qed

section \<open>Errors of the construction\<close>

lemma schema_name_Err: "schema_name_try_new bs = Inl e \<Longrightarrow> e = SCE_InvalidName"
  by (auto simp: schema_name_try_new_def split: if_splits)

lemma schema_try_new_Err:
  assumes "schema_try_new profile version root types limits = Inl e"
  shows "e = SCE_EmptySchema \<and> types = []
    \<or> e = SCE_LimitExceeded \<and> (length types > scl_max_types limits \<or> \<not> metrics_fit types)
    \<or> (\<exists>k. e = SCE_DuplicateTypeId k \<and> least_repeated (map td_id types) k)
    \<or> e = SCE_DuplicateTypeName \<and> \<not> distinct (map td_name types)
    \<or> e = SCE_InvalidName \<and> schema_name_try_new profile = Inl SCE_InvalidName
    \<or> e = SCE_UnknownRootType root \<and> root \<notin> td_id ` set types
    \<or> (\<exists>k. e = SCE_RecursiveTypeCycle k \<and> (k, k) \<in> (refers types)\<^sup>+)
    \<or> (\<exists>a r. e = SCE_UnknownTypeReference r \<and> (a, r) \<in> refers types \<and> r \<notin> td_id ` set types)"
proof -
  let ?ts = "sort_key td_id types"
  have fit: "metrics_fit ?ts \<longleftrightarrow> metrics_fit types" using sums_perm [of ?ts types] by (simp add: metrics_fit_def)
  consider "types = []" "e = SCE_EmptySchema" | "length types > scl_max_types limits" "e = SCE_LimitExceeded"
    | "unique_types ?ts = Inl e"
    | "unique_types ?ts = Inr ()" "unique_names td_name SCE_DuplicateTypeName ?ts = Inl e"
    | "compute_metrics ?ts = Inl e"
    | "schema_name_try_new profile = Inl e"
    | m p where "unique_types ?ts = Inr ()" "e = SCE_UnknownRootType root"
        "type_by_id \<lparr>sc_profile = p, sc_version = version, sc_root_type = root, sc_types = ?ts, sc_metrics = m\<rparr> root = None"
    | "unique_types ?ts = Inr ()" "validate_closed_and_acyclic ?ts = Inl e"
    using assms by (auto simp: schema_try_new_def Let_def rbind_eq_Err split: if_splits)
  then show ?thesis
  proof cases
    case 3
    then have "\<not> distinct (map td_id types)" using type_ids.check_sort [of types] by auto
    with 3 type_ids.check_sort_duplicate [of types] show ?thesis by auto
  next
    case 4
    then have "\<not> distinct (map td_name ?ts)" using unique_names_Ok [of td_name SCE_DuplicateTypeName ?ts "()"] by auto
    then show ?thesis using unique_names_Err [OF 4(2)] by (simp add: distinct_map)
  next
    case 5
    then have "\<not> metrics_fit ?ts" using compute_metrics_Ok [of ?ts "schema_metrics ?ts"] by auto
    then show ?thesis using compute_metrics_Err [OF 5] fit by simp
  next
    case 6
    then show ?thesis using schema_name_Err by auto
  next
    case (7 m p)
    then have "distinct (map td_id types)" using type_ids.check_sort [of types] by simp
    from type_ids.sorted_strict [OF this] 7 show ?thesis
      using type_by_id_None [of "\<lparr>sc_profile = p, sc_version = version, sc_root_type = root, sc_types = ?ts, sc_metrics = m\<rparr>" root]
      by simp
  next
    case 8
    then have t: "checked_types types = ?ts" using type_ids.check_sort [of types] checked_types_eq by simp
    from checked.validate_closed_and_acyclic_Err [of types, unfolded checked.visit_error_def, unfolded t, OF 8(2)] show ?thesis
      unfolding refers_perm [of ?ts types, simplified] by auto
  qed simp_all
qed

lemma unique_names_distinct: "distinct (map name xs) \<Longrightarrow> unique_names name e xs = Inr ()"
  by (simp add: unique_names_Ok)

lemma schema_try_new_perm:
  assumes "mset types = mset types'"
  shows "schema_try_new profile version root types limits = schema_try_new profile version root types' limits"
proof (cases "distinct (map td_id types)")
  case True
  then show ?thesis using type_ids.sort_unique [OF assms True] mset_eq_length [OF assms] assms
    by (auto simp: schema_try_new_def)
next
  case False
  have "\<not> distinct (map td_id types')" using False assms by (metis mset_eq_imp_distinct_iff mset_map)
  moreover have "\<exists>e. unique_types (sort_key td_id types) = Inl e"
    using type_ids.check_sort_duplicate [OF False] by blast
  ultimately show ?thesis using type_ids.check_sort_perm [OF assms] mset_eq_length [OF assms] assms
    by (auto simp: schema_try_new_def)
qed

section \<open>Envelopes\<close>

lemma admit_type_Ok:
  assumes "admit_type H schema t v limits = Inr (e, report)" and "repr_valid v"
  shows "schema_validate_value schema t v limits = Inr report"
    and "\<exists>h bs. schema_hash H schema = Inr h \<and> canonical_bytes admitted_envelope_encode_to e = Inr bs
      \<and> decode_envelope bs default_decode_limits = Inr \<lparr>env_type_id = t, env_schema_hash = h, env_value = v\<rparr>"
proof -
  obtain a h where a: "schema_validate_value schema t v limits = Inr report" "admit v = Inr a" "schema_hash H schema = Inr h"
    "admitted_envelope_try_new t h a = Inr e"
    using assms(1) by (auto simp: admit_type_def)
  then show "schema_validate_value schema t v limits = Inr report" by simp
  have av: "admitted_value a = v" "admitted_valid a" using a(2) by (simp_all add: admit_def admit_with_limits_valid)
  let ?L = "\<lparr>max_input_bytes = DEFAULT_MAX_INPUT_BYTES, dl_value = default_value_limits\<rparr>"
  have dl: "default_decode_limits = ?L" by (simp add: default_decode_limits_def)
  have L: "admitted_envelope_try_new_with_limits t h a default_decode_limits = Inr e"
    using a(2,4) by (simp add: admitted_envelope_try_new_def admitted_envelope_try_new_with_limit_def admit_def admit_with_limits_valid dl)
  from admitted_envelope_try_new_valid [OF this av(2)]
  have e: "admitted_envelope_valid e" "admitted_envelope_limits e = default_decode_limits"
    "into_envelope e = \<lparr>env_type_id = t, env_schema_hash = h, env_value = v\<rparr>" using av(1) by simp_all
  have "max_input_bytes (admitted_envelope_limits e) = 67108864" by (simp add: e(2) default_decode_limit_simps)
  then have m: "ae_max_input_bytes e \<le> u64_max" by (simp add: admitted_envelope_limits_def)
  from admitted_envelope_encode [OF e(1) m] e(2,3) obtain bs where
    "canonical_bytes admitted_envelope_encode_to e = Inr bs"
    "envelope_canonical_bytes_with_limits (into_envelope e) default_decode_limits = Inr bs" by auto
  then show "\<exists>h bs. schema_hash H schema = Inr h \<and> canonical_bytes admitted_envelope_encode_to e = Inr bs
      \<and> decode_envelope bs default_decode_limits = Inr \<lparr>env_type_id = t, env_schema_hash = h, env_value = v\<rparr>"
    using a(3) e(3) assms(2) by (auto simp: decode_envelope_iff [OF default_limits_in_range])
qed

section \<open>Properties\<close>

text \<open>A schema with a truth value and a pair of them.\<close>

definition sample_types :: "TypeDef list" where
  "sample_types = [\<lparr>td_id = 2, td_name = [66], td_kind = TK_Tuple [1, 1]\<rparr>, \<lparr>td_id = 1, td_name = [65], td_kind = TK_Bool\<rparr>]"

definition sample_schema :: "u16 \<Rightarrow> Schema" where
  "sample_schema w = \<lparr>sc_profile = [80], sc_version = w, sc_root_type = 2, sc_types = rev sample_types,
     sc_metrics = \<lparr>scm_types = 2, scm_fields = 0, scm_variants = 0\<rparr>\<rparr>"

lemma sample_names: "is_ok (schema_name_try_new [65])" "is_ok (schema_name_try_new [66])" "is_ok (schema_name_try_new [80])"
  by (simp_all add: schema_name_try_new_def SCHEMA_NAME_MAX_BYTES_def is_ascii_alphabetic_def is_ascii_alphanumeric_def)

lemma refers_image: "refers types = (\<Union>d\<in>set types. Pair (td_id d) ` set (references (td_kind d)))"
  by (auto simp: refers_def)

lemma sample_refers: "refers sample_types = {(2, 1)}"
  by (simp add: refers_image sample_types_def references_def)

lemma sample_schema_ok: "schema_ok 2 sample_types default_schema_limits"
proof -
  have "acyclic {(2 :: TypeId, 1)}" by (simp add: acyclic_insert) (simp add: acyclic_def)
  then show ?thesis
    by (simp add: schema_ok_def sample_refers closed_types_def)
      (simp add: sample_types_def default_schema_limits_def metrics_fit_def field_total_def variant_total_def)
qed

lemma sample_schema_new: "schema_try_new [80] w 2 sample_types default_schema_limits = Inr (sample_schema w)"
  using sample_schema_ok sample_names
  by (simp add: schema_try_new_Ok sample_schema_def schema_metrics_def)
    (simp add: sample_types_def field_total_def variant_total_def word_le_nat_alt)

lemma sample_schema_built: "schema_built (sample_schema w)"
proof -
  have "type_def_try_new 1 [65] TK_Bool default_schema_limits = Inr \<lparr>td_id = 1, td_name = [65], td_kind = TK_Bool\<rparr>"
    "type_def_try_new 2 [66] (TK_Tuple [1, 1]) default_schema_limits = Inr \<lparr>td_id = 2, td_name = [66], td_kind = TK_Tuple [1, 1]\<rparr>"
    using sample_names
    by (simp_all add: type_def_try_new_def normalize_kind_def schema_name_Ok_iff default_schema_limits_def)
  then have "\<forall>d\<in>set sample_types. type_built d" unfolding type_built_def sample_types_def by auto
  then show ?thesis using sample_schema_new unfolding schema_built_def by blast
qed

lemma sample_value_typed: "has_type (sample_schema w) 2 (VTuple [VBool True, VBool False])"
proof -
  have "sc_types (sample_schema w) = rev sample_types" by (simp add: sample_schema_def)
  then have d: "\<lparr>td_id = 1, td_name = [65], td_kind = TK_Bool\<rparr> \<in> set (sc_types (sample_schema w))"
    "\<lparr>td_id = 2, td_name = [66], td_kind = TK_Tuple [1, 1]\<rparr> \<in> set (sc_types (sample_schema w))" by (simp_all add: sample_types_def)
  have "has_type (sample_schema w) 1 (VBool b)" for b using T_Bool [OF d(1)] by simp
  then show ?thesis using T_Tuple [OF d(2), of "[1, 1]"] by simp
qed

lemma default_validation_limits_ok: "limits_ok default_validation_limits"
  by (simp add: limits_ok_def default_validation_limits_def)

text \<open>C24: a schema is built exactly from a table of types with distinct identifiers and names within
  the limits, whose references are closed and acyclic and whose root is defined; it stores the table in
  identifier order with its exact metrics, and the order of the declarations is irrelevant, in success
  and in error.\<close>

theorem schema_construction_exact:
  "(schema_try_new profile version root types limits = Ok schema \<longleftrightarrow>
      is_ok (schema_name_try_new profile) \<and> length types \<le> scl_max_types limits
      \<and> distinct (map td_id types) \<and> distinct (map td_name types) \<and> metrics_fit types
      \<and> root \<in> td_id ` set types \<and> closed_types types \<and> acyclic (refers types)
      \<and> schema = \<lparr>sc_profile = profile, sc_version = version, sc_root_type = root,
                   sc_types = sort_key td_id types, sc_metrics = schema_metrics types\<rparr>)
   \<and> (mset types' = mset types \<longrightarrow>
      schema_try_new profile version root types' limits = schema_try_new profile version root types limits)"
proof (intro conjI impI)
  show "mset types' = mset types \<Longrightarrow>
      schema_try_new profile version root types' limits = schema_try_new profile version root types limits"
    by (rule schema_try_new_perm)
qed (simp only: schema_try_new_Ok schema_ok_def conj_assoc)

theorem schema_construction_exact_witness:
  "schema_try_new [80] 1 2 (rev sample_types) default_schema_limits = Ok (sample_schema 1)"
  using schema_construction_exact [of "[80]" 1 2 sample_types default_schema_limits "sample_schema 1" "rev sample_types"]
    sample_schema_new by simp

text \<open>A table of types that is refused is refused for a reason that holds: the reported cycle is
  a cycle, the reported reference is undefined, the reported identifier is the least repeated one; the
  traversal never indexes outside the table.\<close>

theorem schema_errors_exact:
  assumes "schema_try_new profile version root types limits = Err e"
  shows "e = SCE_EmptySchema \<and> types = []
    \<or> e = SCE_LimitExceeded \<and> (length types > scl_max_types limits \<or> \<not> metrics_fit types)
    \<or> (\<exists>k. e = SCE_DuplicateTypeId k \<and> least_repeated (map td_id types) k)
    \<or> e = SCE_DuplicateTypeName \<and> \<not> distinct (map td_name types)
    \<or> e = SCE_InvalidName \<and> schema_name_try_new profile = Err SCE_InvalidName
    \<or> e = SCE_UnknownRootType root \<and> root \<notin> td_id ` set types
    \<or> (\<exists>k. e = SCE_RecursiveTypeCycle k \<and> (k, k) \<in> (refers types)\<^sup>+)
    \<or> (\<exists>a r. e = SCE_UnknownTypeReference r \<and> (a, r) \<in> refers types \<and> r \<notin> td_id ` set types)"
  by (rule schema_try_new_Err [OF assms])

theorem schema_errors_exact_witness:
  "schema_try_new [80] 1 7 [\<lparr>td_id = 7, td_name = [65], td_kind = TK_Tuple [7]\<rparr>] default_schema_limits = Err (SCE_RecursiveTypeCycle 7)"
proof -
  let ?t = "[\<lparr>td_id = 7, td_name = [65], td_kind = TK_Tuple [7]\<rparr>] :: TypeDef list"
  have r: "refers ?t = {(7, 7)}" by (simp add: refers_image references_def)
  then have "\<not> acyclic (refers ?t)" by (auto simp: acyclic_def)
  then have "schema_try_new [80] 1 7 ?t default_schema_limits \<noteq> Inr s" for s by (simp add: schema_try_new_Ok schema_ok_def)
  then obtain e where e: "schema_try_new [80] 1 7 ?t default_schema_limits = Inl e" by (metis sum.exhaust)
  have "\<not> least_repeated [7 :: TypeId] k" for k by (auto simp: least_repeated_def repeated_def)
  moreover have "(k, k) \<in> {(7 :: TypeId, 7)}\<^sup>+ \<Longrightarrow> k = 7" for k by (metis Range.intros Range_insert Range_empty insertE emptyE trancl_range)
  ultimately have "e = SCE_RecursiveTypeCycle 7"
    using schema_errors_exact [OF e] sample_names(3)
    by (auto simp: r metrics_fit_def field_total_def variant_total_def default_schema_limits_def)
  with e show ?thesis by simp
qed

text \<open>C26: validation accepts exactly the values of the type whose node count and height are within the
  budget, and reports both; since the references are acyclic, no value of a type is higher than the number of
  types.\<close>

theorem validation_accepts_exactly_typed:
  assumes "schema_built schema" and "vl_max_depth limits < u16_max" and "vl_max_nodes limits \<le> u64_max"
  shows "(schema_validate_value schema t v limits = Ok report \<longleftrightarrow>
      has_type schema t v \<and> vheight v \<le> vl_max_depth limits \<and> vnodes v \<le> vl_max_nodes limits
      \<and> report = \<lparr>vr_nodes = vnodes v, vr_maximum_depth = vheight v\<rparr>)
    \<and> (has_type schema t v \<longrightarrow> vheight v < length (sc_types schema))"
  using validate_value_iff [OF assms(1), of limits t v report] typed_height [OF schema_built_facts(3) [OF assms(1)]] assms(2,3)
  by (auto simp: limits_ok_def)

theorem validation_accepts_exactly_typed_witness:
  "schema_validate_value (sample_schema 1) 2 (VTuple [VBool True, VBool False]) default_validation_limits =
     Ok \<lparr>vr_nodes = 3, vr_maximum_depth = 1\<rparr>"
  using validation_accepts_exactly_typed [OF sample_schema_built [of 1], of default_validation_limits 2 "VTuple [VBool True, VBool False]"
      "\<lparr>vr_nodes = 3, vr_maximum_depth = 1\<rparr>"] sample_value_typed
  by (simp add: default_validation_limits_def)

text \<open>C27: two schemas with the same hash are the same schema, or their two encodings collide.\<close>

theorem schema_hash_binds:
  assumes "commitment_hasher H" and "schema_built s" and "schema_built s'"
    and "schema_hash H s = Ok h" and "schema_hash H s' = Ok h"
  shows "s = s' \<or> hash_collision H SCHEMA (schema_code s) (schema_code s')"
  using schema_hash_collision assms .

lemma sample_schema_hash: "schema_hash sample_hasher (sample_schema w) = Inr 0"
proof -
  have "type_defs.counted_fits (rev sample_types)"
    by (simp add: sample_types_def type_defs.counted_fits_def type_fits_def kind_fits_def type_refs.counted_fits_def)
  then have b: "schema_canonical_bytes (sample_schema w) = Inr (schema_code (sample_schema w))"
    by (simp add: schema_canonical_bytes_Ok sample_schema_def)
  have "length (schema_code (sample_schema w)) \<le> u64_max"
    by (simp add: schema_code_def sample_schema_def sample_types_def type_defs.counted_def type_code_def kind_code_def
        type_refs.counted_def id_code_def name_bytes_def SCHEMA_MAGIC_def ascii_bytes_def)
  then have "hash_component sample_hasher SCHEMA (Inr (schema_code (sample_schema w))) = Inr 0"
    by (intro sample_component) (simp add: SCHEMA_def registered_def ascii_bytes_def)
  then show ?thesis using b by (simp add: schema_hash_def hash_component_def)
qed

theorem schema_hash_binds_witness:
  "hash_collision sample_hasher SCHEMA (schema_code (sample_schema 1)) (schema_code (sample_schema 2))"
  using schema_hash_binds [OF _ sample_schema_built sample_schema_built sample_schema_hash [of 1] sample_schema_hash [of 2]]
    default_hasher.commitment_hasher_axioms
  by (simp add: sample_hasher_def) (simp add: sample_schema_def)

text \<open>C28: an envelope admitted for a schema carries the root type, the hash of the schema and a value of that
  type; it always encodes, and its bytes decode to exactly that triple.\<close>

theorem schema_envelope_binds:
  assumes "schema_built schema" and "limits_ok limits" and "repr_valid v"
    and "schema_envelope_try_new H schema v limits = Ok e"
  shows "has_type schema (sc_root_type schema) v
    \<and> (\<exists>h bs. schema_hash H schema = Ok h \<and> schema_envelope_canonical_bytes e = Ok bs
        \<and> decode_envelope bs default_decode_limits =
            Ok \<lparr>env_type_id = sc_root_type schema, env_schema_hash = h, env_value = v\<rparr>)"
proof -
  obtain env report where e: "admit_type H schema (sc_root_type schema) v limits = Inr (env, report)"
    "e = \<lparr>sae_envelope = env, sae_validation = report\<rparr>"
    using assms(4) by (auto simp: schema_envelope_try_new_def)
  from admit_type_Ok [OF e(1) assms(3)] validate_value_iff [OF assms(1,2)] show ?thesis
    by (auto simp: schema_envelope_canonical_bytes_def schema_envelope_encode_to_def canonical_bytes_def e(2))
qed

theorem schema_envelope_binds_witness:
  "\<exists>e bs. schema_envelope_try_new sample_hasher (sample_schema 1) (VTuple [VBool True, VBool False]) default_validation_limits = Ok e
     \<and> schema_envelope_canonical_bytes e = Ok bs
     \<and> decode_envelope bs default_decode_limits =
         Ok \<lparr>env_type_id = 2, env_schema_hash = 0, env_value = VTuple [VBool True, VBool False]\<rparr>"
proof -
  let ?v = "VTuple [VBool True, VBool False]"
  let ?m = "\<lparr>m_nodes = 3, m_payload_bytes = 0, m_depth = 1\<rparr>"
  let ?a = "\<lparr>admitted_value = ?v, admitted_metrics = ?m, admitted_limits = default_value_limits\<rparr>"
  have "validate_limits ?v default_value_limits = Ok ?m"
    using default_value_limits_in_range by (simp add: validate_limits_Ok default_limit_simps)
  then have a: "admit ?v = Ok ?a" by (simp add: admit_def admit_with_limits_def)
  have r: "schema_validate_value (sample_schema 1) 2 ?v default_validation_limits = Ok \<lparr>vr_nodes = 3, vr_maximum_depth = 1\<rparr>"
    using validate_value_iff [OF sample_schema_built default_validation_limits_ok] sample_value_typed
    by (simp add: default_validation_limits_def)
  have "encoded_length ?v = Ok 7" by (simp add: encoded_length_eq)
  then obtain env where "admitted_envelope_try_new 2 0 ?a = Ok env"
    by (simp add: admitted_envelope_try_new_def admitted_envelope_try_new_with_limit_def admitted_envelope_try_new_with_limits_def
        DEFAULT_MAX_INPUT_BYTES_def ENVELOPE_OVERHEAD_BYTES_def try_from_def checked_add_def
        del: encoded_length.simps)
  with a r sample_schema_hash [of 1] obtain e where
    e: "schema_envelope_try_new sample_hasher (sample_schema 1) ?v default_validation_limits = Ok e"
    by (simp add: schema_envelope_try_new_def admit_type_def sample_schema_def)
  from schema_envelope_binds [OF sample_schema_built default_validation_limits_ok _ e] sample_schema_hash [of 1] e show ?thesis
    by (simp add: sample_schema_def)
qed

end
