(* ===== verification/Zeno_Transcript_Laws.thy ===== *)
theory Zeno_Transcript_Laws
  imports Zeno_Policy_Laws Zeno_Programs_Laws
begin

text \<open>
  Laws of transcripts (\<^verbatim>\<open>zeno-fcis-shell/src/effects/record.rs\<close>): the chain of digests binds every entry,
  replay accepts exactly the runs of the program, and what a stack records is such a run.
\<close>

section \<open>The chain\<close>

fun chained :: "hasher \<Rightarrow> hash32 \<Rightarrow> Link list \<Rightarrow> bool" where
  "chained H p [] = True"
| "chained H p (l # ls) \<longleftrightarrow> lk_previous l = p \<and> lk_digest l = link_digest H p (lk_entry l) \<and> chained H (lk_digest l) ls"

definition chain_tip :: "hash32 \<Rightarrow> Link list \<Rightarrow> hash32" where
  "chain_tip p ls = (if ls = [] then p else lk_digest (last ls))"

lemma chain_tip_simps [simp]: "chain_tip p [] = p" "chain_tip p (l # ls) = chain_tip (lk_digest l) ls"
  by (simp_all add: chain_tip_def)

lemma chain_tip_snoc [simp]: "chain_tip p (ls @ [l]) = lk_digest l"
  by (simp add: chain_tip_def)

lemma verify_links_iff: "verify_links H p i ls = Inr u \<longleftrightarrow> chained H p ls"
  by (induction ls arbitrary: p i) auto

lemma transcript_verify_iff: "transcript_verify H t = Inr u \<longleftrightarrow> chained H (manifest_digest H (tr_manifest t)) (tr_links t)"
  by (simp add: transcript_verify_def verify_links_iff)

lemma transcript_tip_chain: "transcript_tip H t = chain_tip (manifest_digest H (tr_manifest t)) (tr_links t)"
  by (simp add: transcript_tip_def chain_tip_def)

lemma chained_snoc:
  "chained H p (ls @ [l]) \<longleftrightarrow> chained H p ls \<and> lk_previous l = chain_tip p ls \<and> lk_digest l = link_digest H (chain_tip p ls) (lk_entry l)"
  by (induction ls arbitrary: p) auto

text \<open>The byte strings that are hashed for the links.\<close>

definition link_preimage :: "Link \<Rightarrow> bytes" where
  "link_preimage l = codec_hash (lk_previous l) @ entry_bytes (lk_entry l)"

definition transcript_preimages :: "Transcript \<Rightarrow> bytes set" where
  "transcript_preimages t = insert (manifest_bytes (tr_manifest t)) (link_preimage ` set (tr_links t))"

lemma codec_hash_append_eq: "codec_hash h @ xs = codec_hash h' @ ys \<longleftrightarrow> h = h' \<and> xs = ys"
  by (simp add: codec_hash_def be_bytes_inject)

text \<open>No string of the one set collides with one of the other.\<close>

definition collision_free :: "hasher \<Rightarrow> bytes set \<Rightarrow> bytes set \<Rightarrow> bool" where
  "collision_free H A B \<longleftrightarrow> (\<forall>x\<in>A. \<forall>y\<in>B. h_hash H x = h_hash H y \<longrightarrow> x = y)"

lemma collision_free_mono: "collision_free H A B \<Longrightarrow> A' \<subseteq> A \<Longrightarrow> B' \<subseteq> B \<Longrightarrow> collision_free H A' B'"
  by (auto simp: collision_free_def)

lemma collision_freeD: "collision_free H A B \<Longrightarrow> x \<in> A \<Longrightarrow> y \<in> B \<Longrightarrow> h_hash H x = h_hash H y \<Longrightarrow> x = y"
  by (simp add: collision_free_def)

lemma chain_binds:
  assumes "length ls = length ls'" "chained H p ls" "chained H p' ls'" "chain_tip p ls = chain_tip p' ls'"
    and "collision_free H (link_preimage ` set ls) (link_preimage ` set ls')"
  shows "p = p' \<and> map (entry_bytes \<circ> lk_entry) ls = map (entry_bytes \<circ> lk_entry) ls'"
  using assms
proof (induction ls ls' arbitrary: p p' rule: list_induct2)
  case (Cons l ls l' ls')
  have "collision_free H (link_preimage ` set ls) (link_preimage ` set ls')"
    using Cons.prems(4) by (rule collision_free_mono) auto
  moreover have "chained H (lk_digest l) ls" "chained H (lk_digest l') ls'" "chain_tip (lk_digest l) ls = chain_tip (lk_digest l') ls'"
    using Cons.prems(1-3) by auto
  ultimately have tail: "lk_digest l = lk_digest l' \<and> map (entry_bytes \<circ> lk_entry) ls = map (entry_bytes \<circ> lk_entry) ls'"
    by (intro Cons.IH)
  have "h_hash H (link_preimage l) = h_hash H (link_preimage l')"
    using tail Cons.prems(1,2) by (simp add: link_digest_def link_preimage_def)
  then have "link_preimage l = link_preimage l'" by (rule collision_freeD [OF Cons.prems(4), rotated 2]) simp_all
  with Cons.prems(1,2) tail show ?case by (auto simp: link_preimage_def codec_hash_append_eq o_def)
qed simp

lemma tip_binds:
  assumes "transcript_verify H t = Inr ()" "transcript_verify H t' = Inr ()"
    and "length (tr_links t) = length (tr_links t')" "transcript_tip H t = transcript_tip H t'"
    and "collision_free H (transcript_preimages t) (transcript_preimages t')"
  shows "manifest_bytes (tr_manifest t) = manifest_bytes (tr_manifest t')
    \<and> map (entry_bytes \<circ> lk_entry) (tr_links t) = map (entry_bytes \<circ> lk_entry) (tr_links t')"
proof -
  have "collision_free H (link_preimage ` set (tr_links t)) (link_preimage ` set (tr_links t'))"
    using assms(5) by (rule collision_free_mono) (auto simp: transcript_preimages_def)
  from chain_binds [OF assms(3) assms(1) [unfolded transcript_verify_iff] assms(2) [unfolded transcript_verify_iff]
      assms(4) [unfolded transcript_tip_chain] this]
  have m: "manifest_digest H (tr_manifest t) = manifest_digest H (tr_manifest t')"
    and e: "map (entry_bytes \<circ> lk_entry) (tr_links t) = map (entry_bytes \<circ> lk_entry) (tr_links t')" by blast+
  have "manifest_bytes (tr_manifest t) = manifest_bytes (tr_manifest t')"
    by (rule collision_freeD [OF assms(5)]) (use m in \<open>simp_all add: manifest_digest_def transcript_preimages_def\<close>)
  with e show ?thesis by blast
qed

text \<open>The longer of two chains with one tip ends in the entries of the shorter one, whose manifest stands for a link.\<close>

definition tail_of :: "Transcript \<Rightarrow> Transcript \<Rightarrow> bool" where
  "tail_of t t' \<longleftrightarrow> (\<exists>before l after. tr_links t' = before @ l # after \<and> manifest_bytes (tr_manifest t) = link_preimage l
     \<and> map (entry_bytes \<circ> lk_entry) (tr_links t) = map (entry_bytes \<circ> lk_entry) after)"

lemma chained_append: "chained H p (xs @ ys) \<longleftrightarrow> chained H p xs \<and> chained H (chain_tip p xs) ys"
  by (induction xs arbitrary: p) auto

lemma chain_tip_append: "chain_tip p (xs @ ys) = chain_tip (chain_tip p xs) ys"
  by (induction xs arbitrary: p) auto

lemma chained_digests: "chained H p ls \<Longrightarrow> l \<in> set ls \<Longrightarrow> lk_digest l = h_hash H (link_preimage l)"
  by (induction ls arbitrary: p) (auto simp: link_digest_def link_preimage_def)

lemma collision_free_sym: "collision_free H A B \<Longrightarrow> collision_free H B A"
  unfolding collision_free_def by metis

lemma tip_binds_tail:
  assumes "transcript_verify H t = Inr ()" "transcript_verify H t' = Inr ()" "transcript_tip H t = transcript_tip H t'"
    and "collision_free H (transcript_preimages t) (transcript_preimages t')" "length (tr_links t) < length (tr_links t')"
  shows "tail_of t t'"
proof -
  let ?n = "length (tr_links t') - length (tr_links t)"
  define xs ys where "xs = butlast (take ?n (tr_links t'))" and "ys = drop ?n (tr_links t')"
  define l where "l = last (take ?n (tr_links t'))"
  have len: "length (tr_links t) = length ys" using assms(5) by (simp add: ys_def)
  have split: "tr_links t' = (xs @ [l]) @ ys"
  proof -
    have "take ?n (tr_links t') \<noteq> []" using assms(5) by (cases "tr_links t'") auto
    then have "xs @ [l] = take ?n (tr_links t')" by (simp add: xs_def l_def)
    then show ?thesis by (simp add: ys_def)
  qed
  let ?p = "manifest_digest H (tr_manifest t)"
  have v: "chained H ?p (tr_links t)" and v': "chained H (manifest_digest H (tr_manifest t')) (tr_links t')"
    using assms(1,2) by (simp_all add: transcript_verify_iff)
  from v' have "chained H (chain_tip (manifest_digest H (tr_manifest t')) (xs @ [l])) ys" unfolding split chained_append by blast
  then have ys: "chained H (lk_digest l) ys" by (simp only: chain_tip_snoc)
  have "chain_tip ?p (tr_links t) = chain_tip (lk_digest l) ys"
    using assms(3) unfolding transcript_tip_chain split chain_tip_append [of _ "xs @ [l]"] by simp
  moreover have "collision_free H (link_preimage ` set (tr_links t)) (link_preimage ` set ys)"
    using assms(4) by (rule collision_free_mono) (auto simp: transcript_preimages_def split)
  ultimately have b: "?p = lk_digest l" "map (entry_bytes \<circ> lk_entry) (tr_links t) = map (entry_bytes \<circ> lk_entry) ys"
    using chain_binds [OF len v ys] by blast+
  have "h_hash H (manifest_bytes (tr_manifest t)) = h_hash H (link_preimage l)"
    using b(1) chained_digests [OF v', of l] by (simp add: split manifest_digest_def)
  then have "manifest_bytes (tr_manifest t) = link_preimage l"
    by (rule collision_freeD [OF assms(4), rotated 2]) (simp_all add: transcript_preimages_def split)
  with b(2) split show ?thesis by (auto simp: tail_of_def)
qed

section \<open>Replay\<close>

text \<open>The entries of one run of a program, as a stack with these monitors records them.\<close>

definition request_entries :: "Monitor list \<Rightarrow> Binding \<Rightarrow> Operation \<Rightarrow> Check \<Rightarrow> Entry list" where
  "request_entries ms b operation check = EN_Request b operation # (if ms = [] then [] else [EN_Policy b check])"

inductive recording ::
    "('k, 't) Program \<Rightarrow> ('t Outcome \<Rightarrow> bytes) \<Rightarrow> Monitor list \<Rightarrow> ('k, 't) Driver \<Rightarrow> Entry list \<Rightarrow> Ended \<Rightarrow> bool"
  for P done_bytes where
  recording_done: "driver_outcome d = Some outcome \<Longrightarrow>
     recording P done_bytes ms d [EN_Done (done_bytes outcome)] (ED_Done (done_bytes outcome))"
| recording_crash: "driver_request d = Some (b, operation) \<Longrightarrow> policy_admit ms operation = (ms', check) \<Longrightarrow>
     check_rejection check = None \<Longrightarrow> recording P done_bytes ms d (request_entries ms b operation check @ [EN_Crash b]) ED_Crashed"
| recording_answer: "driver_request d = Some (b, operation) \<Longrightarrow> policy_admit ms operation = (ms', check) \<Longrightarrow>
     (\<And>code. check_rejection check = Some code \<Longrightarrow> response = R_Send (S_Refused code)) \<Longrightarrow>
     driver_reply P d \<lparr>ry_binding = b, ry_response = response\<rparr> = (Ok (), d') \<Longrightarrow> recording P done_bytes ms' d' es ended \<Longrightarrow>
     recording P done_bytes ms d (request_entries ms b operation check @ EN_Response b response # es) ended"

text \<open>The lookups of a round, over the entries that are left.\<close>

abbreviation entries_from :: "Link list \<Rightarrow> nat \<Rightarrow> Entry list" where
  "entries_from links at \<equiv> map lk_entry (drop at links)"

lemma entries_cases:
  obtains (ended) "slice_get links at = None" "entries_from links at = []"
  | (more) l where "slice_get links at = Some l" "entries_from links at = lk_entry l # entries_from links (at + 1)"
      "at + 1 < length links \<longleftrightarrow> entries_from links (at + 1) \<noteq> []"
proof (cases "at < length links")
  case True
  then have "drop at links = links ! at # drop (at + 1) links" by (simp add: Cons_nth_drop_Suc)
  with True show thesis by (intro more [of "links ! at"]) (auto simp: slice_get_def)
qed (use ended in \<open>auto simp: slice_get_def\<close>)

lemma replay_expect_iff:
  "replay_expect links at e = Inr n \<longleftrightarrow> n = at + 1 \<and> entries_from links at = e # entries_from links (at + 1)"
  by (cases rule: entries_cases [of links at]) (auto simp: replay_expect_def)

lemma replay_done_iff: "replay_done links at out = Inr e \<longleftrightarrow> e = ED_Done out \<and> entries_from links at = [EN_Done out]"
  by (cases rule: entries_cases [of links at]) (auto simp: replay_done_def)

lemma replay_answer_crash_iff:
  "replay_answer P links at b check d = Inr None \<longleftrightarrow> check_rejection check = None \<and> entries_from links at = [EN_Crash b]"
proof (cases rule: entries_cases [of links at])
  case (more l)
  then show ?thesis
    by (cases "lk_entry l") (auto simp: replay_answer_def split: if_splits sum.splits prod.splits)
qed (simp add: replay_answer_def)

lemma replay_answer_iff:
  "replay_answer P links at b check d = Inr (Some d') \<longleftrightarrow>
     (\<exists>response. entries_from links at = EN_Response b response # entries_from links (at + 1)
        \<and> (\<forall>code. check_rejection check = Some code \<longrightarrow> response = R_Send (S_Refused code))
        \<and> driver_reply P d \<lparr>ry_binding = b, ry_response = response\<rparr> = (Ok (), d'))"
proof (cases rule: entries_cases [of links at])
  case (more l)
  then show ?thesis
    by (cases "lk_entry l") (auto simp: replay_answer_def split: if_splits sum.splits prod.splits option.splits)
qed (simp add: replay_answer_def)


lemma driver_phases:
  "driver_outcome d = Some outcome \<Longrightarrow> driver_failure d = None"
  "driver_request d = Some request \<Longrightarrow> driver_failure d = None"
  "driver_request d = Some request \<Longrightarrow> driver_outcome d = None"
  by (auto simp: driver_outcome_def driver_failure_def driver_request_def split: DriverState.splits)

text \<open>One round of the loop: a request, the verdicts when there are monitors, and what follows.\<close>

definition replay_policy :: "Link list \<Rightarrow> Monitor list \<Rightarrow> Binding \<Rightarrow> Check \<Rightarrow> nat \<Rightarrow> ReplayError + nat" where
  "replay_policy links ms b check at = (if ms = [] then Ok at else replay_expect links at (EN_Policy b check))"

lemma entries_from_next: "entries_from links at = e # es \<Longrightarrow> entries_from links (at + 1) = es"
  by (cases rule: entries_cases [of links at]) auto

lemma entries_from_append: "entries_from links at = xs @ es \<Longrightarrow> entries_from links (at + length xs) = es"
proof (induction xs arbitrary: at)
  case (Cons x xs)
  from Cons.IH [of "at + 1"] entries_from_next [where at = at] Cons.prems show ?case by simp
qed simp

lemma round_iff:
  "replay_expect links at (EN_Request b operation) = Inr at' \<and> replay_policy links ms b check at' = Inr at'' \<longleftrightarrow>
     at' = at + 1 \<and> at'' = at + length (request_entries ms b operation check)
     \<and> entries_from links at = request_entries ms b operation check @ entries_from links at''"
  using entries_from_next [where links = links and at = at and e = "EN_Request b operation"]
  by (auto simp: replay_policy_def replay_expect_iff request_entries_def)

lemma replay_loop_request:
  assumes "driver_request d = Some (b, operation)" "policy_admit ms operation = (ms', check)"
  shows "replay_loop P done_bytes links at ms d = Inr e \<longleftrightarrow>
    (\<exists>at' at'' answer. replay_expect links at (EN_Request b operation) = Inr at' \<and> replay_policy links ms b check at' = Inr at''
      \<and> replay_answer P links at'' b check d = Inr answer
      \<and> (case answer of None \<Rightarrow> e = ED_Crashed | Some d' \<Rightarrow> replay_loop P done_bytes links (at'' + 1) ms' d' = Inr e))"
  using assms driver_phases(2,3) [OF assms(1)]
  by (subst replay_loop.simps) (auto simp: replay_policy_def split: option.splits)

lemma entries_length: "entries_from links at = xs @ entries_from links at' \<Longrightarrow> at' = at + length xs \<Longrightarrow>
    entries_from links at = xs @ es \<longleftrightarrow> entries_from links at' = es"
  by auto

lemma recording_replays:
  "recording P done_bytes ms d es e \<Longrightarrow> entries_from links at = es \<Longrightarrow> replay_loop P done_bytes links at ms d = Inr e"
proof (induction arbitrary: at rule: recording.induct)
  case (recording_done d outcome ms)
  then show ?case using driver_phases(1) [OF recording_done.hyps]
    by (subst replay_loop.simps) (simp add: replay_done_iff)
next
  case (recording_crash d b operation ms ms' check)
  let ?n = "at + length (request_entries ms b operation check)"
  have "entries_from links ?n = [EN_Crash b]"
    using recording_crash.prems by (metis append_eq_conv_conj drop_drop drop_map add.commute)
  with recording_crash.prems have r: "entries_from links at = request_entries ms b operation check @ entries_from links ?n" by simp
  from round_iff [THEN iffD2, of "at + 1" at ?n ms b operation check links] r \<open>entries_from links ?n = [EN_Crash b]\<close> recording_crash.hyps(3)
  show ?case unfolding replay_loop_request [OF recording_crash.hyps(1,2)]
    by (intro exI [of _ "at + 1"] exI [of _ ?n] exI [of _ None]) (simp add: replay_answer_crash_iff)
next
  case (recording_answer d b operation ms ms' check response d' es ended)
  let ?n = "at + length (request_entries ms b operation check)"
  have n: "entries_from links ?n = EN_Response b response # es"
    using recording_answer.prems by (metis append_eq_conv_conj drop_drop drop_map add.commute)
  then have es: "entries_from links (?n + 1) = es" by (metis Suc_eq_plus1 drop_Suc drop_map list.sel(3) tl_drop)
  from recording_answer.prems n have r: "entries_from links at = request_entries ms b operation check @ entries_from links ?n" by simp
  from round_iff [THEN iffD2, of "at + 1" at ?n ms b operation check links] r n es recording_answer.hyps recording_answer.IH [OF es]
  show ?case unfolding replay_loop_request [OF recording_answer.hyps(1,2)]
    by (intro exI [of _ "at + 1"] exI [of _ ?n] exI [of _ "Some d'"]) (simp add: replay_answer_iff)
qed

lemma replay_recorded:
  "replay_loop P done_bytes links at ms d = Inr e \<Longrightarrow> recording P done_bytes ms d (entries_from links at) e"
proof (induction "length links - at" arbitrary: at ms d rule: less_induct)
  case less
  show ?case
  proof (cases "driver_request d")
    case None
    with less.prems obtain outcome where o: "driver_outcome d = Some outcome" "replay_done links at (done_bytes outcome) = Inr e"
      by (subst (asm) replay_loop.simps) (auto split: option.splits)
    then show ?thesis by (auto simp: replay_done_iff intro: recording_done)
  next
    case (Some request)
    then obtain b operation where q: "driver_request d = Some (b, operation)" by (cases request) auto
    obtain ms' check where a: "policy_admit ms operation = (ms', check)" by fastforce
    from less.prems [unfolded replay_loop_request [OF q a]] obtain at' at'' answer where
      r: "replay_expect links at (EN_Request b operation) = Inr at' \<and> replay_policy links ms b check at' = Inr at''"
      and ans: "replay_answer P links at'' b check d = Inr answer"
        "case answer of None \<Rightarrow> e = ED_Crashed | Some d' \<Rightarrow> replay_loop P done_bytes links (at'' + 1) ms' d' = Inr e" by blast
    from r have n: "at'' = at + length (request_entries ms b operation check)"
      "entries_from links at = request_entries ms b operation check @ entries_from links at''"
      unfolding round_iff by blast+
    show ?thesis
    proof (cases answer)
      case None
      with ans n(2) recording_crash [OF q a] show ?thesis by (auto simp: replay_answer_crash_iff)
    next
      case (Some d')
      with ans(1) obtain response where
        s: "entries_from links at'' = EN_Response b response # entries_from links (at'' + 1)"
          "\<forall>code. check_rejection check = Some code \<longrightarrow> response = R_Send (S_Refused code)"
          "driver_reply P d \<lparr>ry_binding = b, ry_response = response\<rparr> = (Ok (), d')" by (auto simp: replay_answer_iff)
      from s(1) have "at'' < length links" by (cases "at'' < length links") auto
      with n(1) have "length links - (at'' + 1) < length links - at" by simp
      from less.hyps [OF this] ans(2) Some have "recording P done_bytes ms' d' (entries_from links (at'' + 1)) e" by simp
      from recording_answer [OF q a _ s(3) this] s(2) n(2) s(1) show ?thesis by simp
    qed
  qed
qed

text \<open>The conditions on the manifest.\<close>

definition manifest_matches :: "hasher \<Rightarrow> (string \<Rightarrow> bytes) \<Rightarrow> bytes \<Rightarrow> nat \<Rightarrow> Manifest \<Rightarrow> bool" where
  "manifest_matches H file start monitors m \<longleftrightarrow>
     provenance_complete m \<and> mf_registry m = registry_identity H REGISTRY \<and> mf_program m = program_source H file
     \<and> mf_start m = start \<and> length (filter (\<lambda>name. name = ''policy'') (mf_stack m)) = monitors"

lemma record_replay_iff:
  "record_replay H file P t start epoch first done_bytes = Inr e \<longleftrightarrow>
     transcript_verify H t = Inr () \<and> manifest_matches H file start (length (mf_policies (tr_manifest t))) (tr_manifest t)
     \<and> (\<exists>d. driver_start P REGISTRY epoch first = Inr d
          \<and> recording P done_bytes (mf_policies (tr_manifest t)) d (map lk_entry (tr_links t)) e)"
proof -
  have "replay_loop P done_bytes (tr_links t) 0 ms d = Inr e \<longleftrightarrow> recording P done_bytes ms d (map lk_entry (tr_links t)) e" for ms d
    using replay_recorded [of P done_bytes "tr_links t" 0 ms d e] recording_replays [where links = "tr_links t" and at = 0, OF _ refl] by auto
  then show ?thesis by (auto simp: record_replay_def Let_def manifest_matches_def)
qed

section \<open>Recording\<close>




lemma append_manifest [simp]: "tr_manifest (transcript_append H t e) = tr_manifest t"
  by (simp add: transcript_append_def Let_def)

lemma append_entries [simp]: "map lk_entry (tr_links (transcript_append H t e)) = map lk_entry (tr_links t) @ [e]"
  by (simp add: transcript_append_def Let_def)

lemma append_nonempty [simp]: "tr_links (transcript_append H t e) \<noteq> []"
  by (simp add: transcript_append_def Let_def)

lemma append_verified: "transcript_verify H t = Inr () \<Longrightarrow> transcript_verify H (transcript_append H t e) = Inr ()"
  by (simp add: transcript_verify_iff chained_snoc transcript_append_def Let_def transcript_tip_chain)







lemma stack_transcripts_install [simp]: "stack_transcripts (stack_install ms layers) = stack_transcripts layers"
  by (induction ms layers rule: stack_install.induct) auto








lemma manifest_matches_policies [simp]: "manifest_matches H file start n (m\<lparr>mf_policies := ms\<rparr>) = manifest_matches H file start n m"
  by (simp add: manifest_matches_def provenance_complete_def)

lemma transcript_new_verified: "transcript_verify H (transcript_new m) = Inr ()"
  by (simp add: transcript_verify_def transcript_new_def)



section \<open>Properties\<close>

text \<open>C18: the tip of a transcript binds it: unless the hash collides on two of the strings that were hashed for them, two
  transcripts that verify, with the same tip and the same number of links, have the same manifest bytes and the same bytes of every
  entry in order.  With different numbers of links the same tip is possible only in one way, which the format does not rule
  out because manifests and links are hashed without a tag of their own: the manifest bytes of the shorter
  one are the string hashed for a link of the longer one, after which both have the same entries.\<close>

theorem transcript_tip_binds:
  assumes "transcript_verify H t = Ok ()" "transcript_verify H t' = Ok ()" "transcript_tip H t = transcript_tip H t'"
    and "collision_free H (transcript_preimages t) (transcript_preimages t')"
  shows "if length (tr_links t) = length (tr_links t')
    then manifest_bytes (tr_manifest t) = manifest_bytes (tr_manifest t')
      \<and> map (entry_bytes \<circ> lk_entry) (tr_links t) = map (entry_bytes \<circ> lk_entry) (tr_links t')
    else tail_of t t' \<or> tail_of t' t"
proof (cases "length (tr_links t) = length (tr_links t')")
  case True
  with tip_binds [OF assms(1,2) True assms(3,4)] show ?thesis by simp
next
  case False
  then consider "length (tr_links t) < length (tr_links t')" | "length (tr_links t') < length (tr_links t)" by linarith
  then have "tail_of t t' \<or> tail_of t' t"
    using tip_binds_tail [OF assms] tip_binds_tail [OF assms(2,1) assms(3) [symmetric] collision_free_sym [OF assms(4)]] by cases auto
  with False show ?thesis by simp
qed

text \<open>C17: replay, which calls no handler, accepts a transcript exactly if its chain verifies, its manifest is the one of this
  registry, program, start and number of policies with every layer accounted for, and its entries are those of a run
  of the program in which the recorded policies, asked again, give the recorded verdicts; it returns how that run ended.\<close>

theorem replay_accepts_exactly_runs:
  "record_replay H file P t start epoch first done_bytes = Ok ended \<longleftrightarrow>
     transcript_verify H t = Ok () \<and> manifest_matches H file start (length (mf_policies (tr_manifest t))) (tr_manifest t)
     \<and> (\<exists>d. driver_start P REGISTRY epoch first = Ok d
          \<and> recording P done_bytes (mf_policies (tr_manifest t)) d (map lk_entry (tr_links t)) ended)"
  by (rule record_replay_iff)


text \<open>Concrete runs: a hash that tells strings of different lengths apart, and a terminal that crashes.\<close>

definition length_hasher :: hasher where
  "length_hasher = \<lparr>algorithm_id = [], h_hash = (\<lambda>bs. of_nat (length bs)), h_hash_parts = (\<lambda>parts. of_nat (length (concat parts)))\<rparr>"



theorem transcript_tip_binds_witness:
  "let t = transcript_append length_hasher (transcript_new sample_manifest) (EN_Crash (binding_of (opid_first 1) (sample_send [1])))
   in manifest_bytes (tr_manifest t) = manifest_bytes sample_manifest \<and> tr_links t \<noteq> []"
proof -
  let ?b = "binding_of (opid_first 1) (sample_send [1])"
  let ?t = "transcript_append length_hasher (transcript_new sample_manifest) (EN_Crash ?b)"
  have v: "transcript_verify length_hasher ?t = Ok ()" by (rule append_verified [OF transcript_new_verified])
  obtain l where l: "tr_links ?t = [l]" "lk_entry l = EN_Crash ?b"
    by (simp add: transcript_append_def transcript_new_def Let_def)
  have m: "length (manifest_bytes sample_manifest) = 144"
    by (simp add: manifest_bytes_def sample_manifest_def codec_bytes_def codec_hash_def)
  have "length (link_preimage l) = 135"
    by (simp add: link_preimage_def l(2) entry_bytes_def binding_bytes_def binding_of_def sample_send_def codec_bytes_def codec_hash_def
        store_bytes_def opid_first_def operation_store_def operation_subject_def)
  with m l have "collision_free length_hasher (transcript_preimages ?t) (transcript_preimages ?t)"
    by (auto simp: collision_free_def transcript_preimages_def length_hasher_def transcript_new_def)
  from transcript_tip_binds [OF v v refl this] show ?thesis by (simp add: transcript_new_def)
qed


end
