(* ===== verification/Spec2Isabelle.thy ===== *)
theory Spec2Isabelle
  imports Zeno_Auth_Codec Zeno_Commit_Laws Zeno_Core Zeno_Merkle_Laws Zeno_Owner_Laws Zeno_Schema_Laws Zeno_Shell_Laws Zeno_Transcript_Laws
begin

text \<open>
  \<^bold>\<open>The semantic kernel of ZenoFCIS\<close>

  ZenoFCIS separates a pure functional core from an imperative shell.  The core decides, and
  describes every consequence of the decision as data; the shell only commits that data.  This
  library models the crates under \<^verbatim>\<open>src/crates\<close> on which every other crate rests, from the value
  format up to the commit, and proves what they promise each other.

  \<^bold>\<open>The parts, bottom up\<close>

  \<^item> \<^verbatim>\<open>zeno-fcis-core\<close> (theory \<open>Zeno_Core\<close>): decisions, the choice of the first reason, resources.
  \<^item> \<^verbatim>\<open>zeno-fcis-value\<close> (\<open>Zeno_Value\<close>, laws in \<open>Zeno_Value_Laws\<close>): the canonical value algebra ZCVE/1.
    \<^verbatim>\<open>ValueRepr\<close> is the datatype \<open>Value\<close>; constructors, encoder, length computation and admission
    under limits are functions of the same names.
  \<^item> \<^verbatim>\<open>zeno-fcis-codec\<close> (\<open>Zeno_Hash\<close>, \<open>Zeno_Domains\<close>, \<open>Zeno_Codec\<close>, laws in \<open>Zeno_Codec_Laws\<close>):
    commitments with domain separation, the registry of domains, the two SHA-256 providers, the
    bounded decoder and envelopes.  Its module \<^verbatim>\<open>collection_merkle\<close> (\<open>Zeno_Merkle\<close>, laws in
    \<open>Zeno_Merkle_Laws\<close>): the commitment of a collection with 256-bit keys, by path and by rebuild.
  \<^item> \<^verbatim>\<open>zeno-fcis-schema\<close> (\<open>Zeno_Schema\<close>, laws in \<open>Zeno_Schema_Laws\<close>): closed, acyclic schemas of the first
    profile, their encoding and hash, validation of a value against a type, and the envelopes that
    carry a validated value under the hash of its schema.
  \<^item> \<^verbatim>\<open>zeno-fcis-patch\<close> (\<open>Zeno_Patch\<close>, laws in \<open>Zeno_Patch_Laws\<close> and \<open>Zeno_Patch_Codec\<close>): paths into
    values, operations with preconditions, patches between two roots, their wire format.
  \<^item> \<^verbatim>\<open>zeno-fcis-plan\<close> (\<open>Zeno_Plan\<close>, laws in \<open>Zeno_Plan_Laws\<close>): ordered effects and outbox entries.
  \<^item> \<^verbatim>\<open>zeno-fcis-receipt\<close> (\<open>Zeno_Receipt\<close>, laws in \<open>Zeno_Receipt_Laws\<close>): a candidate binds a decision,
    its patch, its plans and its roots under one identity; sealing, validation, receipts.
  \<^item> \<^verbatim>\<open>zeno-fcis-shell\<close> (\<open>Zeno_Shell\<close>, laws in \<open>Zeno_Shell_Laws\<close>): the reference semantics of commit,
    replay, outbox and acknowledgement, and the in-memory destination of deliveries.
  \<^item> \<^verbatim>\<open>zeno-fcis-shell/src/effects\<close>: effects as programs.  \<open>Zeno_Effects\<close> has the registry of ports with its
    signatures, laws and checks (\<^verbatim>\<open>registry.rs\<close>) and the requests and responses (\<^verbatim>\<open>port.rs\<close>); \<open>Zeno_Programs\<close> the
    commit and delivery programs (\<^verbatim>\<open>program.rs\<close>) and the driver (\<^verbatim>\<open>driver.rs\<close>); \<open>Zeno_Transcript\<close> the canonical bytes
    (\<^verbatim>\<open>codec.rs\<close>), veto policies (\<^verbatim>\<open>policy.rs\<close>, \<^verbatim>\<open>policy_record.rs\<close>) and transcripts with replay (\<^verbatim>\<open>record.rs\<close>);
    \<open>Zeno_Handlers\<close> terminals, the fault handler and the stack of layers (\<^verbatim>\<open>handler.rs\<close>); \<open>Zeno_Durable\<close> the relay that
    writes its reservations ahead (\<^verbatim>\<open>durable.rs\<close>); \<open>Zeno_Simulation\<close> the simulated handler (\<^verbatim>\<open>simulation.rs\<close>).  Their laws are in
    \<open>Zeno_Programs_Laws\<close>, \<open>Zeno_Commit_Laws\<close>, \<open>Zeno_Transcript_Laws\<close>, \<open>Zeno_Policy_Laws\<close> and \<open>Zeno_Durable_Laws\<close>.
  \<^item> \<^verbatim>\<open>zeno-fcis-shell-sqlite/src/effects\<close> (\<open>Zeno_Owner\<close>, laws in \<open>Zeno_Owner_Laws\<close>): the row of reservation bytes
    (\<^verbatim>\<open>durable.rs\<close>) and the trusted dispatcher with its grants (\<^verbatim>\<open>owner.rs\<close>).
  \<^item> \<^verbatim>\<open>zeno-fcis-authenticated\<close> (\<open>Zeno_Auth\<close>, laws in \<open>Zeno_Auth_Laws\<close> and \<open>Zeno_Auth_Codec\<close>): a versioned sparse Merkle
    tree over the leaves that a projector reads off the state, proofs of membership and absence, update plans made from a
    patch, and the wire formats of proofs and plans.  The project's projector is a parameter.

  A bundle travels the stack: \<^verbatim>\<open>seal\<close> hashes a patch and two plans over a state, the bundle decoder
  rebuilds it from bytes, \<^verbatim>\<open>apply_reference_bundle\<close> validates it against the shell's state by sealing
  it again, applies the patch and files receipt, replay record and outbox records; a client then
  relays the outbox to a destination and acknowledges.  Beside it, the planner of the authenticated tree applies the same patch
  and plans the tree of the patched state; the tree takes the plan only at the version and root it was made for.

  An effect is a request that a program hands to the driver, which admits one answer for it; a stack of layers passes the
  request through its policies to a terminal and records it; the durable relay does the same for sends with its
  policies' state in a store, and the dispatcher puts authority in front of the relay: a worker presents a handle, the dispatcher
  compares it with its grants and the pending intents, and only then relays the send.

  \<^bold>\<open>Conventions\<close>

  \<open>Zeno_Prelude\<close> holds what the components share.  A \<^verbatim>\<open>Result\<close> is a sum with the error on the left
  (\<open>Err\<close>, \<open>Ok\<close>), the \<^verbatim>\<open>?\<close> operator is \<open>rbind\<close>, a \<^verbatim>\<open>for\<close> loop with \<^verbatim>\<open>?\<close> is \<open>fold_res\<close> or \<open>map_res\<close>, every error
  variant of the source is a constructor.  Bytes are 8-bit words; field identifiers, ordinals and
  payload integers are words of their width; hashes are 256-bit words, written big-endian, whose
  order is the order of the byte arrays.  Sizes and counters are natural numbers with
  \<^verbatim>\<open>checked_add\<close>, \<^verbatim>\<open>try_from\<close> and \<^verbatim>\<open>usize\<close> bounds written out (64-bit platform).  A text that the
  source keeps as a checked string is its bytes.  The bisection of the standard library is modelled
  as it is written.  The hash function is a parameter (\<open>hasher\<close>): the SHA-256 engine is a third-party
  crate, and what is used of it is the locale \<open>commitment_hasher\<close>, that hashing parts is hashing
  their concatenation.  No statement assumes that the hash has no collisions; where identity rests
  on it, the statement names the byte strings that would have to collide.

  \<^bold>\<open>Interfaces\<close>

  \<open>byte_cursor\<close> and \<open>framed_items\<close> give the reading of bytes and of counted items once for all five
  cursors of the source; \<open>canonical_decoder\<close> is the contract of a strict decoder; \<open>ordered_index\<close> is a
  table kept in key order and searched by bisection, interpreted on value fields, map entries, the
  types and variants of a schema, the three tables of the shell and the writes of an authenticated plan; \<open>unique_ordinals\<close> (sorting and refusing
  a repeated key) serves both plans and the tables of a schema; \<open>type_table\<close> is a table of types in the
  order of their identifiers, over which the search for cycles is verified; \<open>prefix_code\<close> is an encoding
  that can be read back from the front of a longer input, used for each level of the schema format; \<open>commitment_hasher\<close> and
  \<open>sha2_engine\<close> are the providers' contracts; \<open>idempotent_destination\<close> is the trait of the shell's
  destinations, interpreted on the in-memory one.
  For the effects, \<open>effect_program\<close> is what the driver relies on (requests that conform, in sequence, with a rank that falls),
  interpreted on the commit and the delivery program, and \<open>metered_program\<close> extends it by what an answer pays for, interpreted on the
  delivery program; \<open>commit_store\<close> is what the commit program relies on, interpreted on the simulated
  handler; \<open>reservation\<close> is the discipline of reserving a key before its only use, interpreted on the stack, and reached from the store of
  checkpoints by \<open>atomic_cell\<close> and from the SQLite row by \<open>row_table\<close>, with sublocales for the relay and for the dispatcher.

  \<^bold>\<open>What the lemmas show\<close>

  Values: constructors establish the invariant \<open>repr_valid\<close>, the encoder is exact, the format is
  injective.  Codec: the decoder accepts exactly the encodings of valid values within the limits,
  and the memory it reserves is bounded.  Domains: preimages of different domains never meet.
  Collections: the update of a path is a full rebuild of the updated map, prefixes and bounds are exact,
  and a root binds the map.
  Schemas: construction succeeds exactly on closed acyclic tables without duplicates and within the limits,
  whatever their order; validation accepts exactly the values of an inductive typing relation that stay
  within the budget; the hash of a schema binds it; an envelope binds schema, type and value.
  Patches: application checks and establishes exactly what the operations say and frames the rest;
  the decoder is exact.  Plans: construction finds duplicates exactly and does not depend on order.
  Receipts: validation accepts exactly what sealing builds, the decoders are exact and an identity
  binds a bundle.  Shell: an invariant of all reachable states, refinement of an abstract shell over
  finite maps, one linear history of commits, idempotent replay, and draining of the outbox into a destination
  that has bound nothing else under its identities.
  Programs: every request conforms to the registry, the driver admits exactly the fitting answers, both programs end (the
  commit program for invocations within the registry's bounds, the delivery program for a nonzero range of jitter), and
  what they report is true of the answers and, for the commit, of the simulated store under every schedule of faults.
  Transcripts: the tip binds the manifest and the entries of transcripts of one length, replay accepts exactly the runs of the program, and what a stack records replays.
  Authenticated state: the code computes the digest of a reference tree over the bits of the keys; proofs are complete for
  every reachable tree and sound up to collisions of strings that are named; a plan applies once, and gives exactly the
  tree of the patched state; both decoders are exact.
  Policies, relay, dispatcher: a delivery reaches an effect at most once, through crashes, reopening, several relays and
  restarts; checkpoints restore to what was written; a dispatch needs a grant that matches and otherwise names what is missing; the tables of
  grants stay exact, and under one brand no number is issued twice.

  \<^bold>\<open>Termination and bounds\<close>

  Every definition is total and no definition takes fuel.  A run of the commit program has at most
  \<open>3 * retries + 1\<close> requests answered, \<open>3 * retries + 3\<close> when it recovers, and one of the delivery program at most
  \<open>4 * retries + 2 * n + 1\<close> for the \<open>n\<close> records that it reads, which are at most \<open>2 ^ 20\<close>; replay consumes one link or more per round.  The decoder ends because it refuses a
  depth above the supported 1024 before it recurses; loops with a declared count recurse on the
  count.  The search for cycles in a schema ends because each visit marks a type that was not marked;
  its recursion indexes the table only in range, so the panic that the model has as an error (\<open>SCE_Panic\<close>)
  never comes out of construction.  The recursions over the sparse tree end at its depth of 256.  Validation recurses on the value; the statement about it is for depth
  limits below 65535, since the code computes the depth of the children of an empty container as well.

  \<^bold>\<open>Not modelled\<close>

  Display and error-formatting code, accessors of private fields and ghost code for Verus; the
  second profile of values, codec and schemas; the bounded explorers and run-time checks of laws under
  \<^verbatim>\<open>effects\<close> (\<^verbatim>\<open>explore.rs\<close>, \<^verbatim>\<open>laws.rs\<close>, \<^verbatim>\<open>policy_product.rs\<close>), which test what is proved here; the SQLite shell and its
  production terminal, and the creation, opening and locking of reservation files (database and file access): the terminal is a parameter
  of the dispatcher, and its store a contract; the text of compiled-in source files, which is a parameter;
  the specification language and everything generated from it; adapters, command line, ingress and
  build tooling (input and output).  The manifest lists every part.
\<close>

end
